(* ===== verification/Prelude.thy ===== *)
theory Prelude
  imports Main "HOL-Library.Word"
begin

text \<open>
  What every component of the development shares: machine integers of the C++ code
  (\<open>int\<close> is 32 bits and wraps in two's complement, \<open>uint32_t\<close> is a word), the
  error values its exceptions become, and list lemmas about filtering, replacing one
  element and splitting at a predicate.
\<close>

section \<open>Collections of facts\<close>

named_theorems cint_simps \<open>facts about the 32-bit arithmetic of the C++ code\<close>
named_theorems decimal_simps \<open>facts about printing and reading decimal numbers\<close>
named_theorems token_simps \<open>facts about tokens of the wire protocol\<close>

section \<open>Machine integers\<close>

abbreviation INT_MAX :: int where "INT_MAX \<equiv> 2147483647"
abbreviation INT_MIN :: int where "INT_MIN \<equiv> - 2147483648"
abbreviation LONG_MAX :: int where "LONG_MAX \<equiv> 9223372036854775807"
abbreviation LONG_MIN :: int where "LONG_MIN \<equiv> - 9223372036854775808"

text \<open>
  The value a C++ \<open>int\<close> holds after an operation whose mathematical result is the
  argument (conversion from \<open>long\<close>, or an addition that may overflow).
\<close>

definition s32 :: "int \<Rightarrow> int" where
  "s32 x = (x + 2147483648) mod 4294967296 - 2147483648"

definition in_i32 :: "int \<Rightarrow> bool" where
  "in_i32 x \<longleftrightarrow> INT_MIN \<le> x \<and> x \<le> INT_MAX"

lemma s32_id [cint_simps]: "INT_MIN \<le> x \<Longrightarrow> x \<le> INT_MAX \<Longrightarrow> s32 x = x"
  by (simp add: s32_def)

lemma s32_in [cint_simps]: "in_i32 x \<Longrightarrow> s32 x = x"
  by (simp add: in_i32_def s32_id)

lemma s32_range: "INT_MIN \<le> s32 x \<and> s32 x \<le> INT_MAX"
proof -
  have "0 \<le> (x + 2147483648) mod 4294967296" "(x + 2147483648) mod 4294967296 < 4294967296"
    by simp_all
  then show ?thesis by (simp add: s32_def)
qed

lemma in_i32_s32: "in_i32 (s32 x)"
  using s32_range by (simp add: in_i32_def)

text \<open>Integer division of C++ truncates towards zero.\<close>

definition cdiv :: "int \<Rightarrow> int \<Rightarrow> int" where
  "cdiv a b = sgn a * sgn b * (\<bar>a\<bar> div \<bar>b\<bar>)"

lemma cdiv_nonneg [cint_simps]: "0 \<le> a \<Longrightarrow> 0 < b \<Longrightarrow> cdiv a b = a div b"
  by (cases "a = 0") (simp_all add: cdiv_def)

section \<open>Wire identifiers\<close>

text \<open>\<open>using TileWireId = uint32_t\<close>\<close>

type_synonym wire_id = "32 word"

text \<open>Conversion of an \<open>int\<close> to \<open>uint32_t\<close>, and the decimal value printed for one.\<close>

abbreviation to_u32 :: "int \<Rightarrow> wire_id" where "to_u32 i \<equiv> word_of_int i"

lemma uint_u32_bounds: "0 \<le> uint (w :: wire_id)" "uint (w :: wire_id) < 4294967296"
  using uint_ge_0 [of w] uint_lt2p [of w] by simp_all

lemma to_u32_s32_uint [simp]: "to_u32 (s32 (uint (w :: wire_id))) = w"
proof -
  have "s32 (uint w) mod 4294967296 = uint w mod 4294967296"
  proof -
    have "s32 (uint w) mod 4294967296
      = ((uint w + 2147483648) mod 4294967296 - 2147483648) mod 4294967296"
      by (simp add: s32_def)
    also have "\<dots> = (uint w + 2147483648 - 2147483648) mod 4294967296"
      by (rule mod_diff_left_eq)
    finally show ?thesis by simp
  qed
  also have "\<dots> = uint w" using uint_u32_bounds [of w] by simp
  finally have "uint (to_u32 (s32 (uint w)) :: wire_id) = uint w"
    by (simp add: uint_word_of_int)
  then show ?thesis by (simp only: word_uint_eq_iff)
qed

section \<open>Errors\<close>

text \<open>
  The exceptions the modelled code throws, with the text it throws them with; a failed
  assertion; and an access outside a container, which C++ leaves undefined.
\<close>

datatype error =
    BadArgument string
  | RuntimeError string
  | AssertionFailed
  | OutOfBounds

type_synonym 'a res = "error + 'a"

abbreviation Ok :: "'a \<Rightarrow> 'a res" where "Ok x \<equiv> Inr x"
abbreviation Err :: "error \<Rightarrow> 'a res" where "Err e \<equiv> Inl e"

fun res_bind :: "'a res \<Rightarrow> ('a \<Rightarrow> 'b res) \<Rightarrow> 'b res" where
  "res_bind (Inl e) f = Inl e"
| "res_bind (Inr x) f = f x"

lemma res_bind_Ok: "res_bind m f = Ok y \<longleftrightarrow> (\<exists>x. m = Ok x \<and> f x = Ok y)"
  by (cases m) auto

section \<open>Lists\<close>

text \<open>\<open>vec.erase(vec.begin() + i)\<close> and \<open>vec.insert(vec.begin() + i, x)\<close>\<close>

definition erase_at :: "nat \<Rightarrow> 'a list \<Rightarrow> 'a list" where
  "erase_at i xs = take i xs @ drop (Suc i) xs"

definition insert_at :: "nat \<Rightarrow> 'a \<Rightarrow> 'a list \<Rightarrow> 'a list" where
  "insert_at i x xs = take i xs @ x # drop i xs"

text \<open>\<open>vec.erase(vec.begin() + i, vec.begin() + j)\<close>\<close>

definition erase_range :: "nat \<Rightarrow> nat \<Rightarrow> 'a list \<Rightarrow> 'a list" where
  "erase_range i j xs = take i xs @ drop j xs"

lemma length_erase_at [simp]: "i < length xs \<Longrightarrow> length (erase_at i xs) = length xs - 1"
  by (simp add: erase_at_def)

lemma set_erase_at: "set (erase_at i xs) \<subseteq> set xs"
  by (auto simp: erase_at_def dest: in_set_takeD in_set_dropD)

lemma erase_at_append [simp]: "erase_at (length xs) (xs @ y # ys) = xs @ ys"
  by (simp add: erase_at_def)

lemma insert_at_append [simp]: "insert_at (length xs) x (xs @ ys) = xs @ x # ys"
  by (simp add: insert_at_def)

text \<open>\<open>std::find_if\<close>, and \<open>erase\<close> of what it found\<close>

fun find_index :: "('a \<Rightarrow> bool) \<Rightarrow> 'a list \<Rightarrow> nat option" where
  "find_index P [] = None"
| "find_index P (x # xs) = (if P x then Some 0 else map_option Suc (find_index P xs))"

definition erase_first :: "('a \<Rightarrow> bool) \<Rightarrow> 'a list \<Rightarrow> 'a list" where
  "erase_first P xs = (case find_index P xs of None \<Rightarrow> xs | Some i \<Rightarrow> erase_at i xs)"

lemma find_index_Some: "find_index P xs = Some i \<Longrightarrow> i < length xs \<and> P (xs ! i) \<and> (\<forall>j < i. \<not> P (xs ! j))"
proof (induction xs arbitrary: i)
  case (Cons x xs)
  show ?case
  proof (cases "P x")
    case True
    then show ?thesis using Cons.prems by simp
  next
    case False
    then obtain j where j: "find_index P xs = Some j" "i = Suc j" using Cons.prems by auto
    then show ?thesis using Cons.IH [OF j(1)] False by (auto simp: nth_Cons split: nat.splits)
  qed
qed simp

lemma find_index_None: "find_index P xs = None \<longleftrightarrow> (\<forall>x \<in> set xs. \<not> P x)"
  by (induction xs) auto

lemma takeWhile_split: "xs = takeWhile P xs @ dropWhile P xs"
  by simp

lemma dropWhile_first: "dropWhile P xs = y # ys \<Longrightarrow> \<not> P y"
  by (metis hd_dropWhile list.distinct(1) list.sel(1))

lemma sorted_wrt_erase_at: "sorted_wrt R xs \<Longrightarrow> sorted_wrt R (erase_at i xs)"
proof -
  assume s: "sorted_wrt R xs"
  show ?thesis
  proof (cases "i < length xs")
    case True
    then have "xs = take i xs @ xs ! i # drop (Suc i) xs" by (simp add: id_take_nth_drop)
    with s have "sorted_wrt R (take i xs @ xs ! i # drop (Suc i) xs)" by simp
    then show ?thesis by (auto simp: erase_at_def sorted_wrt_append)
  next
    case False
    with s show ?thesis by (simp add: erase_at_def)
  qed
qed

text \<open>Removing the elements of a filter and keeping the rest, in order.\<close>

lemma sorted_wrt_filter_imp: "sorted_wrt R xs \<Longrightarrow> sorted_wrt R (filter P xs)"
  by (induction xs) auto

lemma sum_list_map_erase:
  fixes f :: "'a \<Rightarrow> 'b::comm_monoid_add"
  assumes "i < length xs"
  shows "sum_list (map f xs) = f (xs ! i) + sum_list (map f (erase_at i xs))"
proof -
  have "xs = take i xs @ xs ! i # drop (Suc i) xs" by (rule id_take_nth_drop [OF assms])
  then have "sum_list (map f xs) = sum_list (map f (take i xs @ xs ! i # drop (Suc i) xs))"
    by simp
  then show ?thesis by (simp add: erase_at_def ac_simps)
qed

text \<open>A loop over indices that only looks at the elements is a loop over the elements.\<close>

lemma fold_upt_nth:
  assumes "\<And>i st. i < length xs \<Longrightarrow> f i st = g (xs ! i) st"
  shows "fold f [0..<length xs] st = fold g xs st"
proof -
  have "fold f [0..<length xs] st = fold (\<lambda>i. g (xs ! i)) [0..<length xs] st"
    by (rule fold_cong) (auto simp: assms fun_eq_iff)
  also have "\<dots> = fold g (map ((!) xs) [0..<length xs]) st"
    by (simp add: fold_map comp_def)
  finally show ?thesis by (simp add: map_nth)
qed

section \<open>Loops that may throw\<close>

fun res_fold :: "('a \<Rightarrow> 's \<Rightarrow> 's res) \<Rightarrow> 'a list \<Rightarrow> 's \<Rightarrow> 's res" where
  "res_fold f [] s = Ok s"
| "res_fold f (x # xs) s = res_bind (f x s) (res_fold f xs)"

lemma res_fold_append: "res_fold f (xs @ ys) s = res_bind (res_fold f xs s) (res_fold f ys)"
proof (induction xs arbitrary: s)
  case (Cons x xs)
  then show ?case by (cases "f x s") simp_all
qed simp

lemma res_fold_invariant:
  assumes "res_fold f xs s = Ok s'" "P s" "\<And>x s s'. x \<in> set xs \<Longrightarrow> P s \<Longrightarrow> f x s = Ok s' \<Longrightarrow> P s'"
  shows "P s'"
  using assms
proof (induction xs arbitrary: s)
  case (Cons x xs)
  then obtain t where t: "f x s = Ok t" "res_fold f xs t = Ok s'" by (auto simp: res_bind_Ok)
  with Cons.prems have "P t" by auto
  with t Cons show ?case by auto
qed simp

end
