(* ===== verification/CxxLib.thy ===== *)
theory CxxLib
  imports Prelude
begin

text \<open>
  The functions of the C and C++ standard library the modelled code calls, as their
  documentation states them: character classes, \<open>strtol\<close> and its relatives, printing of
  integers (\<open>operator<<\<close>, \<open>std::to_string\<close>), substrings and searches of
  \<open>std::string\<close>, and \<open>std::lower_bound\<close> as the binary search it is. The lemmas say
  that reading a printed number gives the number back, and that the binary search finds the
  partition point of any list that has one.
\<close>

section \<open>Characters\<close>

definition is_digit :: "char \<Rightarrow> bool" where
  "is_digit c \<longleftrightarrow> 48 \<le> (of_char c :: nat) \<and> (of_char c :: nat) \<le> 57"

definition is_space :: "char \<Rightarrow> bool" where
  "is_space c \<longleftrightarrow> c = CHR '' '' \<or> (9 \<le> (of_char c :: nat) \<and> (of_char c :: nat) \<le> 13)"

definition digit_val :: "char \<Rightarrow> int" where
  "digit_val c = of_char c - 48"

definition digit_char :: "nat \<Rightarrow> char" where
  "digit_char d = char_of (48 + d)"

abbreviation newline :: char where "newline \<equiv> CHR 0x0A"
abbreviation nul :: char where "nul \<equiv> CHR 0x00"

lemma of_char_digit_char: "d < 10 \<Longrightarrow> (of_char (digit_char d) :: nat) = 48 + d"
  by (simp add: digit_char_def)

lemma is_digit_digit_char [simp]: "d < 10 \<Longrightarrow> is_digit (digit_char d)"
  by (simp add: is_digit_def of_char_digit_char)

lemma digit_val_digit_char [simp]: "d < 10 \<Longrightarrow> digit_val (digit_char d) = int d"
proof -
  assume "d < 10"
  then have "(of_char (digit_char d) :: int) = int (48 + d)"
    using of_char_digit_char [of d] by (metis of_nat_of_char)
  then show ?thesis by (simp add: digit_val_def)
qed

lemma digit_val_bounds: "is_digit c \<Longrightarrow> 0 \<le> digit_val c \<and> digit_val c \<le> 9"
proof -
  assume "is_digit c"
  then have "int 48 \<le> int (of_char c)" "int (of_char c) \<le> int 57"
    unfolding is_digit_def by (metis of_nat_le_iff)+
  moreover have "(of_char c :: int) = int (of_char c)" by (rule of_nat_of_char [symmetric])
  ultimately show ?thesis unfolding digit_val_def by linarith
qed

lemma not_digit_minus [simp]: "\<not> is_digit (CHR ''-'')" and not_digit_plus [simp]: "\<not> is_digit (CHR ''+'')"
  and not_digit_space [simp]: "\<not> is_digit (CHR '' '')" and not_digit_comma [simp]: "\<not> is_digit (CHR '','')"
  and not_digit_newline [simp]: "\<not> is_digit newline" and not_digit_eq [simp]: "\<not> is_digit (CHR ''='')"
  by (simp_all add: is_digit_def)

lemma digit_not_space: "is_digit c \<Longrightarrow> \<not> is_space c"
  by (auto simp: is_digit_def is_space_def)

lemma is_space_minus [simp]: "\<not> is_space (CHR ''-'')" and is_space_plus [simp]: "\<not> is_space (CHR ''+'')"
  by (simp_all add: is_space_def)

section \<open>Numbers as text\<close>

text \<open>The value of a run of digits read from the left, starting from \<open>r\<close>.\<close>

definition digits_val :: "int \<Rightarrow> string \<Rightarrow> int" where
  "digits_val r ds = foldl (\<lambda>n c. n * 10 + digit_val c) r ds"

lemma digits_val_Nil [simp]: "digits_val r [] = r"
  and digits_val_Cons [simp]: "digits_val r (c # cs) = digits_val (r * 10 + digit_val c) cs"
  and digits_val_append [simp]: "digits_val r (xs @ ys) = digits_val (digits_val r xs) ys"
  by (simp_all add: digits_val_def)

lemma digits_val_ge: "\<forall>c\<in>set ds. is_digit c \<Longrightarrow> 0 \<le> r \<Longrightarrow> r \<le> digits_val r ds"
proof (induction ds arbitrary: r)
  case (Cons c ds)
  then have "0 \<le> digit_val c" using digit_val_bounds by auto
  with Cons.prems have "r \<le> r * 10 + digit_val c" by simp
  also have "\<dots> \<le> digits_val (r * 10 + digit_val c) ds"
    using Cons \<open>0 \<le> digit_val c\<close> by auto
  finally show ?case by simp
qed simp

text \<open>\<open>operator<<\<close> and \<open>std::to_string\<close> on integers\<close>

fun show_nat :: "nat \<Rightarrow> string" where
  "show_nat n = (if n < 10 then [digit_char n] else show_nat (n div 10) @ [digit_char (n mod 10)])"

declare show_nat.simps [simp del]

definition show_int :: "int \<Rightarrow> string" where
  "show_int i = (if i < 0 then CHR ''-'' # show_nat (nat (- i)) else show_nat (nat i))"

definition show_u32 :: "wire_id \<Rightarrow> string" where
  "show_u32 w = show_nat (unat w)"

lemma show_nat_digits: "c \<in> set (show_nat n) \<Longrightarrow> is_digit c"
proof (induction n rule: show_nat.induct)
  case (1 n)
  show ?case
  proof (cases "n < 10")
    case True
    with 1 show ?thesis by (simp add: show_nat.simps [of n])
  next
    case False
    with 1 show ?thesis by (auto simp: show_nat.simps [of n])
  qed
qed

lemma show_nat_nonempty [simp]: "show_nat n \<noteq> []"
  by (simp add: show_nat.simps [of n])

lemma show_int_nonempty [simp]: "show_int i \<noteq> []"
  by (simp add: show_int_def)

lemma digits_val_show_nat [simp]: "digits_val 0 (show_nat n) = int n"
proof (induction n rule: show_nat.induct)
  case (1 n)
  show ?case
  proof (cases "n < 10")
    case True
    then show ?thesis by (simp add: show_nat.simps [of n])
  next
    case False
    with 1 have "digits_val 0 (show_nat (n div 10)) = int (n div 10)" by simp
    moreover have "int (n div 10) * 10 + int (n mod 10) = int n"
      by (metis div_mult_mod_eq of_nat_add of_nat_mult of_nat_numeral)
    ultimately show ?thesis using False by (simp add: show_nat.simps [of n])
  qed
qed

lemma show_int_chars: "c \<in> set (show_int i) \<Longrightarrow> is_digit c \<or> c = CHR ''-''"
  using show_nat_digits by (auto simp: show_int_def split: if_splits)

lemma show_u32_show_int: "show_u32 w = show_int (uint w)"
  by (simp add: show_u32_def show_int_def)

lemma hd_show_nat: "is_digit (hd (show_nat n))"
  by (rule show_nat_digits [where n = n]) simp

section \<open>Reading numbers\<close>

text \<open>Optional sign: is it negative, and what follows.\<close>

fun read_sign :: "string \<Rightarrow> bool \<times> string" where
  "read_sign (c # cs) =
    (if c = CHR ''-'' then (True, cs) else if c = CHR ''+'' then (False, cs) else (False, c # cs))"
| "read_sign [] = (False, [])"

text \<open>
  \<open>strtol(str, &endptr, 10)\<close> with a 64-bit \<open>long\<close>: the value, whether
  \<open>endptr > str\<close>, and whether \<open>errno\<close> is \<open>ERANGE\<close>.
\<close>

definition strtol :: "string \<Rightarrow> int \<times> bool \<times> bool" where
  "strtol s =
    (let (neg, s') = read_sign (dropWhile is_space s);
         ds = takeWhile is_digit s';
         v = (if neg then - digits_val 0 ds else digits_val 0 ds);
         r = max LONG_MIN (min LONG_MAX v)
     in (r, ds \<noteq> [], r \<noteq> v))"

text \<open>\<open>std::atoi\<close>: the \<open>long\<close> converted to \<open>int\<close>\<close>

definition atoi :: "string \<Rightarrow> int" where
  "atoi s = s32 (fst (strtol s))"

text \<open>
  \<open>strtoul\<close> and \<open>strtoull\<close>: a 64-bit result, which a minus sign negates modulo
  \<open>2 ^ 64\<close>; \<open>ULONG_MAX\<close> and \<open>ERANGE\<close> when the digits overflow.
\<close>

definition strtoul :: "string \<Rightarrow> 64 word \<times> bool \<times> bool" where
  "strtoul s =
    (let (neg, s') = read_sign (dropWhile is_space s);
         ds = takeWhile is_digit s';
         v = digits_val 0 ds
     in if v \<ge> 2 ^ 64 then (- 1, True, True)
        else ((if neg then - word_of_int v else word_of_int v), ds \<noteq> [], False))"

text \<open>\<open>std::stoi\<close>: throws when there is no number, or it is not an \<open>int\<close>\<close>

definition stoi :: "string \<Rightarrow> int res" where
  "stoi s = (case strtol s of (v, some, erange) \<Rightarrow>
     if \<not> some then Err (BadArgument ''stoi'')
     else if erange \<or> v < INT_MIN \<or> v > INT_MAX then Err (RuntimeError ''stoi'')
     else Ok v)"

lemma takeWhile_digits_show_nat:
  "rest = [] \<or> \<not> is_digit (hd rest) \<Longrightarrow> takeWhile is_digit (show_nat n @ rest) = show_nat n"
  using show_nat_digits by (cases rest) (auto simp: takeWhile_append)

lemma dropWhile_space_show_int: "dropWhile is_space (show_int i @ rest) = show_int i @ rest"
proof -
  have "\<not> is_space (hd (show_int i))"
    using show_int_chars [of "hd (show_int i)" i] digit_not_space by auto
  then show ?thesis by (cases "show_int i") auto
qed

lemma read_sign_show_int:
  "read_sign (show_int i @ rest) = (i < 0, show_nat (nat \<bar>i\<bar>) @ rest)"
proof (cases "i < 0")
  case True
  then show ?thesis by (simp add: show_int_def)
next
  case False
  obtain c cs where c: "show_nat (nat i) = c # cs" by (cases "show_nat (nat i)") auto
  have "is_digit c" using hd_show_nat [of "nat i"] c by simp
  then have "c \<noteq> CHR ''-''" "c \<noteq> CHR ''+''" by auto
  with False c show ?thesis by (simp add: show_int_def)
qed

lemma strtol_show_int_gen:
  assumes "rest = [] \<or> \<not> is_digit (hd rest)"
  shows "strtol (show_int i @ rest) =
    (max LONG_MIN (min LONG_MAX i), True, max LONG_MIN (min LONG_MAX i) \<noteq> i)"
proof -
  have v: "(if i < 0 then - digits_val 0 (show_nat (nat \<bar>i\<bar>)) else digits_val 0 (show_nat (nat \<bar>i\<bar>))) = i"
    by simp
  show ?thesis
    unfolding strtol_def dropWhile_space_show_int read_sign_show_int Let_def prod.case
      takeWhile_digits_show_nat [OF assms] v
    by simp
qed

lemma strtol_show_int [decimal_simps]:
  assumes "LONG_MIN \<le> i" "i \<le> LONG_MAX"
  shows "strtol (show_int i) = (i, True, False)"
  using strtol_show_int_gen [of "[]" i] assms by simp

lemma strtol_show_int_followed [decimal_simps]:
  assumes "LONG_MIN \<le> i" "i \<le> LONG_MAX" "\<not> is_digit c"
  shows "strtol (show_int i @ c # rest) = (i, True, False)"
  using strtol_show_int_gen [of "c # rest" i] assms by simp

lemma atoi_show_int_followed [decimal_simps]:
  "INT_MIN \<le> i \<Longrightarrow> i \<le> INT_MAX \<Longrightarrow> \<not> is_digit c \<Longrightarrow> atoi (show_int i @ c # rest) = i"
  by (simp add: atoi_def strtol_show_int_followed s32_id)

section \<open>Strings\<close>

text \<open>\<open>s.find(c)\<close>: the position of the first \<open>c\<close>, None for \<open>npos\<close>\<close>

definition find_char :: "char \<Rightarrow> string \<Rightarrow> nat option" where
  "find_char c s = (if c \<in> set s then Some (length (takeWhile (\<lambda>x. x \<noteq> c) s)) else None)"

text \<open>\<open>s.find(sub, pos)\<close>\<close>

definition starts_with :: "string \<Rightarrow> string \<Rightarrow> bool" where
  "starts_with p s \<longleftrightarrow> take (length p) s = p"

fun find_sub :: "string \<Rightarrow> string \<Rightarrow> nat option" where
  "find_sub sub [] = (if sub = [] then Some 0 else None)"
| "find_sub sub (c # cs) =
    (if starts_with sub (c # cs) then Some 0 else map_option Suc (find_sub sub cs))"

definition find_from :: "string \<Rightarrow> string \<Rightarrow> nat \<Rightarrow> nat option" where
  "find_from s sub pos =
    (if length s < pos then None else map_option ((+) pos) (find_sub sub (drop pos s)))"

text \<open>\<open>s.substr(pos, len)\<close> for \<open>pos\<close> within the string\<close>

definition substr :: "string \<Rightarrow> nat \<Rightarrow> nat \<Rightarrow> string" where
  "substr s pos len = take len (drop pos s)"

lemma find_char_None: "find_char c s = None \<longleftrightarrow> c \<notin> set s"
  by (simp add: find_char_def)

lemma find_char_append: "c \<notin> set xs \<Longrightarrow> find_char c (xs @ c # ys) = Some (length xs)"
  proof -
  assume "c \<notin> set xs"
  then have "takeWhile (\<lambda>x. x \<noteq> c) (xs @ c # ys) = xs @ takeWhile (\<lambda>x. x \<noteq> c) (c # ys)"
    by (intro takeWhile_append2) auto
  then show ?thesis by (simp add: find_char_def)
qed

lemma find_char_Some:
  assumes "find_char c s = Some k"
  shows "k < length s \<and> s ! k = c \<and> c \<notin> set (take k s)"
proof -
  have c: "c \<in> set s" and k: "k = length (takeWhile (\<lambda>x. x \<noteq> c) s)"
    using assms by (auto simp: find_char_def split: if_splits)
  from c obtain ys zs where s: "s = ys @ c # zs" "c \<notin> set ys" by (meson split_list_first)
  then have "k = length ys" using k assms find_char_append [of c ys zs] by simp
  with s show ?thesis by simp
qed

lemma find_sub_Some: "find_sub sub s = Some i \<Longrightarrow> starts_with sub (drop i s) \<and> i \<le> length s"
  by (induction s arbitrary: i) (auto simp: starts_with_def split: if_splits)

section \<open>Binary search\<close>

text \<open>
  \<open>std::lower_bound(first, last, value, less)\<close> as the library implements it: halving a
  range of length \<open>len\<close>; the predicate is \<open>less(element, value)\<close>.
\<close>

function lower_bound_loop :: "('a \<Rightarrow> bool) \<Rightarrow> 'a list \<Rightarrow> nat \<Rightarrow> nat \<Rightarrow> nat" where
  "lower_bound_loop below xs first len =
    (if 0 < len then
       let half = len div 2; middle = first + half in
       if below (xs ! middle) then lower_bound_loop below xs (Suc middle) (len - half - 1)
       else lower_bound_loop below xs first half
     else first)"
  by pat_completeness auto
termination
  by (relation "measure (\<lambda>(below, xs, first, len). len)") auto

declare lower_bound_loop.simps [simp del]

definition lower_bound :: "('a \<Rightarrow> bool) \<Rightarrow> 'a list \<Rightarrow> nat" where
  "lower_bound below xs = lower_bound_loop below xs 0 (length xs)"

text \<open>A list is partitioned when the elements below the value come first.\<close>

definition partitioned :: "('a \<Rightarrow> bool) \<Rightarrow> 'a list \<Rightarrow> bool" where
  "partitioned below xs \<longleftrightarrow> sorted_wrt (\<lambda>x y. below y \<longrightarrow> below x) xs"

lemma partitioned_nth:
  assumes "partitioned below xs" "i < length xs"
  shows "below (xs ! i) \<longleftrightarrow> i < length (takeWhile below xs)"
proof
  assume l: "below (xs ! i)"
  show "i < length (takeWhile below xs)"
  proof (rule ccontr)
    let ?n = "length (takeWhile below xs)"
    assume "\<not> i < ?n"
    then have le: "?n \<le> i" by simp
    then have n: "?n < length xs" using assms(2) by simp
    then have nl: "\<not> below (xs ! ?n)" by (rule nth_length_takeWhile)
    show False
    proof (cases "?n = i")
      case True
      with nl l show False by simp
    next
      case False
      with le have "?n < i" by simp
      with assms have "below (xs ! i) \<longrightarrow> below (xs ! ?n)"
        using sorted_wrt_nth_less [of "\<lambda>x y. below y \<longrightarrow> below x" xs ?n i]
        by (simp add: partitioned_def)
      with nl l show False by simp
    qed
  qed
next
  assume "i < length (takeWhile below xs)"
  then show "below (xs ! i)" by (metis nth_mem set_takeWhileD takeWhile_nth)
qed

lemma lower_bound_loop_eq:
  assumes "partitioned below xs" "first \<le> n" "n \<le> first + len" "first + len \<le> length xs"
    and "n = length (takeWhile below xs)"
  shows "lower_bound_loop below xs first len = n"
  using assms(2-4)
proof (induction len arbitrary: first rule: less_induct)
  case (less len)
  let ?h = "len div 2"
  show ?case
  proof (cases "0 < len")
    case True
    then have h: "?h < len" "first + ?h < length xs" using less.prems by auto
    note unfold = lower_bound_loop.simps [of _ xs first len]
    show ?thesis
    proof (cases "below (xs ! (first + ?h))")
      case l: True
      then have "first + ?h < n" using partitioned_nth [OF assms(1) h(2)] assms(5) by simp
      with less.prems h True have "lower_bound_loop below xs (Suc (first + ?h)) (len - ?h - 1) = n"
        by (intro less.IH) auto
      with l True show ?thesis by (simp add: unfold Let_def)
    next
      case l: False
      then have "n \<le> first + ?h" using partitioned_nth [OF assms(1) h(2)] assms(5) by simp
      with less.prems h have "lower_bound_loop below xs first ?h = n" by (intro less.IH) auto
      with l True show ?thesis by (simp add: unfold Let_def)
    qed
  next
    case False
    then have "lower_bound_loop below xs first len = first" by (subst lower_bound_loop.simps) simp
    with False less.prems show ?thesis by simp
  qed
qed

lemma lower_bound_eq: "partitioned below xs \<Longrightarrow> lower_bound below xs = length (takeWhile below xs)"
  unfolding lower_bound_def
  by (rule lower_bound_loop_eq) (simp_all add: length_takeWhile_le)

lemma length_takeWhile_index:
  fixes f :: "'a \<Rightarrow> 'b::linorder"
  assumes "sorted_wrt (<) (map f xs)" "i < length xs"
  shows "length (takeWhile (\<lambda>a. f a < f (xs ! i)) xs) = i"
proof -
  have s: "f (xs ! j) < f (xs ! k)" if "j < k" "k < length xs" for j k
    using assms(1) that sorted_wrt_nth_less [of "(<)" "map f xs" j k] by simp
  have "takeWhile (\<lambda>a. f a < f (xs ! i)) xs = take i xs"
    by (rule takeWhile_eq_take_P_nth) (simp_all add: s assms(2))
  then show ?thesis using assms(2) by simp
qed

lemma partitioned_below:
  fixes f :: "'a \<Rightarrow> 'b::linorder"
  assumes "sorted_wrt (<) (map f xs)"
  shows "partitioned (\<lambda>a. f a < v) xs"
  using assms unfolding partitioned_def sorted_wrt_map
  by (rule sorted_wrt_mono_rel [rotated]) auto

end
