(* ===== verification/Tokens.thy ===== *)
theory Tokens
  imports StringVectors
begin

text \<open>
  What the tokenizers of StringVectors compute: the reference splits the first line of a
  string at every delimiter and keeps the pieces that are not empty. The index loops of
  \<open>tokenize\<close> and \<open>tokenize_foreach\<close> are proved equal to it, and messages made of words
  separated by a delimiter are shown to tokenize to those words.
\<close>

section \<open>The reference\<close>

fun split_on :: "char \<Rightarrow> string \<Rightarrow> string \<Rightarrow> string list" where
  "split_on d cur [] = [cur]"
| "split_on d cur (c # cs) = (if c = d then cur # split_on d [] cs else split_on d (cur @ [c]) cs)"

definition pieces :: "char \<Rightarrow> string \<Rightarrow> string \<Rightarrow> string list" where
  "pieces d cur s = filter (\<lambda>t. t \<noteq> []) (split_on d cur s)"

definition first_line :: "string \<Rightarrow> string" where
  "first_line s = takeWhile (\<lambda>c. c \<noteq> newline) s"

definition split_tokens :: "char \<Rightarrow> string \<Rightarrow> string list" where
  "split_tokens d s = pieces d [] (first_line s)"

lemma pieces_Nil [simp]: "pieces d cur [] = (if cur = [] then [] else [cur])"
  and pieces_Cons_eq [simp]: "pieces d cur (d # cs) = (if cur = [] then [] else [cur]) @ pieces d [] cs"
  by (simp_all add: pieces_def)

lemma pieces_Cons_neq [simp]: "c \<noteq> d \<Longrightarrow> pieces d cur (c # cs) = pieces d (cur @ [c]) cs"
  by (simp add: pieces_def)

lemma pieces_word:
  "d \<notin> set w \<Longrightarrow> pieces d cur (w @ rest) = pieces d (cur @ w) rest"
proof (induction w arbitrary: cur)
  case (Cons c w)
  then have "pieces d cur ((c # w) @ rest) = pieces d (cur @ [c]) (w @ rest)" by auto
  also have "\<dots> = pieces d (cur @ c # w) rest" using Cons by simp
  finally show ?case .
qed simp

text \<open>Words after a delimiter each.\<close>

lemma pieces_words:
  assumes "\<forall>w \<in> set ws. d \<notin> set w \<and> w \<noteq> []"
  shows "pieces d cur (concat (map (\<lambda>w. d # w) ws)) = (if cur = [] then [] else [cur]) @ ws"
  using assms
proof (induction ws arbitrary: cur)
  case (Cons w ws)
  then have "pieces d [] (w @ concat (map (\<lambda>w. d # w) ws)) = w # ws"
    using pieces_word [of d w "[]" "concat (map (\<lambda>w. d # w) ws)"] by simp
  then show ?case by simp
qed simp

lemma first_line_id: "newline \<notin> set s \<Longrightarrow> first_line s = s"
  unfolding first_line_def by (subst takeWhile_eq_all_conv) auto

lemma first_line_append: "newline \<notin> set s \<Longrightarrow> first_line (s @ newline # r) = s"
proof -
  assume "newline \<notin> set s"
  then have "takeWhile (\<lambda>c. c \<noteq> newline) (s @ newline # r) = s @ takeWhile (\<lambda>c. c \<noteq> newline) (newline # r)"
    by (intro takeWhile_append2) auto
  then show ?thesis by (simp add: first_line_def)
qed

section \<open>The loop of the tokenizer\<close>

text \<open>
  At index \<open>i\<close> of the first line, the loop is inside a word that began at \<open>start\<close>, or
  \<open>start\<close> is the delimiter just before \<open>i\<close>, or nothing has been read.
\<close>

definition scan_inv :: "string \<Rightarrow> char \<Rightarrow> nat \<Rightarrow> nat \<Rightarrow> bool" where
  "scan_inv s d i start \<longleftrightarrow>
    i \<le> length (first_line s) \<and>
    (start = i \<and> i = 0 \<or>
     Suc start = i \<and> s ! start = d \<or>
     start < i \<and> (\<forall>k. start \<le> k \<and> k < i \<longrightarrow> s ! k \<noteq> d))"

text \<open>The word read so far.\<close>

definition scanned :: "string \<Rightarrow> char \<Rightarrow> nat \<Rightarrow> nat \<Rightarrow> string" where
  "scanned s d i start = (if start \<noteq> i \<and> s ! start \<noteq> d then substr s start (i - start) else [])"

lemma first_line_nth: "i < length (first_line s) \<Longrightarrow> s ! i = first_line s ! i \<and> s ! i \<noteq> newline"
  using nth_mem [of i "first_line s"] takeWhile_nth [of i "\<lambda>c. c \<noteq> newline" s]
  by (auto simp: first_line_def dest: set_takeWhileD)

lemma first_line_length: "length (first_line s) \<le> length s"
  by (simp add: first_line_def length_takeWhile_le)

lemma first_line_end:
  "length (first_line s) = i \<longleftrightarrow> i \<le> length (first_line s) \<and> \<not> (i < length s \<and> s ! i \<noteq> newline)"
proof -
  have "\<not> (length (first_line s) < length s \<and> s ! length (first_line s) \<noteq> newline)"
    unfolding first_line_def using nth_length_takeWhile by blast
  moreover have "i < length (first_line s) \<Longrightarrow> i < length s \<and> s ! i \<noteq> newline"
    using first_line_nth [of i s] first_line_length [of s] by auto
  ultimately show ?thesis by (cases "i < length (first_line s)") auto
qed

lemma substr_snoc: "start \<le> i \<Longrightarrow> i < length s \<Longrightarrow> substr s start (Suc i - start) = substr s start (i - start) @ [s ! i]"
  by (simp add: substr_def Suc_diff_le take_Suc_conv_app_nth)

lemma scan_step:
  assumes "scan_inv s d i start" "i < length s" "s ! i \<noteq> newline"
  shows "s ! i = d \<Longrightarrow> scan_inv s d (Suc i) i \<and> scanned s d (Suc i) i = []"
    and "s ! i \<noteq> d \<Longrightarrow> s ! start = d \<Longrightarrow>
      scan_inv s d (Suc i) (Suc start) \<and> scanned s d (Suc i) (Suc start) = scanned s d i start @ [s ! i]"
    and "s ! i \<noteq> d \<Longrightarrow> s ! start \<noteq> d \<Longrightarrow>
      scan_inv s d (Suc i) start \<and> scanned s d (Suc i) start = scanned s d i start @ [s ! i]"
proof -
  have i: "Suc i \<le> length (first_line s)"
    using assms first_line_end [of s i] by (simp add: scan_inv_def)
  then show "s ! i = d \<Longrightarrow> scan_inv s d (Suc i) i \<and> scanned s d (Suc i) i = []"
    by (simp add: scan_inv_def scanned_def)
  show "scan_inv s d (Suc i) (Suc start) \<and> scanned s d (Suc i) (Suc start) = scanned s d i start @ [s ! i]"
    if "s ! i \<noteq> d" "s ! start = d"
  proof -
    have st: "Suc start = i" using assms(1) that by (auto simp: scan_inv_def)
    have "substr s i (Suc i - i) = [s ! i]"
      using assms(2) substr_snoc [of i i s] by (simp add: substr_def)
    moreover have "\<forall>k. i \<le> k \<and> k < Suc i \<longrightarrow> s ! k \<noteq> d"
      using that by (metis less_Suc_eq_le nle_le)
    ultimately show ?thesis
      using that i st by (auto simp: scan_inv_def scanned_def)
  qed
  show "scan_inv s d (Suc i) start \<and> scanned s d (Suc i) start = scanned s d i start @ [s ! i]"
    if "s ! i \<noteq> d" "s ! start \<noteq> d"
  proof -
    have "start \<le> i" using assms(1) by (auto simp: scan_inv_def)
    then show ?thesis
      using assms(1,2) that i substr_snoc [of start i s]
      by (auto simp: scan_inv_def scanned_def less_Suc_eq substr_def)
  qed
qed

lemma drop_first_line_Cons:
  "i < length (first_line s) \<Longrightarrow> drop i (first_line s) = s ! i # drop (Suc i) (first_line s)"
  using first_line_nth [of i s] by (simp add: Cons_nth_drop_Suc)

text \<open>The texts the loop leaves, with the last word, are those it had and the rest's pieces.\<close>

definition token_list :: "string \<Rightarrow> (nat \<times> nat) list \<Rightarrow> string list" where
  "token_list s toks = map (\<lambda>t. substr s (fst t) (snd t)) toks"

definition last_word :: "string \<Rightarrow> char \<Rightarrow> nat \<times> nat \<times> (nat \<times> nat) list \<Rightarrow> (nat \<times> nat) list" where
  "last_word s d r = (case r of (i, start, toks) \<Rightarrow>
     if start \<noteq> i \<and> s ! start \<noteq> d \<and> s ! start \<noteq> newline then toks @ [(start, i - start)] else toks)"

lemma scanned_nonempty:
  "scan_inv s d i start \<Longrightarrow> scanned s d i start \<noteq> [] \<longleftrightarrow> start \<noteq> i \<and> s ! start \<noteq> d"
proof -
  assume inv: "scan_inv s d i start"
  then have "i \<le> length s" using first_line_length [of s] by (auto simp: scan_inv_def)
  with inv show ?thesis by (auto simp: scanned_def substr_def scan_inv_def)
qed

lemma tokenize_loop_pieces:
  assumes "scan_inv s d i start"
  shows "token_list s (last_word s d (tokenize_loop s d i start toks)) =
    token_list s toks @ pieces d (scanned s d i start) (drop i (first_line s))"
  using assms
proof (induction s d i start toks rule: tokenize_loop.induct)
  case (1 s d i start toks)
  note unfold = tokenize_loop.simps [of s d i start toks]
  note ne = scanned_nonempty [OF "1.prems"]
  show ?case
  proof (cases "i < length s \<and> s ! i \<noteq> newline")
    case True
    note step = scan_step [OF "1.prems" conjunct1 [OF True] conjunct2 [OF True]]
    have i: "i < length (first_line s)"
      using True "1.prems" first_line_end [of s i] by (auto simp: scan_inv_def)
    note drop = drop_first_line_Cons [OF i]
    show ?thesis
    proof (cases "s ! i = d")
      case eq: True
      with True step(1) show ?thesis
        by (simp add: unfold drop "1.IH"(1)) (use ne in \<open>auto simp: token_list_def scanned_def\<close>)
    next
      case neq: False
      with True step(2,3) show ?thesis
        by (cases "s ! start = d") (simp_all add: unfold drop "1.IH"(2,3))
    qed
  next
    case False
    then have i: "i = length (first_line s)"
      using "1.prems" first_line_end [of s i] by (auto simp: scan_inv_def)
    have "start \<noteq> i \<Longrightarrow> s ! start \<noteq> newline"
      using "1.prems" i first_line_nth [of start s] by (auto simp: scan_inv_def)
    moreover have "tokenize_loop s d i start toks = (i, start, toks)"
      using False by (subst tokenize_loop.simps) auto
    ultimately show ?thesis using i ne by (auto simp: last_word_def token_list_def scanned_def)
  qed
qed

lemma tokenize_offsets_pieces:
  assumes "s = [] \<or> s ! 0 \<noteq> nul"
  shows "token_list s (tokenize_offsets s d) = split_tokens d s"
proof (cases "s = []")
  case True
  then show ?thesis by (simp add: tokenize_offsets_def split_tokens_def first_line_def token_list_def)
next
  case False
  have "scan_inv s d 0 0" by (simp add: scan_inv_def)
  from tokenize_loop_pieces [OF this, of "[]"] False assms show ?thesis
    by (simp add: tokenize_offsets_def split_tokens_def last_word_def scanned_def token_list_def
        split: prod.splits)
qed

text \<open>The tokens lie in the string and none is empty.\<close>

definition toks_in :: "string \<Rightarrow> (nat \<times> nat) list \<Rightarrow> bool" where
  "toks_in s toks \<longleftrightarrow> (\<forall>(idx, len) \<in> set toks. 0 < len \<and> idx + len \<le> length s)"

lemma toks_in_append [simp]: "toks_in s (xs @ ys) \<longleftrightarrow> toks_in s xs \<and> toks_in s ys"
  by (auto simp: toks_in_def)

lemma tokenize_loop_in:
  assumes "start \<le> i" "i \<le> length s" "toks_in s toks"
  shows "toks_in s (last_word s d (tokenize_loop s d i start toks))"
  using assms
proof (induction s d i start toks rule: tokenize_loop.induct)
  case (1 s d i start toks)
  note unfold = tokenize_loop.simps [of s d i start toks]
  show ?case
  proof (cases "i < length s \<and> s ! i \<noteq> newline")
    case True
    show ?thesis
    proof (cases "s ! i = d")
      case eq: True
      have "toks_in s (if start \<noteq> i \<and> s ! start \<noteq> d then toks @ [(start, i - start)] else toks)"
        using "1.prems" by (auto simp: toks_in_def)
      with True eq "1.prems" show ?thesis by (simp add: unfold "1.IH"(1))
    next
      case neq: False
      show ?thesis
      proof (cases "s ! start = d")
        case sd: True
        with neq have "start \<noteq> i" by auto
        with "1.prems" have "Suc start \<le> i" by simp
        with True neq sd "1.prems" show ?thesis by (simp add: unfold "1.IH"(2))
      next
        case False
        with True neq "1.prems" show ?thesis by (simp add: unfold "1.IH"(3))
      qed
    qed
  next
    case False
    then have "tokenize_loop s d i start toks = (i, start, toks)" by (subst tokenize_loop.simps) auto
    with "1.prems" show ?thesis by (auto simp: last_word_def toks_in_def)
  qed
qed

lemma tokenize_offsets_in: "toks_in s (tokenize_offsets s d)"
proof (cases "s = [] \<or> s ! 0 = nul")
  case True
  then show ?thesis by (auto simp: tokenize_offsets_def toks_in_def)
next
  case False
  then have "tokenize_offsets s d = last_word s d (tokenize_loop s d 0 0 [])"
    by (simp add: tokenize_offsets_def last_word_def)
  then show ?thesis using tokenize_loop_in [of 0 0 s "[]" d] by (simp add: toks_in_def)
qed

lemma sv_wf_tokenize [simp]: "sv_wf (tokenize s d)" "sv_wf (tokenize_data s d)"
  using tokenize_offsets_in [of s d]
  by (auto simp: tokenize_def tokenize_data_def sv_wf_def toks_in_def sv_empty_vector_def)

lemma sv_texts_token_list:
  "sv_texts \<lparr>sv_string = s, sv_tokens = toks\<rparr> = token_list s toks"
  by (simp add: sv_texts_def token_list_def token_text_def)

lemma sv_texts_tokenize:
  "s = [] \<or> s ! 0 \<noteq> nul \<Longrightarrow> sv_texts (tokenize s d) = split_tokens d s"
  "s = [] \<or> s ! 0 \<noteq> nul \<Longrightarrow> sv_texts (tokenize_data s d) = split_tokens d s"
  using tokenize_offsets_pieces [of s d]
  by (auto simp: tokenize_def tokenize_data_def sv_texts_token_list split_tokens_def first_line_def)

section \<open>Tokenizing through a callback\<close>

text \<open>Calling a callback on each text until it says stop.\<close>

fun call_each :: "(nat \<Rightarrow> string \<Rightarrow> 'st \<Rightarrow> bool \<times> 'st) \<Rightarrow> nat \<Rightarrow> string list \<Rightarrow> 'st \<Rightarrow> 'st" where
  "call_each func n [] st = st"
| "call_each func n (t # ts) st =
    (case func n t st of (stop, st') \<Rightarrow> if stop then st' else call_each func (Suc n) ts st')"

lemma foreach_loop_pieces:
  assumes "scan_inv s d i start"
  shows "foreach_loop func s d i start index st =
    call_each func index (pieces d (scanned s d i start) (drop i (first_line s))) st"
  using assms
proof (induction func s d i start index st rule: foreach_loop.induct)
  case (1 func s d i start index st)
  note unfold = foreach_loop.simps [of func s d i start index st]
  note ne = scanned_nonempty [OF "1.prems"]
  show ?case
  proof (cases "i < length s \<and> s ! i \<noteq> newline")
    case True
    note step = scan_step [OF "1.prems" conjunct1 [OF True] conjunct2 [OF True]]
    have i: "i < length (first_line s)"
      using True "1.prems" first_line_end [of s i] by (auto simp: scan_inv_def)
    note drop = drop_first_line_Cons [OF i]
    show ?thesis
    proof (cases "s ! i = d")
      case eq: True
      show ?thesis
      proof (cases "start \<noteq> i \<and> s ! start \<noteq> d")
        case word: True
        obtain stop st' where f: "func index (substr s start (i - start)) st = (stop, st')"
          by (cases "func index (substr s start (i - start)) st")
        have "scanned s d i start = substr s start (i - start)" using word by (simp add: scanned_def)
        with word True eq step(1) f ne show ?thesis
          using "1.IH"(1) by (simp add: unfold drop)
      next
        case nw: False
        with True eq step(1) ne show ?thesis using "1.IH"(2) by (auto simp: unfold drop)
      qed
    next
      case neq: False
      with True step(2,3) show ?thesis
        using "1.IH"(3,4) by (cases "s ! start = d") (simp_all add: unfold drop)
    qed
  next
    case False
    then have i: "i = length (first_line s)"
      using "1.prems" first_line_end [of s i] by (auto simp: scan_inv_def)
    have "start \<noteq> i \<Longrightarrow> s ! start \<noteq> newline"
      using "1.prems" i first_line_nth [of start s] by (auto simp: scan_inv_def)
    moreover have "foreach_loop func s d i start index st =
        (if start \<noteq> i \<and> s ! start \<noteq> d \<and> s ! start \<noteq> newline
         then snd (func index (substr s start (i - start)) st) else st)"
      using False by (subst foreach_loop.simps) auto
    ultimately show ?thesis using i ne by (auto simp: scanned_def split: prod.splits)
  qed
qed

lemma tokenize_foreach_calls:
  assumes "s = [] \<or> s ! 0 \<noteq> nul"
  shows "tokenize_foreach func s d st = call_each func 0 (split_tokens d s) st"
proof (cases "s = []")
  case True
  then show ?thesis by (simp add: tokenize_foreach_def split_tokens_def first_line_def)
next
  case False
  have "scan_inv s d 0 0" by (simp add: scan_inv_def)
  from foreach_loop_pieces [OF this, of func 0 st] False assms show ?thesis
    by (simp add: tokenize_foreach_def split_tokens_def scanned_def)
qed

section \<open>Messages made of words\<close>

lemma split_tokens_words:
  assumes "\<forall>w \<in> set ws. d \<notin> set w \<and> newline \<notin> set w \<and> w \<noteq> []"
    and "d \<notin> set p" "newline \<notin> set p" "d \<noteq> newline"
  shows "split_tokens d (p @ concat (map (\<lambda>w. d # w) ws)) = (if p = [] then [] else [p]) @ ws"
proof -
  have "newline \<notin> set (p @ concat (map (\<lambda>w. d # w) ws))" using assms by auto
  then show ?thesis
    using assms by (simp add: split_tokens_def first_line_id pieces_word pieces_words)
qed

text \<open>Every token is a word: not empty, and free of the delimiter and of line ends.\<close>

lemma pieces_clean: "w \<in> set (pieces d cur s) \<Longrightarrow> d \<notin> set cur \<Longrightarrow> w \<noteq> [] \<and> d \<notin> set w \<and> set w \<subseteq> set cur \<union> set s"
proof (induction s arbitrary: cur)
  case (Cons c s)
  show ?case
  proof (cases "c = d")
    case True
    then show ?thesis using Cons.IH [of "[]"] Cons.prems by (auto split: if_splits)
  next
    case False
    then show ?thesis using Cons.IH [of "cur @ [c]"] Cons.prems by auto
  qed
qed (auto split: if_splits)

lemma split_tokens_clean: "w \<in> set (split_tokens d s) \<Longrightarrow> w \<noteq> [] \<and> d \<notin> set w \<and> newline \<notin> set w"
  using pieces_clean [of w d "[]" "first_line s"] by (auto simp: split_tokens_def first_line_def dest: set_takeWhileD)

lemma tokenize_clean: "w \<in> set (sv_texts (tokenize s d)) \<Longrightarrow> w \<noteq> [] \<and> d \<notin> set w \<and> newline \<notin> set w"
proof (cases "s = [] \<or> s ! 0 \<noteq> nul")
  case True
  then show "w \<in> set (sv_texts (tokenize s d)) \<Longrightarrow> ?thesis" using sv_texts_tokenize(1) split_tokens_clean by simp
next
  case False
  then have "sv_texts (tokenize s d) = []" by (simp add: tokenize_def tokenize_offsets_def sv_texts_def)
  then show "w \<in> set (sv_texts (tokenize s d)) \<Longrightarrow> ?thesis" by simp
qed

end
