(* ===== verification/Protocol.thy ===== *)
theory Protocol
  imports Tokens
begin

text \<open>
  \<open>COOLProtocol\<close> of src/common/Protocol.hpp and Protocol.cpp, with the string helpers of
  src/common/Util.hpp it uses: reading \<open>name=value\<close> tokens of the line protocol between
  wsd, kit and client, first tokens and first lines, prefixes, and the abbreviation of
  messages for the log. An out parameter is an argument and a component of the result, since
  several of these functions assign it even when they return false.
\<close>

section \<open>Numbers\<close>

text \<open>\<open>Util::i32FromString\<close> and \<open>u64FromString\<close>\<close>

definition i32_from_string :: "string \<Rightarrow> int \<times> bool" where
  "i32_from_string s = (case strtol s of (v, some, erange) \<Rightarrow> (s32 v, some \<and> \<not> erange))"

definition i32_from_string_or :: "string \<Rightarrow> int \<Rightarrow> int \<times> bool" where
  "i32_from_string_or s d = (let p = i32_from_string s in if snd p then p else (d, False))"

definition u64_from_string :: "string \<Rightarrow> 64 word \<times> bool" where
  "u64_from_string s = (case strtoul s of (v, some, erange) \<Rightarrow> (v, some \<and> \<not> erange))"

text \<open>\<open>stringToInteger\<close>, \<open>stringToUInt32\<close>, \<open>stringToUInt64\<close>: the value and the result\<close>

definition string_to_integer :: "string \<Rightarrow> int \<times> bool" where
  "string_to_integer s = i32_from_string s"

definition string_to_uint32 :: "string \<Rightarrow> wire_id \<times> bool" where
  "string_to_uint32 s = (case i32_from_string s of (v, res) \<Rightarrow> (to_u32 v, res))"

definition string_to_uint64 :: "string \<Rightarrow> 64 word \<times> bool" where
  "string_to_uint64 s = u64_from_string s"

lemma string_to_integer_show [decimal_simps]:
  "INT_MIN \<le> i \<Longrightarrow> i \<le> INT_MAX \<Longrightarrow> string_to_integer (show_int i) = (i, True)"
  by (simp add: string_to_integer_def i32_from_string_def strtol_show_int s32_id)

lemma string_to_uint32_show [decimal_simps]: "string_to_uint32 (show_u32 w) = (w, True)"
proof -
  have "strtol (show_int (uint w)) = (uint w, True, False)"
    using uint_u32_bounds [of w] by (intro strtol_show_int) linarith+
  then show ?thesis by (simp add: string_to_uint32_def i32_from_string_def show_u32_show_int)
qed

section \<open>Name and value\<close>

definition parse_name_value_pair :: "string \<Rightarrow> char \<Rightarrow> (string \<times> string) option" where
  "parse_name_value_pair token delim =
    (case find_char delim token of
       Some mid \<Rightarrow> Some (take mid token, drop (Suc mid) token)
     | None \<Rightarrow> None)"

text \<open>The test the \<open>getToken...\<close> functions on one token share: \<open>name=\<close> and more.\<close>

definition token_has_name :: "string \<Rightarrow> string \<Rightarrow> bool" where
  "token_has_name token name \<longleftrightarrow>
    take (length name) token = name \<and> token ! length name = CHR ''=''"

definition get_token_integer :: "string \<Rightarrow> string \<Rightarrow> int \<Rightarrow> bool \<times> int" where
  "get_token_integer token name val =
    (if length token > length name + 1 \<and> token_has_name token name
     then case strtol (drop (length name + 1) token) of (v, some, erange) \<Rightarrow> (some, s32 v)
     else (False, val))"

definition get_non_neg_token_integer :: "string \<Rightarrow> string \<Rightarrow> int \<Rightarrow> bool \<times> int" where
  "get_non_neg_token_integer token name val =
    (case get_token_integer token name val of (res, v) \<Rightarrow> (res \<and> v \<ge> 0, v))"

definition get_token_uint64 :: "string \<Rightarrow> string \<Rightarrow> 64 word \<Rightarrow> bool \<times> 64 word" where
  "get_token_uint64 token name val =
    (if length token > length name + 1 \<and> token_has_name token name
     then case strtoul (drop (length name + 1) token) of (v, some, erange) \<Rightarrow> (some, v)
     else (False, val))"

definition get_token_uint32 :: "string \<Rightarrow> string \<Rightarrow> wire_id \<Rightarrow> bool \<times> wire_id" where
  "get_token_uint32 token name val =
    (if length token > length name + 1 \<and> token_has_name token name
     then case strtoul (drop (length name + 1) token) of (v, some, erange) \<Rightarrow> (some, ucast v)
     else (False, val))"

definition get_token_string :: "string \<Rightarrow> string \<Rightarrow> string \<Rightarrow> bool \<times> string" where
  "get_token_string token name val =
    (if length token \<ge> length name + 1 \<and> token_has_name token name
     then (True, drop (length name + 1) token)
     else (False, val))"

definition get_token_keyword ::
    "string \<Rightarrow> string \<Rightarrow> (string \<rightharpoonup> int) \<Rightarrow> int \<Rightarrow> bool \<times> int" where
  "get_token_keyword token name keys val =
    (case get_token_string token name [] of
       (False, _) \<Rightarrow> (False, val)
     | (True, t) \<Rightarrow>
         let t' = (if t \<noteq> [] \<and> hd t = CHR 0x27 \<and> t ! (length t - 1) = CHR 0x27
                   then take (length t - 2) (drop 1 t) else t)
         in case keys t' of Some v \<Rightarrow> (True, v) | None \<Rightarrow> (False, val))"

text \<open>The loops over the tokens of a message, until one matches.\<close>

fun first_match :: "('t \<Rightarrow> 'v \<Rightarrow> bool \<times> 'v) \<Rightarrow> 't list \<Rightarrow> 'v \<Rightarrow> bool \<times> 'v" where
  "first_match get [] val = (False, val)"
| "first_match get (t # ts) val =
    (case get t val of (res, v) \<Rightarrow> if res then (True, v) else first_match get ts v)"

definition get_token_integer_in :: "string list \<Rightarrow> string \<Rightarrow> int \<Rightarrow> bool \<times> int" where
  "get_token_integer_in tokens name val = first_match (\<lambda>t. get_token_integer t name) tokens val"

definition get_token_string_in :: "string list \<Rightarrow> string \<Rightarrow> string \<Rightarrow> bool \<times> string" where
  "get_token_string_in tokens name val = first_match (\<lambda>t. get_token_string t name) tokens val"

definition get_token_keyword_in ::
    "string list \<Rightarrow> string \<Rightarrow> (string \<rightharpoonup> int) \<Rightarrow> int \<Rightarrow> bool \<times> int" where
  "get_token_keyword_in tokens name keys val =
    first_match (\<lambda>t. get_token_keyword t name keys) tokens val"

definition get_token_integer_from_message :: "string \<Rightarrow> string \<Rightarrow> int \<Rightarrow> bool \<times> int" where
  "get_token_integer_from_message message name val =
    get_token_integer_in (sv_texts (tokenize message (CHR '' ''))) name val"

text \<open>
  \<open>getTokenStringFromMessage\<close>: every occurrence of the name is tried. An empty name that
  does not match loops for ever, so the loop is a partial function.
\<close>

definition name_value_at :: "string \<Rightarrow> string \<Rightarrow> nat \<Rightarrow> bool" where
  "name_value_at message name pos \<longleftrightarrow>
    (pos = 0 \<or> message ! (pos - 1) = CHR '' '') \<and>
    pos + length name < length message \<and> message ! (pos + length name) = CHR ''=''"

definition value_after :: "string \<Rightarrow> nat \<Rightarrow> string" where
  "value_after message beg =
    (case find_first_of message [CHR '' '', newline] beg of
       Some e \<Rightarrow> substr message (beg + 1) (e - beg - 1)
     | None \<Rightarrow> drop (beg + 1) message)"

partial_function (option) token_string_loop ::
    "string \<Rightarrow> string \<Rightarrow> string \<Rightarrow> nat option \<Rightarrow> (bool \<times> string) option" where
  "token_string_loop message name val found =
    (if found = None then Some (False, val)
     else if name_value_at message name (the found)
     then Some (True, value_after message (the found + length name))
     else token_string_loop message name val (find_from message name (the found + length name)))"

definition get_token_string_from_message ::
    "string \<Rightarrow> string \<Rightarrow> string \<Rightarrow> (bool \<times> string) option" where
  "get_token_string_from_message message name val =
    (if length message > length name + 1
     then token_string_loop message name val (find_from message name 0)
     else Some (False, val))"

section \<open>Parts of a message\<close>

text \<open>\<open>Util::getDelimiterPosition\<close> and \<open>getDelimitedInitialSubstring\<close>\<close>

definition get_delimiter_position :: "string \<Rightarrow> char \<Rightarrow> nat" where
  "get_delimiter_position message delim =
    (case find_char delim message of None \<Rightarrow> length message | Some k \<Rightarrow> k)"

definition get_delimited_initial_substring :: "string \<Rightarrow> char \<Rightarrow> string" where
  "get_delimited_initial_substring message delim =
    take (get_delimiter_position message delim) message"

definition get_first_token :: "string \<Rightarrow> char \<Rightarrow> string" where
  "get_first_token message delim = get_delimited_initial_substring message delim"

definition get_first_line :: "string \<Rightarrow> string" where
  "get_first_line message = get_delimited_initial_substring message newline"

definition match_prefix :: "string \<Rightarrow> string \<Rightarrow> bool" where
  "match_prefix prefix message \<longleftrightarrow>
    length message \<ge> length prefix \<and> take (length prefix) message = prefix"

definition match_prefix_ws :: "string \<Rightarrow> string \<Rightarrow> bool \<Rightarrow> bool" where
  "match_prefix_ws prefix message ignore_whitespace =
    (if ignore_whitespace then
       let trim = (\<lambda>s. if \<forall>c \<in> set s. c = CHR '' '' then s else dropWhile (\<lambda>c. c = CHR '' '') s)
       in match_prefix (trim prefix) (trim message)
     else match_prefix prefix message)"

text \<open>\<open>tokenizeInts\<close>: the loop of the tokenizer with \<open>std::atoi\<close> at each start\<close>

definition tokenize_ints :: "string \<Rightarrow> char \<Rightarrow> int list" where
  "tokenize_ints s d =
    (if s = [] then []
     else case tokenize_loop s d 0 0 [] of (i, start, toks) \<Rightarrow>
       map (\<lambda>t. atoi (drop (fst t) s))
         (if start \<noteq> i \<and> s ! start \<noteq> d \<and> s ! start \<noteq> newline
          then toks @ [(start, i - start)] else toks))"

text \<open>\<open>ParseVersion\<close>: major, minor, patch\<close>

definition parse_version :: "string \<Rightarrow> (int \<times> int \<times> string) res" where
  "parse_version version =
    (let first_tokens = tokenize version (CHR ''.'')
     in if sv_size first_tokens > 0 then
          res_bind (stoi (sv_nth first_tokens 0)) (\<lambda>major.
            let second_tokens = (if sv_size first_tokens > 1
                                 then tokenize (sv_nth first_tokens 1) (CHR ''-'')
                                 else sv_empty_vector)
            in res_bind (if sv_size second_tokens > 0 then stoi (sv_nth second_tokens 0) else Ok (-1))
              (\<lambda>minor. Ok (major, minor, if sv_size second_tokens > 1 then sv_nth second_tokens 1 else [])))
        else Ok (-1, -1, []))"

section \<open>What a token says about the user\<close>

definition has_sub :: "string \<Rightarrow> string \<Rightarrow> bool" where
  "has_sub sub s \<longleftrightarrow> find_sub sub s \<noteq> None"

definition token_indicates_user_interaction :: "string \<Rightarrow> bool" where
  "token_indicates_user_interaction token \<longleftrightarrow>
    \<not> has_sub ''tile'' token \<and> \<not> has_sub ''status'' token \<and> \<not> has_sub ''state'' token \<and>
    token \<noteq> ''userinactive''"

definition token_indicates_document_modification :: "string_vector \<Rightarrow> bool" where
  "token_indicates_document_modification tokens =
    (if sv_equals tokens 0 ''key'' \<or> sv_equals tokens 0 ''outlinestate'' \<or>
        sv_equals tokens 0 ''paste'' \<or> sv_equals tokens 0 ''insertfile'' \<or>
        sv_equals tokens 0 ''textinput'' \<or> sv_equals tokens 0 ''windowkey'' \<or>
        sv_equals tokens 0 ''windowmouse'' \<or> sv_equals tokens 0 ''windowgesture''
     then True
     else if sv_size tokens > 1 \<and> sv_equals tokens 0 ''uno''
     then \<not> sv_equals tokens 1 ''.uno:SidebarHide'' \<and> \<not> sv_equals tokens 1 ''.uno:SidebarShow'' \<and>
          \<not> sv_equals tokens 1 ''.uno:Copy'' \<and> \<not> sv_equals tokens 1 ''.uno:Save'' \<and>
          \<not> sv_starts_with tokens 1 ''.uno:ToolbarMode'' \<and>
          \<not> sv_equals tokens 1 ''.uno:InvertBackground'' \<and>
          \<not> sv_equals tokens 1 ''.uno:ChangeTheme''
     else False)"

section \<open>Abbreviation for the log\<close>

definition max_non_abbreviated_msg_len :: nat where
  "max_non_abbreviated_msg_len = 500"

definition should_ellipse :: "string \<Rightarrow> nat \<Rightarrow> bool" where
  "should_ellipse message span_len =
    (if span_len = length message then False
     else if span_len < length message - 1 then True
     else message ! (length message - 1) \<noteq> newline)"

text \<open>A UTF-8 continuation unit has \<open>10\<close> as its top bits.\<close>

definition is_continuation :: "char \<Rightarrow> bool" where
  "is_continuation c \<longleftrightarrow> and (of_char c :: nat) 192 = 128"

definition truncate_utf8 :: "string \<Rightarrow> nat \<Rightarrow> string" where
  "truncate_utf8 message abbrev_len =
    take abbrev_len message @ takeWhile is_continuation (drop abbrev_len message)"

definition get_abbreviated_message :: "string \<Rightarrow> string" where
  "get_abbreviated_message message =
    (let span_len = get_delimiter_position
           (take (min (length message) max_non_abbreviated_msg_len) message) newline
     in if should_ellipse message span_len
        then truncate_utf8 message span_len @ ''...''
        else take span_len message)"

section \<open>Lemmas\<close>

lemma token_has_name_append [token_simps]: "token_has_name (name @ CHR ''='' # v) name"
  by (simp add: token_has_name_def nth_append)

lemma get_token_string_append [token_simps]: "get_token_string (name @ CHR ''='' # v) name val = (True, v)"
  by (simp add: get_token_string_def token_has_name_append)

lemma get_token_string_iff:
  "fst (get_token_string t name val) \<longleftrightarrow> (\<exists>v. t = name @ CHR ''='' # v)"
proof
  assume a: "fst (get_token_string t name val)"
  then have l: "length name < length t" and n: "token_has_name t name"
    by (auto simp: get_token_string_def split: if_splits)
  have "t = take (length name) t @ t ! length name # drop (Suc (length name)) t"
    using l by (rule id_take_nth_drop)
  with n show "\<exists>v. t = name @ CHR ''='' # v" by (auto simp: token_has_name_def)
next
  assume "\<exists>v. t = name @ CHR ''='' # v"
  then obtain v where "t = name @ CHR ''='' # v" ..
  then show "fst (get_token_string t name val)"
    using get_token_string_append [of name v val] by simp
qed

lemma get_token_integer_show [token_simps]:
  "INT_MIN \<le> i \<Longrightarrow> i \<le> INT_MAX \<Longrightarrow>
   get_token_integer (name @ CHR ''='' # show_int i) name val = (True, i)"
proof -
  assume i: "INT_MIN \<le> i" "i \<le> INT_MAX"
  have "length (name @ CHR ''='' # show_int i) > length name + 1" by (simp add: length_greater_0_conv [symmetric])
  moreover have "strtol (show_int i) = (i, True, False)" using i by (intro strtol_show_int) simp_all
  ultimately show ?thesis
    using i by (simp add: get_token_integer_def token_has_name_append s32_id)
qed

lemma parse_name_value_pair_append [token_simps]:
  "d \<notin> set name \<Longrightarrow> parse_name_value_pair (name @ d # v) d = Some (name, v)"
  by (simp add: parse_name_value_pair_def find_char_append)

lemma parse_name_value_pair_Some:
  "parse_name_value_pair t d = Some (n, v) \<Longrightarrow> t = n @ d # v \<and> d \<notin> set n"
  using find_char_Some [of d t] id_take_nth_drop [of _ t]
  by (auto simp: parse_name_value_pair_def split: option.splits)

text \<open>The search of a name in a message stops, for a name that is not empty.\<close>

lemma token_string_loop_stops:
  assumes "name \<noteq> []"
  shows "\<exists>r. token_string_loop message name val found = Some r"
proof (induction "Suc (length message) - (case found of None \<Rightarrow> Suc (length message) | Some pos \<Rightarrow> pos)"
    arbitrary: found rule: less_induct)
  case less
  show ?case
  proof (cases found)
    case None
    then have "token_string_loop message name val found = Some (False, val)"
      using token_string_loop.simps [of message name val found] by simp
    then show ?thesis by blast
  next
    case (Some pos)
    let ?next = "find_from message name (pos + length name)"
    show ?thesis
    proof (cases ?next)
      case None
      with Some show ?thesis
        using token_string_loop.simps [of message name val found]
          token_string_loop.simps [of message name val None] by auto
    next
      case n: (Some p)
      then have "pos + length name \<le> p" "pos + length name \<le> length message"
        by (auto simp: find_from_def split: if_splits)
      then have "\<exists>r. token_string_loop message name val ?next = Some r"
        using assms n Some by (intro less) (cases name, auto)
      with Some show ?thesis using token_string_loop.simps [of message name val found] by auto
    qed
  qed
qed

text \<open>
  Truncation keeps whole UTF-8 sequences: it only extends the prefix, and does not stop in
  front of a continuation unit.
\<close>

lemma truncate_utf8_prefix:
  "n \<le> length m \<Longrightarrow> \<exists>k. n \<le> k \<and> k \<le> length m \<and> truncate_utf8 m n = take k m \<and>
     (k < length m \<longrightarrow> \<not> is_continuation (m ! k)) \<and> (\<forall>i. n \<le> i \<and> i < k \<longrightarrow> is_continuation (m ! i))"
proof -
  assume n: "n \<le> length m"
  let ?w = "takeWhile is_continuation (drop n m)" and ?d = "dropWhile is_continuation (drop n m)"
  let ?k = "n + length ?w"
  have w: "?w = take (length ?w) (drop n m)" by (rule takeWhile_eq_take)
  have le: "length ?w \<le> length m - n" using length_takeWhile_le [of is_continuation "drop n m"] by simp
  have "truncate_utf8 m n = take ?k m"
    by (simp only: truncate_utf8_def take_add w [symmetric])
  moreover have "\<not> is_continuation (m ! ?k)" if "?k < length m"
  proof -
    have "length ?w < length (drop n m)" using that n by simp
    from nth_length_takeWhile [OF this] show ?thesis using n that by simp
  qed
  moreover have "is_continuation (m ! i)" if "n \<le> i" "i < ?k" for i
  proof -
    have i: "i - n < length ?w" using that by linarith
    then have "is_continuation (?w ! (i - n))"
      using nth_mem [OF i] by (blast dest: set_takeWhileD)
    moreover have "?w ! (i - n) = m ! i"
      using takeWhile_nth [OF i] that n by simp
    ultimately show ?thesis by simp
  qed
  ultimately show ?thesis using n le by (intro exI [of _ ?k]) auto
qed

end
