(* ===== verification/Rectangles.thy ===== *)
theory Rectangles
  imports CxxLib
begin

text \<open>
  \<open>Util::Rectangle\<close> of src/common/Rectangle.hpp: an axis-aligned box given by its top-left
  and bottom-right corners, both inclusive. The four coordinates are 32-bit integers, and
  the sums and differences the code forms on \<open>int\<close> go through \<^const>\<open>s32\<close>.
  The lemmas say what the operations compute on the set of points of a rectangle:
  \<open>extend\<close> is the join of the containment order (a semilattice), \<open>contains\<close> is
  containment and \<open>intersects\<close> is sharing a point.
\<close>

record rectangle =
  rx1 :: int
  ry1 :: int
  rx2 :: int
  ry2 :: int

definition rect_create :: "int \<Rightarrow> int \<Rightarrow> int \<Rightarrow> int \<Rightarrow> rectangle" where
  "rect_create l t r b = \<lparr>rx1 = l, ry1 = t, rx2 = r, ry2 = b\<rparr>"

text \<open>The default constructor: the inverse extremes, ready to be extended.\<close>

definition rect_empty :: rectangle where
  "rect_empty = \<lparr>rx1 = INT_MAX, ry1 = INT_MAX, rx2 = INT_MIN, ry2 = INT_MIN\<rparr>"

text \<open>The constructor from a corner and an extent; an extent that overflows is dropped.\<close>

definition rect_of_extent :: "int \<Rightarrow> int \<Rightarrow> int \<Rightarrow> int \<Rightarrow> rectangle" where
  "rect_of_extent x y width height =
    \<lparr>rx1 = x, ry1 = y,
     rx2 = (if x + width \<le> INT_MAX then s32 (x + width) else x),
     ry2 = (if y + height \<le> INT_MAX then s32 (y + height) else y)\<rparr>"

definition rect_extend :: "rectangle \<Rightarrow> rectangle \<Rightarrow> rectangle" where
  "rect_extend r o' =
    (let r1 = (if rx1 o' < rx1 r then r\<lparr>rx1 := rx1 o'\<rparr> else r);
         r2 = (if rx2 o' > rx2 r1 then r1\<lparr>rx2 := rx2 o'\<rparr> else r1);
         r3 = (if ry1 o' < ry1 r2 then r2\<lparr>ry1 := ry1 o'\<rparr> else r2)
     in if ry2 o' > ry2 r3 then r3\<lparr>ry2 := ry2 o'\<rparr> else r3)"

definition rect_width :: "rectangle \<Rightarrow> int" where
  "rect_width r = (if rx2 r - rx1 r > INT_MIN then s32 (rx2 r - rx1 r) else INT_MIN)"

definition rect_height :: "rectangle \<Rightarrow> int" where
  "rect_height r = (if ry2 r - ry1 r > INT_MIN then s32 (ry2 r - ry1 r) else INT_MIN)"

definition rect_valid :: "rectangle \<Rightarrow> bool" where
  "rect_valid r \<longleftrightarrow> rx1 r \<le> rx2 r \<and> ry1 r \<le> ry2 r"

definition rect_has_surface :: "rectangle \<Rightarrow> bool" where
  "rect_has_surface r \<longleftrightarrow> rx1 r < rx2 r \<and> ry1 r < ry2 r"

definition rect_intersects :: "rectangle \<Rightarrow> rectangle \<Rightarrow> bool" where
  "rect_intersects r o' =
    (let l = max (rx1 r) (rx1 o'); t = max (ry1 r) (ry1 o');
         ri = min (rx2 r) (rx2 o'); b = min (ry2 r) (ry2 o')
     in l \<le> ri \<and> t \<le> b)"

definition rect_contains :: "rectangle \<Rightarrow> rectangle \<Rightarrow> bool" where
  "rect_contains r o' \<longleftrightarrow> rx2 r \<ge> rx2 o' \<and> ry2 r \<ge> ry2 o' \<and> ry1 r \<le> ry1 o' \<and> rx1 r \<le> rx1 o'"

definition rect_to_string :: "rectangle \<Rightarrow> string" where
  "rect_to_string r = show_int (rx1 r) @ '', '' @ show_int (ry1 r) @ '' '' @
     show_int (rect_width r) @ ''x'' @ show_int (rect_height r)"

section \<open>The points of a rectangle\<close>

definition rect_points :: "rectangle \<Rightarrow> (int \<times> int) set" where
  "rect_points r = {rx1 r..rx2 r} \<times> {ry1 r..ry2 r}"

lemma rect_points_empty_iff: "rect_points r = {} \<longleftrightarrow> \<not> rect_valid r"
  by (auto simp: rect_points_def rect_valid_def)

lemma rect_extend_eq:
  "rect_extend r o' =
    r\<lparr>rx1 := min (rx1 r) (rx1 o'), ry1 := min (ry1 r) (ry1 o'),
      rx2 := max (rx2 r) (rx2 o'), ry2 := max (ry2 r) (ry2 o')\<rparr>"
  by (simp add: rect_extend_def Let_def min_def max_def)

interpretation rect_join: semilattice rect_extend
  by unfold_locales (simp_all add: rect_extend_eq min.assoc max.assoc min.commute max.commute)

lemma rect_contains_points:
  "rect_valid o' \<Longrightarrow> rect_contains r o' \<longleftrightarrow> rect_points o' \<subseteq> rect_points r"
proof -
  assume v: "rect_valid o'"
  {
    assume "rect_points o' \<subseteq> rect_points r"
    moreover have "(rx1 o', ry1 o') \<in> rect_points o'" "(rx2 o', ry2 o') \<in> rect_points o'"
      using v by (auto simp: rect_valid_def rect_points_def)
    ultimately have "(rx1 o', ry1 o') \<in> rect_points r" "(rx2 o', ry2 o') \<in> rect_points r"
      by blast+
    then have "rect_contains r o'" by (auto simp: rect_contains_def rect_points_def)
  }
  then show "rect_contains r o' \<longleftrightarrow> rect_points o' \<subseteq> rect_points r"
    by (auto simp: rect_contains_def rect_points_def)
qed

lemma rect_contains_refl [simp]: "rect_contains r r"
  by (simp add: rect_contains_def)

lemma rect_contains_trans: "rect_contains a b \<Longrightarrow> rect_contains b c \<Longrightarrow> rect_contains a c"
  by (simp add: rect_contains_def)

lemma rect_extend_contains [simp]:
  "rect_contains (rect_extend a b) a" "rect_contains (rect_extend a b) b"
  by (simp_all add: rect_contains_def rect_extend_eq)

lemma rect_extend_least:
  "rect_contains c a \<Longrightarrow> rect_contains c b \<Longrightarrow> rect_contains c (rect_extend a b)"
  by (simp add: rect_contains_def rect_extend_eq)

lemma rect_intersects_points:
  "rect_intersects a b \<longleftrightarrow> rect_points a \<inter> rect_points b \<noteq> {}"
proof
  assume "rect_intersects a b"
  then have "(max (rx1 a) (rx1 b), max (ry1 a) (ry1 b)) \<in> rect_points a \<inter> rect_points b"
    by (auto simp: rect_intersects_def rect_points_def Let_def)
  then show "rect_points a \<inter> rect_points b \<noteq> {}" by blast
next
  assume "rect_points a \<inter> rect_points b \<noteq> {}"
  then show "rect_intersects a b" by (auto simp: rect_intersects_def rect_points_def Let_def)
qed

lemma rect_intersects_commute: "rect_intersects a b = rect_intersects b a"
  by (simp add: rect_intersects_points Int_commute)

text \<open>Extending the empty rectangle by the elements of a list: the bounding box.\<close>

definition rect_hull :: "rectangle list \<Rightarrow> rectangle" where
  "rect_hull rs = foldl rect_extend rect_empty rs"

lemma foldl_extend_contains:
  "rect_contains (foldl rect_extend a rs) a \<and>
   (\<forall>r \<in> set rs. rect_contains (foldl rect_extend a rs) r)"
proof (induction rs arbitrary: a)
  case (Cons r rs)
  then show ?case
    using rect_contains_trans rect_extend_contains by (metis foldl_Cons set_ConsD)
qed simp

lemma rect_of_extent_size [cint_simps]:
  assumes "0 \<le> x" "0 \<le> y" "0 \<le> w" "0 \<le> h" "x + w \<le> INT_MAX" "y + h \<le> INT_MAX"
  shows "rect_width (rect_of_extent x y w h) = w" "rect_height (rect_of_extent x y w h) = h"
  using assms by (simp_all add: rect_of_extent_def rect_width_def rect_height_def s32_id)

end
