(* ===== verification/TileDescs.thy ===== *)
theory TileDescs
  imports Protocol Rectangles "HOL-Library.Product_Lexorder" "HOL-Library.List_Lexorder"
    "HOL-Library.Char_ord"
begin

unbundle bit_operations_syntax

text \<open>
  \<open>TileDesc\<close> of src/wsd/TileDesc.hpp: the descriptor of one tile, the order the queues are
  sorted by, its geometry, and its form on the wire (\<open>serialize\<close> and \<open>parse\<close>). A
  constructor that throws \<open>BadArgumentException\<close> is an error value.
\<close>

section \<open>The descriptor\<close>

record tile_desc =
  td_canonicalViewId :: int
  td_part :: int
  td_mode :: int
  td_width :: int
  td_height :: int
  td_tilePosX :: int
  td_tilePosY :: int
  td_tileWidth :: int
  td_tileHeight :: int
  td_ver :: int
  td_imgSize :: int
  td_id :: int
  td_oldWireId :: wire_id
  td_wireId :: wire_id

text \<open>\<open>enum class CanonicalViewId : int { Invalid = -1, None }\<close>\<close>

definition view_invalid :: int where "view_invalid = -1"
definition view_none :: int where "view_none = 0"

definition mk_tile_desc ::
    "int \<Rightarrow> int \<Rightarrow> int \<Rightarrow> int \<Rightarrow> int \<Rightarrow> int \<Rightarrow> int \<Rightarrow> int \<Rightarrow> int \<Rightarrow> int \<Rightarrow> int \<Rightarrow> int \<Rightarrow> tile_desc res" where
  "mk_tile_desc view prt md w h x y tw th vr img i =
    (if view \<le> view_invalid \<or> prt < 0 \<or> md < 0 \<or> w \<le> 0 \<or> h \<le> 0 \<or> x < 0 \<or> y < 0 \<or>
        tw \<le> 0 \<or> th \<le> 0 \<or> img < 0
     then Err (BadArgument ''Invalid tile descriptor.'')
     else Ok \<lparr>td_canonicalViewId = view, td_part = prt, td_mode = md, td_width = w, td_height = h,
       td_tilePosX = x, td_tilePosY = y, td_tileWidth = tw, td_tileHeight = th, td_ver = vr, td_imgSize = img,
       td_id = i, td_oldWireId = 0, td_wireId = 0\<rparr>)"

definition is_preview :: "tile_desc \<Rightarrow> bool" where
  "is_preview t \<longleftrightarrow> td_id t \<ge> 0"

definition set_id :: "wire_id \<Rightarrow> tile_desc \<Rightarrow> tile_desc" where
  "set_id i t = t\<lparr>td_id := s32 (uint i)\<rparr>"

definition force_keyframe :: "tile_desc \<Rightarrow> tile_desc" where
  "force_keyframe t = t\<lparr>td_oldWireId := 0\<rparr>"

definition is_forced_keyframe :: "tile_desc \<Rightarrow> bool" where
  "is_forced_keyframe t \<longleftrightarrow> td_oldWireId t = 0"

text \<open>What the constructor guarantees, for 32-bit fields.\<close>

definition tile_valid :: "tile_desc \<Rightarrow> bool" where
  "tile_valid t \<longleftrightarrow>
    0 \<le> td_canonicalViewId t \<and> 0 \<le> td_part t \<and> 0 \<le> td_mode t \<and> 0 < td_width t \<and> 0 < td_height t \<and>
    0 \<le> td_tilePosX t \<and> 0 \<le> td_tilePosY t \<and> 0 < td_tileWidth t \<and> 0 < td_tileHeight t \<and> 0 \<le> td_imgSize t"

lemma mk_tile_desc_valid:
  "mk_tile_desc view prt md w h x y tw th vr img i = Ok t \<Longrightarrow> tile_valid t"
  by (auto simp: mk_tile_desc_def tile_valid_def view_invalid_def split: if_splits)

section \<open>Equality and order\<close>

definition tile_eq :: "tile_desc \<Rightarrow> tile_desc \<Rightarrow> bool" where
  "tile_eq t o' \<longleftrightarrow>
    td_part t = td_part o' \<and> td_width t = td_width o' \<and> td_height t = td_height o' \<and>
    td_tilePosX t = td_tilePosX o' \<and> td_tilePosY t = td_tilePosY o' \<and>
    td_tileWidth t = td_tileWidth o' \<and> td_tileHeight t = td_tileHeight o' \<and>
    td_id t = td_id o' \<and> td_canonicalViewId t = td_canonicalViewId o' \<and> td_mode t = td_mode o'"

text \<open>The tuples \<open>std::tie\<close> makes, compared lexicographically.\<close>

type_synonym tile_key = "int \<times> int \<times> int \<times> int \<times> int \<times> int \<times> int \<times> int \<times> int \<times> int"

definition tile_key_at :: "tile_desc \<Rightarrow> int \<Rightarrow> int \<Rightarrow> tile_key" where
  "tile_key_at t x y =
    (td_canonicalViewId t, td_id t, td_mode t, td_part t, td_height t, td_width t, td_tileHeight t, td_tileWidth t, y, x)"

definition tile_key :: "tile_desc \<Rightarrow> tile_key" where
  "tile_key t = tile_key_at t (td_tilePosX t) (td_tilePosY t)"

definition compare_as_at_tile_pos :: "tile_desc \<Rightarrow> tile_desc \<Rightarrow> int \<Rightarrow> int \<Rightarrow> bool" where
  "compare_as_at_tile_pos t o' x y \<longleftrightarrow> tile_key t < tile_key_at o' x y"

definition tile_less :: "tile_desc \<Rightarrow> tile_desc \<Rightarrow> bool" where
  "tile_less t o' \<longleftrightarrow> compare_as_at_tile_pos t o' (td_tilePosX o') (td_tilePosY o')"

lemma tile_less_key: "tile_less a b \<longleftrightarrow> tile_key a < tile_key b"
  by (simp add: tile_less_def compare_as_at_tile_pos_def tile_key_def)

lemma tile_eq_key: "tile_eq a b \<longleftrightarrow> tile_key a = tile_key b"
  by (auto simp: tile_eq_def tile_key_def tile_key_at_def)

definition equality_hash :: "tile_desc \<Rightarrow> wire_id" where
  "equality_hash t =
    (let a = push_bit 17 (to_u32 (td_canonicalViewId t));
         b = push_bit 7 (to_u32 (td_tilePosX t));
         a1 = a XOR to_u32 (td_part t);
         b1 = b XOR to_u32 (td_tilePosY t);
         a2 = a1 XOR push_bit 30 (to_u32 (td_mode t));
         b2 = b1 XOR push_bit 20 (to_u32 (td_tileWidth t));
         a3 = a2 XOR push_bit 19 (to_u32 (td_width t))
     in a3 XOR b2)"

lemma equality_hash_eq: "tile_eq a b \<Longrightarrow> equality_hash a = equality_hash b"
  by (simp add: tile_eq_def equality_hash_def)

section \<open>Geometry\<close>

definition to_aabbox :: "tile_desc \<Rightarrow> rectangle" where
  "to_aabbox t =
    (let r = (if td_tilePosX t + td_tileWidth t \<le> INT_MAX then td_tilePosX t + td_tileWidth t else td_tilePosX t);
         b = (if td_tilePosY t + td_tileHeight t \<le> INT_MAX then td_tilePosY t + td_tileHeight t else td_tilePosY t)
     in rect_create (td_tilePosX t) (td_tilePosY t) (s32 r) (s32 b))"

definition rectangles_intersect :: "int \<Rightarrow> int \<Rightarrow> int \<Rightarrow> int \<Rightarrow> int \<Rightarrow> int \<Rightarrow> int \<Rightarrow> int \<Rightarrow> bool" where
  "rectangles_intersect ax ay aw ah ox oy ow oh =
    rect_intersects (rect_create ax ay (s32 (ax + aw)) (s32 (ay + ah)))
      (rect_create ox oy (s32 (ox + ow)) (s32 (oy + oh)))"

definition intersects_with_rect :: "tile_desc \<Rightarrow> int \<Rightarrow> int \<Rightarrow> int \<Rightarrow> int \<Rightarrow> bool" where
  "intersects_with_rect t x y w h =
    rect_intersects (to_aabbox t) (rect_create x y (s32 (x + w)) (s32 (y + h)))"

definition tiles_intersect :: "tile_desc \<Rightarrow> tile_desc \<Rightarrow> bool" where
  "tiles_intersect t o' = rect_intersects (to_aabbox t) (to_aabbox o')"

definition tile_is_contained :: "tile_desc \<Rightarrow> rectangle \<Rightarrow> bool" where
  "tile_is_contained t box = rect_contains box (to_aabbox t)"

definition is_adjacent :: "tile_desc \<Rightarrow> tile_desc \<Rightarrow> bool" where
  "is_adjacent t o' =
    (if td_part o' \<noteq> td_part t \<or> td_mode o' \<noteq> td_mode t \<or> td_width o' \<noteq> td_width t \<or> td_height o' \<noteq> td_height t \<or>
        td_tileWidth o' \<noteq> td_tileWidth t \<or> td_tileHeight o' \<noteq> td_tileHeight t
     then False else tiles_intersect t o')"

definition same_tile_combine_params :: "tile_desc \<Rightarrow> tile_desc \<Rightarrow> bool" where
  "same_tile_combine_params t o' =
    (if td_part o' \<noteq> td_part t \<or> td_mode o' \<noteq> td_mode t \<or> td_width o' \<noteq> td_width t \<or> td_height o' \<noteq> td_height t \<or>
        td_tileWidth o' \<noteq> td_tileWidth t \<or> td_tileHeight o' \<noteq> td_tileHeight t \<or>
        td_canonicalViewId o' \<noteq> td_canonicalViewId t
     then False else True)"

lemma to_aabbox_valid:
  "tile_valid t \<Longrightarrow> in_i32 (td_tilePosX t) \<Longrightarrow> in_i32 (td_tilePosY t) \<Longrightarrow> rect_valid (to_aabbox t)"
  by (simp add: to_aabbox_def rect_valid_def rect_create_def tile_valid_def in_i32_def s32_id Let_def)

lemma same_params_iff:
  "same_tile_combine_params t o' \<longleftrightarrow>
    td_part o' = td_part t \<and> td_mode o' = td_mode t \<and> td_width o' = td_width t \<and> td_height o' = td_height t \<and>
    td_tileWidth o' = td_tileWidth t \<and> td_tileHeight o' = td_tileHeight t \<and>
    td_canonicalViewId o' = td_canonicalViewId t"
  by (auto simp: same_tile_combine_params_def)

lemma same_params_trans:
  "same_tile_combine_params a b \<Longrightarrow> same_tile_combine_params a c \<Longrightarrow> same_tile_combine_params b c"
  by (simp add: same_params_iff)

section \<open>Serialization\<close>

definition serialize :: "tile_desc \<Rightarrow> string \<Rightarrow> string \<Rightarrow> string" where
  "serialize t prefix suffix =
    prefix @
    '' nviewid='' @ show_int (td_canonicalViewId t) @
    '' part='' @ show_int (td_part t) @
    '' width='' @ show_int (td_width t) @
    '' height='' @ show_int (td_height t) @
    '' tileposx='' @ show_int (td_tilePosX t) @
    '' tileposy='' @ show_int (td_tilePosY t) @
    '' tilewidth='' @ show_int (td_tileWidth t) @
    '' tileheight='' @ show_int (td_tileHeight t) @
    (if td_oldWireId t \<noteq> 0 then '' oldwid='' @ show_u32 (td_oldWireId t) else []) @
    (if td_wireId t \<noteq> 0 then '' wid='' @ show_u32 (td_wireId t) else []) @
    '' ver='' @ show_int (td_ver t) @
    (if td_id t \<ge> 0 then '' id='' @ show_int (td_id t) else []) @
    (if td_imgSize t > 0 then '' imgsize='' @ show_int (td_imgSize t) else []) @
    (if td_mode t \<noteq> 0 then '' mode='' @ show_int (td_mode t) else []) @
    suffix"

definition debug_name :: "tile_desc \<Rightarrow> string" where
  "debug_name t =
    ''('' @ show_int (td_canonicalViewId t) @ '','' @ show_int (td_part t) @ '','' @ show_int (td_mode t) @
    '','' @ show_int (td_tilePosX t) @ '','' @ show_int (td_tilePosY t) @ '')''"

definition generate_id :: "tile_desc \<Rightarrow> string" where
  "generate_id t =
    show_int (td_part t) @ '':'' @ show_int (td_mode t) @ '':'' @ show_int (td_tilePosX t) @ '':'' @
    show_int (td_tilePosY t) @ '':'' @ show_int (td_tileWidth t) @ '':'' @ show_int (td_tileHeight t) @
    '':'' @ show_int (td_canonicalViewId t)"

section \<open>Parsing\<close>

text \<open>
  The table of integer arguments, sorted by name: \<open>TileParse::setArg\<close> finds the name by
  \<open>std::equal_range\<close> and assigns; an argument is read by its position.
\<close>

type_synonym arg_table = "(string \<times> int) list"

definition set_arg :: "arg_table \<Rightarrow> string \<Rightarrow> int \<Rightarrow> bool \<times> arg_table" where
  "set_arg args arg val =
    (let i = lower_bound (\<lambda>a. fst a < arg) args
     in if i < length args \<and> \<not> (arg < fst (args ! i))
        then (True, args[i := (fst (args ! i), val)])
        else (False, args))"

definition tile_args :: arg_table where
  "tile_args =
    [(''height'', 0), (''id'', -1), (''imgsize'', 0), (''mode'', 0), (''nviewid'', 0), (''part'', 0),
     (''tileheight'', 0), (''tileposx'', 0), (''tileposy'', 0), (''tilewidth'', 0), (''ver'', -1),
     (''width'', 0)]"

text \<open>
  The body of the loop of \<open>parse\<close> over the tokens: the two wire ids and the table.
\<close>

definition parse_tile_step ::
    "string_vector \<Rightarrow> nat \<Rightarrow> wire_id \<times> wire_id \<times> arg_table \<Rightarrow> wire_id \<times> wire_id \<times> arg_table" where
  "parse_tile_step tokens i st =
    (case st of (oldw, w, pairs) \<Rightarrow>
       case sv_get_uint32 tokens i ''oldwid'' oldw of (found, oldw') \<Rightarrow>
         if found then (oldw', w, pairs)
         else case sv_get_uint32 tokens i ''wid'' w of (found, w') \<Rightarrow>
           if found then (oldw', w', pairs)
           else case sv_get_name_integer_pair tokens i [] (-1) of (found, name, val) \<Rightarrow>
             if found then (oldw', w', snd (set_arg pairs name val)) else (oldw', w', pairs))"

definition parse_tile_tokens :: "string_vector \<Rightarrow> tile_desc res" where
  "parse_tile_tokens tokens =
    (case fold (parse_tile_step tokens) [0..<sv_size tokens] (0, 0, tile_args) of
      (oldw, w, pairs) \<Rightarrow>
        res_bind
          (mk_tile_desc (snd (pairs ! 4)) (snd (pairs ! 5)) (snd (pairs ! 3)) (snd (pairs ! 11))
             (snd (pairs ! 0)) (snd (pairs ! 7)) (snd (pairs ! 8)) (snd (pairs ! 9)) (snd (pairs ! 6))
             (snd (pairs ! 10)) (snd (pairs ! 2)) (snd (pairs ! 1)))
          (\<lambda>t. Ok (t\<lparr>td_oldWireId := oldw, td_wireId := w\<rparr>)))"

definition parse_tile :: "string \<Rightarrow> tile_desc res" where
  "parse_tile message = parse_tile_tokens (tokenize_data message (CHR '' ''))"

end
