(* ===== verification/TileWire.thy ===== *)
theory TileWire
  imports TileDescs
begin

text \<open>
  The wire form of a tile descriptor: what the loop of \<open>TileDesc::parse\<close> does with each
  token, and the round trip. A valid descriptor whose numbers are below the extremes that
  \<open>getNameIntegerPair\<close> refuses is read back exactly from what \<open>serialize\<close> writes, with any
  one-word prefix and any payload after the line.
\<close>

section \<open>The table of arguments\<close>

lemma set_arg_sorted:
  assumes "sorted_wrt (<) (map fst args)" "i < length args"
  shows "set_arg args (fst (args ! i)) v = (True, args[i := (fst (args ! i), v)])"
  using assms
  by (simp add: set_arg_def lower_bound_eq [OF partitioned_below] length_takeWhile_index)

lemma tile_args_sorted: "sorted_wrt (<) (map fst tile_args)"
  by (simp add: tile_args_def less_char_def)


section \<open>The texts of a serialized tile\<close>

definition parse_tile_text ::
    "string \<Rightarrow> wire_id \<times> wire_id \<times> arg_table \<Rightarrow> wire_id \<times> wire_id \<times> arg_table" where
  "parse_tile_text t st =
    (case st of (oldw, w, pairs) \<Rightarrow>
       case text_uint32 t ''oldwid'' oldw of (found, oldw') \<Rightarrow>
         if found then (oldw', w, pairs)
         else case text_uint32 t ''wid'' w of (found, w') \<Rightarrow>
           if found then (oldw', w', pairs)
           else case text_name_integer t [] (-1) of (found, name, val) \<Rightarrow>
             if found then (oldw', w', snd (set_arg pairs name val)) else (oldw', w', pairs))"

lemma parse_tile_step_texts:
  assumes "sv_wf v"
  shows "fold (parse_tile_step v) [0..<sv_size v] st = fold parse_tile_text (sv_texts v) st"
proof -
  have "fold (parse_tile_step v) [0..<length (sv_texts v)] st = fold parse_tile_text (sv_texts v) st"
  proof (rule fold_upt_nth)
    fix i st assume "i < length (sv_texts v)"
    with assms show "parse_tile_step v i st = parse_tile_text (sv_texts v ! i) st"
      by (simp add: parse_tile_step_def parse_tile_text_def sv_get_uint32_text
          sv_get_name_integer_pair_text split: prod.split)
  qed
  then show ?thesis by (simp add: sv_size_def)
qed

definition name_word :: "string \<Rightarrow> int \<Rightarrow> string" where
  "name_word name i = name @ CHR ''='' # show_int i"

lemma take_name_differs:
  assumes "key \<noteq> name" "CHR ''='' \<notin> set key" "CHR ''='' \<notin> set name"
  shows "take (Suc (length key)) (name @ CHR ''='' # v) \<noteq> key @ ''=''"
proof
  let ?t = "name @ CHR ''='' # v" and ?r = "drop (Suc (length key)) (name @ CHR ''='' # v)"
  assume eq: "take (Suc (length key)) ?t = key @ ''=''"
  have "take (Suc (length key)) ?t @ ?r = ?t" by (rule append_take_drop_id)
  then have "(key @ ''='') @ ?r = ?t" by (simp only: eq)
  then have "key @ CHR ''='' # ?r = ?t" by (simp only: append.assoc append.simps)
  then obtain r where r: "key @ CHR ''='' # r = ?t" by (rule that)
  then have "find_char (CHR ''='') (key @ CHR ''='' # r) = find_char (CHR ''='') ?t" by (rule arg_cong)
  then have "length key = length name"
    by (simp only: find_char_append [OF assms(2)] find_char_append [OF assms(3)] option.inject)
  with r assms(1) show False by simp
qed

lemma parse_tile_text_name:
  assumes "name \<noteq> ''oldwid''" "name \<noteq> ''wid''" "CHR ''='' \<notin> set name" "- INT_MAX \<le> i" "i < INT_MAX"
  shows "parse_tile_text (name_word name i) (oldw, w, pairs) = (oldw, w, snd (set_arg pairs name i))"
proof -
  have "text_uint32 (name_word name i) ''oldwid'' oldw = (False, oldw)"
    "text_uint32 (name_word name i) ''wid'' w = (False, w)"
    using take_name_differs [of "''oldwid''" name "show_int i"] take_name_differs [of "''wid''" name "show_int i"]
      assms(1-3)
    by (simp_all add: text_uint32_def name_word_def)
  moreover have "text_name_integer (name_word name i) [] (-1) = (True, name, i)"
    using assms(3-5)
    by (simp add: text_name_integer_def name_word_def find_char_append safe_atoi_show_int)
  ultimately show ?thesis by (simp add: parse_tile_text_def)
qed

lemma text_uint32_word:
  assumes "uint w \<le> INT_MAX"
  shows "text_uint32 (key @ CHR ''='' # show_u32 w) key val = (True, w)"
proof -
  have "safe_atoi (show_u32 w) = uint w"
    using assms uint_u32_bounds [of w] unfolding show_u32_show_int safe_atoi_show_int by linarith
  moreover have "w < 4294967295" using assms by (simp add: word_less_def)
  moreover have "show_u32 w \<noteq> []" by (simp add: show_u32_show_int)
  ultimately show ?thesis by (simp add: text_uint32_def)
qed

lemma parse_tile_text_oldwid:
  "uint w' \<le> INT_MAX \<Longrightarrow>
   parse_tile_text (''oldwid'' @ CHR ''='' # show_u32 w') (oldw, w, pairs) = (w', w, pairs)"
  by (simp only: parse_tile_text_def text_uint32_word prod.case if_True)

lemma parse_tile_text_wid:
  assumes "uint w' \<le> INT_MAX"
  shows "parse_tile_text (''wid'' @ CHR ''='' # show_u32 w') (oldw, w, pairs) = (oldw, w', pairs)"
proof -
  have "text_uint32 (''wid'' @ CHR ''='' # show_u32 w') ''oldwid'' oldw = (False, oldw)"
    using take_name_differs [of "''oldwid''" "''wid''" "show_u32 w'"] by (simp add: text_uint32_def)
  then show ?thesis by (simp only: parse_tile_text_def text_uint32_word [OF assms] prod.case if_True if_False)
qed

text \<open>A word without an equals sign leaves the results alone.\<close>

lemma parse_tile_text_plain:
  assumes "CHR ''='' \<notin> set t"
  shows "parse_tile_text t st = st"
proof -
  have "take n t \<noteq> key @ ''=''" for n key using assms set_take_subset [of n t] by auto
  then have "text_uint32 t key val = (False, val)" for key val by (simp add: text_uint32_def)
  moreover have "text_name_integer t [] (-1) = (False, [], -1)"
    using assms by (simp add: text_name_integer_def find_char_def)
  ultimately show ?thesis by (cases st) (simp add: parse_tile_text_def)
qed

text \<open>The table with its values.\<close>

definition tile_table ::
    "int \<Rightarrow> int \<Rightarrow> int \<Rightarrow> int \<Rightarrow> int \<Rightarrow> int \<Rightarrow> int \<Rightarrow> int \<Rightarrow> int \<Rightarrow> int \<Rightarrow> int \<Rightarrow> int \<Rightarrow> arg_table" where
  "tile_table a b c d e f g h i j k l =
    [(''height'', a), (''id'', b), (''imgsize'', c), (''mode'', d), (''nviewid'', e), (''part'', f), (''tileheight'', g), (''tileposx'', h), (''tileposy'', i), (''tilewidth'', j), (''ver'', k), (''width'', l)]"

lemma tile_table_sorted: "sorted_wrt (<) (map fst (tile_table a b c d e f g h i j k l))"
  by (simp add: tile_table_def less_char_def)

lemma tile_args_table: "tile_args = tile_table 0 (-1) 0 0 0 0 0 0 0 0 (-1) 0"
  by (simp add: tile_args_def tile_table_def)

lemma set_arg_table:
  "set_arg (tile_table a b c d e f g h i j k l) ''height'' v = (True, tile_table v b c d e f g h i j k l)"
  "set_arg (tile_table a b c d e f g h i j k l) ''id'' v = (True, tile_table a v c d e f g h i j k l)"
  "set_arg (tile_table a b c d e f g h i j k l) ''imgsize'' v = (True, tile_table a b v d e f g h i j k l)"
  "set_arg (tile_table a b c d e f g h i j k l) ''mode'' v = (True, tile_table a b c v e f g h i j k l)"
  "set_arg (tile_table a b c d e f g h i j k l) ''nviewid'' v = (True, tile_table a b c d v f g h i j k l)"
  "set_arg (tile_table a b c d e f g h i j k l) ''part'' v = (True, tile_table a b c d e v g h i j k l)"
  "set_arg (tile_table a b c d e f g h i j k l) ''tileheight'' v = (True, tile_table a b c d e f v h i j k l)"
  "set_arg (tile_table a b c d e f g h i j k l) ''tileposx'' v = (True, tile_table a b c d e f g v i j k l)"
  "set_arg (tile_table a b c d e f g h i j k l) ''tileposy'' v = (True, tile_table a b c d e f g h v j k l)"
  "set_arg (tile_table a b c d e f g h i j k l) ''tilewidth'' v = (True, tile_table a b c d e f g h i v k l)"
  "set_arg (tile_table a b c d e f g h i j k l) ''ver'' v = (True, tile_table a b c d e f g h i j v l)"
  "set_arg (tile_table a b c d e f g h i j k l) ''width'' v = (True, tile_table a b c d e f g h i j k v)"
  subgoal using set_arg_sorted [OF tile_table_sorted [of a b c d e f g h i j k l], of 0 v] by (simp add: tile_table_def)
  subgoal using set_arg_sorted [OF tile_table_sorted [of a b c d e f g h i j k l], of 1 v] by (simp add: tile_table_def)
  subgoal using set_arg_sorted [OF tile_table_sorted [of a b c d e f g h i j k l], of 2 v] by (simp add: tile_table_def)
  subgoal using set_arg_sorted [OF tile_table_sorted [of a b c d e f g h i j k l], of 3 v] by (simp add: tile_table_def)
  subgoal using set_arg_sorted [OF tile_table_sorted [of a b c d e f g h i j k l], of 4 v] by (simp add: tile_table_def)
  subgoal using set_arg_sorted [OF tile_table_sorted [of a b c d e f g h i j k l], of 5 v] by (simp add: tile_table_def)
  subgoal using set_arg_sorted [OF tile_table_sorted [of a b c d e f g h i j k l], of 6 v] by (simp add: tile_table_def)
  subgoal using set_arg_sorted [OF tile_table_sorted [of a b c d e f g h i j k l], of 7 v] by (simp add: tile_table_def)
  subgoal using set_arg_sorted [OF tile_table_sorted [of a b c d e f g h i j k l], of 8 v] by (simp add: tile_table_def)
  subgoal using set_arg_sorted [OF tile_table_sorted [of a b c d e f g h i j k l], of 9 v] by (simp add: tile_table_def)
  subgoal using set_arg_sorted [OF tile_table_sorted [of a b c d e f g h i j k l], of 10 v] by (simp add: tile_table_def)
  subgoal using set_arg_sorted [OF tile_table_sorted [of a b c d e f g h i j k l], of 11 v] by (simp add: tile_table_def)
  done

section \<open>Round trip\<close>

text \<open>The words of a serialized tile, one for each argument.\<close>

definition tile_words :: "tile_desc \<Rightarrow> string list" where
  "tile_words t =
    [name_word ''nviewid'' (td_canonicalViewId t), name_word ''part'' (td_part t),
     name_word ''width'' (td_width t), name_word ''height'' (td_height t),
     name_word ''tileposx'' (td_tilePosX t), name_word ''tileposy'' (td_tilePosY t),
     name_word ''tilewidth'' (td_tileWidth t), name_word ''tileheight'' (td_tileHeight t)] @
    (if td_oldWireId t \<noteq> 0 then [''oldwid'' @ CHR ''='' # show_u32 (td_oldWireId t)] else []) @
    (if td_wireId t \<noteq> 0 then [''wid'' @ CHR ''='' # show_u32 (td_wireId t)] else []) @
    [name_word ''ver'' (td_ver t)] @
    (if td_id t \<ge> 0 then [name_word ''id'' (td_id t)] else []) @
    (if td_imgSize t > 0 then [name_word ''imgsize'' (td_imgSize t)] else []) @
    (if td_mode t \<noteq> 0 then [name_word ''mode'' (td_mode t)] else [])"

lemma serialize_words:
  "serialize t p s = p @ concat (map (\<lambda>w. CHR '' '' # w) (tile_words t)) @ s"
  by (simp add: serialize_def tile_words_def name_word_def)

lemma show_int_no [simp]:
  "CHR '' '' \<notin> set (show_int i)" "newline \<notin> set (show_int i)" "CHR ''='' \<notin> set (show_int i)"
  "CHR '','' \<notin> set (show_int i)"
  using show_int_chars by force+

lemma tile_words_clean: "\<forall>w \<in> set (tile_words t). CHR '' '' \<notin> set w \<and> newline \<notin> set w \<and> w \<noteq> []"
  by (auto simp: tile_words_def name_word_def show_u32_show_int)

text \<open>A prefix: one word, such as \<open>tile:\<close>, that is no argument.\<close>

definition plain_prefix :: "string \<Rightarrow> bool" where
  "plain_prefix p \<longleftrightarrow> CHR '' '' \<notin> set p \<and> newline \<notin> set p \<and> nul \<notin> set p \<and> CHR ''='' \<notin> set p"

text \<open>What \<open>serialize\<close> may append: nothing, or the line end and any payload.\<close>

definition line_suffix :: "string \<Rightarrow> bool" where
  "line_suffix s \<longleftrightarrow> s = [] \<or> hd s = newline"

lemma split_tokens_message:
  assumes "\<forall>w \<in> set ws. CHR '' '' \<notin> set w \<and> newline \<notin> set w \<and> w \<noteq> []"
    and "plain_prefix p" "line_suffix s"
  shows "split_tokens (CHR '' '') (p @ concat (map (\<lambda>w. CHR '' '' # w) ws) @ s) =
    (if p = [] then [] else [p]) @ ws"
proof -
  let ?m = "p @ concat (map (\<lambda>w. CHR '' '' # w) ws)"
  have n: "newline \<notin> set ?m" using assms by (auto simp: plain_prefix_def)
  have "first_line (?m @ s) = ?m"
  proof (cases s)
    case Nil
    then show ?thesis using n by (simp add: first_line_id)
  next
    case (Cons c r)
    then have "s = newline # r" using assms(3) by (simp add: line_suffix_def)
    then show ?thesis using first_line_append [OF n] by simp
  qed
  then have "split_tokens (CHR '' '') (?m @ s) = split_tokens (CHR '' '') ?m"
    using first_line_id [OF n] by (simp add: split_tokens_def)
  also have "\<dots> = (if p = [] then [] else [p]) @ ws"
    using assms by (intro split_tokens_words) (auto simp: plain_prefix_def)
  finally show ?thesis by simp
qed

lemma message_no_nul:
  "plain_prefix p \<Longrightarrow> ws \<noteq> [] \<Longrightarrow> (p @ concat (map (\<lambda>w. CHR '' '' # w) ws) @ s) ! 0 \<noteq> nul"
  by (cases ws; cases p) (auto simp: plain_prefix_def)

text \<open>The fields that \<open>safe_atoi\<close> and the tests against the extremes let through.\<close>

definition wire_ranges :: "tile_desc \<Rightarrow> bool" where
  "wire_ranges t \<longleftrightarrow>
    td_canonicalViewId t < INT_MAX \<and> td_part t < INT_MAX \<and> td_mode t < INT_MAX \<and>
    td_width t < INT_MAX \<and> td_height t < INT_MAX \<and> td_tilePosX t < INT_MAX \<and>
    td_tilePosY t < INT_MAX \<and> td_tileWidth t < INT_MAX \<and> td_tileHeight t < INT_MAX \<and>
    - INT_MAX \<le> td_ver t \<and> td_ver t < INT_MAX \<and> td_imgSize t < INT_MAX \<and>
    - 1 \<le> td_id t \<and> td_id t < INT_MAX \<and>
    uint (td_oldWireId t) \<le> INT_MAX \<and> uint (td_wireId t) \<le> INT_MAX"

lemma fold_tile_words:
  assumes "tile_valid t" "wire_ranges t"
  shows "fold parse_tile_text (tile_words t) (0, 0, tile_args) =
    (td_oldWireId t, td_wireId t,
     tile_table (td_height t) (td_id t) (td_imgSize t) (td_mode t) (td_canonicalViewId t) (td_part t)
       (td_tileHeight t) (td_tilePosX t) (td_tilePosY t) (td_tileWidth t) (td_ver t) (td_width t))"
proof -
  note r = assms [unfolded tile_valid_def wire_ranges_def]
  have id: "td_id t < 0 \<Longrightarrow> td_id t = -1" and img: "\<not> 0 < td_imgSize t \<Longrightarrow> td_imgSize t = 0"
    using r by simp_all
  have oldwid: "fold parse_tile_text
      (if td_oldWireId t \<noteq> 0 then [''oldwid'' @ CHR ''='' # show_u32 (td_oldWireId t)] else [])
      (0, w, tb) = (td_oldWireId t, w, tb)" for w tb
    using r parse_tile_text_oldwid [of "td_oldWireId t" 0 w tb] by simp
  have wid: "fold parse_tile_text
      (if td_wireId t \<noteq> 0 then [''wid'' @ CHR ''='' # show_u32 (td_wireId t)] else [])
      (old, 0, tb) = (old, td_wireId t, tb)" for old tb
    using r parse_tile_text_wid [of "td_wireId t" old 0 tb] by simp
  have opt_id: "fold parse_tile_text (if td_id t \<ge> 0 then [name_word ''id'' (td_id t)] else [])
      (old, w, tile_table a (-1) c d e f g h i j k l) = (old, w, tile_table a (td_id t) c d e f g h i j k l)"
    for old w a c d e f g h i j k l
    using r id by (cases "0 \<le> td_id t") (simp_all add: parse_tile_text_name set_arg_table)
  have opt_img: "fold parse_tile_text (if td_imgSize t > 0 then [name_word ''imgsize'' (td_imgSize t)] else [])
      (old, w, tile_table a b 0 d e f g h i j k l) = (old, w, tile_table a b (td_imgSize t) d e f g h i j k l)"
    for old w a b d e f g h i j k l
    using r img by (cases "0 < td_imgSize t") (simp_all add: parse_tile_text_name set_arg_table)
  have opt_mode: "fold parse_tile_text (if td_mode t \<noteq> 0 then [name_word ''mode'' (td_mode t)] else [])
      (old, w, tile_table a b c 0 e f g h i j k l) = (old, w, tile_table a b c (td_mode t) e f g h i j k l)"
    for old w a b c e f g h i j k l
    using r by (simp add: parse_tile_text_name set_arg_table)
  have fixed: "fold parse_tile_text
    [name_word ''nviewid'' (td_canonicalViewId t), name_word ''part'' (td_part t),
     name_word ''width'' (td_width t), name_word ''height'' (td_height t),
     name_word ''tileposx'' (td_tilePosX t), name_word ''tileposy'' (td_tilePosY t),
     name_word ''tilewidth'' (td_tileWidth t), name_word ''tileheight'' (td_tileHeight t)]
    (0, 0, tile_args) =
    (0, 0, tile_table (td_height t) (-1) 0 0 (td_canonicalViewId t) (td_part t)
       (td_tileHeight t) (td_tilePosX t) (td_tilePosY t) (td_tileWidth t) (-1) (td_width t))"
    using r by (simp add: parse_tile_text_name tile_args_table set_arg_table)
  have version: "fold parse_tile_text [name_word ''ver'' (td_ver t)]
      (old, w, tile_table a b c d e f g h i j (-1) l) = (old, w, tile_table a b c d e f g h i j (td_ver t) l)"
    for old w a b c d e f g h i j l
    using r by (simp add: parse_tile_text_name set_arg_table)
  show ?thesis
    unfolding tile_words_def fold_append comp_def fixed oldwid wid version opt_id opt_img opt_mode ..
qed

lemma parse_tile_serialize:
  assumes "tile_valid t" "wire_ranges t" "plain_prefix p" "line_suffix s"
  shows "parse_tile (serialize t p s) = Ok t"
proof -
  let ?v = "tokenize_data (serialize t p s) (CHR '' '')"
  have "serialize t p s ! 0 \<noteq> nul"
    unfolding serialize_words by (rule message_no_nul) (simp_all add: assms(3) tile_words_def)
  then have "sv_texts ?v = split_tokens (CHR '' '') (serialize t p s)"
    by (intro sv_texts_tokenize) simp
  also have "\<dots> = (if p = [] then [] else [p]) @ tile_words t"
    unfolding serialize_words by (rule split_tokens_message [OF tile_words_clean assms(3,4)])
  finally have "sv_texts ?v = (if p = [] then [] else [p]) @ tile_words t" .
  then have "fold parse_tile_text (sv_texts ?v) st = fold parse_tile_text (tile_words t) st" for st
    using assms(3) by (simp add: parse_tile_text_plain plain_prefix_def)
  then show ?thesis
    using assms(1)
    by (simp add: parse_tile_def parse_tile_tokens_def parse_tile_step_texts
        fold_tile_words [OF assms(1,2)] tile_table_def mk_tile_desc_def tile_valid_def view_invalid_def)
qed

end
