(* ===== verification/TileCombineds.thy ===== *)
theory TileCombineds
  imports TileWire
begin

text \<open>
  \<open>TileCombined\<close> and \<open>TileCombinedBuilder\<close> of src/wsd/TileDesc.hpp: one header for several
  tiles that share everything but position, version, image size and wire ids, which are
  comma-separated lists on the wire.
\<close>

section \<open>The combined header\<close>

record tile_combined =
  tc_tiles :: "tile_desc list"
  tc_aabbox :: rectangle
  tc_canonicalViewId :: int
  tc_part :: int
  tc_mode :: int
  tc_width :: int
  tc_height :: int
  tc_tileWidth :: int
  tc_tileHeight :: int
  tc_hasWids :: bool
  tc_hasOldWids :: bool
  tc_isCombined :: bool
  tc_hasImgSizes :: bool

text \<open>The default constructor, used by the builder.\<close>

definition tc_default :: tile_combined where
  "tc_default = \<lparr>tc_tiles = [], tc_aabbox = rect_empty, tc_canonicalViewId = view_invalid,
    tc_part = -1, tc_mode = -1, tc_width = -1, tc_height = -1, tc_tileWidth = -1,
    tc_tileHeight = -1, tc_hasWids = False, tc_hasOldWids = False, tc_isCombined = False,
    tc_hasImgSizes = False\<rparr>"

text \<open>
  One round of the constructor's loop: read the \<open>i\<close>-th token of each list, append the
  tile, extend the box.
\<close>

definition combined_step ::
    "string_vector \<Rightarrow> string_vector \<Rightarrow> string_vector \<Rightarrow> string_vector \<Rightarrow> string_vector \<Rightarrow> string_vector \<Rightarrow>
     nat \<Rightarrow> tile_combined \<Rightarrow> tile_combined res" where
  "combined_step xs ys imgs vers oldws ws i c =
    (case string_to_integer (sv_nth xs i) of (x, okx) \<Rightarrow>
     if \<not> okx then Err (BadArgument ''Invalid tileposx in tilecombine descriptor.'')
     else case string_to_integer (sv_nth ys i) of (y, oky) \<Rightarrow>
     if \<not> oky then Err (BadArgument ''Invalid tileposy in tilecombine descriptor.'')
     else case (if sv_empty imgs then (0, True) else string_to_integer (sv_nth imgs i)) of (img, oki) \<Rightarrow>
     if \<not> oki then Err (BadArgument ''Invalid imgsize in tilecombine descriptor.'')
     else case (if \<not> sv_empty vers \<and> sv_nth vers i \<noteq> [] then string_to_integer (sv_nth vers i)
                else (-1, True)) of (vr, okv) \<Rightarrow>
     if \<not> okv then Err (BadArgument ''Invalid ver in tilecombine descriptor.'')
     else case (if sv_empty oldws then (0, True) else string_to_uint32 (sv_nth oldws i)) of (oldw, oko) \<Rightarrow>
     if \<not> oko then Err (BadArgument (''Invalid tilecombine descriptor. oldWireIdToken: '' @ sv_nth oldws i))
     else case (if sv_empty ws then (0, True) else string_to_uint32 (sv_nth ws i)) of (w, okw) \<Rightarrow>
     if \<not> okw then Err (BadArgument (''Invalid tilecombine descriptor. wireIdToken: '' @ sv_nth ws i))
     else res_bind
       (mk_tile_desc (tc_canonicalViewId c) (tc_part c) (tc_mode c) (tc_width c) (tc_height c) x y
          (tc_tileWidth c) (tc_tileHeight c) vr img (-1))
       (\<lambda>t. let t' = t\<lparr>td_oldWireId := oldw, td_wireId := w\<rparr> in
          Ok (c\<lparr>tc_hasImgSizes := tc_hasImgSizes c \<or> img \<noteq> 0,
                tc_hasOldWids := tc_hasOldWids c \<or> oldw \<noteq> 0,
                tc_hasWids := tc_hasWids c \<or> w \<noteq> 0,
                tc_tiles := tc_tiles c @ [t'],
                tc_aabbox := rect_extend (tc_aabbox c) (to_aabbox t')\<rparr>)))"

text \<open>The constructor from the fields and the comma-separated lists.\<close>

definition mk_tile_combined ::
    "int \<Rightarrow> int \<Rightarrow> int \<Rightarrow> int \<Rightarrow> int \<Rightarrow> string \<Rightarrow> string \<Rightarrow> int \<Rightarrow> int \<Rightarrow> string \<Rightarrow> string \<Rightarrow> string \<Rightarrow>
     string \<Rightarrow> tile_combined res" where
  "mk_tile_combined view prt md w h posXs posYs tw th verss imgss oldwss wss =
    (if prt < 0 \<or> md < 0 \<or> w \<le> 0 \<or> h \<le> 0 \<or> tw \<le> 0 \<or> th \<le> 0
     then Err (BadArgument (''Invalid tilecombine descriptor. Elements: '' @ show_int prt @ '' '' @
       show_int md @ '' '' @ show_int w @ '' '' @ show_int h @ '' '' @ show_int tw @ '' '' @ show_int th))
     else
       let xs = tokenize posXs (CHR '',''); ys = tokenize posYs (CHR '','');
           imgs = tokenize imgss (CHR '',''); vers = tokenize verss (CHR '','');
           oldws = tokenize oldwss (CHR '',''); ws = tokenize wss (CHR '','');
           n = sv_size xs
       in if n \<noteq> sv_size ys \<or> (imgss \<noteq> [] \<and> n \<noteq> sv_size imgs) \<or> (verss \<noteq> [] \<and> n \<noteq> sv_size vers) \<or>
             (oldwss \<noteq> [] \<and> n \<noteq> sv_size oldws) \<or> (wss \<noteq> [] \<and> n \<noteq> sv_size ws)
          then Err (BadArgument
            ''Invalid tilecombine descriptor. Unequal number of tiles in parameters.'')
          else res_fold (combined_step xs ys imgs vers oldws ws) [0..<n]
            (tc_default\<lparr>tc_canonicalViewId := view, tc_part := prt, tc_mode := md, tc_width := w,
               tc_height := h, tc_tileWidth := tw, tc_tileHeight := th, tc_isCombined := True\<rparr>))"

definition tc_set_canonical_view_id :: "int \<Rightarrow> tile_combined \<Rightarrow> tile_combined" where
  "tc_set_canonical_view_id view c =
    c\<lparr>tc_tiles := map (td_canonicalViewId_update (\<lambda>_. view)) (tc_tiles c),
      tc_canonicalViewId := view\<rparr>"

definition tc_set_has_old_wire_id :: "tile_combined \<Rightarrow> tile_combined" where
  "tc_set_has_old_wire_id c = c\<lparr>tc_hasOldWids := True\<rparr>"

text \<open>\<open>hasDuplicates\<close>: two tiles of the vector with the same position\<close>

fun dup_positions :: "tile_desc list \<Rightarrow> bool" where
  "dup_positions [] = False"
| "dup_positions (a # ts) =
    (list_ex (\<lambda>b. td_tilePosX a = td_tilePosX b \<and> td_tilePosY a = td_tilePosY b) ts \<or> dup_positions ts)"

definition has_duplicates :: "tile_combined \<Rightarrow> bool" where
  "has_duplicates c = (if length (tc_tiles c) < 2 then False else dup_positions (tc_tiles c))"

section \<open>Serialization\<close>

text \<open>\<open>(num++ ? "," : "") << value\<close> for each tile\<close>

definition comma_list :: "string list \<Rightarrow> string" where
  "comma_list ws = (case ws of [] \<Rightarrow> [] | v # vs \<Rightarrow> v @ concat (map (\<lambda>x. CHR '','' # x) vs))"

definition tc_serialize :: "tile_combined \<Rightarrow> string \<Rightarrow> string \<Rightarrow> string" where
  "tc_serialize c prefix suffix =
    prefix @
    '' nviewid='' @ show_int (tc_canonicalViewId c) @
    '' part='' @ show_int (tc_part c) @
    '' width='' @ show_int (tc_width c) @
    '' height='' @ show_int (tc_height c) @
    '' tileposx='' @ comma_list (map (\<lambda>t. show_int (td_tilePosX t)) (tc_tiles c)) @
    '' tileposy='' @ comma_list (map (\<lambda>t. show_int (td_tilePosY t)) (tc_tiles c)) @
    (if tc_hasImgSizes c then '' imgsize='' @ comma_list (map (\<lambda>t. show_int (td_imgSize t)) (tc_tiles c)) else []) @
    '' tilewidth='' @ show_int (tc_tileWidth c) @
    '' tileheight='' @ show_int (tc_tileHeight c) @
    '' ver='' @ comma_list (map (\<lambda>t. show_int (td_ver t)) (tc_tiles c)) @
    (if tc_hasOldWids c then '' oldwid='' @ comma_list (map (\<lambda>t. show_u32 (td_oldWireId t)) (tc_tiles c)) else []) @
    (if tc_hasWids c then '' wid='' @ comma_list (map (\<lambda>t. show_u32 (td_wireId t)) (tc_tiles c)) else []) @
    (if tc_mode c \<noteq> 0 then '' mode='' @ show_int (tc_mode c) else []) @
    suffix"

section \<open>Parsing\<close>

definition combined_args :: arg_table where
  "combined_args =
    [(''height'', 0), (''mode'', 0), (''nviewid'', 0), (''part'', 0), (''tileheight'', 0),
     (''tilewidth'', 0), (''width'', 0)]"

text \<open>The lists \<open>parse\<close> collects beside the table.\<close>

record combined_lists =
  cl_posX :: string
  cl_posY :: string
  cl_imgSizes :: string
  cl_versions :: string
  cl_oldWireIds :: string
  cl_wireIds :: string
  cl_pairs :: arg_table

definition parse_combined_text :: "string \<Rightarrow> combined_lists \<Rightarrow> combined_lists" where
  "parse_combined_text token l =
    (case parse_name_value_pair token (CHR ''='') of
       None \<Rightarrow> l
     | Some (name, val) \<Rightarrow>
         if name = ''tileposx'' then l\<lparr>cl_posX := val\<rparr>
         else if name = ''tileposy'' then l\<lparr>cl_posY := val\<rparr>
         else if name = ''imgsize'' then l\<lparr>cl_imgSizes := val\<rparr>
         else if name = ''ver'' then l\<lparr>cl_versions := val\<rparr>
         else if name = ''oldwid'' then l\<lparr>cl_oldWireIds := val\<rparr>
         else if name = ''wid'' then l\<lparr>cl_wireIds := val\<rparr>
         else case string_to_integer val of (v, okv) \<Rightarrow>
           if okv then l\<lparr>cl_pairs := snd (set_arg (cl_pairs l) name v)\<rparr> else l)"

text \<open>Each token is read by \<open>getParam\<close>, whose assertion holds for tokens that are not empty and is left out.\<close>

definition parse_combined_tokens :: "string_vector \<Rightarrow> tile_combined res" where
  "parse_combined_tokens tokens =
    (let l = fold parse_combined_text (map (token_text tokens) (sv_tokens tokens))
           \<lparr>cl_posX = [], cl_posY = [], cl_imgSizes = [], cl_versions = [], cl_oldWireIds = [],
            cl_wireIds = [], cl_pairs = combined_args\<rparr>;
         p = cl_pairs l
     in mk_tile_combined (snd (p ! 2)) (snd (p ! 3)) (snd (p ! 1)) (snd (p ! 6)) (snd (p ! 0))
          (cl_posX l) (cl_posY l) (snd (p ! 5)) (snd (p ! 4)) (cl_versions l) (cl_imgSizes l)
          (cl_oldWireIds l) (cl_wireIds l))"

definition parse_combined :: "string \<Rightarrow> tile_combined res" where
  "parse_combined message = parse_combined_tokens (tokenize_data message (CHR '' ''))"

section \<open>Creation from tiles\<close>

text \<open>
  Each value followed by a comma. Seeking the put position of \<open>vers\<close> back by one does not
  shorten what \<open>str()\<close> returns, so that list keeps its last comma too.
\<close>

definition comma_each :: "string list \<Rightarrow> string" where
  "comma_each ws = concat (map (\<lambda>v. v @ '','') ws)"

definition tc_create :: "tile_desc list \<Rightarrow> tile_combined res" where
  "tc_create tiles =
    (case tiles of
       [] \<Rightarrow> Err AssertionFailed
     | t # _ \<Rightarrow>
         mk_tile_combined (td_canonicalViewId t) (td_part t) (td_mode t) (td_width t) (td_height t)
           (comma_each (map (\<lambda>t. show_int (td_tilePosX t)) tiles))
           (comma_each (map (\<lambda>t. show_int (td_tilePosY t)) tiles))
           (td_tileWidth t) (td_tileHeight t)
           (comma_each (map (\<lambda>t. show_int (td_ver t)) tiles)) []
           (comma_each (map (\<lambda>t. show_u32 (td_oldWireId t)) tiles))
           (comma_each (map (\<lambda>t. show_u32 (td_wireId t)) tiles)))"

definition tc_init_from :: "tile_desc \<Rightarrow> tile_combined \<Rightarrow> tile_combined" where
  "tc_init_from d c =
    c\<lparr>tc_part := td_part d, tc_mode := td_mode d, tc_width := td_width d, tc_height := td_height d,
      tc_tileWidth := td_tileWidth d, tc_tileHeight := td_tileHeight d,
      tc_canonicalViewId := td_canonicalViewId d, tc_tiles := tc_tiles c @ [d],
      tc_isCombined := False, tc_hasWids := td_wireId d \<noteq> 0, tc_hasOldWids := td_oldWireId d \<noteq> 0,
      tc_hasImgSizes := td_imgSize d \<noteq> 0\<rparr>"

text \<open>\<open>explicit TileCombined(const TileDesc&)\<close>: the members start as \<open>initFrom\<close> leaves them.\<close>

definition tc_of_tile :: "tile_desc \<Rightarrow> tile_combined" where
  "tc_of_tile d = tc_init_from d tc_default"

text \<open>\<open>TileCombinedBuilder::pushRendered\<close>\<close>

definition update_last :: "('a \<Rightarrow> 'a) \<Rightarrow> 'a list \<Rightarrow> 'a list" where
  "update_last f xs = (if xs = [] then [] else butlast xs @ [f (last xs)])"

definition tc_push_rendered :: "tile_desc \<Rightarrow> wire_id \<Rightarrow> int \<Rightarrow> tile_combined \<Rightarrow> tile_combined" where
  "tc_push_rendered d w img c =
    (let c1 = (if tc_part c < 0 \<and> tc_mode c < 0 \<and> tc_width c \<le> 0 then tc_init_from d c
               else c\<lparr>tc_tiles := tc_tiles c @ [d]\<rparr>);
         c2 = c1\<lparr>tc_tiles := update_last (\<lambda>t. t\<lparr>td_wireId := w\<rparr>) (tc_tiles c1), tc_hasWids := True\<rparr>;
         c3 = c2\<lparr>tc_tiles := update_last (\<lambda>t. t\<lparr>td_imgSize := img\<rparr>) (tc_tiles c2), tc_hasImgSizes := True\<rparr>
     in c3\<lparr>tc_isCombined := length (tc_tiles c3) > 1\<rparr>)"

end
