(* ===== verification/CombinedWire.thy ===== *)
theory CombinedWire
  imports TileCombineds
begin

text \<open>
  The wire form of a combined header: the comma-separated lists carry their words whichever
  way they were written, the constructor rebuilds the tiles from them, and what \<open>create\<close>
  makes survives \<open>serialize\<close> and \<open>parse\<close>.
\<close>

section \<open>Comma-separated lists\<close>

definition carries :: "string \<Rightarrow> string list \<Rightarrow> bool" where
  "carries l ws \<longleftrightarrow> sv_texts (tokenize l (CHR '','')) = ws \<and> (l = [] \<longleftrightarrow> ws = [])"

definition list_words :: "string list \<Rightarrow> bool" where
  "list_words ws \<longleftrightarrow> (\<forall>w \<in> set ws. CHR '','' \<notin> set w \<and> newline \<notin> set w \<and> nul \<notin> set w \<and> w \<noteq> [])"

lemma show_int_no_nul [simp]: "nul \<notin> set (show_int i)"
  using show_int_chars [of nul i] by (auto simp: is_digit_def)

lemma list_words_show [simp]:
  "list_words (map (\<lambda>t. show_int (f t)) ts)" "list_words (map (\<lambda>t. show_u32 (g t)) ts)"
  by (auto simp: list_words_def show_u32_show_int)

lemma first_not_nul: "nul \<notin> set s \<Longrightarrow> s = [] \<or> s ! 0 \<noteq> nul"
  by (cases s) auto

lemma comma_each_clean:
  "list_words ws \<Longrightarrow> newline \<notin> set (comma_each ws) \<and> nul \<notin> set (comma_each ws)"
  by (auto simp: comma_each_def list_words_def)

lemma comma_list_clean:
  "list_words ws \<Longrightarrow> newline \<notin> set (comma_list ws) \<and> nul \<notin> set (comma_list ws)"
  by (auto simp: comma_list_def list_words_def split: list.splits)

lemma pieces_comma_each: "list_words ws \<Longrightarrow> pieces (CHR '','') [] (comma_each ws) = ws"
proof (induction ws)
  case (Cons w ws)
  then have "CHR '','' \<notin> set w" "w \<noteq> []" "list_words ws" by (simp_all add: list_words_def)
  moreover have "comma_each (w # ws) = w @ CHR '','' # comma_each ws" by (simp add: comma_each_def)
  ultimately show ?case using Cons.IH by (simp add: pieces_word)
qed (simp add: comma_each_def)

lemma pieces_comma_list: "list_words ws \<Longrightarrow> pieces (CHR '','') [] (comma_list ws) = ws"
proof (cases ws)
  case (Cons v vs)
  assume "list_words ws"
  with Cons have "CHR '','' \<notin> set v" "v \<noteq> []" "\<forall>w \<in> set vs. CHR '','' \<notin> set w \<and> w \<noteq> []"
    by (simp_all add: list_words_def)
  with Cons show ?thesis by (simp add: comma_list_def pieces_word pieces_words)
qed (simp add: comma_list_def)

lemma carriesI:
  assumes "pieces (CHR '','') [] l = ws" "newline \<notin> set l \<and> nul \<notin> set l" "l = [] \<longleftrightarrow> ws = []"
  shows "carries l ws"
  using assms
  by (simp add: carries_def sv_texts_tokenize(1) [OF first_not_nul] split_tokens_def first_line_id)

lemma carries_comma_each: "list_words ws \<Longrightarrow> carries (comma_each ws) ws"
  by (intro carriesI pieces_comma_each comma_each_clean) (auto simp: comma_each_def)

lemma carries_comma_list: "list_words ws \<Longrightarrow> carries (comma_list ws) ws"
  by (intro carriesI pieces_comma_list comma_list_clean)
    (auto simp: comma_list_def list_words_def split: list.splits)

lemma carries_Nil: "carries [] []"
  by (simp add: carries_def tokenize_def)

section \<open>The constructor\<close>

text \<open>What a combined header says of its tiles; \<open>combined_of\<close> is the header of a tile list.\<close>

definition tile_ranges :: "tile_desc \<Rightarrow> bool" where
  "tile_ranges t \<longleftrightarrow> td_tilePosX t \<le> INT_MAX \<and> td_tilePosY t \<le> INT_MAX \<and> in_i32 (td_ver t) \<and> td_imgSize t \<le> INT_MAX"

definition shared_ranges :: "tile_desc \<Rightarrow> bool" where
  "shared_ranges t \<longleftrightarrow> td_canonicalViewId t \<le> INT_MAX \<and> td_part t \<le> INT_MAX \<and> td_mode t \<le> INT_MAX \<and>
    td_width t \<le> INT_MAX \<and> td_height t \<le> INT_MAX \<and> td_tileWidth t \<le> INT_MAX \<and> td_tileHeight t \<le> INT_MAX"

definition in_header :: "tile_combined \<Rightarrow> tile_desc \<Rightarrow> bool" where
  "in_header c t \<longleftrightarrow>
    td_canonicalViewId t = tc_canonicalViewId c \<and> td_part t = tc_part c \<and> td_mode t = tc_mode c \<and>
    td_width t = tc_width c \<and> td_height t = tc_height c \<and> td_tileWidth t = tc_tileWidth c \<and>
    td_tileHeight t = tc_tileHeight c"

definition add_tile :: "tile_desc \<Rightarrow> tile_combined \<Rightarrow> tile_combined" where
  "add_tile t c =
    c\<lparr>tc_hasImgSizes := tc_hasImgSizes c \<or> td_imgSize t \<noteq> 0,
      tc_hasOldWids := tc_hasOldWids c \<or> td_oldWireId t \<noteq> 0,
      tc_hasWids := tc_hasWids c \<or> td_wireId t \<noteq> 0,
      tc_tiles := tc_tiles c @ [t\<lparr>td_id := -1\<rparr>],
      tc_aabbox := rect_extend (tc_aabbox c) (to_aabbox t)\<rparr>"

definition header_of :: "tile_desc \<Rightarrow> tile_combined" where
  "header_of t = tc_default\<lparr>tc_canonicalViewId := td_canonicalViewId t, tc_part := td_part t,
     tc_mode := td_mode t, tc_width := td_width t, tc_height := td_height t,
     tc_tileWidth := td_tileWidth t, tc_tileHeight := td_tileHeight t, tc_isCombined := True\<rparr>"

definition combined_of :: "tile_desc list \<Rightarrow> tile_combined" where
  "combined_of ts = fold add_tile ts (header_of (hd ts))"

lemma in_header_add [simp]: "in_header (add_tile t c) u = in_header c u"
  by (simp add: in_header_def add_tile_def)

lemma in_header_fold_add [simp]: "in_header (fold add_tile ts c) u = in_header c u"
  by (induction ts arbitrary: c) simp_all

lemma to_aabbox_ids [simp]:
  "to_aabbox (t\<lparr>td_id := i\<rparr>) = to_aabbox t" "to_aabbox (t\<lparr>td_imgSize := j\<rparr>) = to_aabbox t"
  by (simp_all add: to_aabbox_def)

lemma fold_add_tile:
  "tc_tiles (fold add_tile ts c) = tc_tiles c @ map (td_id_update (\<lambda>_. -1)) ts"
  "tc_aabbox (fold add_tile ts c) = foldl rect_extend (tc_aabbox c) (map to_aabbox ts)"
  "tc_hasWids (fold add_tile ts c) \<longleftrightarrow> tc_hasWids c \<or> (\<exists>t \<in> set ts. td_wireId t \<noteq> 0)"
  "tc_hasOldWids (fold add_tile ts c) \<longleftrightarrow> tc_hasOldWids c \<or> (\<exists>t \<in> set ts. td_oldWireId t \<noteq> 0)"
  "tc_hasImgSizes (fold add_tile ts c) \<longleftrightarrow> tc_hasImgSizes c \<or> (\<exists>t \<in> set ts. td_imgSize t \<noteq> 0)"
  "tc_isCombined (fold add_tile ts c) = tc_isCombined c"
  by (induction ts arbitrary: c) (simp_all add: add_tile_def)

text \<open>One round of the loop, on texts that carry the values of the \<open>i\<close>-th tile.\<close>

definition lists_carry ::
    "tile_desc list \<Rightarrow> string \<Rightarrow> string \<Rightarrow> string \<Rightarrow> string \<Rightarrow> string \<Rightarrow> string \<Rightarrow> bool" where
  "lists_carry ts xs ys vs imgs oldws ws \<longleftrightarrow>
    carries xs (map (\<lambda>t. show_int (td_tilePosX t)) ts) \<and>
    carries ys (map (\<lambda>t. show_int (td_tilePosY t)) ts) \<and>
    carries vs (map (\<lambda>t. show_int (td_ver t)) ts) \<and>
    (if imgs = [] then \<forall>t \<in> set ts. td_imgSize t = 0 else carries imgs (map (\<lambda>t. show_int (td_imgSize t)) ts)) \<and>
    (if oldws = [] then \<forall>t \<in> set ts. td_oldWireId t = 0 else carries oldws (map (\<lambda>t. show_u32 (td_oldWireId t)) ts)) \<and>
    (if ws = [] then \<forall>t \<in> set ts. td_wireId t = 0 else carries ws (map (\<lambda>t. show_u32 (td_wireId t)) ts))"

lemma carries_nth:
  assumes "carries l (map f ts)" "i < length ts"
  shows "sv_nth (tokenize l (CHR '','')) i = f (ts ! i)" "\<not> sv_empty (tokenize l (CHR '',''))"
    "sv_size (tokenize l (CHR '','')) = length ts"
proof -
  have t: "sv_texts (tokenize l (CHR '','')) = map f ts" using assms(1) by (simp add: carries_def)
  then show "sv_nth (tokenize l (CHR '','')) i = f (ts ! i)" using assms(2) by (simp add: sv_nth_texts)
  from t have "length (sv_texts (tokenize l (CHR '',''))) = length ts" by simp
  then have l: "length (sv_tokens (tokenize l (CHR '',''))) = length ts" by simp
  then show "sv_size (tokenize l (CHR '','')) = length ts" by (simp add: sv_size_def)
  show "\<not> sv_empty (tokenize l (CHR '',''))" using l assms(2) by (auto simp: sv_empty_def)
qed

lemma sv_empty_tokenize_Nil [simp]: "sv_empty (tokenize [] d)"
  by (simp add: tokenize_def sv_empty_def sv_empty_vector_def)

lemma combined_step_carries:
  assumes "lists_carry ts xs ys vs imgs oldws ws" "i < length ts"
    and "tile_valid (ts ! i)" "tile_ranges (ts ! i)" "in_header c (ts ! i)"
  shows "combined_step (tokenize xs (CHR '','')) (tokenize ys (CHR '','')) (tokenize imgs (CHR '',''))
      (tokenize vs (CHR '','')) (tokenize oldws (CHR '','')) (tokenize ws (CHR '','')) i c =
    Ok (add_tile (ts ! i) c)"
proof -
  let ?t = "ts ! i" and ?tok = "\<lambda>l. tokenize l (CHR '','')"
  have mem: "?t \<in> set ts" using assms(2) by simp
  note r = assms(3-5) [unfolded tile_valid_def tile_ranges_def in_i32_def in_header_def]
  have l: "carries xs (map (\<lambda>t. show_int (td_tilePosX t)) ts)"
    "carries ys (map (\<lambda>t. show_int (td_tilePosY t)) ts)" "carries vs (map (\<lambda>t. show_int (td_ver t)) ts)"
    "imgs = [] \<Longrightarrow> td_imgSize ?t = 0" "imgs \<noteq> [] \<Longrightarrow> carries imgs (map (\<lambda>t. show_int (td_imgSize t)) ts)"
    "oldws = [] \<Longrightarrow> td_oldWireId ?t = 0" "oldws \<noteq> [] \<Longrightarrow> carries oldws (map (\<lambda>t. show_u32 (td_oldWireId t)) ts)"
    "ws = [] \<Longrightarrow> td_wireId ?t = 0" "ws \<noteq> [] \<Longrightarrow> carries ws (map (\<lambda>t. show_u32 (td_wireId t)) ts)"
    using assms(1) mem by (auto simp: lists_carry_def)
  have x: "string_to_integer (sv_nth (?tok xs) i) = (td_tilePosX ?t, True)"
    and y: "string_to_integer (sv_nth (?tok ys) i) = (td_tilePosY ?t, True)"
    using carries_nth(1) [OF l(1) assms(2)] carries_nth(1) [OF l(2) assms(2)] r
    by (simp_all add: string_to_integer_show)
  have v: "sv_nth (?tok vs) i = show_int (td_ver ?t)" "\<not> sv_empty (?tok vs)"
    using carries_nth(1,2) [OF l(3) assms(2)] by simp_all
  have img: "(if sv_empty (?tok imgs) then (0, True) else string_to_integer (sv_nth (?tok imgs) i)) = (td_imgSize ?t, True)"
    using carries_nth(1,2) [OF l(5) assms(2)] l(4) r
    by (cases "imgs = []") (simp_all add: string_to_integer_show)
  have oldw: "(if sv_empty (?tok oldws) then (0, True) else string_to_uint32 (sv_nth (?tok oldws) i)) = (td_oldWireId ?t, True)"
    using carries_nth(1,2) [OF l(7) assms(2)] l(6)
    by (cases "oldws = []") (simp_all add: string_to_uint32_show)
  have w: "(if sv_empty (?tok ws) then (0, True) else string_to_uint32 (sv_nth (?tok ws) i)) = (td_wireId ?t, True)"
    using carries_nth(1,2) [OF l(9) assms(2)] l(8)
    by (cases "ws = []") (simp_all add: string_to_uint32_show)
  have mk: "mk_tile_desc (tc_canonicalViewId c) (tc_part c) (tc_mode c) (tc_width c) (tc_height c)
      (td_tilePosX ?t) (td_tilePosY ?t) (tc_tileWidth c) (tc_tileHeight c) (td_ver ?t) (td_imgSize ?t) (-1) =
    Ok (?t\<lparr>td_id := -1, td_oldWireId := 0, td_wireId := 0\<rparr>)"
    using r by (simp add: mk_tile_desc_def view_invalid_def)
  have box: "to_aabbox (?t\<lparr>td_id := -1, td_oldWireId := a, td_wireId := b\<rparr>) = to_aabbox ?t" for a b
    by (simp add: to_aabbox_def)
  show ?thesis
    using r
    unfolding combined_step_def x y img oldw w v(1)
    by (simp add: v(2) string_to_integer_show mk add_tile_def box [of "td_oldWireId ?t" "td_wireId ?t"])
qed

lemma res_fold_upt:
  assumes "\<And>i s. i < length ts \<Longrightarrow> I s \<Longrightarrow> f i s = Ok (g (ts ! i) s) \<and> I (g (ts ! i) s)" "I s"
  shows "res_fold f [0..<length ts] s = Ok (fold g ts s)"
proof -
  have "n \<le> length ts \<Longrightarrow> res_fold f [0..<n] s = Ok (fold g (take n ts) s) \<and> I (fold g (take n ts) s)" for n
  proof (induction n)
    case (Suc n)
    then have "n < length ts" "res_fold f [0..<n] s = Ok (fold g (take n ts) s)" "I (fold g (take n ts) s)" by auto
    then show ?case using assms(1) [of n] by (simp add: res_fold_append take_Suc_conv_app_nth)
  qed (simp add: assms(2))
  from this [of "length ts"] show ?thesis by simp
qed

definition uniform_tiles :: "tile_desc list \<Rightarrow> bool" where
  "uniform_tiles ts \<longleftrightarrow> ts \<noteq> [] \<and> (\<forall>t \<in> set ts. tile_valid t \<and> tile_ranges t \<and> same_tile_combine_params (hd ts) t)"

lemma in_header_of: "in_header (header_of u) t \<longleftrightarrow> same_tile_combine_params u t"
  by (auto simp: in_header_def header_of_def same_params_iff)

lemma uniform_in_header: "uniform_tiles ts \<Longrightarrow> t \<in> set ts \<Longrightarrow> in_header (header_of (hd ts)) t"
  unfolding in_header_of by (auto simp only: uniform_tiles_def)

lemma mk_tile_combined_uniform:
  assumes "uniform_tiles ts" "lists_carry ts xs ys vs imgs oldws ws"
  shows "mk_tile_combined (td_canonicalViewId (hd ts)) (td_part (hd ts)) (td_mode (hd ts)) (td_width (hd ts))
      (td_height (hd ts)) xs ys (td_tileWidth (hd ts)) (td_tileHeight (hd ts)) vs imgs oldws ws =
    Ok (combined_of ts)"
proof -
  have ne: "0 < length ts" and valid: "tile_valid (hd ts)" using assms(1) by (auto simp: uniform_tiles_def)
  have sizes: "sv_size (tokenize l (CHR '','')) = length ts" if "carries l (map f ts)" for l f
    using carries_nth(3) [OF that ne] .
  have sz: "sv_size (tokenize xs (CHR '','')) = length ts" "sv_size (tokenize ys (CHR '','')) = length ts"
    "sv_size (tokenize vs (CHR '','')) = length ts" "imgs = [] \<or> sv_size (tokenize imgs (CHR '','')) = length ts"
    "oldws = [] \<or> sv_size (tokenize oldws (CHR '','')) = length ts" "ws = [] \<or> sv_size (tokenize ws (CHR '','')) = length ts"
    using assms(2) by (auto simp: lists_carry_def intro: sizes)
  have "res_fold (combined_step (tokenize xs (CHR '','')) (tokenize ys (CHR '','')) (tokenize imgs (CHR '',''))
      (tokenize vs (CHR '','')) (tokenize oldws (CHR '','')) (tokenize ws (CHR '',''))) [0..<length ts]
      (header_of (hd ts)) = Ok (fold add_tile ts (header_of (hd ts)))"
  proof (rule res_fold_upt [where I = "\<lambda>c. \<forall>t \<in> set ts. in_header c t"])
    show "\<forall>t \<in> set ts. in_header (header_of (hd ts)) t" using uniform_in_header [OF assms(1)] by blast
  next
    fix i c assume "i < length ts" "\<forall>t \<in> set ts. in_header c t"
    then show "combined_step (tokenize xs (CHR '','')) (tokenize ys (CHR '','')) (tokenize imgs (CHR '',''))
      (tokenize vs (CHR '','')) (tokenize oldws (CHR '','')) (tokenize ws (CHR '','')) i c = Ok (add_tile (ts ! i) c) \<and>
      (\<forall>t \<in> set ts. in_header (add_tile (ts ! i) c) t)"
      using assms(1) combined_step_carries [OF assms(2)] by (simp add: uniform_tiles_def)
  qed
  then show ?thesis
    using valid sz
    by (auto simp: mk_tile_combined_def tile_valid_def Let_def combined_of_def header_of_def)
qed

text \<open>What \<open>create\<close> makes of tiles: the image sizes and ids are dropped.\<close>

definition drop_img :: "tile_desc \<Rightarrow> tile_desc" where
  "drop_img t = t\<lparr>td_imgSize := 0\<rparr>"

lemma drop_img_keeps:
  "tile_valid t \<Longrightarrow> tile_valid (drop_img t)" "tile_ranges t \<Longrightarrow> tile_ranges (drop_img t)"
  "same_tile_combine_params (drop_img t) (drop_img u) = same_tile_combine_params t u"
  by (simp_all add: drop_img_def tile_valid_def tile_ranges_def same_params_iff)

lemma uniform_drop_img: "uniform_tiles ts \<Longrightarrow> uniform_tiles (map drop_img ts)"
  by (auto simp: uniform_tiles_def hd_map drop_img_keeps simp del: list.sel)

lemma tc_create_uniform:
  assumes "uniform_tiles ts"
  shows "tc_create ts = Ok (combined_of (map drop_img ts))"
proof -
  obtain t0 rest where ts: "ts = t0 # rest" using assms by (cases ts) (auto simp: uniform_tiles_def)
  let ?us = "map drop_img ts"
  have carry: "lists_carry ?us (comma_each (map (\<lambda>t. show_int (td_tilePosX t)) ts))
      (comma_each (map (\<lambda>t. show_int (td_tilePosY t)) ts)) (comma_each (map (\<lambda>t. show_int (td_ver t)) ts)) []
      (comma_each (map (\<lambda>t. show_u32 (td_oldWireId t)) ts)) (comma_each (map (\<lambda>t. show_u32 (td_wireId t)) ts))"
    using carries_comma_each [OF list_words_show(1) [of td_tilePosX ts]]
      carries_comma_each [OF list_words_show(1) [of td_tilePosY ts]]
      carries_comma_each [OF list_words_show(1) [of td_ver ts]]
      carries_comma_each [OF list_words_show(2) [of td_oldWireId ts]]
      carries_comma_each [OF list_words_show(2) [of td_wireId ts]]
    unfolding lists_carry_def drop_img_def map_map comp_def
    by (simp add: carries_def [of "[]"] carries_def ts)
  have hd: "hd ?us = drop_img t0" by (simp add: ts)
  show ?thesis
    using mk_tile_combined_uniform [OF uniform_drop_img [OF assms] carry] unfolding hd
    by (simp add: tc_create_def ts drop_img_def)
qed

lemma tc_create_tiles:
  assumes "uniform_tiles ts" "tc_create ts = Ok c"
  shows "tc_tiles c = map (\<lambda>t. t\<lparr>td_imgSize := 0, td_id := -1\<rparr>) ts"
    "\<forall>t \<in> set (tc_tiles c). tile_is_contained t (tc_aabbox c)"
proof -
  have c: "c = combined_of (map drop_img ts)" using assms tc_create_uniform by simp
  then show tiles: "tc_tiles c = map (\<lambda>t. t\<lparr>td_imgSize := 0, td_id := -1\<rparr>) ts"
    by (simp add: combined_of_def fold_add_tile header_of_def tc_default_def drop_img_def comp_def)
  show "\<forall>t \<in> set (tc_tiles c). tile_is_contained t (tc_aabbox c)"
    unfolding tiles
    using foldl_extend_contains [of rect_empty "map to_aabbox (map drop_img ts)"]
    by (simp add: c combined_of_def fold_add_tile header_of_def tc_default_def tile_is_contained_def drop_img_def)
qed

section \<open>Round trip\<close>

text \<open>The words of a serialized header.\<close>

definition list_word :: "string \<Rightarrow> string list \<Rightarrow> string" where
  "list_word name vs = name @ CHR ''='' # comma_list vs"

definition combined_words :: "tile_combined \<Rightarrow> string list" where
  "combined_words c =
    [name_word ''nviewid'' (tc_canonicalViewId c), name_word ''part'' (tc_part c),
     name_word ''width'' (tc_width c), name_word ''height'' (tc_height c),
     list_word ''tileposx'' (map (\<lambda>t. show_int (td_tilePosX t)) (tc_tiles c)),
     list_word ''tileposy'' (map (\<lambda>t. show_int (td_tilePosY t)) (tc_tiles c))] @
    (if tc_hasImgSizes c then [list_word ''imgsize'' (map (\<lambda>t. show_int (td_imgSize t)) (tc_tiles c))] else []) @
    [name_word ''tilewidth'' (tc_tileWidth c), name_word ''tileheight'' (tc_tileHeight c),
     list_word ''ver'' (map (\<lambda>t. show_int (td_ver t)) (tc_tiles c))] @
    (if tc_hasOldWids c then [list_word ''oldwid'' (map (\<lambda>t. show_u32 (td_oldWireId t)) (tc_tiles c))] else []) @
    (if tc_hasWids c then [list_word ''wid'' (map (\<lambda>t. show_u32 (td_wireId t)) (tc_tiles c))] else []) @
    (if tc_mode c \<noteq> 0 then [name_word ''mode'' (tc_mode c)] else [])"

lemma tc_serialize_words:
  "tc_serialize c p s = p @ concat (map (\<lambda>w. CHR '' '' # w) (combined_words c)) @ s"
  by (simp add: tc_serialize_def combined_words_def name_word_def list_word_def)

lemma comma_list_no_space: "list_words ws \<Longrightarrow> \<forall>w \<in> set ws. CHR '' '' \<notin> set w \<Longrightarrow> CHR '' '' \<notin> set (comma_list ws)"
  by (auto simp: comma_list_def split: list.splits)

lemma list_word_clean:
  "list_words ws \<Longrightarrow> \<forall>w \<in> set ws. CHR '' '' \<notin> set w \<Longrightarrow> CHR '' '' \<notin> set name \<Longrightarrow> newline \<notin> set name \<Longrightarrow>
   CHR '' '' \<notin> set (list_word name ws) \<and> newline \<notin> set (list_word name ws) \<and> list_word name ws \<noteq> []"
  using comma_list_clean [of ws] comma_list_no_space [of ws] by (simp add: list_word_def)

lemma combined_words_clean: "\<forall>w \<in> set (combined_words c). CHR '' '' \<notin> set w \<and> newline \<notin> set w \<and> w \<noteq> []"
proof -
  have sh: "\<forall>w \<in> set (map (\<lambda>t. show_int (f t)) (tc_tiles c)). CHR '' '' \<notin> set w"
    "\<forall>w \<in> set (map (\<lambda>t. show_u32 (g t)) (tc_tiles c)). CHR '' '' \<notin> set w" for f g
    by (auto simp: show_u32_show_int)
  note i = list_word_clean [OF list_words_show(1) sh(1)]
    and u = list_word_clean [OF list_words_show(2) sh(2)]
  have n: "CHR '' '' \<notin> set name \<Longrightarrow> newline \<notin> set name \<Longrightarrow>
      CHR '' '' \<notin> set (name_word name v) \<and> newline \<notin> set (name_word name v) \<and> name_word name v \<noteq> []" for name v
    by (simp add: name_word_def)
  show ?thesis unfolding combined_words_def by (auto simp: i u n)
qed

text \<open>The table with its values.\<close>

definition combined_table :: "int \<Rightarrow> int \<Rightarrow> int \<Rightarrow> int \<Rightarrow> int \<Rightarrow> int \<Rightarrow> int \<Rightarrow> arg_table" where
  "combined_table h m v p th tw w =
    [(''height'', h), (''mode'', m), (''nviewid'', v), (''part'', p), (''tileheight'', th),
     (''tilewidth'', tw), (''width'', w)]"

lemma combined_table_sorted: "sorted_wrt (<) (map fst (combined_table h m v p th tw w))"
  by (simp add: combined_table_def less_char_def)

lemma set_arg_combined:
  "snd (set_arg (combined_table h m v p th tw w) ''height'' x) = combined_table x m v p th tw w"
  "snd (set_arg (combined_table h m v p th tw w) ''mode'' x) = combined_table h x v p th tw w"
  "snd (set_arg (combined_table h m v p th tw w) ''nviewid'' x) = combined_table h m x p th tw w"
  "snd (set_arg (combined_table h m v p th tw w) ''part'' x) = combined_table h m v x th tw w"
  "snd (set_arg (combined_table h m v p th tw w) ''tileheight'' x) = combined_table h m v p x tw w"
  "snd (set_arg (combined_table h m v p th tw w) ''tilewidth'' x) = combined_table h m v p th x w"
  "snd (set_arg (combined_table h m v p th tw w) ''width'' x) = combined_table h m v p th tw x"
  subgoal using set_arg_sorted [OF combined_table_sorted [of h m v p th tw w], of 0 x] by (simp add: combined_table_def)
  subgoal using set_arg_sorted [OF combined_table_sorted [of h m v p th tw w], of 1 x] by (simp add: combined_table_def)
  subgoal using set_arg_sorted [OF combined_table_sorted [of h m v p th tw w], of 2 x] by (simp add: combined_table_def)
  subgoal using set_arg_sorted [OF combined_table_sorted [of h m v p th tw w], of 3 x] by (simp add: combined_table_def)
  subgoal using set_arg_sorted [OF combined_table_sorted [of h m v p th tw w], of 4 x] by (simp add: combined_table_def)
  subgoal using set_arg_sorted [OF combined_table_sorted [of h m v p th tw w], of 5 x] by (simp add: combined_table_def)
  subgoal using set_arg_sorted [OF combined_table_sorted [of h m v p th tw w], of 6 x] by (simp add: combined_table_def)
  done

lemma combined_args_table: "combined_args = combined_table 0 0 0 0 0 0 0"
  by (simp add: combined_args_def combined_table_def)

lemma parse_name_word:
  "CHR ''='' \<notin> set name \<Longrightarrow> parse_name_value_pair (name_word name v) (CHR ''='') = Some (name, show_int v)"
  "CHR ''='' \<notin> set name \<Longrightarrow> parse_name_value_pair (list_word name vs) (CHR ''='') = Some (name, comma_list vs)"
  by (simp_all add: name_word_def list_word_def parse_name_value_pair_append)

lemma parse_combined_plain: "CHR ''='' \<notin> set t \<Longrightarrow> parse_combined_text t l = l"
  by (simp add: parse_combined_text_def parse_name_value_pair_def find_char_def)

lemma parse_combined_name:
  assumes "name \<in> {''height'', ''mode'', ''nviewid'', ''part'', ''tileheight'', ''tilewidth'', ''width''}"
    "INT_MIN \<le> v" "v \<le> INT_MAX"
  shows "parse_combined_text (name_word name v) l = l\<lparr>cl_pairs := snd (set_arg (cl_pairs l) name v)\<rparr>"
  using assms by (auto simp: parse_combined_text_def parse_name_word string_to_integer_show)

lemma parse_combined_list:
  "parse_combined_text (list_word ''tileposx'' vs) l = l\<lparr>cl_posX := comma_list vs\<rparr>"
  "parse_combined_text (list_word ''tileposy'' vs) l = l\<lparr>cl_posY := comma_list vs\<rparr>"
  "parse_combined_text (list_word ''imgsize'' vs) l = l\<lparr>cl_imgSizes := comma_list vs\<rparr>"
  "parse_combined_text (list_word ''ver'' vs) l = l\<lparr>cl_versions := comma_list vs\<rparr>"
  "parse_combined_text (list_word ''oldwid'' vs) l = l\<lparr>cl_oldWireIds := comma_list vs\<rparr>"
  "parse_combined_text (list_word ''wid'' vs) l = l\<lparr>cl_wireIds := comma_list vs\<rparr>"
  by (simp_all add: parse_combined_text_def parse_name_word)

text \<open>A header that agrees with its tiles: what the constructor makes.\<close>

definition shared_in_range :: "tile_combined \<Rightarrow> bool" where
  "shared_in_range c \<longleftrightarrow> tc_canonicalViewId c \<le> INT_MAX \<and> tc_part c \<le> INT_MAX \<and> tc_mode c \<le> INT_MAX \<and>
    tc_width c \<le> INT_MAX \<and> tc_height c \<le> INT_MAX \<and> tc_tileWidth c \<le> INT_MAX \<and> tc_tileHeight c \<le> INT_MAX"

lemma fold_combined_words:
  assumes "shared_in_range c" "0 \<le> tc_canonicalViewId c" "0 \<le> tc_part c" "0 \<le> tc_mode c"
    "0 < tc_width c" "0 < tc_height c" "0 < tc_tileWidth c" "0 < tc_tileHeight c"
  shows "fold parse_combined_text (combined_words c)
    \<lparr>cl_posX = [], cl_posY = [], cl_imgSizes = [], cl_versions = [], cl_oldWireIds = [], cl_wireIds = [],
      cl_pairs = combined_args\<rparr> =
    \<lparr>cl_posX = comma_list (map (\<lambda>t. show_int (td_tilePosX t)) (tc_tiles c)),
     cl_posY = comma_list (map (\<lambda>t. show_int (td_tilePosY t)) (tc_tiles c)),
     cl_imgSizes = (if tc_hasImgSizes c then comma_list (map (\<lambda>t. show_int (td_imgSize t)) (tc_tiles c)) else []),
     cl_versions = comma_list (map (\<lambda>t. show_int (td_ver t)) (tc_tiles c)),
     cl_oldWireIds = (if tc_hasOldWids c then comma_list (map (\<lambda>t. show_u32 (td_oldWireId t)) (tc_tiles c)) else []),
     cl_wireIds = (if tc_hasWids c then comma_list (map (\<lambda>t. show_u32 (td_wireId t)) (tc_tiles c)) else []),
     cl_pairs = combined_table (tc_height c) (tc_mode c) (tc_canonicalViewId c) (tc_part c) (tc_tileHeight c)
       (tc_tileWidth c) (tc_width c)\<rparr>"
  using assms
  by (simp add: combined_words_def parse_combined_name parse_combined_list set_arg_combined combined_args_table
      shared_in_range_def)

definition tc_wf :: "tile_combined \<Rightarrow> bool" where
  "tc_wf c \<longleftrightarrow> uniform_tiles (tc_tiles c) \<and> shared_in_range c \<and> c = combined_of (tc_tiles c)"

lemma combined_of_header:
  assumes "c = combined_of ts"
  shows "tc_canonicalViewId c = td_canonicalViewId (hd ts) \<and> tc_part c = td_part (hd ts) \<and>
    tc_mode c = td_mode (hd ts) \<and> tc_width c = td_width (hd ts) \<and> tc_height c = td_height (hd ts) \<and>
    tc_tileWidth c = td_tileWidth (hd ts) \<and> tc_tileHeight c = td_tileHeight (hd ts)"
proof -
  have "in_header (header_of (hd ts)) (hd ts)" unfolding in_header_of by (simp add: same_params_iff)
  then have "in_header c (hd ts)" by (simp only: assms combined_of_def in_header_fold_add)
  then show ?thesis by (simp only: in_header_def simp_thms)
qed

theorem parse_combined_serialize:
  assumes "tc_wf c" "plain_prefix p" "line_suffix s"
  shows "parse_combined (tc_serialize c p s) = Ok c"
proof -
  let ?v = "tokenize_data (tc_serialize c p s) (CHR '' '')" and ?ts = "tc_tiles c"
  have u: "uniform_tiles ?ts" and r: "shared_in_range c" and c: "c = combined_of ?ts" using assms(1) by (simp_all add: tc_wf_def)
  have ne: "?ts \<noteq> []" and "tile_valid (hd ?ts)" using u by (auto simp: uniform_tiles_def)
  then have h: "0 \<le> tc_canonicalViewId c" "0 \<le> tc_part c" "0 \<le> tc_mode c"
    "0 < tc_width c" "0 < tc_height c" "0 < tc_tileWidth c" "0 < tc_tileHeight c"
    using combined_of_header [OF c] by (auto simp: tile_valid_def)
  have "tc_serialize c p s ! 0 \<noteq> nul"
    unfolding tc_serialize_words by (rule message_no_nul) (simp_all add: assms(2) combined_words_def)
  then have "sv_texts ?v = split_tokens (CHR '' '') (tc_serialize c p s)"
    by (intro sv_texts_tokenize) simp
  also have "\<dots> = (if p = [] then [] else [p]) @ combined_words c"
    unfolding tc_serialize_words by (rule split_tokens_message [OF combined_words_clean assms(2,3)])
  finally have "sv_texts ?v = (if p = [] then [] else [p]) @ combined_words c" .
  then have "fold parse_combined_text (sv_texts ?v) st = fold parse_combined_text (combined_words c) st" for st
    using assms(2) by (simp add: parse_combined_plain plain_prefix_def)
  then have "parse_combined (tc_serialize c p s) = mk_tile_combined (tc_canonicalViewId c) (tc_part c) (tc_mode c)
      (tc_width c) (tc_height c) (comma_list (map (\<lambda>t. show_int (td_tilePosX t)) ?ts))
      (comma_list (map (\<lambda>t. show_int (td_tilePosY t)) ?ts)) (tc_tileWidth c) (tc_tileHeight c)
      (comma_list (map (\<lambda>t. show_int (td_ver t)) ?ts))
      (if tc_hasImgSizes c then comma_list (map (\<lambda>t. show_int (td_imgSize t)) ?ts) else [])
      (if tc_hasOldWids c then comma_list (map (\<lambda>t. show_u32 (td_oldWireId t)) ?ts) else [])
      (if tc_hasWids c then comma_list (map (\<lambda>t. show_u32 (td_wireId t)) ?ts) else [])"
    unfolding parse_combined_def parse_combined_tokens_def sv_texts_def [symmetric]
    by (simp add: fold_combined_words [OF r h] Let_def) (simp add: combined_table_def)
  moreover have "lists_carry ?ts (comma_list (map (\<lambda>t. show_int (td_tilePosX t)) ?ts))
      (comma_list (map (\<lambda>t. show_int (td_tilePosY t)) ?ts)) (comma_list (map (\<lambda>t. show_int (td_ver t)) ?ts))
      (if tc_hasImgSizes c then comma_list (map (\<lambda>t. show_int (td_imgSize t)) ?ts) else [])
      (if tc_hasOldWids c then comma_list (map (\<lambda>t. show_u32 (td_oldWireId t)) ?ts) else [])
      (if tc_hasWids c then comma_list (map (\<lambda>t. show_u32 (td_wireId t)) ?ts) else [])"
  proof -
    have has: "\<not> tc_hasImgSizes c \<Longrightarrow> \<forall>t \<in> set ?ts. td_imgSize t = 0" "\<not> tc_hasOldWids c \<Longrightarrow> \<forall>t \<in> set ?ts. td_oldWireId t = 0"
      "\<not> tc_hasWids c \<Longrightarrow> \<forall>t \<in> set ?ts. td_wireId t = 0"
      using fold_add_tile(3,4,5) [of ?ts "header_of (hd ?ts)"] c by (auto simp: combined_of_def)
    have cl: "carries (comma_list (map (\<lambda>t. show_int (f t)) ?ts)) (map (\<lambda>t. show_int (f t)) ?ts)"
      "carries (comma_list (map (\<lambda>t. show_u32 (g t)) ?ts)) (map (\<lambda>t. show_u32 (g t)) ?ts)" for f g
      by (simp_all add: carries_comma_list)
    have "comma_list (map (\<lambda>t. show_int (f t)) ?ts) \<noteq> []" "comma_list (map (\<lambda>t. show_u32 (g t)) ?ts) \<noteq> []" for f g
      using cl(1) [of f] cl(2) [of g] ne by (auto simp: carries_def)
    with has cl show ?thesis unfolding lists_carry_def by simp
  qed
  ultimately show ?thesis
    using mk_tile_combined_uniform [OF u] combined_of_header [OF c] c by metis
qed

text \<open>What \<open>create\<close> makes is such a header.\<close>

lemma add_tile_id [simp]: "add_tile (t\<lparr>td_id := i\<rparr>) c = add_tile t c"
  by (simp add: add_tile_def)

lemma combined_of_ids: "combined_of (map (td_id_update (\<lambda>_. -1)) ts) = combined_of ts"
proof -
  have "fold add_tile (map (td_id_update (\<lambda>_. -1)) ts) c = fold add_tile ts c" for c
    by (induction ts arbitrary: c) simp_all
  moreover have "header_of (hd (map (td_id_update (\<lambda>_. -1)) ts)) = header_of (hd ts)" if "ts \<noteq> []"
    using that by (simp add: hd_map header_of_def)
  ultimately show ?thesis by (cases "ts = []") (simp_all add: combined_of_def)
qed

lemma uniform_ids: "uniform_tiles ts \<Longrightarrow> uniform_tiles (map (td_id_update (\<lambda>_. -1)) ts)"
proof -
  have "tile_valid (t\<lparr>td_id := -1\<rparr>) = tile_valid t" "tile_ranges (t\<lparr>td_id := -1\<rparr>) = tile_ranges t"
    "same_tile_combine_params (t\<lparr>td_id := -1\<rparr>) (u\<lparr>td_id := -1\<rparr>) = same_tile_combine_params t u" for t u
    by (simp_all add: tile_valid_def tile_ranges_def same_params_iff)
  then show "uniform_tiles ts \<Longrightarrow> ?thesis" by (auto simp: uniform_tiles_def hd_map simp del: list.sel)
qed

lemma tc_create_wf:
  assumes "uniform_tiles ts" "shared_ranges (hd ts)" "tc_create ts = Ok c"
  shows "tc_wf c"
proof -
  have c: "c = combined_of (map drop_img ts)" using assms tc_create_uniform by simp
  then have t: "tc_tiles c = map (td_id_update (\<lambda>_. -1)) (map drop_img ts)"
    by (simp add: combined_of_def fold_add_tile header_of_def tc_default_def)
  have "hd (map drop_img ts) = drop_img (hd ts)" using assms(1) by (simp add: uniform_tiles_def hd_map)
  then have "shared_in_range c"
    using assms(2) combined_of_header [OF c]
    by (simp add: shared_in_range_def shared_ranges_def drop_img_def)
  moreover have "uniform_tiles (tc_tiles c)" unfolding t by (rule uniform_ids [OF uniform_drop_img [OF assms(1)]])
  moreover have "c = combined_of (tc_tiles c)" unfolding t combined_of_ids by (rule c)
  ultimately show ?thesis by (simp add: tc_wf_def)
qed

end
