(* ===== verification/WireTheorems.thy ===== *)
theory WireTheorems
  imports CombinedWire
begin

text \<open>
  What the messages between the processes guarantee: descriptors survive the wire, the
  tokenizers split at the delimiter, rectangles are sets of points, and text cut for the log
  keeps whole characters.
\<close>

text \<open>An ordinary tile, for examples\<close>

definition wire_tile :: "int \<Rightarrow> int \<Rightarrow> tile_desc" where
  "wire_tile x y = \<lparr>td_canonicalViewId = 1000, td_part = 2, td_mode = 0, td_width = 256, td_height = 256,
    td_tilePosX = x, td_tilePosY = y, td_tileWidth = 3840, td_tileHeight = 3840, td_ver = 12, td_imgSize = 0,
    td_id = -1, td_oldWireId = 3, td_wireId = 42\<rparr>"

lemmas wire_tile_simps = wire_tile_def tile_valid_def wire_ranges_def tile_ranges_def shared_ranges_def in_i32_def
  plain_prefix_def line_suffix_def uniform_tiles_def same_tile_combine_params_def

text \<open>C18: A tile descriptor survives the wire: parsing what \<open>serialize\<close> writes, with any command
  before it and any payload after the line end, gives back the descriptor, for fields below
  the limits of the number parser.\<close>

theorem tile_roundtrip:
  assumes "tile_valid t" "wire_ranges t" "plain_prefix p" "line_suffix s"
  shows "parse_tile (serialize t p s) = Ok t"
  by (rule parse_tile_serialize [OF assms])

theorem tile_roundtrip_witness:
  "parse_tile (serialize (wire_tile 3840 0) ''tile:'' (newline # ''Zdata'')) = Ok (wire_tile 3840 0)"
  by (rule tile_roundtrip) (simp_all add: wire_tile_simps)

text \<open>C19: A combined request made from tiles of equal parameters survives the wire: parsing what it
  serializes to gives back the same request, whose tiles are those it was made from (less image
  sizes and ids) and whose box contains them all.\<close>

theorem combined_roundtrip:
  assumes "uniform_tiles ts" "shared_ranges (hd ts)" "plain_prefix p" "line_suffix s"
  shows "\<exists>c. tc_create ts = Ok c \<and> parse_combined (tc_serialize c p s) = Ok c \<and>
    tc_tiles c = map (\<lambda>t. t\<lparr>td_imgSize := 0, td_id := -1\<rparr>) ts \<and>
    (\<forall>t \<in> set (tc_tiles c). tile_is_contained t (tc_aabbox c))"
proof -
  obtain c where c: "tc_create ts = Ok c" using tc_create_uniform [OF assms(1)] by blast
  then have "parse_combined (tc_serialize c p s) = Ok c"
    by (intro parse_combined_serialize [OF tc_create_wf [OF assms(1,2) c] assms(3,4)])
  with c tc_create_tiles [OF assms(1) c] show ?thesis by blast
qed

theorem combined_roundtrip_witness:
  "\<exists>c. tc_create [wire_tile 0 0, wire_tile 3840 0] = Ok c \<and> parse_combined (tc_serialize c ''tilecombine'' []) = Ok c"
proof -
  have "uniform_tiles [wire_tile 0 0, wire_tile 3840 0]" "shared_ranges (hd [wire_tile 0 0, wire_tile 3840 0])"
    "plain_prefix ''tilecombine''" "line_suffix []" by (simp_all add: wire_tile_simps)
  from combined_roundtrip [OF this] show ?thesis by blast
qed

text \<open>A wire id above \<open>INT_MAX\<close> does not survive in a single tile's message, which is read by a
  parser of \<open>int\<close> that saturates, although it does in a list of a combined request.\<close>

theorem wire_id_saturates:
  "sv_get_uint32 (tokenize ''wid=3000000000'' (CHR '' '')) 0 ''wid'' 0 = (True, 2147483647) \<and>
   string_to_uint32 ''3000000000'' = (3000000000, True)"
proof -
  have "sv_get_uint32 (tokenize ''wid=3000000000'' (CHR '' '')) 0 ''wid'' 0 = (True, 2147483647)" by code_simp
  moreover have "string_to_uint32 ''3000000000'' = (3000000000, True)" by code_simp
  ultimately show ?thesis by blast
qed

text \<open>C32: The tokenizer, which records offsets while it scans, gives the nonempty pieces of the first
  line between delimiters; the tokenizer with a callback calls it on the same pieces, in
  order, until it asks to stop.\<close>

theorem tokenizers_split:
  assumes "s = [] \<or> s ! 0 \<noteq> nul"
  shows "sv_texts (tokenize s d) = split_tokens d s \<and>
    tokenize_foreach func s d st = call_each func 0 (split_tokens d s) st"
  by (intro conjI sv_texts_tokenize(1) [OF assms] tokenize_foreach_calls [OF assms])

theorem tokenizers_split_witness:
  "sv_texts (tokenize ''a  bc'' (CHR '' '')) = [''a'', ''bc'']"
proof -
  have "split_tokens (CHR '' '') ''a  bc'' = [''a'', ''bc'']" by code_simp
  moreover have "''a  bc'' = [] \<or> ''a  bc'' ! 0 \<noteq> nul" by code_simp
  note tokenizers_split [OF this, of "CHR '' ''" "\<lambda>_ _ st. (True, st)" "()"]
  ultimately show ?thesis by simp
qed

text \<open>The operations on rectangles are those on sets of points: two intersect when they share a
  point, one contains another when its points do, and extending gives the least rectangle that
  contains both.\<close>

theorem rectangle_points:
  assumes "rect_valid b"
  shows "(rect_intersects a b \<longleftrightarrow> rect_points a \<inter> rect_points b \<noteq> {}) \<and>
    (rect_contains a b \<longleftrightarrow> rect_points b \<subseteq> rect_points a) \<and>
    (rect_contains c (rect_extend a b) \<longleftrightarrow> rect_contains c a \<and> rect_contains c b)"
  using rect_intersects_points rect_contains_points [OF assms] rect_extend_least rect_extend_contains rect_contains_trans
  by metis

theorem rectangle_points_witness:
  "rect_intersects (rect_create 0 0 10 10) (rect_create 10 10 20 20)"
proof -
  have "rect_valid (rect_create 10 10 20 20)" by code_simp
  moreover have "(10, 10) \<in> rect_points (rect_create 0 0 10 10) \<inter> rect_points (rect_create 10 10 20 20)"
    by (simp add: rect_points_def rect_create_def)
  ultimately show ?thesis using rectangle_points [of "rect_create 10 10 20 20" "rect_create 0 0 10 10"] by blast
qed

text \<open>Cutting a text for the log keeps whole UTF-8 sequences: the cut is a prefix at least as
  long as asked, longer only by continuation units, and not followed by one.\<close>

theorem truncation_whole_characters:
  assumes "n \<le> length m"
  shows "\<exists>k. n \<le> k \<and> k \<le> length m \<and> truncate_utf8 m n = take k m \<and>
    (k < length m \<longrightarrow> \<not> is_continuation (m ! k)) \<and> (\<forall>i. n \<le> i \<and> i < k \<longrightarrow> is_continuation (m ! i))"
  by (rule truncate_utf8_prefix [OF assms])

theorem truncation_whole_characters_witness:
  "\<exists>k. 1 \<le> k \<and> truncate_utf8 ''abc'' 1 = take k ''abc''"
proof -
  have "1 \<le> length ''abc''" by simp
  from truncation_whole_characters [OF this] show ?thesis by blast
qed

text \<open>The search for a named value in a message ends, for every name that is not empty.\<close>

theorem token_search_ends:
  assumes "name \<noteq> []"
  shows "\<exists>r. get_token_string_from_message message name val = Some r"
  using token_string_loop_stops [OF assms] by (auto simp: get_token_string_from_message_def)

theorem token_search_ends_witness: "\<exists>r. get_token_string_from_message ''key id=3'' ''id'' [] = Some r"
proof -
  have "''id'' \<noteq> []" by simp
  from token_search_ends [OF this] show ?thesis .
qed

end
