(* ===== verification/KitQueues.thy ===== *)
theory KitQueues
  imports CombinedWire
begin

text \<open>
  \<open>KitQueue\<close> of src/kit/KitQueue.cpp: the kit's queue of client messages, the tile requests
  (one ordered queue for each canonical view) and the callbacks of the engine that wait to be
  sent. Also the priorities that src/kit/Kit.cpp and src/kit/ChildSession.cpp give to tiles.

  The queue knows the prioritizer only through its two virtual methods, so \<open>prio\<close> and
  \<open>views\<close> are arguments of \<open>pop_tile_queue\<close>. The JSON parser behind \<open>extractViewId\<close> is
  not part of the repository: it is the argument \<open>json_view\<close> of the callback operations.
  An operation that throws leaves the queue as it was.
\<close>

section \<open>Priorities\<close>

text \<open>\<open>enum class Priority : std::int8_t\<close>, ordered by its values\<close>

datatype priority = PrioNone | Lowest | Low | Normal | High | VeryHigh | UltraHigh

primrec prio_value :: "priority \<Rightarrow> int" where
  "prio_value PrioNone = -1"
| "prio_value Lowest = 0"
| "prio_value Low = 1"
| "prio_value Normal = 2"
| "prio_value High = 3"
| "prio_value VeryHigh = 4"
| "prio_value UltraHigh = 5"

lemma prio_value_inject: "prio_value p = prio_value q \<longleftrightarrow> p = q"
  by (cases p; cases q) simp_all

instantiation priority :: linorder
begin

definition less_eq_priority :: "priority \<Rightarrow> priority \<Rightarrow> bool" where
  "less_eq_priority p q \<longleftrightarrow> prio_value p \<le> prio_value q"

definition less_priority :: "priority \<Rightarrow> priority \<Rightarrow> bool" where
  "less_priority p q \<longleftrightarrow> prio_value p < prio_value q"

instance
  by standard (auto simp: less_eq_priority_def less_priority_def prio_value_inject [symmetric])

end

text \<open>\<open>TilePrioritizer\<close>'s defaults\<close>

definition default_prio :: "tile_desc \<Rightarrow> priority" where
  "default_prio t = Normal"

definition default_views :: "int list" where
  "default_views = []"

text \<open>What \<open>ChildSession::getTilePriority\<close> reads of a session.\<close>

record child_session =
  cs_canonicalViewId :: int
  cs_currentPart :: int
  cs_cursorPosition :: rectangle
  cs_clientVisibleArea :: rectangle
  cs_inactivityMS :: int

definition session_tile_priority :: "child_session \<Rightarrow> tile_desc \<Rightarrow> priority" where
  "session_tile_priority s t =
    (if is_preview t then Lowest
     else if td_part t \<noteq> cs_currentPart s then Low
     else if rect_intersects (to_aabbox t) (cs_cursorPosition s) then UltraHigh
     else if rect_intersects (to_aabbox t) (cs_clientVisibleArea s) then VeryHigh
     else
       let r = to_aabbox t;
           enlarged = rect_create (s32 (rx1 r - rect_width r)) (s32 (ry1 r - rect_height r))
             (s32 (rx2 r + rect_width r)) (s32 (ry2 r + rect_height r))
       in if rect_intersects enlarged (cs_clientVisibleArea s) then High else Normal)"

text \<open>\<open>Document::getTilePriority\<close>: the highest over the sessions of the tile's view\<close>

definition document_tile_priority :: "child_session list \<Rightarrow> tile_desc \<Rightarrow> priority" where
  "document_tile_priority sessions t =
    fold (\<lambda>s p. if cs_canonicalViewId s \<noteq> td_canonicalViewId t then p
                else max p (session_tile_priority s t))
      sessions PrioNone"

text \<open>
  \<open>Document::getViewIdsByInactivity\<close>: the least inactivity of each view, in order of it.
  Views of equal inactivity come in the order of the sessions here; \<open>std::sort\<close> leaves it open.
\<close>

fun note_view :: "int \<Rightarrow> int \<Rightarrow> (int \<times> int) list \<Rightarrow> (int \<times> int) list" where
  "note_view v ms [] = [(v, ms)]"
| "note_view v ms ((v', ms') # es) =
    (if v' = v then (v', if ms < ms' then ms else ms') # es else (v', ms') # note_view v ms es)"

definition view_ids_by_inactivity :: "child_session list \<Rightarrow> int list" where
  "view_ids_by_inactivity sessions =
    map fst (sort_key snd (fold (\<lambda>s. note_view (cs_canonicalViewId s) (cs_inactivityMS s)) sessions []))"

section \<open>State\<close>

text \<open>
  The callback types the queue treats specially, and any other (their numbers come from the
  LibreOfficeKit headers, which are not in the repository).
\<close>

datatype callback_type =
    InvalidateTiles | StateChanged | InvalidateVisibleCursor | CursorVisible
  | StatusIndicatorSetValue | DocumentSizeChanged | CellCursor | InvalidateViewCursor
  | CellViewCursor | ViewCursorVisible | OtherCallback int

record callback =
  cb_view :: int
  cb_type :: callback_type
  cb_payload :: string

record kit_queue =
  kq_queue :: "string list"
  kq_tileQueues :: "(int \<times> tile_desc list) list"
  kq_callbacks :: "callback list"

definition kq_empty :: kit_queue where
  "kq_empty = \<lparr>kq_queue = [], kq_tileQueues = [], kq_callbacks = []\<rparr>"

section \<open>Tile requests\<close>

text \<open>\<open>sortedInsert\<close>: a request for the same tile replaces the earlier one.\<close>

definition sorted_insert :: "tile_desc list \<Rightarrow> tile_desc \<Rightarrow> tile_desc list" where
  "sorted_insert q t =
    (let i = lower_bound (\<lambda>e. tile_less e t) q
     in if i \<noteq> length q \<and> tile_eq t (q ! i) then q[i := t] else insert_at i t q)"

text \<open>\<open>ensureTileQueue\<close>, and writing back the queue it refers to\<close>

fun ensure_tile_queue :: "int \<Rightarrow> (int \<times> tile_desc list) list \<Rightarrow> tile_desc list" where
  "ensure_tile_queue v [] = []"
| "ensure_tile_queue v ((v', q) # qs) = (if v' = v then q else ensure_tile_queue v qs)"

fun update_tile_queue ::
    "int \<Rightarrow> (tile_desc list \<Rightarrow> tile_desc list) \<Rightarrow> (int \<times> tile_desc list) list \<Rightarrow> (int \<times> tile_desc list) list" where
  "update_tile_queue v f [] = [(v, f [])]"
| "update_tile_queue v f ((v', q) # qs) =
    (if v' = v then (v', f q) # qs else (v', q) # update_tile_queue v f qs)"

definition push_tile_queue :: "string \<Rightarrow> kit_queue \<Rightarrow> kit_queue res" where
  "push_tile_queue msg k =
    res_bind (parse_tile msg) (\<lambda>desc.
      Ok (k\<lparr>kq_tileQueues := update_tile_queue (td_canonicalViewId desc) (\<lambda>q. sorted_insert q desc)
              (kq_tileQueues k)\<rparr>))"

definition push_tile_combine_request :: "string \<Rightarrow> kit_queue \<Rightarrow> kit_queue res" where
  "push_tile_combine_request msg k =
    (if get_first_token msg (CHR '' '') \<noteq> ''tilecombine'' then Err AssertionFailed
     else res_bind (parse_combined msg) (\<lambda>c.
       Ok (k\<lparr>kq_tileQueues := update_tile_queue (tc_canonicalViewId c) (\<lambda>q. foldl sorted_insert q (tc_tiles c))
               (kq_tileQueues k)\<rparr>)))"

definition get_tile_queue_size :: "kit_queue \<Rightarrow> nat" where
  "get_tile_queue_size k = foldl (\<lambda>n q. n + length (snd q)) 0 (kq_tileQueues k)"

definition is_tile_queue_empty :: "kit_queue \<Rightarrow> bool" where
  "is_tile_queue_empty k \<longleftrightarrow> list_all (\<lambda>q. snd q = []) (kq_tileQueues k)"

definition clear_tile_queue :: "kit_queue \<Rightarrow> kit_queue" where
  "clear_tile_queue k = k\<lparr>kq_tileQueues := []\<rparr>"

subsection \<open>Combining\<close>

definition allow_combine :: "tile_desc \<Rightarrow> tile_desc \<Rightarrow> bool" where
  "allow_combine a b = (if is_preview a \<or> is_preview b then False else same_tile_combine_params a b)"

definition allow_combine_if_row :: "tile_desc \<Rightarrow> int \<Rightarrow> tile_desc \<Rightarrow> bool" where
  "allow_combine_if_row prioTile tilePosY candidate \<longleftrightarrow>
    tilePosY = td_tilePosY candidate \<and> allow_combine prioTile candidate"

definition max_combined_grid_span :: int where
  "max_combined_grid_span = 16"

definition grid_x :: "tile_desc \<Rightarrow> int \<Rightarrow> int" where
  "grid_x t tileWidth = cdiv (td_tilePosX t) tileWidth"

text \<open>
  The loop of \<open>combineHoriAround\<close>: the indices and grid positions left and right, and the
  tiles collected. The side nearer to the tile with priority is taken, the right one on a tie,
  and the first that would make the span too wide ends the loop.
\<close>

record hori =
  h_leftTile :: int
  h_rightTile :: int
  h_leftGridX :: int
  h_rightGridX :: int
  h_dest :: "tile_desc list"

definition can_left :: "tile_desc list \<Rightarrow> tile_desc \<Rightarrow> hori \<Rightarrow> bool" where
  "can_left q p h \<longleftrightarrow> h_leftTile h > -1 \<and> allow_combine_if_row p (td_tilePosY p) (q ! nat (h_leftTile h))"

definition can_right :: "tile_desc list \<Rightarrow> tile_desc \<Rightarrow> hori \<Rightarrow> bool" where
  "can_right q p h \<longleftrightarrow>
    h_rightTile h < int (length q) \<and> allow_combine_if_row p (td_tilePosY p) (q ! nat (h_rightTile h))"

function combine_hori_loop :: "tile_desc list \<Rightarrow> tile_desc \<Rightarrow> hori \<Rightarrow> hori res" where
  "combine_hori_loop q p h =
    (if \<not> can_left q p h \<and> \<not> can_right q p h then Ok h
     else
       let prioGrid = grid_x p (td_tileWidth p);
           propL = (if can_left q p h then grid_x (q ! nat (h_leftTile h)) (td_tileWidth p) else h_leftGridX h);
           distL = (if can_left q p h then s32 (prioGrid - propL) else INT_MAX);
           propR = (if can_right q p h then grid_x (q ! nat (h_rightTile h)) (td_tileWidth p) else h_rightGridX h);
           distR = (if can_right q p h then s32 (propR - prioGrid) else INT_MAX)
       in if distL < distR then
            (if s32 (h_rightGridX h - propL) \<ge> max_combined_grid_span then Ok h
             else if h_leftTile h < 0 then Err OutOfBounds
             else combine_hori_loop q p
               (h\<lparr>h_leftGridX := propL, h_leftTile := h_leftTile h - 1,
                  h_dest := sorted_insert (h_dest h) (q ! nat (h_leftTile h))\<rparr>))
          else
            (if s32 (propR - h_leftGridX h) \<ge> max_combined_grid_span then Ok h
             else if h_rightTile h \<ge> int (length q) then Err OutOfBounds
             else combine_hori_loop q p
               (h\<lparr>h_rightGridX := propR, h_rightTile := h_rightTile h + 1,
                  h_dest := sorted_insert (h_dest h) (q ! nat (h_rightTile h))\<rparr>)))"
  by pat_completeness auto
termination
  by (relation "measure (\<lambda>(q, p, h). nat (h_leftTile h + 1) + nat (int (length q) - h_rightTile h))") auto

declare combine_hori_loop.simps [simp del]

text \<open>The queue left, the tiles, and the range of columns\<close>

definition combine_hori_around ::
    "tile_desc list \<Rightarrow> tile_desc list \<Rightarrow> nat \<Rightarrow> (tile_desc list \<times> tile_desc list \<times> int \<times> int) res" where
  "combine_hori_around q dest tilePos =
    (let p = q ! tilePos; g = grid_x p (td_tileWidth p)
     in res_bind (combine_hori_loop q p
            \<lparr>h_leftTile = int tilePos - 1, h_rightTile = int tilePos + 1, h_leftGridX = g, h_rightGridX = g,
             h_dest = dest\<rparr>)
          (\<lambda>h. Ok (erase_range (nat (h_leftTile h + 1)) (nat (h_rightTile h)) q, h_dest h,
                   h_leftGridX h, h_rightGridX h)))"

text \<open>
  \<open>combineVerticalTiles\<close>: from the first tile not before the stand-in at the left end of the
  row, while the row lasts.
\<close>

function combine_vert_loop ::
    "tile_desc \<Rightarrow> int \<Rightarrow> int \<Rightarrow> int \<Rightarrow> nat \<Rightarrow> tile_desc list \<Rightarrow> tile_desc list \<Rightarrow> tile_desc list \<times> tile_desc list" where
  "combine_vert_loop p posY leftGridX rightGridX i q dest =
    (if i < length q then
       let t = q ! i in
       if \<not> allow_combine_if_row p posY t then (q, dest)
       else let gridX = grid_x t (td_tileWidth t) in
         if gridX \<ge> leftGridX \<and> gridX \<le> rightGridX
         then combine_vert_loop p posY leftGridX rightGridX i (erase_at i q) (sorted_insert dest t)
         else combine_vert_loop p posY leftGridX rightGridX (Suc i) q dest
     else (q, dest))"
  by pat_completeness auto
termination
  by (relation "measure (\<lambda>(p, y, l, r, i, q, d). length q - i)") auto

declare combine_vert_loop.simps [simp del]

definition combine_vertical_tiles ::
    "tile_desc list \<Rightarrow> tile_desc list \<Rightarrow> tile_desc \<Rightarrow> int \<Rightarrow> int \<Rightarrow> int \<Rightarrow> tile_desc list \<times> tile_desc list" where
  "combine_vertical_tiles q dest p leftGridX rightGridX dir =
    (let posX = s32 (leftGridX * td_tileWidth p);
         posY = s32 (td_tilePosY p + td_tileHeight p * dir)
     in combine_vert_loop p posY leftGridX rightGridX
          (lower_bound (\<lambda>e. compare_as_at_tile_pos e p posX posY) q) q dest)"

subsection \<open>Popping\<close>

text \<open>The first tile of the highest priority\<close>

definition prioritized_tile :: "(tile_desc \<Rightarrow> priority) \<Rightarrow> tile_desc list \<Rightarrow> priority \<times> nat" where
  "prioritized_tile prio q =
    fold (\<lambda>i (pr, k). if prio (q ! i) > pr then (prio (q ! i), i) else (pr, k)) [1..<length q]
      (prio (q ! 0), 0)"

text \<open>The columns to look for more tiles. The right one is not wrapped: beyond the range of \<open>int\<close> the addition of the source overflows, which
  C++ leaves undefined.\<close>

definition widen_range :: "int \<Rightarrow> int \<Rightarrow> int \<times> int" where
  "widen_range leftGridX rightGridX =
    (let gridSpan = rightGridX - leftGridX
     in if gridSpan < max_combined_grid_span then
          let availSpans = max_combined_grid_span - gridSpan;
              leftExpand = min leftGridX (cdiv availSpans 2);
              rightExpand = availSpans - leftExpand
          in (leftGridX - leftExpand, rightGridX + rightExpand)
        else (leftGridX, rightGridX))"

text \<open>The tiles one pop takes, and the queue it leaves.\<close>

definition collect_tiles :: "tile_desc list \<Rightarrow> nat \<Rightarrow> (tile_desc list \<times> tile_desc list) res" where
  "collect_tiles q k =
    (let msg = q ! k
     in if is_preview msg then Ok ([msg], erase_at k q)
        else res_bind (combine_hori_around q [msg] k)
          (\<lambda>(q1, tiles1, lg, rg).
             case widen_range lg rg of (lg', rg') \<Rightarrow>
             case combine_vertical_tiles q1 tiles1 msg lg' rg' (-1) of (q2, tiles2) \<Rightarrow>
             case combine_vertical_tiles q2 tiles2 msg lg' rg' 1 of (q3, tiles3) \<Rightarrow>
             Ok (tiles3, q3)))"

definition pop_from_queue ::
    "(tile_desc \<Rightarrow> priority) \<Rightarrow> tile_desc list \<Rightarrow> (tile_combined \<times> priority \<times> tile_desc list) res" where
  "pop_from_queue prio q =
    (if q = [] then Err AssertionFailed
     else case prioritized_tile prio q of (pr, k) \<Rightarrow>
       res_bind (collect_tiles q k) (\<lambda>(tiles, rest).
         if length tiles = 1 then Ok (tc_of_tile (hd tiles), pr, rest)
         else res_bind (tc_create tiles) (\<lambda>c.
           if has_duplicates c then Err AssertionFailed else Ok (c, pr, rest))))"

text \<open>\<open>std::find_if\<close> over the queues: the first of a view with tiles; failing all views, the
  first with tiles\<close>

fun choose_tile_queue :: "int list \<Rightarrow> (int \<times> tile_desc list) list \<Rightarrow> nat option" where
  "choose_tile_queue [] qs = find_index (\<lambda>q. snd q \<noteq> []) qs"
| "choose_tile_queue (v # vs) qs =
    (case find_index (\<lambda>q. v = fst q \<and> snd q \<noteq> []) qs of
       Some i \<Rightarrow> Some i
     | None \<Rightarrow> choose_tile_queue vs qs)"

definition pop_tile_queue ::
    "(tile_desc \<Rightarrow> priority) \<Rightarrow> int list \<Rightarrow> kit_queue \<Rightarrow> (tile_combined \<times> priority \<times> kit_queue) res" where
  "pop_tile_queue prio views k =
    (if is_tile_queue_empty k then Err AssertionFailed
     else case choose_tile_queue views (kq_tileQueues k) of
       None \<Rightarrow> Err AssertionFailed
     | Some i \<Rightarrow>
         res_bind (pop_from_queue prio (snd (kq_tileQueues k ! i))) (\<lambda>(c, pr, rest).
           Ok (c, pr, k\<lparr>kq_tileQueues := (kq_tileQueues k)[i := (fst (kq_tileQueues k ! i), rest)]\<rparr>)))"

text \<open>
  The rendering loop of \<open>Document::drainQueue\<close>: tiles are popped and rendered while there are
  any and the last popped were at least of very high priority. The result is the sequence of
  renders; that the loop ends is a theorem, so the loop is a partial function.
\<close>

partial_function (option) drain_tiles ::
    "(tile_desc \<Rightarrow> priority) \<Rightarrow> int list \<Rightarrow> priority \<Rightarrow> kit_queue \<Rightarrow> (tile_combined list \<times> kit_queue) res option" where
  "drain_tiles prio views pr k =
    (if \<not> is_tile_queue_empty k \<and> pr \<ge> VeryHigh then
       (case pop_tile_queue prio views k of
          Inl e \<Rightarrow> Some (Inl e)
        | Inr (c, pr', k') \<Rightarrow>
            Option.bind (drain_tiles prio views pr' k') (\<lambda>r. Some (res_bind r (\<lambda>(cs, k''). Ok (c # cs, k'')))))
     else Some (Ok ([], k)))"

definition drain_queue_tiles ::
    "bool \<Rightarrow> (tile_desc \<Rightarrow> priority) \<Rightarrow> int list \<Rightarrow> kit_queue \<Rightarrow> (tile_combined list \<times> kit_queue) res option" where
  "drain_queue_tiles canRenderTiles prio views k =
    (if canRenderTiles then drain_tiles prio views VeryHigh k else Some (Ok ([], k)))"

end
