(* ===== verification/TileQueues.thy ===== *)
theory TileQueues
  imports KitQueues "HOL-Library.Multiset"
begin

text \<open>
  The ordered tile queue. What \<open>sortedInsert\<close> promises is the interface \<open>keyed_insert\<close>: the
  queue stays strictly ordered by key, and the new element takes the place of the one with its
  key. The clients' lemmas are proved from that alone and used for the queue of a view and for
  the tiles a pop collects.
\<close>

section \<open>Ordered insertion by key\<close>

locale keyed_insert =
  fixes ins :: "'a list \<Rightarrow> 'a \<Rightarrow> 'a list" and key :: "'a \<Rightarrow> 'k::linorder"
  assumes ins_sorted: "sorted_wrt (<) (map key q) \<Longrightarrow> sorted_wrt (<) (map key (ins q x))"
    and ins_set: "sorted_wrt (<) (map key q) \<Longrightarrow> set (ins q x) = insert x {y \<in> set q. key y \<noteq> key x}"
begin

lemma sorted_key_inj: "sorted_wrt (<) (map key q) \<Longrightarrow> x \<in> set q \<Longrightarrow> y \<in> set q \<Longrightarrow> key x = key y \<Longrightarrow> x = y"
  by (simp only: strict_sorted_iff distinct_map) (auto dest: inj_onD)

lemma sorted_distinct: "sorted_wrt (<) (map key q) \<Longrightarrow> distinct q"
  by (simp only: strict_sorted_iff distinct_map)

lemma sorted_unique:
  assumes "sorted_wrt (<) (map key p)" "sorted_wrt (<) (map key q)" "set p = set q"
  shows "p = q"
proof -
  have "map key p = map key q"
    using assms by (intro strict_sorted_equal) (auto simp: strict_sorted_iff)
  moreover have "inj_on key (set p \<union> set q)"
    using sorted_key_inj [OF assms(1)] assms(3) by (auto intro!: inj_onI)
  ultimately show ?thesis by (rule map_inj_on)
qed

lemma ins_mem: "sorted_wrt (<) (map key q) \<Longrightarrow> x \<in> set (ins q x)"
  by (simp add: ins_set)

lemma ins_again:
  assumes "sorted_wrt (<) (map key q)" "key x = key y"
  shows "ins (ins q x) y = ins q y"
  by (rule sorted_unique) (use assms in \<open>auto simp: ins_sorted ins_set\<close>)

lemma ins_commute:
  assumes "sorted_wrt (<) (map key q)" "key x \<noteq> key y"
  shows "ins (ins q x) y = ins (ins q y) x"
  by (rule sorted_unique) (use assms in \<open>auto simp: ins_sorted ins_set\<close>)

lemma ins_fresh_mset:
  assumes "sorted_wrt (<) (map key q)" "key x \<notin> key ` set q"
  shows "mset (ins q x) = add_mset x (mset q)"
proof -
  have "{y \<in> set q. key y \<noteq> key x} = set q" using assms(2) by (auto simp: image_iff)
  then have "set (ins q x) = set (x # q)" using ins_set [OF assms(1), of x] by simp
  moreover have "distinct (ins q x)" "distinct (x # q)"
    using assms sorted_distinct ins_sorted by auto
  ultimately have "mset (ins q x) = mset (x # q)" by (simp only: set_eq_iff_mset_eq_distinct)
  then show ?thesis by simp
qed

lemma foldl_ins_sorted:
  "sorted_wrt (<) (map key q) \<Longrightarrow> sorted_wrt (<) (map key (foldl ins q xs))"
  by (induction xs arbitrary: q) (simp_all add: ins_sorted)

lemma foldl_ins_set:
  "sorted_wrt (<) (map key q) \<Longrightarrow>
   set (foldl ins q xs) = {y \<in> set q. key y \<notin> key ` set xs} \<union> set (foldl ins [] xs)"
proof (induction xs arbitrary: q rule: rev_induct)
  case (snoc x xs)
  have "set (foldl ins q xs) = {y \<in> set q. key y \<notin> key ` set xs} \<union> set (foldl ins [] xs)"
    by (rule snoc.IH [OF snoc.prems])
  moreover have "set (foldl ins q (xs @ [x])) = insert x {y \<in> set (foldl ins q xs). key y \<noteq> key x}"
    "set (foldl ins [] (xs @ [x])) = insert x {y \<in> set (foldl ins [] xs). key y \<noteq> key x}"
    using snoc.prems by (simp_all add: ins_set foldl_ins_sorted)
  ultimately show ?case by auto
qed simp

lemma foldl_ins_latest:
  assumes "sorted_wrt (<) (map key q)" "key y \<notin> key ` set zs"
  shows "y \<in> set (foldl ins q (xs @ y # zs))"
  using assms foldl_ins_set [of "ins (foldl ins q xs) y" zs]
  by (simp add: foldl_ins_sorted ins_sorted ins_set)

lemma foldl_ins_members: "sorted_wrt (<) (map key q) \<Longrightarrow> set (foldl ins q xs) \<subseteq> set q \<union> set xs"
proof (induction xs arbitrary: q)
  case (Cons x xs)
  then have "set (foldl ins (ins q x) xs) \<subseteq> set (ins q x) \<union> set xs" by (simp add: ins_sorted)
  then show ?case using ins_set [OF Cons.prems, of x] by auto
qed simp

lemma foldl_ins_keys: "sorted_wrt (<) (map key q) \<Longrightarrow> key ` set (foldl ins q xs) = key ` set q \<union> key ` set xs"
proof (induction xs arbitrary: q)
  case (Cons x xs)
  then show ?case using ins_set [OF Cons.prems, of x] by (auto simp: ins_sorted)
qed simp

lemma foldl_ins_fresh_mset:
  assumes "sorted_wrt (<) (map key q)" "distinct (map key xs)" "key ` set xs \<inter> key ` set q = {}"
  shows "mset (foldl ins q xs) = mset q + mset xs"
  using assms
proof (induction xs arbitrary: q)
  case (Cons x xs)
  have k: "key ` set (ins q x) = insert (key x) (key ` set q)"
    using foldl_ins_keys [OF Cons.prems(1), of "[x]"] by simp
  have "mset (foldl ins (ins q x) xs) = mset (ins q x) + mset xs"
    using Cons.prems k by (intro Cons.IH) (auto simp: ins_sorted)
  then show ?case using Cons.prems by (simp add: ins_fresh_mset)
qed simp

end

section \<open>The tile queue provides it\<close>

abbreviation keys_sorted :: "tile_desc list \<Rightarrow> bool" where
  "keys_sorted q \<equiv> sorted_wrt (<) (map tile_key q)"

lemma sorted_insert_at:
  assumes "q = a @ b" "lower_bound (\<lambda>e. tile_less e t) q = length a"
  shows "sorted_insert q t = a @ t # (case b of [] \<Rightarrow> [] | y # ys \<Rightarrow> if tile_eq t y then ys else y # ys)"
  using assms by (cases b) (simp_all add: sorted_insert_def insert_at_def nth_append)

lemma dropWhile_le_less:
  fixes f :: "'a \<Rightarrow> 'b::linorder"
  assumes "sorted_wrt (<) (map f q)"
  shows "dropWhile (\<lambda>e. f e \<le> k) q =
    (case dropWhile (\<lambda>e. f e < k) q of [] \<Rightarrow> [] | y # ys \<Rightarrow> if k = f y then ys else y # ys)"
  using assms
proof (induction q)
  case (Cons e q)
  show ?case
  proof (cases "f e < k")
    case True
    then show ?thesis using Cons by (simp add: less_imp_le)
  next
    case False
    moreover have "dropWhile (\<lambda>e. f e \<le> k) q = q" if "k = f e"
      using Cons.prems that by (cases q) auto
    ultimately show ?thesis by auto
  qed
qed simp

lemma sorted_insert_split:
  assumes "keys_sorted q"
  shows "sorted_insert q t =
    takeWhile (\<lambda>e. tile_key e < tile_key t) q @ t #
      dropWhile (\<lambda>e. tile_key e \<le> tile_key t) q"
  using lower_bound_eq [OF partitioned_below [OF assms]]
  by (simp only: dropWhile_le_less [OF assms] tile_less_key tile_eq_key
      sorted_insert_at [OF takeWhile_dropWhile_id [symmetric]])

text \<open>What lies before and after a key in a sorted list.\<close>

lemma sorted_below:
  fixes f :: "'a \<Rightarrow> 'b::linorder"
  assumes "sorted_wrt (<) (map f q)"
  shows "takeWhile (\<lambda>e. f e < k) q = filter (\<lambda>e. f e < k) q"
    and "dropWhile (\<lambda>e. f e \<le> k) q = filter (\<lambda>e. k < f e) q"
    and "dropWhile (\<lambda>e. f e < k) q = filter (\<lambda>e. k \<le> f e) q"
proof -
  show "dropWhile (\<lambda>e. f e < k) q = filter (\<lambda>e. k \<le> f e) q"
    using assms
  proof (induction q)
    case (Cons e q)
    have "filter (\<lambda>e. k \<le> f e) q = q" if "\<not> f e < k"
      using Cons.prems that by (auto intro!: filter_True)
    with Cons show ?case by (cases "f e < k") (simp_all add: not_le not_less)
  qed simp
  show "takeWhile (\<lambda>e. f e < k) q = filter (\<lambda>e. f e < k) q"
    using assms
  proof (induction q)
    case (Cons e q)
    have "filter (\<lambda>e. f e < k) q = []" if "\<not> f e < k"
      using Cons.prems that by (auto simp: filter_empty_conv)
    with Cons show ?case by simp
  qed simp
  show "dropWhile (\<lambda>e. f e \<le> k) q = filter (\<lambda>e. k < f e) q"
    using assms
  proof (induction q)
    case (Cons e q)
    have "filter (\<lambda>e. k < f e) q = q" if "\<not> f e \<le> k"
      using Cons.prems that by (auto intro!: filter_True)
    with Cons show ?case by (cases "f e \<le> k") (simp_all add: not_le not_less)
  qed simp
qed

lemma sorted_insert_filter:
  "keys_sorted q \<Longrightarrow> sorted_insert q t =
    filter (\<lambda>e. tile_key e < tile_key t) q @ t # filter (\<lambda>e. tile_key t < tile_key e) q"
  by (simp only: sorted_insert_split sorted_below(1,2))

interpretation tiles: keyed_insert sorted_insert tile_key
proof
  fix q x assume s: "keys_sorted q"
  have f: "keys_sorted (filter P q)" for P using s by (simp add: sorted_wrt_map sorted_wrt_filter_imp)
  show "keys_sorted (sorted_insert q x)"
    using f by (auto simp: sorted_insert_filter [OF s] sorted_wrt_append)
  show "set (sorted_insert q x) = insert x {y \<in> set q. tile_key y \<noteq> tile_key x}"
    by (auto simp: sorted_insert_filter [OF s] neq_iff)
qed

end
