(* ===== verification/TilePops.thy ===== *)
theory TilePops
  imports TileQueues
begin

text \<open>
  What a pop takes from an ordered tile queue. The vertical loop takes exactly the tiles of the
  neighbouring row within the range of columns; the horizontal loop takes a contiguous slice
  around the tile with priority and never leaves the queue; together they split the queue
  without losing or repeating a tile.
\<close>

section \<open>Queues of requests\<close>

definition queue_tile :: "tile_desc \<Rightarrow> bool" where
  "queue_tile t \<longleftrightarrow> tile_valid t \<and> tile_ranges t \<and> shared_ranges t \<and> td_tilePosX t < INT_MAX \<and> -1 \<le> td_id t"

definition queue_ok :: "tile_desc list \<Rightarrow> bool" where
  "queue_ok q \<longleftrightarrow> keys_sorted q \<and> (\<forall>t \<in> set q. queue_tile t)"

lemma queue_ok_filter: "queue_ok q \<Longrightarrow> queue_ok (filter P q)"
  by (simp add: queue_ok_def sorted_wrt_map sorted_wrt_filter_imp)

lemma queue_ok_insert:
  assumes "queue_ok q" "queue_tile t"
  shows "queue_ok (sorted_insert q t)"
proof -
  have s: "keys_sorted q" using assms(1) by (simp add: queue_ok_def)
  show ?thesis
    using tiles.ins_sorted [OF s, of t] assms
    by (auto simp: queue_ok_def tiles.ins_set [OF s])
qed

lemma queue_ok_foldl: "queue_ok q \<Longrightarrow> \<forall>t \<in> set ts. queue_tile t \<Longrightarrow> queue_ok (foldl sorted_insert q ts)"
  by (induction ts arbitrary: q) (simp_all add: queue_ok_insert)

lemma preview_id: "queue_tile t \<Longrightarrow> \<not> is_preview t \<Longrightarrow> td_id t = -1"
  by (simp add: queue_tile_def is_preview_def)

lemma allow_combine_iff:
  "allow_combine a b \<longleftrightarrow> \<not> is_preview a \<and> \<not> is_preview b \<and> same_tile_combine_params a b"
  by (simp add: allow_combine_def)

lemma grid_x_nonneg: "0 \<le> td_tilePosX t \<Longrightarrow> 0 < w \<Longrightarrow> grid_x t w = td_tilePosX t div w"
  by (simp add: grid_x_def cdiv_nonneg)

lemma le_div_int: "0 < w \<Longrightarrow> (l::int) \<le> x div w \<longleftrightarrow> l * w \<le> x"
proof
  assume "0 < w" "l \<le> x div w"
  then have "l * w \<le> (x div w) * w" by (intro mult_right_mono) simp_all
  also have "\<dots> = x - x mod w" by (simp add: minus_mod_eq_div_mult)
  also have "\<dots> \<le> x" using \<open>0 < w\<close> by simp
  finally show "l * w \<le> x" .
next
  assume "0 < w" "l * w \<le> x"
  then have "l * w div w \<le> x div w" by (intro zdiv_mono1) simp_all
  then show "l \<le> x div w" using \<open>0 < w\<close> by simp
qed

section \<open>The row of a tile in the order\<close>

lemma prod_sandwich:
  fixes a c :: "'a::linorder" and b d e :: "'b::linorder"
  assumes "(a, b) \<le> (c, d)" "(c, d) \<le> (a, e)"
  shows "c = a \<and> b \<le> d \<and> d \<le> e"
  using assms by (auto simp: less_eq_prod_def)

lemma prod_sandwich_next:
  fixes a c :: "'a::linorder" and b d e :: "'b::linorder"
  assumes "Q \<and> (a, b) \<le> (c, d) \<and> (c, d) \<le> (a, e)"
  shows "c = a \<and> b \<le> d \<and> d \<le> e"
  using assms by (intro prod_sandwich) simp_all

lemma tile_key_sandwich:
  assumes "tile_key_at p x y \<le> tile_key e" "tile_key e \<le> tile_key_at p x' y"
  shows "tile_key e = tile_key_at p (td_tilePosX e) y \<and> x \<le> td_tilePosX e"
proof -
  note s1 = prod_sandwich [OF assms [unfolded tile_key_def tile_key_at_def]]
  note s2 = prod_sandwich_next [OF s1] note s3 = prod_sandwich_next [OF s2]
  note s4 = prod_sandwich_next [OF s3] note s5 = prod_sandwich_next [OF s4]
  note s6 = prod_sandwich_next [OF s5] note s7 = prod_sandwich_next [OF s6]
  note s8 = prod_sandwich_next [OF s7] note s9 = prod_sandwich_next [OF s8]
  show ?thesis using s1 s2 s3 s4 s5 s6 s7 s8 s9 by (simp only: tile_key_def tile_key_at_def simp_thms)
qed

lemma row_key:
  assumes "queue_tile p" "queue_tile t"
  shows "allow_combine_if_row p y t \<longleftrightarrow> \<not> is_preview p \<and> tile_key t = tile_key_at p (td_tilePosX t) y"
proof
  assume "allow_combine_if_row p y t"
  then show "\<not> is_preview p \<and> tile_key t = tile_key_at p (td_tilePosX t) y"
    using preview_id [OF assms(1)] preview_id [OF assms(2)]
    by (simp add: allow_combine_if_row_def allow_combine_iff same_params_iff tile_key_def tile_key_at_def)
next
  assume "\<not> is_preview p \<and> tile_key t = tile_key_at p (td_tilePosX t) y"
  then show "allow_combine_if_row p y t"
    by (simp add: allow_combine_if_row_def allow_combine_iff same_params_iff tile_key_def tile_key_at_def is_preview_def)
qed

lemma row_key_less:
  "tile_key_at p x y < tile_key_at p x' y \<longleftrightarrow> x < x'" "tile_key_at p x y \<le> tile_key_at p x' y \<longleftrightarrow> x \<le> x'"
  by (simp_all add: tile_key_at_def)

section \<open>The vertical loop\<close>

text \<open>The loop splits the row it walks over.\<close>

lemma combine_vert_loop_split:
  "combine_vert_loop p y l r i q dest =
    (take i q @ filter (\<lambda>t. \<not> (l \<le> grid_x t (td_tileWidth t) \<and> grid_x t (td_tileWidth t) \<le> r))
         (takeWhile (allow_combine_if_row p y) (drop i q)) @
       dropWhile (allow_combine_if_row p y) (drop i q),
     foldl sorted_insert dest
       (filter (\<lambda>t. l \<le> grid_x t (td_tileWidth t) \<and> grid_x t (td_tileWidth t) \<le> r)
         (takeWhile (allow_combine_if_row p y) (drop i q))))"
proof (induction p y l r i q dest rule: combine_vert_loop.induct)
  case (1 p y l r i q dest)
  show ?case
  proof (cases "i < length q")
    case False
    then show ?thesis by (simp add: combine_vert_loop.simps)
  next
    case True
    then have d: "drop i q = q ! i # drop (Suc i) q" by (simp add: Cons_nth_drop_Suc)
    show ?thesis
    proof (cases "allow_combine_if_row p y (q ! i)")
      case False
      then show ?thesis using True d by (simp add: combine_vert_loop.simps [of p y l r i q] del: append_take_drop_id)
        (metis append_take_drop_id)
    next
      case a: True
      have e: "drop i (erase_at i q) = drop (Suc i) q" "take i (erase_at i q) = take i q"
        using True by (simp_all add: erase_at_def)
      show ?thesis
      proof (cases "l \<le> grid_x (q ! i) (td_tileWidth (q ! i)) \<and> grid_x (q ! i) (td_tileWidth (q ! i)) \<le> r")
        case g: True
        then show ?thesis
          using 1(1) [OF True refl _ refl] a True
          by (simp add: combine_vert_loop.simps [of p y l r i q] d e)
      next
        case g: False
        then show ?thesis
          using 1(2) [OF True refl _ refl] a True
          by (auto simp: combine_vert_loop.simps [of p y l r i q] d take_Suc_conv_app_nth)
      qed
    qed
  qed
qed

text \<open>The tiles of a row within a range of columns, and the loop as a filter.\<close>

definition in_row_range :: "tile_desc \<Rightarrow> int \<Rightarrow> int \<Rightarrow> int \<Rightarrow> tile_desc \<Rightarrow> bool" where
  "in_row_range p y l r t \<longleftrightarrow>
    allow_combine_if_row p y t \<and> l \<le> grid_x t (td_tileWidth t) \<and> grid_x t (td_tileWidth t) \<le> r"

lemma row_prefix:
  assumes "sorted_wrt (<) (map tile_key q)" "\<forall>t \<in> set q. queue_tile t" "queue_tile p"
    and "\<forall>t \<in> set q. tile_key_at p x y \<le> tile_key t"
  shows "takeWhile (allow_combine_if_row p y) q = filter (allow_combine_if_row p y) q"
  using assms(1,2,4)
proof (induction q)
  case (Cons e q)
  have "filter (allow_combine_if_row p y) q = []" if e: "\<not> allow_combine_if_row p y e"
  proof -
    have "\<not> allow_combine_if_row p y f" if f: "f \<in> set q" for f
    proof
      assume a: "allow_combine_if_row p y f"
      have fq: "queue_tile f" and eq: "queue_tile e" and le: "tile_key e \<le> tile_key f"
        using Cons.prems f by auto
      have kf: "tile_key f = tile_key_at p (td_tilePosX f) y" and np: "\<not> is_preview p"
        using a row_key [OF assms(3) fq] by simp_all
      have "tile_key e = tile_key_at p (td_tilePosX e) y"
        using tile_key_sandwich [of p x y e] Cons.prems(3) le kf by auto
      then show False using e np row_key [OF assms(3) eq] by simp
    qed
    then show ?thesis by (simp add: filter_empty_conv)
  qed
  with Cons show ?case by simp
qed simp

lemma filter_compl_split:
  assumes "takeWhile A d = filter A d"
  shows "filter (\<lambda>t. \<not> R t) (takeWhile A d) @ dropWhile A d = filter (\<lambda>t. \<not> (A t \<and> R t)) d"
proof -
  have "filter A (dropWhile A d) = []"
  proof -
    have "filter A (takeWhile A d) = takeWhile A d" by (auto intro: filter_True dest: set_takeWhileD)
    then have "takeWhile A d @ filter A (dropWhile A d) = filter A d"
      by (metis filter_append takeWhile_dropWhile_id)
    then show ?thesis using assms(1) by (metis append_self_conv)
  qed
  then have "filter (\<lambda>t. \<not> (A t \<and> R t)) (dropWhile A d) = dropWhile A d"
    by (intro filter_True) (auto simp: filter_empty_conv)
  moreover have "filter (\<lambda>t. \<not> (A t \<and> R t)) (takeWhile A d) = filter (\<lambda>t. \<not> R t) (takeWhile A d)"
    by (intro filter_cong) (auto dest: set_takeWhileD)
  ultimately have "filter (\<lambda>t. \<not> R t) (takeWhile A d) @ dropWhile A d =
    filter (\<lambda>t. \<not> (A t \<and> R t)) (takeWhile A d @ dropWhile A d)"
    by (simp only: filter_append)
  then show ?thesis by simp
qed

lemma combine_vertical_filter:
  fixes dir :: int
  assumes "queue_ok q" "queue_tile p" "0 \<le> l" "l * td_tileWidth p \<le> INT_MAX"
  defines "y \<equiv> s32 (td_tilePosY p + td_tileHeight p * dir)"
  shows "combine_vertical_tiles q dest p l r dir =
    (filter (\<lambda>t. \<not> in_row_range p y l r t) q, foldl sorted_insert dest (filter (in_row_range p y l r) q))"
proof -
  have s: "keys_sorted q" and qt: "\<forall>t \<in> set q. queue_tile t" using assms(1) by (simp_all add: queue_ok_def)
  let ?K = "tile_key_at p (l * td_tileWidth p) y" and ?A = "allow_combine_if_row p y"
  let ?R = "\<lambda>t. l \<le> grid_x t (td_tileWidth t) \<and> grid_x t (td_tileWidth t) \<le> r"
  let ?lo = "filter (\<lambda>e. tile_key e < ?K) q" and ?hi = "filter (\<lambda>e. ?K \<le> tile_key e) q"
  have w: "0 < td_tileWidth p" using assms(2) by (simp add: queue_tile_def tile_valid_def)
  have posX: "s32 (l * td_tileWidth p) = l * td_tileWidth p"
    using assms(3,4) w by (intro s32_id) (simp_all add: order_trans [of INT_MIN 0])
  have i: "lower_bound (\<lambda>e. tile_key e < ?K) q = length (takeWhile (\<lambda>e. tile_key e < ?K) q)"
    by (rule lower_bound_eq [OF partitioned_below [OF s]])
  have t: "take (lower_bound (\<lambda>e. tile_key e < ?K) q) q = ?lo" and d: "drop (lower_bound (\<lambda>e. tile_key e < ?K) q) q = ?hi"
    unfolding i sorted_below(1) [OF s, symmetric] sorted_below(3) [OF s, symmetric]
    by (rule takeWhile_eq_take [symmetric], rule dropWhile_eq_drop [symmetric])
  have prefix: "takeWhile ?A ?hi = filter ?A ?hi"
    by (rule row_prefix [where p = p and x = "l * td_tileWidth p"])
      (use s qt assms(2) in \<open>auto simp: sorted_wrt_map sorted_wrt_filter_imp\<close>)
  have none: "\<not> in_row_range p y l r e" if "e \<in> set q" "tile_key e < ?K" for e
  proof
    assume "in_row_range p y l r e"
    then have a: "?A e" and g: "l \<le> grid_x e (td_tileWidth e)" by (simp_all add: in_row_range_def)
    have eq: "queue_tile e" using qt that by blast
    then have "td_tilePosX e < l * td_tileWidth p" using that(2) a row_key [OF assms(2) eq] row_key_less(1) by simp
    moreover have "td_tileWidth e = td_tileWidth p" using a by (simp add: allow_combine_if_row_def allow_combine_iff same_params_iff)
    ultimately show False using g eq w
      by (simp add: grid_x_nonneg queue_tile_def tile_valid_def le_div_int)
  qed
  have f: "filter (in_row_range p y l r) q = filter (in_row_range p y l r) ?hi"
  proof -
    have "?K \<le> tile_key e" if "e \<in> set q" "in_row_range p y l r e" for e using none that not_le by blast
    then show ?thesis by (auto simp: filter_filter intro!: filter_cong)
  qed
  have g: "filter (\<lambda>t. \<not> in_row_range p y l r t) q = ?lo @ filter (\<lambda>t. \<not> in_row_range p y l r t) ?hi"
  proof -
    have "q = ?lo @ ?hi" by (metis t d append_take_drop_id)
    then have "filter (\<lambda>t. \<not> in_row_range p y l r t) q =
        filter (\<lambda>t. \<not> in_row_range p y l r t) ?lo @ filter (\<lambda>t. \<not> in_row_range p y l r t) ?hi"
      by (metis filter_append)
    also have "filter (\<lambda>t. \<not> in_row_range p y l r t) ?lo = ?lo"
      by (rule filter_True) (use none in auto)
    finally show ?thesis .
  qed
  have h: "in_row_range p y l r = (\<lambda>t. ?A t \<and> ?R t)" by (simp add: fun_eq_iff in_row_range_def)
  have e: "filter ?R (takeWhile ?A ?hi) = filter (\<lambda>t. ?A t \<and> ?R t) ?hi"
    unfolding prefix filter_filter by (rule filter_cong) auto
  show ?thesis
    unfolding combine_vertical_tiles_def Let_def posX y_def [symmetric] compare_as_at_tile_pos_def
      combine_vert_loop_split t d f g
    by (simp only: h e filter_compl_split [OF prefix, of ?R])
qed

section \<open>The horizontal loop\<close>

definition slice :: "'a list \<Rightarrow> nat \<Rightarrow> nat \<Rightarrow> 'a list" where
  "slice q a b = take (b - a) (drop a q)"

lemma slice_snoc: "a \<le> b \<Longrightarrow> b < length q \<Longrightarrow> slice q a (Suc b) = slice q a b @ [q ! b]"
  by (simp add: slice_def Suc_diff_le take_Suc_conv_app_nth)

lemma slice_Cons: "Suc a \<le> b \<Longrightarrow> b \<le> length q \<Longrightarrow> slice q a b = q ! a # slice q (Suc a) b"
  by (simp add: slice_def Cons_nth_drop_Suc [symmetric] Suc_diff_Suc [symmetric] del: Suc_diff_Suc)

lemma slice_split: "a \<le> b \<Longrightarrow> q = take a q @ slice q a b @ drop b q"
  by (simp add: slice_def) (metis append_take_drop_id drop_drop le_add_diff_inverse2)

lemma slice_set: "b \<le> length q \<Longrightarrow> set (slice q a b) = {q ! i | i. a \<le> i \<and> i < b}"
proof -
  assume b: "b \<le> length q"
  have "x \<in> set (slice q a b) \<longleftrightarrow> (\<exists>i. a \<le> i \<and> i < b \<and> x = q ! i)" for x
  proof
    assume "x \<in> set (slice q a b)"
    then obtain k where "k < b - a" "x = q ! (a + k)"
      using b by (auto simp: slice_def in_set_conv_nth)
    then show "\<exists>i. a \<le> i \<and> i < b \<and> x = q ! i" by (intro exI [of _ "a + k"]) auto
  next
    assume "\<exists>i. a \<le> i \<and> i < b \<and> x = q ! i"
    then obtain i where "a \<le> i" "i < b" "x = q ! i" by blast
    then show "x \<in> set (slice q a b)"
      using b by (auto simp: slice_def in_set_conv_nth intro!: exI [of _ "i - a"])
  qed
  then show ?thesis by blast
qed

lemma keys_sorted_slice: "keys_sorted q \<Longrightarrow> keys_sorted (slice q a b)"
  unfolding slice_def by (simp add: sorted_wrt_take sorted_wrt_drop take_map [symmetric] drop_map [symmetric])

lemma sorted_insert_slice:
  assumes "keys_sorted q" "a \<le> b"
  shows "b < length q \<Longrightarrow> sorted_insert (slice q a b) (q ! b) = slice q a (Suc b)"
    and "0 < a \<Longrightarrow> b \<le> length q \<Longrightarrow> a < b \<Longrightarrow> sorted_insert (slice q a b) (q ! (a - 1)) = slice q (a - 1) b"
proof -
  have lt: "tile_key (q ! i) < tile_key (q ! j)" if "i < j" "j < length q" for i j
    using sorted_wrt_nth_less [OF assms(1), of i j] that by simp
  show "sorted_insert (slice q a b) (q ! b) = slice q a (Suc b)" if b: "b < length q"
  proof (rule tiles.sorted_unique)
    have "tile_key y \<noteq> tile_key (q ! b)" if "y \<in> set (slice q a b)" for y
      using that b lt by (force simp: slice_set)
    then show "set (sorted_insert (slice q a b) (q ! b)) = set (slice q a (Suc b))"
      using b assms(2) by (auto simp: tiles.ins_set keys_sorted_slice [OF assms(1)] slice_snoc)
  qed (simp_all add: tiles.ins_sorted keys_sorted_slice [OF assms(1)])
  show "sorted_insert (slice q a b) (q ! (a - 1)) = slice q (a - 1) b" if b: "0 < a" "b \<le> length q" "a < b"
  proof (rule tiles.sorted_unique)
    have "tile_key y \<noteq> tile_key (q ! (a - 1))" if "y \<in> set (slice q a b)" for y
    proof -
      obtain i where "a \<le> i" "i < b" "y = q ! i" using \<open>y \<in> _\<close> b by (auto simp: slice_set)
      moreover from this b have "a - 1 < i" "i < length q" by linarith+
      ultimately show ?thesis using lt [of "a - 1" i] by simp
    qed
    then show "set (sorted_insert (slice q a b) (q ! (a - 1))) = set (slice q (a - 1) b)"
      using b assms(2) slice_Cons [of "a - 1" b q]
      by (auto simp: tiles.ins_set keys_sorted_slice [OF assms(1)])
  qed (simp_all add: tiles.ins_sorted keys_sorted_slice [OF assms(1)])
qed

text \<open>
  What the loop keeps: the tiles collected are the slice of the queue between the two indices,
  all of the row of the tile with priority, and the grid positions are those of its ends.
\<close>

definition hori_inv :: "tile_desc list \<Rightarrow> tile_desc \<Rightarrow> nat \<Rightarrow> hori \<Rightarrow> bool" where
  "hori_inv q p k h \<longleftrightarrow>
    -1 \<le> h_leftTile h \<and> h_leftTile h < int k \<and> int k < h_rightTile h \<and> h_rightTile h \<le> int (length q) \<and>
    h_dest h = slice q (nat (h_leftTile h + 1)) (nat (h_rightTile h)) \<and>
    h_leftGridX h = grid_x (q ! nat (h_leftTile h + 1)) (td_tileWidth p) \<and>
    h_rightGridX h = grid_x (q ! nat (h_rightTile h - 1)) (td_tileWidth p) \<and>
    (\<forall>t \<in> set (h_dest h). allow_combine_if_row p (td_tilePosY p) t) \<and>
    h_rightGridX h - h_leftGridX h < max_combined_grid_span"

lemma grid_bounds:
  assumes "queue_tile t" "0 < w"
  shows "0 \<le> grid_x t w" "grid_x t w < INT_MAX"
proof -
  have "0 \<le> td_tilePosX t" "td_tilePosX t < INT_MAX" using assms(1) by (simp_all add: queue_tile_def tile_valid_def)
  moreover have "td_tilePosX t div w \<le> td_tilePosX t"
    using calculation assms(2) div_pos_geq zdiv_mono2 [of "td_tilePosX t" 1 w] by simp
  ultimately show "0 \<le> grid_x t w" "grid_x t w < INT_MAX"
    using assms(2) by (simp_all add: grid_x_nonneg pos_imp_zdiv_nonneg_iff)
qed

lemma s32_diff: "0 \<le> a \<Longrightarrow> a \<le> INT_MAX \<Longrightarrow> 0 \<le> b \<Longrightarrow> b \<le> INT_MAX \<Longrightarrow> s32 (a - b) = a - b"
  by (rule s32_id) linarith+

lemma slice_mem: "b \<le> length q \<Longrightarrow> a \<le> i \<Longrightarrow> i < b \<Longrightarrow> q ! i \<in> set (slice q a b)"
  by (auto simp: slice_set)

lemma hori_left:
  assumes "queue_ok q" "hori_inv q p k h" "can_left q p h"
    and "h_rightGridX h - grid_x (q ! nat (h_leftTile h)) (td_tileWidth p) < max_combined_grid_span"
  shows "hori_inv q p k (h\<lparr>h_leftGridX := grid_x (q ! nat (h_leftTile h)) (td_tileWidth p),
      h_leftTile := h_leftTile h - 1, h_dest := sorted_insert (h_dest h) (q ! nat (h_leftTile h))\<rparr>)"
proof -
  note inv = assms(2) [unfolded hori_inv_def] and can = assms(3) [unfolded can_left_def]
  have s: "keys_sorted q" using assms(1) by (simp add: queue_ok_def)
  define a where "a = nat (h_leftTile h + 1)"
  define b where "b = nat (h_rightTile h)"
  have ab: "0 < a" "a < b" "b \<le> length q" "nat (h_leftTile h) = a - 1" "nat (h_leftTile h - 1 + 1) = a - 1"
    using inv can by (auto simp: a_def b_def)
  have d: "sorted_insert (slice q a b) (q ! (a - 1)) = slice q (a - 1) b"
    using sorted_insert_slice(2) [OF s] ab by simp
  have "slice q (a - 1) b = q ! (a - 1) # slice q a b" using slice_Cons [of "a - 1" b q] ab by simp
  then show ?thesis
    using inv can assms(4) d ab a_def [symmetric] b_def [symmetric] unfolding hori_inv_def by simp
qed

lemma hori_right:
  assumes "queue_ok q" "hori_inv q p k h" "can_right q p h"
    and "grid_x (q ! nat (h_rightTile h)) (td_tileWidth p) - h_leftGridX h < max_combined_grid_span"
  shows "hori_inv q p k (h\<lparr>h_rightGridX := grid_x (q ! nat (h_rightTile h)) (td_tileWidth p),
      h_rightTile := h_rightTile h + 1, h_dest := sorted_insert (h_dest h) (q ! nat (h_rightTile h))\<rparr>)"
proof -
  note inv = assms(2) [unfolded hori_inv_def] and can = assms(3) [unfolded can_right_def]
  have s: "keys_sorted q" using assms(1) by (simp add: queue_ok_def)
  define a where "a = nat (h_leftTile h + 1)"
  define b where "b = nat (h_rightTile h)"
  have ab: "a \<le> b" "b < length q" "nat (h_rightTile h + 1) = Suc b" "nat (h_rightTile h + 1 - 1) = b"
    using inv can by (auto simp: a_def b_def)
  have d: "sorted_insert (slice q a b) (q ! b) = slice q a (Suc b)"
    using sorted_insert_slice(1) [OF s] ab by simp
  have "slice q a (Suc b) = slice q a b @ [q ! b]" using slice_snoc ab by simp
  then show ?thesis
    using inv can assms(4) d ab a_def [symmetric] b_def [symmetric] unfolding hori_inv_def by simp
qed

lemma combine_hori_loop_ok:
  assumes "queue_ok q" "k < length q" "p = q ! k" "hori_inv q p k h"
  shows "\<exists>h'. combine_hori_loop q p h = Ok h' \<and> hori_inv q p k h'"
  using assms(4)
proof (induction "nat (h_leftTile h + 1) + nat (int (length q) - h_rightTile h)" arbitrary: h rule: less_induct)
  case less
  note inv = less.prems [unfolded hori_inv_def]
  have qt: "queue_tile (q ! i)" if "i < length q" for i using assms(1) that by (simp add: queue_ok_def)
  have w: "0 < td_tileWidth p" using qt [OF assms(2)] assms(3) by (simp add: queue_tile_def tile_valid_def)
  note gb = grid_bounds [OF qt w]
  have ends: "0 \<le> h_leftGridX h" "h_leftGridX h < INT_MAX" "0 \<le> h_rightGridX h" "h_rightGridX h < INT_MAX"
  proof -
    have "nat (h_leftTile h + 1) < length q" "nat (h_rightTile h - 1) < length q"
      using inv assms(2) by (simp_all add: nat_less_iff)
    from gb [OF this(1)] gb [OF this(2)] show "0 \<le> h_leftGridX h" "h_leftGridX h < INT_MAX"
      "0 \<le> h_rightGridX h" "h_rightGridX h < INT_MAX"
      using inv by simp_all
  qed
  have pg: "0 \<le> grid_x p (td_tileWidth p)" "grid_x p (td_tileWidth p) < INT_MAX" using gb [OF assms(2)] assms(3) by simp_all
  let ?gl = "grid_x (q ! nat (h_leftTile h)) (td_tileWidth p)" and ?gr = "grid_x (q ! nat (h_rightTile h)) (td_tileWidth p)"
  have gl: "0 \<le> ?gl \<and> ?gl < INT_MAX" if "can_left q p h"
  proof -
    have "nat (h_leftTile h) < length q" using that inv assms(2) by (simp add: can_left_def nat_less_iff)
    then show ?thesis using gb by blast
  qed
  have gr: "0 \<le> ?gr \<and> ?gr < INT_MAX" if "can_right q p h"
  proof -
    have "nat (h_rightTile h) < length q" using that inv by (simp add: can_right_def nat_less_iff)
    then show ?thesis using gb by blast
  qed
  note unfold = combine_hori_loop.simps [of q p h]
  consider (none) "\<not> can_left q p h \<and> \<not> can_right q p h"
    | (left) "can_left q p h" "(if can_left q p h then s32 (grid_x p (td_tileWidth p) - (if can_left q p h then ?gl else h_leftGridX h)) else INT_MAX) <
        (if can_right q p h then s32 ((if can_right q p h then ?gr else h_rightGridX h) - grid_x p (td_tileWidth p)) else INT_MAX)"
    | (right) "can_right q p h" "\<not> ((if can_left q p h then s32 (grid_x p (td_tileWidth p) - (if can_left q p h then ?gl else h_leftGridX h)) else INT_MAX) <
        (if can_right q p h then s32 ((if can_right q p h then ?gr else h_rightGridX h) - grid_x p (td_tileWidth p)) else INT_MAX))"
    using gl gr pg s32_range [of "?gr - grid_x p (td_tileWidth p)"]
    by (cases "can_left q p h"; cases "can_right q p h") (force simp: s32_diff)+
  then show ?case
  proof cases
    case none
    then show ?thesis using less.prems unfold by simp
  next
    case left
    let ?h = "h\<lparr>h_leftGridX := ?gl, h_leftTile := h_leftTile h - 1, h_dest := sorted_insert (h_dest h) (q ! nat (h_leftTile h))\<rparr>"
    have lt: "0 \<le> h_leftTile h" using left(1) by (simp add: can_left_def)
    show ?thesis
    proof (cases "h_rightGridX h - ?gl < max_combined_grid_span")
      case True
      then have "\<exists>h'. combine_hori_loop q p ?h = Ok h' \<and> hori_inv q p k h'"
        using lt by (intro less.hyps hori_left [OF assms(1) less.prems left(1)]) auto
      then show ?thesis using unfold left True lt ends gl by (simp add: s32_diff not_le Let_def)
    next
      case False
      then show ?thesis using unfold left lt ends gl less.prems by (simp add: s32_diff not_le Let_def)
    qed
  next
    case right
    let ?h = "h\<lparr>h_rightGridX := ?gr, h_rightTile := h_rightTile h + 1, h_dest := sorted_insert (h_dest h) (q ! nat (h_rightTile h))\<rparr>"
    have rt: "h_rightTile h < int (length q)" using right(1) by (simp add: can_right_def)
    show ?thesis
    proof (cases "?gr - h_leftGridX h < max_combined_grid_span")
      case True
      then have "\<exists>h'. combine_hori_loop q p ?h = Ok h' \<and> hori_inv q p k h'"
        using rt by (intro less.hyps hori_right [OF assms(1) less.prems right(1)]) auto
      then show ?thesis using unfold right True rt ends gr by (simp add: s32_diff not_le Let_def)
    next
      case False
      then show ?thesis using unfold right rt ends gr less.prems by (simp add: s32_diff not_le Let_def)
    qed
  qed
qed

lemma tile_params: "allow_combine_if_row p y t \<Longrightarrow> td_tileWidth t = td_tileWidth p \<and> td_tilePosY t = y"
  by (simp add: allow_combine_if_row_def allow_combine_iff same_params_iff)

text \<open>In a row, the order of the queue is the order of the columns.\<close>

lemma row_mono:
  assumes "queue_tile p" "queue_tile t" "queue_tile u" "allow_combine_if_row p y t" "allow_combine_if_row p y u"
    and "tile_key t \<le> tile_key u"
  shows "td_tilePosX t \<le> td_tilePosX u" "grid_x t (td_tileWidth p) \<le> grid_x u (td_tileWidth p)"
proof -
  show x: "td_tilePosX t \<le> td_tilePosX u"
    using assms(4-6) row_key [OF assms(1,2)] row_key [OF assms(1,3)] row_key_less(2) by simp
  have "0 < td_tileWidth p" "0 \<le> td_tilePosX t" "0 \<le> td_tilePosX u"
    using assms(1-3) by (simp_all add: queue_tile_def tile_valid_def)
  then show "grid_x t (td_tileWidth p) \<le> grid_x u (td_tileWidth p)"
    using x by (simp add: grid_x_nonneg zdiv_mono1)
qed

lemma combine_hori_around_ok:
  assumes "queue_ok q" "k < length q" "\<not> is_preview (q ! k)"
  obtains a b lg rg where
    "combine_hori_around q [q ! k] k = Ok (take a q @ drop b q, slice q a b, lg, rg)"
    "a \<le> k" "k < b" "b \<le> length q" "rg - lg < max_combined_grid_span" "0 \<le> lg" "lg \<le> rg"
    "lg * td_tileWidth (q ! k) \<le> INT_MAX"
    "\<forall>t \<in> set (slice q a b). allow_combine_if_row (q ! k) (td_tilePosY (q ! k)) t"
    "\<forall>t \<in> set (slice q a b). lg \<le> grid_x t (td_tileWidth (q ! k)) \<and> grid_x t (td_tileWidth (q ! k)) \<le> rg"
proof -
  let ?p = "q ! k" and ?w = "td_tileWidth (q ! k)"
  let ?h = "\<lparr>h_leftTile = int k - 1, h_rightTile = int k + 1, h_leftGridX = grid_x ?p ?w, h_rightGridX = grid_x ?p ?w,
    h_dest = [?p]\<rparr>"
  have qt: "queue_tile (q ! i)" if "i < length q" for i using assms(1) that by (simp add: queue_ok_def)
  note pt = qt [OF assms(2)]
  have "nat (int k - 1 + 1) = k" "nat (int k + 1) = Suc k" "nat (int k + 1 - 1) = k" by simp_all
  moreover have "slice q k (Suc k) = [?p]" using slice_Cons [of k "Suc k" q] assms(2) by (simp add: slice_def)
  ultimately have "hori_inv q ?p k ?h"
    using assms(2,3)
    by (simp add: hori_inv_def max_combined_grid_span_def allow_combine_if_row_def allow_combine_iff same_params_iff)
  then obtain h where h: "combine_hori_loop q ?p ?h = Ok h" and inv: "hori_inv q ?p k h"
    using combine_hori_loop_ok [OF assms(1,2) refl] by blast
  define a where "a = nat (h_leftTile h + 1)"
  define b where "b = nat (h_rightTile h)"
  note i = inv [unfolded hori_inv_def]
  have ab: "a \<le> k" "k < b" "b \<le> length q" "nat (h_rightTile h - 1) = b - 1" using i by (auto simp: a_def b_def)
  have d: "h_dest h = slice q a b" and g: "h_leftGridX h = grid_x (q ! a) ?w" "h_rightGridX h = grid_x (q ! (b - 1)) ?w"
    and al: "\<forall>t \<in> set (slice q a b). allow_combine_if_row ?p (td_tilePosY ?p) t"
    using i ab by (simp_all add: a_def b_def)
  have ltk: "i \<le> j \<Longrightarrow> j < length q \<Longrightarrow> tile_key (q ! i) \<le> tile_key (q ! j)" for i j
    using assms(1) sorted_wrt_nth_less [of "(<)" "map tile_key q" i j]
    by (cases "i = j") (auto simp: queue_ok_def)
  have mono: "grid_x (q ! i) ?w \<le> grid_x (q ! j) ?w" if "a \<le> i" "i \<le> j" "j < b" for i j
    using that ab al ltk [of i j] qt [of i] qt [of j]
    by (intro row_mono(2) [OF pt]) (auto simp: slice_mem)
  have w: "0 < ?w" using pt by (simp add: queue_tile_def tile_valid_def)
  have bounds: "\<forall>t \<in> set (slice q a b). h_leftGridX h \<le> grid_x t ?w \<and> grid_x t ?w \<le> h_rightGridX h"
    unfolding g using ab by (auto simp: slice_set intro!: mono)
  show ?thesis
  proof
    show "combine_hori_around q [?p] k = Ok (take a q @ drop b q, slice q a b, h_leftGridX h, h_rightGridX h)"
      using h by (simp add: combine_hori_around_def d erase_range_def a_def b_def)
    show "0 \<le> h_leftGridX h" "h_leftGridX h * ?w \<le> INT_MAX"
    proof -
      have "queue_tile (q ! a)" using qt ab by simp
      then have "0 \<le> td_tilePosX (q ! a)" "td_tilePosX (q ! a) < INT_MAX" by (simp_all add: queue_tile_def tile_valid_def)
      then show "0 \<le> h_leftGridX h" "h_leftGridX h * ?w \<le> INT_MAX"
        using w le_div_int [OF w, of "h_leftGridX h" "td_tilePosX (q ! a)"]
        by (simp_all add: g grid_x_nonneg pos_imp_zdiv_nonneg_iff)
    qed
    show "h_leftGridX h \<le> h_rightGridX h" unfolding g using ab by (intro mono) auto
  qed (use ab i al bounds in auto)
qed

lemma widen_range_bounds:
  assumes "0 \<le> lg" "lg \<le> rg" "rg - lg < max_combined_grid_span" "widen_range lg rg = (l, r)"
  shows "0 \<le> l" "l \<le> lg" "rg \<le> r" "r - l = max_combined_grid_span"
proof -
  define avail where "avail = max_combined_grid_span - (rg - lg)"
  have av: "0 < avail" using assms(3) by (simp add: avail_def)
  then have c: "cdiv avail 2 = avail div 2" by (simp add: cdiv_nonneg)
  have lr: "l = lg - min lg (avail div 2)" "r = rg + (avail - min lg (avail div 2))"
    using assms(3,4) by (simp_all add: widen_range_def Let_def avail_def [symmetric] c)
  have half: "0 \<le> avail div 2" "avail div 2 \<le> avail" using av by simp_all
  show "0 \<le> l" using assms(1) by (simp add: lr)
  show "l \<le> lg" using assms(1) half by (simp add: lr)
  show "rg \<le> r" using half by (simp add: lr min_def)
  show "r - l = max_combined_grid_span" by (simp add: lr avail_def)
qed

text \<open>A vertical step moves the tiles of one row from the queue to the collected ones.\<close>

lemma vertical_step:
  fixes dir :: int
  assumes "queue_ok ts" "queue_ok q" "tile_key ` set ts \<inter> tile_key ` set q = {}"
    and "queue_tile p" "0 \<le> l" "l * td_tileWidth p \<le> INT_MAX"
    and "combine_vertical_tiles q ts p l r dir = (q', ts')"
  shows "queue_ok ts'" "queue_ok q'" "tile_key ` set ts' \<inter> tile_key ` set q' = {}"
    "mset ts' + mset q' = mset ts + mset q"
    "set ts' = set ts \<union> {t \<in> set q. in_row_range p (s32 (td_tilePosY p + td_tileHeight p * dir)) l r t}"
proof -
  let ?P = "in_row_range p (s32 (td_tilePosY p + td_tileHeight p * dir)) l r"
  have q': "q' = filter (\<lambda>t. \<not> ?P t) q" and ts': "ts' = foldl sorted_insert ts (filter ?P q)"
    using assms(7) combine_vertical_filter [OF assms(2,4-6), of ts r dir] by simp_all
  have s: "keys_sorted ts" "keys_sorted q" using assms(1,2) by (simp_all add: queue_ok_def)
  have dk: "distinct (map tile_key q)" using s(2) by (simp only: strict_sorted_iff)
  have dks: "distinct (map tile_key (filter ?P q))" by (rule distinct_map_filter [OF dk])
  have m: "mset ts' = mset ts + mset (filter ?P q)"
    unfolding ts' using assms(3) by (intro tiles.foldl_ins_fresh_mset [OF s(1) dks]) auto
  then show "mset ts' + mset q' = mset ts + mset q"
    by (simp add: q' ac_simps)
  have st: "set ts' = set ts \<union> set (filter ?P q)" using m by (metis set_mset_mset set_mset_union)
  then show "set ts' = set ts \<union> {t \<in> set q. ?P t}" by auto
  show "queue_ok ts'" unfolding ts' using assms(2) by (intro queue_ok_foldl [OF assms(1)]) (auto simp: queue_ok_def)
  show "queue_ok q'" unfolding q' by (rule queue_ok_filter [OF assms(2)])
  show "tile_key ` set ts' \<inter> tile_key ` set q' = {}"
  proof -
    have "tile_key t \<noteq> tile_key u" if "t \<in> set q" "?P t" "u \<in> set q" "\<not> ?P u" for t u
      using tiles.sorted_key_inj [OF s(2) that(1,3)] that(2,4) by auto
    moreover have "tile_key t \<noteq> tile_key u" if "t \<in> set ts" "u \<in> set q" for t u using assms(3) that by blast
    ultimately show ?thesis unfolding st q' set_filter by blast
  qed
qed

section \<open>One pop\<close>

text \<open>
  The tiles one pop may put together around \<open>p\<close>: of the same parameters, none a preview, in
  the row of \<open>p\<close> or the rows above and below, within 17 columns.
\<close>

definition combinable :: "tile_desc \<Rightarrow> tile_desc list \<Rightarrow> bool" where
  "combinable p ts \<longleftrightarrow>
    (\<forall>t \<in> set ts. allow_combine p t \<and>
       td_tilePosY t \<in> {td_tilePosY p, s32 (td_tilePosY p - td_tileHeight p), s32 (td_tilePosY p + td_tileHeight p)}) \<and>
    (\<exists>l. \<forall>t \<in> set ts. l \<le> grid_x t (td_tileWidth p) \<and> grid_x t (td_tileWidth p) \<le> l + max_combined_grid_span)"

definition pop_split :: "tile_desc list \<Rightarrow> tile_desc \<Rightarrow> tile_desc list \<Rightarrow> tile_desc list \<Rightarrow> bool" where
  "pop_split q p ts rest \<longleftrightarrow>
    queue_ok ts \<and> queue_ok rest \<and> mset ts + mset rest = mset q \<and> p \<in> set ts \<and>
    (ts = [p] \<and> is_preview p \<or> combinable p ts)"

lemma collect_preview:
  assumes "queue_ok q" "k < length q" "is_preview (q ! k)"
  shows "pop_split q (q ! k) [q ! k] (erase_at k q)"
proof -
  have "q = take k q @ q ! k # drop (Suc k) q" by (rule id_take_nth_drop [OF assms(2)])
  then have "mset q = mset (take k q @ q ! k # drop (Suc k) q)" by (rule arg_cong)
  moreover have "keys_sorted (erase_at k q)"
  proof -
    have "map tile_key (erase_at k q) = erase_at k (map tile_key q)" by (simp add: erase_at_def take_map drop_map)
    then show ?thesis using assms(1) by (simp add: queue_ok_def sorted_wrt_erase_at)
  qed
  moreover have "set (erase_at k q) \<subseteq> set q" by (rule set_erase_at)
  ultimately show ?thesis using assms by (auto simp: pop_split_def queue_ok_def erase_at_def)
qed

lemma collect_tiles_ok:
  assumes "queue_ok q" "k < length q"
  shows "\<exists>ts rest. collect_tiles q k = Ok (ts, rest) \<and> pop_split q (q ! k) ts rest"
proof (cases "is_preview (q ! k)")
  case True
  then show ?thesis using collect_preview [OF assms] by (simp add: collect_tiles_def)
next
  case np: False
  let ?p = "q ! k" and ?w = "td_tileWidth (q ! k)"
  obtain a b lg rg where h: "combine_hori_around q [?p] k = Ok (take a q @ drop b q, slice q a b, lg, rg)"
    and ab: "a \<le> k" "k < b" "b \<le> length q" and span: "rg - lg < max_combined_grid_span" "0 \<le> lg" "lg \<le> rg"
    and lw: "lg * ?w \<le> INT_MAX"
    and row: "\<forall>t \<in> set (slice q a b). allow_combine_if_row ?p (td_tilePosY ?p) t"
    and cols: "\<forall>t \<in> set (slice q a b). lg \<le> grid_x t ?w \<and> grid_x t ?w \<le> rg"
    by (rule combine_hori_around_ok [OF assms np])
  let ?q1 = "take a q @ drop b q" and ?t1 = "slice q a b"
  obtain l r where lr: "widen_range lg rg = (l, r)" by (cases "widen_range lg rg")
  note wb = widen_range_bounds [OF span(2,3,1) lr]
  obtain q2 t2 where v1: "combine_vertical_tiles ?q1 ?t1 ?p l r (-1) = (q2, t2)" by (cases "combine_vertical_tiles ?q1 ?t1 ?p l r (-1)")
  obtain q3 t3 where v2: "combine_vertical_tiles q2 t2 ?p l r 1 = (q3, t3)" by (cases "combine_vertical_tiles q2 t2 ?p l r 1")
  have s: "keys_sorted q" and qt: "\<forall>t \<in> set q. queue_tile t" using assms(1) by (simp_all add: queue_ok_def)
  have pt: "queue_tile ?p" using qt assms(2) by simp
  have split: "q = take a q @ ?t1 @ drop b q" using slice_split [of a b q] ab by simp
  have ms: "mset ?t1 + mset ?q1 = mset q"
    by (subst (4) split) (simp add: ac_simps)
  have ss: "keys_sorted (take a q @ ?t1 @ drop b q)" using s split by simp
  have ok1: "queue_ok ?q1" "queue_ok ?t1"
    using ss qt by (auto simp: queue_ok_def sorted_wrt_append slice_def dest: in_set_takeD in_set_dropD)
  have disj: "tile_key ` set ?t1 \<inter> tile_key ` set ?q1 = {}"
    using ss by (force simp: sorted_wrt_append)
  have w: "0 < ?w" using pt by (simp add: queue_tile_def tile_valid_def)
  have lw': "l * ?w \<le> INT_MAX" 
  proof -
    have "l * ?w \<le> lg * ?w" using wb(2) w by (intro mult_right_mono) simp_all
    with lw show ?thesis by linarith
  qed
  note s1 = vertical_step [OF ok1(2,1) disj pt wb(1) lw' v1]
  note s2 = vertical_step [OF s1(1,2,3) pt wb(1) lw' v2]
  have set1: "set t2 = set ?t1 \<union> {t \<in> set ?q1. in_row_range ?p (s32 (td_tilePosY ?p - td_tileHeight ?p)) l r t}"
    using s1(5) by simp
  have set2: "set t3 = set t2 \<union> {t \<in> set q2. in_row_range ?p (s32 (td_tilePosY ?p + td_tileHeight ?p)) l r t}"
    using s2(5) by simp
  have mem: "?p \<in> set t3" unfolding set2 set1 using slice_mem [OF ab(3,1,2)] by blast
  have range: "l \<le> grid_x t ?w \<and> grid_x t ?w \<le> r" if "in_row_range ?p y l r t" for y t
    using that tile_params [of ?p y t] by (simp add: in_row_range_def)
  have "combinable ?p t3"
    unfolding combinable_def
  proof (intro conjI exI [of _ l] ballI)
    fix t assume t: "t \<in> set t3"
    then consider "t \<in> set ?t1" | y where "y = s32 (td_tilePosY ?p - td_tileHeight ?p) \<or> y = s32 (td_tilePosY ?p + td_tileHeight ?p)"
        "in_row_range ?p y l r t"
      unfolding set2 set1 by blast
    then show "allow_combine ?p t"
      using row by cases (auto simp: in_row_range_def allow_combine_if_row_def)
  next
    fix t assume t: "t \<in> set t3"
    then consider "t \<in> set ?t1" | y where "y = s32 (td_tilePosY ?p - td_tileHeight ?p) \<or> y = s32 (td_tilePosY ?p + td_tileHeight ?p)"
        "in_row_range ?p y l r t"
      unfolding set2 set1 by blast
    then show "td_tilePosY t \<in> {td_tilePosY ?p, s32 (td_tilePosY ?p - td_tileHeight ?p), s32 (td_tilePosY ?p + td_tileHeight ?p)}"
      using row by cases (auto simp: in_row_range_def allow_combine_if_row_def)
  next
    fix t assume t: "t \<in> set t3"
    then have "l \<le> grid_x t ?w \<and> grid_x t ?w \<le> r"
      unfolding set2 set1 using cols wb range by fastforce
    then show "l \<le> grid_x t ?w" "grid_x t ?w \<le> l + max_combined_grid_span" using wb(4) by simp_all
  qed
  then have "pop_split q ?p t3 q3"
    using s2(1,2,4) s1(4) ms mem by (simp add: pop_split_def)
  then show ?thesis by (simp add: collect_tiles_def np h lr v1 v2)
qed

text \<open>The tile with priority is the first of the highest priority.\<close>

lemma prioritized_tile_max:
  assumes "prioritized_tile prio q = (pr, k)" "q \<noteq> []"
  shows "k < length q \<and> pr = prio (q ! k) \<and> (\<forall>t \<in> set q. prio t \<le> pr) \<and> (\<forall>j < k. prio (q ! j) < pr)"
proof -
  let ?f = "\<lambda>i (pr, k). if prio (q ! i) > pr then (prio (q ! i), i) else (pr, k)"
  have "\<And>n. 1 \<le> n \<Longrightarrow> n \<le> length q \<Longrightarrow> case fold ?f [1..<n] (prio (q ! 0), 0) of (pr, k) \<Rightarrow>
      k < n \<and> pr = prio (q ! k) \<and> (\<forall>j < n. prio (q ! j) \<le> pr) \<and> (\<forall>j < k. prio (q ! j) < pr)"
  proof -
    fix n :: nat assume "1 \<le> n" "n \<le> length q"
    then show "case fold ?f [1..<n] (prio (q ! 0), 0) of (pr, k) \<Rightarrow>
      k < n \<and> pr = prio (q ! k) \<and> (\<forall>j < n. prio (q ! j) \<le> pr) \<and> (\<forall>j < k. prio (q ! j) < pr)"
    proof (induction n rule: dec_induct)
      case (step n)
      obtain pr k where f: "fold ?f [1..<n] (prio (q ! 0), 0) = (pr, k)" by (cases "fold ?f [1..<n] (prio (q ! 0), 0)")
      with step have i: "k < n" "pr = prio (q ! k)" "\<forall>j < n. prio (q ! j) \<le> pr" "\<forall>j < k. prio (q ! j) < pr" by auto
      have e: "fold ?f [1..<Suc n] (prio (q ! 0), 0) = ?f n (pr, k)" using step f by simp
      show ?case unfolding e using i by (auto simp: less_Suc_eq not_less intro: order_trans less_imp_le le_less_trans)
    qed simp
  qed
  from this [of "length q"] show ?thesis
    using assms by (auto simp: prioritized_tile_def Suc_le_eq all_set_conv_all_nth)
qed

lemma combinable_params: "combinable p ts \<Longrightarrow> t \<in> set ts \<Longrightarrow> u \<in> set ts \<Longrightarrow> same_tile_combine_params t u"
  unfolding combinable_def allow_combine_iff using same_params_trans by blast

lemma pop_uniform:
  assumes "combinable p ts" "queue_ok ts" "ts \<noteq> []"
  shows "uniform_tiles ts"
proof -
  have "hd ts \<in> set ts" using assms(3) by simp
  then show ?thesis
    using assms(2,3) combinable_params [OF assms(1)] unfolding uniform_tiles_def queue_ok_def queue_tile_def by blast
qed

lemma combinable_no_duplicates:
  assumes "combinable p ts" "queue_ok ts" "\<And>t. td_tilePosX (f t) = td_tilePosX t \<and> td_tilePosY (f t) = td_tilePosY t"
  shows "\<not> dup_positions (map f ts)"
proof -
  have pos: "tile_key t = tile_key u"
    if "t \<in> set ts" "u \<in> set ts" "td_tilePosX t = td_tilePosX u" "td_tilePosY t = td_tilePosY u" for t u
  proof -
    have "td_id t = -1" "td_id u = -1"
      using assms(1,2) that(1,2) preview_id by (auto simp: combinable_def allow_combine_iff queue_ok_def)
    then show ?thesis
      using combinable_params [OF assms(1) that(1,2)] that(3,4) by (simp add: same_params_iff tile_key_def tile_key_at_def)
  qed
  have "keys_sorted ts" using assms(2) by (simp add: queue_ok_def)
  then have "sorted_wrt (\<lambda>t u. tile_key t < tile_key u) ts" by (simp only: sorted_wrt_map)
  then show ?thesis
    using pos
  proof (induction ts)
    case (Cons t ts)
    have "\<not> (td_tilePosX t = td_tilePosX u \<and> td_tilePosY t = td_tilePosY u)" if "u \<in> set ts" for u
    proof
      assume "td_tilePosX t = td_tilePosX u \<and> td_tilePosY t = td_tilePosY u"
      then have "tile_key t = tile_key u" using Cons.prems(2) that by auto
      moreover have "tile_key t < tile_key u" using Cons.prems(1) that by simp
      ultimately show False by simp
    qed
    with Cons show ?case by (auto simp: list_ex_iff assms(3))
  qed simp
qed

lemma pop_from_queue_ok:
  assumes "queue_ok q" "q \<noteq> []"
  shows "\<exists>c pr rest p ts. pop_from_queue prio q = Ok (c, pr, rest) \<and> pop_split q p ts rest \<and>
    pr = prio p \<and> (\<forall>t \<in> set q. prio t \<le> pr) \<and>
    tc_tiles c = (if length ts = 1 then ts else map drop_img ts)"
proof -
  obtain pr k where pk: "prioritized_tile prio q = (pr, k)" by (cases "prioritized_tile prio q")
  note m = prioritized_tile_max [OF pk assms(2)]
  then have k: "k < length q" by simp
  obtain ts rest where c: "collect_tiles q k = Ok (ts, rest)" and sp: "pop_split q (q ! k) ts rest"
    using collect_tiles_ok [OF assms(1) k] by blast
  show ?thesis
  proof (cases "length ts = 1")
    case True
    then obtain t where ts: "ts = [t]" by (cases ts) auto
    have "pop_from_queue prio q = Ok (tc_of_tile t, pr, rest)" using assms(2) pk c ts by (simp add: pop_from_queue_def)
    moreover have "tc_tiles (tc_of_tile t) = [t]" by (simp add: tc_of_tile_def tc_init_from_def tc_default_def)
    ultimately show ?thesis using sp m ts by (intro exI [of _ "tc_of_tile t"] exI) auto
  next
    case False
    have ne: "ts \<noteq> []" and comb: "combinable (q ! k) ts" and ok: "queue_ok ts"
      using sp False by (auto simp: pop_split_def)
    obtain cc where cc: "tc_create ts = Ok cc" using tc_create_uniform [OF pop_uniform [OF comb ok ne]] by blast
    have "map (\<lambda>t. t\<lparr>td_imgSize := 0, td_id := -1\<rparr>) ts = map drop_img ts"
    proof (rule map_cong [OF refl])
      fix t assume "t \<in> set ts"
      then have "td_id t = -1"
        using comb ok preview_id by (auto simp: combinable_def allow_combine_iff queue_ok_def)
      then show "t\<lparr>td_imgSize := 0, td_id := -1\<rparr> = drop_img t" by (simp add: drop_img_def)
    qed
    then have tt: "tc_tiles cc = map drop_img ts" using tc_create_tiles(1) [OF pop_uniform [OF comb ok ne] cc] by simp
    have "\<not> has_duplicates cc"
      using combinable_no_duplicates [OF comb ok, of drop_img] by (simp add: has_duplicates_def tt drop_img_def)
    then have "pop_from_queue prio q = Ok (cc, pr, rest)" using assms(2) pk c False cc by (simp add: pop_from_queue_def)
    then show ?thesis using sp m tt False by (intro exI [of _ cc] exI) auto
  qed
qed

end
