(* ===== verification/KitMessages.thy ===== *)
theory KitMessages
  imports KitQueues
begin

text \<open>
  The rest of src/kit/KitQueue.cpp: the message queue, where successive text input and text
  removal of a session are combined, and the callbacks, where an obsolete or covered one is
  elided.
\<close>

section \<open>Messages from the client\<close>

definition kq_pop :: "kit_queue \<Rightarrow> string \<times> kit_queue" where
  "kq_pop k = (case kq_queue k of [] \<Rightarrow> ([], k) | m # ms \<Rightarrow> (m, k\<lparr>kq_queue := ms\<rparr>))"

definition kq_is_empty :: "kit_queue \<Rightarrow> bool" where "kq_is_empty k \<longleftrightarrow> kq_queue k = []"
definition kq_size :: "kit_queue \<Rightarrow> nat" where "kq_size k = length (kq_queue k)"
definition kq_callback_size :: "kit_queue \<Rightarrow> nat" where "kq_callback_size k = length (kq_callbacks k)"

definition kq_clear :: "kit_queue \<Rightarrow> kit_queue" where
  "kq_clear k = k\<lparr>kq_queue := [], kq_callbacks := []\<rparr>"

text \<open>
  \<open>textItem\<close>: None when the message is neither, else whether it removes text. The
  comparison stops at the end of a message shorter than the word.
\<close>

definition text_item :: "string \<Rightarrow> string \<Rightarrow> bool option" where
  "text_item val firstToken =
    (let offset = length firstToken;
         remaining = length val - offset;
         same = (\<lambda>word n. substr val (offset + 1) (min (remaining - 1) n) = take (min (remaining - 1) n) word)
     in if length val < offset + 3 then None
        else if same ''textinput'' 9 then Some False
        else if same ''removetextcontext'' 17 then Some True
        else None)"

text \<open>
  The backward loops. The index is the number of messages still to be seen; the result is the
  combined message, empty for none, and the queue. A message in between that the loop must not
  jump over ends it.
\<close>

definition blocks_combining :: "string \<Rightarrow> string_vector \<Rightarrow> string_vector \<Rightarrow> bool" where
  "blocks_combining other tokens queuedTokens \<longleftrightarrow>
    sv_size queuedTokens = 1 \<or>
    sv_equals_token queuedTokens 0 tokens 0 \<and>
    (sv_equals queuedTokens 1 ''key'' \<or> sv_equals queuedTokens 1 ''mouse'' \<or>
     sv_equals queuedTokens 1 other \<or> sv_equals queuedTokens 1 ''windowkey'')"

fun combine_text_loop :: "string_vector \<Rightarrow> string \<Rightarrow> string \<Rightarrow> nat \<Rightarrow> string list \<Rightarrow> string \<times> string list" where
  "combine_text_loop tokens i t 0 q = ([], q)"
| "combine_text_loop tokens i t (Suc n) q =
    (let queued = tokenize_data (q ! n) (CHR '' '') in
     if blocks_combining ''removetextcontext'' tokens queued then ([], q)
     else
       let (hasId, queuedId) = get_token_string_in (sv_texts queued) ''id'' [];
           (hasText, queuedText) = get_token_string_in (sv_texts queued) ''text'' []
       in if sv_equals_token queued 0 tokens 0 \<and> sv_equals queued 1 ''textinput'' \<and> hasId \<and>
             queuedId = i \<and> hasText
          then (sv_nth queued 0 @ '' textinput id='' @ i @ '' text='' @ queuedText @ t, erase_at n q)
          else combine_text_loop tokens i t n q)"

definition combine_text_input :: "string_vector \<Rightarrow> string list \<Rightarrow> string \<times> string list" where
  "combine_text_input tokens q =
    (let (hasId, i) = get_token_string_in (sv_texts tokens) ''id'' [];
         (hasText, t) = get_token_string_in (sv_texts tokens) ''text'' []
     in if \<not> hasId \<or> \<not> hasText then ([], q)
        else combine_text_loop tokens i t (length q) q)"

text \<open>
  \<open>getTokenStringFromMessage\<close> returns for the names used here (\<open>token_string_loop_stops\<close>),
  so None is never its result.
\<close>

definition string_from_message :: "string \<Rightarrow> string \<Rightarrow> bool \<times> string" where
  "string_from_message message name =
    (case get_token_string_from_message message name [] of Some r \<Rightarrow> r | None \<Rightarrow> (False, []))"

fun combine_remove_loop ::
    "string_vector \<Rightarrow> string \<Rightarrow> int \<Rightarrow> int \<Rightarrow> nat \<Rightarrow> string list \<Rightarrow> string \<times> string list" where
  "combine_remove_loop tokens i before after 0 q = ([], q)"
| "combine_remove_loop tokens i before after (Suc n) q =
    (let queued = tokenize_data (q ! n) (CHR '' '') in
     if blocks_combining ''textinput'' tokens queued then ([], q)
     else
       let (hasId, queuedId) = string_from_message (q ! n) ''id'';
           (hasBefore, queuedBefore) = get_token_integer_from_message (q ! n) ''before'' 0;
           (hasAfter, queuedAfter) = get_token_integer_from_message (q ! n) ''after'' 0
       in if sv_equals_token queued 0 tokens 0 \<and> sv_equals queued 1 ''removetextcontext'' \<and> hasId \<and>
             queuedId = i \<and> hasBefore \<and> hasAfter
          then (sv_nth queued 0 @ '' removetextcontext id='' @ i @
                  '' before='' @ show_int (s32 (queuedBefore + before)) @
                  '' after='' @ show_int (s32 (queuedAfter + after)), erase_at n q)
          else combine_remove_loop tokens i before after n q)"

definition combine_remove_text :: "string_vector \<Rightarrow> string list \<Rightarrow> string \<times> string list" where
  "combine_remove_text tokens q =
    (let (hasId, i) = get_token_string_in (sv_texts tokens) ''id'' [];
         (hasBefore, before) = get_token_integer_in (sv_texts tokens) ''before'' 0;
         (hasAfter, after) = get_token_integer_in (sv_texts tokens) ''after'' 0
     in if \<not> hasId \<or> \<not> hasBefore \<or> \<not> hasAfter then ([], q)
        else combine_remove_loop tokens i before after (length q) q)"

definition put :: "string \<Rightarrow> kit_queue \<Rightarrow> kit_queue res" where
  "put val k =
    (if val = [] then Err (RuntimeError ''Cannot queue empty item.'')
     else
       let firstToken = get_first_token val (CHR '' '') in
       if firstToken = ''tilecombine'' then push_tile_combine_request val k
       else if firstToken = ''tile'' then push_tile_queue val k
       else if firstToken = ''callback'' then Err AssertionFailed
       else case text_item val firstToken of
         Some removeText \<Rightarrow>
           let tokens = tokenize_data val (CHR '' '');
               (newMsg, q) = (if \<not> removeText then combine_text_input tokens (kq_queue k)
                              else combine_remove_text tokens (kq_queue k))
           in Ok (k\<lparr>kq_queue := q @ [if newMsg \<noteq> [] then newMsg else val]\<rparr>)
       | None \<Rightarrow> Ok (k\<lparr>kq_queue := kq_queue k @ [val]\<rparr>))"

section \<open>Callbacks\<close>

definition get_callback :: "kit_queue \<Rightarrow> callback option \<times> kit_queue" where
  "get_callback k =
    (case kq_callbacks k of [] \<Rightarrow> (None, k) | c # cs \<Rightarrow> (Some c, k\<lparr>kq_callbacks := cs\<rparr>))"

definition extract_uno_command :: "string \<Rightarrow> string" where
  "extract_uno_command command =
    (if \<not> match_prefix ''.uno:'' command then []
     else case find_char (CHR ''='') command of Some k \<Rightarrow> take k command | None \<Rightarrow> command)"

text \<open>\<open>extractRectangle\<close>: position, size, part and mode\<close>

record inval =
  iv_x :: int
  iv_y :: int
  iv_w :: int
  iv_h :: int
  iv_part :: int
  iv_mode :: int

definition extract_rectangle :: "string_vector \<Rightarrow> inval option" where
  "extract_rectangle tokens =
    (if sv_size tokens < 2 then None
     else if sv_equals tokens 0 ''EMPTY,'' then
       Some \<lparr>iv_x = 0, iv_y = 0, iv_w = INT_MAX, iv_h = INT_MAX, iv_part = atoi (sv_nth tokens 1), iv_mode = 0\<rparr>
     else if sv_size tokens < 5 then None
     else Some \<lparr>iv_x = atoi (sv_nth tokens 0), iv_y = atoi (sv_nth tokens 1), iv_w = atoi (sv_nth tokens 2),
       iv_h = atoi (sv_nth tokens 3), iv_part = atoi (sv_nth tokens 4),
       iv_mode = (if sv_size tokens = 6 then atoi (sv_nth tokens 5) else 0)\<rparr>)"

definition inval_covers :: "inval \<Rightarrow> inval \<Rightarrow> bool" where
  "inval_covers m o' \<longleftrightarrow>
    iv_x m \<le> iv_x o' \<and> s32 (iv_x o' + iv_w o') \<le> s32 (iv_x m + iv_w m) \<and>
    iv_y m \<le> iv_y o' \<and> s32 (iv_y o' + iv_h o') \<le> s32 (iv_y m + iv_h m)"

definition inval_join :: "inval \<Rightarrow> inval \<Rightarrow> inval" where
  "inval_join m o' =
    (let x = min (iv_x m) (iv_x o'); y = min (iv_y m) (iv_y o')
     in m\<lparr>iv_x := x, iv_y := y,
          iv_w := s32 (max (s32 (iv_x m + iv_w m)) (s32 (iv_x o' + iv_w o')) - x),
          iv_h := s32 (max (s32 (iv_y m + iv_h m)) (s32 (iv_y o' + iv_h o')) - y)\<rparr>)"

definition reasonable_size_x :: int where "reasonable_size_x = 4 * 3840"
definition reasonable_size_y :: int where "reasonable_size_y = 2 * 3840"

text \<open>The loop over the queued invalidations: the rectangle, whether it grew, and the callbacks\<close>

function merge_inval_loop ::
    "int \<Rightarrow> nat \<Rightarrow> inval \<Rightarrow> bool \<Rightarrow> callback list \<Rightarrow> inval \<times> bool \<times> callback list" where
  "merge_inval_loop view i m merged cbs =
    (if i < length cbs then
       let it = cbs ! i in
       if cb_type it \<noteq> InvalidateTiles \<or> cb_view it \<noteq> view
       then merge_inval_loop view (Suc i) m merged cbs
       else case extract_rectangle (tokenize (cb_payload it) (CHR '' '')) of
         None \<Rightarrow> merge_inval_loop view (Suc i) m merged cbs
       | Some o' \<Rightarrow>
           if iv_part m \<noteq> iv_part o' then merge_inval_loop view (Suc i) m merged cbs
           else if iv_mode m \<noteq> iv_mode o' then merge_inval_loop view (Suc i) m merged cbs
           else if inval_covers m o' then merge_inval_loop view i m merged (erase_at i cbs)
           else if rectangles_intersect (iv_x m) (iv_y m) (iv_w m) (iv_h m) (iv_x o') (iv_y o') (iv_w o') (iv_h o')
           then let j = inval_join m o' in
             if iv_w j > reasonable_size_x \<or> iv_h j > reasonable_size_y
             then merge_inval_loop view (Suc i) m merged cbs
             else merge_inval_loop view i j True (erase_at i cbs)
           else merge_inval_loop view (Suc i) m merged cbs
     else (m, merged, cbs))"
  by pat_completeness auto
termination
  by (relation "measure (\<lambda>(v, i, m, b, cbs). length cbs - i)") auto

declare merge_inval_loop.simps [simp del]

definition inval_payload :: "inval \<Rightarrow> string_vector \<Rightarrow> string" where
  "inval_payload m tokens =
    show_int (iv_x m) @ '', '' @ show_int (iv_y m) @ '', '' @ show_int (iv_w m) @ '', '' @
    show_int (iv_h m) @ '', '' @ sv_cat '' '' 4 None tokens"

text \<open>The loop over the states of a command; the comparison is of the command with all of the
  queued payload.\<close>

definition obsolete_state :: "int \<Rightarrow> string \<Rightarrow> callback \<Rightarrow> bool" where
  "obsolete_state view unoCommand it \<longleftrightarrow>
    \<not> (cb_type it \<noteq> StateChanged \<or> cb_view it \<noteq> view) \<and>
    \<not> (length (cb_payload it) < length unoCommand + 1 \<or> unoCommand \<noteq> cb_payload it \<or>
       cb_payload it ! length unoCommand \<noteq> CHR ''='')"

definition is_view_callback :: "callback_type \<Rightarrow> bool" where
  "is_view_callback t \<longleftrightarrow> t = InvalidateViewCursor \<or> t = CellViewCursor \<or> t = ViewCursorVisible"

definition is_latest_only :: "callback_type \<Rightarrow> bool" where
  "is_latest_only t \<longleftrightarrow>
    t = InvalidateVisibleCursor \<or> t = CursorVisible \<or> t = StatusIndicatorSetValue \<or>
    t = DocumentSizeChanged \<or> t = CellCursor \<or> is_view_callback t"

text \<open>The loop that removes the obsolete callback; reading the view of a payload may throw.\<close>

fun remove_obsolete ::
    "(string \<Rightarrow> string res) \<Rightarrow> int \<Rightarrow> callback_type \<Rightarrow> string \<Rightarrow> callback list \<Rightarrow> callback list res" where
  "remove_obsolete json_view view t viewId [] = Ok []"
| "remove_obsolete json_view view t viewId (it # cbs) =
    (if cb_type it \<noteq> t \<or> cb_view it \<noteq> view
     then res_bind (remove_obsolete json_view view t viewId cbs) (\<lambda>r. Ok (it # r))
     else if \<not> is_view_callback t then Ok cbs
     else res_bind (json_view (cb_payload it)) (\<lambda>queuedViewId.
       if viewId = queuedViewId then Ok cbs
       else res_bind (remove_obsolete json_view view t viewId cbs) (\<lambda>r. Ok (it # r))))"

definition elide_duplicate_callback ::
    "(string \<Rightarrow> string res) \<Rightarrow> int \<Rightarrow> callback_type \<Rightarrow> string \<Rightarrow> callback list \<Rightarrow> (bool \<times> callback list) res" where
  "elide_duplicate_callback json_view view t payload cbs =
    (if cbs = [] then Ok (False, cbs)
     else if t = InvalidateTiles then
       (let tokens = tokenize payload (CHR '' '') in
        case extract_rectangle tokens of
          None \<Rightarrow> Ok (False, cbs)
        | Some m \<Rightarrow>
            (case merge_inval_loop view 0 m False cbs of (m', merged, cbs') \<Rightarrow>
               if merged
               then Ok (True, cbs' @ [\<lparr>cb_view = view, cb_type = t, cb_payload = inval_payload m' tokens\<rparr>])
               else Ok (False, cbs')))
     else if t = StateChanged then
       (let unoCommand = extract_uno_command payload in
        if unoCommand = [] then Ok (False, cbs)
        else if unoCommand = ''.uno:ModifiedStatus'' then Ok (False, cbs)
        else Ok (False, erase_first (obsolete_state view unoCommand) cbs))
     else if is_latest_only t then
       res_bind (if is_view_callback t then json_view payload else Ok []) (\<lambda>viewId.
         res_bind (remove_obsolete json_view view t viewId cbs) (\<lambda>cbs'. Ok (False, cbs')))
     else Ok (False, cbs))"

definition put_callback ::
    "(string \<Rightarrow> string res) \<Rightarrow> int \<Rightarrow> callback_type \<Rightarrow> string \<Rightarrow> kit_queue \<Rightarrow> kit_queue res" where
  "put_callback json_view view t payload k =
    res_bind (elide_duplicate_callback json_view view t payload (kq_callbacks k)) (\<lambda>(elided, cbs).
      Ok (k\<lparr>kq_callbacks := (if elided then cbs
              else cbs @ [\<lparr>cb_view = view, cb_type = t, cb_payload = payload\<rparr>])\<rparr>))"

end
