(* ===== verification/KitProps.thy ===== *)
theory KitProps
  imports TilePops KitMessages
begin

text \<open>
  The kit queue as a whole: the invariant of its tile queues, what \<open>put\<close> and the pops do to
  it, and the rendering loop of \<open>Document::drainQueue\<close> (src/kit/Kit.cpp).
\<close>

section \<open>The invariant\<close>

definition view_queue_ok :: "int \<times> tile_desc list \<Rightarrow> bool" where
  "view_queue_ok vq \<longleftrightarrow> queue_ok (snd vq) \<and> (\<forall>t \<in> set (snd vq). td_canonicalViewId t = fst vq)"

definition kq_wf :: "kit_queue \<Rightarrow> bool" where
  "kq_wf k \<longleftrightarrow> distinct (map fst (kq_tileQueues k)) \<and> (\<forall>vq \<in> set (kq_tileQueues k). view_queue_ok vq)"

text \<open>All tiles queued, and their number\<close>

definition all_tiles :: "kit_queue \<Rightarrow> tile_desc multiset" where
  "all_tiles k = sum_list (map (\<lambda>vq. mset (snd vq)) (kq_tileQueues k))"

lemma get_tile_queue_size_tiles: "get_tile_queue_size k = size (all_tiles k)"
proof -
  have "foldl (\<lambda>n q. n + length (snd q)) n qs = n + size (sum_list (map (\<lambda>vq. mset (snd vq)) qs))"
    for n and qs :: "(int \<times> tile_desc list) list"
    by (induction qs arbitrary: n) simp_all
  then show ?thesis by (simp add: get_tile_queue_size_def all_tiles_def)
qed

lemma is_tile_queue_empty_tiles: "is_tile_queue_empty k \<longleftrightarrow> all_tiles k = {#}"
proof -
  have "list_all (\<lambda>q. snd q = []) qs \<longleftrightarrow> sum_list (map (\<lambda>vq. mset (snd vq)) qs) = {#}"
    for qs :: "(int \<times> tile_desc list) list"
    by (induction qs) auto
  then show ?thesis by (simp add: is_tile_queue_empty_def all_tiles_def)
qed

lemma kq_wf_empty: "kq_wf kq_empty"
  by (simp add: kq_wf_def kq_empty_def)

lemma ensure_tile_queue_map_of:
  "ensure_tile_queue v qs = (case map_of qs v of None \<Rightarrow> [] | Some q \<Rightarrow> q)"
  by (induction v qs rule: ensure_tile_queue.induct) auto

lemma update_tile_queue_fst:
  "map fst (update_tile_queue v f qs) = (if v \<in> set (map fst qs) then map fst qs else map fst qs @ [v])"
  by (induction qs) (auto simp del: set_map simp: image_iff)

lemma ensure_update:
  "ensure_tile_queue w (update_tile_queue v f qs) =
    (if w = v then f (ensure_tile_queue v qs) else ensure_tile_queue w qs)"
  by (induction qs) auto

lemma update_tile_queue_ok:
  assumes "\<forall>vq \<in> set qs. view_queue_ok vq" "\<And>q. view_queue_ok (v, q) \<Longrightarrow> view_queue_ok (v, f q)"
  shows "\<forall>vq \<in> set (update_tile_queue v f qs). view_queue_ok vq"
proof -
  have "view_queue_ok (v, [])" by (simp add: view_queue_ok_def queue_ok_def)
  then have "view_queue_ok (v, f [])" by (rule assms(2))
  with assms(1) show ?thesis by (induction qs) (auto simp: assms(2) split: if_splits)
qed

lemma kq_wf_update:
  assumes "kq_wf k" "\<And>q. view_queue_ok (v, q) \<Longrightarrow> view_queue_ok (v, f q)"
  shows "kq_wf (k\<lparr>kq_tileQueues := update_tile_queue v f (kq_tileQueues k)\<rparr>)"
  using assms update_tile_queue_ok [of "kq_tileQueues k" v f]
  by (auto simp: kq_wf_def update_tile_queue_fst)

lemma foldl_view_ok:
  assumes "view_queue_ok (v, q)" "\<forall>t \<in> set ts. queue_tile t \<and> td_canonicalViewId t = v"
  shows "view_queue_ok (v, foldl sorted_insert q ts)"
proof -
  have "keys_sorted q" using assms(1) by (simp add: view_queue_ok_def queue_ok_def)
  note m = tiles.foldl_ins_members [OF this, of ts]
  then show ?thesis
    using assms queue_ok_foldl [of q ts] by (auto simp: view_queue_ok_def)
qed

section \<open>What the parser lets in\<close>

text \<open>A combined header read from a message holds only tiles of its own view, with no id.\<close>

definition own_tiles :: "tile_combined \<Rightarrow> bool" where
  "own_tiles c \<longleftrightarrow> (\<forall>t \<in> set (tc_tiles c). tile_valid t \<and> td_id t = -1 \<and> td_canonicalViewId t = tc_canonicalViewId c)"

lemma combined_step_own:
  assumes "combined_step xs ys imgs vers oldws ws i c = Ok c'" "own_tiles c"
  shows "own_tiles c'"
proof -
  obtain x okx where r1: "string_to_integer (sv_nth xs i) = (x, okx)" by (rule prod.exhaust)
  obtain y oky where r2: "string_to_integer (sv_nth ys i) = (y, oky)" by (rule prod.exhaust)
  obtain img oki where r3: "(if sv_empty imgs then (0, True) else string_to_integer (sv_nth imgs i)) = (img, oki)" by (rule prod.exhaust)
  obtain vr okv where r4: "(if \<not> sv_empty vers \<and> sv_nth vers i \<noteq> [] then string_to_integer (sv_nth vers i) else (-1, True)) = (vr, okv)" by (rule prod.exhaust)
  obtain oldw oko where r5: "(if sv_empty oldws then (0, True) else string_to_uint32 (sv_nth oldws i)) = (oldw, oko)" by (rule prod.exhaust)
  obtain w okw where r6: "(if sv_empty ws then (0, True) else string_to_uint32 (sv_nth ws i)) = (w, okw)" by (rule prod.exhaust)
  note r = r1 r2 r3 r4 r5 r6
  have "okx \<and> oky \<and> oki \<and> okv \<and> oko \<and> okw \<and>
      (\<exists>t. mk_tile_desc (tc_canonicalViewId c) (tc_part c) (tc_mode c) (tc_width c) (tc_height c) x y
          (tc_tileWidth c) (tc_tileHeight c) vr img (-1) = Ok t \<and>
        tc_canonicalViewId c' = tc_canonicalViewId c \<and>
        tc_tiles c' = tc_tiles c @ [t\<lparr>td_oldWireId := oldw, td_wireId := w\<rparr>])"
    using assms(1) unfolding combined_step_def r prod.case
    by (simp split: if_split_asm) (auto simp: res_bind_Ok Let_def)
  then obtain t where t: "mk_tile_desc (tc_canonicalViewId c) (tc_part c) (tc_mode c) (tc_width c) (tc_height c) x y
          (tc_tileWidth c) (tc_tileHeight c) vr img (-1) = Ok t"
    and c': "tc_canonicalViewId c' = tc_canonicalViewId c" "tc_tiles c' = tc_tiles c @ [t\<lparr>td_oldWireId := oldw, td_wireId := w\<rparr>]"
    by blast
  have "tile_valid t" by (rule mk_tile_desc_valid [OF t])
  moreover have "td_id t = -1" "td_canonicalViewId t = tc_canonicalViewId c"
    using t by (auto simp: mk_tile_desc_def split: if_splits)
  ultimately show ?thesis using assms(2) by (auto simp: own_tiles_def c' tile_valid_def)
qed

lemma mk_tile_combined_own:
  assumes "mk_tile_combined view prt md w h posXs posYs tw th verss imgss oldwss wss = Ok c"
  shows "own_tiles c"
proof -
  obtain f n c0 where f: "res_fold f [0..<n] c0 = Ok c" "own_tiles c0" "\<And>i c c'. f i c = Ok c' \<Longrightarrow> own_tiles c \<Longrightarrow> own_tiles c'"
  proof
    show "res_fold (combined_step (tokenize posXs (CHR '','')) (tokenize posYs (CHR '','')) (tokenize imgss (CHR '',''))
        (tokenize verss (CHR '','')) (tokenize oldwss (CHR '','')) (tokenize wss (CHR '',''))) [0..<sv_size (tokenize posXs (CHR '',''))]
        (tc_default\<lparr>tc_canonicalViewId := view, tc_part := prt, tc_mode := md, tc_width := w,
               tc_height := h, tc_tileWidth := tw, tc_tileHeight := th, tc_isCombined := True\<rparr>) = Ok c"
      using assms unfolding mk_tile_combined_def Let_def by (simp split: if_split_asm)
  qed (simp add: own_tiles_def tc_default_def, rule combined_step_own)
  show ?thesis by (rule res_fold_invariant [OF f(1), of own_tiles]) (use f(2,3) in blast)+
qed

lemma parse_combined_own: "parse_combined m = Ok c \<Longrightarrow> own_tiles c"
  unfolding parse_combined_def parse_combined_tokens_def Let_def by (rule mk_tile_combined_own)

text \<open>
  The messages whose tiles the queue can order and combine: no id below -1, and no column at
  the last \<open>int\<close> (see \<open>pop_out_of_bounds\<close>).
\<close>

definition tiles_accepted :: "string \<Rightarrow> bool" where
  "tiles_accepted m \<longleftrightarrow>
    (get_first_token m (CHR '' '') = ''tile'' \<longrightarrow> (\<forall>t. parse_tile m = Ok t \<longrightarrow> queue_tile t)) \<and>
    (get_first_token m (CHR '' '') = ''tilecombine'' \<longrightarrow>
      (\<forall>c. parse_combined m = Ok c \<longrightarrow> (\<forall>t \<in> set (tc_tiles c). queue_tile t)))"

lemma put_cases:
  assumes "put m k = Ok k'"
  shows "(get_first_token m (CHR '' '') = ''tilecombine'' \<and> push_tile_combine_request m k = Ok k') \<or>
    (get_first_token m (CHR '' '') = ''tile'' \<and> push_tile_queue m k = Ok k') \<or>
    (get_first_token m (CHR '' '') \<notin> {''tilecombine'', ''tile'', ''callback''} \<and> (\<exists>q. k' = k\<lparr>kq_queue := q\<rparr>))"
  using assms
  by (auto simp: put_def Let_def split: if_splits option.splits prod.splits)

lemma put_wf:
  assumes "put m k = Ok k'" "kq_wf k" "tiles_accepted m"
  shows "kq_wf k'"
  using put_cases [OF assms(1)]
proof (elim disjE conjE exE)
  assume first: "get_first_token m (CHR '' '') = ''tilecombine''" and "push_tile_combine_request m k = Ok k'"
  then obtain c where c: "parse_combined m = Ok c"
    and k': "k' = k\<lparr>kq_tileQueues := update_tile_queue (tc_canonicalViewId c) (\<lambda>q. foldl sorted_insert q (tc_tiles c)) (kq_tileQueues k)\<rparr>"
    by (auto simp: push_tile_combine_request_def res_bind_Ok split: if_splits)
  have "\<forall>t \<in> set (tc_tiles c). queue_tile t \<and> td_canonicalViewId t = tc_canonicalViewId c"
    using parse_combined_own [OF c] assms(3) c first by (simp add: tiles_accepted_def own_tiles_def)
  then show ?thesis unfolding k' by (intro kq_wf_update [OF assms(2)] foldl_view_ok)
next
  assume first: "get_first_token m (CHR '' '') = ''tile''" and "push_tile_queue m k = Ok k'"
  then obtain t where t: "parse_tile m = Ok t"
    and k': "k' = k\<lparr>kq_tileQueues := update_tile_queue (td_canonicalViewId t) (\<lambda>q. sorted_insert q t) (kq_tileQueues k)\<rparr>"
    by (auto simp: push_tile_queue_def res_bind_Ok)
  have "queue_tile t" using assms(3) t first by (simp add: tiles_accepted_def)
  then show ?thesis unfolding k' using foldl_view_ok [of _ _ "[t]"] by (intro kq_wf_update [OF assms(2)]) simp
next
  fix q assume "k' = k\<lparr>kq_queue := q\<rparr>"
  then show ?thesis using assms(2) by (simp add: kq_wf_def)
qed

section \<open>Popping\<close>

lemma choose_tile_queue_Some:
  "choose_tile_queue views qs = Some i \<Longrightarrow> i < length qs \<and> snd (qs ! i) \<noteq> []"
  by (induction views) (auto dest!: find_index_Some split: option.splits)

lemma choose_tile_queue_None: "choose_tile_queue views qs = None \<Longrightarrow> list_all (\<lambda>q. snd q = []) qs"
  by (induction views) (auto simp: find_index_None list_all_iff split: option.splits)

text \<open>The least inactive view with tiles is served first.\<close>

lemma choose_tile_queue_first:
  assumes "choose_tile_queue (us @ v # vs) qs = Some i" "\<forall>u \<in> set us. \<forall>q \<in> set qs. fst q = u \<longrightarrow> snd q = []"
    and "\<exists>q \<in> set qs. fst q = v \<and> snd q \<noteq> []"
  shows "fst (qs ! i) = v"
  using assms
proof (induction us)
  case Nil
  then obtain j where j: "find_index (\<lambda>q. v = fst q \<and> snd q \<noteq> []) qs = Some j"
    using find_index_None [of "\<lambda>q. v = fst q \<and> snd q \<noteq> []" qs] by (cases "find_index (\<lambda>q. v = fst q \<and> snd q \<noteq> []) qs") auto
  then show ?case using Nil.prems(1) find_index_Some [OF j] by simp
next
  case (Cons u us)
  have "find_index (\<lambda>q. u = fst q \<and> snd q \<noteq> []) qs = None"
    using Cons.prems(2) by (auto simp: find_index_None)
  then show ?case using Cons by simp
qed

definition popped :: "tile_desc list \<Rightarrow> tile_desc list" where
  "popped ts = (if length ts = 1 then ts else map drop_img ts)"

lemma all_tiles_update:
  assumes "i < length (kq_tileQueues k)" "mset ts + mset rest = mset (snd (kq_tileQueues k ! i))"
  shows "all_tiles k = mset ts + all_tiles (k\<lparr>kq_tileQueues := (kq_tileQueues k)[i := (v, rest)]\<rparr>)"
proof -
  let ?qs = "kq_tileQueues k"
  have "?qs = take i ?qs @ ?qs ! i # drop (Suc i) ?qs" by (rule id_take_nth_drop [OF assms(1)])
  then have "all_tiles k = sum_list (map (\<lambda>vq. mset (snd vq)) (take i ?qs @ ?qs ! i # drop (Suc i) ?qs))"
    unfolding all_tiles_def by (rule arg_cong)
  moreover have "?qs[i := (v, rest)] = take i ?qs @ (v, rest) # drop (Suc i) ?qs" by (rule upd_conv_take_nth_drop [OF assms(1)])
  ultimately show ?thesis using assms(2) by (simp add: all_tiles_def ac_simps)
qed

lemma pop_tile_queue_ok:
  assumes "kq_wf k" "\<not> is_tile_queue_empty k"
  shows "\<exists>c pr k' i p ts rest. pop_tile_queue prio views k = Ok (c, pr, k') \<and> kq_wf k' \<and>
    choose_tile_queue views (kq_tileQueues k) = Some i \<and> i < length (kq_tileQueues k) \<and>
    k' = k\<lparr>kq_tileQueues := (kq_tileQueues k)[i := (fst (kq_tileQueues k ! i), rest)]\<rparr> \<and>
    pop_split (snd (kq_tileQueues k ! i)) p ts rest \<and> tc_tiles c = popped ts \<and> pr = prio p \<and>
    (\<forall>t \<in> set (snd (kq_tileQueues k ! i)). prio t \<le> pr)"
proof -
  obtain i where i: "choose_tile_queue views (kq_tileQueues k) = Some i"
    using choose_tile_queue_None [of views "kq_tileQueues k"] assms(2) by (cases "choose_tile_queue views (kq_tileQueues k)") (auto simp: is_tile_queue_empty_def)
  then have il: "i < length (kq_tileQueues k)" and ne: "snd (kq_tileQueues k ! i) \<noteq> []" using choose_tile_queue_Some by auto
  have vo: "view_queue_ok (kq_tileQueues k ! i)" using assms(1) il by (simp add: kq_wf_def)
  then have qo: "queue_ok (snd (kq_tileQueues k ! i))" by (simp add: view_queue_ok_def)
  obtain c pr rest p ts where pop: "pop_from_queue prio (snd (kq_tileQueues k ! i)) = Ok (c, pr, rest)"
    and sp: "pop_split (snd (kq_tileQueues k ! i)) p ts rest" and pr: "pr = prio p"
    and mx: "\<forall>t \<in> set (snd (kq_tileQueues k ! i)). prio t \<le> pr" and tt: "tc_tiles c = popped ts"
    using pop_from_queue_ok [OF qo ne, of prio] by (auto simp: popped_def)
  let ?k = "k\<lparr>kq_tileQueues := (kq_tileQueues k)[i := (fst (kq_tileQueues k ! i), rest)]\<rparr>"
  have sub: "set rest \<subseteq> set (snd (kq_tileQueues k ! i))"
    using sp unfolding pop_split_def by (metis set_mset_mset set_mset_union sup_ge2)
  then have "view_queue_ok (fst (kq_tileQueues k ! i), rest)"
    using sp vo by (auto simp: view_queue_ok_def pop_split_def)
  then have "kq_wf ?k"
    using assms(1) set_update_subset_insert [of "kq_tileQueues k" i] il
    by (auto simp: kq_wf_def map_update) (metis list_update_id map_update)
  moreover have "pop_tile_queue prio views k = Ok (c, pr, ?k)"
    using assms(2) i pop by (simp add: pop_tile_queue_def)
  ultimately show ?thesis using i il sp tt pr mx by blast
qed

lemma pop_tile_queue_partition:
  assumes "kq_wf k" "\<not> is_tile_queue_empty k"
  shows "\<exists>c pr k' ts. pop_tile_queue prio views k = Ok (c, pr, k') \<and> kq_wf k' \<and> ts \<noteq> [] \<and>
    tc_tiles c = popped ts \<and> all_tiles k = mset ts + all_tiles k'"
proof -
  obtain c pr k' i p ts rest where *: "pop_tile_queue prio views k = Ok (c, pr, k')" "kq_wf k'"
    "i < length (kq_tileQueues k)" "k' = k\<lparr>kq_tileQueues := (kq_tileQueues k)[i := (fst (kq_tileQueues k ! i), rest)]\<rparr>"
    "pop_split (snd (kq_tileQueues k ! i)) p ts rest" "tc_tiles c = popped ts"
    using pop_tile_queue_ok [OF assms] by blast
  have "ts \<noteq> []" "mset ts + mset rest = mset (snd (kq_tileQueues k ! i))" using *(5) by (auto simp: pop_split_def)
  then have "all_tiles k = mset ts + all_tiles k'" unfolding *(4) by (intro all_tiles_update *(3))
  with * \<open>ts \<noteq> []\<close> show ?thesis by blast
qed

section \<open>The rendering loop\<close>

lemma drain_tiles_ok:
  assumes "kq_wf k"
  shows "\<exists>cs k' tss. drain_tiles prio views pr k = Some (Ok (cs, k')) \<and> kq_wf k' \<and>
    map tc_tiles cs = map popped tss \<and> all_tiles k = sum_list (map mset tss) + all_tiles k' \<and>
    (pr \<ge> VeryHigh \<and> \<not> is_tile_queue_empty k \<longrightarrow> cs \<noteq> [])"
  using assms
proof (induction "size (all_tiles k)" arbitrary: k pr rule: less_induct)
  case less
  show ?case
  proof (cases "\<not> is_tile_queue_empty k \<and> pr \<ge> VeryHigh")
    case False
    then have "drain_tiles prio views pr k = Some (Ok ([], k))" by (subst drain_tiles.simps) auto
    then show ?thesis using less.prems False by (intro exI [of _ "[]"] exI [of _ k]) auto
  next
    case True
    obtain c pr' k1 ts where pop: "pop_tile_queue prio views k = Ok (c, pr', k1)" "kq_wf k1" "ts \<noteq> []"
      "tc_tiles c = popped ts" "all_tiles k = mset ts + all_tiles k1"
      using pop_tile_queue_partition [OF less.prems] True by blast
    then have "size (all_tiles k1) < size (all_tiles k)" by simp
    then obtain cs k' tss where ih: "drain_tiles prio views pr' k1 = Some (Ok (cs, k'))" "kq_wf k'"
      "map tc_tiles cs = map popped tss" "all_tiles k1 = sum_list (map mset tss) + all_tiles k'"
      using less.hyps pop(2) by blast
    have "drain_tiles prio views pr k = Some (Ok (c # cs, k'))"
      using True pop(1) ih(1) by (subst drain_tiles.simps) simp
    moreover have "map tc_tiles (c # cs) = map popped (ts # tss)" using pop(4) ih(3) by simp
    moreover have "all_tiles k = sum_list (map mset (ts # tss)) + all_tiles k'" using pop(5) ih(4) by (simp add: ac_simps)
    ultimately show ?thesis using ih(2) by (metis list.distinct(1))
  qed
qed

end
