(* ===== verification/Callbacks.thy ===== *)
theory Callbacks
  imports KitProps
begin

text \<open>
  The callbacks waiting to be sent, and text input. A queued invalidation may be dropped or
  merged, but what it invalidates stays invalidated by what is queued; of the callbacks where
  only the latest counts there is at most one for each kind and view; and the text of
  successive inputs of a session is joined in order.
\<close>

section \<open>Only the latest counts\<close>

text \<open>What makes two callbacks of these kinds the same, with the view of the payload for those
  about another view.\<close>

definition cb_key :: "(string \<Rightarrow> string res) \<Rightarrow> callback \<Rightarrow> callback_type \<times> int \<times> string res" where
  "cb_key json_view c =
    (cb_type c, cb_view c, if is_view_callback (cb_type c) then json_view (cb_payload c) else Ok [])"

definition latest_ok :: "(string \<Rightarrow> string res) \<Rightarrow> callback list \<Rightarrow> bool" where
  "latest_ok json_view cbs \<longleftrightarrow> distinct (map (cb_key json_view) (filter (\<lambda>c. is_latest_only (cb_type c)) cbs))"

lemma remove_obsolete_Ok:
  assumes "remove_obsolete json_view view t viewId cbs = Ok cbs'" "is_latest_only t"
    "\<not> is_view_callback t \<Longrightarrow> viewId = []" "latest_ok json_view cbs"
  shows "latest_ok json_view cbs' \<and> set cbs' \<subseteq> set cbs \<and>
    (\<forall>c \<in> set cbs'. cb_key json_view c \<noteq> (t, view, Ok viewId)) \<and>
    (\<forall>c \<in> set cbs. cb_key json_view c \<noteq> (t, view, Ok viewId) \<longrightarrow> c \<in> set cbs')"
  using assms(1,4)
proof (induction cbs arbitrary: cbs')
  case Nil
  then show ?case by simp
next
  case (Cons it cbs)
  have rest: "latest_ok json_view cbs" using Cons.prems(2) by (auto simp: latest_ok_def split: if_splits)
  show ?case
  proof (cases "cb_key json_view it = (t, view, Ok viewId)")
    case True
    then have e: "cbs' = cbs" using Cons.prems(1) by (auto simp: cb_key_def split: if_splits)
    have "cb_key json_view c \<noteq> (t, view, Ok viewId)" if "c \<in> set cbs" for c
    proof
      assume c: "cb_key json_view c = (t, view, Ok viewId)"
      then have "cb_type c = t" "cb_type it = t" using True by (auto simp: cb_key_def)
      then have "cb_key json_view it \<in> cb_key json_view ` set (filter (\<lambda>c. is_latest_only (cb_type c)) cbs)"
        using assms(2) c True that by (intro image_eqI [where x = c]) auto
      then show False using Cons.prems(2) \<open>cb_type it = t\<close> assms(2) by (auto simp: latest_ok_def)
    qed
    then show ?thesis using rest e True by auto
  next
    case False
    then obtain r where r: "remove_obsolete json_view view t viewId cbs = Ok r" "cbs' = it # r"
      using Cons.prems(1) assms(3) by (auto simp: cb_key_def res_bind_Ok split: if_splits)
    note ih = Cons.IH [OF r(1) rest]
    have "latest_ok json_view (it # r)"
      using ih Cons.prems(2) by (auto simp: latest_ok_def split: if_splits)
    then show ?thesis using ih False r(2) by auto
  qed
qed

lemma latest_ok_snoc_other: "latest_ok json_view cbs \<Longrightarrow> \<not> is_latest_only (cb_type c) \<Longrightarrow> latest_ok json_view (cbs @ [c])"
  by (simp add: latest_ok_def)

lemma latest_ok_snoc:
  "latest_ok json_view cbs \<Longrightarrow> \<forall>c' \<in> set cbs. cb_key json_view c' \<noteq> cb_key json_view c \<Longrightarrow> latest_ok json_view (cbs @ [c])"
  by (auto simp: latest_ok_def)

lemma latest_ok_sub:
  "latest_ok json_view cbs \<Longrightarrow> latest_ok json_view (erase_at i cbs)"
proof -
  assume a: "latest_ok json_view cbs"
  show ?thesis
  proof (cases "i < length cbs")
    case True
    then have "latest_ok json_view (take i cbs @ cbs ! i # drop (Suc i) cbs)" using a by (simp add: id_take_nth_drop [symmetric])
    then show ?thesis by (auto simp: latest_ok_def erase_at_def split: if_splits)
  next
    case False
    then show ?thesis using a by (simp add: erase_at_def)
  qed
qed

section \<open>Invalidations\<close>

text \<open>The queued invalidation an entry stands for, when it can be merged with \<open>m\<close>.\<close>

definition cb_inval :: "callback \<Rightarrow> inval option" where
  "cb_inval c = (if cb_type c = InvalidateTiles then extract_rectangle (tokenize (cb_payload c) (CHR '' '')) else None)"

definition inval_at :: "int \<Rightarrow> inval \<Rightarrow> callback \<Rightarrow> inval option" where
  "inval_at view m it =
    (if cb_view it \<noteq> view then None
     else case cb_inval it of
       None \<Rightarrow> None
     | Some o' \<Rightarrow> if iv_part m \<noteq> iv_part o' \<or> iv_mode m \<noteq> iv_mode o' then None else Some o')"

lemma merge_inval_unfold:
  "merge_inval_loop view i m merged cbs =
    (if i < length cbs then
       case inval_at view m (cbs ! i) of
         None \<Rightarrow> merge_inval_loop view (Suc i) m merged cbs
       | Some o' \<Rightarrow>
           if inval_covers m o' then merge_inval_loop view i m merged (erase_at i cbs)
           else if rectangles_intersect (iv_x m) (iv_y m) (iv_w m) (iv_h m) (iv_x o') (iv_y o') (iv_w o') (iv_h o') \<and>
             iv_w (inval_join m o') \<le> reasonable_size_x \<and> iv_h (inval_join m o') \<le> reasonable_size_y
           then merge_inval_loop view i (inval_join m o') True (erase_at i cbs)
           else merge_inval_loop view (Suc i) m merged cbs
     else (m, merged, cbs))"
  by (subst merge_inval_loop.simps) (simp add: inval_at_def cb_inval_def Let_def not_less split: option.split)

text \<open>An invariant of the loop: kept when an entry is passed, dropped, or merged.\<close>

lemma merge_inval_rule:
  assumes "merge_inval_loop view i m b cbs = (m', b', cbs')" "P i m b cbs"
    and pass: "\<And>i m b cbs. P i m b cbs \<Longrightarrow> i < length cbs \<Longrightarrow> P (Suc i) m b cbs"
    and drop: "\<And>i m b cbs o'. P i m b cbs \<Longrightarrow> i < length cbs \<Longrightarrow> inval_at view m (cbs ! i) = Some o' \<Longrightarrow>
      inval_covers m o' \<Longrightarrow> P i m b (erase_at i cbs)"
    and join: "\<And>i m b cbs o'. P i m b cbs \<Longrightarrow> i < length cbs \<Longrightarrow> inval_at view m (cbs ! i) = Some o' \<Longrightarrow>
      \<not> inval_covers m o' \<Longrightarrow> iv_w (inval_join m o') \<le> reasonable_size_x \<Longrightarrow> iv_h (inval_join m o') \<le> reasonable_size_y \<Longrightarrow>
      P i (inval_join m o') True (erase_at i cbs)"
  shows "\<exists>i'. P i' m' b' cbs'"
  using assms(1,2)
proof (induction "length cbs - i" arbitrary: i m b cbs rule: less_induct)
  case less
  show ?case
  proof (cases "i < length cbs")
    case False
    then show ?thesis using less.prems merge_inval_unfold [of view i m b cbs] by auto
  next
    case True
    then have l: "length cbs - Suc i < length cbs - i" "length (erase_at i cbs) - i < length cbs - i" by simp_all
    consider "merge_inval_loop view (Suc i) m b cbs = (m', b', cbs')"
      | o' where "inval_at view m (cbs ! i) = Some o'" "inval_covers m o'"
          "merge_inval_loop view i m b (erase_at i cbs) = (m', b', cbs')"
      | o' where "inval_at view m (cbs ! i) = Some o'" "\<not> inval_covers m o'"
          "iv_w (inval_join m o') \<le> reasonable_size_x" "iv_h (inval_join m o') \<le> reasonable_size_y"
          "merge_inval_loop view i (inval_join m o') True (erase_at i cbs) = (m', b', cbs')"
      using less.prems(1) True merge_inval_unfold [of view i m b cbs] by (auto split: option.splits if_splits)
    then show ?thesis
    proof cases
      case 1
      then show ?thesis using less.hyps [OF l(1) 1] pass less.prems(2) True by blast
    next
      case 2
      then show ?thesis using less.hyps [OF l(2) 2(3)] drop less.prems(2) True by blast
    next
      case 3
      then show ?thesis using less.hyps [OF l(2) 3(5)] join less.prems(2) True by blast
    qed
  qed
qed

lemma merge_inval_latest:
  "merge_inval_loop view i m b cbs = (m', b', cbs') \<Longrightarrow> latest_ok json_view cbs \<Longrightarrow> latest_ok json_view cbs'"
  using merge_inval_rule [where P = "\<lambda>_ _ _ cbs. latest_ok json_view cbs"] latest_ok_sub by fast

text \<open>Each of these kinds of callback is queued at most once for its view.\<close>

lemma find_index_const: "(\<And>x. x \<in> set xs \<Longrightarrow> \<not> P x) \<Longrightarrow> find_index P xs = None"
  by (simp add: find_index_None)

lemma obsolete_state_never: "\<not> obsolete_state view unoCommand it"
  by (auto simp: obsolete_state_def)

lemma put_callback_latest:
  assumes "put_callback json_view view t payload k = Ok k'" "latest_ok json_view (kq_callbacks k)"
  shows "latest_ok json_view (kq_callbacks k')"
proof -
  let ?cbs = "kq_callbacks k" and ?new = "\<lparr>cb_view = view, cb_type = t, cb_payload = payload\<rparr>"
  obtain elided cbs where e: "elide_duplicate_callback json_view view t payload ?cbs = Ok (elided, cbs)"
    and k': "k' = k\<lparr>kq_callbacks := if elided then cbs else cbs @ [?new]\<rparr>"
    using assms(1) by (auto simp: put_callback_def res_bind_Ok)
  show ?thesis
  proof (cases "?cbs = []")
    case True
    then show ?thesis using e by (auto simp: elide_duplicate_callback_def k' latest_ok_def)
  next
    case ne: False
    show ?thesis
    proof (cases "is_latest_only t")
      case False
      have "latest_ok json_view cbs \<and> (elided \<longrightarrow> latest_ok json_view cbs)"
        using e ne assms(2) False merge_inval_latest
        by (auto simp: elide_duplicate_callback_def erase_first_def find_index_const obsolete_state_never
            Let_def latest_ok_snoc_other split: if_splits option.splits prod.splits)
      then show ?thesis using False by (auto simp: k' latest_ok_snoc_other)
    next
      case True
      then have nt: "t \<noteq> InvalidateTiles" "t \<noteq> StateChanged" by (auto simp: is_latest_only_def is_view_callback_def)
      obtain viewId where v: "(if is_view_callback t then json_view payload else Ok []) = Ok viewId"
        and r: "remove_obsolete json_view view t viewId ?cbs = Ok cbs" and el: "\<not> elided"
        using e ne nt True by (auto simp: elide_duplicate_callback_def res_bind_Ok split: if_splits)
      have "cb_key json_view ?new = (t, view, Ok viewId)" using v by (auto simp: cb_key_def split: if_splits)
      moreover have "\<not> is_view_callback t \<Longrightarrow> viewId = []" using v by simp
      ultimately show ?thesis
        using remove_obsolete_Ok [OF r True _ assms(2)] el by (auto simp: k' intro!: latest_ok_snoc)
    qed
  qed
qed

text \<open>A state is never elided: the test for an obsolete one cannot succeed.\<close>

lemma put_callback_state_appends:
  "put_callback json_view view StateChanged payload k =
    Ok (k\<lparr>kq_callbacks := kq_callbacks k @ [\<lparr>cb_view = view, cb_type = StateChanged, cb_payload = payload\<rparr>]\<rparr>)"
  by (simp add: put_callback_def elide_duplicate_callback_def erase_first_def find_index_const obsolete_state_never Let_def)

subsection \<open>Nothing invalidated is forgotten\<close>

text \<open>Invalidations whose numbers do not overflow, and containment of the areas.\<close>

definition inval_sane :: "inval \<Rightarrow> bool" where
  "inval_sane m \<longleftrightarrow> 0 \<le> iv_x m \<and> 0 \<le> iv_y m \<and> 0 \<le> iv_w m \<and> 0 \<le> iv_h m \<and>
    iv_x m + iv_w m \<le> INT_MAX \<and> iv_y m + iv_h m \<le> INT_MAX"

definition inval_within :: "inval \<Rightarrow> inval \<Rightarrow> bool" where
  "inval_within o' m \<longleftrightarrow>
    iv_part o' = iv_part m \<and> iv_mode o' = iv_mode m \<and>
    iv_x m \<le> iv_x o' \<and> iv_x o' + iv_w o' \<le> iv_x m + iv_w m \<and>
    iv_y m \<le> iv_y o' \<and> iv_y o' + iv_h o' \<le> iv_y m + iv_h m"

lemma inval_within_refl [simp]: "inval_within m m"
  by (simp add: inval_within_def)

lemma inval_within_trans: "inval_within a b \<Longrightarrow> inval_within b c \<Longrightarrow> inval_within a c"
  by (simp add: inval_within_def)

lemma inval_covers_within:
  "inval_sane m \<Longrightarrow> inval_sane o' \<Longrightarrow> iv_part m = iv_part o' \<Longrightarrow> iv_mode m = iv_mode o' \<Longrightarrow>
   inval_covers m o' \<longleftrightarrow> inval_within o' m"
  by (auto simp: inval_covers_def inval_within_def inval_sane_def s32_id)

lemma inval_join_within:
  assumes "inval_sane m" "inval_sane o'" "iv_part m = iv_part o'" "iv_mode m = iv_mode o'"
  shows "inval_sane (inval_join m o')" "inval_within m (inval_join m o')" "inval_within o' (inval_join m o')"
    "iv_w m \<le> iv_w (inval_join m o')"
proof -
  note r = assms [unfolded inval_sane_def]
  have e: "s32 (iv_x m + iv_w m) = iv_x m + iv_w m" "s32 (iv_x o' + iv_w o') = iv_x o' + iv_w o'"
    "s32 (iv_y m + iv_h m) = iv_y m + iv_h m" "s32 (iv_y o' + iv_h o') = iv_y o' + iv_h o'"
    using r by (simp_all add: s32_id)
  have "s32 (max (iv_x m + iv_w m) (iv_x o' + iv_w o') - min (iv_x m) (iv_x o')) =
      max (iv_x m + iv_w m) (iv_x o' + iv_w o') - min (iv_x m) (iv_x o')"
    "s32 (max (iv_y m + iv_h m) (iv_y o' + iv_h o') - min (iv_y m) (iv_y o')) =
      max (iv_y m + iv_h m) (iv_y o' + iv_h o') - min (iv_y m) (iv_y o')"
    using r by (auto intro!: s32_id simp: max_def min_def)
  then have j: "inval_join m o' = m\<lparr>iv_x := min (iv_x m) (iv_x o'), iv_y := min (iv_y m) (iv_y o'),
      iv_w := max (iv_x m + iv_w m) (iv_x o' + iv_w o') - min (iv_x m) (iv_x o'),
      iv_h := max (iv_y m + iv_h m) (iv_y o' + iv_h o') - min (iv_y m) (iv_y o')\<rparr>"
    by (simp add: inval_join_def Let_def e)
  show "inval_sane (inval_join m o')" using r by (auto simp: j inval_sane_def max_def min_def)
  show "inval_within m (inval_join m o')" by (auto simp: j inval_within_def)
  show "inval_within o' (inval_join m o')" using assms(3,4) by (auto simp: j inval_within_def)
  show "iv_w m \<le> iv_w (inval_join m o')" using r by (auto simp: j max_def min_def)
qed

definition cbs_sane :: "callback list \<Rightarrow> bool" where
  "cbs_sane cbs \<longleftrightarrow> (\<forall>c \<in> set cbs. \<forall>o'. cb_inval c = Some o' \<longrightarrow> inval_sane o')"

text \<open>What the loop keeps: the area grows, and each entry is in it or still queued.\<close>

definition merge_inv :: "int \<Rightarrow> inval \<Rightarrow> callback list \<Rightarrow> inval \<Rightarrow> bool \<Rightarrow> callback list \<Rightarrow> bool" where
  "merge_inv view m0 cbs0 m b cbs \<longleftrightarrow>
    inval_sane m \<and> inval_within m0 m \<and> set cbs \<subseteq> set cbs0 \<and> (b \<longrightarrow> iv_w m0 \<le> reasonable_size_x) \<and> (\<not> b \<longrightarrow> m = m0) \<and>
    (\<forall>c \<in> set cbs0. c \<in> set cbs \<or> (cb_view c = view \<and> (\<exists>o'. cb_inval c = Some o' \<and> inval_within o' m)))"

lemma inval_at_Some:
  "inval_at view m c = Some o' \<Longrightarrow> cb_view c = view \<and> cb_inval c = Some o' \<and> iv_part m = iv_part o' \<and> iv_mode m = iv_mode o'"
  by (auto simp: inval_at_def split: option.splits if_splits)

lemma erase_at_mem: "c \<in> set cbs \<Longrightarrow> c \<in> set (erase_at i cbs) \<or> (i < length cbs \<and> c = cbs ! i)"
proof -
  assume c: "c \<in> set cbs"
  show ?thesis
  proof (cases "i < length cbs")
    case True
    then have "set cbs = set (take i cbs @ cbs ! i # drop (Suc i) cbs)" by (simp only: id_take_nth_drop [symmetric])
    then show ?thesis using c True by (auto simp: erase_at_def)
  next
    case False
    then show ?thesis using c by (simp add: erase_at_def)
  qed
qed

lemma merge_inv_sane:
  assumes "merge_inv view m0 cbs0 m b cbs" "i < length cbs" "inval_at view m (cbs ! i) = Some o'" "cbs_sane cbs0"
  shows "inval_sane o'"
proof -
  have "cbs ! i \<in> set cbs0" using assms(1) nth_mem [OF assms(2)] unfolding merge_inv_def by blast
  then show ?thesis using assms(4) inval_at_Some [OF assms(3)] unfolding cbs_sane_def by blast
qed

lemma merge_inval_inv:
  assumes "merge_inval_loop view 0 m0 False cbs0 = (m', b', cbs')" "inval_sane m0" "cbs_sane cbs0"
  shows "merge_inv view m0 cbs0 m' b' cbs'"
proof -
  have "\<exists>i' :: nat. merge_inv view m0 cbs0 m' b' cbs'"
  proof (rule merge_inval_rule [where P = "\<lambda>_ m b cbs. merge_inv view m0 cbs0 m b cbs", OF assms(1)])
    show "merge_inv view m0 cbs0 m0 False cbs0" using assms(2) by (simp add: merge_inv_def)
  next
    fix i m b cbs o' assume a: "merge_inv view m0 cbs0 m b cbs" "i < length cbs" "inval_at view m (cbs ! i) = Some o'" "inval_covers m o'"
    note at = inval_at_Some [OF a(3)]
    have "inval_sane o'" by (rule merge_inv_sane [OF a(1-3) assms(3)])
    then have "inval_within o' m" using a(1,4) at inval_covers_within by (simp add: merge_inv_def)
    then show "merge_inv view m0 cbs0 m b (erase_at i cbs)"
      using a(1) at set_erase_at [of i cbs] erase_at_mem [of _ cbs i] unfolding merge_inv_def by blast
  next
    fix i m b cbs o' assume a: "merge_inv view m0 cbs0 m b cbs" "i < length cbs" "inval_at view m (cbs ! i) = Some o'"
      "iv_w (inval_join m o') \<le> reasonable_size_x"
    note at = inval_at_Some [OF a(3)]
    have o: "inval_sane o'" by (rule merge_inv_sane [OF a(1-3) assms(3)])
    have m: "inval_sane m" and w: "inval_within m0 m" using a(1) by (simp_all add: merge_inv_def)
    note j = inval_join_within [OF m o] at
    have wj: "inval_within x (inval_join m o')" if "inval_within x m" for x using inval_within_trans that j(2) at by blast
    have "iv_w m0 \<le> iv_w m" using w by (simp add: inval_within_def)
    then have "iv_w m0 \<le> reasonable_size_x" using a(4) j(4) at by simp
    then show "merge_inv view m0 cbs0 (inval_join m o') True (erase_at i cbs)"
      using a(1) at j(1,3) wj set_erase_at [of i cbs] erase_at_mem [of _ cbs i] unfolding merge_inv_def by blast
  qed
  then show ?thesis by blast
qed

text \<open>\<open>extractRectangle\<close> on the texts of the tokens, and what it reads from a merged payload.\<close>

lemma extract_rectangle_texts:
  assumes "sv_wf tokens" "T = sv_texts tokens"
  shows "extract_rectangle tokens =
    (if length T < 2 then None
     else if T ! 0 = ''EMPTY,'' then
       Some \<lparr>iv_x = 0, iv_y = 0, iv_w = INT_MAX, iv_h = INT_MAX, iv_part = atoi (T ! 1), iv_mode = 0\<rparr>
     else if length T < 5 then None
     else Some \<lparr>iv_x = atoi (T ! 0), iv_y = atoi (T ! 1), iv_w = atoi (T ! 2), iv_h = atoi (T ! 3),
       iv_part = atoi (T ! 4), iv_mode = (if length T = 6 then atoi (T ! 5) else 0)\<rparr>)"
proof -
  have "sv_size tokens = length T" by (simp add: assms(2) sv_size_def)
  moreover have "sv_equals tokens 0 ''EMPTY,'' \<longleftrightarrow> 0 < length T \<and> T ! 0 = ''EMPTY,''"
    using sv_equals_texts [OF assms(1)] assms(2) by simp
  moreover have "sv_nth tokens i = (if i < length T then T ! i else [])" for i
    unfolding assms(2) by (rule sv_nth_texts)
  ultimately show ?thesis unfolding extract_rectangle_def by simp
qed

lemma inval_payload_texts:
  assumes "T = sv_texts (tokenize payload (CHR '' ''))" "5 \<le> length T"
  shows "sv_texts (tokenize (inval_payload m (tokenize payload (CHR '' ''))) (CHR '' '')) =
    [show_int (iv_x m) @ '','', show_int (iv_y m) @ '','', show_int (iv_w m) @ '','', show_int (iv_h m) @ '',''] @ drop 4 T"
proof -
  let ?c = "\<lambda>i. show_int i @ '',''"
  let ?ws = "[?c (iv_y m), ?c (iv_w m), ?c (iv_h m)] @ drop 4 T"
  have d: "drop 4 T = T ! 4 # drop 5 T" using assms(2) Cons_nth_drop_Suc [of 4 T] by simp
  have cat: "sv_cat '' '' 4 None (tokenize payload (CHR '' '')) = T ! 4 @ concat (map (\<lambda>t. CHR '' '' # t) (drop 5 T))"
    using sv_cat_all [of 4 "tokenize payload (CHR '' '')" "'' ''"] assms by simp
  have p: "inval_payload m (tokenize payload (CHR '' '')) = ?c (iv_x m) @ concat (map (\<lambda>w. CHR '' '' # w) ?ws)"
    unfolding inval_payload_def cat d by simp
  have clean: "\<forall>w \<in> set ?ws. CHR '' '' \<notin> set w \<and> newline \<notin> set w \<and> w \<noteq> []"
    using tokenize_clean [of _ payload "CHR '' ''"] assms(1) by (auto dest: in_set_dropD)
  have n: "(?c (iv_x m) @ r) ! 0 \<noteq> nul" for r
    using show_int_no_nul [of "iv_x m"] show_int_nonempty [of "iv_x m"] by (cases "show_int (iv_x m)") auto
  have "sv_texts (tokenize (inval_payload m (tokenize payload (CHR '' ''))) (CHR '' '')) =
      split_tokens (CHR '' '') (inval_payload m (tokenize payload (CHR '' '')))"
    using n unfolding p by (intro sv_texts_tokenize) blast
  also have "\<dots> = ?c (iv_x m) # ?ws"
    unfolding p using split_tokens_words [OF clean, of "?c (iv_x m)"] by simp
  finally show ?thesis by simp
qed

lemma inval_payload_parse:
  assumes "extract_rectangle (tokenize payload (CHR '' '')) = Some m0" "iv_w m0 < INT_MAX"
    and "inval_sane m" "iv_part m = iv_part m0" "iv_mode m = iv_mode m0"
  shows "extract_rectangle (tokenize (inval_payload m (tokenize payload (CHR '' ''))) (CHR '' '')) = Some m"
proof -
  define T where "T = sv_texts (tokenize payload (CHR '' ''))"
  note e = extract_rectangle_texts [OF sv_wf_tokenize(1) T_def]
  have len: "5 \<le> length T" and m0: "iv_part m0 = atoi (T ! 4)" "iv_mode m0 = (if length T = 6 then atoi (T ! 5) else 0)"
    using assms(1,2) by (auto simp: e split: if_splits)
  let ?U = "[show_int (iv_x m) @ '','', show_int (iv_y m) @ '','', show_int (iv_w m) @ '','', show_int (iv_h m) @ '',''] @ drop 4 T"
  note e' = extract_rectangle_texts [OF sv_wf_tokenize(1) inval_payload_texts [OF T_def len, symmetric]]
  have at: "atoi (show_int i @ '','') = i" if "0 \<le> i" "i \<le> INT_MAX" for i
    using atoi_show_int_followed [of i "CHR '',''" "[]"] that by simp
  have ne: "show_int (iv_x m) @ '','' \<noteq> ''EMPTY,''"
  proof
    assume "show_int (iv_x m) @ '','' = ''EMPTY,''"
    then have "show_int (iv_x m) = ''EMPTY''" using append_same_eq [of "show_int (iv_x m)" "'',''" "''EMPTY''"] by simp
    then have "CHR ''E'' \<in> set (show_int (iv_x m))" by simp
    then show False using show_int_chars [of "CHR ''E''"] by (auto simp: is_digit_def)
  qed
  have "iv_x m \<le> INT_MAX" "iv_y m \<le> INT_MAX" "iv_w m \<le> INT_MAX" "iv_h m \<le> INT_MAX" "0 \<le> iv_x m" "0 \<le> iv_y m" "0 \<le> iv_w m" "0 \<le> iv_h m"
    using assms(3) by (auto simp: inval_sane_def)
  note a = this
  have len': "length ?U = length T" using len by simp
  have U: "?U ! 0 = show_int (iv_x m) @ '',''" "?U ! 1 = show_int (iv_y m) @ '',''" "?U ! 2 = show_int (iv_w m) @ '',''"
    "?U ! 3 = show_int (iv_h m) @ '',''" "?U ! 4 = T ! 4" "length T = 6 \<Longrightarrow> ?U ! 5 = T ! 5"
    using len by (simp_all add: nth_append)
  show ?thesis
    unfolding e' len' using U len ne m0 assms(4,5) a by (cases m) (simp add: at del: append.simps)
qed

text \<open>
  After a callback is queued, the area of every queued invalidation, and of the new one, is
  still invalidated by a queued one for the same view, part and mode.
\<close>

definition invalidated :: "callback list \<Rightarrow> int \<Rightarrow> inval \<Rightarrow> bool" where
  "invalidated cbs view o' \<longleftrightarrow> (\<exists>c \<in> set cbs. cb_view c = view \<and> (\<exists>m. cb_inval c = Some m \<and> inval_within o' m))"

lemma elide_inval_keeps:
  assumes "merge_inval_loop view 0 m False cbs = (m', merged, cbs')" "inval_sane m" "cbs_sane cbs"
    and "extract_rectangle (tokenize payload (CHR '' '')) = Some m"
    and "new = \<lparr>cb_view = view, cb_type = InvalidateTiles,
      cb_payload = if merged then inval_payload m' (tokenize payload (CHR '' '')) else payload\<rparr>"
  shows "invalidated (cbs' @ [new]) view m" "invalidated cbs v o' \<Longrightarrow> invalidated (cbs' @ [new]) v o'"
    "cbs_sane (cbs' @ [new])"
proof -
  have inv: "merge_inv view m cbs m' merged cbs'" by (rule merge_inval_inv [OF assms(1-3)])
  have w: "inval_within m m'" using inv by (simp add: merge_inv_def)
  have new: "cb_inval new = Some m'" "cb_view new = view"
  proof -
    show "cb_inval new = Some m'"
    proof (cases merged)
      case True
      then have "iv_w m < INT_MAX" using inv by (auto simp: merge_inv_def reasonable_size_x_def)
      then show ?thesis
        using inval_payload_parse [OF assms(4), of m'] True inv w
        by (simp add: assms(5) cb_inval_def merge_inv_def inval_within_def)
    next
      case False
      then show ?thesis using assms(4,5) inv by (simp add: cb_inval_def merge_inv_def)
    qed
  qed (simp add: assms(5))
  then show "invalidated (cbs' @ [new]) view m" using w by (auto simp: invalidated_def)
  show "invalidated (cbs' @ [new]) v o'" if old: "invalidated cbs v o'"
  proof -
    obtain c n where c: "c \<in> set cbs" "cb_view c = v" "cb_inval c = Some n" "inval_within o' n"
      using old by (auto simp: invalidated_def)
    then consider "c \<in> set cbs'" | "v = view" "inval_within n m'" using inv by (auto simp: merge_inv_def)
    then show ?thesis
    proof cases
      case 1
      then show ?thesis using c by (auto simp: invalidated_def)
    next
      case 2
      then show ?thesis using new c(4) inval_within_trans by (auto simp: invalidated_def)
    qed
  qed
  show "cbs_sane (cbs' @ [new])" using assms(3) inv new by (auto simp: cbs_sane_def merge_inv_def)
qed

lemma put_callback_invalidated:
  assumes "put_callback json_view view InvalidateTiles payload k = Ok k'" "cbs_sane (kq_callbacks k)"
    and "extract_rectangle (tokenize payload (CHR '' '')) = Some m" "inval_sane m"
  shows "invalidated (kq_callbacks k') view m"
    "invalidated (kq_callbacks k) v o' \<Longrightarrow> invalidated (kq_callbacks k') v o'" "cbs_sane (kq_callbacks k')"
proof -
  let ?new = "\<lambda>pl. \<lparr>cb_view = view, cb_type = InvalidateTiles, cb_payload = pl\<rparr>"
  obtain m' merged cbs' where l: "merge_inval_loop view 0 m False (kq_callbacks k) = (m', merged, cbs')"
    by (rule prod_cases3)
  have "kq_callbacks k' = cbs' @ [?new (if merged then inval_payload m' (tokenize payload (CHR '' '')) else payload)]"
  proof (cases "kq_callbacks k = []")
    case True
    then have "(m', merged, cbs') = (m, False, [])" using l merge_inval_unfold [of view 0 m False "[]"] by simp
    then show ?thesis using assms(1) True by (auto simp: put_callback_def elide_duplicate_callback_def)
  next
    case False
    then show ?thesis using assms(1,3) l
      by (auto simp: put_callback_def elide_duplicate_callback_def Let_def res_bind_Ok)
  qed
  then show "invalidated (kq_callbacks k') view m" "cbs_sane (kq_callbacks k')"
    "invalidated (kq_callbacks k) v o' \<Longrightarrow> invalidated (kq_callbacks k') v o'"
    using elide_inval_keeps [OF l assms(4,2,3) refl] by simp_all
qed

section \<open>Text input\<close>

definition text_msg :: "string \<Rightarrow> string \<Rightarrow> string \<Rightarrow> string" where
  "text_msg session i t = session @ '' textinput id='' @ i @ '' text='' @ t"

definition wire_word :: "string \<Rightarrow> bool" where
  "wire_word w \<longleftrightarrow> CHR '' '' \<notin> set w \<and> newline \<notin> set w \<and> nul \<notin> set w"

definition session_name :: "string \<Rightarrow> bool" where
  "session_name s \<longleftrightarrow> wire_word s \<and> s \<noteq> [] \<and> CHR ''='' \<notin> set s \<and> s \<notin> {''tile'', ''tilecombine'', ''callback''}"

lemma text_msg_texts:
  assumes "session_name s" "wire_word i" "wire_word t"
  shows "sv_texts (tokenize_data (text_msg s i t) (CHR '' '')) = [s, ''textinput'', ''id='' @ i, ''text='' @ t]"
proof -
  let ?ws = "[''textinput'', ''id='' @ i, ''text='' @ t]"
  have m: "text_msg s i t = s @ concat (map (\<lambda>w. CHR '' '' # w) ?ws)" by (simp add: text_msg_def)
  have s: "CHR '' '' \<notin> set s" "newline \<notin> set s" "nul \<notin> set s" "s \<noteq> []" using assms(1) by (auto simp: session_name_def wire_word_def)
  have "(s @ r) ! 0 \<noteq> nul" for r using s(3,4) by (cases s) auto
  then have "sv_texts (tokenize_data (text_msg s i t) (CHR '' '')) = split_tokens (CHR '' '') (text_msg s i t)"
    unfolding text_msg_def by (intro sv_texts_tokenize) blast
  also have "\<dots> = s # ?ws"
    unfolding m using split_tokens_words [of ?ws "CHR '' ''" s] s assms(2,3) by (simp add: wire_word_def)
  finally show ?thesis .
qed

lemma get_token_string_absent: "CHR ''='' \<notin> set t \<Longrightarrow> get_token_string t name v = (False, v)"
proof -
  assume "CHR ''='' \<notin> set t"
  then have "\<not> fst (get_token_string t name v)" unfolding get_token_string_iff by auto
  then show ?thesis by (auto simp: get_token_string_def split: if_splits)
qed

lemma get_token_string_other:
  "take (length name) t \<noteq> name \<Longrightarrow> get_token_string t name v = (False, v)"
  by (simp add: get_token_string_def token_has_name_def)

lemma text_msg_fields:
  assumes "session_name s"
  shows "get_token_string_in [s, ''textinput'', ''id='' @ i, ''text='' @ t] ''id'' [] = (True, i)"
    "get_token_string_in [s, ''textinput'', ''id='' @ i, ''text='' @ t] ''text'' [] = (True, t)"
  using assms get_token_string_append [of "''id''" i] get_token_string_append [of "''text''" t]
  by (simp_all add: get_token_string_in_def get_token_string_absent session_name_def get_token_string_other)

lemma first_token_word: "CHR '' '' \<notin> set s \<Longrightarrow> get_first_token (s @ CHR '' '' # r) (CHR '' '') = s"
  by (simp add: get_first_token_def get_delimited_initial_substring_def get_delimiter_position_def find_char_append)

lemma text_msg_item: "session_name s \<Longrightarrow> text_item (text_msg s i t) s = Some False"
  by (simp add: text_item_def text_msg_def Let_def substr_def)

lemma put_text_combines:
  assumes "session_name s" "wire_word i" "wire_word a" "wire_word b" "kq_queue k = q @ [text_msg s i a]"
  shows "put (text_msg s i b) k = Ok (k\<lparr>kq_queue := q @ [text_msg s i (a @ b)]\<rparr>)"
proof -
  let ?new = "tokenize_data (text_msg s i b) (CHR '' '')" and ?old = "tokenize_data (text_msg s i a) (CHR '' '')"
  note new = text_msg_texts [OF assms(1,2,4)] and old = text_msg_texts [OF assms(1,2,3)]
  have size: "sv_size ?old = 4" using arg_cong [OF old, of length] by (simp add: sv_size_def)
  have tok: "sv_equals_token ?old 0 ?new 0" by (simp add: sv_equals_token_texts old new)
  have word: "sv_equals ?old 1 w \<longleftrightarrow> w = ''textinput''" for w
    using sv_equals_texts [OF sv_wf_tokenize(2)] size by (auto simp: old sv_size_def)
  have nb: "\<not> blocks_combining ''removetextcontext'' ?new ?old" by (simp add: blocks_combining_def size word [unfolded One_nat_def])
  have nth: "sv_nth ?old 0 = s" by (simp add: sv_nth_texts old)
  have loop: "combine_text_loop ?new i b (Suc (length q)) (q @ [text_msg s i a]) = (text_msg s i (a @ b), q)"
    using nb tok nth text_msg_fields [OF assms(1), of i a]
    by (simp add: Let_def old nth_append word [unfolded One_nat_def]) (simp add: text_msg_def)
  have first: "get_first_token (text_msg s i b) (CHR '' '') = s"
    using assms(1) first_token_word by (simp add: text_msg_def session_name_def wire_word_def)
  have "combine_text_input ?new (kq_queue k) = (text_msg s i (a @ b), q)"
    using loop text_msg_fields [OF assms(1), of i b] by (simp add: combine_text_input_def new assms(5))
  moreover have "text_msg s i b \<noteq> []" "text_msg s i (a @ b) \<noteq> []" by (simp_all add: text_msg_def)
  moreover have "s \<notin> {''tile'', ''tilecombine'', ''callback''}" using assms(1) by (simp add: session_name_def)
  ultimately show ?thesis
    by (simp add: put_def first text_msg_item [OF assms(1)] Let_def)
qed

end
