(* ===== verification/KitTheorems.thy ===== *)
theory KitTheorems
  imports Callbacks
begin

text \<open>
  What the kit's queue guarantees: in every state it can reach, a pop succeeds and takes a
  block of tiles of the highest priority; the rendering loop ends; callbacks are merged
  without losing an invalidation; text typed in pieces arrives in one piece.
\<close>

section \<open>Reachable states\<close>

inductive kq_reachable :: "kit_queue \<Rightarrow> bool" where
  start: "kq_reachable kq_empty"
| put: "kq_reachable k \<Longrightarrow> tiles_accepted m \<Longrightarrow> put m k = Ok k' \<Longrightarrow> kq_reachable k'"
| pop: "kq_reachable k \<Longrightarrow> kq_pop k = (m, k') \<Longrightarrow> kq_reachable k'"
| pop_tiles: "kq_reachable k \<Longrightarrow> \<not> is_tile_queue_empty k \<Longrightarrow> pop_tile_queue prio views k = Ok (c, pr, k') \<Longrightarrow> kq_reachable k'"
| put_callback: "kq_reachable k \<Longrightarrow> put_callback json_view view t payload k = Ok k' \<Longrightarrow> kq_reachable k'"
| get_callback: "kq_reachable k \<Longrightarrow> get_callback k = (c, k') \<Longrightarrow> kq_reachable k'"
| clear: "kq_reachable k \<Longrightarrow> kq_reachable (kq_clear k)"
| clear_tiles: "kq_reachable k \<Longrightarrow> kq_reachable (clear_tile_queue k)"

lemma kq_wf_tiles: "kq_wf k \<Longrightarrow> kq_tileQueues k' = kq_tileQueues k \<Longrightarrow> kq_wf k'"
  by (simp add: kq_wf_def)

lemma put_callback_tiles: "put_callback json_view view t payload k = Ok k' \<Longrightarrow> kq_tileQueues k' = kq_tileQueues k"
  by (auto simp: put_callback_def res_bind_Ok)

lemma reachable_wf: "kq_reachable k \<Longrightarrow> kq_wf k"
proof (induction rule: kq_reachable.induct)
  case (put k m k')
  then show ?case by (blast intro: put_wf)
next
  case (pop_tiles k prio views c pr k')
  then show ?case using pop_tile_queue_ok [of k prio views] by auto
next
  case (put_callback k json_view view t payload k')
  then show ?case using kq_wf_tiles put_callback_tiles by blast
next
  case (pop k m k')
  then show ?case by (auto simp: kq_pop_def intro: kq_wf_tiles split: list.splits if_splits)
next
  case (get_callback k c k')
  then show ?case by (auto simp: get_callback_def intro: kq_wf_tiles split: list.splits if_splits)
qed (auto simp: kq_empty_def kq_wf_def kq_clear_def clear_tile_queue_def)

text \<open>A tile of a sheet, for examples\<close>

definition sample_tile :: "int \<Rightarrow> int \<Rightarrow> int \<Rightarrow> tile_desc" where
  "sample_tile x y tw = \<lparr>td_canonicalViewId = 0, td_part = 0, td_mode = 0, td_width = 256, td_height = 256,
    td_tilePosX = x, td_tilePosY = y, td_tileWidth = tw, td_tileHeight = 3840, td_ver = 7, td_imgSize = 0,
    td_id = -1, td_oldWireId = 0, td_wireId = 0\<rparr>"

lemmas sample_simps = sample_tile_def tile_valid_def tile_ranges_def shared_ranges_def queue_tile_def in_i32_def

lemma sample_put:
  "\<exists>k. put (serialize (sample_tile 3840 0 3840) ''tile'' []) kq_empty = Ok k \<and> kq_reachable k \<and> \<not> is_tile_queue_empty k"
proof -
  let ?t = "sample_tile 3840 0 3840"
  let ?m = "serialize ?t ''tile'' []"
  have p: "parse_tile ?m = Ok ?t"
    by (rule parse_tile_serialize) (simp_all add: sample_simps wire_ranges_def plain_prefix_def line_suffix_def)
  have first: "get_first_token ?m (CHR '' '') = ''tile''"
    using first_token_word [of "''tile''"] by (simp add: serialize_def)
  have "queue_tile ?t" by (simp add: sample_simps)
  then have acc: "tiles_accepted ?m" by (simp add: tiles_accepted_def first p)
  have view: "td_canonicalViewId ?t = 0" by (simp add: sample_tile_def)
  have ne: "?m \<noteq> []" by (simp add: serialize_def)
  let ?k = "kq_empty\<lparr>kq_tileQueues := [(0, [?t])]\<rparr>"
  have "put ?m kq_empty = Ok ?k"
    using ne by (simp add: put_def first push_tile_queue_def p sorted_insert_def kq_empty_def view lower_bound_def
        lower_bound_loop.simps insert_at_def Let_def)
  then show ?thesis using kq_reachable.put [OF kq_reachable.start acc] by (auto simp: is_tile_queue_empty_def)
qed

section \<open>Properties\<close>

text \<open>C6: In every state the kit's queue can reach through the messages it accepts, as long as
  tiles are queued, \<open>popTileQueue\<close> succeeds (no assertion fails, no index leaves a queue) and
  leaves a well-formed queue; the tiles it returns and those left are those that were queued,
  none lost and none repeated; those returned hold a tile of the highest priority of the view
  served, and are either a single preview or tiles of one combination: equal parameters, at most
  three rows and 17 columns.\<close>

theorem reachable_pop_succeeds:
  assumes "kq_reachable k" "\<not> is_tile_queue_empty k"
  shows "\<exists>c pr k' i p ts rest. pop_tile_queue prio views k = Ok (c, pr, k') \<and> kq_wf k' \<and>
    i < length (kq_tileQueues k) \<and> pop_split (snd (kq_tileQueues k ! i)) p ts rest \<and> tc_tiles c = popped ts \<and>
    k' = k\<lparr>kq_tileQueues := (kq_tileQueues k)[i := (fst (kq_tileQueues k ! i), rest)]\<rparr> \<and>
    pr = prio p \<and> (\<forall>t \<in> set (snd (kq_tileQueues k ! i)). prio t \<le> pr) \<and> all_tiles k = mset ts + all_tiles k'"
proof -
  obtain c pr k' i p ts rest where *: "pop_tile_queue prio views k = Ok (c, pr, k')" "kq_wf k'"
    "i < length (kq_tileQueues k)" "k' = k\<lparr>kq_tileQueues := (kq_tileQueues k)[i := (fst (kq_tileQueues k ! i), rest)]\<rparr>"
    "pop_split (snd (kq_tileQueues k ! i)) p ts rest" "tc_tiles c = popped ts" "pr = prio p"
    "\<forall>t \<in> set (snd (kq_tileQueues k ! i)). prio t \<le> pr"
    using pop_tile_queue_ok [OF reachable_wf [OF assms(1)] assms(2)] by blast
  have "mset ts + mset rest = mset (snd (kq_tileQueues k ! i))" using *(5) by (simp add: pop_split_def)
  then have "all_tiles k = mset ts + all_tiles k'" unfolding *(4) by (intro all_tiles_update *(3))
  with * show ?thesis by blast
qed

theorem reachable_pop_succeeds_witness:
  "\<exists>k c pr k'. kq_reachable k \<and> \<not> is_tile_queue_empty k \<and> pop_tile_queue default_prio [] k = Ok (c, pr, k') \<and> kq_wf k'"
proof -
  obtain k where "kq_reachable k" "\<not> is_tile_queue_empty k" using sample_put by blast
  with reachable_pop_succeeds [of k default_prio "[]"] show ?thesis by blast
qed

text \<open>C20: The loop of \<open>drainQueue\<close> that renders tiles ends for every well-formed queue, without an
  error; the blocks it renders and the tiles left make up the tiles that were queued; and if it
  was entered with tiles at a high enough priority it rendered something.\<close>

theorem drain_tiles_terminates:
  assumes "kq_reachable k"
  shows "\<exists>cs k' tss. drain_tiles prio views pr k = Some (Ok (cs, k')) \<and> kq_wf k' \<and>
    map tc_tiles cs = map popped tss \<and> all_tiles k = sum_list (map mset tss) + all_tiles k' \<and>
    (pr \<ge> VeryHigh \<and> \<not> is_tile_queue_empty k \<longrightarrow> cs \<noteq> [])"
  by (rule drain_tiles_ok [OF reachable_wf [OF assms]])

theorem drain_tiles_terminates_witness:
  "\<exists>k cs k'. kq_reachable k \<and> \<not> is_tile_queue_empty k \<and>
    drain_tiles default_prio [] UltraHigh k = Some (Ok (cs, k')) \<and> cs \<noteq> []"
proof -
  obtain k where k: "kq_reachable k" "\<not> is_tile_queue_empty k" using sample_put by blast
  have "VeryHigh \<le> UltraHigh" by code_simp
  with k drain_tiles_terminates [of k default_prio "[]" UltraHigh] show ?thesis by blast
qed

text \<open>C33: A combined request may carry a tile whose column is the last \<open>int\<close>. With one of them and
  a tile in column 0 of the same row queued, combining around it reads past the end of the
  queue: the left distance is \<open>INT_MAX\<close>, which also stands for "no tile on that side".\<close>

theorem pop_out_of_bounds:
  "\<exists>m c. parse_combined m = Ok c \<and> tc_tiles c = [sample_tile 0 0 1, sample_tile 2147483647 0 1] \<and>
   foldl sorted_insert [] (tc_tiles c) = tc_tiles c \<and> collect_tiles (tc_tiles c) 1 = Err OutOfBounds"
proof -
  let ?q = "[sample_tile 0 0 1, sample_tile 2147483647 0 1]"
  have g: "grid_x (sample_tile 0 0 1) 1 = 0" "grid_x (sample_tile 2147483647 0 1) 1 = 2147483647"
    "td_tileWidth (sample_tile x y 1) = 1" "td_tilePosY (sample_tile x y 1) = y" "\<not> is_preview (sample_tile x y 1)" for x y
    by (simp_all add: grid_x_def sample_tile_def cdiv_def is_preview_def)
  have a: "allow_combine_if_row (sample_tile 2147483647 0 1) 0 (sample_tile 0 0 1)"
    by (simp add: allow_combine_if_row_def allow_combine_def is_preview_def same_tile_combine_params_def sample_tile_def)
  have "combine_hori_around ?q [sample_tile 2147483647 0 1] 1 = Err OutOfBounds"
    by (simp add: combine_hori_around_def combine_hori_loop.simps can_left_def can_right_def g a Let_def
        s32_def max_combined_grid_span_def)
  then have oob: "collect_tiles ?q 1 = Err OutOfBounds" by (simp add: collect_tiles_def g)
  have u: "uniform_tiles ?q" by (simp add: uniform_tiles_def sample_simps same_tile_combine_params_def)
  obtain c where c: "tc_create ?q = Ok c" using tc_create_uniform [OF u] by blast
  have "tc_tiles c = ?q" using tc_create_tiles(1) [OF u c] by (simp add: sample_tile_def)
  moreover have "parse_combined (tc_serialize c ''tilecombine'' []) = Ok c"
    by (rule parse_combined_serialize [OF tc_create_wf [OF u _ c]])
      (simp_all add: sample_simps plain_prefix_def line_suffix_def)
  moreover have "foldl sorted_insert [] ?q = ?q"
    by (simp add: sorted_insert_def lower_bound_def lower_bound_loop.simps insert_at_def Let_def tile_less_key
        tile_key_def tile_key_at_def sample_tile_def tile_eq_def)
  ultimately show ?thesis using oob by metis
qed

text \<open>C28: Whatever callbacks are queued and merged, what was invalidated stays invalidated: after an
  invalidation is queued, its area, and the area of every invalidation queued before, lies
  within that of a queued one of the same view, part and mode.\<close>

theorem invalidations_kept:
  assumes "put_callback json_view view InvalidateTiles payload k = Ok k'" "cbs_sane (kq_callbacks k)"
    and "extract_rectangle (tokenize payload (CHR '' '')) = Some m" "inval_sane m"
  shows "invalidated (kq_callbacks k') view m \<and>
    (\<forall>v o'. invalidated (kq_callbacks k) v o' \<longrightarrow> invalidated (kq_callbacks k') v o') \<and> cbs_sane (kq_callbacks k')"
  using put_callback_invalidated [OF assms] by blast

theorem invalidations_kept_witness:
  "\<exists>k'. put_callback (\<lambda>_. Ok []) 0 InvalidateTiles ''0, 0, 100, 100, 0, 0'' kq_empty = Ok k' \<and>
    invalidated (kq_callbacks k') 0 \<lparr>iv_x = 0, iv_y = 0, iv_w = 100, iv_h = 100, iv_part = 0, iv_mode = 0\<rparr>"
proof -
  let ?m = "\<lparr>iv_x = 0, iv_y = 0, iv_w = 100, iv_h = 100, iv_part = 0, iv_mode = 0\<rparr>"
  have e: "extract_rectangle (tokenize ''0, 0, 100, 100, 0, 0'' (CHR '' '')) = Some ?m" by code_simp
  obtain k' where p: "put_callback (\<lambda>_. Ok []) 0 InvalidateTiles ''0, 0, 100, 100, 0, 0'' kq_empty = Ok k'"
    by (auto simp: put_callback_def elide_duplicate_callback_def kq_empty_def)
  have s: "cbs_sane (kq_callbacks kq_empty)" "inval_sane ?m" by (simp_all add: cbs_sane_def kq_empty_def inval_sane_def)
  show ?thesis using p invalidations_kept [OF p s(1) e s(2)] by blast
qed

lemma remove_obsolete_filter:
  assumes "remove_obsolete json_view view t viewId cbs = Ok cbs'" "is_latest_only t"
    "\<not> is_view_callback t \<Longrightarrow> viewId = []" "latest_ok json_view cbs"
  shows "cbs' = filter (\<lambda>c. cb_key json_view c \<noteq> (t, view, Ok viewId)) cbs"
  using assms(1,4)
proof (induction cbs arbitrary: cbs')
  case (Cons it cbs)
  have rest: "latest_ok json_view cbs" using Cons.prems(2) by (auto simp: latest_ok_def split: if_splits)
  show ?case
  proof (cases "cb_key json_view it = (t, view, Ok viewId)")
    case True
    then have "cbs' = cbs" using Cons.prems(1) by (auto simp: cb_key_def split: if_splits)
    moreover have "\<forall>c \<in> set cbs'. cb_key json_view c \<noteq> (t, view, Ok viewId)"
      using remove_obsolete_Ok [OF Cons.prems(1) assms(2,3) Cons.prems(2)] by blast
    ultimately show ?thesis using True by (simp add: filter_id_conv)
  next
    case False
    then obtain r where "remove_obsolete json_view view t viewId cbs = Ok r" "cbs' = it # r"
      using Cons.prems(1) assms(3) by (auto simp: cb_key_def res_bind_Ok split: if_splits)
    then show ?thesis using Cons.IH [OF _ rest] False by simp
  qed
qed simp

lemma put_callback_replaces:
  fixes json_view :: "string \<Rightarrow> string res" and view :: int and t :: callback_type and payload :: string
  defines "new \<equiv> \<lparr>cb_view = view, cb_type = t, cb_payload = payload\<rparr>"
  assumes put: "put_callback json_view view t payload k = Ok k'" and "latest_ok json_view (kq_callbacks k)" and latest: "is_latest_only t"
  shows "kq_callbacks k' = filter (\<lambda>c. cb_key json_view c \<noteq> cb_key json_view new) (kq_callbacks k) @ [new]"
proof (cases "kq_callbacks k = []")
  case True
  then show ?thesis using put by (auto simp: put_callback_def elide_duplicate_callback_def new_def)
next
  case False
  then obtain viewId cbs where v: "(if is_view_callback t then json_view payload else Ok []) = Ok viewId"
    and r: "remove_obsolete json_view view t viewId (kq_callbacks k) = Ok cbs" and k': "kq_callbacks k' = cbs @ [new]"
    using put latest by (auto simp: put_callback_def elide_duplicate_callback_def new_def res_bind_Ok is_latest_only_def
        is_view_callback_def split: if_splits)
  have "cb_key json_view new = (t, view, Ok viewId)" using v by (auto simp: cb_key_def new_def split: if_splits)
  moreover have "\<not> is_view_callback t \<Longrightarrow> viewId = []" using v by simp
  ultimately show ?thesis using remove_obsolete_filter [OF r latest _ assms(3)] k' by simp
qed

text \<open>C29: A callback of which only the latest counts goes to the end of the queue, the older one of the same kind and view (and the same
  view named in the payload) is gone, and all others stay in order. So at most one is queued for each kind and view, whatever
  is queued.\<close>

theorem latest_callbacks_unique:
  assumes "put_callback json_view view t payload k = Ok k'" "latest_ok json_view (kq_callbacks k)"
  shows "latest_ok json_view (kq_callbacks k') \<and>
    (is_latest_only t \<longrightarrow>
      (let new = \<lparr>cb_view = view, cb_type = t, cb_payload = payload\<rparr>
       in kq_callbacks k' = filter (\<lambda>c. cb_key json_view c \<noteq> cb_key json_view new) (kq_callbacks k) @ [new]))"
  using put_callback_latest [OF assms] put_callback_replaces [OF assms] by simp

theorem latest_callbacks_unique_witness:
  "let cb = \<lambda>t p. \<lparr>cb_view = 0, cb_type = t, cb_payload = p\<rparr>; vs = cb ViewCursorVisible;
       k = kq_empty\<lparr>kq_callbacks := [vs ''1a'', cb InvalidateTiles ''EMPTY'', vs ''2a'']\<rparr>
   in \<exists>k'. put_callback (\<lambda>p. Ok (take 1 p)) 0 ViewCursorVisible ''1b'' k = Ok k' \<and>
     kq_callbacks k' = [cb InvalidateTiles ''EMPTY'', vs ''2a'', vs ''1b'']"
proof -
  let ?jv = "\<lambda>p. Ok (take 1 p) :: string res" and ?cb = "\<lambda>t p. \<lparr>cb_view = 0, cb_type = t, cb_payload = p\<rparr>"
  let ?k = "kq_empty\<lparr>kq_callbacks := [?cb ViewCursorVisible ''1a'', ?cb InvalidateTiles ''EMPTY'', ?cb ViewCursorVisible ''2a'']\<rparr>"
  have kinds: "is_latest_only ViewCursorVisible" "is_view_callback ViewCursorVisible" "\<not> is_latest_only InvalidateTiles"
    by (simp_all add: is_latest_only_def is_view_callback_def)
  then have ok: "latest_ok ?jv (kq_callbacks ?k)" by (simp add: latest_ok_def cb_key_def)
  obtain k' where k': "put_callback ?jv 0 ViewCursorVisible ''1b'' ?k = Ok k'"
    using kinds by (auto simp: put_callback_def elide_duplicate_callback_def)
  have "kq_callbacks k' = [?cb InvalidateTiles ''EMPTY'', ?cb ViewCursorVisible ''2a'', ?cb ViewCursorVisible ''1b'']"
    using latest_callbacks_unique [OF k' ok] kinds by (simp add: cb_key_def Let_def)
  then show ?thesis using k' by (simp add: Let_def)
qed

text \<open>A change of state is always appended and never replaces an older state of the same
  command: the comparison meant to find the older one compares the command with the whole
  payload, which is longer.\<close>

theorem state_changes_pile_up:
  "put_callback json_view view StateChanged payload k =
    Ok (k\<lparr>kq_callbacks := kq_callbacks k @ [\<lparr>cb_view = view, cb_type = StateChanged, cb_payload = payload\<rparr>]\<rparr>)"
  by (rule put_callback_state_appends)

text \<open>Text typed in pieces: a text input that follows one of the same session and id is joined
  to it, in order, as one message.\<close>

theorem text_input_joins:
  assumes "session_name s" "wire_word i" "wire_word a" "wire_word b" "kq_queue k = q @ [text_msg s i a]"
  shows "put (text_msg s i b) k = Ok (k\<lparr>kq_queue := q @ [text_msg s i (a @ b)]\<rparr>)"
  by (rule put_text_combines [OF assms])

theorem text_input_joins_witness:
  "put (text_msg ''child-0'' ''0'' ''b'') (kq_empty\<lparr>kq_queue := [text_msg ''child-0'' ''0'' ''a'']\<rparr>) =
    Ok (kq_empty\<lparr>kq_queue := [text_msg ''child-0'' ''0'' ''ab'']\<rparr>)"
  using text_input_joins [of "''child-0''" "''0''" "''a''" "''b''" "kq_empty\<lparr>kq_queue := [text_msg ''child-0'' ''0'' ''a'']\<rparr>" "[]"]
  by (simp add: session_name_def wire_word_def)

text \<open>The last request for each tile, of a sequence of requests\<close>

fun latest_requests :: "tile_desc list \<Rightarrow> tile_desc list" where
  "latest_requests [] = []"
| "latest_requests (t # ts) = (if list_ex (\<lambda>u. tile_eq t u) ts then latest_requests ts else t # latest_requests ts)"

lemma latest_requests_snoc: "set (latest_requests (ts @ [t])) = insert t {u \<in> set (latest_requests ts). \<not> tile_eq u t}"
proof (induction ts)
  case (Cons u ts)
  then show ?case by (cases "list_ex (\<lambda>v. tile_eq u v) ts"; cases "tile_eq u t") auto
qed simp

lemma latest_requests_sorted: "keys_sorted q \<Longrightarrow> latest_requests q = q"
  by (induction q) (auto simp: list_ex_iff tile_eq_key)

text \<open>C30: Inserting tiles one after the other into an ordered queue gives a queue that is ordered without duplicates and holds exactly the
  last request for each tile, of those that were queued and those inserted after them: a request replaces an older one for the same tile
  and no other, and none is lost.\<close>

theorem sorted_insert_latest:
  assumes "keys_sorted q"
  shows "keys_sorted (foldl sorted_insert q ts) \<and> set (foldl sorted_insert q ts) = set (latest_requests (q @ ts))"
proof (induction ts rule: rev_induct)
  case Nil
  then show ?case using assms by (simp add: latest_requests_sorted)
next
  case (snoc t ts)
  have "keys_sorted (foldl sorted_insert q ts)" using snoc by blast
  then show ?case
    using snoc tiles.ins_sorted tiles.ins_set latest_requests_snoc [of "q @ ts" t] by (auto simp: tile_eq_key)
qed

theorem sorted_insert_latest_witness:
  "let a = sample_tile 0 0 3840; b = sample_tile 3840 0 3840; a' = a\<lparr>td_ver := 8\<rparr>
   in keys_sorted [a] \<and> set (foldl sorted_insert [a] [b, a']) = {b, a'} \<and> a \<noteq> a'"
proof -
  let ?a = "sample_tile 0 0 3840" and ?b = "sample_tile 3840 0 3840"
  have s: "keys_sorted [?a]" by simp
  have "latest_requests ([?a] @ [?b, ?a\<lparr>td_ver := 8\<rparr>]) = [?b, ?a\<lparr>td_ver := 8\<rparr>]" "?a \<noteq> ?a\<lparr>td_ver := 8\<rparr>" by code_simp+
  then show ?thesis using sorted_insert_latest [OF s, of "[?b, ?a\<lparr>td_ver := 8\<rparr>]"] s by (simp add: Let_def)
qed

end
