(* ===== verification/Deltas.thy ===== *)
theory Deltas
  imports Prelude TileDescs
begin

unbundle bit_operations_syntax

text \<open>
  \<open>DeltaGenerator\<close> of src/kit/Delta.hpp: rows of pixels run-length encoded against the pixel
  to their left, deltas between two images of a tile, and the cache of the last image of each
  tile. Pixels are 32-bit words, bytes 8-bit words; memory is little-endian.

  The compressor (zstd) is not part of the repository: \<open>zstd\<close> is an argument of the
  operations that call it, None being its error. Rows are encoded by \<open>initPixRowCpu\<close>, as on a
  machine without AVX2. The assertions are those of a debug build.
\<close>

type_synonym pixel = "32 word"
type_synonym byte = "8 word"

section \<open>Locations\<close>

record tile_location =
  tl_left :: int
  tl_top :: int
  tl_size :: int
  tl_part :: int
  tl_canonicalViewId :: int
  tl_viewMode :: int

definition location_hash :: "tile_location \<Rightarrow> 64 word" where
  "location_hash l =
    push_bit 20 (word_of_int (tl_left l)) XOR word_of_int (tl_top l) XOR push_bit 15 (word_of_int (tl_part l)) XOR
    push_bit 7 (word_of_int (tl_size l)) XOR push_bit 24 (word_of_int (tl_canonicalViewId l)) XOR
    push_bit 28 (word_of_int (tl_viewMode l))"

section \<open>Rows\<close>

record rle_row =
  rle_mask :: "64 word list"
  rle_data :: "pixel list"

definition rle_mask_units :: nat where "rle_mask_units = 4"

text \<open>
  The inner loop of \<open>initPixRowCpu\<close>, over the pixels of one mask: a pixel equal to the last
  sets its bit, another is appended to the data. The loop for whole masks ends when the bit is
  shifted out, after 64 pixels.
\<close>

fun rle_pixels :: "64 word \<Rightarrow> 64 word \<Rightarrow> pixel \<Rightarrow> pixel list \<Rightarrow> pixel list \<Rightarrow> 64 word \<times> pixel \<times> pixel list" where
  "rle_pixels bitToSet rleMask lastPix [] out = (rleMask, lastPix, out)"
| "rle_pixels bitToSet rleMask lastPix (p # ps) out =
    (if p = lastPix then rle_pixels (push_bit 1 bitToSet) (rleMask OR bitToSet) lastPix ps out
     else rle_pixels (push_bit 1 bitToSet) rleMask p ps (out @ [p]))"

text \<open>The outer loop: masks still to be made, the position, the last pixel, masks and data.\<close>

fun rle_masks :: "nat \<Rightarrow> pixel list \<Rightarrow> nat \<Rightarrow> pixel \<Rightarrow> 64 word list \<Rightarrow> pixel list \<Rightarrow> nat \<times> 64 word list \<times> pixel list" where
  "rle_masks 0 from x lastPix masks out = (x, masks, out)"
| "rle_masks (Suc n) from x lastPix masks out =
    (let chunk = (if length from - x > 64 then take 64 (drop x from) else drop x from)
     in case rle_pixels 1 0 lastPix chunk out of
       (rleMask, lastPix', out') \<Rightarrow> rle_masks n from (x + length chunk) lastPix' (masks @ [rleMask]) out')"

definition init_pix_row_cpu :: "pixel list \<Rightarrow> 64 word list \<times> pixel list" where
  "init_pix_row_cpu from =
    (case rle_masks rle_mask_units from 0 0 [] [] of
       (x, masks, out) \<Rightarrow> (masks, if x < length from then out @ drop x from else out))"

definition init_row :: "pixel list \<Rightarrow> rle_row" where
  "init_row from = (case init_pix_row_cpu from of (masks, dat) \<Rightarrow> \<lparr>rle_mask = masks, rle_data = dat\<rparr>)"

definition row_identical :: "rle_row \<Rightarrow> rle_row \<Rightarrow> bool" where
  "row_identical a b \<longleftrightarrow>
    length (rle_data a) = length (rle_data b) \<and> rle_mask a = rle_mask b \<and> rle_data a = rle_data b"

definition row_size_bytes :: "rle_row \<Rightarrow> nat" where
  "row_size_bytes r = 48 + length (rle_data r) * 4"

subsection \<open>Reading the pixels back\<close>

record pix_iterator =
  pi_masks :: "64 word list"
  pi_mask :: nat
  pi_lastPix :: pixel
  pi_lastMask :: "64 word"
  pi_bitToCheck :: "64 word"
  pi_rle :: "pixel list"

definition pix_next :: "pix_iterator \<Rightarrow> pix_iterator" where
  "pix_next it =
    (if pi_rle it = [] then it
     else
       let it1 = (if pi_bitToCheck it = 0 then
                    (if pi_mask it < 4
                     then it\<lparr>pi_lastMask := pi_masks it ! pi_mask it, pi_mask := pi_mask it + 1, pi_bitToCheck := 1\<rparr>
                     else it\<lparr>pi_lastMask := - 1, pi_bitToCheck := 1\<rparr>)
                  else it);
           it2 = (if pi_lastMask it1 AND pi_bitToCheck it1 = 0
                  then it1\<lparr>pi_lastPix := hd (pi_rle it1), pi_rle := tl (pi_rle it1)\<rparr>
                  else it1)
       in it2\<lparr>pi_bitToCheck := push_bit 1 (pi_bitToCheck it2)\<rparr>)"

definition pix_iterator_of :: "rle_row \<Rightarrow> pix_iterator" where
  "pix_iterator_of r =
    pix_next \<lparr>pi_masks = rle_mask r, pi_mask = 0, pi_lastPix = 0, pi_lastMask = 0, pi_bitToCheck = 0, pi_rle = rle_data r\<rparr>"

definition get_pixel :: "pix_iterator \<Rightarrow> pixel" where
  "get_pixel it = pi_lastPix it"

definition pix_identical :: "pix_iterator \<Rightarrow> pix_iterator \<Rightarrow> bool" where
  "pix_identical a b \<longleftrightarrow> pi_lastPix a = pi_lastPix b"

section \<open>Bytes\<close>

datatype tile_mode = RGBA | BGRA

text \<open>The bytes of a word in memory, and \<open>copy_row\<close>\<close>

definition le_bytes :: "nat \<Rightarrow> 'a::len word \<Rightarrow> byte list" where
  "le_bytes n w = map (\<lambda>i. ucast (drop_bit (8 * i) w)) [0..<n]"

fun swap_px :: "byte list \<Rightarrow> byte list" where
  "swap_px (r # g # b # a # rest) = b # g # r # a # swap_px rest"
| "swap_px bs = bs"

definition copy_row :: "pixel list \<Rightarrow> tile_mode \<Rightarrow> byte list" where
  "copy_row px mode =
    (let bytes = concat (map (le_bytes 4) px)
     in case mode of RGBA \<Rightarrow> bytes | BGRA \<Rightarrow> swap_px bytes)"

definition pack_for_network :: "rle_row \<Rightarrow> tile_mode \<Rightarrow> byte list res" where
  "pack_for_network r mode =
    (if length (rle_data r) < 65536
     then Ok ([word_of_nat (length (rle_data r)), word_of_nat (length (rle_data r) div 256)] @
       concat (map (le_bytes 8) (rle_mask r)) @
       (if length (rle_data r) > 0 then copy_row (rle_data r) mode else []))
     else Err AssertionFailed)"

section \<open>The difference of two rows\<close>

text \<open>The two inner loops of \<open>diffRowTo\<close>: pixels the same, then pixels that differ (at least
  three, at most 254).\<close>

function same_loop :: "nat \<Rightarrow> nat \<Rightarrow> nat \<Rightarrow> pix_iterator \<Rightarrow> pix_iterator \<Rightarrow> nat \<times> pix_iterator \<times> pix_iterator" where
  "same_loop width x same old cur =
    (if same + x < width \<and> pix_identical old cur
     then same_loop width x (Suc same) (pix_next old) (pix_next cur)
     else (same, old, cur))"
  by pat_completeness auto
termination
  by (relation "measure (\<lambda>(w, x, s, o', c). w - (s + x))") auto

declare same_loop.simps [simp del]

function diff_loop ::
    "nat \<Rightarrow> nat \<Rightarrow> pixel list \<Rightarrow> pix_iterator \<Rightarrow> pix_iterator \<Rightarrow> pixel list \<times> pix_iterator \<times> pix_iterator" where
  "diff_loop width x scratch old cur =
    (if length scratch + x < width \<and> (\<not> pix_identical old cur \<or> length scratch < 3) \<and> length scratch < 254
     then diff_loop width x (scratch @ [get_pixel cur]) (pix_next old) (pix_next cur)
     else (scratch, old, cur))"
  by pat_completeness auto
termination
  by (relation "measure (\<lambda>(w, x, s, o', c). w - (length s + x))") auto

declare diff_loop.simps [simp del]

lemma same_loop_ge: "same_loop width x same old cur = (same', old', cur') \<Longrightarrow> same \<le> same'"
proof (induction width x same old cur rule: same_loop.induct)
  case (1 width x same old cur)
  then show ?case by (subst (asm) (2) same_loop.simps) (auto split: if_splits)
qed

lemma diff_loop_ge: "diff_loop width x scratch old cur = (scratch', old', cur') \<Longrightarrow> length scratch \<le> length scratch'"
proof (induction width x scratch old cur rule: diff_loop.induct)
  case (1 width x scratch old cur)
  then show ?case by (subst (asm) (2) diff_loop.simps) (fastforce split: if_splits)
qed

lemma diff_loop_progress:
  assumes "x < width" "diff_loop width x [] old cur = (scratch, old', cur')"
  shows "0 < length scratch"
  using assms diff_loop_ge [of width x "[get_pixel cur]" "pix_next old" "pix_next cur" scratch old' cur']
  by (subst (asm) diff_loop.simps) auto

lemma diff_loop_stop: "([], old', cur') = diff_loop width x [] old cur \<Longrightarrow> width \<le> x"
  using diff_loop_progress [of x width old cur "[]" old' cur'] by (cases "x < width") auto

function diff_row_loop :: "tile_mode \<Rightarrow> nat \<Rightarrow> nat \<Rightarrow> nat \<Rightarrow> pix_iterator \<Rightarrow> pix_iterator \<Rightarrow> byte list \<Rightarrow> byte list" where
  "diff_row_loop mode width curY x old cur output =
    (if x < width then
       (case same_loop width x 0 old cur of
          (same, old1, cur1) \<Rightarrow>
            let x1 = x + same in
            (case diff_loop width x1 [] old1 cur1 of
               (scratch, old2, cur2) \<Rightarrow>
                 let diff = length scratch in
                 if diff > 0
                 then diff_row_loop mode width curY (x1 + diff) old2 cur2
                   (output @ [of_char (CHR ''d''), word_of_nat curY, word_of_nat x1, word_of_nat diff] @ copy_row scratch mode)
                 else diff_row_loop mode width curY x1 old2 cur2 output))
     else output)"
  by pat_completeness auto
termination
  by (relation "measure (\<lambda>(m, w, y, x, o', c, out). w - x)") 
    (auto dest: diff_loop_stop simp: length_greater_0_conv [symmetric] simp del: length_greater_0_conv)

declare diff_row_loop.simps [simp del]

definition diff_row_to :: "rle_row \<Rightarrow> rle_row \<Rightarrow> nat \<Rightarrow> nat \<Rightarrow> byte list \<Rightarrow> tile_mode \<Rightarrow> byte list" where
  "diff_row_to r curRow width curY output mode =
    diff_row_loop mode width curY 0 (pix_iterator_of r) (pix_iterator_of curRow) output"

section \<open>Images\<close>

record delta_data =
  dd_loc :: tile_location
  dd_wid :: wire_id
  dd_width :: nat
  dd_height :: nat
  dd_rows :: "rle_row list"

text \<open>The constructor: rows of a rectangle of a pixel buffer.\<close>

definition mk_delta_data ::
    "wire_id \<Rightarrow> pixel list \<Rightarrow> nat \<Rightarrow> nat \<Rightarrow> nat \<Rightarrow> nat \<Rightarrow> tile_location \<Rightarrow> nat \<Rightarrow> nat \<Rightarrow> delta_data res" where
  "mk_delta_data wid pixmap startX startY width height loc bufferWidth bufferHeight =
    (if startX + width \<le> bufferWidth \<and> startY + height \<le> bufferHeight
     then Ok \<lparr>dd_loc = loc, dd_wid = wid, dd_width = width, dd_height = height,
       dd_rows = map (\<lambda>y. init_row (take width (drop ((startY + y) * bufferWidth + startX) pixmap))) [0..<height]\<rparr>
     else Err AssertionFailed)"

definition data_size_bytes :: "delta_data \<Rightarrow> nat" where
  "data_size_bytes d = 48 + sum_list (map row_size_bytes (dd_rows d))"

definition replace_and_free :: "delta_data \<Rightarrow> delta_data \<Rightarrow> delta_data res" where
  "replace_and_free d repl =
    (if dd_loc d = dd_loc repl
     then Ok (d\<lparr>dd_wid := dd_wid repl, dd_width := dd_width repl, dd_height := dd_height repl, dd_rows := dd_rows repl\<rparr>)
     else Err AssertionFailed)"

subsection \<open>The delta of two images\<close>

text \<open>
  The state of the loop of \<open>makeDelta\<close>: \<open>lastMatchOffset\<close> is a \<open>size_t\<close>, a difference
  modulo \<open>2 ^ 64\<close>; \<open>lastCopy\<close> is the position of the count of the last copy command, 0 for
  none.
\<close>

record delta_state =
  ds_output :: "byte list"
  ds_lastMatchOffset :: int
  ds_lastCopy :: nat

definition match_row :: "nat \<Rightarrow> int \<Rightarrow> nat \<Rightarrow> nat \<Rightarrow> nat" where
  "match_row y offset yn height = nat ((int y + offset + int yn) mod 2 ^ 64) mod height"

text \<open>The hunt for the row elsewhere in the previous image: the first that matches\<close>

fun find_match :: "delta_data \<Rightarrow> rle_row \<Rightarrow> nat \<Rightarrow> int \<Rightarrow> nat list \<Rightarrow> nat option" where
  "find_match prev row y offset [] = None"
| "find_match prev row y offset (yn # yns) =
    (let m = match_row y offset yn (dd_height prev)
     in if row_identical (dd_rows prev ! m) row then Some m else find_match prev row y offset yns)"

text \<open>Extending the last copy command, or a new one\<close>

definition can_extend :: "delta_state \<Rightarrow> nat \<Rightarrow> nat \<Rightarrow> nat \<Rightarrow> bool" where
  "can_extend st m y height \<longleftrightarrow>
    ds_lastCopy st > 0 \<and>
    (let cnt = unat (ds_output st ! ds_lastCopy st);
         src = unat (ds_output st ! (ds_lastCopy st + 1));
         dest = unat (ds_output st ! (ds_lastCopy st + 2))
     in src + cnt = m \<and> dest + cnt = y \<and> src + cnt + 1 < height)"

definition copy_step :: "nat \<Rightarrow> nat \<Rightarrow> nat \<Rightarrow> delta_state \<Rightarrow> delta_state" where
  "copy_step height y m st =
    (if can_extend st m y height
     then st\<lparr>ds_output := (ds_output st)[ds_lastCopy st := ds_output st ! ds_lastCopy st + 1]\<rparr>
     else st\<lparr>ds_lastMatchOffset := (int m - int y) mod 2 ^ 64,
       ds_lastCopy := length (ds_output st) + 1,
       ds_output := ds_output st @ [of_char (CHR ''c''), 1, word_of_nat m, word_of_nat y]\<rparr>)"

definition delta_step :: "delta_data \<Rightarrow> delta_data \<Rightarrow> tile_mode \<Rightarrow> nat \<Rightarrow> delta_state \<Rightarrow> delta_state" where
  "delta_step prev cur mode y st =
    (if row_identical (dd_rows prev ! y) (dd_rows cur ! y) then st
     else case find_match prev (dd_rows cur ! y) y (ds_lastMatchOffset st) [0..<dd_height prev] of
       Some m \<Rightarrow> copy_step (dd_height prev) y m st
     | None \<Rightarrow> st\<lparr>ds_output := diff_row_to (dd_rows prev ! y) (dd_rows cur ! y) (dd_width prev) y (ds_output st) mode\<rparr>)"

definition delta_output :: "delta_data \<Rightarrow> delta_data \<Rightarrow> tile_mode \<Rightarrow> byte list" where
  "delta_output prev cur mode =
    ds_output (fold (delta_step prev cur mode) [0..<dd_height prev]
      \<lparr>ds_output = [], ds_lastMatchOffset = 0, ds_lastCopy = 0\<rparr>)"

text \<open>\<open>makeDelta\<close>: whether there is a delta, and the stream with it appended\<close>

definition make_delta ::
    "(byte list \<Rightarrow> byte list option) \<Rightarrow> delta_data \<Rightarrow> delta_data \<Rightarrow> byte list \<Rightarrow> tile_mode \<Rightarrow> (bool \<times> byte list) res" where
  "make_delta zstd prev cur outStream mode =
    (if dd_width prev \<noteq> dd_width cur \<or> dd_height prev \<noteq> dd_height cur then Ok (False, outStream)
     else if \<not> (dd_height prev \<le> 256 \<and> dd_width prev \<le> 256) then Err AssertionFailed
     else
       let outp = delta_output prev cur mode in
       if outp = [] then Ok (True, outStream @ [of_char (CHR ''D'')])
       else case zstd (outp @ [of_char (CHR ''t'')]) of
         None \<Rightarrow> Ok (False, outStream)
       | Some z \<Rightarrow> Ok (True, outStream @ of_char (CHR ''D'') # z))"

section \<open>The generator\<close>

text \<open>The entries, one for each location (an unordered set keyed by location).\<close>

record delta_generator =
  dg_entries :: "delta_data list"
  dg_maxEntries :: nat

definition dg_init :: delta_generator where
  "dg_init = \<lparr>dg_entries = [], dg_maxEntries = 0\<rparr>"

definition same_location :: "delta_data \<Rightarrow> delta_data \<Rightarrow> bool" where
  "same_location a b \<longleftrightarrow> dd_loc a = dd_loc b"

text \<open>The oldest entries, by wire id, are erased.\<close>

definition rebalance_deltas_t :: "bool \<Rightarrow> delta_generator \<Rightarrow> delta_generator" where
  "rebalance_deltas_t dropAll g =
    (if length (dg_entries g) > dg_maxEntries g \<or> dropAll then
       let toRemove = (if \<not> dropAll then length (dg_entries g) - dg_maxEntries g * 3 div 4 else length (dg_entries g));
           entries = sort_key dd_wid (dg_entries g)
       in g\<lparr>dg_entries := filter (\<lambda>e. \<not> list_ex (same_location e) (take toRemove entries)) (dg_entries g)\<rparr>
     else g)"

definition rebalance_deltas :: "int \<Rightarrow> delta_generator \<Rightarrow> delta_generator" where
  "rebalance_deltas limit g =
    rebalance_deltas_t False (if limit > 0 then g\<lparr>dg_maxEntries := nat limit\<rparr> else g)"

definition set_session_count :: "nat \<Rightarrow> delta_generator \<Rightarrow> delta_generator" where
  "set_session_count n g = rebalance_deltas (int (max n 1 * 96)) g"

definition drop_cache :: "delta_generator \<Rightarrow> delta_generator" where
  "drop_cache g = rebalance_deltas_t True g"

fun find_entry :: "tile_location \<Rightarrow> delta_data list \<Rightarrow> delta_data option" where
  "find_entry loc [] = None"
| "find_entry loc (e # es) = (if dd_loc e = loc then Some e else find_entry loc es)"

definition set_entry :: "delta_data \<Rightarrow> delta_data list \<Rightarrow> delta_data list" where
  "set_entry d es = map (\<lambda>e. if dd_loc e = dd_loc d then d else e) es"

text \<open>
  \<open>createDelta\<close>: whether a delta was made, the output, the image the row data is taken from
  (none for a bad width), and the generator. The width and height come in as checked.
\<close>

definition create_delta ::
    "(byte list \<Rightarrow> byte list option) \<Rightarrow> pixel list \<Rightarrow> nat \<Rightarrow> nat \<Rightarrow> nat \<Rightarrow> nat \<Rightarrow> nat \<Rightarrow> nat \<Rightarrow> tile_location \<Rightarrow>
     byte list \<Rightarrow> wire_id \<Rightarrow> bool \<Rightarrow> tile_mode \<Rightarrow> delta_generator \<Rightarrow>
     (bool \<times> byte list \<times> delta_data option \<times> delta_generator) res" where
  "create_delta zstd pixmap startX startY width height bufferWidth bufferHeight loc outp wid forceKeyframe mode g =
    (if odd width then Ok (False, outp, None, g)
     else if width > 256 \<or> height > 256 then Err AssertionFailed
     else res_bind (mk_delta_data wid pixmap startX startY width height loc bufferWidth bufferHeight) (\<lambda>update.
       case find_entry loc (dg_entries g) of
         None \<Rightarrow> Ok (False, outp, Some update, g\<lparr>dg_entries := dg_entries g @ [update]\<rparr>)
       | Some cacheEntry \<Rightarrow>
           res_bind (if \<not> forceKeyframe then make_delta zstd cacheEntry update outp mode else Ok (False, outp))
             (\<lambda>(delta, outp').
             res_bind (replace_and_free cacheEntry update) (\<lambda>e.
               Ok (delta, outp', Some e, g\<lparr>dg_entries := set_entry e (dg_entries g)\<rparr>)))))"

text \<open>The packed rows of a whole image\<close>

fun pack_rows :: "tile_mode \<Rightarrow> rle_row list \<Rightarrow> byte list res" where
  "pack_rows mode [] = Ok []"
| "pack_rows mode (r # rs) =
    res_bind (pack_for_network r mode) (\<lambda>b. res_bind (pack_rows mode rs) (\<lambda>bs. Ok (b @ bs)))"

text \<open>
  \<open>compressOrDelta\<close> (less the debug dumps): a delta when one can be made, else the whole image.
  A compressor error leaves the output as it is and returns 0. The rows go through the
  streaming interface of the compressor, which makes one frame of what they concatenate to.
\<close>

definition compress_or_delta ::
    "(byte list \<Rightarrow> byte list option) \<Rightarrow> pixel list \<Rightarrow> nat \<Rightarrow> nat \<Rightarrow> nat \<Rightarrow> nat \<Rightarrow> nat \<Rightarrow> nat \<Rightarrow> tile_location \<Rightarrow>
     byte list \<Rightarrow> wire_id \<Rightarrow> bool \<Rightarrow> tile_mode \<Rightarrow> delta_generator \<Rightarrow>
     (nat \<times> byte list \<times> delta_generator) res" where
  "compress_or_delta zstd pixmap startX startY width height bufferWidth bufferHeight loc outp wid forceKeyframe mode g =
    res_bind (create_delta zstd pixmap startX startY width height bufferWidth bufferHeight loc outp wid forceKeyframe mode g)
      (\<lambda>(delta, outp', rleData, g').
        if delta then Ok (length outp', outp', g')
        else case rleData of
          None \<Rightarrow> Err AssertionFailed
        | Some d \<Rightarrow>
            res_bind (pack_rows mode (take height (dd_rows d))) (\<lambda>bytes.
              case zstd bytes of
                None \<Rightarrow> Ok (0, outp', g')
              | Some z \<Rightarrow>
                  let outp'' = outp' @ of_char (CHR ''Z'') # z in Ok (length outp'', outp'', g')))"

section \<open>Expanding a whole image\<close>

text \<open>
  \<open>expand\<close>, used by tests: the loop over the pixels of a row. A read past the mask bytes or
  past the unique pixels is an error.
\<close>

fun expand_pixels :: "nat \<Rightarrow> pixel \<Rightarrow> 32 word \<Rightarrow> 32 word \<Rightarrow> byte list \<Rightarrow> pixel list \<Rightarrow> pixel list res" where
  "expand_pixels 0 lastPix lastMask bitToCheck masks unique = Ok []"
| "expand_pixels (Suc n) lastPix lastMask bitToCheck masks unique =
    (if bitToCheck > 128 \<and> masks = [] then Err OutOfBounds
     else
       let (bit1, mask1, masks1) =
             (if bitToCheck > 128 then (1, signed_take_bit 7 (ucast (hd masks)), tl masks)
              else (bitToCheck, lastMask, masks))
       in if mask1 AND bit1 = 0 then
            (case unique of
               [] \<Rightarrow> Err OutOfBounds
             | u # us \<Rightarrow> res_bind (expand_pixels n u mask1 (push_bit 1 bit1) masks1 us) (\<lambda>ps. Ok (u # ps)))
          else res_bind (expand_pixels n lastPix mask1 (push_bit 1 bit1) masks1 unique) (\<lambda>ps. Ok (lastPix # ps)))"

fun pixels_of_bytes :: "byte list \<Rightarrow> pixel list" where
  "pixels_of_bytes (a # b # c # d # bs) =
    (ucast a OR push_bit 8 (ucast b) OR push_bit 16 (ucast c) OR push_bit 24 (ucast d)) # pixels_of_bytes bs"
| "pixels_of_bytes bs = []"

text \<open>One row from the front of the decompressed image: its pixels, and what is left\<close>

definition expand_row :: "byte list \<Rightarrow> (pixel list \<times> byte list) res" where
  "expand_row img =
    (if length img < 34 then Err OutOfBounds
     else
       let rleSize = unat (img ! 0) + unat (img ! 1) * 256;
           masks = take 32 (drop 2 img);
           dat = drop 34 img
       in if rleSize > 256 \<or> length dat < rleSize * 4 then Err OutOfBounds
          else res_bind (expand_pixels 256 0 0 256 masks (pixels_of_bytes (take (rleSize * 4) dat)))
            (\<lambda>ps. Ok (ps, drop (rleSize * 4) dat)))"

fun expand_rows :: "nat \<Rightarrow> byte list \<Rightarrow> pixel list list res" where
  "expand_rows 0 img = Ok []"
| "expand_rows (Suc n) img =
    res_bind (expand_row img) (\<lambda>(ps, rest). res_bind (expand_rows n rest) (\<lambda>rows. Ok (ps # rows)))"

text \<open>The result blob: each pixel is stored into one \<open>char\<close> of it, its low byte.\<close>

definition expand :: "(byte list \<Rightarrow> byte list option) \<Rightarrow> byte list \<Rightarrow> byte list res" where
  "expand unzstd blob =
    (case unzstd blob of
       None \<Rightarrow> Ok []
     | Some img \<Rightarrow> res_bind (expand_rows 256 img) (\<lambda>rows.
         Ok (map (\<lambda>p. ucast p) (concat rows) @ replicate (256 * 256 * 3) 0)))"

end
