(* ===== verification/DeltaRows.thy ===== *)
theory DeltaRows
  imports Deltas
begin

unbundle bit_operations_syntax

text \<open>
  The run-length encoding of a row: what the masks and the data are in terms of the pixels,
  that the iterator reads the pixels back, and that two rows of the same width are identical
  exactly when their pixels are.
\<close>

section \<open>What is encoded\<close>

text \<open>Which pixels repeat the one before, and those that do not.\<close>

fun repeats :: "pixel \<Rightarrow> pixel list \<Rightarrow> bool list" where
  "repeats l [] = []"
| "repeats l (p # ps) = (p = l) # repeats p ps"

fun changes :: "pixel \<Rightarrow> pixel list \<Rightarrow> pixel list" where
  "changes l [] = []"
| "changes l (p # ps) = (if p = l then changes l ps else p # changes p ps)"

lemma length_repeats [simp]: "length (repeats l ps) = length ps"
  by (induction ps arbitrary: l) auto

lemma repeats_append: "repeats l (ps @ qs) = repeats l ps @ repeats (last (l # ps)) qs"
  by (induction ps arbitrary: l) auto

lemma changes_append: "changes l (ps @ qs) = changes l ps @ changes (last (l # ps)) qs"
  by (induction ps arbitrary: l) auto

lemma changes_Nil: "changes l ps = [] \<longleftrightarrow> (\<forall>p \<in> set ps. p = l)"
  by (induction ps arbitrary: l) auto

text \<open>The bits of a mask, least significant first.\<close>

definition mask_bits :: "64 word \<Rightarrow> bool list" where
  "mask_bits m = map (bit m) [0..<64]"

lemma length_mask_bits [simp]: "length (mask_bits m) = 64"
  by (simp add: mask_bits_def)

lemma rle_pixels_spec:
  assumes "j + length ps \<le> 64" "\<forall>k \<ge> j. \<not> bit rleMask k"
  shows "rle_pixels (push_bit j 1) rleMask l ps out = (m, l', out') \<Longrightarrow>
    l' = last (l # ps) \<and> out' = out @ changes l ps \<and>
    (\<forall>k < j. bit m k = bit rleMask k) \<and> (\<forall>k < length ps. bit m (j + k) = repeats l ps ! k) \<and>
    (\<forall>k \<ge> j + length ps. \<not> bit m k)"
  using assms
proof (induction ps arbitrary: j rleMask l out)
  case Nil
  then show ?case by auto
next
  case (Cons p ps)
  have b: "bit (push_bit j (1 :: 64 word)) k \<longleftrightarrow> k = j" if "j < 64" for k
    using that by (auto simp: push_bit_of_1 bit_exp_iff)
  have j: "j < 64" "Suc j + length ps \<le> 64" using Cons.prems(2) by auto
  have pb: "push_bit 1 (push_bit j (1 :: 64 word)) = push_bit (Suc j) 1" by (simp add: push_bit_push_bit)
  define rm where "rm = (if p = l then rleMask OR push_bit j 1 else rleMask)"
  have rm: "bit rm k \<longleftrightarrow> bit rleMask k \<or> (p = l \<and> k = j)" for k
    using b [OF j(1)] by (simp add: rm_def bit_or_iff)
  have step: "rle_pixels (push_bit (Suc j) 1) rm p ps (if p = l then out else out @ [p]) = (m, l', out')"
    using Cons.prems(1) unfolding rm_def rle_pixels.simps pb by (cases "p = l") (simp_all only: if_True if_False refl)
  have "\<forall>k \<ge> Suc j. \<not> bit rm k" using Cons.prems(3) rm by auto
  note ih = Cons.IH [OF step j(2) this]
  have "bit m j \<longleftrightarrow> p = l" using ih rm [of j] Cons.prems(3) by auto
  moreover have "bit m (Suc (j + i)) = repeats p ps ! i" if "i < length ps" for i using ih that by auto
  ultimately have "bit m (j + k) = repeats l (p # ps) ! k" if "k < length (p # ps)" for k
    using that by (cases k) auto
  then show ?case using ih rm by (auto simp: less_Suc_eq)
qed

lemma rle_pixels_mask:
  assumes "length ps \<le> 64" "rle_pixels 1 0 l ps out = (m, l', out')"
  shows "l' = last (l # ps)" "out' = out @ changes l ps"
    "mask_bits m = repeats l ps @ replicate (64 - length ps) False"
proof -
  have "rle_pixels (push_bit 0 1) 0 l ps out = (m, l', out')" using assms(2) by simp
  note s = rle_pixels_spec [OF _ _ this]
  show "l' = last (l # ps)" "out' = out @ changes l ps" using s assms(1) by simp_all
  show "mask_bits m = repeats l ps @ replicate (64 - length ps) False"
    using s assms(1) by (intro nth_equalityI) (auto simp: mask_bits_def nth_append)
qed

text \<open>All masks: their bits are the repeats, padded with zeros.\<close>

lemma rle_masks_spec:
  assumes "length from - x \<le> 64 * n" "x \<le> length from"
    and "rle_masks n from x l masks out = (x', masks', out')"
  shows "x' = length from \<and> out' = out @ changes l (drop x from) \<and> length masks' = length masks + n \<and>
    (\<exists>pad. concat (map mask_bits masks') = concat (map mask_bits masks) @ repeats l (drop x from) @ pad)"
  using assms
proof (induction n arbitrary: x l masks out)
  case 0
  then show ?case by auto
next
  case (Suc n)
  define chunk where "chunk = (if length from - x > 64 then take 64 (drop x from) else drop x from)"
  obtain m l1 out1 where r: "rle_pixels 1 0 l chunk out = (m, l1, out1)" by (rule prod_cases3)
  have len: "length chunk \<le> 64" by (auto simp: chunk_def)
  note s = rle_pixels_mask [OF len r]
  have step: "rle_masks n from (x + length chunk) l1 (masks @ [m]) out1 = (x', masks', out')"
    using Suc.prems(3) r by (simp add: chunk_def [symmetric] Let_def)
  have d: "drop x from = chunk @ drop (x + length chunk) from"
  proof -
    have "chunk = take (length chunk) (drop x from)" by (auto simp: chunk_def)
    moreover have "drop (x + length chunk) from = drop (length chunk) (drop x from)" by (simp add: add.commute)
    ultimately show ?thesis by (metis append_take_drop_id)
  qed
  have "length from - (x + length chunk) \<le> 64 * n" "x + length chunk \<le> length from"
    using Suc.prems(1,2) by (auto simp: chunk_def)
  note ih = Suc.IH [OF this step]
  obtain pad where pad: "concat (map mask_bits masks') = concat (map mask_bits (masks @ [m])) @ repeats l1 (drop (x + length chunk) from) @ pad"
    using ih by blast
  have "\<exists>pad. concat (map mask_bits masks') = concat (map mask_bits masks) @ repeats l (drop x from) @ pad"
  proof (cases "length chunk = 64")
    case True
    then show ?thesis using pad s by (subst d) (auto simp: repeats_append)
  next
    case False
    then have "drop (x + length chunk) from = []" using Suc.prems(2) by (auto simp: chunk_def split: if_splits)
    then show ?thesis using pad s d by (auto simp: repeats_append)
  qed
  moreover have "out' = out @ changes l (drop x from)" using ih s by (subst d) (simp add: changes_append)
  ultimately show ?case using ih by simp
qed

lemma init_row_spec:
  assumes "length ps \<le> 256"
  shows "rle_data (init_row ps) = changes 0 ps" "length (rle_mask (init_row ps)) = 4"
    "\<exists>pad. concat (map mask_bits (rle_mask (init_row ps))) = repeats 0 ps @ pad"
proof -
  obtain x masks out where r: "rle_masks 4 ps 0 0 [] [] = (x, masks, out)" by (rule prod_cases3)
  have "x = length ps \<and> out = changes 0 ps \<and> length masks = 4 \<and> (\<exists>pad. concat (map mask_bits masks) = repeats 0 ps @ pad)"
    using rle_masks_spec [OF _ _ r] assms by simp
  moreover have "init_row ps = \<lparr>rle_mask = masks, rle_data = if x < length ps then out @ drop x ps else out\<rparr>"
    using r by (simp add: init_row_def init_pix_row_cpu_def rle_mask_units_def)
  ultimately show "rle_data (init_row ps) = changes 0 ps" "length (rle_mask (init_row ps)) = 4"
    "\<exists>pad. concat (map mask_bits (rle_mask (init_row ps))) = repeats 0 ps @ pad" by auto
qed

section \<open>Reading back\<close>

text \<open>The bits an iterator has still to look at.\<close>

definition pending_bits :: "pix_iterator \<Rightarrow> bool list" where
  "pending_bits it =
    (if pi_bitToCheck it = 0 then []
     else drop (THE j. pi_bitToCheck it = push_bit j 1 \<and> j < 64) (mask_bits (pi_lastMask it))) @
    concat (map mask_bits (drop (pi_mask it) (pi_masks it)))"

definition iter_wf :: "pix_iterator \<Rightarrow> bool" where
  "iter_wf it \<longleftrightarrow> length (pi_masks it) = 4 \<and> (\<exists>j \<le> 64. pi_bitToCheck it = push_bit j 1)"

lemma push_bit_one_inj: "j < 64 \<Longrightarrow> i < 64 \<Longrightarrow> push_bit j (1 :: 64 word) = push_bit i 1 \<longleftrightarrow> i = j"
proof -
  assume "j < 64" "i < 64"
  then have "bit (push_bit j (1 :: 64 word)) j" "bit (push_bit i (1 :: 64 word)) j \<longleftrightarrow> i = j"
    by (auto simp: push_bit_of_1 bit_exp_iff)
  then show ?thesis by auto
qed

lemma push_bit_one_zero: "j \<le> 64 \<Longrightarrow> push_bit j (1 :: 64 word) = 0 \<longleftrightarrow> j = 64"
  by (auto simp: push_bit_of_1 exp_eq_zero_iff)

lemma pending_bits_at:
  assumes "pi_bitToCheck it = push_bit j 1" "j \<le> 64"
  shows "pending_bits it = drop j (mask_bits (pi_lastMask it)) @ concat (map mask_bits (drop (pi_mask it) (pi_masks it)))"
proof (cases "j = 64")
  case True
  then have "pi_bitToCheck it = 0" using assms push_bit_one_zero [of j] by simp
  then show ?thesis using True by (simp add: pending_bits_def)
next
  case False
  then have j: "j < 64" using assms by simp
  then have "pi_bitToCheck it \<noteq> 0" using assms push_bit_one_zero by simp
  moreover have "(THE i. pi_bitToCheck it = push_bit i 1 \<and> i < 64) = j"
    using assms j push_bit_one_inj by (intro the_equality) auto
  ultimately show ?thesis by (simp add: pending_bits_def)
qed

lemma mask_and_bit: "j < 64 \<Longrightarrow> m AND push_bit j 1 = (0 :: 64 word) \<longleftrightarrow> \<not> bit m j"
proof -
  assume j: "j < 64"
  have b: "bit (m AND push_bit j 1) k \<longleftrightarrow> bit m j \<and> k = j" for k
    using j by (auto simp: push_bit_of_1 bit_and_iff bit_exp_iff)
  show ?thesis
  proof
    assume "m AND push_bit j 1 = 0"
    then show "\<not> bit m j" using b [of j] by simp
  next
    assume "\<not> bit m j"
    then show "m AND push_bit j 1 = 0" using b by (intro bit_word_eqI) simp
  qed
qed

text \<open>One step consumes one bit, and a pixel when the bit is not set.\<close>

lemma pix_next_step:
  assumes "iter_wf it" "pending_bits it = b # bs" "pi_rle it = d # ds"
  shows "iter_wf (pix_next it)" "pending_bits (pix_next it) = bs"
    "pi_lastPix (pix_next it) = (if b then pi_lastPix it else d)"
    "pi_rle (pix_next it) = (if b then d # ds else ds)"
proof -
  obtain i where i: "i \<le> 64" "pi_bitToCheck it = push_bit i 1" using assms(1) by (auto simp: iter_wf_def)
  have len: "length (pi_masks it) = 4" using assms(1) by (simp add: iter_wf_def)
  define it1 where "it1 = (if pi_bitToCheck it = 0 then
                    (if pi_mask it < 4
                     then it\<lparr>pi_lastMask := pi_masks it ! pi_mask it, pi_mask := pi_mask it + 1, pi_bitToCheck := 1\<rparr>
                     else it\<lparr>pi_lastMask := - 1, pi_bitToCheck := 1\<rparr>)
                  else it)"
  obtain j where j: "j < 64" "pi_bitToCheck it1 = push_bit j 1" and p1: "pending_bits it1 = b # bs"
    and keep: "pi_lastPix it1 = pi_lastPix it" "pi_rle it1 = pi_rle it" "pi_masks it1 = pi_masks it"
  proof (cases "i = 64")
    case True
    then have z: "pi_bitToCheck it = 0" using i push_bit_one_zero by simp
    then have bits: "concat (map mask_bits (drop (pi_mask it) (pi_masks it))) = b # bs" using assms(2) by (simp add: pending_bits_def)
    have m: "pi_mask it < 4"
    proof (rule ccontr)
      assume "\<not> pi_mask it < 4"
      then show False using bits len by simp
    qed
    then have e: "it1 = it\<lparr>pi_lastMask := pi_masks it ! pi_mask it, pi_mask := pi_mask it + 1, pi_bitToCheck := 1\<rparr>"
      using z by (simp add: it1_def)
    have "drop (pi_mask it) (pi_masks it) = pi_masks it ! pi_mask it # drop (Suc (pi_mask it)) (pi_masks it)"
      using m len by (simp add: Cons_nth_drop_Suc)
    then have "pending_bits it1 = b # bs" using bits pending_bits_at [of it1 0] by (simp add: e)
    then show ?thesis using that [of 0] by (simp add: e)
  next
    case False
    then have "pi_bitToCheck it \<noteq> 0" "i < 64" using i push_bit_one_zero by auto
    then have "it1 = it" by (simp add: it1_def)
    then show ?thesis using that [of i] i assms(2) \<open>i < 64\<close> by simp
  qed
  have hd: "drop j (mask_bits (pi_lastMask it1)) = bit (pi_lastMask it1) j # drop (Suc j) (mask_bits (pi_lastMask it1))"
    using j(1) by (simp add: Cons_nth_drop_Suc [symmetric] mask_bits_def)
  have p: "b = bit (pi_lastMask it1) j" "bs = drop (Suc j) (mask_bits (pi_lastMask it1)) @ concat (map mask_bits (drop (pi_mask it1) (pi_masks it1)))"
    using p1 pending_bits_at [OF j(2)] j(1) hd by simp_all
  define it2 where "it2 = (if pi_lastMask it1 AND pi_bitToCheck it1 = 0
                  then it1\<lparr>pi_lastPix := hd (pi_rle it1), pi_rle := tl (pi_rle it1)\<rparr> else it1)"
  have n: "pix_next it = it2\<lparr>pi_bitToCheck := push_bit 1 (pi_bitToCheck it2)\<rparr>"
    using assms(3) by (simp add: pix_next_def it1_def [symmetric] it2_def [symmetric] Let_def)
  have zero: "pi_lastMask it1 AND pi_bitToCheck it1 = 0 \<longleftrightarrow> \<not> b" using p(1) j mask_and_bit by simp
  have i2: "pi_masks it2 = pi_masks it1" "pi_mask it2 = pi_mask it1" "pi_lastMask it2 = pi_lastMask it1" "pi_bitToCheck it2 = pi_bitToCheck it1"
    by (auto simp: it2_def)
  have bit': "pi_bitToCheck (pix_next it) = push_bit (Suc j) 1" by (simp add: n i2 j(2) push_bit_push_bit)
  show "iter_wf (pix_next it)" using bit' j(1) len keep(3) i2(1) by (auto simp: iter_wf_def n i2 intro!: exI [of _ "Suc j"])
  show "pending_bits (pix_next it) = bs" using pending_bits_at [OF bit'] j(1) p(2) by (simp add: n i2)
  show "pi_lastPix (pix_next it) = (if b then pi_lastPix it else d)" "pi_rle (pix_next it) = (if b then d # ds else ds)"
    using zero keep assms(3) by (auto simp: n it2_def)
qed

text \<open>An iterator that will read these pixels, the current one first.\<close>

fun reads :: "pix_iterator \<Rightarrow> pixel list \<Rightarrow> bool" where
  "reads it [] = True"
| "reads it (p # ps) \<longleftrightarrow>
    get_pixel it = p \<and> iter_wf it \<and> pi_rle it = changes p ps \<and>
    (changes p ps = [] \<or> (\<exists>pad. pending_bits it = repeats p ps @ pad))"

lemma reads_next:
  assumes "reads it (p # ps)"
  shows "reads (pix_next it) ps"
proof (cases ps)
  case (Cons q qs)
  have r: "get_pixel it = p" "iter_wf it" "pi_rle it = changes p ps" using assms by simp_all
  show ?thesis
  proof (cases "changes p ps")
    case Nil
    then have "q = p" "changes p qs = []" using Cons by (simp_all split: if_splits)
    then show ?thesis using r Nil Cons by (simp add: pix_next_def)
  next
    case d: (Cons d ds)
    obtain pad where b: "pending_bits it = (q = p) # repeats q qs @ pad" using assms d Cons by auto
    have rle: "pi_rle it = d # ds" using r d by simp
    note s = pix_next_step [OF r(2) b rle]
    show ?thesis
    proof (cases "q = p")
      case True
      then show ?thesis using s r d Cons by (auto simp: get_pixel_def)
    next
      case False
      then have "d = q" "ds = changes q qs" using d Cons by auto
      then show ?thesis using s False Cons by (auto simp: get_pixel_def)
    qed
  qed
qed simp

lemma reads_head: "reads it (p # ps) \<Longrightarrow> get_pixel it = p"
  by simp

text \<open>The iterator of an encoded row reads its pixels.\<close>

lemma reads_init:
  assumes "length ps \<le> 256"
  shows "reads (pix_iterator_of (init_row ps)) ps"
proof -
  let ?r = "init_row ps"
  let ?it = "\<lparr>pi_masks = rle_mask ?r, pi_mask = 0, pi_lastPix = 0, pi_lastMask = 0, pi_bitToCheck = 0, pi_rle = rle_data ?r\<rparr>"
  obtain pad where pad: "concat (map mask_bits (rle_mask ?r)) = repeats 0 ps @ pad" using init_row_spec(3) [OF assms] by blast
  have "push_bit 64 (1 :: 64 word) = 0" by (simp add: push_bit_of_1)
  then have "iter_wf ?it" using init_row_spec(2) [OF assms] by (auto simp: iter_wf_def intro!: exI [of _ 64])
  then have "reads ?it (0 # ps)" using init_row_spec(1) [OF assms] pad by (simp add: get_pixel_def pending_bits_def)
  then show ?thesis unfolding pix_iterator_of_def by (rule reads_next)
qed

text \<open>So the encoding loses nothing, and identical rows are rows of the same pixels.\<close>

lemma repeats_changes_inj:
  "length ps = length qs \<Longrightarrow> repeats l ps = repeats l qs \<Longrightarrow> changes l ps = changes l qs \<Longrightarrow> ps = qs"
proof (induction ps qs arbitrary: l rule: list_induct2)
  case (Cons p ps q qs)
  then have "(p = l) = (q = l)" by simp
  then show ?case using Cons by (cases "p = l") auto
qed simp

lemma row_identical_iff:
  assumes "length ps = length qs" "length ps \<le> 256"
  shows "row_identical (init_row ps) (init_row qs) \<longleftrightarrow> ps = qs"
proof
  assume r: "row_identical (init_row ps) (init_row qs)"
  obtain pad pad' where "concat (map mask_bits (rle_mask (init_row ps))) = repeats 0 ps @ pad"
    "concat (map mask_bits (rle_mask (init_row qs))) = repeats 0 qs @ pad'"
    using init_row_spec(3) assms by metis
  then have "repeats 0 ps = repeats 0 qs" using r assms(1) by (simp add: row_identical_def)
  moreover have "changes 0 ps = changes 0 qs"
    using r assms init_row_spec(1) [of ps] init_row_spec(1) [of qs] by (simp add: row_identical_def)
  ultimately show "ps = qs" by (rule repeats_changes_inj [OF assms(1)])
qed (simp add: row_identical_def)

end
