(* ===== verification/DeltaApply.thy ===== *)
theory DeltaApply
  imports DeltaRows
begin

text \<open>
  Deltas do what they are for: applying the delta of two images to the first gives the second.
  The decoder is \<open>applyDelta\<close> of src/test/DeltaTests.cpp, which works on the bytes of an image
  as the browser's does; reading or writing outside its buffers is an error.
\<close>

section \<open>The decoder\<close>

definition overwrite :: "nat \<Rightarrow> 'a list \<Rightarrow> 'a list \<Rightarrow> 'a list" where
  "overwrite pos bs out = take pos out @ bs @ drop (pos + length bs) out"

definition write_bytes :: "nat \<Rightarrow> byte list \<Rightarrow> byte list \<Rightarrow> byte list res" where
  "write_bytes pos bs out = (if pos + length bs \<le> length out then Ok (overwrite pos bs out) else Err OutOfBounds)"

text \<open>The rows of a copy command, one after the other\<close>

fun apply_copy :: "nat \<Rightarrow> byte list \<Rightarrow> nat \<Rightarrow> nat \<Rightarrow> nat list \<Rightarrow> byte list \<Rightarrow> byte list res" where
  "apply_copy w pixmap src dest [] out = Ok out"
| "apply_copy w pixmap src dest (cnt # cnts) out =
    (if w * (src + cnt) * 4 + w * 4 > length pixmap then Err OutOfBounds
     else res_bind (write_bytes (w * (dest + cnt) * 4) (take (w * 4) (drop (w * (src + cnt) * 4) pixmap)) out)
       (apply_copy w pixmap src dest cnts))"

text \<open>The pixels of a run: what is left of the delta, and the image\<close>

fun apply_run :: "nat \<Rightarrow> nat \<Rightarrow> byte list \<Rightarrow> byte list \<Rightarrow> (byte list \<times> byte list) res" where
  "apply_run 0 pos delta out = Ok (delta, out)"
| "apply_run (Suc n) pos [] out = Ok ([], out)"
| "apply_run (Suc n) pos (a # b # c # d # delta) out =
    res_bind (write_bytes pos [a, b, c, d] out) (apply_run n (pos + 4) delta)"
| "apply_run (Suc n) pos delta out = Err OutOfBounds"

lemma apply_run_shorter: "apply_run n pos delta out = Ok (rest, out') \<Longrightarrow> length rest \<le> length delta"
proof (induction n pos delta out rule: apply_run.induct)
  case (3 n pos a b c d delta out)
  then show ?case by (fastforce simp: res_bind_Ok)
qed auto

function apply_loop :: "nat \<Rightarrow> nat \<Rightarrow> byte list \<Rightarrow> byte list \<Rightarrow> byte list \<Rightarrow> byte list res" where
  "apply_loop w h pixmap delta out =
    (case delta of
       [] \<Rightarrow> Ok out
     | op # args \<Rightarrow>
         if op = of_char (CHR ''c'') then
           (if length args < 3 then Err OutOfBounds
            else
              let cnt = unat (args ! 0); src = unat (args ! 1); dest = unat (args ! 2)
              in if src + cnt \<le> h
                 then case apply_copy w pixmap src dest [0..<cnt] out of
                   Inl e \<Rightarrow> Inl e
                 | Inr out' \<Rightarrow> apply_loop w h pixmap (drop 3 args) out'
                 else Err AssertionFailed)
         else if op = of_char (CHR ''d'') then
           (if length args < 3 then Err OutOfBounds
            else
              let dest = unat (args ! 0); col = unat (args ! 1); len = unat (args ! 2)
              in if int len \<le> (int w - int col) mod 2 ^ 64
                 then case apply_run len (w * dest * 4 + col * 4) (drop 3 args) out of
                   Inl e \<Rightarrow> Inl e
                 | Inr (rest, out') \<Rightarrow> apply_loop w h pixmap rest out'
                 else Err AssertionFailed)
         else if op = of_char (CHR ''t'') then
           (if args = [] then Ok out else Err AssertionFailed)
         else Err AssertionFailed)"
  by pat_completeness auto
termination
  by (relation "measure (\<lambda>(w, h, p, delta, out). length delta)") (auto dest!: apply_run_shorter)

declare apply_loop.simps [simp del]

text \<open>\<open>applyDelta\<close>, once the delta is decompressed\<close>

definition apply_delta :: "byte list \<Rightarrow> nat \<Rightarrow> nat \<Rightarrow> byte list \<Rightarrow> byte list res" where
  "apply_delta pixmap w h delta =
    (if length pixmap = w * h * 4 then
       (if pixmap = [] then (if delta = [] then Ok pixmap else Err AssertionFailed)
        else apply_loop w h pixmap delta pixmap)
     else Err AssertionFailed)"

section \<open>Images as bytes\<close>

definition px_bytes :: "tile_mode \<Rightarrow> pixel \<Rightarrow> byte list" where
  "px_bytes mode p = (case mode of RGBA \<Rightarrow> le_bytes 4 p | BGRA \<Rightarrow> swap_px (le_bytes 4 p))"

lemma le_bytes_4: "le_bytes 4 p = [ucast p, ucast (drop_bit 8 p), ucast (drop_bit 16 p), ucast (drop_bit 24 p)]"
  by (simp add: le_bytes_def upt_conv_Cons)

lemma length_px_bytes [simp]: "length (px_bytes mode p) = 4"
  by (cases mode) (simp_all add: px_bytes_def le_bytes_4)

lemma copy_row_px: "copy_row px mode = concat (map (px_bytes mode) px)"
proof (cases mode)
  case RGBA
  then show ?thesis by (simp add: copy_row_def px_bytes_def [abs_def])
next
  case BGRA
  have "swap_px (concat (map (le_bytes 4) px)) = concat (map (\<lambda>p. swap_px (le_bytes 4 p)) px)"
    by (induction px) (simp_all add: le_bytes_4)
  then show ?thesis using BGRA by (simp add: copy_row_def px_bytes_def [abs_def])
qed

definition image_bytes :: "tile_mode \<Rightarrow> pixel list list \<Rightarrow> byte list" where
  "image_bytes mode rows = concat (map (\<lambda>r. copy_row r mode) rows)"

text \<open>Blocks of equal length\<close>

lemma length_concat_blocks: "\<forall>b \<in> set bs. length b = n \<Longrightarrow> length (concat bs) = n * length bs"
  by (induction bs) auto

lemma take_drop_blocks:
  assumes "\<forall>b \<in> set bs. length b = n" "k \<le> length bs"
  shows "take (n * k) (concat bs) = concat (take k bs)" "drop (n * k) (concat bs) = concat (drop k bs)"
proof -
  have e: "concat bs = concat (take k bs) @ concat (drop k bs)" by (metis append_take_drop_id concat_append)
  have l: "length (concat (take k bs)) = n * k"
    using assms length_concat_blocks [of "take k bs" n] by (auto dest: in_set_takeD)
  show "take (n * k) (concat bs) = concat (take k bs)" "drop (n * k) (concat bs) = concat (drop k bs)"
    unfolding e using l by simp_all
qed

lemma overwrite_blocks:
  assumes "\<forall>b \<in> set bs. length b = n" "\<forall>b \<in> set cs. length b = n" "k + length cs \<le> length bs"
  shows "overwrite (n * k) (concat cs) (concat bs) = concat (overwrite k cs bs)"
proof -
  have l: "length (concat cs) = n * length cs" by (rule length_concat_blocks [OF assms(2)])
  have "n * k + length (concat cs) = n * (k + length cs)" by (simp add: l algebra_simps)
  then show ?thesis
    using take_drop_blocks [OF assms(1)] assms(3) by (simp add: overwrite_def)
qed

lemma overwrite_one: "y < length rows \<Longrightarrow> overwrite y [r] rows = rows[y := r]"
  by (simp add: overwrite_def upd_conv_take_nth_drop)

lemma overwrite_inner:
  assumes "y < length rows" "\<forall>r \<in> set rows. length r = n" "k + length bs \<le> n"
  shows "overwrite (n * y + k) bs (concat rows) = concat (rows[y := overwrite k bs (rows ! y)])"
proof -
  let ?a = "concat (take y rows)" and ?c = "concat (drop (Suc y) rows)" and ?r = "rows ! y"
  have r: "length ?r = n" using assms(1,2) by simp
  have la: "length ?a = n * y"
    using assms(1,2) length_concat_blocks [of "take y rows" n] by (auto dest: in_set_takeD)
  have "concat rows = concat (take y rows @ ?r # drop (Suc y) rows)" by (simp only: id_take_nth_drop [OF assms(1), symmetric])
  then have e: "concat rows = ?a @ ?r @ ?c" by simp
  have "concat (rows[y := overwrite k bs ?r]) = ?a @ overwrite k bs ?r @ ?c"
    using assms(1) by (simp add: upd_conv_take_nth_drop)
  moreover have "overwrite (n * y + k) bs (?a @ ?r @ ?c) = ?a @ overwrite k bs ?r @ ?c"
    using la r assms(3) by (simp add: overwrite_def)
  ultimately show ?thesis using e by simp
qed

section \<open>The commands of a delta\<close>

text \<open>Decoding these bytes first takes image \<open>a\<close> to \<open>b\<close>, whatever follows.\<close>

definition takes :: "nat \<Rightarrow> nat \<Rightarrow> byte list \<Rightarrow> byte list \<Rightarrow> byte list \<Rightarrow> byte list \<Rightarrow> bool" where
  "takes w h pixmap xs a b \<longleftrightarrow> (\<forall>rest. apply_loop w h pixmap (xs @ rest) a = apply_loop w h pixmap rest b)"

lemma takes_Nil [simp]: "takes w h pixmap [] a a"
  by (simp add: takes_def)

lemma takes_append: "takes w h pixmap xs a b \<Longrightarrow> takes w h pixmap ys b c \<Longrightarrow> takes w h pixmap (xs @ ys) a c"
  by (simp add: takes_def)

text \<open>Images of a given size\<close>

definition image_size :: "nat \<Rightarrow> nat \<Rightarrow> pixel list list \<Rightarrow> bool" where
  "image_size w h rows \<longleftrightarrow> length rows = h \<and> (\<forall>r \<in> set rows. length r = w)"

lemma image_blocks: "image_size w h rows \<Longrightarrow> \<forall>b \<in> set (map (\<lambda>r. copy_row r mode) rows). length b = w * 4"
proof -
  assume a: "image_size w h rows"
  have "length (copy_row r mode) = length r * 4" for r
    using length_concat_blocks [of "map (px_bytes mode) r" 4] by (simp add: copy_row_px)
  then show ?thesis using a by (auto simp: image_size_def)
qed

lemma length_copy_row: "length (copy_row r mode) = length r * 4"
  using length_concat_blocks [of "map (px_bytes mode) r" 4] by (simp add: copy_row_px)

lemma length_image_bytes: "image_size w h rows \<Longrightarrow> length (image_bytes mode rows) = w * 4 * h"
  using length_concat_blocks [OF image_blocks] unfolding image_bytes_def by (fastforce simp: image_size_def)

lemma image_row:
  assumes "image_size w h rows" "s < h"
  shows "take (w * 4) (drop (w * s * 4) (image_bytes mode rows)) = copy_row (rows ! s) mode"
proof -
  let ?bs = "map (\<lambda>r. copy_row r mode) rows"
  have s: "s < length ?bs" using assms by (simp add: image_size_def)
  have "drop (w * s * 4) (image_bytes mode rows) = concat (drop s ?bs)"
    using take_drop_blocks(2) [OF image_blocks [OF assms(1)], of s mode] s by (simp add: image_bytes_def ac_simps)
  also have "\<dots> = copy_row (rows ! s) mode @ concat (drop (Suc s) ?bs)"
    using s Cons_nth_drop_Suc [OF s] by (metis concat.simps(2) length_map nth_map)
  finally show ?thesis using assms by (simp add: length_copy_row image_size_def)
qed

lemma write_row:
  assumes "image_size w h rows" "y < h" "x + length px \<le> w"
  shows "write_bytes (w * y * 4 + x * 4) (copy_row px mode) (image_bytes mode rows) =
    Ok (image_bytes mode (rows[y := overwrite x px (rows ! y)]))"
proof -
  let ?bs = "map (\<lambda>r. copy_row r mode) rows"
  have y: "y < length rows" "length (rows ! y) = w" using assms(1,2) by (simp_all add: image_size_def)
  have k: "x * 4 + length (copy_row px mode) \<le> w * 4" using assms(3) by (simp add: length_copy_row)
  have "(w * 4) * y + (w * 4) \<le> (w * 4) * h" using assms(2) by (metis Suc_leI mult_Suc_right mult_le_mono2 add.commute)
  then have fits: "w * y * 4 + x * 4 + length (copy_row px mode) \<le> length (image_bytes mode rows)"
    using k by (simp add: length_image_bytes [OF assms(1)] ac_simps)
  have "overwrite (x * 4) (copy_row px mode) (copy_row (rows ! y) mode) = copy_row (overwrite x px (rows ! y)) mode"
    using overwrite_blocks [of "map (px_bytes mode) (rows ! y)" 4 "map (px_bytes mode) px" x] assms(3) y
    by (simp add: copy_row_px ac_simps) (simp add: overwrite_def take_map drop_map)
  moreover have "overwrite (w * 4 * y + x * 4) (copy_row px mode) (concat ?bs) =
      concat (?bs[y := overwrite (x * 4) (copy_row px mode) (?bs ! y)])"
    using overwrite_inner [OF _ image_blocks [OF assms(1)] k] y by simp
  ultimately have "overwrite (w * y * 4 + x * 4) (copy_row px mode) (image_bytes mode rows) =
      image_bytes mode (rows[y := overwrite x px (rows ! y)])"
    using y by (simp add: image_bytes_def map_update ac_simps)
  then show ?thesis using fits by (simp add: write_bytes_def)
qed

lemma apply_run_px:
  assumes "image_size w h rows" "y < h" "x + length px \<le> w"
  shows "apply_run (length px) (w * y * 4 + x * 4) (copy_row px mode @ rest) (image_bytes mode rows) =
    Ok (rest, image_bytes mode (rows[y := overwrite x px (rows ! y)]))"
  using assms
proof (induction px arbitrary: x rows)
  case Nil
  then show ?case by (simp add: copy_row_px overwrite_def image_size_def)
next
  case (Cons p px)
  let ?rows = "rows[y := overwrite x [p] (rows ! y)]"
  have y: "y < length rows" "length (rows ! y) = w" using Cons.prems by (simp_all add: image_size_def)
  have o1: "length (overwrite x [p] (rows ! y)) = w" using Cons.prems(3) y by (simp add: overwrite_def)
  have rows: "image_size w h ?rows"
    using Cons.prems(1) o1 set_update_subset_insert [of rows y] unfolding image_size_def by fastforce
  obtain a b c d where abcd: "copy_row [p] mode = [a, b, c, d]"
    by (cases mode) (simp_all add: copy_row_px px_bytes_def le_bytes_4)
  have "copy_row (p # px) mode = a # b # c # d # copy_row px mode" using abcd by (simp add: copy_row_px)
  moreover have "write_bytes (w * y * 4 + x * 4) [a, b, c, d] (image_bytes mode rows) = Ok (image_bytes mode ?rows)"
    using write_row [OF Cons.prems(1,2), of x "[p]" mode] abcd Cons.prems(3) by simp
  moreover have "apply_run (length px) (w * y * 4 + x * 4 + 4) (copy_row px mode @ rest) (image_bytes mode ?rows) =
      Ok (rest, image_bytes mode (?rows[y := overwrite (Suc x) px (?rows ! y)]))"
    using Cons.IH [OF rows Cons.prems(2), of "Suc x"] Cons.prems(3) by (simp add: algebra_simps)
  moreover have "overwrite (Suc x) px (?rows ! y) = overwrite x (p # px) (rows ! y)"
    using y Cons.prems(3) by (simp add: overwrite_def add.commute)
  ultimately show ?case by simp
qed

lemma unat_byte: "n < 256 \<Longrightarrow> unat (word_of_nat n :: byte) = n"
  by (simp add: unat_of_nat)

lemma takes_run:
  assumes "image_size w h rows" "y < h" "x + length px \<le> w" "w \<le> 256" "h \<le> 256" "0 < length px" "length px < 256"
  shows "takes w h pixmap ([of_char (CHR ''d''), word_of_nat y, word_of_nat x, word_of_nat (length px)] @ copy_row px mode)
    (image_bytes mode rows) (image_bytes mode (rows[y := overwrite x px (rows ! y)]))"
proof -
  have "int w - int x < 2 ^ 64" "0 \<le> int w - int x" using assms(3,4) by auto
  then have "int (length px) \<le> (int w - int x) mod 2 ^ 64" using assms(3) by simp
  moreover have "unat (word_of_nat y :: byte) = y" "unat (word_of_nat x :: byte) = x" "unat (word_of_nat (length px) :: byte) = length px"
    by (rule unat_byte; use assms in linarith)+
  ultimately show ?thesis
    unfolding takes_def using apply_run_px [OF assms(1-3)]
    by (subst apply_loop.simps) (simp add: Let_def)
qed

text \<open>The rows a copy command sets\<close>

definition copy_rows :: "pixel list list \<Rightarrow> nat \<Rightarrow> nat \<Rightarrow> nat \<Rightarrow> pixel list list \<Rightarrow> pixel list list" where
  "copy_rows prev cnt src dest rows = fold (\<lambda>i rs. rs[dest + i := prev ! (src + i)]) [0..<cnt] rows"

lemma copy_rows_Suc: "copy_rows prev (Suc cnt) src dest rows = (copy_rows prev cnt src dest rows)[dest + cnt := prev ! (src + cnt)]"
  by (simp add: copy_rows_def)

lemma image_size_update: "image_size w h rows \<Longrightarrow> length r = w \<Longrightarrow> image_size w h (rows[y := r])"
  unfolding image_size_def using set_update_subset_insert [of rows y r] by fastforce

lemma image_size_copy_rows:
  "image_size w h prev \<Longrightarrow> image_size w h rows \<Longrightarrow> src + cnt \<le> h \<Longrightarrow> image_size w h (copy_rows prev cnt src dest rows)"
proof (induction cnt)
  case (Suc cnt)
  have "length (prev ! (src + cnt)) = w" using Suc.prems by (simp add: image_size_def)
  then show ?case using Suc by (simp add: copy_rows_Suc image_size_update)
qed (simp add: copy_rows_def)

lemma apply_copy_append:
  "apply_copy w pixmap src dest (xs @ ys) out = res_bind (apply_copy w pixmap src dest xs out) (apply_copy w pixmap src dest ys)"
proof (induction xs arbitrary: out)
  case (Cons x xs)
  then show ?case by (cases "write_bytes (w * (dest + x) * 4) (take (w * 4) (drop (w * (src + x) * 4) pixmap)) out") simp_all
qed simp

lemma apply_copy_rows:
  assumes "image_size w h prev" "image_size w h rows" "src + cnt \<le> h" "dest + cnt \<le> h"
  shows "apply_copy w (image_bytes mode prev) src dest [0..<cnt] (image_bytes mode rows) =
    Ok (image_bytes mode (copy_rows prev cnt src dest rows))"
  using assms(3,4)
proof (induction cnt)
  case (Suc cnt)
  let ?rows = "copy_rows prev cnt src dest rows"
  have ih: "apply_copy w (image_bytes mode prev) src dest [0..<cnt] (image_bytes mode rows) = Ok (image_bytes mode ?rows)"
    using Suc by simp
  have sz: "image_size w h ?rows" using image_size_copy_rows assms(1,2) Suc.prems by simp
  have s: "src + cnt < h" and d: "dest + cnt < h" using Suc.prems by simp_all
  have len: "length (prev ! (src + cnt)) = w" "length (?rows ! (dest + cnt)) = w" using assms(1) sz s d by (simp_all add: image_size_def)
  have "(w * 4) * (src + cnt) + w * 4 \<le> (w * 4) * h" using s by (metis Suc_leI mult_Suc_right mult_le_mono2 add.commute)
  then have fits: "\<not> w * (src + cnt) * 4 + w * 4 > length (image_bytes mode prev)"
    by (simp add: length_image_bytes [OF assms(1)] ac_simps)
  have "overwrite 0 (prev ! (src + cnt)) (?rows ! (dest + cnt)) = prev ! (src + cnt)" using len by (simp add: overwrite_def)
  then have "write_bytes (w * (dest + cnt) * 4) (take (w * 4) (drop (w * (src + cnt) * 4) (image_bytes mode prev))) (image_bytes mode ?rows) =
      Ok (image_bytes mode (?rows[dest + cnt := prev ! (src + cnt)]))"
    using write_row [OF sz d, of 0 "prev ! (src + cnt)" mode] len by (simp add: image_row [OF assms(1) s])
  then show ?case using ih fits by (simp add: apply_copy_append copy_rows_Suc)
qed (simp add: copy_rows_def)

lemma takes_copy:
  assumes "image_size w h prev" "image_size w h rows" "src + cnt \<le> h" "dest + cnt \<le> h" "0 < cnt" "cnt < 256" "h \<le> 256"
  shows "takes w h (image_bytes mode prev) [of_char (CHR ''c''), word_of_nat cnt, word_of_nat src, word_of_nat dest]
    (image_bytes mode rows) (image_bytes mode (copy_rows prev cnt src dest rows))"
proof -
  have "unat (word_of_nat cnt :: byte) = cnt" "unat (word_of_nat src :: byte) = src" "unat (word_of_nat dest :: byte) = dest"
    using assms by (auto intro!: unat_byte)
  then show ?thesis
    unfolding takes_def using apply_copy_rows [OF assms(1-4)] assms(3)
    by (subst apply_loop.simps) (simp add: Let_def)
qed

section \<open>The difference of two rows\<close>

lemma same_loop_reads:
  assumes "same_loop width x same old cur = (same', old', cur')" "reads old os" "reads cur cs"
    and "length os = length cs" "length os = width - (same + x)"
  shows "\<exists>k \<le> length os. same' = same + k \<and> take k os = take k cs \<and> reads old' (drop k os) \<and> reads cur' (drop k cs)"
  using assms
proof (induction width x same old cur arbitrary: os cs rule: same_loop.induct)
  case (1 width x same old cur)
  show ?case
  proof (cases "same + x < width \<and> pix_identical old cur")
    case False
    then have "same' = same \<and> old' = old \<and> cur' = cur" using 1(2) by (subst (asm) same_loop.simps) auto
    then show ?thesis using 1(3,4) by (intro exI [of _ 0]) simp
  next
    case True
    obtain p os1 where os: "os = p # os1" using True 1(6) by (cases os) auto
    obtain q cs1 where cs: "cs = q # cs1" using 1(5) os by (cases cs) auto
    have pq: "p = q" using True 1(3,4) os cs by (simp add: pix_identical_def get_pixel_def)
    have step: "same_loop width x (Suc same) (pix_next old) (pix_next cur) = (same', old', cur')"
      using 1(2) True by (subst (asm) same_loop.simps) simp
    have r: "reads (pix_next old) os1" "reads (pix_next cur) cs1" using 1(3,4) os cs reads_next by blast+
    have l: "length os1 = length cs1" "length os1 = width - (Suc same + x)" using 1(5,6) os cs by auto
    obtain k where "k \<le> length os1" "same' = Suc same + k" "take k os1 = take k cs1" "reads old' (drop k os1)" "reads cur' (drop k cs1)"
      using 1(1) [OF True step r l] by blast
    then show ?thesis using os cs pq by (intro exI [of _ "Suc k"]) simp
  qed
qed

lemma diff_loop_reads:
  assumes "diff_loop width x scratch old cur = (scratch', old', cur')" "reads old os" "reads cur cs"
    and "length os = length cs" "length os = width - (length scratch + x)" "length scratch \<le> 254"
  shows "\<exists>k \<le> length os. scratch' = scratch @ take k cs \<and> length scratch' \<le> 254 \<and> reads old' (drop k os) \<and> reads cur' (drop k cs)"
  using assms
proof (induction width x scratch old cur arbitrary: os cs rule: diff_loop.induct)
  case (1 width x scratch old cur)
  let ?go = "length scratch + x < width \<and> (\<not> pix_identical old cur \<or> length scratch < 3) \<and> length scratch < 254"
  show ?case
  proof (cases ?go)
    case False
    then have "scratch' = scratch \<and> old' = old \<and> cur' = cur" using 1(2) by (subst (asm) diff_loop.simps) auto
    then show ?thesis using 1(3,4,7) by (intro exI [of _ 0]) simp
  next
    case True
    obtain p os1 where os: "os = p # os1" using True 1(6) by (cases os) auto
    obtain q cs1 where cs: "cs = q # cs1" using 1(5) os by (cases cs) auto
    have q: "get_pixel cur = q" using 1(4) cs by simp
    have step: "diff_loop width x (scratch @ [get_pixel cur]) (pix_next old) (pix_next cur) = (scratch', old', cur')"
      using 1(2) True by (subst (asm) diff_loop.simps) simp
    have r: "reads (pix_next old) os1" "reads (pix_next cur) cs1" using 1(3,4) os cs reads_next by blast+
    have l: "length os1 = length cs1" "length os1 = width - (length (scratch @ [get_pixel cur]) + x)"
      "length (scratch @ [get_pixel cur]) \<le> 254" using 1(5,6) os cs True by auto
    obtain k where "k \<le> length os1" "scratch' = (scratch @ [q]) @ take k cs1" "length scratch' \<le> 254" "reads old' (drop k os1)" "reads cur' (drop k cs1)"
      using 1(1) [OF True step r l] q by blast
    then show ?thesis using os cs by (intro exI [of _ "Suc k"]) simp
  qed
qed

text \<open>The runs written for a row turn the old row into the new one.\<close>

lemma overwrite_row_step:
  assumes "R = take x cs @ drop x os" "length os = length cs" "x + k + j \<le> length cs" "take k (drop x os) = take k (drop x cs)"
  shows "overwrite (x + k) (take j (drop (x + k) cs)) R = take (x + k + j) cs @ drop (x + k + j) os"
proof -
  have "drop x os = take k (drop x cs) @ drop (x + k) os" by (metis append_take_drop_id assms(4) drop_drop add.commute)
  then have R: "R = take (x + k) cs @ drop (x + k) os" by (simp add: assms(1) take_add)
  have "length (take j (drop (x + k) cs)) = j" "length (take (x + k) cs) = x + k" using assms(3) by simp_all
  then have "overwrite (x + k) (take j (drop (x + k) cs)) R = take (x + k) cs @ take j (drop (x + k) cs) @ drop j (drop (x + k) os)"
    unfolding overwrite_def R using assms(2,3) by simp
  moreover have "take (x + k + j) cs = take (x + k) cs @ take j (drop (x + k) cs)" by (rule take_add)
  moreover have "drop j (drop (x + k) os) = drop (x + k + j) os" by (simp add: ac_simps)
  ultimately show ?thesis by (simp only: append_assoc)
qed

lemma diff_row_loop_takes:
  assumes "reads old (drop x os)" "reads cur (drop x cs)" "length os = width" "length cs = width" "x \<le> width"
    and "image_size width h rows" "y < h" "rows ! y = take x cs @ drop x os" "width \<le> 256" "h \<le> 256"
  shows "\<exists>D. diff_row_loop mode width y x old cur out = out @ D \<and> (x < width \<longrightarrow> D \<noteq> [] \<or> drop x os = drop x cs) \<and>
    takes width h pixmap D (image_bytes mode rows) (image_bytes mode (rows[y := cs]))"
  using assms(1,2,5,6,8)
proof (induction "width - x" arbitrary: x old cur out rows rule: less_induct)
  case less
  have y: "y < length rows" using less.prems(4) assms(7) by (simp add: image_size_def)
  show ?case
  proof (cases "x < width")
    case False
    then have x: "x = width" using less.prems(3) by simp
    then have "rows[y := cs] = rows" using less.prems(5) assms(3,4) y by (metis append_Nil2 drop_all list_update_id order_refl take_all)
    then show ?thesis using x by (intro exI [of _ "[]"]) (simp add: diff_row_loop.simps)
  next
    case True
    obtain same old1 cur1 where s: "same_loop width x 0 old cur = (same, old1, cur1)" by (rule prod_cases3)
    obtain k where k: "k \<le> width - x" "same = k" "take k (drop x os) = take k (drop x cs)" "reads old1 (drop k (drop x os))" "reads cur1 (drop k (drop x cs))"
      using same_loop_reads [OF s less.prems(1,2)] assms(3,4) by auto
    obtain scratch old2 cur2 where d: "diff_loop width (x + k) [] old1 cur1 = (scratch, old2, cur2)" by (rule prod_cases3)
    have r1: "reads old1 (drop (x + k) os)" "reads cur1 (drop (x + k) cs)" using k(4,5) by (simp_all add: add.commute)
    obtain j where j: "j \<le> width - (x + k)" "scratch = take j (drop (x + k) cs)" "length scratch \<le> 254"
      "reads old2 (drop j (drop (x + k) os))" "reads cur2 (drop j (drop (x + k) cs))"
      using diff_loop_reads [OF d r1] assms(3,4) by auto
    have lj: "length scratch = j" using j(1,2) assms(4) by simp
    have r2: "reads old2 (drop (x + k + j) os)" "reads cur2 (drop (x + k + j) cs)" using j(4,5) by (simp_all add: add.commute)
    have row: "overwrite (x + k) scratch (rows ! y) = take (x + k + j) cs @ drop (x + k + j) os"
      unfolding j(2) using k j(1) assms(3,4) True by (intro overwrite_row_step [OF less.prems(5)]) auto
    show ?thesis
    proof (cases "j = 0")
      case True
      have "width \<le> x + k" using diff_loop_stop [of old2 cur2 width "x + k" old1 cur1] d lj True by simp
      then have xk: "x + k = width" using k(1) \<open>x < width\<close> by simp
      then have same: "drop x os = drop x cs" using k(3) assms(3,4) by simp
      then have "rows[y := cs] = rows" using less.prems(5) y by (metis append_take_drop_id list_update_id)
      moreover have "diff_row_loop mode width y x old cur out = out"
        using \<open>x < width\<close> s d k(2) lj True xk
        by (subst diff_row_loop.simps) (simp add: Let_def diff_row_loop.simps)
      ultimately show ?thesis using same by (intro exI [of _ "[]"]) simp
    next
      case False
      let ?run = "[of_char (CHR ''d''), word_of_nat y, word_of_nat (x + k), word_of_nat j] @ copy_row scratch mode"
      let ?rows = "rows[y := overwrite (x + k) scratch (rows ! y)]"
      have len: "length (overwrite (x + k) scratch (rows ! y)) = width" unfolding row using k j assms(3,4) by simp
      have rows: "image_size width h ?rows" using image_size_update [OF less.prems(4) len] .
      have e: "diff_row_loop mode width y x old cur out = diff_row_loop mode width y (x + k + j) old2 cur2 (out @ ?run)"
        using \<open>x < width\<close> s d k(2) lj False by (subst diff_row_loop.simps) (auto simp: Let_def)
      have t1: "takes width h pixmap ?run (image_bytes mode rows) (image_bytes mode ?rows)"
        using takes_run [OF less.prems(4) assms(7), of "x + k" scratch] lj j(1,3) k(1) False assms(9,10) by simp
      have "width - (x + k + j) < width - x" using False \<open>x < width\<close> k(1) j(1) by simp
      moreover have "x + k + j \<le> width" using k(1) j(1) \<open>x < width\<close> by simp
      moreover have "?rows ! y = take (x + k + j) cs @ drop (x + k + j) os" using row y by simp
      ultimately obtain D where D: "diff_row_loop mode width y (x + k + j) old2 cur2 (out @ ?run) = (out @ ?run) @ D"
        "takes width h pixmap D (image_bytes mode ?rows) (image_bytes mode (?rows[y := cs]))"
        using less.hyps [OF _ r2 _ rows] by blast
      have "takes width h pixmap (?run @ D) (image_bytes mode rows) (image_bytes mode (rows[y := cs]))"
        using takes_append [OF t1 D(2)] by simp
      then show ?thesis using e D(1) by (intro exI [of _ "?run @ D"]) simp
    qed
  qed
qed

end
