(* ===== verification/DeltaProps.thy ===== *)
theory DeltaProps
  imports DeltaApply
begin

unbundle bit_operations_syntax

text \<open>
  The delta between two images, and the generator's cache: what the loop of \<open>makeDelta\<close>
  maintains, the round trip through the decoder, the keyframe's round trip, and the cache.
\<close>

section \<open>Images in the generator\<close>

definition holds :: "delta_data \<Rightarrow> pixel list list \<Rightarrow> bool" where
  "holds d P \<longleftrightarrow> dd_rows d = map init_row P \<and> image_size (dd_width d) (dd_height d) P"

text \<open>The pixels of a rectangle of a buffer\<close>

definition sub_image :: "pixel list \<Rightarrow> nat \<Rightarrow> nat \<Rightarrow> nat \<Rightarrow> nat \<Rightarrow> nat \<Rightarrow> pixel list list" where
  "sub_image pixmap startX startY width height bufferWidth =
    map (\<lambda>y. take width (drop ((startY + y) * bufferWidth + startX) pixmap)) [0..<height]"

lemma mk_delta_data_holds:
  assumes "mk_delta_data wid pixmap startX startY width height loc bufferWidth bufferHeight = Ok d"
    and "length pixmap = bufferWidth * bufferHeight"
  shows "holds d (sub_image pixmap startX startY width height bufferWidth)" "dd_loc d = loc" "dd_wid d = wid"
    "dd_width d = width" "dd_height d = height"
proof -
  have b: "startX + width \<le> bufferWidth" "startY + height \<le> bufferHeight"
    and d: "d = \<lparr>dd_loc = loc, dd_wid = wid, dd_width = width, dd_height = height,
       dd_rows = map (\<lambda>y. init_row (take width (drop ((startY + y) * bufferWidth + startX) pixmap))) [0..<height]\<rparr>"
    using assms(1) by (auto simp: mk_delta_data_def split: if_splits)
  have "(startY + y) * bufferWidth + startX + width \<le> length pixmap" if "y < height" for y
  proof -
    have "(startY + y) * bufferWidth + bufferWidth \<le> bufferHeight * bufferWidth"
      using that b(2) mult_le_mono1 [of "Suc (startY + y)" bufferHeight bufferWidth] by simp
    then show ?thesis using b(1) assms(2) by (simp add: ac_simps)
  qed
  then have "image_size width height (sub_image pixmap startX startY width height bufferWidth)"
    by (fastforce simp: image_size_def sub_image_def)
  then show "holds d (sub_image pixmap startX startY width height bufferWidth)"
    by (simp add: holds_def d sub_image_def comp_def)
  show "dd_loc d = loc" "dd_wid d = wid" "dd_width d = width" "dd_height d = height" by (simp_all add: d)
qed

section \<open>The loop of \<open>makeDelta\<close>\<close>

lemma find_match_Some:
  "find_match prev row y off yns = Some m \<Longrightarrow> 0 < dd_height prev \<Longrightarrow> m < dd_height prev \<and> row_identical (dd_rows prev ! m) row"
  by (induction yns) (auto simp: Let_def match_row_def split: if_splits)

definition mixed :: "nat \<Rightarrow> 'a list \<Rightarrow> 'a list \<Rightarrow> 'a list" where
  "mixed y C P = take y C @ drop y P"

lemma mixed_Suc: "y < length P \<Longrightarrow> length C = length P \<Longrightarrow> mixed (Suc y) C P = (mixed y C P)[y := C ! y]"
  by (simp add: mixed_def take_Suc_conv_app_nth list_update_append Cons_nth_drop_Suc [symmetric])

lemma image_size_mixed: "image_size w h P \<Longrightarrow> image_size w h C \<Longrightarrow> y \<le> h \<Longrightarrow> image_size w h (mixed y C P)"
  by (auto simp: image_size_def mixed_def dest: in_set_takeD in_set_dropD)

text \<open>The last copy command ends before row \<open>y\<close>, or it is the last command and ends at it.\<close>

definition open_copy :: "tile_mode \<Rightarrow> nat \<Rightarrow> nat \<Rightarrow> pixel list list \<Rightarrow> pixel list list \<Rightarrow> nat \<Rightarrow> delta_state \<Rightarrow> bool" where
  "open_copy mode w h P C y st \<longleftrightarrow>
    (\<exists>pre cnt src dest R.
      ds_output st = pre @ [of_char (CHR ''c''), word_of_nat cnt, word_of_nat src, word_of_nat dest] \<and>
      ds_lastCopy st = Suc (length pre) \<and> 0 < cnt \<and> cnt < 256 \<and> src + cnt \<le> h \<and> dest + cnt = y \<and> image_size w h R \<and>
      takes w h (image_bytes mode P) pre (image_bytes mode P) (image_bytes mode R) \<and>
      copy_rows P cnt src dest R = mixed y C P)"

definition copy_inv :: "tile_mode \<Rightarrow> nat \<Rightarrow> nat \<Rightarrow> pixel list list \<Rightarrow> pixel list list \<Rightarrow> nat \<Rightarrow> delta_state \<Rightarrow> bool" where
  "copy_inv mode w h P C y st \<longleftrightarrow>
    ds_lastCopy st > 0 \<longrightarrow>
      ds_lastCopy st + 2 < length (ds_output st) \<and>
      (unat (ds_output st ! (ds_lastCopy st + 2)) + unat (ds_output st ! ds_lastCopy st) < y \<or> open_copy mode w h P C y st)"

definition delta_inv :: "tile_mode \<Rightarrow> nat \<Rightarrow> nat \<Rightarrow> pixel list list \<Rightarrow> pixel list list \<Rightarrow> nat \<Rightarrow> delta_state \<Rightarrow> bool" where
  "delta_inv mode w h P C y st \<longleftrightarrow>
    takes w h (image_bytes mode P) (ds_output st) (image_bytes mode P) (image_bytes mode (mixed y C P)) \<and>
    copy_inv mode w h P C y st \<and> (ds_output st = [] \<longrightarrow> mixed y C P = P)"

lemma open_copy_bytes:
  assumes "open_copy mode w h P C y st" "y \<le> h" "h \<le> 256"
  shows "\<exists>cnt src dest. unat (ds_output st ! ds_lastCopy st) = cnt \<and> unat (ds_output st ! (ds_lastCopy st + 1)) = src \<and>
    unat (ds_output st ! (ds_lastCopy st + 2)) = dest \<and> dest + cnt = y"
proof -
  obtain pre cnt src dest where o: "ds_output st = pre @ [of_char (CHR ''c''), word_of_nat cnt, word_of_nat src, word_of_nat dest]"
    "ds_lastCopy st = Suc (length pre)" "0 < cnt" "cnt < 256" "src + cnt \<le> h" "dest + cnt = y"
    using assms(1) by (auto simp: open_copy_def)
  moreover have "unat (word_of_nat cnt :: byte) = cnt" "unat (word_of_nat dest :: byte) = dest"
    by (rule unat_byte; use o assms(2,3) in linarith)+
  ultimately show ?thesis by (simp add: nth_append)
qed

text \<open>Passing a row without touching the output\<close>

lemma copy_inv_pass:
  assumes "copy_inv mode w h P C y st" "y \<le> h" "h \<le> 256" "ds_lastCopy st' = ds_lastCopy st" "ds_output st' = ds_output st @ D"
  shows "copy_inv mode w h P C (Suc y) st'"
proof -
  have "ds_output st' ! i = ds_output st ! i" if "i < length (ds_output st)" for i using that assms(5) by (simp add: nth_append)
  then show ?thesis
    using assms(1,4,5) open_copy_bytes [OF _ assms(2,3), of mode w P C st] by (fastforce simp: copy_inv_def)
qed

lemma delta_inv_copy:
  assumes "delta_inv mode w h P C y st" "image_size w h P" "image_size w h C" "w \<le> 256" "h \<le> 256" "y < h" "m < h" "P ! m = C ! y"
  shows "delta_inv mode w h P C (Suc y) (copy_step h y m st)"
proof -
  let ?img = "image_bytes mode"
  have len: "length P = h" "length C = h" using assms(2,3) by (simp_all add: image_size_def)
  have ms: "mixed (Suc y) C P = (mixed y C P)[y := P ! m]" using mixed_Suc [of y P C] len assms(6,8) by simp
  have msz: "image_size w h (mixed y C P)" using image_size_mixed assms(2,3,6) by simp
  have t: "takes w h (?img P) (ds_output st) (?img P) (?img (mixed y C P))" using assms(1) by (simp add: delta_inv_def)
  show ?thesis
  proof (cases "can_extend st m y h")
    case True
    then have lc: "ds_lastCopy st > 0"
      and ce: "unat (ds_output st ! (ds_lastCopy st + 1)) + unat (ds_output st ! ds_lastCopy st) = m"
        "unat (ds_output st ! (ds_lastCopy st + 2)) + unat (ds_output st ! ds_lastCopy st) = y"
        "unat (ds_output st ! (ds_lastCopy st + 1)) + unat (ds_output st ! ds_lastCopy st) + 1 < h"
      by (auto simp: can_extend_def Let_def)
    then have "open_copy mode w h P C y st" using assms(1) by (auto simp: delta_inv_def copy_inv_def)
    then obtain pre cnt src dest R where o: "ds_output st = pre @ [of_char (CHR ''c''), word_of_nat cnt, word_of_nat src, word_of_nat dest]"
      "ds_lastCopy st = Suc (length pre)" "0 < cnt" "cnt < 256" "src + cnt \<le> h" "dest + cnt = y" "image_size w h R"
      "takes w h (?img P) pre (?img P) (?img R)" "copy_rows P cnt src dest R = mixed y C P"
      by (auto simp: open_copy_def)
    have u: "unat (word_of_nat cnt :: byte) = cnt" "unat (word_of_nat src :: byte) = src"
      by (rule unat_byte; use o assms(5) in linarith)+
    have sm: "src + cnt = m" "m + 1 < h" using ce(1,3) o(1,2) u by (simp_all add: nth_append)
    have out: "ds_output (copy_step h y m st) = pre @ [of_char (CHR ''c''), word_of_nat (Suc cnt), word_of_nat src, word_of_nat dest]"
      using True o(1,2) by (simp add: copy_step_def list_update_append nth_append)
    have lcs: "ds_lastCopy (copy_step h y m st) = Suc (length pre)" using True o(2) by (simp add: copy_step_def)
    have c: "Suc cnt < 256" using sm assms(5) by simp
    have rows: "copy_rows P (Suc cnt) src dest R = mixed (Suc y) C P"
      using o(6,9) sm(1) ms by (simp add: copy_rows_Suc)
    have "takes w h (?img P) [of_char (CHR ''c''), word_of_nat (Suc cnt), word_of_nat src, word_of_nat dest] (?img R) (?img (mixed (Suc y) C P))"
      using takes_copy [OF assms(2) o(7), of src "Suc cnt" dest mode] c sm o(6) assms(5,6) rows by simp
    then have "takes w h (?img P) (ds_output (copy_step h y m st)) (?img P) (?img (mixed (Suc y) C P))"
      unfolding out by (rule takes_append [OF o(8)])
    moreover have "open_copy mode w h P C (Suc y) (copy_step h y m st)"
      unfolding open_copy_def
      by (rule exI [of _ pre], rule exI [of _ "Suc cnt"], rule exI [of _ src], rule exI [of _ dest], rule exI [of _ R])
        (use out lcs c sm o(6,7,8) rows in simp)
    ultimately show ?thesis using out lcs by (simp add: delta_inv_def copy_inv_def)
  next
    case False
    have out: "ds_output (copy_step h y m st) = ds_output st @ [of_char (CHR ''c''), word_of_nat 1, word_of_nat m, word_of_nat y]"
      and lcs: "ds_lastCopy (copy_step h y m st) = Suc (length (ds_output st))" using False by (simp_all add: copy_step_def)
    have rows: "copy_rows P 1 m y (mixed y C P) = mixed (Suc y) C P" using ms by (simp add: copy_rows_def)
    have "takes w h (?img P) [of_char (CHR ''c''), word_of_nat 1, word_of_nat m, word_of_nat y] (?img (mixed y C P)) (?img (mixed (Suc y) C P))"
      using takes_copy [OF assms(2) msz, of m 1 y mode] assms(5-7) rows by simp
    then have "takes w h (?img P) (ds_output (copy_step h y m st)) (?img P) (?img (mixed (Suc y) C P))"
      unfolding out by (rule takes_append [OF t])
    moreover have "open_copy mode w h P C (Suc y) (copy_step h y m st)"
      unfolding open_copy_def
      by (rule exI [of _ "ds_output st"], rule exI [of _ 1], rule exI [of _ m], rule exI [of _ y], rule exI [of _ "mixed y C P"])
        (use out lcs t msz rows assms(7) in simp)
    ultimately show ?thesis using out lcs by (simp add: delta_inv_def copy_inv_def)
  qed
qed

lemma delta_step_inv:
  assumes "delta_inv mode (dd_width prev) (dd_height prev) P C y st" "holds prev P" "holds cur C"
    and "dd_width cur = dd_width prev" "dd_height cur = dd_height prev" "dd_width prev \<le> 256" "dd_height prev \<le> 256" "y < dd_height prev"
  shows "delta_inv mode (dd_width prev) (dd_height prev) P C (Suc y) (delta_step prev cur mode y st)"
proof -
  let ?w = "dd_width prev" and ?h = "dd_height prev"
  have sz: "image_size ?w ?h P" "image_size ?w ?h C" and rows: "dd_rows prev = map init_row P" "dd_rows cur = map init_row C"
    using assms(2-5) by (simp_all add: holds_def)
  have len: "length P = ?h" "length C = ?h" and rl: "\<And>i. i < ?h \<Longrightarrow> length (P ! i) = ?w" "\<And>i. i < ?h \<Longrightarrow> length (C ! i) = ?w"
    using sz by (simp_all add: image_size_def)
  have id: "row_identical (dd_rows prev ! i) (dd_rows cur ! j) \<longleftrightarrow> P ! i = C ! j" if "i < ?h" "j < ?h" for i j
    using that rl len assms(6) by (simp add: rows row_identical_iff)
  have my: "mixed y C P ! y = P ! y" using len assms(8) by (simp add: mixed_def nth_append)
  have ms: "mixed (Suc y) C P = (mixed y C P)[y := C ! y]" using mixed_Suc len assms(8) by metis
  show ?thesis
  proof (cases "P ! y = C ! y")
    case True
    then have "delta_step prev cur mode y st = st" using id assms(8) by (simp add: delta_step_def)
    moreover have "mixed (Suc y) C P = mixed y C P" using True ms my by (metis list_update_id)
    ultimately show ?thesis
      using assms(1) copy_inv_pass [of mode ?w ?h P C y st st "[]"] assms(7,8) by (simp add: delta_inv_def)
  next
    case ne: False
    show ?thesis
    proof (cases "find_match prev (dd_rows cur ! y) y (ds_lastMatchOffset st) [0..<?h]")
      case (Some m)
      then have "m < ?h" "P ! m = C ! y" using find_match_Some [OF Some] id assms(8) by auto
      moreover have "delta_step prev cur mode y st = copy_step ?h y m st" using Some ne id assms(8) by (simp add: delta_step_def)
      ultimately show ?thesis using delta_inv_copy [OF assms(1) sz assms(6-8)] by simp
    next
      case None
      have r: "reads (pix_iterator_of (init_row (P ! y))) (drop 0 (P ! y))" "reads (pix_iterator_of (init_row (C ! y))) (drop 0 (C ! y))"
        using reads_init rl assms(6,8) by simp_all
      have z: "image_size ?w ?h (mixed y C P)" "mixed y C P ! y = take 0 (C ! y) @ drop 0 (P ! y)"
        using image_size_mixed [OF sz, of y] my assms(8) by simp_all
      obtain D where D: "diff_row_loop mode ?w y 0 (pix_iterator_of (init_row (P ! y))) (pix_iterator_of (init_row (C ! y))) (ds_output st) = ds_output st @ D"
        "0 < ?w \<longrightarrow> D \<noteq> [] \<or> drop 0 (P ! y) = drop 0 (C ! y)"
        "takes ?w ?h (image_bytes mode P) D (image_bytes mode (mixed y C P)) (image_bytes mode ((mixed y C P)[y := C ! y]))"
        using diff_row_loop_takes [OF r rl(1) [OF assms(8)] rl(2) [OF assms(8)] le0 z(1) assms(8) z(2) assms(6,7)] by blast
      have st: "delta_step prev cur mode y st = st\<lparr>ds_output := ds_output st @ D\<rparr>"
        using None ne id assms(8) D(1) len by (simp add: delta_step_def diff_row_to_def rows)
      have "0 < ?w"
      proof (rule ccontr)
        assume "\<not> 0 < ?w"
        then show False using ne rl(1,2) [OF assms(8)] by simp
      qed
      then have "D \<noteq> []" using D(2) ne by simp
      then show ?thesis
        using assms(1) D(3) copy_inv_pass [of mode ?w ?h P C y st "st\<lparr>ds_output := ds_output st @ D\<rparr>" D] assms(7,8) takes_append
        by (simp add: delta_inv_def st ms) blast
    qed
  qed
qed

section \<open>Round trips\<close>

lemma delta_output_inv:
  assumes "holds prev P" "holds cur C" "dd_width cur = dd_width prev" "dd_height cur = dd_height prev"
    and "dd_width prev \<le> 256" "dd_height prev \<le> 256"
  shows "takes (dd_width prev) (dd_height prev) (image_bytes mode P) (delta_output prev cur mode) (image_bytes mode P) (image_bytes mode C)"
    "delta_output prev cur mode = [] \<Longrightarrow> C = P"
proof -
  let ?st = "\<lambda>n. fold (delta_step prev cur mode) [0..<n] \<lparr>ds_output = [], ds_lastMatchOffset = 0, ds_lastCopy = 0\<rparr>"
  have "n \<le> dd_height prev \<Longrightarrow> delta_inv mode (dd_width prev) (dd_height prev) P C n (?st n)" for n
  proof (induction n)
    case 0
    then show ?case by (simp add: delta_inv_def copy_inv_def mixed_def)
  next
    case (Suc n)
    then show ?case using delta_step_inv [OF _ assms] by simp
  qed
  from this [of "dd_height prev"]
  have inv: "delta_inv mode (dd_width prev) (dd_height prev) P C (dd_height prev) (?st (dd_height prev))" by simp
  have "mixed (dd_height prev) C P = C" using assms(1,2,4) by (simp add: mixed_def holds_def image_size_def)
  then show "takes (dd_width prev) (dd_height prev) (image_bytes mode P) (delta_output prev cur mode) (image_bytes mode P) (image_bytes mode C)"
    "delta_output prev cur mode = [] \<Longrightarrow> C = P"
    using inv by (auto simp: delta_inv_def delta_output_def)
qed

lemma apply_delta_output:
  assumes "holds prev P" "holds cur C" "dd_width cur = dd_width prev" "dd_height cur = dd_height prev"
    and "0 < dd_width prev" "dd_width prev \<le> 256" "0 < dd_height prev" "dd_height prev \<le> 256"
  shows "apply_delta (image_bytes mode P) (dd_width prev) (dd_height prev) (delta_output prev cur mode @ [of_char (CHR ''t'')]) =
    Ok (image_bytes mode C)"
proof -
  have len: "length (image_bytes mode P) = dd_width prev * dd_height prev * 4"
    using length_image_bytes [of "dd_width prev" "dd_height prev" P mode] assms(1) by (simp add: holds_def)
  have "apply_loop (dd_width prev) (dd_height prev) (image_bytes mode P) (delta_output prev cur mode @ [of_char (CHR ''t'')]) (image_bytes mode P) =
      apply_loop (dd_width prev) (dd_height prev) (image_bytes mode P) [of_char (CHR ''t'')] (image_bytes mode C)"
    using delta_output_inv(1) [OF assms(1-4,6,8)] unfolding takes_def by blast
  also have "\<dots> = Ok (image_bytes mode C)" by (simp add: apply_loop.simps)
  finally show ?thesis using len assms(5,7) by (auto simp: apply_delta_def)
qed

subsection \<open>Keyframes\<close>

definition byte_bits :: "byte \<Rightarrow> bool list" where
  "byte_bits b = map (bit b) [0..<8]"

lemma concat_map_upt: "concat (map (\<lambda>i. map (\<lambda>k. f (m * i + k)) [0..<m]) [0..<n]) = map f [0..<m * n]"
proof (induction n)
  case (Suc n)
  have "map (\<lambda>k. f (m * n + k)) [0..<m] = map f [m * n..<m * n + m]"
    by (rule nth_equalityI) simp_all
  moreover have "[0..<m * n + m] = [0..<m * n] @ [m * n..<m * n + m]" using upt_add_eq_append [of 0 "m * n" m] by simp
  ultimately show ?case using Suc by (simp add: add.commute [of m "m * n"])
qed simp

lemma byte_bits_le:
  "concat (map byte_bits (le_bytes 8 m)) = mask_bits m"
proof -
  have "byte_bits (ucast (drop_bit (8 * i) m)) = map (\<lambda>k. bit m (8 * i + k)) [0..<8]" for i
    by (simp add: byte_bits_def bit_ucast_iff bit_drop_bit_eq)
  then have "concat (map byte_bits (le_bytes 8 m)) = concat (map (\<lambda>i. map (\<lambda>k. bit m (8 * i + k)) [0..<8]) [0..<8])"
    by (simp only: le_bytes_def map_map comp_def)
  also have "\<dots> = map (bit m) [0..<8 * 8]" by (rule concat_map_upt)
  finally show ?thesis by (simp only: mask_bits_def) simp
qed

lemma mask_byte_bits: "concat (map byte_bits (concat (map (le_bytes 8) masks))) = concat (map mask_bits masks)"
  by (induction masks) (simp_all add: byte_bits_le)

lemma pixels_of_le: "pixels_of_bytes (le_bytes 4 p @ bs) = p # pixels_of_bytes bs"
proof -
  have "ucast (ucast p :: byte) OR push_bit 8 (ucast (ucast (drop_bit 8 p) :: byte)) OR
      push_bit 16 (ucast (ucast (drop_bit 16 p) :: byte)) OR push_bit 24 (ucast (ucast (drop_bit 24 p) :: byte)) = p"
  proof (rule bit_word_eqI)
    fix n assume "n < LENGTH(32)"
    then consider "n < 8" | "8 \<le> n" "n < 16" | "16 \<le> n" "n < 24" | "24 \<le> n" "n < 32" by fastforce
    then show "bit (ucast (ucast p :: byte) OR push_bit 8 (ucast (ucast (drop_bit 8 p) :: byte)) OR
      push_bit 16 (ucast (ucast (drop_bit 16 p) :: byte)) OR push_bit 24 (ucast (ucast (drop_bit 24 p) :: byte)) :: pixel) n = bit p n"
      by cases (auto simp: bit_or_iff bit_push_bit_iff bit_ucast_iff bit_drop_bit_eq)
  qed
  then show ?thesis by (simp add: le_bytes_4)
qed

text \<open>A pixel as the browser sees it: its bytes in memory are those of \<open>px_bytes\<close>.\<close>

definition mode_pixel :: "tile_mode \<Rightarrow> pixel \<Rightarrow> pixel" where
  "mode_pixel mode p = hd (pixels_of_bytes (px_bytes mode p))"

lemma le_bytes_pixel: "le_bytes 4 (hd (pixels_of_bytes [a, b, c, d])) = [a, b, c, d]"
  unfolding le_bytes_4 pixels_of_bytes.simps list.sel list.inject
  by (intro conjI refl; rule bit_word_eqI)
    (auto simp: bit_or_iff bit_push_bit_iff bit_ucast_iff bit_drop_bit_eq dest: bit_imp_le_length)

lemma px_bytes_cases: obtains a b c d where "px_bytes mode p = [a, b, c, d]"
  by (cases mode) (simp_all add: px_bytes_def le_bytes_4)

lemma le_bytes_mode_pixel: "le_bytes 4 (mode_pixel mode p) = px_bytes mode p"
  unfolding mode_pixel_def by (rule px_bytes_cases [of mode p]) (simp only: le_bytes_pixel)

lemma copy_row_mode: "copy_row (map (mode_pixel mode) px) RGBA = copy_row px mode"
  by (simp add: copy_row_px comp_def le_bytes_mode_pixel px_bytes_def [of RGBA])

lemma pixels_of_copy_row: "pixels_of_bytes (copy_row px mode) = map (mode_pixel mode) px"
proof (induction px)
  case (Cons p px)
  then show ?case
    using pixels_of_le [of "mode_pixel mode p" "copy_row px mode"] by (simp add: copy_row_px le_bytes_mode_pixel)
qed (simp add: copy_row_px)

lemma mode_pixel_inj: "mode_pixel mode p = mode_pixel mode q \<longleftrightarrow> p = q"
proof
  assume "mode_pixel mode p = mode_pixel mode q"
  then have "px_bytes mode p = px_bytes mode q" by (metis le_bytes_mode_pixel)
  then have "le_bytes 4 p = le_bytes 4 q" by (cases mode) (simp_all add: px_bytes_def le_bytes_4)
  then show "p = q" using pixels_of_le [of p "[]"] pixels_of_le [of q "[]"] by simp
qed simp

lemma mode_pixel_0: "mode_pixel mode 0 = 0"
  by (cases mode) (simp_all add: mode_pixel_def px_bytes_def le_bytes_4)

lemma repeats_map: "repeats (mode_pixel mode l) (map (mode_pixel mode) ps) = repeats l ps"
  and changes_map: "changes (mode_pixel mode l) (map (mode_pixel mode) ps) = map (mode_pixel mode) (changes l ps)"
  by (induction ps arbitrary: l) (simp_all add: mode_pixel_inj)

lemma expand_pixels_spec:
  assumes "j \<le> 8" "bitToCheck = push_bit j 1"
    and "drop j (map (bit lastMask) [0..<8]) @ concat (map byte_bits masks) = repeats l ps @ pad" "unique = changes l ps"
  shows "expand_pixels (length ps) l lastMask bitToCheck masks unique = Ok ps"
  using assms
proof (induction ps arbitrary: j bitToCheck lastMask masks l unique)
  case (Cons p ps)
  have big: "bitToCheck > 128 \<longleftrightarrow> j = 8"
  proof -
    have "j \<in> {0, 1, 2, 3, 4, 5, 6, 7, 8}" using Cons.prems(1) by auto
    then show ?thesis unfolding Cons.prems(2) by (auto simp: push_bit_of_1)
  qed
  define st where "st = (if bitToCheck > 128 then (1, signed_take_bit 7 (ucast (hd masks)) :: 32 word, tl masks) else (bitToCheck, lastMask, masks))"
  have ne: "\<not> (bitToCheck > 128 \<and> masks = [])" using Cons.prems(3) big by auto
  obtain i mask1 masks1 where st1: "st = (push_bit i 1, mask1, masks1)" "i < 8"
    and bits: "drop i (map (bit mask1) [0..<8]) @ concat (map byte_bits masks1) = repeats l (p # ps) @ pad"
  proof (cases "j = 8")
    case True
    then obtain m ms where m: "masks = m # ms" using ne big by (cases masks) auto
    have "bit (signed_take_bit 7 (ucast m :: 32 word)) k = bit m k" if "k < 8" for k
    proof -
      have "k < 7 \<or> k = 7" using that by arith
      then show ?thesis by (auto simp: bit_signed_take_bit_iff bit_ucast_iff)
    qed
    then have "map (bit (signed_take_bit 7 (ucast m :: 32 word))) [0..<8] = byte_bits m" by (simp add: byte_bits_def)
    then show ?thesis using that [of 0 "signed_take_bit 7 (ucast m)" ms] True big Cons.prems(3) m by (simp add: st_def)
  next
    case False
    then show ?thesis using that [of j lastMask masks] big Cons.prems by (simp add: st_def)
  qed
  have hd: "drop i (map (bit mask1) [0..<8]) = bit mask1 i # drop (Suc i) (map (bit mask1) [0..<8])"
    using st1(2) by (simp add: Cons_nth_drop_Suc [symmetric])
  have b: "bit mask1 i \<longleftrightarrow> p = l" and rest: "drop (Suc i) (map (bit mask1) [0..<8]) @ concat (map byte_bits masks1) = repeats p ps @ pad"
    using bits hd by simp_all
  have zero: "mask1 AND push_bit i 1 = 0 \<longleftrightarrow> p \<noteq> l"
  proof -
    have e: "bit (mask1 AND push_bit i 1) k \<longleftrightarrow> bit mask1 i \<and> k = i" for k
      using st1(2) by (auto simp: push_bit_of_1 bit_and_iff bit_exp_iff)
    then have "mask1 AND push_bit i 1 = 0 \<longleftrightarrow> \<not> bit mask1 i"
      by (metis bit_0_eq bot_apply bot_bool_def bit_word_eqI)
    then show ?thesis using b by simp
  qed
  have ih: "expand_pixels (length ps) p mask1 (push_bit (Suc i) 1) masks1 (changes p ps) = Ok ps"
    using st1(2) rest by (intro Cons.IH [of "Suc i"]) auto
  have pb: "push_bit 1 (push_bit i (1 :: 32 word)) = push_bit (Suc i) 1" by (simp add: push_bit_push_bit)
  show ?case
    using ne ih zero Cons.prems(4)
    unfolding expand_pixels.simps list.size st_def [symmetric] st1
    by (auto simp only: expand_pixels.simps Let_def prod.case st1 pb st_def [symmetric] changes.simps if_True if_False
        list.case res_bind.simps add_0_right add_Suc_right list.size split: if_split)
qed simp

lemma expand_row_pack:
  assumes "length ps = 256" "pack_for_network (init_row ps) mode = Ok bytes"
  shows "expand_row (bytes @ rest) = Ok (map (mode_pixel mode) ps, rest)"
proof -
  let ?r = "init_row ps" and ?n = "length (rle_data (init_row ps))"
  have le: "length (changes l qs) \<le> length qs" for l qs by (induction qs arbitrary: l) (auto intro: le_SucI)
  have d: "rle_data ?r = changes 0 ps" and m4: "length (rle_mask ?r) = 4" using init_row_spec assms(1) by simp_all
  then have n: "?n \<le> 256" using le [of 0 ps] assms(1) by simp
  let ?mb = "concat (map (le_bytes 8) (rle_mask ?r))"
  have bytes: "bytes = [word_of_nat ?n, word_of_nat (?n div 256)] @ ?mb @ copy_row (rle_data ?r) mode"
    using assms(2) by (auto simp: pack_for_network_def copy_row_px split: if_splits)
  have lm: "length ?mb = 32" using length_concat_blocks [of "map (le_bytes 8) (rle_mask ?r)" 8] m4 by (simp add: le_bytes_def)
  have size: "unat (word_of_nat ?n :: byte) + unat (word_of_nat (?n div 256) :: byte) * 256 = ?n"
  proof (cases "?n = 256")
    case False
    then have "?n < 256" "?n div 256 = 0" using n by simp_all
    then show ?thesis by (simp add: unat_byte)
  qed simp
  obtain pad where "concat (map mask_bits (rle_mask ?r)) = repeats 0 ps @ pad" using init_row_spec(3) assms(1) by fastforce
  then have "expand_pixels (length (map (mode_pixel mode) ps)) 0 0 256 ?mb (map (mode_pixel mode) (changes 0 ps)) = Ok (map (mode_pixel mode) ps)"
    using repeats_map [of mode 0 ps] changes_map [of mode 0 ps]
    by (intro expand_pixels_spec [where j = 8 and pad = pad]) (simp_all add: push_bit_of_1 mask_byte_bits mode_pixel_0)
  then have ex: "expand_pixels 256 0 0 256 ?mb (map (mode_pixel mode) (changes 0 ps)) = Ok (map (mode_pixel mode) ps)" using assms(1) by simp
  have lc: "length (copy_row (rle_data ?r) mode) = ?n * 4" by (simp add: length_copy_row)
  have i0: "(bytes @ rest) ! 0 = word_of_nat ?n" "(bytes @ rest) ! 1 = word_of_nat (?n div 256)"
    and dr: "drop 2 (bytes @ rest) = ?mb @ copy_row (rle_data ?r) mode @ rest"
    by (simp_all add: bytes)
  have d34: "drop 34 (bytes @ rest) = copy_row (rle_data ?r) mode @ rest"
  proof -
    have "drop 34 (bytes @ rest) = drop 32 (drop 2 (bytes @ rest))" by (simp only: drop_drop) simp
    then show ?thesis unfolding dr using lm by simp
  qed
  have t32: "take 32 (drop 2 (bytes @ rest)) = ?mb" unfolding dr using lm by simp
  have len: "34 \<le> length (bytes @ rest)" using lm by (simp add: bytes)
  show ?thesis
    unfolding expand_row_def Let_def i0 size t32 d34
    using len n lc ex by (simp add: d pixels_of_copy_row)
qed

lemma expand_rows_pack:
  assumes "\<forall>r \<in> set P. length r = 256" "pack_rows mode (map init_row P) = Ok bytes"
  shows "expand_rows (length P) bytes = Ok (map (map (mode_pixel mode)) P)"
  using assms
proof (induction P arbitrary: bytes)
  case (Cons r P)
  then show ?case by (auto simp: res_bind_Ok expand_row_pack)
qed simp

lemma pack_rows_total: "\<forall>r \<in> set P. length r \<le> 256 \<Longrightarrow> \<exists>bytes. pack_rows mode (map init_row P) = Ok bytes"
proof (induction P)
  case (Cons r P)
  have "length (changes l qs) \<le> length qs" for l qs by (induction qs arbitrary: l) (auto intro: le_SucI)
  from this [of 0 r] have "length (rle_data (init_row r)) < 65536" using Cons.prems init_row_spec [of r] by simp
  then show ?case using Cons by (auto simp: pack_for_network_def)
qed simp

end
