(* ===== verification/Stores.thy ===== *)
theory Stores
  imports Prelude
begin

text \<open>
  The interface the caches share: a store of values found by a key, where storing replaces what
  is under an equal key. The delta generator's entries, the tile cache, the tiles being rendered
  and the record of what a client was sent are instances, each with its own equality of keys.
\<close>

locale keyed_store =
  fixes same :: "'k \<Rightarrow> 'k \<Rightarrow> bool"
    and key :: "'d \<Rightarrow> 'k"
    and val :: "'d \<Rightarrow> 'v"
    and find :: "'k \<Rightarrow> 's \<Rightarrow> 'v option"
    and put :: "'d \<Rightarrow> 's \<Rightarrow> 's"
  assumes equiv: "equivp same"
    and find_put: "find k (put d s) = (if same (key d) k then Some (val d) else find k s)"
begin

lemma find_put_same [simp]: "find (key d) (put d s) = Some (val d)"
  using equivp_reflp [OF equiv] by (simp add: find_put)

lemma find_put_other [simp]: "\<not> same (key d) k \<Longrightarrow> find k (put d s) = find k s"
  by (simp add: find_put)

text \<open>After any sequence of puts the last one under a key is what is found there.\<close>

lemma find_puts:
  "find k (fold put ds s) =
    (case filter (\<lambda>d. same (key d) k) (rev ds) of [] \<Rightarrow> find k s | d # _ \<Rightarrow> Some (val d))"
  by (induction ds rule: rev_induct) (simp_all add: find_put)

end

locale erasing_store = keyed_store same key val find put
  for same :: "'k \<Rightarrow> 'k \<Rightarrow> bool" and key :: "'d \<Rightarrow> 'k" and val :: "'d \<Rightarrow> 'v"
    and find :: "'k \<Rightarrow> 's \<Rightarrow> 'v option" and put :: "'d \<Rightarrow> 's \<Rightarrow> 's" +
  fixes erase :: "'k \<Rightarrow> 's \<Rightarrow> 's"
  assumes find_erase: "find k (erase k' s) = (if same k' k then None else find k s)"
begin

lemma find_erase_put [simp]: "find k (erase (key d) (put d s)) = find k (erase (key d) s)"
  by (simp add: find_erase find_put)

lemma find_erases: "find k (fold erase ks s) = (if \<exists>k' \<in> set ks. same k' k then None else find k s)"
  by (induction ks arbitrary: s) (auto simp: find_erase)

end

end
