(* ===== verification/DeltaCache.thy ===== *)
theory DeltaCache
  imports DeltaProps Stores "HOL-Library.Multiset"
begin

text \<open>
  The generator as a whole: its entries are a store keyed by location, one call of
  \<open>compressOrDelta\<close> gives a frame from which the new image is got back, a client that decodes
  every frame of a tile shows its last image, and the cache is kept to its size.
\<close>

section \<open>The entries\<close>

definition put_entry :: "delta_data \<Rightarrow> delta_data list \<Rightarrow> delta_data list" where
  "put_entry d es = (if find_entry (dd_loc d) es = None then es @ [d] else set_entry d es)"

lemma find_entry_append: "find_entry loc (es @ fs) = (case find_entry loc es of None \<Rightarrow> find_entry loc fs | Some e \<Rightarrow> Some e)"
  by (induction es) auto

lemma find_entry_set: "find_entry loc (set_entry d es) = (if dd_loc d = loc \<and> find_entry loc es \<noteq> None then Some d else find_entry loc es)"
  by (induction es) (auto simp: set_entry_def)

interpretation entries: keyed_store "(=)" dd_loc id find_entry put_entry
  by unfold_locales (auto simp: identity_equivp put_entry_def find_entry_append find_entry_set)

lemma find_entry_loc: "find_entry loc es = Some e \<Longrightarrow> dd_loc e = loc \<and> e \<in> set es"
  by (induction es) (auto split: if_splits)

lemma find_entry_None: "find_entry loc es = None \<longleftrightarrow> loc \<notin> dd_loc ` set es"
  by (induction es) auto

lemma map_loc_set_entry: "map dd_loc (set_entry d es) = map dd_loc es"
  by (simp add: set_entry_def)

text \<open>One entry for a location, each holding an image of at most 256 by 256 pixels\<close>

definition entry_ok :: "delta_data \<Rightarrow> bool" where
  "entry_ok e \<longleftrightarrow> (\<exists>P. holds e P) \<and> dd_width e \<le> 256 \<and> dd_height e \<le> 256"

definition dg_wf :: "delta_generator \<Rightarrow> bool" where
  "dg_wf g \<longleftrightarrow> distinct (map dd_loc (dg_entries g)) \<and> list_all entry_ok (dg_entries g)"

lemma dg_wf_put: "dg_wf g \<Longrightarrow> entry_ok d \<Longrightarrow> dg_wf (g\<lparr>dg_entries := put_entry d (dg_entries g)\<rparr>)"
  using map_loc_set_entry [of d "dg_entries g"]
  by (auto simp: dg_wf_def put_entry_def find_entry_None list_all_iff simp del: map_map) (auto simp: set_entry_def)

definition remembers :: "delta_generator \<Rightarrow> tile_location \<Rightarrow> pixel list list \<Rightarrow> bool" where
  "remembers g loc P \<longleftrightarrow> (\<exists>e. find_entry loc (dg_entries g) = Some e \<and> holds e P)"

lemma init_row_inj: "length p \<le> 256 \<Longrightarrow> length q = length p \<Longrightarrow> init_row p = init_row q \<Longrightarrow> p = q"
  by (metis row_identical_def row_identical_iff)

lemma holds_inj:
  assumes "holds e P" "holds e Q" "dd_width e \<le> 256"
  shows "P = Q"
proof (rule nth_equalityI)
  show len: "length P = length Q" using assms by (simp add: holds_def image_size_def)
  fix i assume i: "i < length P"
  have "map init_row P ! i = map init_row Q ! i" using assms(1,2) by (simp add: holds_def)
  then have "init_row (P ! i) = init_row (Q ! i)" using i len by simp
  moreover have "length (P ! i) = dd_width e" "length (Q ! i) = dd_width e"
    using assms(1,2) i len by (simp_all add: holds_def image_size_def)
  ultimately show "P ! i = Q ! i" using assms(3) init_row_inj by simp
qed

lemma remembers_inj: "dg_wf g \<Longrightarrow> remembers g loc P \<Longrightarrow> remembers g loc Q \<Longrightarrow> P = Q"
  by (metis dg_wf_def entry_ok_def find_entry_loc holds_inj list_all_iff option.inject remembers_def)

section \<open>One frame\<close>

lemma replace_and_free_eq: "dd_loc d = dd_loc r \<Longrightarrow> replace_and_free d r = Ok r"
  by (cases d; cases r) (simp add: replace_and_free_def)

lemma make_delta_cases:
  assumes "dd_width cur \<le> 256" "dd_height cur \<le> 256"
  obtains "make_delta zstd prev cur outp mode = Ok (False, outp)"
  | "dd_width prev = dd_width cur" "dd_height prev = dd_height cur" "delta_output prev cur mode = []"
    "make_delta zstd prev cur outp mode = Ok (True, outp @ [of_char (CHR ''D'')])"
  | z where "dd_width prev = dd_width cur" "dd_height prev = dd_height cur"
    "zstd (delta_output prev cur mode @ [of_char (CHR ''t'')]) = Some z"
    "make_delta zstd prev cur outp mode = Ok (True, outp @ of_char (CHR ''D'') # z)"
proof (cases "dd_width prev = dd_width cur \<and> dd_height prev = dd_height cur")
  case False
  then show thesis using that(1) by (auto simp: make_delta_def)
next
  case True
  show thesis
  proof (cases "delta_output prev cur mode = []")
    case out: True
    then show thesis using that(2) True assms by (simp add: make_delta_def)
  next
    case False
    show thesis
    proof (cases "zstd (delta_output prev cur mode @ [of_char (CHR ''t'')])")
      case None
      then show thesis using that(1) True False assms by (simp add: make_delta_def)
    next
      case (Some z)
      then show thesis using that(3) True False assms by (simp add: make_delta_def)
    qed
  qed
qed

lemma create_delta_cases:
  fixes g pixmap startX startY width height bufferWidth bufferHeight loc outp wid force mode zstd
  defines "create \<equiv> create_delta zstd pixmap startX startY width height bufferWidth bufferHeight loc outp wid force mode g"
  assumes "even width" "width \<le> 256" "height \<le> 256"
    and "mk_delta_data wid pixmap startX startY width height loc bufferWidth bufferHeight = Ok d"
  obtains "create = Ok (False, outp, Some d, g\<lparr>dg_entries := put_entry d (dg_entries g)\<rparr>)"
  | e outp' where "find_entry loc (dg_entries g) = Some e" "\<not> force" "make_delta zstd e d outp mode = Ok (True, outp')"
    "create = Ok (True, outp', Some d, g\<lparr>dg_entries := put_entry d (dg_entries g)\<rparr>)"
proof (cases "find_entry loc (dg_entries g)")
  case None
  have "dd_loc d = loc" using assms(5) by (auto simp: mk_delta_data_def split: if_splits)
  then show thesis using that(1) None assms by (simp add: create_delta_def put_entry_def)
next
  case (Some e)
  have d: "dd_loc d = loc" "dd_width d = width" "dd_height d = height"
    using assms(5) by (auto simp: mk_delta_data_def split: if_splits)
  have e: "dd_loc e = loc" using find_entry_loc [OF Some] by simp
  have md: "make_delta zstd e d outp mode = Ok (False, outp) \<or> (\<exists>outp'. make_delta zstd e d outp mode = Ok (True, outp'))"
    by (rule make_delta_cases [of d zstd e outp mode]) (use d assms in auto)
  show thesis
  proof (cases "force \<or> make_delta zstd e d outp mode = Ok (False, outp)")
    case True
    then show thesis using that(1) Some assms d e by (auto simp: create_delta_def put_entry_def replace_and_free_eq)
  next
    case False
    then obtain outp' where "make_delta zstd e d outp mode = Ok (True, outp')" using md by auto
    then show thesis using that(2) [OF Some] False Some assms d e
      by (auto simp: create_delta_def put_entry_def replace_and_free_eq)
  qed
qed

text \<open>
  What a client makes of a frame: a keyframe is expanded, a delta applied to the image it has,
  and a bare \<open>D\<close> changes nothing. \<open>lossless\<close> is what is relied on of the compressor.
\<close>

definition decode_frame :: "(byte list \<Rightarrow> byte list option) \<Rightarrow> nat \<Rightarrow> nat \<Rightarrow> byte list \<Rightarrow> byte list \<Rightarrow> byte list res" where
  "decode_frame unzstd w h prev frame =
    (case frame of
       [] \<Rightarrow> Err AssertionFailed
     | k # z \<Rightarrow>
         if k = of_char (CHR ''D'') \<and> z = [] then Ok prev
         else case unzstd z of
           None \<Rightarrow> Err AssertionFailed
         | Some raw \<Rightarrow>
             if k = of_char (CHR ''Z'') then res_bind (expand_rows h raw) (\<lambda>rows. Ok (image_bytes RGBA rows))
             else if k = of_char (CHR ''D'') then apply_delta prev w h raw
             else Err AssertionFailed)"

definition lossless :: "(byte list \<Rightarrow> byte list option) \<Rightarrow> (byte list \<Rightarrow> byte list option) \<Rightarrow> bool" where
  "lossless zstd unzstd \<longleftrightarrow> (\<forall>bs. \<exists>z. zstd bs = Some z \<and> z \<noteq> [] \<and> unzstd z = Some bs)"

lemma lossless_unzstd: "lossless zstd unzstd \<Longrightarrow> zstd bs = Some z \<Longrightarrow> z \<noteq> [] \<and> unzstd z = Some bs"
  by (metis lossless_def option.inject)

lemma image_bytes_mode: "image_bytes RGBA (map (map (mode_pixel mode)) P) = image_bytes mode P"
  by (simp add: image_bytes_def comp_def copy_row_mode)

lemma decode_keyframe:
  assumes "lossless zstd unzstd" "image_size 256 h P" "pack_rows mode (map init_row P) = Ok bytes" "zstd bytes = Some z"
  shows "decode_frame unzstd w h prev (of_char (CHR ''Z'') # z) = Ok (image_bytes mode P)"
proof -
  have "expand_rows h bytes = Ok (map (map (mode_pixel mode)) P)"
    using expand_rows_pack [of P mode bytes] assms(2,3) by (auto simp: image_size_def)
  then show ?thesis using lossless_unzstd [OF assms(1,4)] by (simp add: decode_frame_def image_bytes_mode)
qed

lemma decode_make_delta:
  assumes "lossless zstd unzstd" "holds e P" "holds d C" "make_delta zstd e d outp mode = Ok (True, outp')"
    and "0 < dd_width d" "dd_width d \<le> 256" "0 < dd_height d" "dd_height d \<le> 256"
  shows "\<exists>frame. outp' = outp @ frame \<and> decode_frame unzstd (dd_width d) (dd_height d) (image_bytes mode P) frame = Ok (image_bytes mode C)"
  using assms(6,8)
proof (rule make_delta_cases [of d zstd e outp mode])
  assume "make_delta zstd e d outp mode = Ok (False, outp)"
  then show ?thesis using assms(4) by simp
next
  assume d: "dd_width e = dd_width d" "dd_height e = dd_height d" "delta_output e d mode = []"
    and m: "make_delta zstd e d outp mode = Ok (True, outp @ [of_char (CHR ''D'')])"
  have "C = P" using delta_output_inv(2) [OF assms(2,3)] d assms(6,8) by simp
  moreover have "outp' = outp @ [of_char (CHR ''D'')]" using assms(4) m by simp
  ultimately show ?thesis by (intro exI [of _ "[of_char (CHR ''D'')]"]) (simp add: decode_frame_def)
next
  fix z
  assume d: "dd_width e = dd_width d" "dd_height e = dd_height d"
    and z: "zstd (delta_output e d mode @ [of_char (CHR ''t'')]) = Some z"
    and m: "make_delta zstd e d outp mode = Ok (True, outp @ of_char (CHR ''D'') # z)"
  moreover have "outp' = outp @ of_char (CHR ''D'') # z" using assms(4) m by simp
  ultimately show ?thesis
    using apply_delta_output [OF assms(2,3)] assms(5-8) lossless_unzstd [OF assms(1) z]
    by (intro exI [of _ "of_char (CHR ''D'') # z"]) (simp add: decode_frame_def)
qed

text \<open>A frame brings a client that has the image the generator remembers to the new image.\<close>

lemma compress_or_delta_frame:
  assumes z: "lossless zstd unzstd" and wf: "dg_wf g"
    and buf: "length pixmap = bufferWidth * bufferHeight" "startX + 256 \<le> bufferWidth" "startY + height \<le> bufferHeight"
    and h: "0 < height" "height \<le> 256"
    and prev: "\<And>P. remembers g loc P \<Longrightarrow> \<not> force \<Longrightarrow> prev = image_bytes mode P"
  obtains frame g' where
    "compress_or_delta zstd pixmap startX startY 256 height bufferWidth bufferHeight loc outp wid force mode g =
      Ok (length (outp @ frame), outp @ frame, g')"
    "decode_frame unzstd 256 height prev frame = Ok (image_bytes mode (sub_image pixmap startX startY 256 height bufferWidth))"
    "dg_wf g'" "remembers g' loc (sub_image pixmap startX startY 256 height bufferWidth)"
    "\<forall>l. l \<noteq> loc \<longrightarrow> find_entry l (dg_entries g') = find_entry l (dg_entries g)"
proof -
  let ?C = "sub_image pixmap startX startY 256 height bufferWidth"
  obtain d where mk: "mk_delta_data wid pixmap startX startY 256 height loc bufferWidth bufferHeight = Ok d"
    using buf by (auto simp: mk_delta_data_def)
  note d = mk_delta_data_holds [OF mk buf(1)]
  let ?g = "g\<lparr>dg_entries := put_entry d (dg_entries g)\<rparr>"
  have ok: "entry_ok d" using d h by (auto simp: entry_ok_def)
  have post: "dg_wf ?g" "remembers ?g loc ?C" "\<forall>l. l \<noteq> loc \<longrightarrow> find_entry l (dg_entries ?g) = find_entry l (dg_entries g)"
    using dg_wf_put [OF wf ok] d entries.find_put [of loc d "dg_entries g"] entries.find_put_other [of d]
    by (auto simp: remembers_def)
  have "even (256 :: nat)" by simp
  then show thesis
  proof (rule create_delta_cases [OF _ _ h(2) mk, where g = g and outp = outp and force = force and mode = mode and zstd = zstd])
    assume c: "create_delta zstd pixmap startX startY 256 height bufferWidth bufferHeight loc outp wid force mode g =
      Ok (False, outp, Some d, ?g)"
    have rows: "take height (dd_rows d) = map init_row ?C" and size: "image_size 256 height ?C"
      using d by (auto simp: holds_def image_size_def)
    obtain bytes where bytes: "pack_rows mode (map init_row ?C) = Ok bytes"
      using pack_rows_total [of ?C mode] size by (auto simp: image_size_def)
    obtain y where y: "zstd bytes = Some y" using z by (auto simp: lossless_def)
    show thesis
      using that [of "of_char (CHR ''Z'') # y" ?g] c rows bytes y decode_keyframe [OF z size bytes y] post
      by (simp add: compress_or_delta_def)
  next
    fix e outp'
    assume e: "find_entry loc (dg_entries g) = Some e" "\<not> force" "make_delta zstd e d outp mode = Ok (True, outp')"
      and c: "create_delta zstd pixmap startX startY 256 height bufferWidth bufferHeight loc outp wid force mode g =
      Ok (True, outp', Some d, ?g)"
    obtain P where P: "holds e P" using wf find_entry_loc [OF e(1)] by (auto simp: dg_wf_def list_all_iff entry_ok_def)
    then have "prev = image_bytes mode P" using prev e by (auto simp: remembers_def)
    moreover obtain frame where "outp' = outp @ frame"
      "decode_frame unzstd 256 height (image_bytes mode P) frame = Ok (image_bytes mode ?C)"
      using decode_make_delta [OF z P d(1) e(3)] d h by auto
    ultimately show thesis using that [of frame ?g] c post by (simp add: compress_or_delta_def)
  qed simp
qed

section \<open>The frames of a tile\<close>

text \<open>A tile rendered again and again, each time from a buffer of its own size; and a client that
  decodes every frame\<close>

fun render_frames ::
    "(byte list \<Rightarrow> byte list option) \<Rightarrow> nat \<Rightarrow> tile_location \<Rightarrow> tile_mode \<Rightarrow> (pixel list \<times> wire_id \<times> bool) list \<Rightarrow>
     delta_generator \<Rightarrow> (byte list list \<times> delta_generator) res" where
  "render_frames zstd height loc mode [] g = Ok ([], g)"
| "render_frames zstd height loc mode ((pixmap, wid, force) # us) g =
    res_bind (compress_or_delta zstd pixmap 0 0 256 height 256 height loc [] wid force mode g) (\<lambda>(n, frame, g').
      res_bind (render_frames zstd height loc mode us g') (\<lambda>(frames, g''). Ok (frame # frames, g'')))"

definition decode_frames :: "(byte list \<Rightarrow> byte list option) \<Rightarrow> nat \<Rightarrow> byte list list \<Rightarrow> byte list \<Rightarrow> byte list res" where
  "decode_frames unzstd h = res_fold (\<lambda>frame prev. decode_frame unzstd 256 h prev frame)"

lemma render_frames_decode:
  assumes "lossless zstd unzstd" "0 < height" "height \<le> 256"
    and "\<forall>(pixmap, wid, force) \<in> set us. length pixmap = 256 * height"
    and "dg_wf g" "\<And>P. remembers g loc P \<Longrightarrow> prev = image_bytes mode P"
  shows "\<exists>frames g'. render_frames zstd height loc mode us g = Ok (frames, g') \<and> dg_wf g' \<and> length frames = length us \<and>
    decode_frames unzstd height frames prev =
      Ok (if us = [] then prev else image_bytes mode (sub_image (fst (last us)) 0 0 256 height 256)) \<and>
    (us \<noteq> [] \<longrightarrow> remembers g' loc (sub_image (fst (last us)) 0 0 256 height 256))"
  using assms(4-6)
proof (induction us arbitrary: g prev)
  case Nil
  then show ?case by (simp add: decode_frames_def)
next
  case (Cons u us)
  obtain pixmap wid force where u: "u = (pixmap, wid, force)" by (rule prod_cases3)
  have len: "length pixmap = 256 * height" using Cons.prems(1) u by simp
  let ?C = "sub_image pixmap 0 0 256 height 256"
  obtain frame g1 where f: "compress_or_delta zstd pixmap 0 0 256 height 256 height loc [] wid force mode g = Ok (length frame, frame, g1)"
    and d: "decode_frame unzstd 256 height prev frame = Ok (image_bytes mode ?C)"
    and g1: "dg_wf g1" "remembers g1 loc ?C"
    using compress_or_delta_frame [OF assms(1) Cons.prems(2) len _ _ assms(2,3), where outp = "[]" and prev = prev and loc = loc
        and mode = mode and force = force and wid = wid] Cons.prems(3)
    by (metis append_Nil add_0 order_refl)
  have r: "image_bytes mode ?C = image_bytes mode P" if "remembers g1 loc P" for P
    using remembers_inj [OF g1 that] by simp
  obtain frames g2 where "render_frames zstd height loc mode us g1 = Ok (frames, g2)" "dg_wf g2" "length frames = length us"
    "decode_frames unzstd height frames (image_bytes mode ?C) =
      Ok (if us = [] then image_bytes mode ?C else image_bytes mode (sub_image (fst (last us)) 0 0 256 height 256))"
    "us \<noteq> [] \<longrightarrow> remembers g2 loc (sub_image (fst (last us)) 0 0 256 height 256)"
    using Cons.IH [OF _ g1(1) r] Cons.prems(1) by auto
  moreover from this have "us = [] \<Longrightarrow> g2 = g1" by simp
  ultimately show ?case using f d g1 u by (auto simp: decode_frames_def)
qed

section \<open>Failures\<close>

text \<open>When the compressor fails nothing is output, but the image is remembered as if it had been.\<close>

lemma compress_or_delta_fails:
  assumes "\<And>bs. zstd bs = None"
    and "length pixmap = bufferWidth * bufferHeight" "startX + width \<le> bufferWidth" "startY + height \<le> bufferHeight"
    and "even width" "width \<le> 256" "height \<le> 256" "find_entry loc (dg_entries g) = None \<or> force"
  shows "\<exists>g'. compress_or_delta zstd pixmap startX startY width height bufferWidth bufferHeight loc outp wid force mode g =
      Ok (0, outp, g') \<and> remembers g' loc (sub_image pixmap startX startY width height bufferWidth)"
proof -
  let ?C = "sub_image pixmap startX startY width height bufferWidth"
  obtain d where mk: "mk_delta_data wid pixmap startX startY width height loc bufferWidth bufferHeight = Ok d"
    using assms by (auto simp: mk_delta_data_def)
  note d = mk_delta_data_holds [OF mk assms(2)]
  let ?g = "g\<lparr>dg_entries := put_entry d (dg_entries g)\<rparr>"
  have r: "remembers ?g loc ?C" using d entries.find_put [of loc d "dg_entries g"] by (auto simp: remembers_def)
  have c: "create_delta zstd pixmap startX startY width height bufferWidth bufferHeight loc outp wid force mode g = Ok (False, outp, Some d, ?g)"
    by (rule create_delta_cases [OF assms(5-7) mk, where g = g and outp = outp and force = force and mode = mode and zstd = zstd])
      (use assms(8) in auto)
  obtain bytes where "pack_rows mode (map init_row ?C) = Ok bytes"
    using pack_rows_total [of ?C mode] d assms(6) by (auto simp: holds_def image_size_def)
  moreover have "take height (dd_rows d) = map init_row ?C" using d by (auto simp: holds_def image_size_def)
  ultimately show ?thesis using c r assms(1) by (simp add: compress_or_delta_def)
qed

text \<open>An odd width is refused for a delta, and there is nothing to make a keyframe from.\<close>

lemma compress_or_delta_odd:
  "odd width \<Longrightarrow>
    compress_or_delta zstd pixmap startX startY width height bufferWidth bufferHeight loc outp wid force mode g = Err AssertionFailed"
  by (simp add: compress_or_delta_def create_delta_def)

section \<open>The size of the cache\<close>

lemma filter_not_prefix:
  assumes "distinct (map f ys)" "mset xs = mset ys"
  shows "mset (filter (\<lambda>x. f x \<notin> f ` set (take k ys)) xs) = mset (drop k ys)"
proof -
  have d: "f ` set (take k ys) \<inter> f ` set (drop k ys) = {}"
    using assms(1) by (metis append_take_drop_id distinct_append list.set_map map_append)
  have "filter (\<lambda>x. f x \<notin> f ` set (take k ys)) (take k ys @ drop k ys) = drop k ys"
    unfolding filter_append using d by (auto simp: filter_empty_conv filter_id_conv)
  then show ?thesis using assms(2) by (metis append_take_drop_id mset_filter)
qed

lemma rebalance_kept:
  assumes "distinct (map dd_loc (dg_entries g))" "dg_maxEntries g < length (dg_entries g)"
  shows "mset (dg_entries (rebalance_deltas_t False g)) =
    mset (drop (length (dg_entries g) - dg_maxEntries g * 3 div 4) (sort_key dd_wid (dg_entries g)))"
proof -
  let ?s = "sort_key dd_wid (dg_entries g)"
  have "distinct (map dd_loc ?s)" using assms(1) by (metis distinct_map mset_eq_imp_distinct_iff mset_sort set_sort)
  from filter_not_prefix [OF this, of "dg_entries g"] show ?thesis
    using assms(2) by (simp add: rebalance_deltas_t_def list_ex_iff same_location_def image_iff Let_def)
qed

lemma rebalance_wf: "dg_wf g \<Longrightarrow> dg_wf (rebalance_deltas_t b g)"
  by (auto simp: dg_wf_def rebalance_deltas_t_def Let_def list_all_iff distinct_map_filter)

end
