(* ===== verification/DeltaTheorems.thy ===== *)
theory DeltaTheorems
  imports DeltaCache
begin

text \<open>
  What the delta generator guarantees: equal rows are recognised, a delta turns the old image
  into the new one, a client that decodes every frame shows the last image, and the cache is
  kept to its size; and what happens when the compressor fails or the width is odd.
\<close>

text \<open>A compressor for examples: one byte, and the data\<close>

definition put_byte :: "byte list \<Rightarrow> byte list option" where
  "put_byte bs = Some (1 # bs)"

definition drop_byte :: "byte list \<Rightarrow> byte list option" where
  "drop_byte z = (case z of [] \<Rightarrow> None | _ # bs \<Rightarrow> Some bs)"

lemma lossless_byte: "lossless put_byte drop_byte"
  by (simp add: lossless_def put_byte_def drop_byte_def)

definition some_loc :: tile_location where
  "some_loc = \<lparr>tl_left = 0, tl_top = 0, tl_size = 3840, tl_part = 0, tl_canonicalViewId = 0, tl_viewMode = 0\<rparr>"

lemma dg_init_wf: "dg_wf dg_init" "\<not> remembers dg_init loc P"
  by (simp_all add: dg_wf_def dg_init_def remembers_def)

text \<open>C31: Two rows of up to 256 pixels compare identical, by mask and data of their run-length
  encoding, exactly when their pixels are equal.\<close>

theorem rows_identical_iff_equal:
  assumes "length ps = length qs" "length ps \<le> 256"
  shows "row_identical (init_row ps) (init_row qs) \<longleftrightarrow> ps = qs"
  by (rule row_identical_iff [OF assms])

theorem rows_identical_iff_equal_witness: "\<not> row_identical (init_row [1, 1, 2]) (init_row [1, 2, 2])"
  using rows_identical_iff_equal [of "[1, 1, 2]" "[1, 2, 2]"] by simp

text \<open>C9: The delta of two images of a tile is right: applied by the decoder to the bytes of the old
  image, in either byte order, it gives the bytes of the new one, whatever rows it copied,
  merged into runs or sent as differences.\<close>

theorem delta_roundtrip:
  assumes "holds prev P" "holds cur C" "dd_width cur = dd_width prev" "dd_height cur = dd_height prev"
    and "0 < dd_width prev" "dd_width prev \<le> 256" "0 < dd_height prev" "dd_height prev \<le> 256"
  shows "apply_delta (image_bytes mode P) (dd_width prev) (dd_height prev) (delta_output prev cur mode @ [of_char (CHR ''t'')]) =
    Ok (image_bytes mode C)"
  by (rule apply_delta_output [OF assms])

theorem delta_roundtrip_witness:
  "\<exists>prev cur. mk_delta_data 1 [1, 2] 0 0 2 1 some_loc 2 1 = Ok prev \<and> mk_delta_data 2 [3, 2] 0 0 2 1 some_loc 2 1 = Ok cur \<and>
    apply_delta (image_bytes RGBA [[1, 2]]) 2 1 (delta_output prev cur RGBA @ [of_char (CHR ''t'')]) = Ok (image_bytes RGBA [[3, 2]])"
proof -
  obtain prev cur where p: "mk_delta_data 1 [1, 2] 0 0 2 1 some_loc 2 1 = Ok prev"
    and c: "mk_delta_data 2 [3, 2] 0 0 2 1 some_loc 2 1 = Ok cur" by (simp add: mk_delta_data_def)
  note dp = mk_delta_data_holds [OF p] and dc = mk_delta_data_holds [OF c]
  have "holds prev [[1, 2]]" "holds cur [[3, 2]]" using dp(1) dc(1) by (simp_all add: sub_image_def)
  from delta_roundtrip [OF this, of RGBA] dp dc p c show ?thesis by simp
qed

text \<open>C10: One frame from \<open>compressOrDelta\<close>, given a compressor that can be undone, is enough for a
  client that shows the image the generator remembers (or any client, when a keyframe is forced
  or nothing is remembered) to show the new one; the generator remembers the new image, and
  what it remembers of other tiles is unchanged.\<close>

theorem frame_decodes:
  assumes "lossless zstd unzstd" "dg_wf g"
    and "length pixmap = bufferWidth * bufferHeight" "startX + 256 \<le> bufferWidth" "startY + height \<le> bufferHeight"
    and "0 < height" "height \<le> 256"
    and "\<And>P. remembers g loc P \<Longrightarrow> \<not> force \<Longrightarrow> prev = image_bytes mode P"
  shows "\<exists>frame g'.
    compress_or_delta zstd pixmap startX startY 256 height bufferWidth bufferHeight loc outp wid force mode g =
      Ok (length (outp @ frame), outp @ frame, g') \<and>
    decode_frame unzstd 256 height prev frame = Ok (image_bytes mode (sub_image pixmap startX startY 256 height bufferWidth)) \<and>
    dg_wf g' \<and> remembers g' loc (sub_image pixmap startX startY 256 height bufferWidth) \<and>
    (\<forall>l. l \<noteq> loc \<longrightarrow> find_entry l (dg_entries g') = find_entry l (dg_entries g))"
  by (rule compress_or_delta_frame [OF assms(1-7), where loc = loc and force = force and prev = prev and mode = mode
        and outp = outp and wid = wid]) (use assms(8) in blast)+

theorem frame_decodes_witness:
  "\<exists>frame g'. compress_or_delta put_byte (replicate 256 7) 0 0 256 1 256 1 some_loc [] 1 False BGRA dg_init =
      Ok (length frame, frame, g') \<and>
    decode_frame drop_byte 256 1 [] frame = Ok (image_bytes BGRA (sub_image (replicate 256 7) 0 0 256 1 256))"
proof -
  have "\<exists>frame g'. compress_or_delta put_byte (replicate 256 7) 0 0 256 1 256 1 some_loc [] 1 False BGRA dg_init =
      Ok (length ([] @ frame), [] @ frame, g') \<and>
    decode_frame drop_byte 256 1 [] frame = Ok (image_bytes BGRA (sub_image (replicate 256 7) 0 0 256 1 256)) \<and>
    dg_wf g' \<and> remembers g' some_loc (sub_image (replicate 256 7) 0 0 256 1 256) \<and>
    (\<forall>l. l \<noteq> some_loc \<longrightarrow> find_entry l (dg_entries g') = find_entry l (dg_entries dg_init))"
    by (rule frame_decodes [OF lossless_byte dg_init_wf(1)]) (simp_all add: dg_init_wf(2))
  then show ?thesis by auto
qed

text \<open>C5: A tile rendered again and again: the frames, keyframes and deltas as the generator chose
  them, decoded one after the other from any start, end with the last image rendered.\<close>

theorem frames_show_last_image:
  assumes "lossless zstd unzstd" "0 < height" "height \<le> 256" "us \<noteq> []"
    and "\<forall>(pixmap, wid, force) \<in> set us. length pixmap = 256 * height"
  shows "\<exists>frames g. render_frames zstd height loc mode us dg_init = Ok (frames, g) \<and> length frames = length us \<and>
    decode_frames unzstd height frames prev = Ok (image_bytes mode (sub_image (fst (last us)) 0 0 256 height 256))"
  using render_frames_decode [OF assms(1-3,5) dg_init_wf(1), of loc prev mode] dg_init_wf(2) assms(4) by auto

theorem frames_show_last_image_witness:
  "\<exists>frames g. render_frames put_byte 1 some_loc RGBA [(replicate 256 7, 1, False), (replicate 256 8, 2, False)] dg_init =
      Ok (frames, g) \<and>
    decode_frames drop_byte 1 frames [] = Ok (image_bytes RGBA (sub_image (replicate 256 8) 0 0 256 1 256))"
proof -
  let ?us = "[(replicate 256 7, 1, False), (replicate 256 8, 2, False)] :: (pixel list \<times> wire_id \<times> bool) list"
  have "(0 :: nat) < 1" "(1 :: nat) \<le> 256" "?us \<noteq> []" "\<forall>(pixmap, wid, force) \<in> set ?us. length pixmap = 256 * 1" by simp_all
  from frames_show_last_image [OF lossless_byte this, of some_loc RGBA "[]"] show ?thesis by auto
qed

text \<open>C40: When the compressor fails, \<open>compressOrDelta\<close> returns 0 and outputs nothing, but the generator
  has already replaced the image it remembers, so that the next delta is against an image no
  client was sent.\<close>

theorem compress_failure_remembered:
  assumes "\<And>bs. zstd bs = None"
    and "length pixmap = bufferWidth * bufferHeight" "startX + width \<le> bufferWidth" "startY + height \<le> bufferHeight"
    and "even width" "width \<le> 256" "height \<le> 256" "find_entry loc (dg_entries g) = None \<or> force"
  shows "\<exists>g'. compress_or_delta zstd pixmap startX startY width height bufferWidth bufferHeight loc outp wid force mode g =
      Ok (0, outp, g') \<and> remembers g' loc (sub_image pixmap startX startY width height bufferWidth)"
  by (rule compress_or_delta_fails [OF assms])

theorem compress_failure_remembered_witness:
  "\<exists>g'. compress_or_delta (\<lambda>_. None) [1, 2] 0 0 2 1 2 1 some_loc [] 1 False RGBA dg_init = Ok (0, [], g') \<and>
    remembers g' some_loc (sub_image [1, 2] 0 0 2 1 2)"
  by (rule compress_failure_remembered) (simp_all add: dg_init_def)

text \<open>A tile of odd width cannot be compressed at all: the delta is refused before there is row
  data to make a keyframe from, and the assertion that there is some fails.\<close>

theorem odd_width_fails:
  assumes "odd width"
  shows "compress_or_delta zstd pixmap startX startY width height bufferWidth bufferHeight loc outp wid force mode g =
    Err AssertionFailed"
  by (rule compress_or_delta_odd [OF assms])

theorem odd_width_fails_witness:
  "compress_or_delta Some [1] 0 0 1 1 1 1 some_loc [] 1 False RGBA dg_init = Err AssertionFailed"
  by (rule odd_width_fails) simp

text \<open>Rebalancing keeps the cache to its size: with more entries than allowed, three quarters of
  the allowed number are left, and every one left is at least as recent as every one removed;
  otherwise nothing is removed.\<close>

theorem rebalance_bounds:
  assumes "dg_wf g"
  shows "dg_wf (rebalance_deltas_t False g) \<and>
    (if dg_maxEntries g < length (dg_entries g)
     then length (dg_entries (rebalance_deltas_t False g)) = dg_maxEntries g * 3 div 4 \<and>
       (\<forall>e \<in> set (dg_entries (rebalance_deltas_t False g)). \<forall>r \<in> set (dg_entries g).
          r \<notin> set (dg_entries (rebalance_deltas_t False g)) \<longrightarrow> dd_wid r \<le> dd_wid e)
     else rebalance_deltas_t False g = g)"
proof (cases "dg_maxEntries g < length (dg_entries g)")
  case False
  then show ?thesis using assms by (simp add: rebalance_deltas_t_def)
next
  case True
  let ?s = "sort_key dd_wid (dg_entries g)" and ?k = "length (dg_entries g) - dg_maxEntries g * 3 div 4"
  let ?es = "dg_entries (rebalance_deltas_t False g)"
  have m: "mset ?es = mset (drop ?k ?s)" using rebalance_kept [OF _ True] assms by (simp add: dg_wf_def)
  then have len: "length ?es = dg_maxEntries g * 3 div 4" using True mset_eq_length [OF m] by simp
  have set: "set ?es = set (drop ?k ?s)" using m by (rule mset_eq_setD)
  have "dd_wid r \<le> dd_wid e" if "e \<in> set ?es" "r \<in> set (dg_entries g)" "r \<notin> set ?es" for e r
  proof -
    have "r \<in> set (take ?k ?s)" using that(2,3) unfolding set by (metis Un_iff append_take_drop_id set_append set_sort)
    moreover have "sorted (map dd_wid (take ?k ?s @ drop ?k ?s))" by (simp del: append_take_drop_id add: append_take_drop_id)
    ultimately show ?thesis using that(1) unfolding set by (auto simp: sorted_append simp del: append_take_drop_id)
  qed
  then show ?thesis using True len rebalance_wf [OF assms] by auto
qed

theorem rebalance_bounds_witness: "dg_wf (rebalance_deltas_t False dg_init)"
  using rebalance_bounds [OF dg_init_wf(1)] by blast

end
