(* ===== verification/TileCaches.thy ===== *)
theory TileCaches
  imports TileDescs Stores Deltas
begin

unbundle bit_operations_syntax

text \<open>
  The tile cache of the server, src/wsd/TileCache.hpp and src/wsd/TileCache.cpp: the frames kept
  for a tile (\<open>TileData\<close>), the cache of the tiles of a document with its eviction, the tiles
  being rendered and who waits for them, invalidation, and the streams kept by name.

  The hash maps keyed by a descriptor are association lists compared by the fields the cache
  cares about; times are nanoseconds. The checks of the owning thread are left out, and the
  assertions are those of a debug build.
\<close>

section \<open>Keys\<close>

definition cache_eq :: "tile_desc \<Rightarrow> tile_desc \<Rightarrow> bool" where
  "cache_eq l r \<longleftrightarrow>
    td_part l = td_part r \<and> td_width l = td_width r \<and> td_height l = td_height r \<and>
    td_tilePosX l = td_tilePosX r \<and> td_tilePosY l = td_tilePosY r \<and>
    td_tileWidth l = td_tileWidth r \<and> td_tileHeight l = td_tileHeight r \<and>
    td_canonicalViewId l = td_canonicalViewId r \<and> td_mode l = td_mode r"

definition cache_hash :: "tile_desc \<Rightarrow> 64 word" where
  "cache_hash t =
    foldl (\<lambda>h v. push_bit 5 h + h + word_of_int v) (word_of_int (td_part t))
      [td_mode t, td_width t, td_height t, td_tilePosX t, td_tilePosY t, td_tileWidth t, td_tileHeight t,
       td_canonicalViewId t]"

lemma cache_hash_eq: "cache_eq l r \<Longrightarrow> cache_hash l = cache_hash r"
  by (simp add: cache_eq_def cache_hash_def)

text \<open>Finding, setting (which keeps the descriptor an entry was made with) and erasing\<close>

fun find_desc :: "tile_desc \<Rightarrow> (tile_desc \<times> 'v) list \<Rightarrow> 'v option" where
  "find_desc d [] = None"
| "find_desc d ((e, v) # es) = (if cache_eq e d then Some v else find_desc d es)"

definition put_desc :: "tile_desc \<times> 'v \<Rightarrow> (tile_desc \<times> 'v) list \<Rightarrow> (tile_desc \<times> 'v) list" where
  "put_desc p es =
    (if find_desc (fst p) es = None then es @ [p]
     else map (\<lambda>(e, v). if cache_eq e (fst p) then (e, snd p) else (e, v)) es)"

definition erase_desc :: "tile_desc \<Rightarrow> (tile_desc \<times> 'v) list \<Rightarrow> (tile_desc \<times> 'v) list" where
  "erase_desc d es = filter (\<lambda>(e, v). \<not> cache_eq e d) es"

section \<open>The frames of a tile\<close>

record tile_data =
  ti_wids :: "wire_id list"
  ti_offsets :: "nat list"
  ti_deltas :: "byte list"
  ti_valid :: bool

definition ti_size :: "tile_data \<Rightarrow> nat" where
  "ti_size t = length (ti_deltas t)"

definition is_keyframe :: "byte list \<Rightarrow> bool" where
  "is_keyframe dat \<longleftrightarrow> length dat > 0 \<and> (dat ! 0 = of_char (CHR ''Z'') \<or> dat ! 0 = 0x89)"

text \<open>\<open>appendBlob\<close>: the change of the size, and the tile\<close>

definition append_blob :: "wire_id \<Rightarrow> byte list \<Rightarrow> tile_data \<Rightarrow> (int \<times> tile_data) res" where
  "append_blob i dat t =
    (if length dat \<ge> 1 then
       let t1 = (if is_keyframe dat then t\<lparr>ti_wids := [], ti_offsets := [], ti_deltas := []\<rparr> else t);
           t2 = (if length dat = 1 \<and> length (ti_offsets t1) > 1 \<and> last (ti_offsets t1) = length (ti_deltas t1)
                 then t1\<lparr>ti_wids := butlast (ti_wids t1) @ [i]\<rparr>
                 else t1\<lparr>ti_wids := ti_wids t1 @ [i], ti_offsets := ti_offsets t1 @ [length (ti_deltas t1)],
                   ti_deltas := ti_deltas t1 @ tl dat\<rparr>);
           t3 = t2\<lparr>ti_valid := True\<rparr>
       in Ok (int (ti_size t3) - int (ti_size t), t3)
     else Err AssertionFailed)"

definition mk_tile_data :: "wire_id \<Rightarrow> byte list \<Rightarrow> tile_data res" where
  "mk_tile_data start dat =
    res_bind (append_blob start dat \<lparr>ti_wids = [], ti_offsets = [], ti_deltas = [], ti_valid = False\<rparr>) (\<lambda>(n, t). Ok t)"

definition too_large :: "tile_data \<Rightarrow> bool" where
  "too_large t = (if length (ti_offsets t) \<le> 1 then False else ti_size t - ti_offsets t ! 1 > 128 * 1024)"

definition is_png :: "tile_data \<Rightarrow> bool" where
  "is_png t \<longleftrightarrow> length (ti_deltas t) > 1 \<and> ti_deltas t ! 0 = 0x89"

definition ti_invalidate :: "tile_data \<Rightarrow> tile_data" where
  "ti_invalidate t = t\<lparr>ti_valid := False\<rparr>"

definition needs_keyframe :: "wire_id \<Rightarrow> tile_data \<Rightarrow> bool res" where
  "needs_keyframe since t = (case ti_wids t of [] \<Rightarrow> Err OutOfBounds | w # _ \<Rightarrow> Ok (since < w))"

definition append_changes_since :: "byte list \<Rightarrow> wire_id \<Rightarrow> tile_data \<Rightarrow> bool \<times> byte list" where
  "append_changes_since outp since t =
    (let i = (if since \<noteq> 0 then length (takeWhile (\<lambda>w. w \<le> since) (ti_wids t)) else 0)
     in if i \<ge> length (ti_wids t) then (False, outp)
        else (True, outp @ drop (ti_offsets t ! i) (ti_deltas t)))"

section \<open>The cache\<close>

text \<open>Sessions are known by a number. A subscriber that is gone is not in \<open>alive\<close>.\<close>

type_synonym session_id = nat

record tile_being_rendered =
  tbr_subscribers :: "session_id list"
  tbr_startTime :: int
  tbr_tile :: tile_desc

datatype stream_type = Font | Style | CmdValues

record tile_cache =
  ca_streams :: "stream_type \<Rightarrow> string \<Rightarrow> byte list option"
  ca_cache :: "(tile_desc \<times> tile_data) list"
  ca_rendering :: "(tile_desc \<times> tile_being_rendered) list"
  ca_cacheSize :: "64 word"
  ca_maxCacheSize :: "64 word"
  ca_dontCache :: bool

definition mk_tile_cache :: "bool \<Rightarrow> tile_cache" where
  "mk_tile_cache dontCache = \<lparr>ca_streams = (\<lambda>_ _. None), ca_cache = [], ca_rendering = [], ca_cacheSize = 0,
    ca_maxCacheSize = 1024 * 1024, ca_dontCache = dontCache\<rparr>"

definition ca_clear :: "tile_cache \<Rightarrow> tile_cache" where
  "ca_clear c = c\<lparr>ca_cache := [], ca_cacheSize := 0, ca_streams := (\<lambda>_ _. None)\<rparr>"

subsection \<open>Tiles being rendered\<close>

definition mk_tile_being_rendered :: "tile_desc \<Rightarrow> int \<Rightarrow> tile_being_rendered" where
  "mk_tile_being_rendered tile now = \<lparr>tbr_subscribers = [], tbr_startTime = now, tbr_tile = tile\<rparr>"

definition command_timeout_ms :: int where "command_timeout_ms = 5000"

definition elapsed_ms :: "int \<Rightarrow> tile_being_rendered \<Rightarrow> int" where
  "elapsed_ms now t = cdiv (now - tbr_startTime t) 1000000"

definition is_stale :: "int \<Rightarrow> tile_being_rendered \<Rightarrow> bool" where
  "is_stale now t \<longleftrightarrow> elapsed_ms now t > command_timeout_ms"

definition tbr_version :: "tile_being_rendered \<Rightarrow> int" where
  "tbr_version t = td_ver (tbr_tile t)"

definition tbr_set_version :: "int \<Rightarrow> tile_being_rendered \<Rightarrow> tile_being_rendered" where
  "tbr_set_version v t = t\<lparr>tbr_tile := (tbr_tile t)\<lparr>td_ver := v\<rparr>\<rparr>"

definition count_tiles_being_rendered_for_session :: "session_id \<Rightarrow> int \<Rightarrow> tile_cache \<Rightarrow> nat" where
  "count_tiles_being_rendered_for_session session now c =
    sum_list (map (\<lambda>(d, r). if is_stale now r then 0 else length (filter (\<lambda>s. s = session) (tbr_subscribers r)))
      (ca_rendering c))"

definition find_tile_being_rendered :: "tile_desc \<Rightarrow> tile_cache \<Rightarrow> tile_being_rendered option" where
  "find_tile_being_rendered d c = find_desc d (ca_rendering c)"

definition has_tile_being_rendered :: "tile_desc \<Rightarrow> int option \<Rightarrow> tile_cache \<Rightarrow> bool" where
  "has_tile_being_rendered d now c =
    (case find_tile_being_rendered d c of
       None \<Rightarrow> False
     | Some r \<Rightarrow> (case now of None \<Rightarrow> True | Some t \<Rightarrow> \<not> is_stale t r))"

definition forget_tile_being_rendered :: "tile_desc \<Rightarrow> tile_being_rendered \<Rightarrow> tile_cache \<Rightarrow> tile_cache res" where
  "forget_tile_being_rendered desc r c =
    (if \<not> has_tile_being_rendered (tbr_tile r) None c then Err AssertionFailed
     else if tbr_version r \<le> td_ver desc then Ok (c\<lparr>ca_rendering := erase_desc (tbr_tile r) (ca_rendering c)\<rparr>)
     else Ok c)"

definition get_tile_being_rendered_version :: "tile_desc \<Rightarrow> tile_cache \<Rightarrow> int" where
  "get_tile_being_rendered_version d c =
    (case find_tile_being_rendered d c of None \<Rightarrow> 0 | Some r \<Rightarrow> tbr_version r)"

text \<open>\<open>subscribeToTileRendering\<close>: false when the session was a subscriber already\<close>

definition subscribe_to_tile_rendering :: "tile_desc \<Rightarrow> session_id \<Rightarrow> int \<Rightarrow> tile_cache \<Rightarrow> bool \<times> tile_cache" where
  "subscribe_to_tile_rendering tile subscriber now c =
    (case find_tile_being_rendered tile c of
       Some r \<Rightarrow>
         if list_ex (\<lambda>s. s = subscriber) (tbr_subscribers r)
         then (False, c\<lparr>ca_rendering := put_desc (tile, tbr_set_version (td_ver tile) r) (ca_rendering c)\<rparr>)
         else (True, c\<lparr>ca_rendering :=
           put_desc (tile, r\<lparr>tbr_subscribers := tbr_subscribers r @ [subscriber]\<rparr>) (ca_rendering c)\<rparr>)
     | None \<Rightarrow>
         (True, c\<lparr>ca_rendering :=
           put_desc (tile, (mk_tile_being_rendered tile now)\<lparr>tbr_subscribers := [subscriber]\<rparr>) (ca_rendering c)\<rparr>))"

subsection \<open>The size\<close>

text \<open>\<open>sizeof(Tile) + sizeof(TileDesc)\<close>: a shared pointer and fourteen 32-bit fields\<close>

definition item_overhead :: nat where "item_overhead = 16 + 56"

definition item_cache_size :: "tile_data \<Rightarrow> nat" where
  "item_cache_size t = item_overhead + ti_size t"

definition assert_cache_size :: "tile_cache \<Rightarrow> tile_cache res" where
  "assert_cache_size c =
    (if foldl (\<lambda>n (d, t). n + word_of_nat (item_cache_size t)) 0 (ca_cache c) = ca_cacheSize c
     then Ok c else Err AssertionFailed)"

text \<open>The wire id up to which a quarter of the allowed size is reached\<close>

fun max_to_remove :: "64 word \<Rightarrow> 64 word \<Rightarrow> wire_id \<Rightarrow> (wire_id \<times> nat) list \<Rightarrow> wire_id" where
  "max_to_remove limit tot cur [] = cur"
| "max_to_remove limit tot cur ((w, s) # ws) =
    (let tot' = tot + word_of_nat s in if tot' > limit then w else max_to_remove limit tot' w ws)"

fun clean_loop :: "wire_id \<Rightarrow> (tile_desc \<times> tile_being_rendered) list \<Rightarrow> (tile_desc \<times> tile_data) list \<Rightarrow> 64 word \<Rightarrow>
    (tile_desc \<times> tile_data) list \<times> 64 word" where
  "clean_loop maxToRemove rendering [] sz = ([], sz)"
| "clean_loop maxToRemove rendering ((d, t) # es) sz =
    (if td_wireId d \<le> maxToRemove \<and> find_desc d rendering = None
     then clean_loop maxToRemove rendering es (sz - word_of_nat (item_cache_size t))
     else case clean_loop maxToRemove rendering es sz of (es', sz') \<Rightarrow> ((d, t) # es', sz'))"

definition ensure_cache_size :: "tile_cache \<Rightarrow> tile_cache res" where
  "ensure_cache_size c =
    res_bind (assert_cache_size c) (\<lambda>c.
      if ca_cacheSize c < ca_maxCacheSize c \<or> length (ca_cache c) < 2 then Ok c
      else
        let wids = sort_key fst (map (\<lambda>(d, t). (td_wireId d, item_cache_size t)) (ca_cache c));
            maxToRemove =
              (if fst (last wids) - fst (hd wids) > 256 * 256 * 256 then fst (last wids)
               else max_to_remove (ca_maxCacheSize c div 4) 0 (fst (hd wids)) wids)
        in case clean_loop maxToRemove (ca_rendering c) (ca_cache c) (ca_cacheSize c) of
          (es, sz) \<Rightarrow> assert_cache_size (c\<lparr>ca_cache := es, ca_cacheSize := sz\<rparr>))"

definition set_max_cache_size :: "64 word \<Rightarrow> tile_cache \<Rightarrow> tile_cache res" where
  "set_max_cache_size n c = ensure_cache_size (c\<lparr>ca_maxCacheSize := n\<rparr>)"

subsection \<open>Saving and finding tiles\<close>

definition find_tile :: "tile_desc \<Rightarrow> tile_cache \<Rightarrow> tile_data option" where
  "find_tile d c = find_desc d (ca_cache c)"

definition lookup_tile :: "tile_desc \<Rightarrow> tile_cache \<Rightarrow> tile_data option" where
  "lookup_tile d c = (if ca_dontCache c then None else find_tile d c)"

definition save_data_to_cache :: "tile_desc \<Rightarrow> byte list \<Rightarrow> tile_cache \<Rightarrow> (tile_data option \<times> tile_cache) res" where
  "save_data_to_cache desc dat c =
    (if ca_dontCache c then res_bind (mk_tile_data (td_wireId desc) dat) (\<lambda>t. Ok (Some t, c))
     else res_bind (ensure_cache_size c) (\<lambda>c.
       case find_desc desc (ca_cache c) of
         None \<Rightarrow>
           if \<not> is_keyframe dat then Ok (None, c)
           else res_bind (mk_tile_data (td_wireId desc) dat) (\<lambda>t.
             Ok (Some t, c\<lparr>ca_cache := put_desc (desc, t) (ca_cache c),
               ca_cacheSize := ca_cacheSize c + word_of_nat (item_cache_size t)\<rparr>))
       | Some t \<Rightarrow>
           res_bind (append_blob (td_wireId desc) dat t) (\<lambda>(n, t').
             Ok (Some t', c\<lparr>ca_cache := put_desc (desc, t') (ca_cache c), ca_cacheSize := ca_cacheSize c + word_of_int n\<rparr>))))"

text \<open>\<open>saveTileAndNotify\<close>: the sessions \<open>sendTileNow\<close> is called on, in order, with the tile\<close>

definition save_tile_and_notify ::
    "(session_id \<Rightarrow> bool) \<Rightarrow> tile_desc \<Rightarrow> byte list \<Rightarrow> tile_cache \<Rightarrow> ((session_id \<times> tile_data) list \<times> tile_cache) res" where
  "save_tile_and_notify alive desc dat c =
    (let rendered = find_tile_being_rendered desc c
     in res_bind (save_data_to_cache desc dat c) (\<lambda>(tile, c).
       case rendered of
         None \<Rightarrow> Ok ([], c)
       | Some r \<Rightarrow>
           let sends = (case tile of None \<Rightarrow> [] | Some t \<Rightarrow> map (\<lambda>s. (s, t)) (filter alive (tbr_subscribers r)))
           in res_bind (forget_tile_being_rendered desc r c) (\<lambda>c. Ok (sends, c))))"

subsection \<open>Streams\<close>

definition save_data_to_stream_cache :: "stream_type \<Rightarrow> string \<Rightarrow> byte list \<Rightarrow> tile_cache \<Rightarrow> tile_cache" where
  "save_data_to_stream_cache ty name dat c =
    (if ca_dontCache c then c
     else c\<lparr>ca_streams := (ca_streams c)(ty := (ca_streams c ty)(name := Some dat))\<rparr>)"

definition lookup_cached_stream :: "stream_type \<Rightarrow> string \<Rightarrow> tile_cache \<Rightarrow> byte list option" where
  "lookup_cached_stream ty name c = ca_streams c ty name"

definition get_text_stream :: "stream_type \<Rightarrow> string \<Rightarrow> tile_cache \<Rightarrow> byte list option" where
  "get_text_stream ty name c =
    (case lookup_cached_stream ty name c of
       None \<Rightarrow> None
     | Some buffer \<Rightarrow> Some (if buffer \<noteq> [] \<and> last buffer = 10 then butlast buffer else buffer))"

definition save_text_stream :: "stream_type \<Rightarrow> string \<Rightarrow> byte list \<Rightarrow> tile_cache \<Rightarrow> tile_cache" where
  "save_text_stream ty name dat c = save_data_to_stream_cache ty name dat c"

subsection \<open>Invalidation\<close>

definition intersects_tile :: "tile_desc \<Rightarrow> int \<Rightarrow> int \<Rightarrow> int \<Rightarrow> int \<Rightarrow> int \<Rightarrow> int \<Rightarrow> int \<Rightarrow> bool" where
  "intersects_tile d prt mode x y width height view =
    (if prt \<noteq> -1 \<and> td_part d \<noteq> prt then False
     else if mode \<noteq> td_mode d then False
     else if view \<noteq> td_canonicalViewId d then False
     else
       let left = max x (td_tilePosX d);
           right = min (s32 (x + width)) (s32 (td_tilePosX d + td_tileWidth d));
           top = max y (td_tilePosY d);
           bottom = min (s32 (y + height)) (s32 (td_tilePosY d + td_tileHeight d))
       in left \<le> right \<and> top \<le> bottom)"

definition invalidate_area :: "int \<Rightarrow> int \<Rightarrow> int \<Rightarrow> int \<Rightarrow> int \<Rightarrow> int \<Rightarrow> int \<Rightarrow> tile_cache \<Rightarrow> bool \<times> tile_cache" where
  "invalidate_area prt mode x y width height view c =
    (if ca_cache c = [] then (False, c)
     else (True, c\<lparr>ca_cache :=
       map (\<lambda>(d, t). if intersects_tile d prt mode x y width height view then (d, ti_invalidate t) else (d, t)) (ca_cache c)\<rparr>))"

record invalidate_msg =
  im_rect :: rectangle
  im_part :: int
  im_mode :: int
  im_wid :: wire_id

text \<open>The last case of \<open>parseInvalidateMsg\<close>: named arguments, with a mode or without\<close>

definition parse_invalidate_args :: "string_vector \<Rightarrow> nat \<Rightarrow> int \<Rightarrow> invalidate_msg res" where
  "parse_invalidate_args tokens k mode =
    (case (get_token_integer (sv_nth tokens 1) ''part'' 0,
           get_non_neg_token_integer (sv_nth tokens k) ''x'' 0,
           get_non_neg_token_integer (sv_nth tokens (k + 1)) ''y'' 0,
           get_non_neg_token_integer (sv_nth tokens (k + 2)) ''width'' 0,
           get_non_neg_token_integer (sv_nth tokens (k + 3)) ''height'' 0,
           sv_get_uint32 tokens (k + 4) ''wid'' 0) of
       ((okp, prt), (okx, x), (oky, y), (okw, width), (okh, height), (oki, wid)) \<Rightarrow>
         if okp \<and> okx \<and> oky \<and> okw \<and> okh \<and> oki
         then Ok \<lparr>im_rect = rect_of_extent x y width height, im_part = prt, im_mode = mode, im_wid = wid\<rparr>
         else Err AssertionFailed)"

definition parse_invalidate_msg :: "string \<Rightarrow> invalidate_msg res" where
  "parse_invalidate_msg tiles =
    (let tokens = tokenize tiles (CHR '' '');
         whole = rect_of_extent 0 0 INT_MAX INT_MAX;
         empty = (\<lambda>k prt mode.
           case sv_get_uint32 tokens k ''wid'' 0 of (ok, wid) \<Rightarrow>
             if ok then Ok \<lparr>im_rect = whole, im_part = prt, im_mode = mode, im_wid = wid\<rparr> else Err AssertionFailed)
     in if \<not> sv_equals tokens 0 ''invalidatetiles:'' then Err AssertionFailed
        else if sv_size tokens = 2 \<and> sv_equals tokens 1 ''EMPTY''
        then Ok \<lparr>im_rect = whole, im_part = -1, im_mode = 0, im_wid = 0\<rparr>
        else if sv_size tokens = 3 \<and> sv_equals tokens 1 ''EMPTY,'' then empty 2 (-1) 0
        else if sv_size tokens = 4 \<and> sv_equals tokens 1 ''EMPTY,'' then
          (case string_to_integer (sv_nth tokens 2) of (prt, ok) \<Rightarrow>
             if ok then empty 3 prt 0 else Err AssertionFailed)
        else if sv_size tokens = 5 \<and> sv_equals tokens 1 ''EMPTY,'' then
          (case (string_to_integer (sv_nth tokens 2), string_to_integer (sv_nth tokens 3)) of
             ((prt, ok), (mode, ok')) \<Rightarrow> if ok \<and> ok' then empty 4 prt mode else Err AssertionFailed)
        else if sv_size tokens = 7 then parse_invalidate_args tokens 2 0
        else if sv_size tokens = 8 then
          (case get_token_integer (sv_nth tokens 2) ''mode'' 0 of (ok, mode) \<Rightarrow>
             if ok then parse_invalidate_args tokens 3 mode else Err AssertionFailed)
        else Err AssertionFailed)"

definition invalidate_tiles :: "string \<Rightarrow> int \<Rightarrow> tile_cache \<Rightarrow> (bool \<times> tile_cache) res" where
  "invalidate_tiles tiles view c =
    res_bind (parse_invalidate_msg tiles) (\<lambda>m.
      Ok (invalidate_area (im_part m) (im_mode m) (rx1 (im_rect m)) (ry1 (im_rect m))
        (rect_width (im_rect m)) (rect_height (im_rect m)) view c))"

definition cache_file_name :: "tile_desc \<Rightarrow> string" where
  "cache_file_name t =
    show_int (td_canonicalViewId t) @ ''_'' @ show_int (td_part t) @ ''_'' @ show_int (td_mode t) @ ''_'' @
    show_int (td_width t) @ ''x'' @ show_int (td_height t) @ ''.'' @
    show_int (td_tilePosX t) @ '','' @ show_int (td_tilePosY t) @ ''.'' @
    show_int (td_tileWidth t) @ ''x'' @ show_int (td_tileHeight t) @ ''.png''"

end
