(* ===== verification/TileFrames.thy ===== *)
theory TileFrames
  imports TileCaches
begin

text \<open>
  The frames of a tile, abstractly: a list of payloads with their wire ids. The arrays of
  \<open>TileData\<close> represent such a list, \<open>appendBlob\<close> appends to it, and \<open>appendChangesSince\<close>
  gives what follows a wire id, so that a client sent the changes since the last it has is
  sent every frame it misses.
\<close>

section \<open>Representation\<close>

type_synonym frames = "(wire_id \<times> byte list) list"

fun starts :: "nat \<Rightarrow> frames \<Rightarrow> nat list" where
  "starts n [] = []"
| "starts n ((w, b) # fs) = n # starts (n + length b) fs"

abbreviation payload :: "frames \<Rightarrow> byte list" where
  "payload fs \<equiv> concat (map snd fs)"

definition represents :: "tile_data \<Rightarrow> frames \<Rightarrow> bool" where
  "represents t fs \<longleftrightarrow> ti_wids t = map fst fs \<and> ti_offsets t = starts 0 fs \<and> ti_deltas t = payload fs"

lemma length_starts [simp]: "length (starts n fs) = length fs"
  by (induction fs arbitrary: n) auto

lemma starts_append: "starts n (fs @ gs) = starts n fs @ starts (n + length (payload fs)) gs"
  by (induction fs arbitrary: n) (auto simp: ac_simps)

lemma starts_nth: "i < length fs \<Longrightarrow> starts n fs ! i = n + length (payload (take i fs))"
proof (induction fs arbitrary: n i)
  case (Cons f fs)
  then show ?case by (cases f; cases i) auto
qed simp

lemma starts_last: "starts 0 (fs @ [(w, b)]) = starts 0 fs @ [length (payload fs)]"
  by (simp add: starts_append)

text \<open>The arrays determine the frames.\<close>

lemma starts_payload_inj:
  "map fst fs = map fst gs \<Longrightarrow> starts n fs = starts n gs \<Longrightarrow> payload fs = payload gs \<Longrightarrow> fs = gs"
proof (induction fs arbitrary: gs n)
  case (Cons f fs)
  obtain w b where f: "f = (w, b)" by (cases f)
  from Cons.prems(1) obtain b' gs' where gs: "gs = (w, b') # gs'" by (cases gs) (auto simp: f)
  have "length b = length b'"
  proof (cases fs)
    case Nil
    then have "gs' = []" using Cons.prems(1) by (simp add: gs)
    then show ?thesis using Nil Cons.prems(3) by (simp add: f gs)
  next
    case (Cons x xs)
    then obtain y ys where "gs' = y # ys" using Cons.prems(1) by (cases gs') (auto simp: gs)
    then show ?thesis using Cons Cons.prems(2) by (cases x; cases y) (auto simp: f gs)
  qed
  then show ?case using Cons.prems Cons.IH [of gs' "n + length b"] by (simp add: f gs)
qed simp

lemma represents_unique: "represents t fs \<Longrightarrow> represents t gs \<Longrightarrow> fs = gs"
  unfolding represents_def by (metis starts_payload_inj)

section \<open>Appending\<close>

definition append_frame :: "wire_id \<Rightarrow> byte list \<Rightarrow> frames \<Rightarrow> frames" where
  "append_frame i dat fs =
    (if is_keyframe dat then [(i, tl dat)]
     else if length dat = 1 \<and> length fs > 1 \<and> snd (last fs) = [] then butlast fs @ [(i, [])]
     else fs @ [(i, tl dat)])"

lemma append_blob_represents:
  assumes "represents t fs" "dat \<noteq> []"
  obtains t' where "append_blob i dat t = Ok (int (ti_size t') - int (ti_size t), t')"
    "represents t' (append_frame i dat fs)" "ti_valid t'"
proof (cases "\<not> is_keyframe dat \<and> length dat = 1 \<and> length fs > 1 \<and> snd (last fs) = []")
  case True
  define gs where "gs = butlast fs"
  obtain w where fs: "fs = gs @ [(w, [])]"
    using True by (cases fs rule: rev_cases) (auto simp: gs_def)
  let ?t = "t\<lparr>ti_wids := map fst gs @ [i], ti_valid := True\<rparr>"
  have "length dat \<ge> 1" using assms(2) by (cases dat) auto
  moreover have "last (ti_offsets t) = length (ti_deltas t)" "length (ti_offsets t) > 1" "butlast (ti_wids t) = map fst gs"
    using assms(1) True by (simp_all add: represents_def fs starts_last butlast_append)
  ultimately have "append_blob i dat t = Ok (int (ti_size ?t) - int (ti_size t), ?t)"
    using True by (simp add: append_blob_def Let_def)
  moreover have "represents ?t (append_frame i dat fs)"
    using assms(1) True by (simp add: append_frame_def represents_def fs starts_last butlast_append)
  ultimately show thesis using that [of ?t] by simp
next
  case False
  let ?fs = "if is_keyframe dat then [] else fs"
  let ?t = "\<lparr>ti_wids = map fst ?fs @ [i], ti_offsets = starts 0 ?fs @ [length (payload ?fs)],
    ti_deltas = payload ?fs @ tl dat, ti_valid = True\<rparr>"
  have len: "length dat \<ge> 1" using assms(2) by (cases dat) auto
  have bump: "\<not> (length (starts 0 fs) > 1 \<and> last (starts 0 fs) = length (payload fs) \<and> length dat = 1)" if "\<not> is_keyframe dat"
  proof (cases fs rule: rev_cases)
    case (snoc gs f)
    then show ?thesis using False that by (cases f) (auto simp: starts_last)
  qed simp
  have "append_blob i dat t = Ok (int (ti_size ?t) - int (ti_size t), ?t)"
  proof (cases "is_keyframe dat")
    case True
    then show ?thesis using len by (simp add: append_blob_def Let_def ti_size_def)
  next
    case F: False
    then show ?thesis using len assms(1) bump by (cases t) (auto simp: append_blob_def Let_def represents_def ti_size_def)
  qed
  moreover have "represents ?t (append_frame i dat fs)"
    using False by (auto simp: append_frame_def represents_def starts_last)
  ultimately show thesis using that [of ?t] by simp
qed

section \<open>Changes since a wire id\<close>

definition missing :: "wire_id \<Rightarrow> frames \<Rightarrow> frames" where
  "missing since fs = (if since = 0 then fs else dropWhile (\<lambda>(w, b). w \<le> since) fs)"

lemma append_changes_since_represents:
  assumes "represents t fs"
  shows "append_changes_since outp since t = (missing since fs \<noteq> [], outp @ payload (missing since fs))"
proof -
  define i where "i = (if since \<noteq> 0 then length (takeWhile (\<lambda>w. w \<le> since) (ti_wids t)) else 0)"
  have tw: "takeWhile (\<lambda>w. w \<le> since) (map fst fs) = map fst (takeWhile (\<lambda>(w, b). w \<le> since) fs)"
    by (induction fs) auto
  have m: "missing since fs = drop i fs"
    using assms by (auto simp: missing_def i_def represents_def tw dropWhile_eq_drop)
  have d: "drop (length (payload (take i fs))) (payload fs) = payload (drop i fs)"
  proof -
    have "payload fs = payload (take i fs) @ payload (drop i fs)" by (metis append_take_drop_id concat_append map_append)
    then show ?thesis by simp
  qed
  show ?thesis
  proof (cases "i < length fs")
    case True
    then show ?thesis
      using assms m d i_def by (auto simp: append_changes_since_def Let_def represents_def starts_nth)
  next
    case False
    then show ?thesis using assms m i_def by (auto simp: append_changes_since_def Let_def represents_def)
  qed
qed

section \<open>A tile built from the blobs of the kit\<close>

definition append_blobs :: "(wire_id \<times> byte list) list \<Rightarrow> tile_data \<Rightarrow> tile_data res" where
  "append_blobs = res_fold (\<lambda>(i, dat) t. res_bind (append_blob i dat t) (\<lambda>(n, t'). Ok t'))"

definition deltas_after :: "wire_id \<Rightarrow> (wire_id \<times> byte list) list \<Rightarrow> bool" where
  "deltas_after w blobs \<longleftrightarrow>
    sorted_wrt (<) (w # map fst blobs) \<and> (\<forall>(i, dat) \<in> set blobs. dat \<noteq> [] \<and> \<not> is_keyframe dat)"

lemma append_blobs_represents:
  assumes "represents t fs" "\<forall>(i, dat) \<in> set blobs. dat \<noteq> []"
  shows "\<exists>t'. append_blobs blobs t = Ok t' \<and> represents t' (fold (\<lambda>(i, dat). append_frame i dat) blobs fs)"
  using assms
proof (induction blobs arbitrary: t fs)
  case (Cons b blobs)
  obtain i dat where b: "b = (i, dat)" by (cases b)
  with Cons.prems have "dat \<noteq> []" by simp
  with Cons.prems(1) obtain t' where t': "append_blob i dat t = Ok (int (ti_size t') - int (ti_size t), t')"
    "represents t' (append_frame i dat fs)" by (rule append_blob_represents)
  have "\<forall>(i, dat) \<in> set blobs. dat \<noteq> []" using Cons.prems(2) by simp
  from Cons.IH [OF t'(2) this] t'(1) show ?case by (simp add: b append_blobs_def)
qed (simp add: append_blobs_def)

text \<open>What the frames hold of the blobs: those after any wire id, in order\<close>

abbreviation later :: "wire_id \<Rightarrow> (wire_id \<times> 'a) list \<Rightarrow> (wire_id \<times> 'a) list" where
  "later since \<equiv> filter (\<lambda>(w, b). since < w)"

definition covers :: "frames \<Rightarrow> (wire_id \<times> byte list) list \<Rightarrow> bool" where
  "covers fs blobs \<longleftrightarrow>
    fs \<noteq> [] \<and> blobs \<noteq> [] \<and> fst (last fs) = fst (last blobs) \<and> sorted_wrt (<) (map fst fs) \<and>
    (\<forall>w \<in> set (map fst fs). w \<le> fst (last fs)) \<and>
    (\<forall>since. payload (later since fs) = concat (map (tl \<circ> snd) (later since blobs)))"

lemma covers_append:
  assumes "covers fs blobs" "fst (last blobs) < i" "dat \<noteq> []" "\<not> is_keyframe dat"
  shows "covers (append_frame i dat fs) (blobs @ [(i, dat)])"
proof (cases "length dat = 1 \<and> length fs > 1 \<and> snd (last fs) = []")
  case True
  obtain gs w where fs: "fs = gs @ [(w, [])]" using assms(1) True by (cases fs rule: rev_cases) (auto simp: covers_def)
  have "tl dat = []" using True by (cases dat) auto
  moreover have "\<forall>v \<in> set (map fst gs). v < i" using assms(1,2) by (auto simp: covers_def fs sorted_wrt_append)
  moreover have "payload (later since gs) = concat (map (tl \<circ> snd) (later since blobs))" for since
    using assms(1) by (auto simp: covers_def fs split: if_splits dest: spec [of _ since])
  ultimately show ?thesis
    using assms True by (auto simp: covers_def fs append_frame_def sorted_wrt_append)
next
  case False
  then have a: "append_frame i dat fs = fs @ [(i, tl dat)]" using assms(4) by (auto simp: append_frame_def)
  have "\<forall>w \<in> set (map fst fs). w < i" using assms(1,2) by (auto simp: covers_def intro: le_less_trans)
  then show ?thesis using assms(1) by (auto simp: covers_def a sorted_wrt_append)
qed

lemma covers_blobs:
  assumes "deltas_after w blobs"
  shows "covers (fold (\<lambda>(i, dat). append_frame i dat) blobs [(w, b)]) ((w, k # b) # blobs)"
  using assms
proof (induction blobs rule: rev_induct)
  case (snoc x blobs)
  obtain i dat where x: "x = (i, dat)" by (cases x)
  have ih: "covers (fold (\<lambda>(i, dat). append_frame i dat) blobs [(w, b)]) ((w, k # b) # blobs)"
    using snoc by (auto simp: deltas_after_def sorted_wrt_append)
  have "fst (last ((w, k # b) # blobs)) < i"
    using snoc.prems by (cases blobs rule: rev_cases) (auto simp: deltas_after_def x sorted_wrt_append)
  then show ?case using covers_append [OF ih] snoc.prems by (simp add: x deltas_after_def)
qed (simp add: covers_def)

lemma covers_later:
  assumes "covers fs blobs"
  shows "later since fs \<noteq> [] \<longleftrightarrow> since < fst (last fs)"
proof
  assume "later since fs \<noteq> []"
  then obtain x where "x \<in> set fs" "since < fst x" by (auto simp: filter_empty_conv)
  moreover have "\<forall>w \<in> set (map fst fs). w \<le> fst (last fs)" using assms unfolding covers_def by blast
  ultimately show "since < fst (last fs)" by (fastforce intro: less_le_trans)
next
  assume "since < fst (last fs)"
  moreover have "last fs \<in> set fs" using assms by (simp add: covers_def)
  ultimately show "later since fs \<noteq> []" by (auto simp: filter_empty_conv split_beta)
qed

lemma missing_later:
  assumes "sorted_wrt (<) (map fst fs)" "\<forall>w \<in> set (map fst fs). 0 < w"
  shows "missing since fs = later since fs"
proof (cases "since = 0")
  case True
  then show ?thesis using assms(2) by (auto simp: missing_def intro!: filter_True [symmetric])
next
  case False
  have "dropWhile (\<lambda>(w, b). w \<le> since) fs = later since fs"
    using assms(1)
  proof (induction fs)
    case (Cons f fs)
    obtain w b where f: "f = (w, b)" by (cases f)
    show ?case
    proof (cases "w \<le> since")
      case True
      then show ?thesis using Cons f by simp
    next
      case False
      then have "since < w" by simp
      moreover have "\<forall>x \<in> set fs. w < fst x" using Cons.prems f by simp
      ultimately have "filter (\<lambda>x. since < fst x) fs = fs" by (metis filter_True less_trans)
      then show ?thesis using False f by (simp add: split_beta)
    qed
  qed simp
  then show ?thesis using False by (simp add: missing_def)
qed

lemma append_frame_head:
  "\<not> is_keyframe dat \<Longrightarrow> \<exists>f' gs'. append_frame i dat ((w, f) # gs) = (w, f') # gs'"
  by (cases gs) (simp_all add: append_frame_def)

lemma mk_tile_data_represents:
  "is_keyframe (k # b) \<Longrightarrow> \<exists>t. mk_tile_data w (k # b) = Ok t \<and> represents t [(w, b)] \<and> ti_valid t"
  by (simp add: mk_tile_data_def append_blob_def Let_def represents_def)

lemma changes_since_blobs:
  assumes "deltas_after w blobs" "0 < w" "is_keyframe (k # b)"
  shows "\<exists>t. res_bind (mk_tile_data w (k # b)) (append_blobs blobs) = Ok t \<and>
    needs_keyframe since t = Ok (since < w) \<and>
    append_changes_since outp since t =
      (since < fst (last ((w, k # b) # blobs)), outp @ concat (map (tl \<circ> snd) (later since ((w, k # b) # blobs))))"
proof -
  obtain t0 where t0: "mk_tile_data w (k # b) = Ok t0" "represents t0 [(w, b)]"
    using mk_tile_data_represents [OF assms(3)] by blast
  have "\<forall>(i, dat) \<in> set blobs. dat \<noteq> []" using assms(1) by (auto simp: deltas_after_def)
  from append_blobs_represents [OF t0(2) this] obtain t where
    t: "append_blobs blobs t0 = Ok t" "represents t (fold (\<lambda>(i, dat). append_frame i dat) blobs [(w, b)])" by blast
  let ?fs = "fold (\<lambda>(i, dat). append_frame i dat) blobs [(w, b)]"
  have c: "covers ?fs ((w, k # b) # blobs)" by (rule covers_blobs [OF assms(1)])
  have hd: "\<exists>f gs. ?fs = (w, f) # gs"
    using assms(1)
  proof (induction blobs rule: rev_induct)
    case (snoc x blobs)
    obtain i dat where x: "x = (i, dat)" by (cases x)
    obtain f gs where "fold (\<lambda>(i, dat). append_frame i dat) blobs [(w, b)] = (w, f) # gs"
      using snoc by (auto simp: deltas_after_def sorted_wrt_append)
    moreover have "\<not> is_keyframe dat" using snoc.prems by (simp add: deltas_after_def x)
    ultimately show ?case using append_frame_head [of dat i w f gs] by (simp add: x)
  qed simp
  then obtain f gs where fg: "?fs = (w, f) # gs" by blast
  have pos: "\<forall>v \<in> set (map fst ?fs). 0 < v"
    using c assms(2) unfolding fg covers_def by (auto intro: less_trans)
  have m: "missing since ?fs = later since ?fs" using c pos by (intro missing_later) (simp_all add: covers_def)
  have "later since ?fs \<noteq> [] \<longleftrightarrow> since < fst (last ?fs)" by (rule covers_later [OF c])
  then show ?thesis
    using t0 t c append_changes_since_represents [OF t(2), of outp since] m fg
    by (auto simp: covers_def needs_keyframe_def represents_def)
qed

end
