(* ===== verification/CacheInvariant.thy ===== *)
theory CacheInvariant
  imports TileFrames
begin

text \<open>
  The invariant of the tile cache: one entry for each tile, the recorded size equal to the sum
  of the sizes, every tile a nonempty list of frames, and every tile being rendered found under
  its own descriptor with someone waiting. Every operation keeps it, so that the assertions on
  the size never fail.
\<close>

section \<open>The stores\<close>

text \<open>The fields compared, as one key\<close>

definition cache_key :: "tile_desc \<Rightarrow> int \<times> int \<times> int \<times> int \<times> int \<times> int \<times> int \<times> int \<times> int" where
  "cache_key d = (td_part d, td_width d, td_height d, td_tilePosX d, td_tilePosY d, td_tileWidth d, td_tileHeight d,
    td_canonicalViewId d, td_mode d)"

lemma cache_eq_key: "cache_eq d e \<longleftrightarrow> cache_key d = cache_key e"
  by (auto simp: cache_eq_def cache_key_def)

lemma cache_eq_equiv: "equivp cache_eq"
  by (rule equivpI) (auto simp: cache_eq_key intro: reflpI sympI transpI)

lemma find_desc_cong: "cache_eq d e \<Longrightarrow> find_desc d es = find_desc e es"
  by (induction es) (auto simp: cache_eq_key)

lemma find_desc_append: "find_desc d (es @ fs) = (case find_desc d es of None \<Rightarrow> find_desc d fs | Some v \<Rightarrow> Some v)"
  by (induction es) auto

lemma find_desc_set:
  "find_desc d (map (\<lambda>(e, v). if cache_eq e k then (e, w) else (e, v)) es) =
    (if cache_eq k d \<and> find_desc d es \<noteq> None then Some w else find_desc d es)"
proof (induction es)
  case (Cons p es)
  obtain e v where p: "p = (e, v)" by (cases p)
  show ?case
    by (cases "cache_key e = cache_key k"; cases "cache_key e = cache_key d")
      (use Cons in \<open>auto simp: p cache_eq_key\<close>)
qed simp

lemma find_desc_one: "find_desc d [p] = (if cache_eq (fst p) d then Some (snd p) else None)"
  by (cases p) simp

lemma find_desc_put: "find_desc k (put_desc p es) = (if cache_eq (fst p) k then Some (snd p) else find_desc k es)"
  using find_desc_cong [of "fst p" k es]
  by (auto simp: put_desc_def find_desc_append find_desc_set find_desc_one split: option.splits)

lemma find_desc_erase: "find_desc k (erase_desc d es) = (if cache_eq d k then None else find_desc k es)"
  by (induction es) (auto simp: erase_desc_def cache_eq_key)

interpretation descs: erasing_store cache_eq fst snd find_desc put_desc erase_desc
  by unfold_locales (simp_all add: cache_eq_equiv find_desc_put find_desc_erase)

lemma find_desc_Some: "find_desc d es = Some v \<Longrightarrow> \<exists>e. (e, v) \<in> set es \<and> cache_eq e d"
  by (induction es) (auto split: if_splits)

lemma find_desc_None: "find_desc d es = None \<longleftrightarrow> (\<forall>p \<in> set es. \<not> cache_eq (fst p) d)"
  by (induction d es rule: find_desc.induct) simp_all

section \<open>One entry for each tile\<close>

definition keys_apart :: "(tile_desc \<times> 'v) list \<Rightarrow> bool" where
  "keys_apart es \<longleftrightarrow> sorted_wrt (\<lambda>a b. \<not> cache_eq (fst a) (fst b)) es"

lemma keys_apart_filter: "keys_apart es \<Longrightarrow> keys_apart (filter P es)"
  by (simp add: keys_apart_def sorted_wrt_filter_imp)

lemma keys_apart_map:
  "(\<And>p. fst (f p) = fst p) \<Longrightarrow> keys_apart (map f es) = keys_apart es"
  by (simp add: keys_apart_def sorted_wrt_map)

lemma keys_apart_put: "keys_apart es \<Longrightarrow> keys_apart (put_desc p es)"
proof (cases "find_desc (fst p) es = None")
  case True
  then show "keys_apart es \<Longrightarrow> keys_apart (put_desc p es)"
    by (auto simp: put_desc_def keys_apart_def sorted_wrt_append find_desc_None)
next
  case False
  have "keys_apart (map (\<lambda>(e, v). if cache_eq e (fst p) then (e, snd p) else (e, v)) es) = keys_apart es"
    by (rule keys_apart_map) (simp split: prod.split)
  then show "keys_apart es \<Longrightarrow> keys_apart (put_desc p es)" by (simp only: put_desc_def if_not_P [OF False])
qed

text \<open>A sum over the values, and what setting one changes\<close>

abbreviation total_of :: "('v \<Rightarrow> nat) \<Rightarrow> (tile_desc \<times> 'v) list \<Rightarrow> nat" where
  "total_of f es \<equiv> sum_list (map (f \<circ> snd) es)"

lemma total_put_new: "find_desc (fst p) es = None \<Longrightarrow> total_of f (put_desc p es) = total_of f es + f (snd p)"
  by (simp add: put_desc_def)

lemma map_set_absent:
  "find_desc d es = None \<Longrightarrow> map (\<lambda>(e, v). if cache_eq e d then (e, w) else (e, v)) es = es"
  by (induction es) (auto split: if_splits)

lemma total_put_old:
  assumes "keys_apart es" "find_desc (fst p) es = Some v"
  shows "total_of f (put_desc p es) + f v = total_of f es + f (snd p)"
proof -
  have "total_of f (map (\<lambda>(e, v). if cache_eq e (fst p) then (e, snd p) else (e, v)) es) + f v = total_of f es + f (snd p)"
    using assms
  proof (induction es)
    case (Cons x es)
    obtain e u where x: "x = (e, u)" by (cases x)
    show ?case
    proof (cases "cache_eq e (fst p)")
      case True
      have "find_desc (fst p) es = None"
        using Cons.prems(1) True by (auto simp: keys_apart_def x find_desc_None cache_eq_key)
      then show ?thesis using Cons.prems(2) True by (simp add: x map_set_absent)
    next
      case False
      then show ?thesis using Cons by (simp add: x keys_apart_def)
    qed
  qed simp
  then show ?thesis using assms(2) by (simp add: put_desc_def)
qed

lemma put_desc_values: "(e, v) \<in> set (put_desc p es) \<Longrightarrow> (e, v) \<in> set es \<or> v = snd p \<and> cache_eq e (fst p)"
  by (auto simp: put_desc_def cache_eq_key split: if_splits)

section \<open>The invariant\<close>

definition tile_ok :: "tile_data \<Rightarrow> bool" where
  "tile_ok t \<longleftrightarrow> (\<exists>fs. fs \<noteq> [] \<and> represents t fs)"

definition tiles_ok :: "(tile_desc \<times> tile_data) list \<Rightarrow> bool" where
  "tiles_ok es \<longleftrightarrow> keys_apart es \<and> (\<forall>(d, t) \<in> set es. tile_ok t)"

definition rendering_ok :: "(tile_desc \<times> tile_being_rendered) list \<Rightarrow> bool" where
  "rendering_ok rs \<longleftrightarrow> keys_apart rs \<and>
    (\<forall>(d, r) \<in> set rs. cache_eq d (tbr_tile r) \<and> tbr_subscribers r \<noteq> [] \<and> distinct (tbr_subscribers r))"

definition cache_total :: "(tile_desc \<times> tile_data) list \<Rightarrow> nat" where
  "cache_total es = total_of item_cache_size es"

definition ca_wf :: "tile_cache \<Rightarrow> bool" where
  "ca_wf c \<longleftrightarrow> tiles_ok (ca_cache c) \<and> rendering_ok (ca_rendering c) \<and> ca_cacheSize c = word_of_nat (cache_total (ca_cache c))"

lemma ca_wf_init: "ca_wf (mk_tile_cache b)"
  by (simp add: ca_wf_def mk_tile_cache_def tiles_ok_def rendering_ok_def keys_apart_def cache_total_def)

lemma assert_cache_size_ok: "ca_cacheSize c = word_of_nat (cache_total (ca_cache c)) \<Longrightarrow> assert_cache_size c = Ok c"
proof -
  have "foldl (\<lambda>n (d, t). n + word_of_nat (item_cache_size t)) a es = a + (word_of_nat (cache_total es) :: 64 word)" for a es
    by (induction es arbitrary: a) (auto simp: cache_total_def ac_simps)
  then show "ca_cacheSize c = word_of_nat (cache_total (ca_cache c)) \<Longrightarrow> assert_cache_size c = Ok c"
    by (simp add: assert_cache_size_def)
qed

subsection \<open>Eviction\<close>

definition evicted :: "wire_id \<Rightarrow> (tile_desc \<times> tile_being_rendered) list \<Rightarrow> tile_desc \<times> tile_data \<Rightarrow> bool" where
  "evicted m rs p \<longleftrightarrow> td_wireId (fst p) \<le> m \<and> find_desc (fst p) rs = None"

lemma clean_loop_filter:
  "clean_loop m rs es sz = (filter (\<lambda>p. \<not> evicted m rs p) es, sz - word_of_nat (cache_total (filter (evicted m rs) es)))"
  by (induction es arbitrary: sz) (auto simp: evicted_def cache_total_def)

lemma cache_total_filter: "cache_total (filter P es) + cache_total (filter (\<lambda>p. \<not> P p) es) = cache_total es"
  by (induction es) (auto simp: cache_total_def)

lemma find_desc_kept:
  assumes "find_desc d es = Some t" "find_desc d rs \<noteq> None"
  shows "find_desc d (filter (\<lambda>p. \<not> evicted m rs p) es) = Some t"
  using assms(1)
proof (induction es)
  case (Cons x es)
  obtain e u where x: "x = (e, u)" by (cases x)
  show ?case
  proof (cases "cache_eq e d")
    case True
    then have "\<not> evicted m rs x" using assms(2) find_desc_cong [of e d rs] by (simp add: x evicted_def)
    then show ?thesis using Cons.prems True by (simp add: x)
  next
    case False
    then show ?thesis using Cons by (simp add: x)
  qed
qed simp

definition clean_limit :: "tile_cache \<Rightarrow> wire_id" where
  "clean_limit c =
    (let wids = sort_key fst (map (\<lambda>(d, t). (td_wireId d, item_cache_size t)) (ca_cache c))
     in if fst (last wids) - fst (hd wids) > 256 * 256 * 256 then fst (last wids)
        else max_to_remove (ca_maxCacheSize c div 4) 0 (fst (hd wids)) wids)"

lemma ensure_cache_size_cases:
  assumes "ca_wf c"
  obtains "ca_cacheSize c < ca_maxCacheSize c \<or> length (ca_cache c) < 2" "ensure_cache_size c = Ok c"
  | es where "\<not> (ca_cacheSize c < ca_maxCacheSize c \<or> length (ca_cache c) < 2)"
    "es = filter (\<lambda>p. \<not> evicted (clean_limit c) (ca_rendering c) p) (ca_cache c)"
    "ensure_cache_size c = Ok (c\<lparr>ca_cache := es, ca_cacheSize := word_of_nat (cache_total es)\<rparr>)"
proof (cases "ca_cacheSize c < ca_maxCacheSize c \<or> length (ca_cache c) < 2")
  case True
  have "assert_cache_size c = Ok c" using assms by (simp add: ca_wf_def assert_cache_size_ok)
  then show thesis using that(1) True by (simp add: ensure_cache_size_def)
next
  case False
  let ?es = "filter (\<lambda>p. \<not> evicted (clean_limit c) (ca_rendering c) p) (ca_cache c)"
  let ?c = "c\<lparr>ca_cache := ?es, ca_cacheSize := word_of_nat (cache_total ?es)\<rparr>"
  have "(word_of_nat (cache_total (ca_cache c)) :: 64 word) =
      word_of_nat (cache_total (filter (evicted (clean_limit c) (ca_rendering c)) (ca_cache c))) + word_of_nat (cache_total ?es)"
    using cache_total_filter [of "evicted (clean_limit c) (ca_rendering c)" "ca_cache c"] by (metis of_nat_add)
  then have "clean_loop (clean_limit c) (ca_rendering c) (ca_cache c) (ca_cacheSize c) = (?es, word_of_nat (cache_total ?es))"
    using assms by (simp add: clean_loop_filter ca_wf_def)
  moreover have "assert_cache_size ?c = Ok ?c" by (rule assert_cache_size_ok) simp
  moreover have "assert_cache_size c = Ok c" using assms by (simp add: ca_wf_def assert_cache_size_ok)
  ultimately have "ensure_cache_size c = Ok ?c" using False by (simp add: ensure_cache_size_def clean_limit_def Let_def)
  then show thesis using that(2) False by blast
qed

lemma ensure_cache_size_ok:
  assumes "ca_wf c"
  obtains c' where "ensure_cache_size c = Ok c'" "ca_wf c'" "ca_rendering c' = ca_rendering c"
    "ca_dontCache c' = ca_dontCache c" "ca_streams c' = ca_streams c"
    "\<forall>d t. find_desc d (ca_cache c) = Some t \<and> find_desc d (ca_rendering c) \<noteq> None \<longrightarrow> find_desc d (ca_cache c') = Some t"
    "\<forall>d t. find_desc d (ca_cache c') = Some t \<longrightarrow> find_desc d (ca_cache c) = Some t"
  using assms
proof (rule ensure_cache_size_cases)
  assume "ensure_cache_size c = Ok c"
  then show thesis using that assms by blast
next
  fix es
  assume es: "es = filter (\<lambda>p. \<not> evicted (clean_limit c) (ca_rendering c) p) (ca_cache c)"
    and e: "ensure_cache_size c = Ok (c\<lparr>ca_cache := es, ca_cacheSize := word_of_nat (cache_total es)\<rparr>)"
  have apart: "keys_apart (ca_cache c)" using assms by (simp add: ca_wf_def tiles_ok_def)
  have "tiles_ok es" using assms by (auto simp: es ca_wf_def tiles_ok_def keys_apart_filter)
  then have wf: "ca_wf (c\<lparr>ca_cache := es, ca_cacheSize := word_of_nat (cache_total es)\<rparr>)" using assms by (simp add: ca_wf_def)
  have sub: "find_desc d (ca_cache c) = Some t" if "find_desc d es = Some t" for d t
  proof -
    have "find_desc d (filter P xs) = Some t \<Longrightarrow> keys_apart xs \<Longrightarrow> find_desc d xs = Some t" for P and xs :: "(tile_desc \<times> tile_data) list"
    proof (induction xs)
      case (Cons x xs)
      obtain f u where x: "x = (f, u)" by (cases x)
      show ?case
      proof (cases "cache_eq f d")
        case True
        have "find_desc d xs = None"
          using Cons.prems(2) True by (auto simp: keys_apart_def x find_desc_None cache_eq_key)
        then have "find_desc d (filter P xs) = None" by (auto simp: find_desc_None)
        then show ?thesis using Cons.prems(1) True by (auto simp: x split: if_splits)
      next
        case False
        then show ?thesis using Cons by (auto simp: x keys_apart_def split: if_splits)
      qed
    qed simp
    then show ?thesis using that apart unfolding es by blast
  qed
  have kept: "find_desc d es = Some t" if "find_desc d (ca_cache c) = Some t" "find_desc d (ca_rendering c) \<noteq> None" for d t
    unfolding es by (rule find_desc_kept [OF that])
  show thesis
  proof (rule that [OF e wf])
    show "\<forall>d t. find_desc d (ca_cache c) = Some t \<and> find_desc d (ca_rendering c) \<noteq> None \<longrightarrow>
      find_desc d (ca_cache (c\<lparr>ca_cache := es, ca_cacheSize := word_of_nat (cache_total es)\<rparr>)) = Some t"
      using kept by simp
    show "\<forall>d t. find_desc d (ca_cache (c\<lparr>ca_cache := es, ca_cacheSize := word_of_nat (cache_total es)\<rparr>)) = Some t \<longrightarrow>
      find_desc d (ca_cache c) = Some t"
      using sub by simp
  qed simp_all
qed

subsection \<open>Saving\<close>

lemma find_desc_tile_ok: "tiles_ok es \<Longrightarrow> find_desc d es = Some t \<Longrightarrow> tile_ok t"
  by (auto simp: tiles_ok_def dest!: find_desc_Some)

lemma tiles_ok_put: "tiles_ok es \<Longrightarrow> tile_ok t \<Longrightarrow> tiles_ok (put_desc (d, t) es)"
  by (auto simp: tiles_ok_def keys_apart_put dest!: put_desc_values)

lemma append_frame_nonempty [simp]: "append_frame i dat fs \<noteq> []"
  by (simp add: append_frame_def)

lemma mk_tile_data_ok:
  assumes "dat \<noteq> []"
  obtains t where "mk_tile_data w dat = Ok t" "represents t (append_frame w dat [])"
proof -
  have "represents \<lparr>ti_wids = [], ti_offsets = [], ti_deltas = [], ti_valid = False\<rparr> []" by (simp add: represents_def)
  then obtain t where "append_blob w dat \<lparr>ti_wids = [], ti_offsets = [], ti_deltas = [], ti_valid = False\<rparr> =
      Ok (int (ti_size t) - int (ti_size \<lparr>ti_wids = [], ti_offsets = [], ti_deltas = [], ti_valid = False\<rparr>), t)"
    "represents t (append_frame w dat [])" using assms by (rule append_blob_represents)
  then show thesis by (intro that) (simp_all add: mk_tile_data_def)
qed

text \<open>The new size after an insertion and after a change\<close>

lemma cache_size_insert:
  "find_desc d es = None \<Longrightarrow>
    (word_of_nat (cache_total (put_desc (d, t) es)) :: 64 word) = word_of_nat (cache_total es) + word_of_nat (item_cache_size t)"
  by (simp add: cache_total_def total_put_new del: o_apply)

lemma cache_size_change:
  assumes "keys_apart es" "find_desc d es = Some t"
  shows "(word_of_nat (cache_total (put_desc (d, t') es)) :: 64 word) =
    word_of_nat (cache_total es) + word_of_int (int (ti_size t') - int (ti_size t))"
proof -
  have "cache_total (put_desc (d, t') es) + item_cache_size t = cache_total es + item_cache_size t'"
    using total_put_old [OF assms(1), of "(d, t')" t item_cache_size] assms(2) by (simp add: cache_total_def)
  then have "int (cache_total (put_desc (d, t') es)) = int (cache_total es) + (int (ti_size t') - int (ti_size t))"
    by (simp add: item_cache_size_def)
  then have "(word_of_int (int (cache_total (put_desc (d, t') es))) :: 64 word) =
      word_of_int (int (cache_total es)) + word_of_int (int (ti_size t') - int (ti_size t))" by simp
  then show ?thesis by simp
qed

lemma save_data_to_cache_ok:
  assumes "ca_wf c" "dat \<noteq> []" "\<not> ca_dontCache c"
  obtains tile c' where "save_data_to_cache desc dat c = Ok (tile, c')" "ca_wf c'"
    "ca_rendering c' = ca_rendering c" "ca_dontCache c' = ca_dontCache c" "ca_streams c' = ca_streams c"
    "find_desc desc (ca_cache c') = tile"
    "is_keyframe dat \<longrightarrow> (\<exists>t. tile = Some t \<and> represents t [(td_wireId desc, tl dat)])"
    "\<forall>t fs. find_desc desc (ca_cache c) = Some t \<and> represents t fs \<and> find_desc desc (ca_rendering c) \<noteq> None \<longrightarrow>
      (\<exists>t'. tile = Some t' \<and> represents t' (append_frame (td_wireId desc) dat fs))"
    "\<forall>k t. \<not> cache_eq desc k \<and> find_desc k (ca_cache c') = Some t \<longrightarrow> find_desc k (ca_cache c) = Some t"
    "\<forall>t. tile = Some t \<longrightarrow> (\<exists>fs. represents t (append_frame (td_wireId desc) dat fs) \<and>
      (is_keyframe dat \<or> (\<exists>t0. find_desc desc (ca_cache c) = Some t0 \<and> represents t0 fs)))"
proof -
  from assms(1) obtain d where d: "ensure_cache_size c = Ok d" "ca_wf d" "ca_rendering d = ca_rendering c"
    "ca_dontCache d = ca_dontCache c" "ca_streams d = ca_streams c"
    and k: "\<forall>k t. find_desc k (ca_cache c) = Some t \<and> find_desc k (ca_rendering c) \<noteq> None \<longrightarrow> find_desc k (ca_cache d) = Some t"
    and sb: "\<forall>k t. find_desc k (ca_cache d) = Some t \<longrightarrow> find_desc k (ca_cache c) = Some t"
    by (rule ensure_cache_size_ok)
  have kept: "\<And>k t. find_desc k (ca_cache c) = Some t \<Longrightarrow> find_desc k (ca_rendering c) \<noteq> None \<Longrightarrow> find_desc k (ca_cache d) = Some t"
    and sub: "\<And>k t. find_desc k (ca_cache d) = Some t \<Longrightarrow> find_desc k (ca_cache c) = Some t" using k sb by blast+
  have ok: "tiles_ok (ca_cache d)" using d(2) by (simp add: ca_wf_def)
  show thesis
  proof (cases "find_desc desc (ca_cache d)")
    case None
    have lost: "\<not> (find_desc desc (ca_cache c) = Some t \<and> find_desc desc (ca_rendering c) \<noteq> None)" for t
      using kept [of desc t] None by (metis option.distinct(1))
    show thesis
    proof (cases "is_keyframe dat")
      case True
      obtain t where t: "mk_tile_data (td_wireId desc) dat = Ok t" "represents t (append_frame (td_wireId desc) dat [])"
        using assms(2) by (rule mk_tile_data_ok)
      let ?c = "d\<lparr>ca_cache := put_desc (desc, t) (ca_cache d), ca_cacheSize := ca_cacheSize d + word_of_nat (item_cache_size t)\<rparr>"
      have "save_data_to_cache desc dat c = Ok (Some t, ?c)"
        using assms(3) d(1) None True t(1) by (simp add: save_data_to_cache_def)
      moreover have "tile_ok t" using t(2) append_frame_nonempty unfolding tile_ok_def by blast
      then have "ca_wf ?c"
        using d(2) tiles_ok_put [OF ok, of t desc] cache_size_insert [OF None, of t] by (simp add: ca_wf_def)
      ultimately show thesis
        using that [of "Some t" ?c] d(3-5) t(2) True lost sub by (auto simp: find_desc_put cache_eq_key append_frame_def)
    next
      case False
      then have "save_data_to_cache desc dat c = Ok (None, d)" using assms(3) d(1) None by (simp add: save_data_to_cache_def)
      then show thesis using that [of None d] d False None lost sub by auto
    qed
  next
    case (Some t)
    obtain fs where fs: "represents t fs" "fs \<noteq> []" using find_desc_tile_ok [OF ok Some] by (auto simp: tile_ok_def)
    from fs(1) assms(2) obtain t' where t': "append_blob (td_wireId desc) dat t = Ok (int (ti_size t') - int (ti_size t), t')"
      "represents t' (append_frame (td_wireId desc) dat fs)" by (rule append_blob_represents)
    let ?c = "d\<lparr>ca_cache := put_desc (desc, t') (ca_cache d),
      ca_cacheSize := ca_cacheSize d + word_of_int (int (ti_size t') - int (ti_size t))\<rparr>"
    have "save_data_to_cache desc dat c = Ok (Some t', ?c)"
      using assms(3) d(1) Some t'(1) by (simp add: save_data_to_cache_def)
    moreover have "tile_ok t'" using t'(2) append_frame_nonempty unfolding tile_ok_def by blast
    then have "ca_wf ?c"
      using d(2) tiles_ok_put [OF ok, of t' desc] cache_size_change [OF _ Some, of t'] ok by (simp add: ca_wf_def tiles_ok_def)
    ultimately show thesis
    proof (rule that)
      show "find_desc desc (ca_cache ?c) = Some t'" by (simp add: find_desc_put cache_eq_key)
      show "is_keyframe dat \<longrightarrow> (\<exists>u. Some t' = Some u \<and> represents u [(td_wireId desc, tl dat)])"
        using t'(2) by (auto simp: append_frame_def)
      have app: "\<exists>u'. Some t' = Some u' \<and> represents u' (append_frame (td_wireId desc) dat gs)"
        if "find_desc desc (ca_cache c) = Some u" "represents u gs" "find_desc desc (ca_rendering c) \<noteq> None" for u gs
      proof -
        have "u = t" using kept [OF that(1,3)] Some by simp
        then have "gs = fs" using represents_unique [OF _ fs(1)] that(2) by simp
        then show ?thesis using t'(2) by simp
      qed
      show "\<forall>k u. \<not> cache_eq desc k \<and> find_desc k (ca_cache ?c) = Some u \<longrightarrow> find_desc k (ca_cache c) = Some u"
        using sub by (simp add: find_desc_put)
      show "\<forall>u. Some t' = Some u \<longrightarrow> (\<exists>gs. represents u (append_frame (td_wireId desc) dat gs) \<and>
          (is_keyframe dat \<or> (\<exists>u0. find_desc desc (ca_cache c) = Some u0 \<and> represents u0 gs)))"
        using t'(2) sub [OF Some] fs(1) by blast
      from app show "\<forall>u gs. find_desc desc (ca_cache c) = Some u \<and> represents u gs \<and> find_desc desc (ca_rendering c) \<noteq> None \<longrightarrow>
        (\<exists>u'. Some t' = Some u' \<and> represents u' (append_frame (td_wireId desc) dat gs))" by blast
    qed (simp_all add: d)
  qed
qed

subsection \<open>Subscriptions\<close>

lemma rendering_ok_put:
  assumes "rendering_ok rs" "cache_eq d (tbr_tile r)" "tbr_subscribers r \<noteq> []" "distinct (tbr_subscribers r)"
  shows "rendering_ok (put_desc (d, r) rs)"
proof -
  have "cache_eq e (tbr_tile v) \<and> tbr_subscribers v \<noteq> [] \<and> distinct (tbr_subscribers v)"
    if "(e, v) \<in> set (put_desc (d, r) rs)" for e v
  proof -
    have "(e, v) \<in> set rs \<or> v = r \<and> cache_eq e d" using put_desc_values [OF that] by simp
    then show ?thesis using assms by (auto simp: rendering_ok_def cache_eq_key)
  qed
  then show ?thesis using assms(1) by (auto simp: rendering_ok_def keys_apart_put)
qed

lemma rendering_ok_find:
  assumes "rendering_ok rs" "find_desc d rs = Some r"
  shows "cache_eq d (tbr_tile r) \<and> tbr_subscribers r \<noteq> [] \<and> distinct (tbr_subscribers r)"
proof -
  obtain e where "(e, r) \<in> set rs" "cache_eq e d" using find_desc_Some [OF assms(2)] by blast
  then show ?thesis using assms(1) by (auto simp: rendering_ok_def cache_eq_key)
qed

lemma rendering_ok_erase: "rendering_ok rs \<Longrightarrow> rendering_ok (erase_desc d rs)"
  by (auto simp: rendering_ok_def erase_desc_def keys_apart_filter)

lemma subscribe_wf:
  assumes "ca_wf c"
  shows "ca_wf (snd (subscribe_to_tile_rendering tile s now c))"
proof (cases "find_desc tile (ca_rendering c)")
  case None
  have "rendering_ok (put_desc (tile, (mk_tile_being_rendered tile now)\<lparr>tbr_subscribers := [s]\<rparr>) (ca_rendering c))"
    using assms by (intro rendering_ok_put) (simp_all add: ca_wf_def mk_tile_being_rendered_def cache_eq_key)
  then show ?thesis
    using None assms by (simp add: subscribe_to_tile_rendering_def find_tile_being_rendered_def ca_wf_def)
next
  case (Some r)
  have r: "cache_eq tile (tbr_tile r)" "tbr_subscribers r \<noteq> []" "distinct (tbr_subscribers r)"
    using rendering_ok_find [OF _ Some] assms by (simp_all add: ca_wf_def)
  have "cache_eq tile (tbr_tile (tbr_set_version v r))" for v
    using r(1) by (simp add: cache_eq_def tbr_set_version_def)
  then have "rendering_ok (put_desc (tile, tbr_set_version (td_ver tile) r) (ca_rendering c))"
    using assms r(2,3) by (intro rendering_ok_put) (simp_all add: ca_wf_def tbr_set_version_def)
  moreover have "rendering_ok (put_desc (tile, r\<lparr>tbr_subscribers := tbr_subscribers r @ [s]\<rparr>) (ca_rendering c))"
    if "s \<notin> set (tbr_subscribers r)"
    using assms r that by (intro rendering_ok_put) (simp_all add: ca_wf_def)
  ultimately show ?thesis
    using Some assms
    by (auto simp: subscribe_to_tile_rendering_def find_tile_being_rendered_def ca_wf_def list_ex_iff)
qed

lemma subscribe_cache [simp]:
  "ca_cache (snd (subscribe_to_tile_rendering tile s now c)) = ca_cache c"
  "ca_dontCache (snd (subscribe_to_tile_rendering tile s now c)) = ca_dontCache c"
  by (simp_all add: subscribe_to_tile_rendering_def split: option.split)

lemma forget_ok:
  assumes "ca_wf c" "find_desc d (ca_rendering c) = Some r"
  shows "forget_tile_being_rendered desc r c =
    Ok (if tbr_version r \<le> td_ver desc then c\<lparr>ca_rendering := erase_desc (tbr_tile r) (ca_rendering c)\<rparr> else c)"
proof -
  have "cache_eq d (tbr_tile r)" using rendering_ok_find [OF _ assms(2)] assms(1) by (simp add: ca_wf_def)
  then have "has_tile_being_rendered (tbr_tile r) None c"
    using assms(2) find_desc_cong [of d "tbr_tile r" "ca_rendering c"]
    by (simp add: has_tile_being_rendered_def find_tile_being_rendered_def)
  then show ?thesis by (simp add: forget_tile_being_rendered_def)
qed

lemma wf_forgotten: "ca_wf c \<Longrightarrow> ca_wf (c\<lparr>ca_rendering := erase_desc d (ca_rendering c)\<rparr>)"
  by (simp add: ca_wf_def rendering_ok_erase)

text \<open>What is left of the subscriptions after a reply: those for the tile are gone unless a newer version was asked for\<close>

definition rendering_after :: "tile_desc \<Rightarrow> tile_cache \<Rightarrow> (tile_desc \<times> tile_being_rendered) list" where
  "rendering_after desc c =
    (case find_desc desc (ca_rendering c) of
       Some r \<Rightarrow> if tbr_version r \<le> td_ver desc then erase_desc desc (ca_rendering c) else ca_rendering c
     | None \<Rightarrow> ca_rendering c)"

lemma erase_desc_cong: "cache_eq d e \<Longrightarrow> erase_desc d es = erase_desc e es"
  by (simp add: erase_desc_def cache_eq_key)

definition waiting :: "(session_id \<Rightarrow> bool) \<Rightarrow> tile_desc \<Rightarrow> tile_cache \<Rightarrow> session_id list" where
  "waiting alive desc c =
    (case find_desc desc (ca_rendering c) of None \<Rightarrow> [] | Some r \<Rightarrow> filter alive (tbr_subscribers r))"

lemma save_tile_and_notify_of_save:
  assumes "ca_wf c" "save_data_to_cache desc dat c = Ok (tile, c1)" "ca_wf c1" "ca_rendering c1 = ca_rendering c"
  shows "save_tile_and_notify alive desc dat c =
    Ok (case tile of None \<Rightarrow> [] | Some t \<Rightarrow> map (\<lambda>s. (s, t)) (waiting alive desc c), c1\<lparr>ca_rendering := rendering_after desc c\<rparr>)"
proof (cases "find_desc desc (ca_rendering c)")
  case None
  then show ?thesis
    using assms(2,4)
    by (cases tile) (simp_all add: save_tile_and_notify_def find_tile_being_rendered_def waiting_def rendering_after_def)
next
  case (Some r)
  have "cache_eq desc (tbr_tile r)" using rendering_ok_find [OF _ Some] assms(1) by (simp add: ca_wf_def)
  then have "erase_desc desc (ca_rendering c) = erase_desc (tbr_tile r) (ca_rendering c)" by (rule erase_desc_cong)
  then show ?thesis
    using Some assms(2,4) forget_ok [OF assms(3), of desc r desc]
    by (simp add: save_tile_and_notify_def find_tile_being_rendered_def waiting_def rendering_after_def split: option.split)
qed

lemma rendering_after_wf: "ca_wf c \<Longrightarrow> ca_wf c1 \<Longrightarrow> ca_wf (c1\<lparr>ca_rendering := rendering_after desc c\<rparr>)"
  by (auto simp: ca_wf_def rendering_after_def rendering_ok_erase split: option.split)

lemma save_data_uncached:
  assumes "ca_dontCache c" "dat \<noteq> []"
  obtains t where "save_data_to_cache desc dat c = Ok (Some t, c)" "represents t (append_frame (td_wireId desc) dat [])"
proof -
  from assms(2) obtain t where "mk_tile_data (td_wireId desc) dat = Ok t" "represents t (append_frame (td_wireId desc) dat [])"
    by (rule mk_tile_data_ok)
  then show thesis using assms(1) by (intro that) (simp_all add: save_data_to_cache_def)
qed

lemma save_tile_and_notify_ok:
  assumes "ca_wf c" "dat \<noteq> []"
  obtains sends c' where "save_tile_and_notify alive desc dat c = Ok (sends, c')" "ca_wf c'"
proof (cases "ca_dontCache c")
  case True
  then obtain t where "save_data_to_cache desc dat c = Ok (Some t, c)"
    using assms(2) by (rule save_data_uncached)
  then have "save_tile_and_notify alive desc dat c =
      Ok (map (\<lambda>s. (s, t)) (waiting alive desc c), c\<lparr>ca_rendering := rendering_after desc c\<rparr>)"
    using save_tile_and_notify_of_save [OF assms(1) _ assms(1) refl] by simp
  then show thesis using rendering_after_wf [OF assms(1) assms(1)] by (rule that)
next
  case False
  with assms obtain tile c1 where c1: "save_data_to_cache desc dat c = Ok (tile, c1)" "ca_wf c1" "ca_rendering c1 = ca_rendering c"
    by (rule save_data_to_cache_ok)
  show thesis
    using save_tile_and_notify_of_save [OF assms(1) c1] rendering_after_wf [OF assms(1) c1(2)] by (rule that)
qed

subsection \<open>Invalidation\<close>

lemma find_desc_invalidated:
  assumes "keys_apart es"
  shows "find_desc d (map (\<lambda>(e, t). (e, if P e then f t else t)) es) =
    (case find_desc d es of None \<Rightarrow> None | Some t \<Rightarrow> Some (if \<exists>e. (e, t) \<in> set es \<and> cache_eq e d \<and> P e then f t else t))"
  using assms
proof (induction d es rule: find_desc.induct)
  case (2 d e v es)
  show ?case
  proof (cases "cache_eq e d")
    case True
    then have "\<not> cache_eq e' d" if "(e', t) \<in> set es" for e' t
      using "2.prems" that by (auto simp: keys_apart_def cache_eq_key)
    then show ?thesis using True by auto
  next
    case False
    have "keys_apart es" using "2.prems" by (simp add: keys_apart_def)
    then show ?thesis using "2.IH" False by (auto split: option.split)
  qed
qed simp

lemma represents_invalidate [simp]: "represents (ti_invalidate t) fs = represents t fs"
  by (simp add: represents_def ti_invalidate_def)

lemma invalidate_area_map:
  "snd (invalidate_area prt mode x y width height view c) =
    c\<lparr>ca_cache := map (\<lambda>(d, t). (d, if intersects_tile d prt mode x y width height view then ti_invalidate t else t)) (ca_cache c)\<rparr>"
  by (auto simp: invalidate_area_def intro!: tile_cache.equality map_cong)

lemma intersects_tile_cong: "cache_eq d e \<Longrightarrow> intersects_tile d = intersects_tile e"
  by (simp add: cache_eq_def intersects_tile_def fun_eq_iff)

lemma invalidate_area_wf:
  assumes "ca_wf c"
  shows "ca_wf (snd (invalidate_area prt mode x y width height view c))"
proof -
  let ?f = "\<lambda>(d, t). (d, if intersects_tile d prt mode x y width height view then ti_invalidate t else t)"
  have "keys_apart (map ?f (ca_cache c))"
    using assms keys_apart_map [of ?f "ca_cache c"] by (simp add: ca_wf_def tiles_ok_def split_beta)
  moreover have "tile_ok (ti_invalidate t) = tile_ok t" for t by (simp add: tile_ok_def)
  then have "\<forall>(d, t) \<in> set (map ?f (ca_cache c)). tile_ok t"
    using assms by (auto simp: ca_wf_def tiles_ok_def)
  moreover have "cache_total (map ?f (ca_cache c)) = cache_total (ca_cache c)"
    unfolding cache_total_def
    by (rule arg_cong [of _ _ sum_list]) (auto simp: item_cache_size_def ti_size_def ti_invalidate_def)
  ultimately show ?thesis using assms by (simp add: ca_wf_def tiles_ok_def invalidate_area_map)
qed

lemma ca_clear_wf: "ca_wf c \<Longrightarrow> ca_wf (ca_clear c)"
  by (simp add: ca_wf_def ca_clear_def tiles_ok_def keys_apart_def cache_total_def)

lemma save_stream_wf: "ca_wf c \<Longrightarrow> ca_wf (save_data_to_stream_cache ty name dat c)"
  by (simp add: ca_wf_def save_data_to_stream_cache_def)

lemma set_max_wf:
  assumes "ca_wf c"
  obtains c' where "set_max_cache_size n c = Ok c'" "ca_wf c'"
proof -
  have "ca_wf (c\<lparr>ca_maxCacheSize := n\<rparr>)" using assms by (simp add: ca_wf_def)
  then obtain c' where "ensure_cache_size (c\<lparr>ca_maxCacheSize := n\<rparr>) = Ok c'" "ca_wf c'" by (rule ensure_cache_size_ok)
  then show thesis by (intro that) (simp_all add: set_max_cache_size_def)
qed

end
