(* ===== verification/CacheTheorems.thy ===== *)
theory CacheTheorems
  imports CacheInvariant "HOL-Library.Multiset"
begin

text \<open>
  The properties of the tile cache: what every sequence of operations guarantees, what a saved
  frame does to the cache and to those waiting for it, what eviction and invalidation remove,
  and what a client is sent of a tile.
\<close>

section \<open>Reachable caches\<close>

inductive cache_reachable :: "tile_cache \<Rightarrow> bool" where
  start: "cache_reachable (mk_tile_cache b)"
| save: "cache_reachable c \<Longrightarrow> dat \<noteq> [] \<Longrightarrow> save_tile_and_notify alive desc dat c = Ok (sends, c') \<Longrightarrow> cache_reachable c'"
| subscribe: "cache_reachable c \<Longrightarrow> cache_reachable (snd (subscribe_to_tile_rendering tile s now c))"
| invalidate: "cache_reachable c \<Longrightarrow> cache_reachable (snd (invalidate_area prt mode x y w h view c))"
| resize: "cache_reachable c \<Longrightarrow> set_max_cache_size n c = Ok c' \<Longrightarrow> cache_reachable c'"
| clear: "cache_reachable c \<Longrightarrow> cache_reachable (ca_clear c)"
| stream: "cache_reachable c \<Longrightarrow> cache_reachable (save_data_to_stream_cache ty name dat c)"

lemma cache_reachable_wf: "cache_reachable c \<Longrightarrow> ca_wf c"
proof (induction rule: cache_reachable.induct)
  case (save c dat alive desc sends c')
  obtain sends' c'' where "save_tile_and_notify alive desc dat c = Ok (sends', c'')" "ca_wf c''"
    using save.IH save.hyps(2) by (rule save_tile_and_notify_ok)
  then show ?case using save.hyps(3) by simp
next
  case (resize c n c')
  obtain c'' where "set_max_cache_size n c = Ok c''" "ca_wf c''" using resize.IH by (rule set_max_wf)
  then show ?case using resize.hyps(2) by simp
qed (simp_all add: ca_wf_init subscribe_wf invalidate_area_wf ca_clear_wf save_stream_wf)

text \<open>A reachable cache with one tile, being rendered for two sessions\<close>

definition sample_desc :: tile_desc where
  "sample_desc = \<lparr>td_canonicalViewId = 1, td_part = 0, td_mode = 0, td_width = 256, td_height = 256,
    td_tilePosX = 0, td_tilePosY = 3840, td_tileWidth = 3840, td_tileHeight = 3840, td_ver = 1, td_imgSize = 0,
    td_id = -1, td_oldWireId = 0, td_wireId = 7\<rparr>"

definition sample_cache :: tile_cache where
  "sample_cache = snd (subscribe_to_tile_rendering sample_desc 6 0
    (snd (subscribe_to_tile_rendering sample_desc 5 0 (mk_tile_cache False))))"

lemma sample_cache_reachable: "cache_reachable sample_cache"
  unfolding sample_cache_def by (intro cache_reachable.subscribe cache_reachable.start)

lemma sample_cache_rendering:
  "ca_rendering sample_cache = [(sample_desc, \<lparr>tbr_subscribers = [5, 6], tbr_startTime = 0, tbr_tile = sample_desc\<rparr>)]"
  by (simp add: sample_cache_def subscribe_to_tile_rendering_def find_tile_being_rendered_def mk_tile_cache_def
    put_desc_def mk_tile_being_rendered_def cache_eq_key)

lemma sample_cache_dontCache: "\<not> ca_dontCache sample_cache"
  by (simp add: sample_cache_def subscribe_to_tile_rendering_def find_tile_being_rendered_def mk_tile_cache_def
    put_desc_def mk_tile_being_rendered_def cache_eq_key)

text \<open>A reachable cache that holds that tile\<close>

definition sample_frames :: tile_data where
  "sample_frames = \<lparr>ti_wids = [7], ti_offsets = [0], ti_deltas = [1, 2], ti_valid = True\<rparr>"

definition sample_filled :: tile_cache where
  "sample_filled = (mk_tile_cache False)\<lparr>ca_cache := [(sample_desc, sample_frames)], ca_cacheSize := 74\<rparr>"

lemma sample_filled_reachable: "cache_reachable sample_filled"
proof (rule cache_reachable.save [OF cache_reachable.start])
  have "td_wireId sample_desc = 7" by (simp add: sample_desc_def)
  then show "save_tile_and_notify (\<lambda>_. True) sample_desc [90, 1, 2] (mk_tile_cache False) = Ok ([], sample_filled)"
    by (simp add: save_tile_and_notify_def save_data_to_cache_def find_tile_being_rendered_def mk_tile_cache_def
      ensure_cache_size_def assert_cache_size_def put_desc_def is_keyframe_def mk_tile_data_def append_blob_def Let_def
      item_cache_size_def ti_size_def item_overhead_def sample_filled_def sample_frames_def)
qed simp

section \<open>Saving\<close>

text \<open>C22: In every reachable cache, saving the nonempty data of a tile succeeds: the assertions
  that the recorded size is the sum of the sizes and that the tile to forget is being rendered
  never fail, and resizing the cache succeeds too.\<close>

theorem saving_succeeds:
  assumes "cache_reachable c" "dat \<noteq> []"
  shows "(\<exists>r. save_tile_and_notify alive desc dat c = Ok r) \<and> assert_cache_size c = Ok c \<and> (\<exists>r. set_max_cache_size n c = Ok r)"
proof -
  have wf: "ca_wf c" by (rule cache_reachable_wf [OF assms(1)])
  obtain sends c1 where "save_tile_and_notify alive desc dat c = Ok (sends, c1)" using wf assms(2) by (rule save_tile_and_notify_ok)
  moreover obtain c2 where "set_max_cache_size n c = Ok c2" using wf by (rule set_max_wf)
  moreover have "assert_cache_size c = Ok c" using wf by (simp add: ca_wf_def assert_cache_size_ok)
  ultimately show ?thesis by blast
qed

theorem saving_succeeds_witness:
  "(\<exists>r. save_tile_and_notify (\<lambda>_. True) sample_desc [90, 1] sample_cache = Ok r) \<and>
    assert_cache_size sample_cache = Ok sample_cache \<and> (\<exists>r. set_max_cache_size 0 sample_cache = Ok r)"
  using saving_succeeds [OF sample_cache_reachable, of "[90, 1]" "\<lambda>_. True" sample_desc 0] by simp

text \<open>C8: When the frame the kit replies with can be cached, because it is a keyframe or because the
  tile is cached and someone waits for it, then whatever eviction does first, the cache afterwards
  holds the tile's frames with the new one appended, each session that waits and is alive is sent
  exactly that tile, once and in the order of subscription, and the wait ends unless a newer version
  was asked for meanwhile.\<close>

theorem saved_frame_delivered:
  assumes "cache_reachable c" "\<not> ca_dontCache c" "dat \<noteq> []"
    and "is_keyframe dat \<or> (find_desc desc (ca_cache c) = Some t0 \<and> represents t0 fs \<and> find_desc desc (ca_rendering c) \<noteq> None)"
  shows "\<exists>t c'. save_tile_and_notify alive desc dat c = Ok (map (\<lambda>s. (s, t)) (waiting alive desc c), c') \<and>
    distinct (waiting alive desc c) \<and> lookup_tile desc c' = Some t \<and> represents t (append_frame (td_wireId desc) dat fs) \<and>
    find_tile_being_rendered desc c' =
      (case find_tile_being_rendered desc c of
         None \<Rightarrow> None
       | Some r \<Rightarrow> if tbr_version r \<le> td_ver desc then None else Some r)"
proof -
  have wf: "ca_wf c" by (rule cache_reachable_wf [OF assms(1)])
  obtain tile c1 where s: "save_data_to_cache desc dat c = Ok (tile, c1)" "ca_wf c1" "ca_rendering c1 = ca_rendering c"
    and f: "ca_dontCache c1 = ca_dontCache c" "ca_streams c1 = ca_streams c" "find_desc desc (ca_cache c1) = tile"
    and k: "is_keyframe dat \<longrightarrow> (\<exists>t. tile = Some t \<and> represents t [(td_wireId desc, tl dat)])"
    and a: "\<forall>t fs. find_desc desc (ca_cache c) = Some t \<and> represents t fs \<and> find_desc desc (ca_rendering c) \<noteq> None \<longrightarrow>
      (\<exists>t'. tile = Some t' \<and> represents t' (append_frame (td_wireId desc) dat fs))"
    by (rule save_data_to_cache_ok [OF wf assms(3,2), of desc]) blast
  obtain t where t: "tile = Some t" "represents t (append_frame (td_wireId desc) dat fs)"
    using assms(4) k a by (cases "is_keyframe dat") (auto simp: append_frame_def)
  let ?c = "c1\<lparr>ca_rendering := rendering_after desc c\<rparr>"
  have "save_tile_and_notify alive desc dat c = Ok (map (\<lambda>s. (s, t)) (waiting alive desc c), ?c)"
    using save_tile_and_notify_of_save [OF wf s] t(1) by simp
  moreover have "distinct (waiting alive desc c)"
    using rendering_ok_find [of "ca_rendering c" desc] wf by (auto simp: waiting_def ca_wf_def split: option.split)
  moreover have "lookup_tile desc ?c = Some t" using f assms(2) t(1) by (simp add: lookup_tile_def find_tile_def)
  moreover have "find_tile_being_rendered desc ?c =
      (case find_tile_being_rendered desc c of None \<Rightarrow> None | Some r \<Rightarrow> if tbr_version r \<le> td_ver desc then None else Some r)"
    by (simp add: find_tile_being_rendered_def rendering_after_def find_desc_erase cache_eq_key split: option.split)
  ultimately show ?thesis using t(2) by blast
qed

theorem saved_frame_delivered_witness:
  "\<exists>t c'. save_tile_and_notify (\<lambda>s. s \<noteq> 6) sample_desc [90, 1, 2] sample_cache = Ok ([(5, t)], c') \<and>
    lookup_tile sample_desc c' = Some t \<and> represents t [(7, [1, 2])] \<and> find_tile_being_rendered sample_desc c' = None"
proof -
  have "is_keyframe [90, 1, 2]" by (simp add: is_keyframe_def)
  then show ?thesis
    using saved_frame_delivered [OF sample_cache_reachable sample_cache_dontCache, of "[90, 1, 2]" sample_desc _ "[]" "\<lambda>s. s \<noteq> 6"]
    by (simp add: waiting_def sample_cache_rendering find_tile_being_rendered_def cache_eq_key append_frame_def tbr_version_def)
      (auto simp: sample_desc_def)
qed

section \<open>Eviction\<close>

lemma max_to_remove_in: "max_to_remove limit tot cur ws \<in> set (cur # map fst ws)"
  by (induction limit tot cur ws rule: max_to_remove.induct) (auto simp: Let_def)

abbreviation sizes_upto :: "wire_id \<Rightarrow> (wire_id \<times> nat) list \<Rightarrow> nat" where
  "sizes_upto m ws \<equiv> sum_list (map snd (filter (\<lambda>p. fst p \<le> m) ws))"

lemma max_to_remove_reaches:
  assumes "sorted (map fst ws)" "unat tot + sum_list (map snd ws) < 2 ^ 64" "unat limit < unat tot + sum_list (map snd ws)"
    "unat tot \<le> unat limit"
  shows "unat limit < unat tot + sizes_upto (max_to_remove limit tot cur ws) ws"
  using assms
proof (induction limit tot cur ws rule: max_to_remove.induct)
  case (2 limit tot cur w s ws)
  have tot: "unat (tot + word_of_nat s) = unat tot + s"
    using "2.prems"(2) by (simp add: unat_word_ariths unsigned_of_nat take_bit_nat_eq_self)
  show ?case
  proof (cases "tot + word_of_nat s > limit")
    case True
    then show ?thesis using tot by (simp add: Let_def word_less_nat_alt)
  next
    case False
    let ?m = "max_to_remove limit (tot + word_of_nat s) w ws"
    have "w \<le> ?m" using max_to_remove_in [of limit "tot + word_of_nat s" w ws] "2.prems"(1) by auto
    moreover have "unat limit < unat (tot + word_of_nat s) + sizes_upto ?m ws"
      using "2.IH" [OF refl False] "2.prems" tot False by (simp add: not_less word_le_nat_alt)
    ultimately show ?thesis using False tot by (simp add: Let_def)
  qed
qed simp

text \<open>The limit is the smallest wire id that reaches it: what is below is not worth more.\<close>

abbreviation sizes_below :: "wire_id \<Rightarrow> (wire_id \<times> nat) list \<Rightarrow> nat" where
  "sizes_below m ws \<equiv> sum_list (map snd (filter (\<lambda>p. fst p < m) ws))"

lemma max_to_remove_least:
  assumes "sorted (map fst ws)" "unat tot + sum_list (map snd ws) < 2 ^ 64" "unat tot \<le> unat limit" "\<forall>p \<in> set ws. cur \<le> fst p"
  shows "unat tot + sizes_below (max_to_remove limit tot cur ws) ws \<le> unat limit"
  using assms
proof (induction limit tot cur ws rule: max_to_remove.induct)
  case (1 limit tot cur)
  then show ?case by simp
next
  case (2 limit tot cur w s ws)
  have tot: "unat (tot + word_of_nat s) = unat tot + s"
    using "2.prems"(2) by (simp add: unat_word_ariths unsigned_of_nat take_bit_nat_eq_self)
  show ?case
  proof (cases "tot + word_of_nat s > limit")
    case True
    have "filter (\<lambda>p. fst p < w) ((w, s) # ws) = []"
      using "2.prems"(1) by (auto simp: filter_empty_conv)
    then show ?thesis using True "2.prems"(3) by (simp add: Let_def)
  next
    case False
    let ?m = "max_to_remove limit (tot + word_of_nat s) w ws"
    have le: "unat tot + s \<le> unat limit" using False tot by (simp add: not_less word_le_nat_alt)
    have "unat (tot + word_of_nat s) + sizes_below ?m ws \<le> unat limit"
      using "2.IH" [OF refl False] "2.prems" tot le by simp
    then show ?thesis using False tot by (simp add: Let_def)
  qed
qed

lemma sizes_sort:
  "sum_list (map snd (filter (\<lambda>p. P (fst p)) (sort_key fst (map (\<lambda>(d, t). (td_wireId d, item_cache_size t)) es)))) =
    cache_total (filter (\<lambda>p. P (td_wireId (fst p))) es)"
proof -
  let ?ws = "map (\<lambda>(d, t). (td_wireId d, item_cache_size t)) es"
  have "sum_list (map snd (filter (\<lambda>p. P (fst p)) (sort_key fst ?ws))) = sum_list (map snd (filter (\<lambda>p. P (fst p)) ?ws))"
    by (simp flip: sum_mset_sum_list)
  also have "\<dots> = cache_total (filter (\<lambda>p. P (td_wireId (fst p))) es)"
    by (induction es) (auto simp: cache_total_def)
  finally show ?thesis .
qed

text \<open>The wire ids of the cache have wrapped around.\<close>

definition wids_wrapped :: "tile_cache \<Rightarrow> bool" where
  "wids_wrapped c \<longleftrightarrow>
    list_ex (\<lambda>p. list_ex (\<lambda>q. td_wireId (fst q) \<le> td_wireId (fst p) \<and> td_wireId (fst p) - td_wireId (fst q) > 256 * 256 * 256)
      (ca_cache c)) (ca_cache c)"

lemma clean_limit_frees:
  assumes "ca_maxCacheSize c \<le> word_of_nat (cache_total (ca_cache c))" "cache_total (ca_cache c) < 2 ^ 64" "ca_cache c \<noteq> []"
  shows "unat (ca_maxCacheSize c) div 4 < cache_total (filter (\<lambda>p. td_wireId (fst p) \<le> clean_limit c) (ca_cache c))"
    and "\<not> wids_wrapped c \<Longrightarrow>
      cache_total (filter (\<lambda>p. td_wireId (fst p) < clean_limit c) (ca_cache c)) \<le> unat (ca_maxCacheSize c) div 4"
proof -
  define ws where "ws = sort_key fst (map (\<lambda>(d, t). (td_wireId d, item_cache_size t)) (ca_cache c))"
  have max: "unat (ca_maxCacheSize c) \<le> cache_total (ca_cache c)"
    using assms(1,2) by (simp add: word_le_nat_alt unsigned_of_nat take_bit_nat_eq_self)
  have pos: "0 < cache_total (ca_cache c)"
    using assms(3) by (cases "ca_cache c") (auto simp: cache_total_def item_cache_size_def item_overhead_def)
  have lt: "unat (ca_maxCacheSize c) div 4 < cache_total (ca_cache c)"
    using max pos by linarith
  have sum: "sum_list (map snd ws) = cache_total (ca_cache c)"
    using sizes_sort [of "\<lambda>_. True" "ca_cache c"] by (simp add: ws_def)
  have sorted: "sorted (map fst ws)" by (simp add: ws_def)
  have "length ws = length (ca_cache c)" by (simp add: ws_def)
  then have ne: "ws \<noteq> []" using assms(3) by auto
  have quarter: "unat (ca_maxCacheSize c div 4) = unat (ca_maxCacheSize c) div 4" by (simp add: unat_div)
  have first: "fst (hd ws) \<le> fst p" if "p \<in> set ws" for p
    using sorted that by (cases ws) auto
  have final: "fst p \<le> fst (last ws)" if "p \<in> set ws" for p
    using sorted that by (cases ws rule: rev_cases) (auto simp: sorted_append)
  have "unat (ca_maxCacheSize c) div 4 < sizes_upto (clean_limit c) ws"
  proof (cases "fst (last ws) - fst (hd ws) > 256 * 256 * 256")
    case True
    have "filter (\<lambda>p. fst p \<le> fst (last ws)) ws = ws" using final by (auto intro: filter_True)
    then show ?thesis using True lt sum by (simp add: clean_limit_def ws_def [symmetric] Let_def)
  next
    case False
    then show ?thesis
      using max_to_remove_reaches [OF sorted, of 0 "ca_maxCacheSize c div 4" "fst (hd ws)"] lt sum assms(2) quarter
      by (simp add: clean_limit_def ws_def [symmetric] Let_def)
  qed
  then show "unat (ca_maxCacheSize c) div 4 < cache_total (filter (\<lambda>p. td_wireId (fst p) \<le> clean_limit c) (ca_cache c))"
    unfolding ws_def by (simp add: sizes_sort [of "\<lambda>w. w \<le> clean_limit c"])
  assume "\<not> wids_wrapped c"
  have wid: "\<exists>p \<in> set (ca_cache c). td_wireId (fst p) = fst x" if "x \<in> set ws" for x using that by (auto simp: ws_def intro!: bexI)
  obtain p q where pq: "p \<in> set (ca_cache c)" "td_wireId (fst p) = fst (last ws)" "q \<in> set (ca_cache c)" "td_wireId (fst q) = fst (hd ws)"
    using wid [OF last_in_set [OF ne]] wid [OF hd_in_set [OF ne]] by blast
  have "\<not> fst (last ws) - fst (hd ws) > 256 * 256 * 256"
  proof
    assume gap: "fst (last ws) - fst (hd ws) > 256 * 256 * 256"
    have "td_wireId (fst q) \<le> td_wireId (fst p)" using first [OF last_in_set [OF ne]] pq(2,4) by simp
    then have "wids_wrapped c" unfolding wids_wrapped_def list_ex_iff using pq gap by (intro bexI [of _ p] bexI [of _ q]) simp_all
    then show False using \<open>\<not> wids_wrapped c\<close> by contradiction
  qed
  then have "sizes_below (clean_limit c) ws \<le> unat (ca_maxCacheSize c) div 4"
    using max_to_remove_least [OF sorted, of 0 "ca_maxCacheSize c div 4" "fst (hd ws)"] first sum assms(2) quarter
    by (simp add: clean_limit_def ws_def [symmetric] Let_def)
  then show "cache_total (filter (\<lambda>p. td_wireId (fst p) < clean_limit c) (ca_cache c)) \<le> unat (ca_maxCacheSize c) div 4"
    unfolding ws_def by (simp add: sizes_sort [of "\<lambda>w. w < clean_limit c"])
qed

text \<open>C24: When the cache has reached its allowed size and holds at least two tiles, making room removes exactly the tiles that are not being
  rendered and whose wire id is at most a limit, keeps all others in order, and has the right size after it. The tiles up to the limit are
  worth more than a quarter of the allowed size, and those below it are not, unless the wire ids wrapped around: the limit is the
  smallest that is enough. (The sizes of all tiles are less than \<open>2 ^ 64\<close> together.)\<close>

theorem eviction_frees_quarter:
  assumes "cache_reachable c" "ca_maxCacheSize c \<le> ca_cacheSize c" "2 \<le> length (ca_cache c)" "cache_total (ca_cache c) < 2 ^ 64"
  shows "\<exists>c' limit. ensure_cache_size c = Ok c' \<and>
    ca_cache c' = filter (\<lambda>p. \<not> (td_wireId (fst p) \<le> limit \<and> find_tile_being_rendered (fst p) c = None)) (ca_cache c) \<and>
    ca_rendering c' = ca_rendering c \<and> unat (ca_cacheSize c') = cache_total (ca_cache c') \<and>
    unat (ca_maxCacheSize c) div 4 < cache_total (filter (\<lambda>p. td_wireId (fst p) \<le> limit) (ca_cache c)) \<and>
    (wids_wrapped c \<or> cache_total (filter (\<lambda>p. td_wireId (fst p) < limit) (ca_cache c)) \<le> unat (ca_maxCacheSize c) div 4)"
  using cache_reachable_wf [OF assms(1)]
proof (rule ensure_cache_size_cases)
  assume "ca_cacheSize c < ca_maxCacheSize c \<or> length (ca_cache c) < 2"
  then show ?thesis using assms(2,3) by auto
next
  fix es
  assume es: "es = filter (\<lambda>p. \<not> evicted (clean_limit c) (ca_rendering c) p) (ca_cache c)"
    and e: "ensure_cache_size c = Ok (c\<lparr>ca_cache := es, ca_cacheSize := word_of_nat (cache_total es)\<rparr>)"
  have es': "es = filter (\<lambda>p. \<not> (td_wireId (fst p) \<le> clean_limit c \<and> find_tile_being_rendered (fst p) c = None)) (ca_cache c)"
    by (simp add: es evicted_def find_tile_being_rendered_def)
  have "cache_total es < 2 ^ 64"
    using cache_total_filter [of "evicted (clean_limit c) (ca_rendering c)" "ca_cache c"] assms(4) unfolding es by linarith
  then have sz: "unat (word_of_nat (cache_total es) :: 64 word) = cache_total es"
    by (simp add: unsigned_of_nat take_bit_nat_eq_self)
  have "ca_maxCacheSize c \<le> word_of_nat (cache_total (ca_cache c))" "ca_cache c \<noteq> []"
    using cache_reachable_wf [OF assms(1)] assms(2,3) by (auto simp: ca_wf_def)
  note limit = clean_limit_frees [OF this(1) assms(4) this(2)]
  show ?thesis
    using e es' sz limit by (intro exI [of _ "c\<lparr>ca_cache := es, ca_cacheSize := word_of_nat (cache_total es)\<rparr>"] exI [of _ "clean_limit c"]) auto
qed

theorem eviction_frees_quarter_witness:
  "\<exists>c c'. cache_reachable c \<and> map (\<lambda>p. td_wireId (fst p)) (ca_cache c) = [7, 8, 9] \<and> find_tile_being_rendered sample_desc c \<noteq> None \<and>
    ensure_cache_size c = Ok c' \<and> map (\<lambda>p. td_wireId (fst p)) (ca_cache c') = [7, 9]"
proof -
  let ?d2 = "sample_desc\<lparr>td_tilePosX := 3840, td_wireId := 8\<rparr>"
  let ?d3 = "sample_desc\<lparr>td_tilePosX := 7680, td_wireId := 9\<rparr>"
  let ?t = "\<lambda>w n. \<lparr>ti_wids = [w], ti_offsets = [0], ti_deltas = replicate n 1, ti_valid = True\<rparr>"
  define dat :: "nat \<Rightarrow> byte list" where "dat n = 90 # replicate n 1" for n
  have dat: "is_keyframe (dat n)" "dat n \<noteq> []" "length (dat n) = Suc n" "tl (dat n) = replicate n 1" for n
    by (simp_all add: dat_def is_keyframe_def)
  have mk: "mk_tile_data w (dat n) = Ok (?t w n)" for w n
    using dat by (simp add: mk_tile_data_def append_blob_def Let_def del: replicate.simps)
  have sz: "item_cache_size (?t w n) = n + 72" for w n
    by (simp add: item_cache_size_def ti_size_def item_overhead_def del: replicate.simps)
  let ?c0 = "mk_tile_cache False"
  let ?c1 = "?c0\<lparr>ca_cache := [(sample_desc, ?t 7 200000)], ca_cacheSize := 200072\<rparr>"
  let ?c2 = "?c1\<lparr>ca_cache := [(sample_desc, ?t 7 200000), (?d2, ?t 8 200000)], ca_cacheSize := 400144\<rparr>"
  let ?c3 = "?c2\<lparr>ca_cache := [(sample_desc, ?t 7 200000), (?d2, ?t 8 200000), (?d3, ?t 9 700000)], ca_cacheSize := 1100216\<rparr>"
  have ne: "\<not> cache_eq sample_desc ?d2" "\<not> cache_eq sample_desc ?d3" "\<not> cache_eq ?d2 ?d3" by (simp_all add: cache_eq_def sample_desc_def)
  have wid: "td_wireId sample_desc = 7" by (simp add: sample_desc_def)
  note save = save_tile_and_notify_def save_data_to_cache_def find_tile_being_rendered_def mk_tile_cache_def
      ensure_cache_size_def assert_cache_size_def put_desc_def
  have "save_tile_and_notify (\<lambda>_. True) sample_desc (dat 200000) ?c0 = Ok ([], ?c1)"
    using dat mk sz wid by (simp add: save del: replicate.simps)
  then have r1: "cache_reachable ?c1" using dat(2) by (intro cache_reachable.save [OF cache_reachable.start])
  have "save_tile_and_notify (\<lambda>_. True) ?d2 (dat 200000) ?c1 = Ok ([], ?c2)"
    using dat mk sz wid ne by (simp add: save del: replicate.simps)
  then have r2: "cache_reachable ?c2" using dat(2) by (intro cache_reachable.save [OF r1])
  have "save_tile_and_notify (\<lambda>_. True) ?d3 (dat 700000) ?c2 = Ok ([], ?c3)"
    using dat mk sz wid ne by (simp add: save del: replicate.simps)
  then have r3: "cache_reachable ?c3" using dat(2) by (intro cache_reachable.save [OF r2])
  let ?c = "snd (subscribe_to_tile_rendering sample_desc 5 0 ?c3)"
  have cache: "ca_cache ?c = ca_cache ?c3" "ca_cacheSize ?c = 1100216" "ca_maxCacheSize ?c = 1048576"
    "find_desc sample_desc (ca_rendering ?c) \<noteq> None" "find_desc ?d2 (ca_rendering ?c) = None"
    using ne cache_eq_key [of sample_desc sample_desc] by (simp_all add: subscribe_to_tile_rendering_def find_tile_being_rendered_def mk_tile_cache_def put_desc_def Let_def
        del: replicate.simps)
  have r: "cache_reachable ?c" using r3 by (rule cache_reachable.subscribe)
  have tot: "cache_total (ca_cache ?c) = 1100216" using sz by (simp add: cache(1) cache_total_def del: replicate.simps)
  obtain c' limit where c': "ensure_cache_size ?c = Ok c'"
    "ca_cache c' = filter (\<lambda>p. \<not> (td_wireId (fst p) \<le> limit \<and> find_tile_being_rendered (fst p) ?c = None)) (ca_cache ?c)"
    "262144 < cache_total (filter (\<lambda>p. td_wireId (fst p) \<le> limit) (ca_cache ?c))"
    "wids_wrapped ?c \<or> cache_total (filter (\<lambda>p. td_wireId (fst p) < limit) (ca_cache ?c)) \<le> 262144"
    using eviction_frees_quarter [OF r] tot cache(2,3) unfolding cache(1) by (auto simp del: replicate.simps)
  have "\<not> wids_wrapped ?c" using wid by (simp add: wids_wrapped_def cache(1) del: replicate.simps)
  have "8 \<le> limit"
  proof (rule ccontr)
    assume "\<not> 8 \<le> limit"
    moreover from this have "\<not> 9 \<le> limit" by (simp add: word_le_nat_alt)
    ultimately show False using c'(3) sz wid by (cases "7 \<le> limit") (auto simp: cache(1) cache_total_def simp del: replicate.simps)
  qed
  moreover have "\<not> 8 < limit"
  proof
    assume "8 < limit"
    moreover from this have "7 < limit" by (simp add: word_less_nat_alt)
    ultimately show False
      using c'(4) \<open>\<not> wids_wrapped ?c\<close> sz wid by (cases "9 < limit") (auto simp: cache(1) cache_total_def simp del: replicate.simps)
  qed
  ultimately have "limit = 8" by auto
  then have left: "map (\<lambda>p. td_wireId (fst p)) (ca_cache c') = [7, 9]"
    using c'(2) cache(4,5) wid by (simp add: cache(1) find_tile_being_rendered_def del: replicate.simps)
  have before: "map (\<lambda>p. td_wireId (fst p)) (ca_cache ?c) = [7, 8, 9]" using wid by (simp add: cache(1) del: replicate.simps)
  have waits: "find_tile_being_rendered sample_desc ?c \<noteq> None" using cache(4) by (simp add: find_tile_being_rendered_def)
  show ?thesis by (intro exI [of _ ?c] exI [of _ c'] conjI r before waits c'(1) left)
qed

section \<open>Invalidation\<close>

text \<open>The points of a document that a tile and an invalidated area share, with their borders\<close>

definition area_meets :: "tile_desc \<Rightarrow> int \<Rightarrow> int \<Rightarrow> int \<Rightarrow> int \<Rightarrow> bool" where
  "area_meets d x y w h \<longleftrightarrow>
    (\<exists>px py. x \<le> px \<and> px \<le> x + w \<and> td_tilePosX d \<le> px \<and> px \<le> td_tilePosX d + td_tileWidth d \<and>
      y \<le> py \<and> py \<le> y + h \<and> td_tilePosY d \<le> py \<and> py \<le> td_tilePosY d + td_tileHeight d)"

lemma meet_interval: "(\<exists>p::int. a \<le> p \<and> p \<le> b \<and> c \<le> p \<and> p \<le> d) \<longleftrightarrow> max a c \<le> min b d"
  by (auto intro: exI [of _ "max a c"])

lemma area_meets_iff:
  "area_meets d x y w h \<longleftrightarrow> max x (td_tilePosX d) \<le> min (x + w) (td_tilePosX d + td_tileWidth d) \<and>
    max y (td_tilePosY d) \<le> min (y + h) (td_tilePosY d + td_tileHeight d)"
  unfolding area_meets_def meet_interval [symmetric] by blast

text \<open>C23: Invalidating an area whose far corner is in range makes invalid exactly the cached tiles of
  that part (of every part for -1), mode and view that share a point with it, borders included; it
  loses no frame, and every other tile keeps its validity.\<close>

theorem invalidation_exact:
  assumes "cache_reachable c" "find_desc d (ca_cache c) = Some t"
    and "in_i32 (x + w)" "in_i32 (y + h)" "in_i32 (td_tilePosX d + td_tileWidth d)" "in_i32 (td_tilePosY d + td_tileHeight d)"
  shows "find_desc d (ca_cache (snd (invalidate_area prt mode x y w h view c))) =
    Some (t\<lparr>ti_valid := ti_valid t \<and> \<not> ((prt = -1 \<or> td_part d = prt) \<and> mode = td_mode d \<and> view = td_canonicalViewId d \<and>
      area_meets d x y w h)\<rparr>)"
proof -
  have apart: "keys_apart (ca_cache c)" using cache_reachable_wf [OF assms(1)] by (simp add: ca_wf_def tiles_ok_def)
  have hit: "intersects_tile d prt mode x y w h view \<longleftrightarrow>
      (prt = -1 \<or> td_part d = prt) \<and> mode = td_mode d \<and> view = td_canonicalViewId d \<and> area_meets d x y w h"
    unfolding intersects_tile_def Let_def area_meets_iff s32_in [OF assms(3)] s32_in [OF assms(4)] s32_in [OF assms(5)]
      s32_in [OF assms(6)] by auto
  obtain e where e: "(e, t) \<in> set (ca_cache c)" "cache_eq e d" using find_desc_Some [OF assms(2)] by blast
  have "(\<exists>e. (e, t) \<in> set (ca_cache c) \<and> cache_eq e d \<and> intersects_tile e prt mode x y w h view) \<longleftrightarrow>
      intersects_tile d prt mode x y w h view"
    using e intersects_tile_cong by metis
  then show ?thesis
    using hit assms(2) find_desc_invalidated [OF apart, of d "\<lambda>e. intersects_tile e prt mode x y w h view" ti_invalidate]
    by (cases t) (auto simp: invalidate_area_map ti_invalidate_def)
qed

theorem invalidation_exact_witness:
  "find_desc sample_desc (ca_cache (snd (invalidate_area 0 0 100 7680 50 10 1 sample_filled))) = Some (sample_frames\<lparr>ti_valid := False\<rparr>) \<and>
    find_desc sample_desc (ca_cache (snd (invalidate_area 0 0 100 7681 50 10 1 sample_filled))) = Some sample_frames"
proof -
  have f: "find_desc sample_desc (ca_cache sample_filled) = Some sample_frames" by (simp add: sample_filled_def cache_eq_key)
  have "area_meets sample_desc 100 7680 50 10" "\<not> area_meets sample_desc 100 7681 50 10"
    by (simp_all add: area_meets_iff sample_desc_def)
  then show ?thesis
    using invalidation_exact [OF sample_filled_reachable f, of 100 50 7680 10 0 0 1]
      invalidation_exact [OF sample_filled_reachable f, of 100 50 7681 10 0 0 1]
    by (simp add: in_i32_def sample_desc_def sample_frames_def)
qed

section \<open>What a client is sent\<close>

text \<open>C26: A tile built from a keyframe and then deltas with increasing wire ids gives a client that has
  everything up to some wire id exactly the payloads of the later frames, in order, and tells whether
  it needs the keyframe; coalescing empty deltas changes nothing of this.\<close>

theorem client_gets_missing_frames:
  assumes "deltas_after w blobs" "0 < w" "is_keyframe (k # b)"
  shows "\<exists>t. res_bind (mk_tile_data w (k # b)) (append_blobs blobs) = Ok t \<and>
    needs_keyframe since t = Ok (since < w) \<and>
    append_changes_since outp since t =
      (since < fst (last ((w, k # b) # blobs)), outp @ concat (map (tl \<circ> snd) (later since ((w, k # b) # blobs))))"
  by (rule changes_since_blobs [OF assms])

theorem client_gets_missing_frames_witness:
  "\<exists>t. res_bind (mk_tile_data 5 [90, 1]) (append_blobs [(6, [68, 2]), (7, [68]), (8, [68]), (9, [68, 3])]) = Ok t \<and>
    needs_keyframe 5 t = Ok False \<and> append_changes_since [] 5 t = (True, [2, 3])"
proof -
  have "deltas_after 5 [(6, [68, 2]), (7, [68]), (8, [68]), (9, [68, 3])]" by (simp add: deltas_after_def is_keyframe_def)
  moreover have "is_keyframe [90, 1]" by (simp add: is_keyframe_def)
  ultimately show ?thesis
    using client_gets_missing_frames [of 5 "[(6, [68, 2]), (7, [68]), (8, [68]), (9, [68, 3])]" 90 "[1]" 5 "[]"] by simp
qed

text \<open>A cached PNG is not recognized as one: the first byte, which \<open>isPng\<close> looks for, is
  dropped when the blob is appended, and only a payload whose second byte is 0x89 too is taken for one.\<close>

theorem png_not_recognized:
  "mk_tile_data w (0x89 # b) = Ok \<lparr>ti_wids = [w], ti_offsets = [0], ti_deltas = b, ti_valid = True\<rparr> \<and>
    is_png \<lparr>ti_wids = [w], ti_offsets = [0], ti_deltas = b, ti_valid = True\<rparr> = (length b > 1 \<and> b ! 0 = 0x89)"
  by (simp add: mk_tile_data_def append_blob_def is_keyframe_def Let_def is_png_def)

end
