(* ===== verification/Messages.thy ===== *)
theory Messages
  imports TileWire
begin

text \<open>
  \<open>Message\<close> of src/common/Message.hpp, the payload sent and received, and \<open>SenderQueue\<close> of
  src/wsd/SenderQueue.hpp, the queue of messages of a session, which drops a queued message that
  the new one makes obsolete. The identifiers of messages, made from a counter for the log only,
  are left out. The JSON parser is a parameter, from a text to the view id in it.
\<close>

section \<open>Messages\<close>

datatype message_type = Text | JSON | Binary

record message =
  me_forwardToken :: string
  me_data :: string
  me_tokens :: string_vector
  me_firstLine :: string
  me_type :: message_type
  me_hash :: wire_id

definition get_forward_token :: "string \<Rightarrow> string" where
  "get_forward_token p = (let fwd = get_first_token p (CHR '' '') in if find_char (CHR ''-'') fwd \<noteq> None then fwd else [])"

definition copy_data_after_offset :: "string \<Rightarrow> nat \<Rightarrow> string" where
  "copy_data_after_offset p from = (if from \<ge> length p then [] else dropWhile (\<lambda>c. c = CHR '' '') (drop from p))"

definition detect_type :: "string_vector \<Rightarrow> string \<Rightarrow> message_type" where
  "detect_type tokens dat =
    (if sv_equals tokens 0 ''tile:'' \<or> sv_equals tokens 0 ''tilecombine:'' \<or> sv_equals tokens 0 ''delta:'' \<or>
        sv_equals tokens 0 ''renderfont:'' \<or> sv_equals tokens 0 ''rendersearchresult:'' \<or>
        sv_equals tokens 0 ''slidelayer:'' \<or> sv_equals tokens 0 ''windowpaint:'' \<or> sv_equals tokens 0 ''urp:''
     then Binary
     else if dat \<noteq> [] \<and> (last dat = CHR ''}'' \<or> last dat = CHR '']'') then JSON
     else Text)"

definition mk_message :: "string \<Rightarrow> message" where
  "mk_message p =
    (let fwd = get_forward_token p;
         dat = copy_data_after_offset p (length fwd);
         tokens = tokenize dat (CHR '' '')
     in \<lparr>me_forwardToken = fwd, me_data = dat, me_tokens = tokens, me_firstLine = [],
       me_type = detect_type tokens dat, me_hash = 0\<rparr>)"

definition me_size :: "message \<Rightarrow> nat" where "me_size m = length (me_data m)"

definition message_first_token :: "message \<Rightarrow> string" where
  "message_first_token m = sv_nth (me_tokens m) 0"

definition first_token_matches :: "string \<Rightarrow> message \<Rightarrow> bool" where
  "first_token_matches target m = sv_equals (me_tokens m) 0 target"

definition me_set_hash :: "wire_id \<Rightarrow> message \<Rightarrow> message" where
  "me_set_hash h m = m\<lparr>me_hash := h\<rparr>"

definition me_contains :: "string \<Rightarrow> message \<Rightarrow> bool" where
  "me_contains sub m = has_sub sub (me_data m)"

text \<open>The first line, found once and kept\<close>

definition assign_first_line_if_empty :: "message \<Rightarrow> message" where
  "assign_first_line_if_empty m = (if me_firstLine m = [] then m\<lparr>me_firstLine := get_first_line (me_data m)\<rparr> else m)"

definition message_first_line :: "message \<Rightarrow> string" where
  "message_first_line m = me_firstLine (assign_first_line_if_empty m)"

definition me_token_integer :: "string \<Rightarrow> int \<Rightarrow> message \<Rightarrow> bool \<times> int" where
  "me_token_integer name v m = get_token_integer_in (sv_texts (me_tokens m)) name v"

definition json_string :: "message \<Rightarrow> string" where
  "json_string m =
    (if sv_size (me_tokens m) > 1 \<and> length (sv_nth (me_tokens m) 1) \<ge> 1 \<and>
        (sv_nth (me_tokens m) 1 ! 0 = CHR ''{'' \<or> sv_nth (me_tokens m) 1 ! 0 = CHR ''['')
     then drop (length (sv_nth (me_tokens m) 0)) (me_data m) else [])"

definition me_append :: "string \<Rightarrow> message \<Rightarrow> message" where
  "me_append p m = m\<lparr>me_data := me_data m @ p\<rparr>"

definition is_binary :: "message \<Rightarrow> bool" where
  "is_binary m \<longleftrightarrow> me_type m = Binary"

text \<open>\<open>func\<close> gives whether it changed the data, and the data\<close>

definition rewrite_data_body :: "(string \<Rightarrow> bool \<times> string) \<Rightarrow> message \<Rightarrow> message res" where
  "rewrite_data_body func m =
    (let m1 = assign_first_line_if_empty m
     in case func (me_data m1) of (changed, dat) \<Rightarrow>
       if changed \<and> \<not> (me_firstLine m1 = get_first_line dat \<and> me_type m1 = detect_type (me_tokens m1) dat)
       then Err AssertionFailed else Ok (m1\<lparr>me_data := dat\<rparr>))"

section \<open>The queue of a session\<close>

text \<open>\<open>std::find_if\<close> with a condition that may throw, and \<open>erase\<close> of what it found\<close>

fun erase_first_res :: "('a \<Rightarrow> bool res) \<Rightarrow> 'a list \<Rightarrow> 'a list res" where
  "erase_first_res p [] = Ok []"
| "erase_first_res p (x # xs) =
    res_bind (p x) (\<lambda>b. if b then Ok xs else res_bind (erase_first_res p xs) (\<lambda>ys. Ok (x # ys)))"

definition setvalue_tag :: string where
  "setvalue_tag = [CHR 0x22] @ ''id'' @ [CHR 0x22] @ '':'' @ [CHR 0x22] @ ''setvalue'' @ [CHR 0x22]"

definition same_tile_message :: "tile_desc \<Rightarrow> wire_id \<Rightarrow> message \<Rightarrow> bool res" where
  "same_tile_message newTile hash cur =
    (if \<not> first_token_matches ''tile:'' cur then Ok False
     else if hash \<noteq> me_hash cur then Ok False
     else res_bind (parse_tile (message_first_line cur)) (\<lambda>t. Ok (tile_eq newTile t)))"

text \<open>
  \<open>deduplicate\<close>: the queue without the message the new one replaces, and the new one, with its
  hash set. \<open>view_of\<close> is the view id the JSON parser finds, or its exception.
\<close>

definition deduplicate :: "(string \<Rightarrow> string res) \<Rightarrow> message \<Rightarrow> message list \<Rightarrow> (message \<times> message list) res" where
  "deduplicate view_of item q =
    (let command = message_first_token item
     in if command = ''tile:'' then
          res_bind (parse_tile (message_first_line item)) (\<lambda>newTile.
            let hash = equality_hash newTile; item' = me_set_hash hash (assign_first_line_if_empty item)
            in res_bind (erase_first_res (same_tile_message newTile hash) q) (\<lambda>q'. Ok (item', q')))
        else if command = ''invalidatecursor:'' \<or> command = ''setpart:'' then
          res_bind (erase_first_res (\<lambda>cur. Ok (first_token_matches command cur)) q) (\<lambda>q'. Ok (item, q'))
        else if command = ''progress:'' then
          (if me_contains setvalue_tag item
           then res_bind (erase_first_res (\<lambda>cur. Ok (first_token_matches command cur \<and> me_contains setvalue_tag cur)) q)
             (\<lambda>q'. Ok (item, q'))
           else Ok (item, q))
        else if command = ''invalidateviewcursor:'' then
          res_bind (view_of (json_string item)) (\<lambda>viewId.
            res_bind (erase_first_res (\<lambda>cur.
                if first_token_matches command cur then res_bind (view_of (json_string cur)) (\<lambda>v. Ok (viewId = v)) else Ok False) q)
              (\<lambda>q'. Ok (item, q')))
        else Ok (item, q))"

text \<open>\<open>enqueue\<close>, with the flag that the process is ending\<close>

definition sq_enqueue :: "(string \<Rightarrow> string res) \<Rightarrow> bool \<Rightarrow> message \<Rightarrow> message list \<Rightarrow> (message list \<times> nat) res" where
  "sq_enqueue view_of terminating item q =
    (if terminating then Ok (q, length q)
     else res_bind (deduplicate view_of item q) (\<lambda>(item', q'). Ok (q' @ [item'], length (q' @ [item']))))"

definition sq_dequeue :: "bool \<Rightarrow> message list \<Rightarrow> message option \<times> message list" where
  "sq_dequeue terminating q =
    (if terminating then (None, q) else case q of [] \<Rightarrow> (None, q) | m # ms \<Rightarrow> (Some m, ms))"

end
