(* ===== verification/ClientTiles.thy ===== *)
theory ClientTiles
  imports TileCaches Messages
begin

text \<open>
  The tiles of a client session: \<open>ClientDeltaTracker\<close> of src/wsd/TileCache.hpp, which remembers
  the wire id of what was sent of each tile, and of src/wsd/ClientSession.hpp and
  src/wsd/ClientSession.cpp the sending of tiles, the count of those on their way, the visible
  area with its panes, and the messages that change them.

  A session is the record of the fields these parts use. What a session takes from outside, the
  clock, the flag that the process is ending and the view id that the JSON parser finds in a text,
  is an argument.
\<close>

section \<open>The tracker\<close>

type_synonym tracker = "tile_desc list"

definition last_sent :: "tile_desc \<Rightarrow> tracker \<Rightarrow> wire_id option" where
  "last_sent desc tr = map_option td_wireId (find (\<lambda>t. cache_eq t desc) tr)"

definition update_tile_seq :: "tile_desc \<Rightarrow> tracker \<Rightarrow> wire_id \<times> tracker" where
  "update_tile_seq desc tr =
    (case last_sent desc tr of
       None \<Rightarrow> (0, tr @ [desc])
     | Some w \<Rightarrow> (w, map (\<lambda>t. if cache_eq t desc then t\<lparr>td_wireId := td_wireId desc\<rparr> else t) tr))"

definition reset_tile_seq :: "tile_desc \<Rightarrow> tracker \<Rightarrow> tracker" where
  "reset_tile_seq desc tr = map (\<lambda>t. if cache_eq t desc then t\<lparr>td_wireId := 0\<rparr> else t) tr"

section \<open>The session\<close>

record client_session =
  cs_senderQueue :: "message list"
  cs_requestedTiles :: "tile_desc list"
  cs_tilesOnFly :: "(wire_id \<times> int) list"
  cs_tracker :: tracker
  cs_clientVisibleArea :: rectangle
  cs_splitX :: int
  cs_splitY :: int
  cs_clientSelectedPart :: int
  cs_clientSelectedMode :: int
  cs_tileWidthPixel :: int
  cs_tileHeightPixel :: int
  cs_tileWidthTwips :: int
  cs_tileHeightTwips :: int
  cs_canonicalViewId :: int
  cs_isTextDocument :: bool
  cs_isCloseFrame :: bool

definition mk_client_session :: client_session where
  "mk_client_session = \<lparr>cs_senderQueue = [], cs_requestedTiles = [], cs_tilesOnFly = [], cs_tracker = [],
    cs_clientVisibleArea = rect_of_extent 0 0 0 0, cs_splitX = 0, cs_splitY = 0, cs_clientSelectedPart = -1,
    cs_clientSelectedMode = 0, cs_tileWidthPixel = 0, cs_tileHeightPixel = 0, cs_tileWidthTwips = 0, cs_tileHeightTwips = 0,
    cs_canonicalViewId = view_none, cs_isTextDocument = False, cs_isCloseFrame = False\<rparr>"

record send_env =
  en_now :: int
  en_terminating :: bool
  en_view_of :: "string \<Rightarrow> string res"

section \<open>Sending\<close>

definition add_tile_on_fly :: "int \<Rightarrow> wire_id \<Rightarrow> client_session \<Rightarrow> client_session" where
  "add_tile_on_fly now wireId s = s\<lparr>cs_tilesOnFly := cs_tilesOnFly s @ [(wireId, now)]\<rparr>"

definition enqueue_send_message :: "send_env \<Rightarrow> message \<Rightarrow> client_session \<Rightarrow> client_session res" where
  "enqueue_send_message en m s =
    (if cs_isCloseFrame s then Ok s
     else
       let isTile = first_token_matches ''tile:'' m \<or> first_token_matches ''delta:'' m;
           m' = (if isTile then assign_first_line_if_empty m else m)
       in res_bind (if isTile then res_bind (parse_tile (message_first_line m')) (\<lambda>t. Ok (td_wireId t)) else Ok 0) (\<lambda>wireId.
          let sizeBefore = length (cs_senderQueue s)
          in res_bind (sq_enqueue (en_view_of en) (en_terminating en) m' (cs_senderQueue s)) (\<lambda>(q, newSize).
            let s' = s\<lparr>cs_senderQueue := q\<rparr>
            in Ok (if isTile \<and> sizeBefore \<noteq> newSize then add_tile_on_fly (en_now en) wireId s' else s'))))"

definition send_binary_frame :: "send_env \<Rightarrow> string \<Rightarrow> client_session \<Rightarrow> (bool \<times> client_session) res" where
  "send_binary_frame en buffer s =
    (if \<not> cs_isCloseFrame s then res_bind (enqueue_send_message en (mk_message buffer) s) (\<lambda>s'. Ok (True, s'))
     else Ok (False, s))"

definition send_text_frame :: "send_env \<Rightarrow> string \<Rightarrow> client_session \<Rightarrow> (bool \<times> client_session) res" where
  "send_text_frame en buffer s =
    (if \<not> cs_isCloseFrame s then res_bind (enqueue_send_message en (mk_message buffer) s) (\<lambda>s'. Ok (True, s'))
     else Ok (False, s))"

definition cs_reset_tile_seq :: "tile_desc \<Rightarrow> client_session \<Rightarrow> client_session" where
  "cs_reset_tile_seq desc s = s\<lparr>cs_tracker := reset_tile_seq desc (cs_tracker s)\<rparr>"

definition send_update_now :: "send_env \<Rightarrow> tile_desc \<Rightarrow> client_session \<Rightarrow> (bool \<times> client_session) res" where
  "send_update_now en desc s =
    (case update_tile_seq desc (cs_tracker s) of (lastSentId, tr) \<Rightarrow>
       send_text_frame en (serialize desc ''update:'' [newline]) (s\<lparr>cs_tracker := tr\<rparr>))"

text \<open>Bytes as characters and back\<close>

definition chars :: "byte list \<Rightarrow> string" where "chars bs = map (\<lambda>b. char_of (unat b)) bs"
definition bytes :: "string \<Rightarrow> byte list" where "bytes s = map of_char s"

text \<open>The message \<open>sendTileNow\<close> makes: a header and the changes since what was last sent\<close>

definition tile_message :: "tile_desc \<Rightarrow> tile_data \<Rightarrow> wire_id \<Rightarrow> string res" where
  "tile_message desc tile lastSentId =
    res_bind (needs_keyframe lastSentId tile) (\<lambda>needed.
      let header = serialize desc (if needed \<or> is_png tile then ''tile:'' else ''delta:'') [newline]
      in case append_changes_since (bytes header) (if is_png tile then 0 else lastSentId) tile of
        (hasContent, outp) \<Rightarrow> Ok (chars outp))"

definition send_tile_now :: "send_env \<Rightarrow> tile_desc \<Rightarrow> tile_data \<Rightarrow> client_session \<Rightarrow> (bool \<times> client_session) res" where
  "send_tile_now en desc tile s =
    (case update_tile_seq desc (cs_tracker s) of (lastSentId, tr) \<Rightarrow>
       res_bind (tile_message desc tile lastSentId) (\<lambda>buffer.
         send_binary_frame en buffer (s\<lparr>cs_tracker := tr\<rparr>)))"

definition send_blob :: "send_env \<Rightarrow> string \<Rightarrow> byte list \<Rightarrow> client_session \<Rightarrow> (bool \<times> client_session) res" where
  "send_blob en header blob s = send_binary_frame en (header @ chars blob) s"

section \<open>Tiles on their way\<close>

definition on_tile_processed :: "wire_id \<Rightarrow> client_session \<Rightarrow> client_session" where
  "on_tile_processed wireId s = s\<lparr>cs_tilesOnFly := erase_first (\<lambda>p. fst p = wireId) (cs_tilesOnFly s)\<rparr>"

definition tile_roundtrip_timeout_ms :: int where "tile_roundtrip_timeout_ms = 10000"

text \<open>\<open>(int)(0.9 * TILE_ROUNDTRIP_TIMEOUT_MS)\<close>\<close>

definition low_timeout_ms :: int where "low_timeout_ms = 9000"

fun drop_outdated :: "int \<Rightarrow> nat \<Rightarrow> (wire_id \<times> int) list \<Rightarrow> (wire_id \<times> int) list" where
  "drop_outdated now dropped [] = []"
| "drop_outdated now dropped ((w, t) # ts) =
    (let elapsed = cdiv (now - t) 1000000
     in if elapsed > tile_roundtrip_timeout_ms \<or> (dropped > 0 \<and> elapsed > low_timeout_ms)
        then drop_outdated now (dropped + 1) ts else (w, t) # ts)"

definition remove_outdated_tiles_on_fly :: "int \<Rightarrow> client_session \<Rightarrow> client_session" where
  "remove_outdated_tiles_on_fly now s = s\<lparr>cs_tilesOnFly := drop_outdated now 0 (cs_tilesOnFly s)\<rparr>"

definition get_tiles_on_fly_count :: "client_session \<Rightarrow> nat" where
  "get_tiles_on_fly_count s = length (cs_tilesOnFly s)"

definition get_normalized_visible_area :: "client_session \<Rightarrow> rectangle" where
  "get_normalized_visible_area s =
    (let r = cs_clientVisibleArea s in rect_create (max (rx1 r) 0) (max (ry1 r) 0) (rx2 r) (ry2 r))"

text \<open>
  A 32-bit floating point number that is not negative is a pair of a mantissa below 2 ^ 24 and an
  exponent. Rounding is to the nearest, to even on a tie; the constant 1.1 is 9227469 / 2 ^ 23.
\<close>

fun bit_len :: "nat \<Rightarrow> nat" where
  "bit_len n = (if n = 0 then 0 else Suc (bit_len (n div 2)))"

declare bit_len.simps [simp del]

definition f32_round :: "nat \<Rightarrow> int \<Rightarrow> nat \<times> int" where
  "f32_round m e =
    (let k = bit_len m - 24; q = m div 2 ^ k; r = m mod 2 ^ k
     in if k = 0 then (m, e)
        else if 2 * r > 2 ^ k \<or> (2 * r = 2 ^ k \<and> odd q) then (q + 1, e + int k) else (q, e + int k))"

definition f32_mult :: "nat \<times> int \<Rightarrow> nat \<times> int \<Rightarrow> nat \<times> int" where
  "f32_mult a b = f32_round (fst a * fst b) (snd a + snd b)"

definition f32_trunc :: "nat \<times> int \<Rightarrow> nat" where
  "f32_trunc a = (if snd a \<ge> 0 then fst a * 2 ^ nat (snd a) else fst a div 2 ^ nat (- snd a))"

definition f32_1_1 :: "nat \<times> int" where "f32_1_1 = (9227469, -23)"

definition tiles_on_fly_min_upper_limit :: nat where "tiles_on_fly_min_upper_limit = 10"

text \<open>A number of tiles that is not positive, from an overflow, gives the least limit.\<close>

definition tiles_limit :: "int \<Rightarrow> nat" where
  "tiles_limit tilesInVisArea =
    max tiles_on_fly_min_upper_limit (f32_trunc (f32_mult (f32_round (nat tilesInVisArea) 0) f32_1_1))"

definition get_tiles_on_fly_upper_limit :: "client_session \<Rightarrow> nat" where
  "get_tiles_on_fly_upper_limit s =
    (let a = get_normalized_visible_area s; tw = cs_tileWidthTwips s; th = cs_tileHeightTwips s
     in if rect_has_surface a \<and> tw \<noteq> 0 \<and> th \<noteq> 0 then
          let w = s32 (cdiv (rx2 a) tw - cdiv (rx1 a) tw + 1);
              h = s32 (cdiv (ry2 a) th - cdiv (ry1 a) th + 1)
          in tiles_limit (s32 (w * h))
        else 200)"

section \<open>Panes\<close>

datatype split_pane_name = TOPLEFT_PANE | TOPRIGHT_PANE | BOTTOMLEFT_PANE | BOTTOMRIGHT_PANE

fun is_split_pane :: "client_session \<Rightarrow> split_pane_name \<Rightarrow> bool" where
  "is_split_pane s BOTTOMRIGHT_PANE = True"
| "is_split_pane s TOPLEFT_PANE = (cs_splitX s \<noteq> 0 \<and> cs_splitY s \<noteq> 0)"
| "is_split_pane s TOPRIGHT_PANE = (cs_splitY s \<noteq> 0)"
| "is_split_pane s BOTTOMLEFT_PANE = (cs_splitX s \<noteq> 0)"

definition get_normalized_visible_pane_area :: "client_session \<Rightarrow> split_pane_name \<Rightarrow> rectangle" where
  "get_normalized_visible_pane_area s pane =
    (let a = get_normalized_visible_area s; sx = cs_splitX s; sy = cs_splitY s
     in if sx = 0 \<and> sy = 0 then (if pane = BOTTOMRIGHT_PANE then a else rect_empty)
        else
          let freeStartX = s32 (rx1 a + sx); freeStartY = s32 (ry1 a + sy);
              freeWidth = s32 (rect_width a - sx); freeHeight = s32 (rect_height a - sy)
          in case pane of
            BOTTOMRIGHT_PANE \<Rightarrow> rect_of_extent freeStartX freeStartY freeWidth freeHeight
          | TOPLEFT_PANE \<Rightarrow> if sx \<noteq> 0 \<and> sy \<noteq> 0 then rect_of_extent 0 0 sx sy else rect_empty
          | TOPRIGHT_PANE \<Rightarrow> if sy \<noteq> 0 then rect_of_extent freeStartX 0 freeWidth sy else rect_empty
          | BOTTOMLEFT_PANE \<Rightarrow> if sx \<noteq> 0 then rect_of_extent 0 freeStartY sx freeHeight else rect_empty)"

definition all_panes :: "split_pane_name list" where
  "all_panes = [TOPLEFT_PANE, TOPRIGHT_PANE, BOTTOMLEFT_PANE, BOTTOMRIGHT_PANE]"

definition is_tile_inside_visible_area :: "client_session \<Rightarrow> tile_desc \<Rightarrow> bool" where
  "is_tile_inside_visible_area s tile =
    (if cs_splitX s = 0 \<and> cs_splitY s = 0 then rect_intersects (to_aabbox tile) (cs_clientVisibleArea s)
     else list_ex (\<lambda>p. is_split_pane s p \<and> rect_intersects (to_aabbox tile) (get_normalized_visible_pane_area s p)) all_panes)"

section \<open>Messages of the client\<close>

text \<open>
  The branches of \<open>_handleInput\<close> that change this state. The first component says whether the
  message is forwarded to the kit.
\<close>

definition handle_client_visible_area :: "string_vector \<Rightarrow> client_session \<Rightarrow> bool \<times> client_session" where
  "handle_client_visible_area tokens s =
    (case (get_token_integer (sv_nth tokens 1) ''x'' 0, get_token_integer (sv_nth tokens 2) ''y'' 0,
           get_token_integer (sv_nth tokens 3) ''width'' 0, get_token_integer (sv_nth tokens 4) ''height'' 0) of
       ((okx, x), (oky, y), (okw, width), (okh, height)) \<Rightarrow>
         if (sv_size tokens \<noteq> 5 \<and> sv_size tokens \<noteq> 7) \<or> \<not> okx \<or> \<not> oky \<or> \<not> okw \<or> \<not> okh then (False, s)
         else
           let area = rect_of_extent x y (max width 0) (max height 0)
           in if sv_size tokens = 7 then
                (case (get_token_integer (sv_nth tokens 5) ''splitx'' 0, get_token_integer (sv_nth tokens 6) ''splity'' 0) of
                   ((oksx, sx), (oksy, sy)) \<Rightarrow>
                     if \<not> oksx \<or> \<not> oksy then (False, s)
                     else (True, s\<lparr>cs_splitX := sx, cs_splitY := sy, cs_clientVisibleArea := area\<rparr>))
              else (True, s\<lparr>cs_clientVisibleArea := area\<rparr>))"

definition handle_set_client_part :: "string_vector \<Rightarrow> client_session \<Rightarrow> bool \<times> client_session" where
  "handle_set_client_part tokens s =
    (if \<not> cs_isTextDocument s then
       (case get_token_integer (sv_nth tokens 1) ''part'' 0 of (ok, p) \<Rightarrow>
          if sv_size tokens \<noteq> 2 \<or> \<not> ok then (False, s) else (True, s\<lparr>cs_clientSelectedPart := p\<rparr>))
     else (False, s))"

definition handle_client_zoom :: "string_vector \<Rightarrow> client_session \<Rightarrow> bool \<times> client_session" where
  "handle_client_zoom tokens s =
    (case (get_token_integer (sv_nth tokens 1) ''tilepixelwidth'' 0, get_token_integer (sv_nth tokens 2) ''tilepixelheight'' 0,
           get_token_integer (sv_nth tokens 3) ''tiletwipwidth'' 0, get_token_integer (sv_nth tokens 4) ''tiletwipheight'' 0) of
       ((ok1, pw), (ok2, ph), (ok3, tw), (ok4, th)) \<Rightarrow>
         if sv_size tokens < 5 \<or> \<not> ok1 \<or> \<not> ok2 \<or> \<not> ok3 \<or> \<not> ok4 then (False, s)
         else (True, s\<lparr>cs_tileWidthPixel := pw, cs_tileHeightPixel := ph, cs_tileWidthTwips := tw, cs_tileHeightTwips := th\<rparr>))"

text \<open>\<open>tileprocessed\<close>: each wire id of the list is taken off; the requested tiles are sent after it\<close>

definition handle_tile_processed :: "string_vector \<Rightarrow> client_session \<Rightarrow> bool \<times> client_session" where
  "handle_tile_processed tokens s =
    (case get_token_string (sv_nth tokens 1) ''wids'' [] of (ok, wids) \<Rightarrow>
       if sv_size tokens \<noteq> 2 \<or> \<not> ok then (False, s)
       else (True, tokenize_foreach
         (\<lambda>i token s. (False, on_tile_processed (to_u32 (fst (i32_from_string token))) s)) wids (CHR '','') s))"

text \<open>\<open>setpart:\<close> from the kit\<close>

definition handle_set_part :: "string_vector \<Rightarrow> client_session \<Rightarrow> bool \<times> client_session" where
  "handle_set_part tokens s =
    (if cs_isTextDocument s then (True, s)
     else case get_token_integer (sv_nth tokens 1) ''part'' 0 of (ok, p) \<Rightarrow>
       if ok then (True, s\<lparr>cs_clientSelectedPart := p\<rparr>)
       else case string_to_integer (sv_nth tokens 1) of (q, ok') \<Rightarrow>
         if ok' then (True, s\<lparr>cs_clientSelectedPart := q\<rparr>) else (False, s))"

end
