(* ===== verification/MessageQueues.thy ===== *)
theory MessageQueues
  imports Messages
begin

text \<open>
  The sender queue, abstractly: some messages have a key, such as the tile they carry or the view
  whose cursor they move, and the queue holds at most one message for each key, the latest. The
  queue of the code refines it: enqueueing removes the message with the key of the new one and
  appends.
\<close>

section \<open>Keys\<close>

datatype message_key = TileKey tile_key | CommandKey string | ProgressKey | ViewKey string

definition message_key :: "(string \<Rightarrow> string res) \<Rightarrow> message \<Rightarrow> message_key option" where
  "message_key view_of m =
    (let command = message_first_token m
     in if command = ''tile:'' then (case parse_tile (message_first_line m) of Ok t \<Rightarrow> Some (TileKey (tile_key t)) | Err e \<Rightarrow> None)
        else if command = ''invalidatecursor:'' \<or> command = ''setpart:'' then Some (CommandKey command)
        else if command = ''progress:'' then (if me_contains setvalue_tag m then Some ProgressKey else None)
        else if command = ''invalidateviewcursor:'' then
          (case view_of (json_string m) of Ok v \<Rightarrow> Some (ViewKey v) | Err e \<Rightarrow> None)
        else None)"

definition replaces :: "(string \<Rightarrow> string res) \<Rightarrow> message \<Rightarrow> message \<Rightarrow> bool" where
  "replaces view_of m c \<longleftrightarrow> message_key view_of m \<noteq> None \<and> message_key view_of m = message_key view_of c"

text \<open>A message the queue can take: a tile with a descriptor, a view cursor with a view\<close>

definition message_ok :: "(string \<Rightarrow> string res) \<Rightarrow> message \<Rightarrow> bool" where
  "message_ok view_of m \<longleftrightarrow> sv_wf (me_tokens m) \<and>
    (message_first_token m = ''tile:'' \<longrightarrow> (\<exists>t. parse_tile (message_first_line m) = Ok t)) \<and>
    (message_first_token m = ''invalidateviewcursor:'' \<longrightarrow> (\<exists>v. view_of (json_string m) = Ok v))"

definition queued_ok :: "(string \<Rightarrow> string res) \<Rightarrow> message \<Rightarrow> bool" where
  "queued_ok view_of m \<longleftrightarrow> message_ok view_of m \<and>
    (\<forall>t. message_first_token m = ''tile:'' \<longrightarrow> parse_tile (message_first_line m) = Ok t \<longrightarrow> me_hash m = equality_hash t)"

definition queue_ok :: "(string \<Rightarrow> string res) \<Rightarrow> message list \<Rightarrow> bool" where
  "queue_ok view_of q \<longleftrightarrow> (\<forall>m \<in> set q. queued_ok view_of m) \<and> sorted_wrt (\<lambda>a b. \<not> replaces view_of b a) q"

section \<open>Lemmas\<close>

lemma first_token_matches_eq:
  "sv_wf (me_tokens m) \<Longrightarrow> cmd \<noteq> [] \<Longrightarrow> first_token_matches cmd m \<longleftrightarrow> message_first_token m = cmd"
  by (auto simp: first_token_matches_def message_first_token_def sv_equals_texts sv_nth_texts)

lemma erase_first_res_filter:
  assumes "\<forall>x \<in> set q. p x = Ok (P x)" "sorted_wrt (\<lambda>a b. \<not> (P a \<and> P b)) q"
  shows "erase_first_res p q = Ok (filter (\<lambda>x. \<not> P x) q)"
  using assms
proof (induction q)
  case (Cons x q)
  show ?case
  proof (cases "P x")
    case True
    then have "filter (\<lambda>x. \<not> P x) q = q" using Cons.prems(2) by (intro filter_True) auto
    then show ?thesis using True Cons.prems by simp
  next
    case False
    then show ?thesis using Cons by simp
  qed
qed simp

lemma message_first_line_assign [simp]:
  "message_first_line (assign_first_line_if_empty m) = message_first_line m"
  by (simp add: message_first_line_def assign_first_line_if_empty_def)

lemma assign_first_line_fields [simp]:
  "me_tokens (assign_first_line_if_empty m) = me_tokens m" "me_data (assign_first_line_if_empty m) = me_data m"
  by (simp_all add: assign_first_line_if_empty_def)

lemma set_hash_fields [simp]:
  "me_tokens (me_set_hash h m) = me_tokens m" "me_data (me_set_hash h m) = me_data m" "me_hash (me_set_hash h m) = h"
  "message_first_line (me_set_hash h m) = message_first_line m"
  by (simp_all add: me_set_hash_def message_first_line_def assign_first_line_if_empty_def)

text \<open>The message as it is queued: a tile gets the hash of its descriptor\<close>

definition hashed :: "message \<Rightarrow> message" where
  "hashed m =
    (if message_first_token m = ''tile:'' then
       (case parse_tile (message_first_line m) of
          Ok t \<Rightarrow> me_set_hash (equality_hash t) (assign_first_line_if_empty m)
        | Err e \<Rightarrow> m)
     else m)"

lemma hashed_fields [simp]:
  "me_tokens (hashed m) = me_tokens m" "me_data (hashed m) = me_data m"
  "message_first_line (hashed m) = message_first_line m"
  by (simp_all add: hashed_def split: sum.split)

lemma hashed_derived [simp]:
  "message_first_token (hashed m) = message_first_token m" "json_string (hashed m) = json_string m"
  "me_contains s (hashed m) = me_contains s m"
  unfolding message_first_token_def json_string_def me_contains_def hashed_fields by (rule refl)+

lemma hashed_key [simp]: "message_key view_of (hashed m) = message_key view_of m"
  unfolding message_key_def hashed_derived hashed_fields by (rule refl)

lemma queued_ok_hashed: "message_ok view_of m \<Longrightarrow> queued_ok view_of (hashed m)"
proof -
  assume ok: "message_ok view_of m"
  then have "message_ok view_of (hashed m)" unfolding message_ok_def hashed_fields hashed_derived .
  moreover have "me_hash (hashed m) = equality_hash t"
    if "message_first_token m = ''tile:''" "parse_tile (message_first_line m) = Ok t" for t
    using that by (simp add: hashed_def)
  ultimately show ?thesis unfolding queued_ok_def hashed_fields hashed_derived by blast
qed

lemma replaces_hashed [simp]:
  "replaces view_of (hashed m) c = replaces view_of m c" "replaces view_of m (hashed c) = replaces view_of m c"
  by (simp_all add: replaces_def)

text \<open>No two of the queue are replaced by the same message.\<close>

lemma one_replaced: "queue_ok view_of q \<Longrightarrow> sorted_wrt (\<lambda>a b. \<not> (replaces view_of m a \<and> replaces view_of m b)) q"
  unfolding queue_ok_def by (elim conjE, erule sorted_wrt_mono_rel [rotated]) (auto simp: replaces_def)

lemma same_tile_message_key:
  assumes "queued_ok view_of c" "message_first_token m = ''tile:''" "parse_tile (message_first_line m) = Ok t"
  shows "same_tile_message t (equality_hash t) c = Ok (replaces view_of m c)"
proof (cases "message_first_token c = ''tile:''")
  case True
  have wf: "sv_wf (me_tokens c)" using assms(1) by (simp add: queued_ok_def message_ok_def)
  obtain u where u: "parse_tile (message_first_line c) = Ok u" "me_hash c = equality_hash u"
    using assms(1) True by (auto simp: queued_ok_def message_ok_def)
  have "replaces view_of m c \<longleftrightarrow> tile_eq t u"
    using assms(2,3) True u by (simp add: replaces_def message_key_def tile_eq_key)
  then show ?thesis
    using True wf u equality_hash_eq [of t u] by (auto simp: same_tile_message_def first_token_matches_eq)
next
  case False
  have wf: "sv_wf (me_tokens c)" using assms(1) by (simp add: queued_ok_def message_ok_def)
  have "\<not> replaces view_of m c"
    using assms(2,3) False by (auto simp: replaces_def message_key_def Let_def split: sum.split)
  then show ?thesis using False wf by (simp add: same_tile_message_def first_token_matches_eq)
qed

lemma erase_replaced:
  assumes "queue_ok view_of q" "\<forall>c \<in> set q. p c = Ok (replaces view_of m c)"
  shows "erase_first_res p q = Ok (filter (\<lambda>c. \<not> replaces view_of m c) q)"
  using assms(2) one_replaced [OF assms(1)] by (rule erase_first_res_filter)

lemma message_key_command:
  assumes "message_key view_of m = Some k"
  shows "(case k of TileKey _ \<Rightarrow> message_first_token m = ''tile:''
    | CommandKey c \<Rightarrow> message_first_token m = c \<and> c \<in> {''invalidatecursor:'', ''setpart:''}
    | ProgressKey \<Rightarrow> message_first_token m = ''progress:'' \<and> me_contains setvalue_tag m
    | ViewKey v \<Rightarrow> message_first_token m = ''invalidateviewcursor:'' \<and> view_of (json_string m) = Ok v)"
  using assms by (auto simp: message_key_def Let_def split: if_splits sum.splits)

lemma deduplicate_replaces:
  assumes "queue_ok view_of q" "message_ok view_of m"
  shows "deduplicate view_of m q = Ok (hashed m, filter (\<lambda>c. \<not> replaces view_of m c) q)"
proof -
  have wf: "sv_wf (me_tokens c)" if "c \<in> set q" for c
    using assms(1) that by (simp add: queue_ok_def queued_ok_def message_ok_def)
  note e = erase_replaced [OF assms(1), where m = m]
  consider (tile) "message_first_token m = ''tile:''"
    | (command) "message_first_token m = ''invalidatecursor:'' \<or> message_first_token m = ''setpart:''"
    | (progress) "message_first_token m = ''progress:''" "me_contains setvalue_tag m"
    | (view) "message_first_token m = ''invalidateviewcursor:''"
    | (other) "message_key view_of m = None" "message_first_token m \<notin> {''tile:'', ''invalidatecursor:'', ''setpart:'', ''invalidateviewcursor:''}"
        "message_first_token m = ''progress:'' \<longrightarrow> \<not> me_contains setvalue_tag m"
  proof -
    show thesis
    proof (cases "message_first_token m \<in> {''tile:'', ''invalidatecursor:'', ''setpart:'', ''invalidateviewcursor:''}")
      case True
      then show thesis using tile command view by blast
    next
      case False
      then have "message_key view_of m = None" if "message_first_token m = ''progress:'' \<longrightarrow> \<not> me_contains setvalue_tag m"
        using that by (auto simp: message_key_def Let_def)
      then show thesis using False progress other by blast
    qed
  qed
  then show ?thesis
  proof cases
    case tile
    then obtain t where t: "parse_tile (message_first_line m) = Ok t" using assms(2) by (auto simp: message_ok_def)
    have "erase_first_res (same_tile_message t (equality_hash t)) q = Ok (filter (\<lambda>c. \<not> replaces view_of m c) q)"
      using assms(1) tile t by (intro e) (auto simp: queue_ok_def intro!: same_tile_message_key)
    then show ?thesis using tile t by (simp add: deduplicate_def hashed_def)
  next
    case command
    have "erase_first_res (\<lambda>cur. Ok (first_token_matches (message_first_token m) cur)) q = Ok (filter (\<lambda>c. \<not> replaces view_of m c) q)"
      using command wf by (intro e) (auto simp: first_token_matches_eq replaces_def message_key_def Let_def split: sum.split)
    then show ?thesis using command by (auto simp: deduplicate_def hashed_def)
  next
    case progress
    have "erase_first_res (\<lambda>cur. Ok (first_token_matches ''progress:'' cur \<and> me_contains setvalue_tag cur)) q =
        Ok (filter (\<lambda>c. \<not> replaces view_of m c) q)"
      using progress wf by (intro e) (auto simp: first_token_matches_eq replaces_def message_key_def Let_def split: sum.split)
    then show ?thesis using progress by (simp add: deduplicate_def hashed_def)
  next
    case view
    then obtain v where v: "view_of (json_string m) = Ok v" using assms(2) by (auto simp: message_ok_def)
    have "(if first_token_matches ''invalidateviewcursor:'' c then res_bind (view_of (json_string c)) (\<lambda>w. Ok (v = w)) else Ok False) =
        Ok (replaces view_of m c)" if c: "c \<in> set q" for c
    proof (cases "message_first_token c = ''invalidateviewcursor:''")
      case True
      then obtain w where "view_of (json_string c) = Ok w"
        using assms(1) c unfolding queue_ok_def queued_ok_def message_ok_def by blast
      then show ?thesis using True view v wf [OF c] by (simp add: first_token_matches_eq replaces_def message_key_def)
    next
      case False
      then have "\<not> replaces view_of m c"
        using view v by (auto simp: replaces_def message_key_def Let_def split: sum.split)
      then show ?thesis using False wf [OF c] by (simp add: first_token_matches_eq)
    qed
    then have "erase_first_res (\<lambda>cur. if first_token_matches ''invalidateviewcursor:'' cur
          then res_bind (view_of (json_string cur)) (\<lambda>w. Ok (v = w)) else Ok False) q =
        Ok (filter (\<lambda>c. \<not> replaces view_of m c) q)" by (intro e) blast
    then show ?thesis using view v by (simp add: deduplicate_def hashed_def)
  next
    case other
    then have "filter (\<lambda>c. \<not> replaces view_of m c) q = q" by (simp add: replaces_def)
    then show ?thesis using other by (auto simp: deduplicate_def hashed_def Let_def)
  qed
qed

section \<open>Every operation keeps the queue in order\<close>

lemma enqueue_ok:
  assumes "queue_ok view_of q" "message_ok view_of m"
  shows "sq_enqueue view_of False m q =
      Ok (filter (\<lambda>c. \<not> replaces view_of m c) q @ [hashed m], Suc (length (filter (\<lambda>c. \<not> replaces view_of m c) q)))"
    and "queue_ok view_of (filter (\<lambda>c. \<not> replaces view_of m c) q @ [hashed m])"
proof -
  show "sq_enqueue view_of False m q =
      Ok (filter (\<lambda>c. \<not> replaces view_of m c) q @ [hashed m], Suc (length (filter (\<lambda>c. \<not> replaces view_of m c) q)))"
    using deduplicate_replaces [OF assms] by (simp add: sq_enqueue_def)
  show "queue_ok view_of (filter (\<lambda>c. \<not> replaces view_of m c) q @ [hashed m])"
    using assms queued_ok_hashed [OF assms(2)]
    by (auto simp: queue_ok_def sorted_wrt_append intro: sorted_wrt_filter_imp)
qed

lemma dequeue_ok: "queue_ok view_of q \<Longrightarrow> queue_ok view_of (snd (sq_dequeue b q))"
  by (auto simp: sq_dequeue_def queue_ok_def split: list.split)

end
