(* ===== verification/ClientSends.thy ===== *)
theory ClientSends
  imports ClientTiles MessageQueues CacheInvariant
begin

text \<open>
  What sending a tile does: the tracker is a store of the wire ids sent, the message queued carries
  the descriptor and the changes, and the messages waiting in the queue, applied in order, bring the
  client's copy of the tile to the frames of the server.
\<close>

section \<open>The tracker\<close>

lemma find_map_seq:
  assumes "\<And>t. cache_key (f t) = cache_key t"
  shows "find (\<lambda>t. cache_key t = k) (map f tr) = map_option f (find (\<lambda>t. cache_key t = k) tr)"
  using assms by (induction tr) auto

lemma find_append: "find P (xs @ ys) = (case find P xs of None \<Rightarrow> find P ys | Some x \<Rightarrow> Some x)"
  by (induction xs) auto

lemma cache_key_wire_id [simp]:
  "cache_key (t\<lparr>td_wireId := w\<rparr>) = cache_key t" "cache_key (t\<lparr>td_ver := v\<rparr>) = cache_key t"
  "cache_key (t\<lparr>td_oldWireId := w\<rparr>) = cache_key t"
  by (simp_all add: cache_key_def)

lemma find_key: "find (\<lambda>t. cache_key t = k) tr = Some t \<Longrightarrow> cache_key t = k"
  by (induction tr) (auto split: if_splits)

lemma last_sent_set:
  "last_sent d (map (\<lambda>t. if cache_eq t e then t\<lparr>td_wireId := w\<rparr> else t) tr) =
    (if cache_eq e d then map_option (\<lambda>_. w) (last_sent d tr) else last_sent d tr)"
proof -
  have f: "find (\<lambda>t. cache_eq t d) (map (\<lambda>t. if cache_eq t e then t\<lparr>td_wireId := w\<rparr> else t) tr) =
      map_option (\<lambda>t. if cache_eq t e then t\<lparr>td_wireId := w\<rparr> else t) (find (\<lambda>t. cache_eq t d) tr)"
    unfolding cache_eq_key by (rule find_map_seq) simp
  show ?thesis
  proof (cases "find (\<lambda>t. cache_eq t d) tr")
    case None
    then show ?thesis unfolding last_sent_def f by simp
  next
    case (Some t)
    then have "cache_key t = cache_key d" unfolding cache_eq_key by (rule find_key)
    then have "cache_eq t e \<longleftrightarrow> cache_eq e d" by (auto simp: cache_eq_key)
    then show ?thesis using Some unfolding last_sent_def f by simp
  qed
qed

lemma last_sent_update:
  "last_sent d (snd (update_tile_seq e tr)) = (if cache_eq e d then Some (td_wireId e) else last_sent d tr)"
proof (cases "last_sent e tr")
  case None
  then have "find (\<lambda>t. cache_eq t e) tr = None" by (simp add: last_sent_def)
  moreover have "find (\<lambda>t. cache_eq t d) tr = find (\<lambda>t. cache_eq t e) tr" if "cache_eq e d" using that by (simp add: cache_eq_key)
  ultimately show ?thesis using None by (auto simp: update_tile_seq_def last_sent_def find_append split: option.splits)
next
  case (Some w)
  moreover have "last_sent d tr = last_sent e tr" if "cache_eq e d" using that by (simp add: last_sent_def cache_eq_key)
  ultimately show ?thesis by (simp add: update_tile_seq_def last_sent_set)
qed

lemma last_sent_reset:
  "last_sent d (reset_tile_seq e tr) = (if cache_eq e d then map_option (\<lambda>_. 0) (last_sent d tr) else last_sent d tr)"
  unfolding reset_tile_seq_def by (rule last_sent_set)

lemma update_tile_seq_fst: "fst (update_tile_seq e tr) = (case last_sent e tr of None \<Rightarrow> 0 | Some w \<Rightarrow> w)"
  by (simp add: update_tile_seq_def split: option.split)

interpretation seqs: keyed_store cache_eq "\<lambda>d. d" td_wireId last_sent "\<lambda>d tr. snd (update_tile_seq d tr)"
  by unfold_locales (simp_all add: cache_eq_equiv last_sent_update)

section \<open>The message of a tile\<close>

lemma chars_bytes [simp]: "chars (bytes s) = s"
proof -
  have "char_of (unat (of_char c :: 8 word)) = c" for c
  proof -
    have "(of_char c :: nat) = of_char c mod 256" using of_char_of [of "of_char c :: nat"] by simp
    then have "(of_char c :: nat) < 256" by (metis mod_less_divisor zero_less_numeral)
    then have "unat (of_char c :: 8 word) = of_char c"
      by (subst of_nat_of_char [symmetric]) (simp add: unsigned_of_nat take_bit_nat_eq_self)
    then show ?thesis by simp
  qed
  then show ?thesis by (simp add: chars_def bytes_def comp_def)
qed

lemma chars_append [simp]: "chars (xs @ ys) = chars xs @ chars ys"
  by (simp add: chars_def)

lemma bytes_chars [simp]: "bytes (chars bs) = bs"
proof -
  have "of_char (char_of (unat b) :: char) = b" for b :: "8 word"
  proof -
    have "unat b < 256" using unsigned_less [of b, where ?'a = nat] by simp
    then have "(of_char (char_of (unat b) :: char) :: nat) = unat b" by simp
    then show ?thesis using of_nat_of_char [of "char_of (unat b)", where 'a = "8 word"] by simp
  qed
  then show ?thesis by (simp add: chars_def bytes_def comp_def)
qed

lemma serialize_append: "serialize d p s = serialize d p [] @ s"
  by (simp add: serialize_words)

lemma serialize_no_newline: "plain_prefix p \<Longrightarrow> newline \<notin> set (serialize d p [])"
  using tile_words_clean by (auto simp: serialize_words plain_prefix_def)

lemma serialize_first: "\<exists>r. serialize d p s = p @ CHR '' '' # r"
  by (cases "tile_words d") (simp_all add: serialize_words tile_words_def)

text \<open>A command word, such as \<open>tile:\<close>\<close>

definition command_word :: "string \<Rightarrow> bool" where
  "command_word p \<longleftrightarrow> plain_prefix p \<and> p \<noteq> [] \<and> CHR ''-'' \<notin> set p"

lemma command_words [simp]: "command_word ''tile:''" "command_word ''delta:''"
  by (simp_all add: command_word_def plain_prefix_def)

lemma tile_message_parts:
  assumes "command_word p"
  shows "me_data (mk_message (serialize d p (newline # r))) = serialize d p (newline # r)"
    and "message_first_token (mk_message (serialize d p (newline # r))) = p"
    and "message_first_line (mk_message (serialize d p (newline # r))) = serialize d p []"
    and "sv_wf (me_tokens (mk_message (serialize d p (newline # r))))"
proof -
  let ?s = "serialize d p (newline # r)"
  have plain: "plain_prefix p" "p \<noteq> []" "CHR ''-'' \<notin> set p" "CHR '' '' \<notin> set p" using assms by (auto simp: command_word_def plain_prefix_def)
  obtain x where x: "?s = p @ CHR '' '' # x" using serialize_first by blast
  have "get_first_token ?s (CHR '' '') = p"
    unfolding x get_first_token_def get_delimited_initial_substring_def get_delimiter_position_def
    by (simp add: find_char_append [OF plain(4)])
  then have fwd: "get_forward_token ?s = []" using plain(3) by (simp add: get_forward_token_def find_char_None)
  have "hd p \<noteq> CHR '' ''" using plain(2,4) by (cases p) auto
  then have "dropWhile (\<lambda>c. c = CHR '' '') ?s = ?s" unfolding x using plain(2) by (cases p) simp_all
  then have dat: "copy_data_after_offset ?s 0 = ?s" by (simp add: copy_data_after_offset_def)
  show d: "me_data (mk_message ?s) = ?s" by (simp add: mk_message_def Let_def fwd dat)
  have tok: "me_tokens (mk_message ?s) = tokenize ?s (CHR '' '')" by (simp add: mk_message_def Let_def fwd dat)
  show "sv_wf (me_tokens (mk_message ?s))" by (simp add: tok)
  have "?s ! 0 \<noteq> nul" unfolding x using plain(1,2) by (cases p) (auto simp: plain_prefix_def)
  then have "sv_texts (tokenize ?s (CHR '' '')) = split_tokens (CHR '' '') ?s" by (simp add: sv_texts_tokenize)
  also have "\<dots> = [p] @ tile_words d"
    using split_tokens_message [of "tile_words d" p "newline # r"] tile_words_clean plain
    by (auto simp: serialize_words line_suffix_def)
  finally show "message_first_token (mk_message ?s) = p"
    by (simp add: message_first_token_def tok sv_nth_texts)
  have n: "newline \<notin> set (serialize d p [])" by (rule serialize_no_newline [OF plain(1)])
  have "get_first_line ?s = serialize d p []"
    unfolding get_first_line_def get_delimited_initial_substring_def get_delimiter_position_def
    by (subst (1 2) serialize_append) (simp add: find_char_append [OF n])
  then show "message_first_line (mk_message ?s) = serialize d p []"
    using d by (simp add: message_first_line_def assign_first_line_if_empty_def mk_message_def Let_def)
qed

lemma represents_wids: "represents t fs \<Longrightarrow> ti_wids t = map fst fs"
  by (simp add: represents_def)

lemma tile_message_ok:
  assumes "represents t fs" "fs \<noteq> []"
  shows "tile_message desc t lastSent =
    Ok (serialize desc (if lastSent < fst (hd fs) \<or> is_png t then ''tile:'' else ''delta:'')
      (newline # chars (payload (missing (if is_png t then 0 else lastSent) fs))))"
proof -
  have "needs_keyframe lastSent t = Ok (lastSent < fst (hd fs))"
    using represents_wids [OF assms(1)] assms(2) by (cases fs) (simp_all add: needs_keyframe_def)
  then show ?thesis
    by (simp add: tile_message_def Let_def append_changes_since_represents [OF assms(1)] serialize_append [of _ _ "newline # _"]
      serialize_append [of _ _ "[newline]"] del: map_append)
qed

section \<open>The client's copy\<close>

definition message_tile :: "message \<Rightarrow> tile_desc option" where
  "message_tile m =
    (if message_first_token m \<in> {''tile:'', ''delta:''}
     then (case parse_tile (message_first_line m) of Ok d \<Rightarrow> Some d | Err e \<Rightarrow> None) else None)"

definition message_payload :: "message \<Rightarrow> byte list" where
  "message_payload m = bytes (drop (length (message_first_line m) + 1) (me_data m))"

text \<open>A \<open>tile:\<close> replaces the copy of its tile, a \<open>delta:\<close> is added to it.\<close>

definition apply_message :: "tile_desc \<Rightarrow> message \<Rightarrow> byte list \<Rightarrow> byte list" where
  "apply_message d m copy =
    (case message_tile m of
       None \<Rightarrow> copy
     | Some e \<Rightarrow>
         if cache_eq e d then (if message_first_token m = ''tile:'' then message_payload m else copy @ message_payload m)
         else copy)"

definition copy_after :: "tile_desc \<Rightarrow> message list \<Rightarrow> byte list \<Rightarrow> byte list" where
  "copy_after d q copy = fold (apply_message d) q copy"

lemma copy_after_simps [simp]:
  "copy_after d [] copy = copy" "copy_after d (m # q) copy = copy_after d q (apply_message d m copy)"
  "copy_after d (q @ r) copy = copy_after d r (copy_after d q copy)"
  by (simp_all add: copy_after_def)

lemma copy_after_filter:
  assumes "\<And>m copy. m \<in> set q \<Longrightarrow> \<not> P m \<Longrightarrow> apply_message d m copy = copy"
  shows "copy_after d (filter P q) copy = copy_after d q copy"
  using assms by (induction q arbitrary: copy) simp_all

lemma hashed_message [simp]:
  "message_tile (hashed m) = message_tile m" "message_payload (hashed m) = message_payload m"
  "apply_message d (hashed m) copy = apply_message d m copy"
  unfolding apply_message_def message_tile_def message_payload_def hashed_fields hashed_derived by (rule refl)+

lemma assigned_message [simp]:
  "message_first_token (assign_first_line_if_empty m) = message_first_token m"
  "apply_message d (assign_first_line_if_empty m) copy = apply_message d m copy"
  unfolding apply_message_def message_tile_def message_payload_def message_first_token_def assign_first_line_fields
    message_first_line_assign by (rule refl)+

lemma copy_after_enqueue:
  assumes "message_tile m = Some e"
  shows "copy_after d (filter (\<lambda>c. \<not> replaces view_of m c) q @ [hashed m]) copy =
    (if cache_eq e d then (if message_first_token m = ''tile:'' then message_payload m else copy_after d q copy @ message_payload m)
     else copy_after d q copy)"
proof (cases "message_first_token m = ''tile:'' \<and> cache_eq e d")
  case True
  then show ?thesis using assms by (simp add: apply_message_def)
next
  case False
  have "copy_after d (filter (\<lambda>c. \<not> replaces view_of m c) q) copy = copy_after d q copy"
  proof (rule copy_after_filter)
    fix c copy
    assume "\<not> \<not> replaces view_of m c"
    then have r: "message_key view_of m \<noteq> None" "message_key view_of m = message_key view_of c" unfolding replaces_def by blast+
    then have tile: "message_first_token m = ''tile:''"
      using assms by (auto simp: message_key_def message_tile_def Let_def split: if_splits)
    with assms have e: "message_key view_of m = Some (TileKey (tile_key e))"
      by (auto simp: message_key_def message_tile_def split: sum.splits)
    with r(2) have "message_key view_of c = Some (TileKey (tile_key e))" by simp
    then obtain u where u: "message_first_token c = ''tile:''" "parse_tile (message_first_line c) = Ok u" "tile_key u = tile_key e"
      by (auto simp: message_key_def Let_def split: if_splits sum.splits)
    have "cache_eq u e" using u(3) by (auto simp: tile_eq_key [symmetric] tile_eq_def cache_eq_def)
    then have "\<not> cache_eq u d" using False tile by (auto simp: cache_eq_key)
    then show "apply_message d c copy = copy" using u by (simp add: apply_message_def message_tile_def)
  qed
  then show ?thesis using assms False by (auto simp: apply_message_def)
qed

section \<open>Sending a tile\<close>

text \<open>What sending leaves of a session: everything but the queue, the tracker and the tiles on their way\<close>

definition same_session :: "client_session \<Rightarrow> client_session \<Rightarrow> bool" where
  "same_session s s' \<longleftrightarrow>
    s' = s\<lparr>cs_senderQueue := cs_senderQueue s', cs_tracker := cs_tracker s', cs_tilesOnFly := cs_tilesOnFly s'\<rparr> \<and>
    length (cs_tilesOnFly s') \<le> Suc (length (cs_tilesOnFly s))"

lemma message_of_tile:
  fixes bs :: "byte list"
  assumes "command_word p" "p \<in> {''tile:'', ''delta:''}" "tile_valid desc" "wire_ranges desc"
  defines "m \<equiv> mk_message (serialize desc p (newline # chars bs))"
  shows "message_ok view_of m" "message_tile m = Some desc" "message_payload m = bs" "message_first_token m = p"
    "parse_tile (message_first_line m) = Ok desc" "sv_wf (me_tokens m)"
proof -
  note parts = tile_message_parts [OF assms(1), of desc "chars bs", folded m_def]
  have plain: "plain_prefix p" using assms(1) by (simp add: command_word_def)
  show parse: "parse_tile (message_first_line m) = Ok desc"
    unfolding parts(3) using assms(3,4) plain by (rule parse_tile_serialize) (simp add: line_suffix_def)
  show "message_ok view_of m" using parts parse assms(2) by (auto simp: message_ok_def)
  show "message_tile m = Some desc" using parts parse assms(2) by (simp add: message_tile_def)
  show "message_payload m = bs"
    unfolding message_payload_def parts by (subst serialize_append) simp
qed (use tile_message_parts [OF assms(1), of desc "chars bs", folded m_def] in simp_all)

lemma enqueue_tile:
  assumes "p \<in> {''tile:'', ''delta:''}" "tile_valid desc" "wire_ranges desc"
    and "queue_ok (en_view_of en) (cs_senderQueue s)" "\<not> cs_isCloseFrame s" "\<not> en_terminating en"
  obtains s' where "enqueue_send_message en (mk_message (serialize desc p (newline # chars bs))) s = Ok s'"
    "cs_tracker s' = cs_tracker s" "queue_ok (en_view_of en) (cs_senderQueue s')" "same_session s s'"
    "\<forall>d copy. copy_after d (cs_senderQueue s') copy =
      (if cache_eq desc d then (if p = ''tile:'' then bs else copy_after d (cs_senderQueue s) copy @ bs)
       else copy_after d (cs_senderQueue s) copy)"
proof -
  define m where "m = mk_message (serialize desc p (newline # chars bs))"
  have w: "command_word p" using assms(1) by auto
  note mt = message_of_tile [OF w assms(1-3), where bs = bs, folded m_def]
  let ?m = "assign_first_line_if_empty m"
  let ?q = "filter (\<lambda>c. \<not> replaces (en_view_of en) ?m c) (cs_senderQueue s) @ [hashed ?m]"
  have tok: "first_token_matches ''tile:'' m \<or> first_token_matches ''delta:'' m"
    using mt(4,6) assms(1) by (auto simp: first_token_matches_eq)
  have ok: "message_ok (en_view_of en) ?m" using mt(1) [of "en_view_of en"]
    unfolding message_ok_def assigned_message message_first_line_assign assign_first_line_fields json_string_def .
  have "message_tile ?m = Some desc" using mt(2) unfolding message_tile_def assigned_message message_first_line_assign .
  note copies = copy_after_enqueue [OF this]
  have enq: "sq_enqueue (en_view_of en) False ?m (cs_senderQueue s) = Ok (?q, length ?q)" and q: "queue_ok (en_view_of en) ?q"
    using enqueue_ok [OF assms(4) ok] by simp_all
  let ?s = "if length (cs_senderQueue s) \<noteq> length ?q then add_tile_on_fly (en_now en) (td_wireId desc) (s\<lparr>cs_senderQueue := ?q\<rparr>)
    else s\<lparr>cs_senderQueue := ?q\<rparr>"
  have pay: "message_payload ?m = bs"
    using mt(3) unfolding message_payload_def message_first_line_assign assign_first_line_fields .
  have copy: "\<forall>d copy. copy_after d ?q copy =
      (if cache_eq desc d then (if p = ''tile:'' then bs else copy_after d (cs_senderQueue s) copy @ bs)
       else copy_after d (cs_senderQueue s) copy)"
    unfolding copies assigned_message pay mt(4) by blast
  have queue: "cs_senderQueue ?s = ?q" by (simp add: add_tile_on_fly_def)
  show thesis
  proof (rule that)
    show "enqueue_send_message en (mk_message (serialize desc p (newline # chars bs))) s = Ok ?s"
      unfolding m_def [symmetric] using assms(5,6) tok enq mt(5)
      by (simp add: enqueue_send_message_def Let_def del: length_append filter.simps)
    show "cs_tracker ?s = cs_tracker s" "same_session s ?s" by (simp_all add: add_tile_on_fly_def same_session_def)
    show "queue_ok (en_view_of en) (cs_senderQueue ?s)" unfolding queue by (rule q)
    show "\<forall>d copy. copy_after d (cs_senderQueue ?s) copy =
      (if cache_eq desc d then (if p = ''tile:'' then bs else copy_after d (cs_senderQueue s) copy @ bs)
       else copy_after d (cs_senderQueue s) copy)" unfolding queue by (rule copy)
  qed
qed

lemma send_tile_now_ok:
  assumes "represents t fs" "fs \<noteq> []" "tile_valid desc" "wire_ranges desc" "queue_ok (en_view_of en) (cs_senderQueue s)"
  obtains sent s' where "send_tile_now en desc t s = Ok (sent, s')"
    "cs_tracker s' = snd (update_tile_seq desc (cs_tracker s))" "queue_ok (en_view_of en) (cs_senderQueue s')" "same_session s s'"
    "\<not> cs_isCloseFrame s \<and> \<not> en_terminating en \<longrightarrow> (\<forall>d copy. copy_after d (cs_senderQueue s') copy =
      (if cache_eq desc d then
         (let since = fst (update_tile_seq desc (cs_tracker s)); new = payload (missing (if is_png t then 0 else since) fs)
          in if since < fst (hd fs) \<or> is_png t then new else copy_after d (cs_senderQueue s) copy @ new)
       else copy_after d (cs_senderQueue s) copy))"
proof -
  obtain since tr where u: "update_tile_seq desc (cs_tracker s) = (since, tr)" by (cases "update_tile_seq desc (cs_tracker s)")
  let ?p = "if since < fst (hd fs) \<or> is_png t then ''tile:'' else ''delta:''"
  let ?new = "payload (missing (if is_png t then 0 else since) fs)"
  let ?m = "mk_message (serialize desc ?p (newline # chars ?new))"
  let ?s = "s\<lparr>cs_tracker := tr\<rparr>"
  have p: "?p \<in> {''tile:'', ''delta:''}" by simp
  have q: "queue_ok (en_view_of en) (cs_senderQueue ?s)" using assms(5) by simp
  have send: "send_tile_now en desc t s = send_binary_frame en (serialize desc ?p (newline # chars ?new)) ?s"
    by (simp add: send_tile_now_def u tile_message_ok [OF assms(1,2)])
  show thesis
  proof (cases "cs_isCloseFrame s \<or> en_terminating en")
    case False
    then have live: "\<not> cs_isCloseFrame ?s" "\<not> en_terminating en" by simp_all
    obtain s' where s': "enqueue_send_message en ?m ?s = Ok s'" "cs_tracker s' = cs_tracker ?s"
      "queue_ok (en_view_of en) (cs_senderQueue s')" "same_session ?s s'"
      "\<forall>d copy. copy_after d (cs_senderQueue s') copy =
        (if cache_eq desc d then (if ?p = ''tile:'' then ?new else copy_after d (cs_senderQueue ?s) copy @ ?new)
         else copy_after d (cs_senderQueue ?s) copy)"
      using p assms(3,4) q live by (rule enqueue_tile)
    show thesis
    proof (rule that)
      show "send_tile_now en desc t s = Ok (True, s')" using send s'(1) live by (simp add: send_binary_frame_def)
      show "same_session s s'" using s'(4) by (simp add: same_session_def)
      show "\<not> cs_isCloseFrame s \<and> \<not> en_terminating en \<longrightarrow> (\<forall>d copy. copy_after d (cs_senderQueue s') copy =
        (if cache_eq desc d then
           (let since = fst (update_tile_seq desc (cs_tracker s)); new = payload (missing (if is_png t then 0 else since) fs)
            in if since < fst (hd fs) \<or> is_png t then new else copy_after d (cs_senderQueue s) copy @ new)
         else copy_after d (cs_senderQueue s) copy))"
        using s'(5) by (simp add: u Let_def)
    qed (use s' u in simp_all)
  next
    case True
    have m: "parse_tile (message_first_line ?m) = Ok desc" using message_of_tile(5) [OF _ p assms(3,4)] p by auto
    have "\<exists>b. send_binary_frame en (serialize desc ?p (newline # chars ?new)) ?s = Ok (b, ?s)"
      using True m by (auto simp: send_binary_frame_def enqueue_send_message_def sq_enqueue_def Let_def)
    then obtain b where "send_tile_now en desc t s = Ok (b, ?s)" using send by auto
    then show thesis using True q u by (intro that [of b ?s]) (auto simp: same_session_def)
  qed
qed

end
