(* ===== verification/Delivery.thy ===== *)
theory Delivery
  imports ClientSends
begin

text \<open>
  The way of a tile from the kit to a client, across the cache, the session, its queue and the
  client that applies the messages. The wire ids of the kit's replies increase. In every reachable
  state the messages in the queue, applied to what the client has, give the frames up to the wire
  id the tracker remembers.
\<close>

section \<open>Steps\<close>

text \<open>A session that is not closing, in a process that is not ending\<close>

definition live :: "(string \<Rightarrow> string res) \<Rightarrow> send_env \<Rightarrow> bool" where
  "live view_of en \<longleftrightarrow> en_view_of en = view_of \<and> \<not> en_terminating en"

text \<open>
  The state: the cache, one session, what its client has of each tile, and the last wire id of the
  kit. The steps are a reply of the kit, a tile sent from the cache, the client taking a message,
  and all that changes only the cache or only the rest of the session.
\<close>

inductive delivery :: "(string \<Rightarrow> string res) \<Rightarrow> session_id \<Rightarrow> tile_cache \<Rightarrow> client_session \<Rightarrow> (tile_desc \<Rightarrow> byte list) \<Rightarrow> wire_id \<Rightarrow> bool"
  for view_of sid where
  start: "delivery view_of sid (mk_tile_cache False) mk_client_session (\<lambda>_. []) 0"
| reply: "delivery view_of sid c s copy newest \<Longrightarrow> dat \<noteq> [] \<Longrightarrow> tile_valid desc \<Longrightarrow> wire_ranges desc \<Longrightarrow> newest < td_wireId desc \<Longrightarrow>
    live view_of en \<Longrightarrow> save_tile_and_notify alive desc dat c = Ok (sends, c') \<Longrightarrow>
    (case map_of sends sid of None \<Rightarrow> Ok (True, s) | Some t \<Rightarrow> send_tile_now en desc t s) = Ok (sent, s') \<Longrightarrow>
    delivery view_of sid c' s' copy (td_wireId desc)"
| cached: "delivery view_of sid c s copy newest \<Longrightarrow> lookup_tile desc c = Some t \<Longrightarrow> td_wireId desc = last (ti_wids t) \<Longrightarrow>
    tile_valid desc \<Longrightarrow> wire_ranges desc \<Longrightarrow> live view_of en \<Longrightarrow> send_tile_now en desc t s = Ok (sent, s') \<Longrightarrow>
    delivery view_of sid c s' copy newest"
| take: "delivery view_of sid c s copy newest \<Longrightarrow> sq_dequeue False (cs_senderQueue s) = (Some m, q) \<Longrightarrow>
    delivery view_of sid c (s\<lparr>cs_senderQueue := q\<rparr>) (\<lambda>d. apply_message d m (copy d)) newest"
| reset: "delivery view_of sid c s copy newest \<Longrightarrow> delivery view_of sid c (cs_reset_tile_seq desc s) copy newest"
| session: "delivery view_of sid c s copy newest \<Longrightarrow> cs_senderQueue s' = cs_senderQueue s \<Longrightarrow> cs_tracker s' = cs_tracker s \<Longrightarrow>
    cs_isCloseFrame s' = cs_isCloseFrame s \<Longrightarrow> delivery view_of sid c s' copy newest"
| subscribe: "delivery view_of sid c s copy newest \<Longrightarrow>
    delivery view_of sid (snd (subscribe_to_tile_rendering tile other now c)) s copy newest"
| invalidate: "delivery view_of sid c s copy newest \<Longrightarrow>
    delivery view_of sid (snd (invalidate_area prt mode x y w h view c)) s copy newest"
| resize: "delivery view_of sid c s copy newest \<Longrightarrow> set_max_cache_size n c = Ok c' \<Longrightarrow> delivery view_of sid c' s copy newest"
| clear: "delivery view_of sid c s copy newest \<Longrightarrow> delivery view_of sid (ca_clear c) s copy newest"

section \<open>The invariant\<close>

text \<open>The frames of a tile are in the order of their wire ids, none above the last.\<close>

definition frames_ok :: "wire_id \<Rightarrow> frames \<Rightarrow> bool" where
  "frames_ok newest fs \<longleftrightarrow> fs \<noteq> [] \<and> sorted_wrt (<) (map fst fs) \<and> (\<forall>w \<in> set (map fst fs). 0 < w \<and> w \<le> newest)"

text \<open>What the client will have of a tile, given what the tracker remembers\<close>

definition in_step :: "frames \<Rightarrow> wire_id option \<Rightarrow> byte list \<Rightarrow> bool" where
  "in_step fs sent copy \<longleftrightarrow> (\<forall>w. sent = Some w \<and> fst (hd fs) \<le> w \<longrightarrow> copy = payload (filter (\<lambda>f. fst f \<le> w) fs))"

definition tile_in_step :: "wire_id \<Rightarrow> tile_data \<Rightarrow> wire_id option \<Rightarrow> byte list \<Rightarrow> bool" where
  "tile_in_step newest t sent copy \<longleftrightarrow> (\<exists>fs. represents t fs \<and> frames_ok newest fs \<and> in_step fs sent copy)"

definition delivery_ok :: "(string \<Rightarrow> string res) \<Rightarrow> tile_cache \<Rightarrow> client_session \<Rightarrow> (tile_desc \<Rightarrow> byte list) \<Rightarrow> wire_id \<Rightarrow> bool" where
  "delivery_ok view_of c s copy newest \<longleftrightarrow>
    ca_wf c \<and> \<not> ca_dontCache c \<and> queue_ok view_of (cs_senderQueue s) \<and> \<not> cs_isCloseFrame s \<and>
    (\<forall>d e. cache_eq d e \<longrightarrow> copy d = copy e) \<and>
    (\<forall>d w. last_sent d (cs_tracker s) = Some w \<longrightarrow> w \<le> newest) \<and>
    (\<forall>d t. find_desc d (ca_cache c) = Some t \<longrightarrow>
      tile_in_step newest t (last_sent d (cs_tracker s)) (copy_after d (cs_senderQueue s) (copy d)))"

subsection \<open>Frames\<close>

lemma frames_ok_append:
  assumes "frames_ok newest fs" "newest < i" "\<not> is_keyframe dat"
  shows "frames_ok i (append_frame i dat fs)"
proof (cases "length dat = 1 \<and> length fs > 1 \<and> snd (last fs) = []")
  case True
  then obtain gs w where fs: "fs = gs @ [(w, [])]" using assms(1) by (cases fs rule: rev_cases) (auto simp: frames_ok_def)
  then have "append_frame i dat fs = gs @ [(i, [])]" using True assms(3) by (simp add: append_frame_def)
  then show ?thesis using assms(1,2) fs by (auto simp: frames_ok_def sorted_wrt_append intro: le_less_trans less_trans)
next
  case False
  then have "append_frame i dat fs = fs @ [(i, tl dat)]" using assms(3) by (auto simp: append_frame_def)
  then show ?thesis using assms(1,2) by (auto simp: frames_ok_def sorted_wrt_append intro: le_less_trans order_trans less_trans)
qed

lemma frames_ok_keyframe: "newest < i \<Longrightarrow> is_keyframe dat \<Longrightarrow> frames_ok i (append_frame i dat fs)"
  by (auto simp: frames_ok_def append_frame_def word_gt_0)

text \<open>A new frame does not change what was sent before it.\<close>

lemma in_step_append:
  assumes "in_step fs sent copy" "frames_ok newest fs" "newest < i" "\<forall>w. sent = Some w \<longrightarrow> w \<le> newest" "\<not> is_keyframe dat"
  shows "in_step (append_frame i dat fs) sent copy"
proof (cases "length dat = 1 \<and> length fs > 1 \<and> snd (last fs) = []")
  case True
  then obtain gs w where fs: "fs = gs @ [(w, [])]" using assms(2) by (cases fs rule: rev_cases) (auto simp: frames_ok_def)
  then have "append_frame i dat fs = gs @ [(i, [])]" "gs \<noteq> []" using True assms(5) by (auto simp: append_frame_def)
  then show ?thesis using assms(1) fs by (auto simp: in_step_def split: if_splits)
next
  case False
  then have a: "append_frame i dat fs = fs @ [(i, tl dat)]" using assms(5) by (auto simp: append_frame_def)
  have "\<not> i \<le> w" if "sent = Some w" for w using assms(3,4) that by fastforce
  then show ?thesis using assms(1,2) by (auto simp: in_step_def a frames_ok_def)
qed

lemma in_step_keyframe: "\<forall>w. sent = Some w \<longrightarrow> w \<le> newest \<Longrightarrow> newest < i \<Longrightarrow> is_keyframe dat \<Longrightarrow> in_step (append_frame i dat fs) sent copy"
  by (auto simp: in_step_def append_frame_def)

text \<open>Sending brings the client to the last frame.\<close>

lemma sent_frames:
  assumes "frames_ok newest fs" "in_step fs sent copy" "since = (case sent of None \<Rightarrow> 0 | Some w \<Rightarrow> w)"
  shows "(if since < fst (hd fs) \<or> png then payload (missing (if png then 0 else since) fs)
    else copy @ payload (missing (if png then 0 else since) fs)) = payload fs"
proof -
  have sorted: "sorted_wrt (<) (map fst fs)" and pos: "\<forall>w \<in> set (map fst fs). 0 < w" and ne: "fs \<noteq> []"
    using assms(1) by (auto simp: frames_ok_def)
  have m: "missing v fs = later v fs" for v by (rule missing_later [OF sorted pos])
  have all: "later v fs = fs" if "v < fst (hd fs)" for v
  proof -
    have "v < fst f" if "f \<in> set fs" for f
      using sorted ne \<open>v < fst (hd fs)\<close> that by (cases fs) (auto intro: less_trans)
    then show ?thesis by (intro filter_True) auto
  qed
  have zero: "0 < fst (hd fs)" using pos ne by (cases fs) auto
  show ?thesis
  proof (cases "since < fst (hd fs) \<or> png")
    case True
    then show ?thesis using all zero m by auto
  next
    case False
    then have "sent = Some since" using assms(3) zero by (auto split: option.splits)
    then have copy: "copy = payload (filter (\<lambda>f. fst f \<le> since) fs)" using assms(2) False by (auto simp: in_step_def)
    have "filter (\<lambda>f. fst f \<le> since) fs @ later since fs = fs"
      using sorted
    proof (induction fs)
      case (Cons f fs)
      show ?case
      proof (cases "fst f \<le> since")
        case True
        then show ?thesis using Cons by (simp add: split_beta)
      next
        case False
        then have "\<forall>g \<in> set fs. since < fst g" using Cons.prems by (auto intro: less_trans)
        then have "filter (\<lambda>f. fst f \<le> since) fs = []" "later since fs = fs"
          by (auto simp: filter_empty_conv not_le filter_id_conv)
        then show ?thesis using False by (cases f) simp
      qed
    qed simp
    then have "payload fs = payload (filter (\<lambda>f. fst f \<le> since) fs) @ payload (later since fs)"
      by (metis concat_append map_append)
    then show ?thesis using False copy m by simp
  qed
qed

lemma in_step_all:
  assumes "frames_ok newest fs"
  shows "in_step fs (Some (fst (last fs))) (payload fs)"
proof -
  have "fst f \<le> fst (last fs)" if "f \<in> set fs" for f
    using assms that by (cases fs rule: rev_cases) (auto simp: frames_ok_def sorted_wrt_append intro: less_imp_le)
  then have "filter (\<lambda>f. fst f \<le> fst (last fs)) fs = fs" by (intro filter_True) auto
  then show ?thesis by (simp add: in_step_def)
qed

lemma last_append_frame [simp]: "fst (last (append_frame i dat fs)) = i"
  by (simp add: append_frame_def)

lemma frames_ok_mono: "frames_ok newest fs \<Longrightarrow> newest \<le> newest' \<Longrightarrow> frames_ok newest' fs"
  by (auto simp: frames_ok_def intro: order_trans)

subsection \<open>Steps\<close>

lemma apply_message_cong: "cache_eq d e \<Longrightarrow> apply_message d = apply_message e"
  by (intro ext) (auto simp: apply_message_def cache_eq_key split: option.split)

lemma copy_after_cong: "cache_eq d e \<Longrightarrow> copy_after d = copy_after e"
  by (intro ext) (simp add: copy_after_def apply_message_cong)

lemma last_sent_cong: "cache_eq d e \<Longrightarrow> last_sent d = last_sent e"
  by (intro ext) (simp add: last_sent_def cache_eq_key)

text \<open>Sending a tile that is in step leaves it, and every other, in step.\<close>

lemma send_in_step:
  assumes "represents t fs" "frames_ok newest fs" "in_step fs (last_sent desc (cs_tracker s)) (copy_after desc (cs_senderQueue s) (copy desc))"
    and "td_wireId desc = fst (last fs)" "tile_valid desc" "wire_ranges desc" "queue_ok view_of (cs_senderQueue s)"
    and "\<not> cs_isCloseFrame s" "live view_of en" "send_tile_now en desc t s = Ok (sent, s')"
  shows "queue_ok view_of (cs_senderQueue s') \<and> \<not> cs_isCloseFrame s' \<and>
    (\<forall>d. last_sent d (cs_tracker s') = (if cache_eq desc d then Some (fst (last fs)) else last_sent d (cs_tracker s))) \<and>
    (\<forall>d. \<not> cache_eq desc d \<longrightarrow> copy_after d (cs_senderQueue s') (copy d) = copy_after d (cs_senderQueue s) (copy d)) \<and>
    (\<forall>d. cache_eq desc d \<longrightarrow> copy d = copy desc \<longrightarrow> in_step fs (last_sent d (cs_tracker s')) (copy_after d (cs_senderQueue s') (copy d)))"
proof -
  have v: "en_view_of en = view_of" "\<not> en_terminating en" using assms(9) by (simp_all add: live_def)
  have ne: "fs \<noteq> []" using assms(2) by (simp add: frames_ok_def)
  have q: "queue_ok (en_view_of en) (cs_senderQueue s)" using assms(7) v by simp
  obtain sent' u where u: "send_tile_now en desc t s = Ok (sent', u)"
    "cs_tracker u = snd (update_tile_seq desc (cs_tracker s))" "queue_ok (en_view_of en) (cs_senderQueue u)" "same_session s u"
    "\<not> cs_isCloseFrame s \<and> \<not> en_terminating en \<longrightarrow> (\<forall>d copy. copy_after d (cs_senderQueue u) copy =
      (if cache_eq desc d then
         (let since = fst (update_tile_seq desc (cs_tracker s)); new = payload (missing (if is_png t then 0 else since) fs)
          in if since < fst (hd fs) \<or> is_png t then new else copy_after d (cs_senderQueue s) copy @ new)
       else copy_after d (cs_senderQueue s) copy))"
    using assms(1) ne assms(5,6) q by (rule send_tile_now_ok)
  have s': "s' = u" using u(1) assms(10) by simp
  have tr: "last_sent d (cs_tracker s') = (if cache_eq desc d then Some (fst (last fs)) else last_sent d (cs_tracker s))" for d
    using u(2) assms(4) by (simp add: s' last_sent_update)
  have cp: "copy_after d (cs_senderQueue s') (copy d) = payload fs" if "cache_eq desc d" "copy d = copy desc" for d
  proof -
    have c: "copy_after d = copy_after desc" using copy_after_cong [OF that(1)] by simp
    let ?since = "fst (update_tile_seq desc (cs_tracker s))"
    have "(if ?since < fst (hd fs) \<or> is_png t then payload (missing (if is_png t then 0 else ?since) fs)
      else copy_after desc (cs_senderQueue s) (copy desc) @ payload (missing (if is_png t then 0 else ?since) fs)) = payload fs"
      by (rule sent_frames [OF assms(2,3) update_tile_seq_fst])
    moreover have "copy_after d (cs_senderQueue s') (copy d) =
        (if ?since < fst (hd fs) \<or> is_png t then payload (missing (if is_png t then 0 else ?since) fs)
         else copy_after d (cs_senderQueue s) (copy d) @ payload (missing (if is_png t then 0 else ?since) fs))"
      using u(5) assms(8) v(2) that(1) by (simp only: s' Let_def if_True simp_thms)
    ultimately show ?thesis unfolding c that(2) by simp
  qed
  have "in_step fs (last_sent d (cs_tracker s')) (copy_after d (cs_senderQueue s') (copy d))"
    if "cache_eq desc d" "copy d = copy desc" for d
    using in_step_all [OF assms(2)] tr [of d] cp [OF that] that(1) by simp
  moreover have "copy_after d (cs_senderQueue s') (copy d) = copy_after d (cs_senderQueue s) (copy d)" if "\<not> cache_eq desc d" for d
    using u(5) assms(8) v that by (simp add: s')
  moreover have "\<not> cs_isCloseFrame s'" using u(4) assms(8) unfolding s' same_session_def by (cases u; cases s) simp
  ultimately show ?thesis using u(3) v tr s' by blast
qed

lemma delivery_ok_send:
  assumes ok: "delivery_ok view_of c s copy newest" and t: "find_desc desc (ca_cache c) = Some t"
    and "td_wireId desc = last (ti_wids t)" "tile_valid desc" "wire_ranges desc" "live view_of en" "send_tile_now en desc t s = Ok (sent, s')"
  shows "delivery_ok view_of c s' copy newest"
proof -
  have tis: "tile_in_step newest u (last_sent d (cs_tracker s)) (copy_after d (cs_senderQueue s) (copy d))"
    if "find_desc d (ca_cache c) = Some u" for d u using ok that by (simp add: delivery_ok_def)
  obtain fs where fs: "represents t fs" "frames_ok newest fs"
    "in_step fs (last_sent desc (cs_tracker s)) (copy_after desc (cs_senderQueue s) (copy desc))"
    using tis [OF t] by (auto simp: tile_in_step_def)
  have wid: "td_wireId desc = fst (last fs)"
    using assms(3) represents_wids [OF fs(1)] fs(2) by (simp add: frames_ok_def last_map)
  have q: "queue_ok view_of (cs_senderQueue s)" "\<not> cs_isCloseFrame s" using ok by (simp_all add: delivery_ok_def)
  have new: "queue_ok view_of (cs_senderQueue s')" "\<not> cs_isCloseFrame s'"
    and tr: "\<And>d. last_sent d (cs_tracker s') = (if cache_eq desc d then Some (fst (last fs)) else last_sent d (cs_tracker s))"
    and other: "\<And>d. \<not> cache_eq desc d \<Longrightarrow> copy_after d (cs_senderQueue s') (copy d) = copy_after d (cs_senderQueue s) (copy d)"
    and mine: "\<And>d. cache_eq desc d \<Longrightarrow> copy d = copy desc \<Longrightarrow>
      in_step fs (last_sent d (cs_tracker s')) (copy_after d (cs_senderQueue s') (copy d))"
    using send_in_step [where copy = copy, OF fs wid assms(4,5) q(1,2) assms(6,7)] by blast+
  have same: "\<And>d e. cache_eq d e \<Longrightarrow> copy d = copy e" using ok by (simp add: delivery_ok_def)
  have bound: "fst (last fs) \<le> newest" using fs(2) by (simp add: frames_ok_def)
  have "tile_in_step newest u (last_sent d (cs_tracker s')) (copy_after d (cs_senderQueue s') (copy d))"
    if u: "find_desc d (ca_cache c) = Some u" for d u
  proof (cases "cache_eq desc d")
    case True
    then have "u = t" using u t find_desc_cong [OF True, of "ca_cache c"] by simp
    moreover have "copy d = copy desc" using same True by (metis cache_eq_key)
    ultimately show ?thesis using fs(1,2) mine [OF True] by (auto simp: tile_in_step_def)
  next
    case False
    then show ?thesis using tis [OF u] tr [of d] other [of d] by simp
  qed
  then show ?thesis using ok new tr bound by (auto simp: delivery_ok_def)
qed

lemma delivery_ok_save:
  assumes ok: "delivery_ok view_of c s copy newest" and "dat \<noteq> []" "newest < td_wireId desc"
    and save: "save_tile_and_notify alive desc dat c = Ok (sends, c')"
  shows "delivery_ok view_of c' s copy (td_wireId desc)"
    and "map_of sends sid = Some t \<Longrightarrow> find_desc desc (ca_cache c') = Some t \<and> last (ti_wids t) = td_wireId desc"
proof -
  have wf: "ca_wf c" "\<not> ca_dontCache c" using ok by (simp_all add: delivery_ok_def)
  obtain tile c1 where s1: "save_data_to_cache desc dat c = Ok (tile, c1)" "ca_wf c1" "ca_rendering c1 = ca_rendering c"
      "ca_dontCache c1 = ca_dontCache c"
    and tile: "find_desc desc (ca_cache c1) = tile"
    and rest: "\<forall>k t. \<not> cache_eq desc k \<and> find_desc k (ca_cache c1) = Some t \<longrightarrow> find_desc k (ca_cache c) = Some t"
    and frames: "\<forall>t. tile = Some t \<longrightarrow> (\<exists>fs. represents t (append_frame (td_wireId desc) dat fs) \<and>
      (is_keyframe dat \<or> (\<exists>t0. find_desc desc (ca_cache c) = Some t0 \<and> represents t0 fs)))"
    by (rule save_data_to_cache_ok [OF wf(1) assms(2) wf(2), of desc]) blast
  have r: "sends = (case tile of None \<Rightarrow> [] | Some t \<Rightarrow> map (\<lambda>s. (s, t)) (waiting alive desc c))"
    "c' = c1\<lparr>ca_rendering := rendering_after desc c\<rparr>"
    using save save_tile_and_notify_of_save [OF wf(1) s1(1-3), of alive] by simp_all
  have cache: "ca_cache c' = ca_cache c1" and wf': "ca_wf c'" "\<not> ca_dontCache c'"
    using rendering_after_wf [OF wf(1) s1(2)] s1(4) wf(2) by (simp_all add: r)
  have seq: "\<And>d w. last_sent d (cs_tracker s) = Some w \<Longrightarrow> w \<le> newest" using ok by (simp add: delivery_ok_def)
  have tis: "tile_in_step newest u (last_sent d (cs_tracker s)) (copy_after d (cs_senderQueue s) (copy d))"
    if "find_desc d (ca_cache c) = Some u" for d u using ok that by (simp add: delivery_ok_def)
  have "tile_in_step (td_wireId desc) u (last_sent d (cs_tracker s)) (copy_after d (cs_senderQueue s) (copy d))"
    if u: "find_desc d (ca_cache c') = Some u" for d u
  proof (cases "cache_eq desc d")
    case True
    then have "tile = Some u" using u cache tile find_desc_cong [OF True, of "ca_cache c1"] by simp
    then obtain fs where fs: "represents u (append_frame (td_wireId desc) dat fs)"
      "is_keyframe dat \<or> (\<exists>t0. find_desc desc (ca_cache c) = Some t0 \<and> represents t0 fs)" using frames by blast
    show ?thesis
    proof (cases "is_keyframe dat")
      case key: True
      have "in_step (append_frame (td_wireId desc) dat fs) (last_sent d (cs_tracker s)) (copy_after d (cs_senderQueue s) (copy d))"
        using in_step_keyframe [OF _ assms(3) key] seq by blast
      then show ?thesis using fs(1) frames_ok_keyframe [OF assms(3) key] by (auto simp: tile_in_step_def)
    next
      case no: False
      then obtain t0 where t0: "find_desc d (ca_cache c) = Some t0" "represents t0 fs"
        using fs(2) find_desc_cong [OF True, of "ca_cache c"] by auto
      then have "frames_ok newest fs" "in_step fs (last_sent d (cs_tracker s)) (copy_after d (cs_senderQueue s) (copy d))"
        using tis [OF t0(1)] represents_unique by (auto simp: tile_in_step_def)
      then have "frames_ok (td_wireId desc) (append_frame (td_wireId desc) dat fs)"
        "in_step (append_frame (td_wireId desc) dat fs) (last_sent d (cs_tracker s)) (copy_after d (cs_senderQueue s) (copy d))"
        using frames_ok_append [OF _ assms(3) no] in_step_append [OF _ _ assms(3) _ no] seq by blast+
      then show ?thesis using fs(1) by (auto simp: tile_in_step_def)
    qed
  next
    case False
    then have "find_desc d (ca_cache c) = Some u" using rest u cache by auto
    then show ?thesis using tis frames_ok_mono [OF _ less_imp_le [OF assms(3)]] by (fastforce simp: tile_in_step_def)
  qed
  then show "delivery_ok view_of c' s copy (td_wireId desc)"
    using ok wf' seq assms(3) unfolding delivery_ok_def by (meson less_imp_le order_trans)
  assume m: "map_of sends sid = Some t"
  then have "tile = Some t" using r(1) map_of_SomeD [OF m] by (auto split: option.splits)
  then show "find_desc desc (ca_cache c') = Some t \<and> last (ti_wids t) = td_wireId desc"
    using frames tile cache represents_wids by (fastforce simp: last_map)
qed

lemma delivery_ok_cache:
  assumes "delivery_ok view_of c s copy newest" "ca_wf c'" "ca_dontCache c' = ca_dontCache c"
    and "\<And>d t. find_desc d (ca_cache c') = Some t \<Longrightarrow> \<exists>u. find_desc d (ca_cache c) = Some u \<and> (\<forall>fs. represents t fs = represents u fs)"
  shows "delivery_ok view_of c' s copy newest"
  using assms unfolding delivery_ok_def tile_in_step_def by metis

lemma delivery_invariant: "delivery view_of sid c s copy newest \<Longrightarrow> delivery_ok view_of c s copy newest"
proof (induction rule: delivery.induct)
  case start
  have "ca_cache (mk_tile_cache False) = []" "\<not> ca_dontCache (mk_tile_cache False)" by (simp_all add: mk_tile_cache_def)
  then show ?case by (simp add: delivery_ok_def ca_wf_init queue_ok_def mk_client_session_def last_sent_def)
next
  case (reply c s copy newest dat desc en alive sends c' sent s')
  have ok: "delivery_ok view_of c' s copy (td_wireId desc)"
    and tile: "\<And>t. map_of sends sid = Some t \<Longrightarrow> find_desc desc (ca_cache c') = Some t \<and> last (ti_wids t) = td_wireId desc"
    using delivery_ok_save [OF reply.IH reply.hyps(2,5,7)] by blast+
  show ?case
  proof (cases "map_of sends sid")
    case None
    then show ?thesis using ok reply.hyps(8) by simp
  next
    case (Some t)
    then show ?thesis
      using delivery_ok_send [OF ok, of desc t en sent s'] tile [OF Some] reply.hyps(3,4,6,8) by simp
  qed
next
  case (cached c s copy newest desc t en sent s')
  have "find_desc desc (ca_cache c) = Some t"
    using cached.hyps(2) by (auto simp: lookup_tile_def find_tile_def split: if_splits)
  then show ?case using cached.hyps(3-7) by (rule delivery_ok_send [OF cached.IH])
next
  case (take c s copy newest m q)
  have q: "cs_senderQueue s = m # q" using take.hyps(2) by (auto simp: sq_dequeue_def split: list.splits)
  have "queue_ok view_of q" using dequeue_ok [of view_of "cs_senderQueue s" False] take by (simp add: delivery_ok_def)
  moreover have "apply_message d m (copy d) = apply_message e m (copy e)" if "cache_eq d e" for d e
    using take.IH that apply_message_cong [OF that] by (simp add: delivery_ok_def)
  ultimately show ?case using take.IH by (simp add: delivery_ok_def q)
next
  case (reset c s copy newest desc)
  have zero: "in_step fs (map_option (\<lambda>_. 0) x) y" if "frames_ok newest fs" for fs x y
    using that by (cases fs) (auto simp: in_step_def frames_ok_def)
  have tr: "last_sent d (cs_tracker (cs_reset_tile_seq desc s)) =
      (if cache_eq desc d then map_option (\<lambda>_. 0) (last_sent d (cs_tracker s)) else last_sent d (cs_tracker s))" for d
    by (simp add: cs_reset_tile_seq_def last_sent_reset)
  have same: "cs_senderQueue (cs_reset_tile_seq desc s) = cs_senderQueue s"
    "cs_isCloseFrame (cs_reset_tile_seq desc s) = cs_isCloseFrame s" by (simp_all add: cs_reset_tile_seq_def)
  have "tile_in_step newest t (last_sent d (cs_tracker (cs_reset_tile_seq desc s))) (copy_after d (cs_senderQueue s) (copy d))"
    if "find_desc d (ca_cache c) = Some t" for d t
  proof -
    have "tile_in_step newest t (last_sent d (cs_tracker s)) (copy_after d (cs_senderQueue s) (copy d))"
      using reset.IH that by (simp add: delivery_ok_def)
    then show ?thesis using zero by (auto simp: tile_in_step_def tr)
  qed
  moreover have "w \<le> newest" if "last_sent d (cs_tracker (cs_reset_tile_seq desc s)) = Some w" for d w
    using that reset.IH by (auto simp: delivery_ok_def tr split: if_splits)
  ultimately show ?case using reset.IH by (simp add: delivery_ok_def same)
next
  case (session c s copy newest s')
  then show ?case by (simp add: delivery_ok_def)
next
  case (subscribe c s copy newest tile other now)
  then show ?case using subscribe_wf by (intro delivery_ok_cache [OF subscribe.IH]) (auto simp: delivery_ok_def)
next
  case (invalidate c s copy newest prt mode x y w h view)
  have wf: "ca_wf c" using invalidate.IH by (simp add: delivery_ok_def)
  have apart: "keys_apart (ca_cache c)" using wf by (simp add: ca_wf_def tiles_ok_def)
  show ?case
  proof (rule delivery_ok_cache [OF invalidate.IH invalidate_area_wf [OF wf]])
    show "ca_dontCache (snd (invalidate_area prt mode x y w h view c)) = ca_dontCache c" by (simp add: invalidate_area_map)
    show "\<exists>u. find_desc d (ca_cache c) = Some u \<and> (\<forall>fs. represents t fs = represents u fs)"
      if "find_desc d (ca_cache (snd (invalidate_area prt mode x y w h view c))) = Some t" for d t
      using that find_desc_invalidated [OF apart, of d "\<lambda>e. intersects_tile e prt mode x y w h view" ti_invalidate]
      by (auto simp: invalidate_area_map split: option.splits if_splits)
  qed
next
  case (resize c s copy newest n c')
  have wf: "ca_wf (c\<lparr>ca_maxCacheSize := n\<rparr>)" using resize.IH by (simp add: delivery_ok_def ca_wf_def)
  let ?c = "c\<lparr>ca_maxCacheSize := n\<rparr>"
  obtain d where e: "ensure_cache_size ?c = Ok d" "ca_wf d" "ca_rendering d = ca_rendering ?c" "ca_dontCache d = ca_dontCache ?c"
      "ca_streams d = ca_streams ?c"
      "\<forall>k t. find_desc k (ca_cache ?c) = Some t \<and> find_desc k (ca_rendering ?c) \<noteq> None \<longrightarrow> find_desc k (ca_cache d) = Some t"
      "\<forall>k t. find_desc k (ca_cache d) = Some t \<longrightarrow> find_desc k (ca_cache ?c) = Some t"
    using wf by (rule ensure_cache_size_ok)
  have "ca_cache ?c = ca_cache c" "ca_dontCache ?c = ca_dontCache c" by simp_all
  note d = e(1,2) e(4,7) [unfolded this]
  have "c' = d" using d(1) resize.hyps(2) by (simp add: set_max_cache_size_def)
  then show ?case using d(2-4) by (intro delivery_ok_cache [OF resize.IH]) blast+
next
  case (clear c s copy newest)
  have "ca_wf (ca_clear c)" using clear.IH by (simp add: delivery_ok_def ca_clear_wf)
  then show ?case by (intro delivery_ok_cache [OF clear.IH]) (simp_all add: ca_clear_def)
qed

end
