(* ===== verification/SlideCaches.thy ===== *)
theory SlideCaches
  imports Messages "HOL-Library.AList"
begin

text \<open>
  \<open>SlideLayerCacheMap\<close> of src/wsd/SlideCache.hpp and src/wsd/SlideCache.cpp: the rendered layers
  of the slides shown last, kept by a key, at most a number of slides. The hash map is an
  association list.
\<close>

section \<open>The cache\<close>

record slide_cache =
  sc_map :: "(string \<times> message list) list"
  sc_order :: "string list"
  sc_max_size :: nat

definition mk_slide_cache :: "nat \<Rightarrow> slide_cache" where
  "mk_slide_cache maxSize = \<lparr>sc_map = [], sc_order = [], sc_max_size = maxSize\<rparr>"

definition sc_find :: "string \<Rightarrow> slide_cache \<Rightarrow> message list option" where
  "sc_find key c = map_of (sc_map c) key"

definition sc_size :: "slide_cache \<Rightarrow> nat" where
  "sc_size c = length (sc_map c)"

text \<open>The loop of \<open>reduceSizeTo\<close>; taking the front of an empty order is undefined.\<close>

fun reduce_loop :: "nat \<Rightarrow> (string \<times> message list) list \<Rightarrow> string list \<Rightarrow> nat \<Rightarrow>
    (nat \<times> (string \<times> message list) list \<times> string list) res" where
  "reduce_loop desired m [] deleted = (if length m > desired then Err OutOfBounds else Ok (deleted, m, []))"
| "reduce_loop desired m (k # ks) deleted =
    (if length m > desired then reduce_loop desired (AList.delete k m) ks (deleted + 1)
     else Ok (deleted, m, k # ks))"

definition reduce_size_to :: "nat \<Rightarrow> slide_cache \<Rightarrow> (nat \<times> slide_cache) res" where
  "reduce_size_to desired c =
    (if sc_size c \<le> desired then Ok (0, c)
     else res_bind (reduce_loop desired (sc_map c) (sc_order c) 0) (\<lambda>(n, m, ks). Ok (n, c\<lparr>sc_map := m, sc_order := ks\<rparr>)))"

text \<open>\<open>std::rotate(pos, pos + 1, end)\<close> at the first element equal to the key: it moves to the end\<close>

definition move_to_end :: "string \<Rightarrow> string list \<Rightarrow> string list" where
  "move_to_end key ks =
    (let before = takeWhile (\<lambda>k. k \<noteq> key) ks; rest = dropWhile (\<lambda>k. k \<noteq> key) ks
     in case rest of [] \<Rightarrow> ks | k # after \<Rightarrow> before @ after @ [k])"

definition sc_insert :: "string \<Rightarrow> message \<Rightarrow> slide_cache \<Rightarrow> slide_cache res" where
  "sc_insert key dat c =
    res_bind
      (if map_of (sc_map c) key \<noteq> None then
         (if sc_order c = [] then Err OutOfBounds
          else Ok (if last (sc_order c) \<noteq> key then move_to_end key (sc_order c) else sc_order c))
       else Ok (sc_order c @ [key]))
      (\<lambda>order.
        let old = (case map_of (sc_map c) key of None \<Rightarrow> [] | Some ms \<Rightarrow> ms);
            c' = c\<lparr>sc_order := order, sc_map := AList.update key (old @ [dat]) (sc_map c)\<rparr>
        in res_bind (reduce_size_to (sc_max_size c) c') (\<lambda>(n, c''). Ok c''))"

definition sc_erase_all :: "slide_cache \<Rightarrow> slide_cache" where
  "sc_erase_all c = c\<lparr>sc_map := [], sc_order := []\<rparr>"

section \<open>The invariant\<close>

text \<open>The order lists each key once, and the size is bounded.\<close>

definition sc_wf :: "slide_cache \<Rightarrow> bool" where
  "sc_wf c \<longleftrightarrow> distinct (map fst (sc_map c)) \<and> distinct (sc_order c) \<and> set (sc_order c) = set (map fst (sc_map c)) \<and>
    sc_size c \<le> sc_max_size c"

lemma move_to_end_present:
  assumes "key \<in> set ks" "distinct ks"
  shows "move_to_end key ks = remove1 key ks @ [key]"
proof -
  obtain xs ys where ks: "ks = xs @ key # ys" "key \<notin> set xs" using assms(1) by (meson split_list_first)
  then have "takeWhile (\<lambda>k. k \<noteq> key) ks = xs" "dropWhile (\<lambda>k. k \<noteq> key) ks = key # ys" by (auto simp: takeWhile_append dropWhile_append)
  then show ?thesis using ks by (simp add: move_to_end_def remove1_append)
qed

text \<open>Reducing keeps the last keys of the order.\<close>

lemma reduce_loop_keeps:
  assumes "distinct (map fst m)" "distinct ks" "set ks = set (map fst m)"
  shows "reduce_loop desired m ks n =
    Ok (n + (length ks - desired), filter (\<lambda>p. fst p \<in> set (drop (length ks - desired) ks)) m, drop (length ks - desired) ks)"
  using assms
proof (induction desired m ks n rule: reduce_loop.induct)
  case (2 desired m k ks n)
  have len: "length m = Suc (length ks)"
    using "2.prems" by (metis distinct_card length_Cons length_map)
  show ?case
  proof (cases "length m > desired")
    case True
    have "set ks = set (map fst (AList.delete k m))" using "2.prems" by (auto simp: delete_keys)
    moreover have "distinct (map fst (AList.delete k m))" using "2.prems"(1) by (rule distinct_delete)
    ultimately have "reduce_loop desired (AList.delete k m) ks (n + 1) =
        Ok (n + 1 + (length ks - desired), filter (\<lambda>p. fst p \<in> set (drop (length ks - desired) ks)) (AList.delete k m),
          drop (length ks - desired) ks)"
      using "2.IH" [OF True] "2.prems"(2) by simp
    moreover have "filter (\<lambda>p. fst p \<in> set (drop (length ks - desired) ks)) (AList.delete k m) =
        filter (\<lambda>p. fst p \<in> set (drop (length ks - desired) ks)) m"
    proof -
      have "k \<notin> set (drop i ks)" for i using "2.prems"(2) by (auto dest: in_set_dropD)
      then show ?thesis unfolding AList.delete_eq filter_filter by (intro filter_cong) auto
    qed
    ultimately show ?thesis using True len by (simp add: Suc_diff_le)
  next
    case False
    then have "length ks + 1 \<le> desired" using len by simp
    moreover have "filter (\<lambda>p. fst p \<in> set (k # ks)) m = m" using "2.prems"(3) by (intro filter_True) auto
    ultimately show ?thesis using False by simp
  qed
qed simp

end
