(* ===== verification/Brokers.thy ===== *)
theory Brokers
  imports ClientTiles SlideCaches TileCombineds
begin

text \<open>
  The tiles of a document in the server, src/wsd/DocumentBroker.cpp and \<open>handleTileInvalidation\<close>
  and the tile commands of src/wsd/ClientSession.cpp: what a request of a client, an invalidation
  and a reply of the kit do to the cache, the sessions and the messages sent to the kit.

  A handler reads the clock once. An exception of the parser is caught where the code catches it;
  one thrown later is an error value, as the state then left half changed is not described. Access
  through the null pointer of a cache is an error as well. The flag \<open>setHasOldWireId\<close> sets on
  the request is not kept, as only the tiles of the request are used after it.
\<close>

section \<open>The broker\<close>

record broker =
  db_tileVersion :: "64 word"
  db_tileCache :: "tile_cache option"
  db_slideLayerCache :: slide_cache
  db_sessions :: "session_id \<Rightarrow> client_session"
  db_alive :: "session_id \<Rightarrow> bool"
  db_toChild :: "string list"
  db_debugRenderedTileCount :: int

definition mk_broker :: broker where
  "mk_broker = \<lparr>db_tileVersion = 0, db_tileCache = None, db_slideLayerCache = mk_slide_cache 25,
    db_sessions = (\<lambda>_. mk_client_session), db_alive = (\<lambda>_. False), db_toChild = [], db_debugRenderedTileCount = 0\<rparr>"

definition set_session :: "session_id \<Rightarrow> client_session \<Rightarrow> broker \<Rightarrow> broker" where
  "set_session sid s b = b\<lparr>db_sessions := (db_sessions b)(sid := s)\<rparr>"

definition send_to_child :: "string \<Rightarrow> broker \<Rightarrow> broker" where
  "send_to_child m b = b\<lparr>db_toChild := db_toChild b @ [m]\<rparr>"

definition the_cache :: "broker \<Rightarrow> tile_cache res" where
  "the_cache b = (case db_tileCache b of None \<Rightarrow> Err OutOfBounds | Some c \<Rightarrow> Ok c)"

text \<open>\<open>_tileVersion\<close> as the version of a descriptor\<close>

definition version_of :: "64 word \<Rightarrow> int" where
  "version_of v = s32 (uint v)"

text \<open>\<open>_wids.back()\<close>\<close>

definition last_wid :: "tile_data \<Rightarrow> wire_id res" where
  "last_wid t = (if ti_wids t = [] then Err OutOfBounds else Ok (last (ti_wids t)))"

text \<open>A request without a wire id is answered with that of the cached tile.\<close>

definition with_wire_id :: "tile_data \<Rightarrow> tile_desc \<Rightarrow> tile_desc res" where
  "with_wire_id cached tile =
    (if td_wireId tile = 0 then res_bind (last_wid cached) (\<lambda>w. Ok (tile\<lparr>td_wireId := w\<rparr>)) else Ok tile)"

text \<open>The result of a parser, with what is done when it throws\<close>

fun catch_parse :: "'a res \<Rightarrow> ('a \<Rightarrow> 'b res) \<Rightarrow> 'b res \<Rightarrow> 'b res" where
  "catch_parse (Ok x) f other = f x"
| "catch_parse (Err (BadArgument m)) f other = other"
| "catch_parse (Err (RuntimeError m)) f other = other"
| "catch_parse (Err AssertionFailed) f other = Err AssertionFailed"
| "catch_parse (Err OutOfBounds) f other = Err OutOfBounds"

section \<open>Requests\<close>

text \<open>\<open>handleTileRequest\<close> after the parser\<close>

definition handle_tile_desc :: "send_env \<Rightarrow> tile_desc \<Rightarrow> bool \<Rightarrow> session_id \<Rightarrow> broker \<Rightarrow> broker res" where
  "handle_tile_desc en t forceKeyframe sid b =
     (let ver = db_tileVersion b + 1;
          tile = t\<lparr>td_canonicalViewId := cs_canonicalViewId (db_sessions b sid), td_ver := version_of ver\<rparr>;
          tileMsg = serialize tile [] [];
          b1 = b\<lparr>db_tileVersion := ver\<rparr>
      in case db_tileCache b1 of
        None \<Rightarrow> Ok b1
      | Some c \<Rightarrow>
          let b2 = (if forceKeyframe then set_session sid (cs_reset_tile_seq tile (db_sessions b1 sid)) b1 else b1);
              request = (\<lambda>tile. Ok (send_to_child (''tile '' @ tileMsg)
                (b2\<lparr>db_tileCache := Some (snd (subscribe_to_tile_rendering tile sid (en_now en) c)),
                    db_debugRenderedTileCount := s32 (db_debugRenderedTileCount b2 + 1)\<rparr>)))
          in case lookup_tile tile c of
            None \<Rightarrow> request (force_keyframe tile)
          | Some cached \<Rightarrow>
              if ti_valid cached then
                res_bind (with_wire_id cached tile) (\<lambda>tile'.
                  res_bind (send_tile_now en tile' cached (db_sessions b2 sid)) (\<lambda>(sent, s). Ok (set_session sid s b2)))
              else request (if too_large cached then force_keyframe tile else tile))"

definition handle_tile_request :: "send_env \<Rightarrow> string_vector \<Rightarrow> bool \<Rightarrow> session_id \<Rightarrow> broker \<Rightarrow> broker res" where
  "handle_tile_request en tokens forceKeyframe sid b =
    res_bind (parse_tile_tokens tokens) (\<lambda>t. handle_tile_desc en t forceKeyframe sid b)"

definition send_tile_combine :: "tile_combined \<Rightarrow> broker \<Rightarrow> broker res" where
  "send_tile_combine tc b =
    (if has_duplicates tc then Err AssertionFailed else Ok (send_to_child (tc_serialize tc ''tilecombine'' []) b))"

text \<open>
  \<open>requestTileRendering\<close>: whether the tile matches the others, the tile as it was changed, the
  tiles that need rendering and the cache
\<close>

definition request_tile_rendering ::
    "tile_desc \<Rightarrow> bool \<Rightarrow> int \<Rightarrow> int \<Rightarrow> tile_desc list \<Rightarrow> session_id \<Rightarrow> tile_cache \<Rightarrow> bool \<times> tile_desc \<times> tile_desc list \<times> tile_cache" where
  "request_tile_rendering tile forceKeyframe version now needs sid c =
    (if \<not> has_tile_being_rendered tile (Some now) c \<or> get_tile_being_rendered_version tile c < td_ver tile then
       let t1 = tile\<lparr>td_ver := version\<rparr>;
           t2 = (if forceKeyframe then force_keyframe t1 else t1)
       in (needs = [] \<or> same_tile_combine_params t2 (last needs), t2, needs @ [t2], snd (subscribe_to_tile_rendering t2 sid now c))
     else (True, tile, needs, snd (subscribe_to_tile_rendering tile sid now c)))"

text \<open>One tile of a combined request: the tiles as changed, those that need rendering, whether one
  has an old wire id, the cache and the session\<close>

definition combined_request_step ::
    "int \<Rightarrow> bool \<Rightarrow> int \<Rightarrow> session_id \<Rightarrow> tile_desc \<Rightarrow>
     tile_desc list \<times> tile_desc list \<times> bool \<times> tile_cache \<times> client_session \<Rightarrow>
     tile_desc list \<times> tile_desc list \<times> bool \<times> tile_cache \<times> client_session" where
  "combined_request_step now canForceKeyframe version sid tile st =
    (case st of (tiles, needs, hasOld, c, s) \<Rightarrow>
       let t1 = tile\<lparr>td_ver := version\<rparr>;
           forced = canForceKeyframe \<and> is_forced_keyframe t1;
           s1 = (if forced then cs_reset_tile_seq t1 s else s);
           t2 = (if forced then t1\<lparr>td_oldWireId := 1\<rparr> else t1);
           cached = lookup_tile t2 c;
           tooLarge = (case cached of None \<Rightarrow> False | Some t \<Rightarrow> too_large t)
       in if (case cached of None \<Rightarrow> True | Some t \<Rightarrow> \<not> ti_valid t) \<or> tooLarge then
            let forceKeyFrame = (cached = None \<or> tooLarge);
                t3 = (if forceKeyFrame then force_keyframe t2 else t2)
            in case request_tile_rendering t3 forceKeyFrame version now needs sid c of
              (same, t4, needs', c') \<Rightarrow> (tiles @ [t4], needs', hasOld \<or> forced, c', s1)
          else (tiles @ [t2], needs, hasOld \<or> forced, c, s1))"

text \<open>Accumulating requested tiles: a tile already there takes the newer version and wire ids\<close>

fun merge_requested_tile :: "tile_desc \<Rightarrow> tile_desc list \<Rightarrow> tile_desc list" where
  "merge_requested_tile new [] = [new]"
| "merge_requested_tile new (old # ts) =
    (if td_tilePosX old = td_tilePosX new \<and> td_tilePosY old = td_tilePosY new \<and> same_tile_combine_params old new
     then old\<lparr>td_ver := td_ver new, td_oldWireId := td_oldWireId new, td_wireId := td_wireId new\<rparr> # ts
     else old # merge_requested_tile new ts)"

definition accumulate_tiles :: "int \<Rightarrow> tile_desc list \<Rightarrow> tile_desc list \<Rightarrow> tile_desc list" where
  "accumulate_tiles view new requested =
    (if requested = [] then new
     else foldl (\<lambda>ts t. merge_requested_tile t ts)
       (map (\<lambda>t. if td_canonicalViewId t \<noteq> view then t\<lparr>td_canonicalViewId := view\<rparr> else t) requested) new)"

section \<open>Sending requested tiles\<close>

text \<open>The state of the loop of \<open>sendRequestedTiles\<close>\<close>

record sending =
  se_bumpedVersion :: bool
  se_tileVersion :: "64 word"
  se_needsRendering :: "tile_desc list"
  se_allSame :: bool
  se_cache :: tile_cache
  se_session :: client_session

definition send_requested_step :: "send_env \<Rightarrow> session_id \<Rightarrow> tile_desc \<Rightarrow> sending \<Rightarrow> sending res" where
  "send_requested_step en sid tile st =
    (let cached = lookup_tile tile (se_cache st);
         render =
           (let v = (if se_bumpedVersion st then se_tileVersion st else se_tileVersion st + 1)
            in case request_tile_rendering tile (cached = None) (version_of v) (en_now en) (se_needsRendering st) sid (se_cache st) of
              (same, t, needs, c) \<Rightarrow>
                Ok (st\<lparr>se_bumpedVersion := True, se_tileVersion := v, se_needsRendering := needs,
                  se_allSame := se_allSame st \<and> same, se_cache := c\<rparr>))
     in case cached of
       None \<Rightarrow> render
     | Some t \<Rightarrow>
         if ti_valid t then
           res_bind (with_wire_id t tile) (\<lambda>tile'.
             res_bind (send_tile_now en tile' t (se_session st)) (\<lambda>(sent, s). Ok (st\<lparr>se_session := s\<rparr>)))
         else render)"

fun send_requested_loop :: "send_env \<Rightarrow> nat \<Rightarrow> session_id \<Rightarrow> tile_desc list \<Rightarrow> sending \<Rightarrow> (tile_desc list \<times> sending) res" where
  "send_requested_loop en limit sid [] st = Ok ([], st)"
| "send_requested_loop en limit sid (tile # ts) st =
    (if get_tiles_on_fly_count (se_session st) < limit
     then res_bind (send_requested_step en sid tile st) (send_requested_loop en limit sid ts)
     else Ok (tile # ts, st))"

text \<open>Tiles grouped by what a combined request shares\<close>

fun insert_group :: "tile_desc \<Rightarrow> tile_desc list list \<Rightarrow> tile_desc list list" where
  "insert_group t [] = [[t]]"
| "insert_group t (g # gs) = (if same_tile_combine_params t (g ! 0) then (g @ [t]) # gs else g # insert_group t gs)"

definition group_tiles :: "tile_desc list \<Rightarrow> tile_desc list list" where
  "group_tiles ts = foldl (\<lambda>gs t. insert_group t gs) [] ts"

definition send_render_requests :: "bool \<Rightarrow> tile_desc list \<Rightarrow> broker \<Rightarrow> broker res" where
  "send_render_requests allSame needs b =
    (if needs = [] then Ok b
     else if allSame then res_bind (tc_create needs) (\<lambda>tc. send_tile_combine tc b)
     else res_fold (\<lambda>g b. res_bind (tc_create g) (\<lambda>tc. send_tile_combine tc b)) (group_tiles needs) b)"

definition send_requested_tiles :: "send_env \<Rightarrow> session_id \<Rightarrow> broker \<Rightarrow> broker res" where
  "send_requested_tiles en sid b =
    (let limit = get_tiles_on_fly_upper_limit (db_sessions b sid);
         s = remove_outdated_tiles_on_fly (en_now en) (db_sessions b sid);
         b1 = set_session sid s b
     in case db_tileCache b1 of
       None \<Rightarrow> Ok b1
     | Some c \<Rightarrow>
         if cs_requestedTiles s = [] then Ok b1
         else res_bind (send_requested_loop en limit sid (cs_requestedTiles s)
             \<lparr>se_bumpedVersion = False, se_tileVersion = db_tileVersion b1, se_needsRendering = [], se_allSame = True,
               se_cache = c, se_session = s\<rparr>) (\<lambda>(rest, st).
           send_render_requests (se_allSame st) (se_needsRendering st)
             (set_session sid ((se_session st)\<lparr>cs_requestedTiles := rest\<rparr>)
               (b1\<lparr>db_tileVersion := se_tileVersion st, db_tileCache := Some (se_cache st),
                 db_debugRenderedTileCount := s32 (db_debugRenderedTileCount b1 + int (length (se_needsRendering st)))\<rparr>))))"

definition handle_tile_combined_request :: "send_env \<Rightarrow> tile_combined \<Rightarrow> bool \<Rightarrow> session_id \<Rightarrow> broker \<Rightarrow> broker res" where
  "handle_tile_combined_request en tc canForceKeyframe sid b =
    (if has_duplicates tc then Err AssertionFailed
     else case db_tileCache b of
       None \<Rightarrow> Ok b
     | Some c \<Rightarrow>
         let ver = db_tileVersion b + 1
         in case fold (combined_request_step (en_now en) canForceKeyframe (version_of ver) sid) (tc_tiles tc)
             ([], [], False, c, db_sessions b sid) of
           (tiles, needs, hasOld, c', s) \<Rightarrow>
             let b1 = set_session sid s (b\<lparr>db_tileVersion := ver, db_tileCache := Some c',
                   db_debugRenderedTileCount := s32 (db_debugRenderedTileCount b + int (length needs))\<rparr>)
             in res_bind (if needs = [] then Ok b1 else res_bind (tc_create needs) (\<lambda>r. send_tile_combine r b1)) (\<lambda>b2.
               let s2 = db_sessions b2 sid;
                   b3 = set_session sid (s2\<lparr>cs_requestedTiles :=
                     accumulate_tiles (cs_canonicalViewId s2) tiles (cs_requestedTiles s2)\<rparr>) b2
               in send_requested_tiles en sid b3))"

section \<open>Replies of the kit\<close>

text \<open>\<open>saveTileAndNotify\<close> with the sends it makes\<close>

definition save_and_send :: "send_env \<Rightarrow> tile_desc \<Rightarrow> byte list \<Rightarrow> broker \<Rightarrow> broker res" where
  "save_and_send en desc dat b =
    res_bind (the_cache b) (\<lambda>c.
      res_bind (save_tile_and_notify (db_alive b) desc dat c) (\<lambda>(sends, c').
        res_fold (\<lambda>(sid, tile) b. res_bind (send_tile_now en desc tile (db_sessions b sid)) (\<lambda>(sent, s). Ok (set_session sid s b)))
          sends (b\<lparr>db_tileCache := Some c'\<rparr>)))"

definition handle_tile_response :: "send_env \<Rightarrow> message \<Rightarrow> broker \<Rightarrow> broker res" where
  "handle_tile_response en m b =
    (let firstLine = message_first_line m; len = me_size m
     in if len = 0 \<or> length firstLine < len - 1
        then catch_parse (parse_tile firstLine)
          (\<lambda>tile. save_and_send en tile (bytes (drop (length firstLine + 1) (me_data m))) b) (Ok b)
        else Ok b)"

text \<open>The images of a combined reply follow one another; the sizes are trusted, and reading past
  the end is an error.\<close>

fun save_images :: "send_env \<Rightarrow> tile_desc list \<Rightarrow> byte list \<Rightarrow> broker \<Rightarrow> broker res" where
  "save_images en [] dat b = Ok b"
| "save_images en (t # ts) dat b =
    (let n = nat (td_imgSize t)
     in if n > length dat then Err OutOfBounds
        else res_bind (save_and_send en t (take n dat) b) (save_images en ts (drop n dat)))"

definition handle_tile_combined_response :: "send_env \<Rightarrow> message \<Rightarrow> broker \<Rightarrow> broker res" where
  "handle_tile_combined_response en m b =
    (let firstLine = message_first_line m; len = me_size m
     in if len = 0 \<or> length firstLine \<le> len - 1
        then catch_parse (parse_combined firstLine)
          (\<lambda>tc. save_images en (tc_tiles tc) (bytes (drop (length firstLine + 1) (me_data m))) b) (Ok b)
        else Ok b)"

section \<open>Commands of the client\<close>

text \<open>The first component is what the code returns. A tile that cannot be parsed and a combined request
  with duplicates are answered by an error message.\<close>

definition send_error :: "send_env \<Rightarrow> session_id \<Rightarrow> broker \<Rightarrow> (bool \<times> broker) res" where
  "send_error en sid b =
    res_bind (send_text_frame en ''error: cmd=tile kind=invalid'' (db_sessions b sid)) (\<lambda>(sent, s). Ok (sent, set_session sid s b))"

definition send_tile :: "send_env \<Rightarrow> string_vector \<Rightarrow> session_id \<Rightarrow> broker \<Rightarrow> (bool \<times> broker) res" where
  "send_tile en tokens sid b =
    catch_parse (parse_tile_tokens tokens)
      (\<lambda>t. res_bind (handle_tile_request en tokens True sid b) (\<lambda>b'. Ok (True, b'))) (send_error en sid b)"

definition send_combined_tiles :: "send_env \<Rightarrow> string_vector \<Rightarrow> session_id \<Rightarrow> broker \<Rightarrow> (bool \<times> broker) res" where
  "send_combined_tiles en tokens sid b =
    catch_parse (parse_combined_tokens tokens) (\<lambda>tc0.
      let tc = tc_set_canonical_view_id (cs_canonicalViewId (db_sessions b sid)) tc0
      in if has_duplicates tc then send_error en sid b
         else res_bind (handle_tile_combined_request en tc True sid b) (\<lambda>b'. Ok (True, b'))) (Ok (True, b))"

definition tile_processed :: "send_env \<Rightarrow> string_vector \<Rightarrow> session_id \<Rightarrow> broker \<Rightarrow> broker res" where
  "tile_processed en tokens sid b =
    (case handle_tile_processed tokens (db_sessions b sid) of
       (ok, s) \<Rightarrow> if ok then send_requested_tiles en sid (set_session sid s b) else Ok b)"

section \<open>Invalidation\<close>

definition db_invalidate_tiles :: "string \<Rightarrow> int \<Rightarrow> broker \<Rightarrow> broker res" where
  "db_invalidate_tiles tiles view b =
    res_bind (the_cache b) (\<lambda>c.
      res_bind (invalidate_tiles tiles view c) (\<lambda>(r, c').
        Ok (b\<lparr>db_tileCache := Some c', db_slideLayerCache := sc_erase_all (db_slideLayerCache b)\<rparr>)))"

definition clear_caches :: "broker \<Rightarrow> broker" where
  "clear_caches b = b\<lparr>db_tileCache := map_option ca_clear (db_tileCache b), db_slideLayerCache := sc_erase_all (db_slideLayerCache b)\<rparr>"

text \<open>\<open>std::ceil(a / static_cast<double>(b))\<close>, which is exact for 32-bit numbers, as an \<open>int\<close>\<close>

definition ceil_div :: "int \<Rightarrow> int \<Rightarrow> int" where
  "ceil_div a b = s32 (- ((- a) div b))"

text \<open>The panes that meet the invalidated area\<close>

definition invalid_panes :: "client_session \<Rightarrow> rectangle \<Rightarrow> rectangle list" where
  "invalid_panes s r =
    filter (\<lambda>p. rect_intersects p r) (map (get_normalized_visible_pane_area s) (filter (is_split_pane s) all_panes))"

text \<open>The positions, in numbers of tiles, that the loops go through in a pane: rows, then columns\<close>

definition pane_positions :: "client_session \<Rightarrow> rectangle \<Rightarrow> (int \<times> int) list" where
  "pane_positions s a =
    (let tw = cs_tileWidthTwips s; th = cs_tileHeightTwips s
     in concat (map (\<lambda>i. map (\<lambda>j. (j, i)) [cdiv (rx1 a) tw..ceil_div (rx2 a) tw])
       [cdiv (ry1 a) th..ceil_div (ry2 a) th]))"

text \<open>The body of the loops: the tile at a position is added unless it is there or not affected\<close>

definition invalid_tile_step ::
    "client_session \<Rightarrow> tile_cache option \<Rightarrow> int \<Rightarrow> int \<Rightarrow> rectangle \<Rightarrow> int \<times> int \<Rightarrow> tile_desc list \<Rightarrow> tile_desc list res" where
  "invalid_tile_step s c prt mode r pos invalidTiles =
    (let tw = cs_tileWidthTwips s; th = cs_tileHeightTwips s;
         x = s32 (fst pos * tw); y = s32 (snd pos * th)
     in if rect_intersects r (rect_of_extent x y tw th) then
          res_bind (mk_tile_desc (cs_canonicalViewId s) prt mode (cs_tileWidthPixel s) (cs_tileHeightPixel s) x y tw th (-1) 0 (-1))
            (\<lambda>desc.
              if list_ex (\<lambda>t. tile_eq t desc) invalidTiles then Ok invalidTiles
              else
                let makeDelta = (case c of None \<Rightarrow> 1 | Some c \<Rightarrow> if lookup_tile desc c = None then 0 else 1)
                in Ok (invalidTiles @ [desc\<lparr>td_oldWireId := makeDelta, td_wireId := 0\<rparr>]))
        else Ok invalidTiles)"

definition handle_tile_invalidation :: "send_env \<Rightarrow> string \<Rightarrow> session_id \<Rightarrow> broker \<Rightarrow> broker res" where
  "handle_tile_invalidation en message sid b =
    res_bind (db_invalidate_tiles message (cs_canonicalViewId (db_sessions b sid)) b) (\<lambda>b1.
      let s = db_sessions b1 sid
      in if \<not> rect_has_surface (cs_clientVisibleArea s) \<or> cs_tileWidthPixel s = 0 \<or> cs_tileHeightPixel s = 0 \<or>
            cs_tileWidthTwips s = 0 \<or> cs_tileHeightTwips s = 0 \<or> (cs_clientSelectedPart s = -1 \<and> \<not> cs_isTextDocument s)
         then Ok b1
         else if cs_isCloseFrame s then Ok b1
         else res_bind (parse_invalidate_msg message) (\<lambda>m.
           let panes = invalid_panes s (im_rect m);
               prt = (if im_part m = -1 then cs_clientSelectedPart s else im_part m)
           in if panes = [] then Ok b1
              else if (prt = cs_clientSelectedPart s \<and> im_mode m = cs_clientSelectedMode s) \<or> cs_isTextDocument s then
                res_bind (res_fold (invalid_tile_step s (db_tileCache b1) prt (im_mode m) (im_rect m))
                  (concat (map (pane_positions s) panes)) []) (\<lambda>tiles.
                    if tiles = [] then Ok b1
                    else res_bind (tc_create tiles) (\<lambda>tc.
                      handle_tile_combined_request en (tc_set_canonical_view_id (cs_canonicalViewId s) tc) False sid b1))
              else Ok b1))"

end
