(* ===== verification/BrokerProps.thy ===== *)
theory BrokerProps
  imports Brokers ClientSends CombinedWire "HOL-Library.Multiset"
begin

text \<open>
  The handling of tile requests: a requested tile is sent from the cache, or the session waits for
  its rendering and the kit is asked, or it stays in the list of the session because enough tiles
  are on their way. No request fails.
\<close>

section \<open>Subscribing\<close>

definition waits :: "session_id \<Rightarrow> tile_desc \<Rightarrow> tile_cache \<Rightarrow> bool" where
  "waits sid d c \<longleftrightarrow> (\<exists>r. find_desc d (ca_rendering c) = Some r \<and> sid \<in> set (tbr_subscribers r))"

lemma subscribe_find_other:
  "\<not> cache_eq tile d \<Longrightarrow>
    find_desc d (ca_rendering (snd (subscribe_to_tile_rendering tile sid now c))) = find_desc d (ca_rendering c)"
  by (simp add: subscribe_to_tile_rendering_def find_desc_put split: option.split)

lemma subscribe_waits: "cache_eq tile d \<Longrightarrow> waits sid d (snd (subscribe_to_tile_rendering tile sid now c))"
  by (auto simp: waits_def subscribe_to_tile_rendering_def find_desc_put tbr_set_version_def list_ex_iff split: option.split)

lemma subscribe_keeps_waiting:
  assumes "waits other d c"
  shows "waits other d (snd (subscribe_to_tile_rendering tile sid now c))"
proof (cases "cache_eq tile d")
  case True
  then have "find_desc d (ca_rendering c) = find_desc tile (ca_rendering c)" using find_desc_cong by metis
  then show ?thesis
    using assms True
    by (auto simp: waits_def subscribe_to_tile_rendering_def find_tile_being_rendered_def find_desc_put tbr_set_version_def
      list_ex_iff split: option.split)
next
  case False
  then show ?thesis using assms by (simp add: waits_def subscribe_find_other)
qed

lemma request_tile_rendering_cases:
  obtains needs' t' where "request_tile_rendering tile fk v now needs sid c =
      (needs' = needs \<or> needs = [] \<or> same_tile_combine_params t' (last needs), t', needs', snd (subscribe_to_tile_rendering t' sid now c))"
    "needs' = needs @ [t']" "t' = (if fk then force_keyframe (tile\<lparr>td_ver := v\<rparr>) else tile\<lparr>td_ver := v\<rparr>)"
  | "request_tile_rendering tile fk v now needs sid c = (True, tile, needs, snd (subscribe_to_tile_rendering tile sid now c))"
    "find_desc tile (ca_rendering c) \<noteq> None"
proof (cases "\<not> has_tile_being_rendered tile (Some now) c \<or> get_tile_being_rendered_version tile c < td_ver tile")
  case True
  then show thesis by (intro that(1)) (simp_all add: request_tile_rendering_def Let_def)
next
  case False
  then show thesis
    by (intro that(2)) (auto simp: request_tile_rendering_def has_tile_being_rendered_def find_tile_being_rendered_def split: option.splits)
qed

section \<open>Groups\<close>

lemma insert_group_concat: "mset (concat (insert_group t gs)) = add_mset t (mset (concat gs))"
  by (induction t gs rule: insert_group.induct) auto

lemma group_tiles_concat: "mset (concat (group_tiles ts)) = mset ts"
proof -
  have "mset (concat (foldl (\<lambda>gs t. insert_group t gs) gs ts)) = mset (concat gs) + mset ts" for gs
    by (induction ts arbitrary: gs) (simp_all add: insert_group_concat)
  then show ?thesis by (simp add: group_tiles_def)
qed

definition grouped :: "tile_desc list list \<Rightarrow> bool" where
  "grouped gs \<longleftrightarrow> (\<forall>g \<in> set gs. g \<noteq> [] \<and> (\<forall>t \<in> set g. same_tile_combine_params (hd g) t))"

lemma same_params_refl [simp]: "same_tile_combine_params t t"
  by (simp add: same_params_iff)

lemma same_params_sym: "same_tile_combine_params a b \<Longrightarrow> same_tile_combine_params b a"
  by (simp add: same_params_iff)

lemma grouped_Cons: "grouped (g # gs) \<longleftrightarrow> g \<noteq> [] \<and> (\<forall>t \<in> set g. same_tile_combine_params (hd g) t) \<and> grouped gs"
  by (simp add: grouped_def)

lemma insert_group_grouped: "grouped gs \<Longrightarrow> grouped (insert_group t gs)"
proof (induction t gs rule: insert_group.induct)
  case (2 t g gs)
  then have g: "g \<noteq> []" "\<forall>t \<in> set g. same_tile_combine_params (hd g) t" "grouped gs" by (simp_all add: grouped_Cons)
  show ?case
  proof (cases "same_tile_combine_params t (g ! 0)")
    case True
    then have "same_tile_combine_params (hd g) t" using g(1) by (simp add: hd_conv_nth same_params_sym)
    then show ?thesis using True g by (simp add: grouped_Cons)
  next
    case False
    then show ?thesis using 2 g by (simp add: grouped_Cons)
  qed
qed (simp add: grouped_def)

lemma group_tiles_grouped: "grouped (group_tiles ts)"
proof -
  have *: "grouped gs \<Longrightarrow> grouped (foldl (\<lambda>gs t. insert_group t gs) gs ts)" for gs
    by (induction ts arbitrary: gs) (simp_all add: insert_group_grouped)
  show ?thesis unfolding group_tiles_def by (rule *) (simp add: grouped_def)
qed

section \<open>Asking the kit\<close>

text \<open>Tiles that can be asked for: valid, and no two of one key\<close>

definition askable :: "tile_desc list \<Rightarrow> bool" where
  "askable ts \<longleftrightarrow> (\<forall>t \<in> set ts. tile_valid t \<and> tile_ranges t) \<and> distinct (map cache_key ts)"

lemma no_dup_positions:
  assumes "distinct (map cache_key ts)" "\<forall>t \<in> set ts. same_tile_combine_params u t"
  shows "\<not> dup_positions (map (\<lambda>t. t\<lparr>td_imgSize := 0, td_id := -1\<rparr>) ts)"
  using assms
proof (induction ts)
  case (Cons a ts)
  have "\<not> (td_tilePosX a = td_tilePosX b \<and> td_tilePosY a = td_tilePosY b)" if b: "b \<in> set ts" for b
  proof
    assume p: "td_tilePosX a = td_tilePosX b \<and> td_tilePosY a = td_tilePosY b"
    have "same_tile_combine_params u a" "same_tile_combine_params u b" using Cons.prems(2) b by simp_all
    then have "cache_key a = cache_key b" using p by (simp add: cache_key_def same_params_iff)
    then show False using Cons.prems(1) b by auto
  qed
  then show ?case using Cons by (auto simp: list_ex_iff)
qed simp

lemma ask_group:
  assumes "askable ts" "ts \<noteq> []" "\<forall>t \<in> set ts. same_tile_combine_params (hd ts) t"
  obtains tc where "tc_create ts = Ok tc" "tc_tiles tc = map (\<lambda>t. t\<lparr>td_imgSize := 0, td_id := -1\<rparr>) ts"
    "\<forall>b. send_tile_combine tc b = Ok (send_to_child (tc_serialize tc ''tilecombine'' []) b)"
proof -
  have u: "uniform_tiles ts" using assms by (auto simp: uniform_tiles_def askable_def)
  obtain tc where tc: "tc_create ts = Ok tc" using tc_create_uniform [OF u] by blast
  have tiles: "tc_tiles tc = map (\<lambda>t. t\<lparr>td_imgSize := 0, td_id := -1\<rparr>) ts" by (rule tc_create_tiles(1) [OF u tc])
  have "\<not> has_duplicates tc"
    using no_dup_positions [OF _ assms(3)] assms(1) by (simp add: has_duplicates_def tiles askable_def)
  then show thesis using that tc tiles by (simp add: send_tile_combine_def)
qed

text \<open>The messages for the kit: requests whose tiles are those given\<close>

definition asks_for :: "string list \<Rightarrow> tile_desc list \<Rightarrow> bool" where
  "asks_for msgs ts \<longleftrightarrow>
    (\<exists>tcs. msgs = map (\<lambda>tc. tc_serialize tc ''tilecombine'' []) tcs \<and>
      mset (concat (map tc_tiles tcs)) = mset (map (\<lambda>t. t\<lparr>td_imgSize := 0, td_id := -1\<rparr>) ts))"

lemma asks_for_append: "asks_for ms ts \<Longrightarrow> asks_for ns us \<Longrightarrow> asks_for (ms @ ns) (ts @ us)"
  unfolding asks_for_def by (elim exE conjE) (rule_tac x = "tcs @ tcsa" in exI, simp)

lemma asks_for_perm: "mset ts = mset us \<Longrightarrow> asks_for ms ts \<Longrightarrow> asks_for ms us"
  unfolding asks_for_def by (simp add: image_mset.compositionality)

lemma send_render_requests_ok:
  assumes "askable needs" "allSame \<longrightarrow> (\<forall>t \<in> set needs. same_tile_combine_params (hd needs) t)"
  obtains msgs where "send_render_requests allSame needs b = Ok (b\<lparr>db_toChild := db_toChild b @ msgs\<rparr>)" "asks_for msgs needs"
proof (cases "needs = []")
  case True
  then show thesis by (intro that [of "[]"]) (simp_all add: send_render_requests_def asks_for_def)
next
  case ne: False
  show thesis
  proof (cases allSame)
    case True
    obtain tc where tc: "tc_create needs = Ok tc" "tc_tiles tc = map (\<lambda>t. t\<lparr>td_imgSize := 0, td_id := -1\<rparr>) needs"
      "\<forall>b. send_tile_combine tc b = Ok (send_to_child (tc_serialize tc ''tilecombine'' []) b)"
      using ask_group [OF assms(1) ne] assms(2) True by blast
    then have "asks_for [tc_serialize tc ''tilecombine'' []] needs"
      unfolding asks_for_def by (intro exI [of _ "[tc]"]) simp
    then show thesis using that tc True ne by (simp add: send_render_requests_def send_to_child_def)
  next
    case False
    have "\<exists>msgs. res_fold (\<lambda>g b. res_bind (tc_create g) (\<lambda>tc. send_tile_combine tc b)) gs b =
        Ok (b\<lparr>db_toChild := db_toChild b @ msgs\<rparr>) \<and> asks_for msgs (concat gs)"
      if "grouped gs" "askable (concat gs)" for gs b
      using that
    proof (induction gs arbitrary: b)
      case Nil
      then show ?case by (intro exI [of _ "[]"]) (simp add: asks_for_def)
    next
      case (Cons g gs)
      have g: "askable g" "g \<noteq> []" "\<forall>t \<in> set g. same_tile_combine_params (hd g) t" "askable (concat gs)" "grouped gs"
        using Cons.prems by (auto simp: askable_def grouped_def)
      obtain tc where tc: "tc_create g = Ok tc" "tc_tiles tc = map (\<lambda>t. t\<lparr>td_imgSize := 0, td_id := -1\<rparr>) g"
        "\<forall>b. send_tile_combine tc b = Ok (send_to_child (tc_serialize tc ''tilecombine'' []) b)"
        using g(1-3) by (rule ask_group)
      let ?m = "tc_serialize tc ''tilecombine'' []"
      obtain msgs where m: "res_fold (\<lambda>g b. res_bind (tc_create g) (\<lambda>tc. send_tile_combine tc b)) gs (send_to_child ?m b) =
          Ok ((send_to_child ?m b)\<lparr>db_toChild := db_toChild (send_to_child ?m b) @ msgs\<rparr>)" "asks_for msgs (concat gs)"
        using Cons.IH [OF g(5,4), of "send_to_child ?m b"] by blast
      have a: "asks_for [?m] g" unfolding asks_for_def using tc(2) by (intro exI [of _ "[tc]"]) simp
      have "asks_for ([?m] @ msgs) (concat (g # gs))" using asks_for_append [OF a m(2)] by simp
      then show ?case using m(1) tc(1,3) by (intro exI [of _ "[?m] @ msgs"]) (simp add: send_to_child_def)
    qed
    moreover have "askable (concat (group_tiles needs))"
    proof -
      have "set (concat (group_tiles needs)) = set needs" by (metis group_tiles_concat set_mset_mset)
      moreover have "distinct (map cache_key (concat (group_tiles needs))) = distinct (map cache_key needs)"
        by (rule mset_eq_imp_distinct_iff) (simp only: mset_map group_tiles_concat)
      ultimately show ?thesis using assms(1) unfolding askable_def by simp
    qed
    ultimately obtain msgs where "res_fold (\<lambda>g b. res_bind (tc_create g) (\<lambda>tc. send_tile_combine tc b)) (group_tiles needs) b =
        Ok (b\<lparr>db_toChild := db_toChild b @ msgs\<rparr>)" "asks_for msgs (concat (group_tiles needs))"
      using group_tiles_grouped by blast
    then show thesis
      using that asks_for_perm [OF group_tiles_concat] False ne by (simp add: send_render_requests_def)
  qed
qed

section \<open>Sending requested tiles\<close>

text \<open>The wire ids of the cached tiles are in the range of the parser.\<close>

definition wids_ok :: "tile_cache \<Rightarrow> bool" where
  "wids_ok c \<longleftrightarrow> (\<forall>(d, t) \<in> set (ca_cache c). \<forall>w \<in> set (ti_wids t). uint w \<le> INT_MAX)"

text \<open>A request: a valid tile without a wire id, whose fields are in range\<close>

definition request_ok :: "tile_desc \<Rightarrow> bool" where
  "request_ok t \<longleftrightarrow> tile_valid t \<and> wire_ranges t \<and> td_wireId t = 0"

text \<open>A tile the session has been served: it waits for the rendering, or the cached tile was sent\<close>

definition served :: "session_id \<Rightarrow> tile_cache \<Rightarrow> tracker \<Rightarrow> tile_desc \<Rightarrow> bool" where
  "served sid c tr t \<longleftrightarrow> waits sid t c \<or>
    (\<exists>u. lookup_tile t c = Some u \<and> ti_valid u \<and> last_sent t tr = Some (last (ti_wids u)))"

text \<open>The session but for what sending changes\<close>

definition same_base :: "client_session \<Rightarrow> client_session \<Rightarrow> bool" where
  "same_base s s' \<longleftrightarrow>
    s' = s\<lparr>cs_senderQueue := cs_senderQueue s', cs_tracker := cs_tracker s', cs_tilesOnFly := cs_tilesOnFly s'\<rparr>"

definition sending_ok :: "send_env \<Rightarrow> session_id \<Rightarrow> tile_cache \<Rightarrow> client_session \<Rightarrow> tile_desc list \<Rightarrow> sending \<Rightarrow> bool" where
  "sending_ok en sid c0 s0 done st \<longleftrightarrow>
    ca_wf (se_cache st) \<and> ca_cache (se_cache st) = ca_cache c0 \<and> ca_dontCache (se_cache st) = ca_dontCache c0 \<and>
    queue_ok (en_view_of en) (cs_senderQueue (se_session st)) \<and> same_base s0 (se_session st) \<and>
    askable (se_needsRendering st) \<and> set (map cache_key (se_needsRendering st)) \<subseteq> set (map cache_key done) \<and>
    (se_allSame st \<longrightarrow> (\<forall>t \<in> set (se_needsRendering st). same_tile_combine_params (hd (se_needsRendering st)) t)) \<and>
    (\<forall>t \<in> set done. served sid (se_cache st) (cs_tracker (se_session st)) t) \<and>
    (\<forall>t. find_desc t (ca_rendering c0) = None \<and> find_desc t (ca_rendering (se_cache st)) \<noteq> None \<longrightarrow>
      cache_key t \<in> set (map cache_key (se_needsRendering st))) \<and>
    (\<forall>d other. waits other d c0 \<longrightarrow> waits other d (se_cache st))"

lemma lookup_tile_cong: "cache_eq d e \<Longrightarrow> lookup_tile d = lookup_tile e"
  by (intro ext) (simp add: lookup_tile_def find_tile_def find_desc_cong)

lemma waits_cong: "cache_eq d e \<Longrightarrow> waits sid d = waits sid e"
  by (intro ext) (simp add: waits_def find_desc_cong)

lemma lookup_tile_same: "ca_cache c = ca_cache c' \<Longrightarrow> ca_dontCache c = ca_dontCache c' \<Longrightarrow> lookup_tile d c = lookup_tile d c'"
  by (simp add: lookup_tile_def find_tile_def)

lemma same_base_trans: "same_base s t \<Longrightarrow> same_session t u \<Longrightarrow> same_base s u"
  by (cases s; cases t; cases u) (simp add: same_base_def same_session_def)

lemma wire_ranges_wid: "wire_ranges t \<Longrightarrow> uint w \<le> INT_MAX \<Longrightarrow> wire_ranges (t\<lparr>td_wireId := w\<rparr>)"
  by (simp add: wire_ranges_def)

lemma tile_valid_wid [simp]:
  "tile_valid (t\<lparr>td_wireId := w\<rparr>) = tile_valid t" "tile_valid (t\<lparr>td_ver := v\<rparr>) = tile_valid t"
  "tile_valid (t\<lparr>td_oldWireId := w\<rparr>) = tile_valid t"
  by (simp_all add: tile_valid_def)

text \<open>A tile from the cache\<close>

lemma send_step_cached:
  assumes ok: "sending_ok en sid c0 s0 done st" and req: "request_ok tile" and wids: "wids_ok c0"
    and cached: "lookup_tile tile (se_cache st) = Some t" "ti_valid t"
  obtains st' where "send_requested_step en sid tile st = Ok st'" "sending_ok en sid c0 s0 (done @ [tile]) st'"
    "length (cs_tilesOnFly (se_session st')) \<le> Suc (length (cs_tilesOnFly (se_session st)))"
proof -
  have find: "find_desc tile (ca_cache (se_cache st)) = Some t"
    using cached(1) by (auto simp: lookup_tile_def find_tile_def split: if_splits)
  have "ca_wf (se_cache st)" using ok by (simp add: sending_ok_def)
  then have wf: "tiles_ok (ca_cache (se_cache st))" by (simp add: ca_wf_def)
  obtain fs where fs: "represents t fs" "fs \<noteq> []" using find_desc_tile_ok [OF wf find] by (auto simp: tile_ok_def)
  obtain e where "(e, t) \<in> set (ca_cache c0)" using find_desc_Some [OF find] ok by (auto simp: sending_ok_def)
  moreover have ne: "ti_wids t \<noteq> []" using fs represents_wids by auto
  ultimately have range: "uint (last (ti_wids t)) \<le> INT_MAX" using wids by (fastforce simp: wids_ok_def)
  let ?d = "tile\<lparr>td_wireId := last (ti_wids t)\<rparr>"
  have d: "tile_valid ?d" "wire_ranges ?d" using req range by (auto simp: request_ok_def intro: wire_ranges_wid)
  have q: "queue_ok (en_view_of en) (cs_senderQueue (se_session st))" using ok by (simp add: sending_ok_def)
  obtain sent s' where s': "send_tile_now en ?d t (se_session st) = Ok (sent, s')"
    "cs_tracker s' = snd (update_tile_seq ?d (cs_tracker (se_session st)))" "queue_ok (en_view_of en) (cs_senderQueue s')"
    "same_session (se_session st) s'"
    by (rule send_tile_now_ok [OF fs d q]) (rule that; assumption)
  have wid: "with_wire_id t tile = Ok ?d" using req ne by (simp add: with_wire_id_def last_wid_def request_ok_def)
  have "served sid (se_cache st) (cs_tracker s') u" if "u \<in> set done \<or> u = tile" for u
  proof (cases "cache_eq tile u")
    case True
    then have "lookup_tile u (se_cache st) = Some t" using cached(1) lookup_tile_cong [OF True] by simp
    moreover have "last_sent u (cs_tracker s') = Some (last (ti_wids t))"
      using True s'(2) by (simp add: last_sent_update cache_eq_key)
    ultimately show ?thesis using cached(2) by (simp add: served_def)
  next
    case False
    then have "u \<in> set done" using that by (auto simp: cache_eq_key)
    moreover have "last_sent u (cs_tracker s') = last_sent u (cs_tracker (se_session st))"
      using False s'(2) by (simp add: last_sent_update cache_eq_key)
    ultimately show ?thesis using ok by (simp add: sending_ok_def served_def)
  qed
  moreover have "same_base s0 s'" using ok same_base_trans [OF _ s'(4)] by (simp add: sending_ok_def)
  moreover have "ca_wf (se_cache st)" "ca_cache (se_cache st) = ca_cache c0" "ca_dontCache (se_cache st) = ca_dontCache c0"
    "askable (se_needsRendering st)" "set (map cache_key (se_needsRendering st)) \<subseteq> set (map cache_key (done @ [tile]))"
    "se_allSame st \<longrightarrow> (\<forall>t \<in> set (se_needsRendering st). same_tile_combine_params (hd (se_needsRendering st)) t)"
    "\<forall>t. find_desc t (ca_rendering c0) = None \<and> find_desc t (ca_rendering (se_cache st)) \<noteq> None \<longrightarrow>
      cache_key t \<in> set (map cache_key (se_needsRendering st))"
    "\<forall>d other. waits other d c0 \<longrightarrow> waits other d (se_cache st)"
    using ok unfolding sending_ok_def by auto
  ultimately have "sending_ok en sid c0 s0 (done @ [tile]) (st\<lparr>se_session := s'\<rparr>)"
    using s'(3) unfolding sending_ok_def sending.simps by (intro conjI) simp_all
  moreover have "send_requested_step en sid tile st = Ok (st\<lparr>se_session := s'\<rparr>)"
    using cached wid s'(1) by (simp add: send_requested_step_def)
  moreover have "length (cs_tilesOnFly s') \<le> Suc (length (cs_tilesOnFly (se_session st)))" using s'(4) by (simp add: same_session_def)
  ultimately show thesis using that by simp
qed

text \<open>A tile that has to be rendered\<close>

lemma in_i32_version: "in_i32 (version_of v)"
  by (simp add: version_of_def in_i32_s32)

lemma tile_ranges_of_wire: "wire_ranges t \<Longrightarrow> tile_ranges t"
  by (simp add: wire_ranges_def tile_ranges_def in_i32_def)

lemma last_hd_same:
  assumes "\<forall>t \<in> set ts. same_tile_combine_params (hd ts) t" "ts = [] \<or> same_tile_combine_params u (last ts)"
  shows "\<forall>t \<in> set (ts @ [u]). same_tile_combine_params (hd (ts @ [u])) t"
proof (cases "ts = []")
  case False
  then have "same_tile_combine_params (hd ts) (last ts)" "same_tile_combine_params u (last ts)" using assms by auto
  then have "same_tile_combine_params (hd ts) u" by (simp add: same_params_iff)
  then show ?thesis using assms(1) False by auto
qed simp

lemma served_subscribe:
  assumes "served sid c tr t"
  shows "served sid (snd (subscribe_to_tile_rendering tile sid now c)) tr t"
proof -
  have "lookup_tile t (snd (subscribe_to_tile_rendering tile sid now c)) = lookup_tile t c" by (rule lookup_tile_same) simp_all
  then show ?thesis using assms subscribe_keeps_waiting by (auto simp: served_def)
qed

lemma sending_ok_subscribe:
  assumes ok: "sending_ok en sid c0 s0 done st"
    and needs: "askable needs" "set (map cache_key needs) \<subseteq> set (map cache_key (done @ [tile]))"
      "set (se_needsRendering st) \<subseteq> set needs"
      "same \<longrightarrow> (\<forall>t \<in> set needs. same_tile_combine_params (hd needs) t)"
    and new: "cache_key tile \<in> set (map cache_key needs) \<or> find_desc tile (ca_rendering (se_cache st)) \<noteq> None"
    and key: "cache_key t' = cache_key tile"
  shows "sending_ok en sid c0 s0 (done @ [tile]) (st\<lparr>se_bumpedVersion := True, se_tileVersion := v, se_needsRendering := needs,
    se_allSame := same, se_cache := snd (subscribe_to_tile_rendering t' sid now (se_cache st))\<rparr>)"
proof -
  let ?c = "snd (subscribe_to_tile_rendering t' sid now (se_cache st))"
  have wf: "ca_wf (se_cache st)" using ok by (simp add: sending_ok_def)
  have srv: "served sid ?c (cs_tracker (se_session st)) u" if "u \<in> set done \<or> u = tile" for u
  proof (cases "cache_eq t' u")
    case True
    then show ?thesis by (simp add: served_def subscribe_waits)
  next
    case False
    then have "u \<in> set done" using that key by (auto simp: cache_eq_key)
    then show ?thesis using ok by (intro served_subscribe) (simp add: sending_ok_def)
  qed
  have asked: "cache_key u \<in> set (map cache_key needs)"
    if u: "find_desc u (ca_rendering c0) = None" "find_desc u (ca_rendering ?c) \<noteq> None" for u
  proof -
    have old: "cache_key u \<in> set (map cache_key needs)" if "find_desc u (ca_rendering (se_cache st)) \<noteq> None"
      using ok u(1) that needs(3) unfolding sending_ok_def by (metis image_mono list.set_map subsetD)
    show ?thesis
    proof (cases "cache_eq t' u")
      case True
      then have eq: "cache_eq tile u" using key by (simp add: cache_eq_key)
      then have "find_desc tile (ca_rendering (se_cache st)) = find_desc u (ca_rendering (se_cache st))" by (rule find_desc_cong)
      then show ?thesis using new old eq by (auto simp: cache_eq_key)
    next
      case False
      then show ?thesis using old u(2) by (simp add: subscribe_find_other)
    qed
  qed
  have fields: "queue_ok (en_view_of en) (cs_senderQueue (se_session st))" "same_base s0 (se_session st)"
    "ca_cache (se_cache st) = ca_cache c0" "ca_dontCache (se_cache st) = ca_dontCache c0"
    "\<forall>d other. waits other d c0 \<longrightarrow> waits other d (se_cache st)"
    using ok unfolding sending_ok_def by blast+
  then have w: "\<forall>d other. waits other d c0 \<longrightarrow> waits other d ?c" using subscribe_keeps_waiting by blast
  show ?thesis
    unfolding sending_ok_def sending.simps
    using subscribe_wf [OF wf, of t' sid now] fields(1-4) needs(1,2,4) srv asked w by (intro conjI) simp_all
qed

lemma send_step_render:
  assumes ok: "sending_ok en sid c0 s0 done st" and req: "request_ok tile" and new: "cache_key tile \<notin> set (map cache_key done)"
    and cached: "case lookup_tile tile (se_cache st) of None \<Rightarrow> True | Some t \<Rightarrow> \<not> ti_valid t"
  obtains st' where "send_requested_step en sid tile st = Ok st'" "sending_ok en sid c0 s0 (done @ [tile]) st'"
    "length (cs_tilesOnFly (se_session st')) \<le> Suc (length (cs_tilesOnFly (se_session st)))"
proof -
  let ?v = "if se_bumpedVersion st then se_tileVersion st else se_tileVersion st + 1"
  let ?fk = "lookup_tile tile (se_cache st) = None"
  have r: "tile_valid tile" "wire_ranges tile" using req by (simp_all add: request_ok_def)
  have old: "askable (se_needsRendering st)" "set (map cache_key (se_needsRendering st)) \<subseteq> set (map cache_key done)"
    "se_allSame st \<longrightarrow> (\<forall>t \<in> set (se_needsRendering st). same_tile_combine_params (hd (se_needsRendering st)) t)"
    using ok unfolding sending_ok_def by blast+
  have step: "send_requested_step en sid tile st =
      (case request_tile_rendering tile ?fk (version_of ?v) (en_now en) (se_needsRendering st) sid (se_cache st) of
        (same, t, needs, c) \<Rightarrow> Ok (st\<lparr>se_bumpedVersion := True, se_tileVersion := ?v, se_needsRendering := needs,
          se_allSame := se_allSame st \<and> same, se_cache := c\<rparr>))"
    using cached by (cases "lookup_tile tile (se_cache st)") (simp_all add: send_requested_step_def Let_def)
  show thesis
  proof (rule request_tile_rendering_cases [of tile ?fk "version_of ?v" "en_now en" "se_needsRendering st" sid "se_cache st"])
    fix needs' t'
    assume a: "request_tile_rendering tile ?fk (version_of ?v) (en_now en) (se_needsRendering st) sid (se_cache st) =
        (needs' = se_needsRendering st \<or> se_needsRendering st = [] \<or> same_tile_combine_params t' (last (se_needsRendering st)),
          t', needs', snd (subscribe_to_tile_rendering t' sid (en_now en) (se_cache st)))"
      "needs' = se_needsRendering st @ [t']"
      "t' = (if ?fk then force_keyframe (tile\<lparr>td_ver := version_of ?v\<rparr>) else tile\<lparr>td_ver := version_of ?v\<rparr>)"
    have key: "cache_key t' = cache_key tile" by (simp add: a(3) force_keyframe_def)
    have "tile_valid t'" "tile_ranges t'"
      using r tile_ranges_of_wire [OF r(2)] in_i32_version by (auto simp: a(3) tile_ranges_def force_keyframe_def)
    then have ask: "askable needs'" using old(1,2) new key by (auto simp: askable_def a(2))
    let ?same = "se_allSame st \<and> (se_needsRendering st = [] \<or> same_tile_combine_params t' (last (se_needsRendering st)))"
    have same: "?same \<longrightarrow> (\<forall>t \<in> set needs'. same_tile_combine_params (hd needs') t)"
      using old(3) last_hd_same [of "se_needsRendering st" t'] unfolding a(2) by blast
    have "sending_ok en sid c0 s0 (done @ [tile]) (st\<lparr>se_bumpedVersion := True, se_tileVersion := ?v, se_needsRendering := needs',
        se_allSame := ?same, se_cache := snd (subscribe_to_tile_rendering t' sid (en_now en) (se_cache st))\<rparr>)"
      using ok ask _ _ same _ key by (rule sending_ok_subscribe) (use old(2) key in \<open>auto simp: a(2)\<close>)
    then show thesis using that step a(1,2) by simp
  next
    assume a: "request_tile_rendering tile ?fk (version_of ?v) (en_now en) (se_needsRendering st) sid (se_cache st) =
        (True, tile, se_needsRendering st, snd (subscribe_to_tile_rendering tile sid (en_now en) (se_cache st)))"
      "find_desc tile (ca_rendering (se_cache st)) \<noteq> None"
    have "sending_ok en sid c0 s0 (done @ [tile]) (st\<lparr>se_bumpedVersion := True, se_tileVersion := ?v,
        se_needsRendering := se_needsRendering st, se_allSame := se_allSame st,
        se_cache := snd (subscribe_to_tile_rendering tile sid (en_now en) (se_cache st))\<rparr>)"
      using ok old(1) _ _ old(3) _ refl by (rule sending_ok_subscribe) (use old(2) a(2) in auto)
    then show thesis using that step a(1) by simp
  qed
qed

lemma send_step_ok:
  assumes "sending_ok en sid c0 s0 done st" "request_ok tile" "cache_key tile \<notin> set (map cache_key done)" "wids_ok c0"
  obtains st' where "send_requested_step en sid tile st = Ok st'" "sending_ok en sid c0 s0 (done @ [tile]) st'"
    "length (cs_tilesOnFly (se_session st')) \<le> Suc (length (cs_tilesOnFly (se_session st)))"
proof (cases "case lookup_tile tile (se_cache st) of None \<Rightarrow> True | Some t \<Rightarrow> \<not> ti_valid t")
  case True
  show thesis by (rule send_step_render [OF assms(1-3) True]) (rule that; assumption)
next
  case False
  then obtain t where t: "lookup_tile tile (se_cache st) = Some t" "ti_valid t" by (auto split: option.splits)
  show thesis by (rule send_step_cached [OF assms(1,2,4) t]) (rule that; assumption)
qed

lemma send_loop_ok:
  assumes "sending_ok en sid c0 s0 done st" "\<forall>t \<in> set ts. request_ok t" "distinct (map cache_key (done @ ts))" "wids_ok c0"
  shows "\<exists>sent rest st'. send_requested_loop en limit sid ts st = Ok (rest, st') \<and> ts = sent @ rest \<and>
    sending_ok en sid c0 s0 (done @ sent) st' \<and>
    (rest = [] \<or> limit \<le> length (cs_tilesOnFly (se_session st'))) \<and>
    length (cs_tilesOnFly (se_session st')) \<le> max limit (length (cs_tilesOnFly (se_session st)))"
  using assms
proof (induction ts arbitrary: "done" st)
  case Nil
  then show ?case by simp
next
  case (Cons tile ts)
  show ?case
  proof (cases "length (cs_tilesOnFly (se_session st)) < limit")
    case True
    have new: "cache_key tile \<notin> set (map cache_key done)" "request_ok tile" using Cons.prems(2,3) by auto
    obtain st1 where st1: "send_requested_step en sid tile st = Ok st1" "sending_ok en sid c0 s0 (done @ [tile]) st1"
      "length (cs_tilesOnFly (se_session st1)) \<le> Suc (length (cs_tilesOnFly (se_session st)))"
      by (rule send_step_ok [OF Cons.prems(1) new(2,1) Cons.prems(4)]) (rule that; assumption)
    have "\<forall>t \<in> set ts. request_ok t" "distinct (map cache_key ((done @ [tile]) @ ts))" using Cons.prems(2,3) by auto
    from Cons.IH [OF st1(2) this Cons.prems(4)] obtain sent rest st' where
      "send_requested_loop en limit sid ts st1 = Ok (rest, st')" "ts = sent @ rest" "sending_ok en sid c0 s0 (done @ tile # sent) st'"
      "rest = [] \<or> limit \<le> length (cs_tilesOnFly (se_session st'))"
      "length (cs_tilesOnFly (se_session st')) \<le> max limit (length (cs_tilesOnFly (se_session st1)))" by auto
    then show ?thesis using True st1(1,3)
      by (intro exI [of _ "tile # sent"] exI [of _ rest] exI [of _ st']) (auto simp: get_tiles_on_fly_count_def)
  next
    case False
    then show ?thesis using Cons.prems(1)
      by (intro exI [of _ "[]"] exI [of _ "tile # ts"] exI [of _ st]) (simp add: get_tiles_on_fly_count_def)
  qed
qed

text \<open>The state of a broker in which requests are handled\<close>

definition broker_ok :: "send_env \<Rightarrow> session_id \<Rightarrow> broker \<Rightarrow> bool" where
  "broker_ok en sid b \<longleftrightarrow>
    (\<exists>c. db_tileCache b = Some c \<and> ca_wf c \<and> wids_ok c) \<and>
    queue_ok (en_view_of en) (cs_senderQueue (db_sessions b sid)) \<and>
    (\<forall>t \<in> set (cs_requestedTiles (db_sessions b sid)). request_ok t) \<and>
    distinct (map cache_key (cs_requestedTiles (db_sessions b sid)))"

text \<open>What a handler did for the tiles requested: \<open>c\<close> and \<open>c'\<close> are the caches before and after\<close>

definition requests_served :: "session_id \<Rightarrow> tile_desc list \<Rightarrow> tile_cache \<Rightarrow> broker \<Rightarrow> broker \<Rightarrow> bool" where
  "requests_served sid ts c b b' \<longleftrightarrow>
    (\<exists>c' msgs asked. db_tileCache b' = Some c' \<and> ca_cache c' = ca_cache c \<and>
      (\<forall>t \<in> set ts. served sid c' (cs_tracker (db_sessions b' sid)) t \<or>
        (\<exists>u \<in> set (cs_requestedTiles (db_sessions b' sid)). cache_eq u t)) \<and>
      db_toChild b' = db_toChild b @ msgs \<and> asks_for msgs asked \<and>
      (\<forall>t. find_desc t (ca_rendering c) = None \<and> find_desc t (ca_rendering c') \<noteq> None \<longrightarrow> (\<exists>u \<in> set asked. cache_eq u t)) \<and>
      (\<forall>d other. waits other d c \<longrightarrow> waits other d c'))"

lemma set_session_fields [simp]:
  "db_tileCache (set_session sid s b) = db_tileCache b" "db_tileVersion (set_session sid s b) = db_tileVersion b"
  "db_toChild (set_session sid s b) = db_toChild b" "db_sessions (set_session sid s b) sid = s"
  "db_debugRenderedTileCount (set_session sid s b) = db_debugRenderedTileCount b"
  by (simp_all add: set_session_def)

lemma drop_outdated_length: "length (drop_outdated now n ts) \<le> length ts"
  by (induction now n ts rule: drop_outdated.induct) (auto simp: Let_def le_Suc_eq)

lemma send_requested_tiles_ok:
  assumes "broker_ok en sid b" "db_tileCache b = Some c"
  defines "limit \<equiv> get_tiles_on_fly_upper_limit (db_sessions b sid)"
  shows "\<exists>b'. send_requested_tiles en sid b = Ok b' \<and> broker_ok en sid b' \<and>
    requests_served sid (cs_requestedTiles (db_sessions b sid)) c b b' \<and>
    (cs_requestedTiles (db_sessions b' sid) = [] \<or> limit \<le> get_tiles_on_fly_count (db_sessions b' sid)) \<and>
    get_tiles_on_fly_count (db_sessions b' sid) \<le> max limit (get_tiles_on_fly_count (db_sessions b sid))"
proof -
  define s where "s = remove_outdated_tiles_on_fly (en_now en) (db_sessions b sid)"
  define ts where "ts = cs_requestedTiles s"
  have ts: "cs_requestedTiles (db_sessions b sid) = ts" by (simp add: ts_def s_def remove_outdated_tiles_on_fly_def)
  have c: "ca_wf c" "wids_ok c" using assms(1,2) by (auto simp: broker_ok_def)
  have q: "queue_ok (en_view_of en) (cs_senderQueue s)" using assms(1) by (simp add: broker_ok_def s_def remove_outdated_tiles_on_fly_def)
  have req: "\<forall>t \<in> set ts. request_ok t" "distinct (map cache_key ts)" using assms(1) ts by (simp_all add: broker_ok_def)
  have fly: "length (cs_tilesOnFly s) \<le> length (cs_tilesOnFly (db_sessions b sid))"
    by (simp add: s_def remove_outdated_tiles_on_fly_def drop_outdated_length)
  let ?st = "\<lparr>se_bumpedVersion = False, se_tileVersion = db_tileVersion b, se_needsRendering = [], se_allSame = True,
    se_cache = c, se_session = s\<rparr>"
  have "sending_ok en sid c s [] ?st"
    using c(1) q by (auto simp: sending_ok_def askable_def same_base_def)
  from send_loop_ok [OF this req(1) _ c(2), of limit] req(2)
  obtain sent rest st where st: "send_requested_loop en limit sid ts ?st = Ok (rest, st)" "ts = sent @ rest"
    "sending_ok en sid c s sent st" "rest = [] \<or> limit \<le> length (cs_tilesOnFly (se_session st))"
    "length (cs_tilesOnFly (se_session st)) \<le> max limit (length (cs_tilesOnFly s))" by auto
  have inv: "ca_wf (se_cache st)" "ca_cache (se_cache st) = ca_cache c"
    "queue_ok (en_view_of en) (cs_senderQueue (se_session st))" "askable (se_needsRendering st)"
    "se_allSame st \<longrightarrow> (\<forall>t \<in> set (se_needsRendering st). same_tile_combine_params (hd (se_needsRendering st)) t)"
    "\<forall>t \<in> set sent. served sid (se_cache st) (cs_tracker (se_session st)) t"
    "\<forall>t. find_desc t (ca_rendering c) = None \<and> find_desc t (ca_rendering (se_cache st)) \<noteq> None \<longrightarrow>
      cache_key t \<in> set (map cache_key (se_needsRendering st))"
    "\<forall>d other. waits other d c \<longrightarrow> waits other d (se_cache st)"
    using st(3) unfolding sending_ok_def by blast+
  let ?s = "(se_session st)\<lparr>cs_requestedTiles := rest\<rparr>"
  let ?b = "set_session sid ?s ((set_session sid s b)\<lparr>db_tileVersion := se_tileVersion st, db_tileCache := Some (se_cache st),
    db_debugRenderedTileCount := s32 (db_debugRenderedTileCount b + int (length (se_needsRendering st)))\<rparr>)"
  obtain msgs where msgs: "send_render_requests (se_allSame st) (se_needsRendering st) ?b = Ok (?b\<lparr>db_toChild := db_toChild ?b @ msgs\<rparr>)"
    "asks_for msgs (se_needsRendering st)" by (rule send_render_requests_ok [OF inv(4,5)])
  let ?b' = "?b\<lparr>db_toChild := db_toChild ?b @ msgs\<rparr>"
  have asked: "\<exists>u \<in> set (se_needsRendering st). cache_eq u t"
    if "find_desc t (ca_rendering c) = None" "find_desc t (ca_rendering (se_cache st)) \<noteq> None" for t
  proof -
    have "cache_key t \<in> set (map cache_key (se_needsRendering st))" using inv(7) that by blast
    then obtain u where "u \<in> set (se_needsRendering st)" "cache_key t = cache_key u" by auto
    then show ?thesis by (metis cache_eq_key)
  qed
  have fields: "db_sessions ?b' sid = ?s" "db_tileCache ?b' = Some (se_cache st)" "db_toChild ?b' = db_toChild b @ msgs"
    by (simp_all add: set_session_def)
  have served: "requests_served sid ts c b ?b'"
    unfolding requests_served_def fields using inv(2,6,8) msgs(2) asked st(2) cache_eq_key
    by (intro exI [of _ "se_cache st"] exI [of _ msgs] exI [of _ "se_needsRendering st"]) (auto simp: cache_eq_key)
  have "wids_ok (se_cache st)" using c(2) inv(2) by (simp add: wids_ok_def)
  then have ok: "broker_ok en sid ?b'" using inv(1,3) req st(2) unfolding broker_ok_def fields by auto
  have run: "send_requested_tiles en sid b = (if ts = [] then Ok (set_session sid s b) else Ok ?b')"
    unfolding send_requested_tiles_def Let_def s_def [symmetric] limit_def [symmetric] ts_def [symmetric]
    by (simp add: assms(2) st(1) msgs(1))
  show ?thesis
  proof (cases "ts = []")
    case True
    have "broker_ok en sid (set_session sid s b)"
      using assms(1) q True ts by (simp add: broker_ok_def set_session_def ts_def [symmetric])
    moreover have "requests_served sid ts c b (set_session sid s b)"
      using True assms(2) by (auto simp: requests_served_def set_session_def asks_for_def intro!: exI [of _ "[]"])
    ultimately show ?thesis
      using run True ts fly by (auto simp: set_session_def get_tiles_on_fly_count_def ts_def [symmetric])
  next
    case False
    then show ?thesis
      using run served ok ts st(4,5) fly unfolding get_tiles_on_fly_count_def by (intro exI [of _ ?b']) (auto simp: fields)
  qed
qed

end
