(* ===== verification/BrokerRequests.thy ===== *)
theory BrokerRequests
  imports BrokerProps
begin

text \<open>
  Combined requests: the loop over the tiles of the request, which may already ask the kit, the list
  of requested tiles it is merged into, and the whole handler.
\<close>

section \<open>The loop over the tiles\<close>

type_synonym combining = "tile_desc list \<times> tile_desc list \<times> bool \<times> tile_cache \<times> client_session"

definition combining_ok :: "tile_cache \<Rightarrow> client_session \<Rightarrow> tile_desc \<Rightarrow> tile_desc list \<Rightarrow> combining \<Rightarrow> bool" where
  "combining_ok c0 s0 u done st \<longleftrightarrow>
    (case st of (tiles, needs, hasOld, c, s) \<Rightarrow>
      ca_wf c \<and> ca_cache c = ca_cache c0 \<and> askable needs \<and> set (map cache_key needs) \<subseteq> set (map cache_key done) \<and>
      (\<forall>t \<in> set needs \<union> set tiles. same_tile_combine_params u t) \<and>
      (\<forall>t. find_desc t (ca_rendering c0) = None \<and> find_desc t (ca_rendering c) \<noteq> None \<longrightarrow> cache_key t \<in> set (map cache_key needs)) \<and>
      (\<forall>d other. waits other d c0 \<longrightarrow> waits other d c) \<and>
      s = s0\<lparr>cs_tracker := cs_tracker s\<rparr> \<and> map cache_key tiles = map cache_key done \<and> (\<forall>t \<in> set tiles. request_ok t))"

text \<open>Versions below the largest, which the parser of the messages accepts\<close>

definition version_ok :: "int \<Rightarrow> bool" where
  "version_ok v \<longleftrightarrow> - INT_MAX \<le> v \<and> v < INT_MAX"

lemma request_ok_changes:
  assumes "request_ok t" "version_ok v"
  shows "request_ok (t\<lparr>td_ver := v\<rparr>)" "uint w \<le> INT_MAX \<Longrightarrow> request_ok (t\<lparr>td_ver := v, td_oldWireId := w\<rparr>)"
  using assms by (auto simp: request_ok_def wire_ranges_def version_ok_def)

lemma same_params_changes [simp]:
  "same_tile_combine_params u (t\<lparr>td_ver := v\<rparr>) = same_tile_combine_params u t"
  "same_tile_combine_params u (t\<lparr>td_oldWireId := w\<rparr>) = same_tile_combine_params u t"
  by (simp_all add: same_params_iff)

lemma combining_asked:
  assumes "combining_ok c0 s0 u done (tiles, needs, hasOld, c, s)" "find_desc t (ca_rendering c0) = None"
    and "find_desc t (ca_rendering (snd (subscribe_to_tile_rendering d sid now c))) \<noteq> None"
    and "cache_key d \<in> set (map cache_key needs') \<or> find_desc d (ca_rendering c) \<noteq> None" "set needs \<subseteq> set needs'"
  shows "cache_key t \<in> set (map cache_key needs')"
proof -
  have old: "cache_key t \<in> set (map cache_key needs')" if "find_desc t (ca_rendering c) \<noteq> None"
  proof -
    have "cache_key t \<in> set (map cache_key needs)" using assms(1,2) that unfolding combining_ok_def by blast
    then show ?thesis using assms(5) by auto
  qed
  show ?thesis
  proof (cases "cache_eq d t")
    case True
    then have "find_desc d (ca_rendering c) = find_desc t (ca_rendering c)" by (rule find_desc_cong)
    then show ?thesis using True assms(4) old by (auto simp: cache_eq_key)
  next
    case False
    then show ?thesis using old assms(3) by (simp add: subscribe_find_other)
  qed
qed

text \<open>Asking for a tile in the loop\<close>

lemma combining_request:
  assumes ok: "combining_ok c0 s0 u done (tiles, needs, hasOld, c, s)"
    and d: "request_ok d" "same_tile_combine_params u d" "cache_key d = cache_key tile" "version_ok v"
    and new: "cache_key tile \<notin> set (map cache_key done)"
    and r: "request_tile_rendering d fk v now needs sid c = (same, d', needs', c')"
    and s: "s' = s0\<lparr>cs_tracker := cs_tracker s'\<rparr>"
  shows "combining_ok c0 s0 u (done @ [tile]) (tiles @ [d'], needs', hasOld', c', s')"
proof -
  have old: "ca_wf c" "ca_cache c = ca_cache c0" "askable needs" "set (map cache_key needs) \<subseteq> set (map cache_key done)"
    "\<forall>t \<in> set needs \<union> set tiles. same_tile_combine_params u t" "\<forall>d other. waits other d c0 \<longrightarrow> waits other d c"
    "map cache_key tiles = map cache_key done" "\<forall>t \<in> set tiles. request_ok t"
    using ok unfolding combining_ok_def by blast+
  have parts: "request_ok d' \<and> same_tile_combine_params u d' \<and> cache_key d' = cache_key tile \<and>
      c' = snd (subscribe_to_tile_rendering d' sid now c) \<and> (needs' = needs @ [d'] \<or> needs' = needs \<and> find_desc d' (ca_rendering c) \<noteq> None)"
  proof (rule request_tile_rendering_cases [of d fk v now needs sid c])
    fix n t'
    assume "request_tile_rendering d fk v now needs sid c =
        (n = needs \<or> needs = [] \<or> same_tile_combine_params t' (last needs), t', n, snd (subscribe_to_tile_rendering t' sid now c))"
      "n = needs @ [t']" "t' = (if fk then force_keyframe (d\<lparr>td_ver := v\<rparr>) else d\<lparr>td_ver := v\<rparr>)"
    then show ?thesis
      using r d request_ok_changes [OF d(1,4)] by (auto simp: force_keyframe_def split: if_splits)
  next
    assume "request_tile_rendering d fk v now needs sid c = (True, d, needs, snd (subscribe_to_tile_rendering d sid now c))"
      "find_desc d (ca_rendering c) \<noteq> None"
    then show ?thesis using r d by auto
  qed
  have ask: "askable needs'"
    using parts old(3,4) new tile_ranges_of_wire by (auto simp: askable_def request_ok_def)
  have asked: "cache_key t \<in> set (map cache_key needs')"
    if "find_desc t (ca_rendering c0) = None" "find_desc t (ca_rendering c') \<noteq> None" for t
  proof -
    have n: "set needs \<subseteq> set needs'" "cache_key d' \<in> set (map cache_key needs') \<or> find_desc d' (ca_rendering c) \<noteq> None"
      "find_desc t (ca_rendering (snd (subscribe_to_tile_rendering d' sid now c))) \<noteq> None" using parts that(2) by auto
    show ?thesis by (rule combining_asked [OF ok that(1) n(3,2,1)])
  qed
  have wf: "ca_wf c'" "ca_cache c' = ca_cache c0" "\<forall>d other. waits other d c0 \<longrightarrow> waits other d c'"
    using parts old(1,2,6) subscribe_wf subscribe_keeps_waiting by auto
  have "set needs' = insert d' (set needs) \<or> set needs' = set needs" using parts by auto
  then have sub: "set (map cache_key needs') \<subseteq> set (map cache_key (done @ [tile]))"
    using old(4) parts by (elim disjE) (simp_all add: subset_insertI2)
  have same: "\<forall>t \<in> set needs' \<union> set (tiles @ [d']). same_tile_combine_params u t" using parts old(5) by auto
  have map: "map cache_key (tiles @ [d']) = map cache_key (done @ [tile])" "\<forall>t \<in> set (tiles @ [d']). request_ok t"
    using parts old(7,8) by auto
  show ?thesis unfolding combining_ok_def prod.case using wf ask sub same asked s map by blast
qed

lemma combining_step:
  assumes ok: "combining_ok c0 s0 u done st" and tile: "request_ok tile" "same_tile_combine_params u tile"
    and new: "cache_key tile \<notin> set (map cache_key done)" and v: "version_ok v"
  shows "combining_ok c0 s0 u (done @ [tile]) (combined_request_step now canForce v sid tile st)"
proof -
  obtain tiles needs hasOld c s where st: "st = (tiles, needs, hasOld, c, s)" by (cases st)
  let ?t1 = "tile\<lparr>td_ver := v\<rparr>"
  let ?forced = "canForce \<and> is_forced_keyframe ?t1"
  let ?s1 = "if ?forced then cs_reset_tile_seq ?t1 s else s"
  define t2 where "t2 = (if ?forced then ?t1\<lparr>td_oldWireId := 1\<rparr> else ?t1)"
  define fk where "fk = (case lookup_tile t2 c of None \<Rightarrow> True | Some t \<Rightarrow> too_large t)"
  define t3 where "t3 = (if fk then force_keyframe t2 else t2)"
  have s0: "s = s0\<lparr>cs_tracker := cs_tracker s\<rparr>" using ok by (simp add: combining_ok_def st)
  then have s1: "?s1 = s0\<lparr>cs_tracker := cs_tracker ?s1\<rparr>" by (cases s0; cases s) (simp add: cs_reset_tile_seq_def)
  have t2: "request_ok t2" "same_tile_combine_params u t2" "cache_key t2 = cache_key tile"
    using request_ok_changes [OF tile(1) v] tile(2) by (auto simp: t2_def)
  have t3: "request_ok t3" "same_tile_combine_params u t3" "cache_key t3 = cache_key tile"
    using t2 by (auto simp: t3_def force_keyframe_def request_ok_def wire_ranges_def)
  show ?thesis
  proof (cases "case lookup_tile t2 c of None \<Rightarrow> True | Some t \<Rightarrow> \<not> ti_valid t \<or> too_large t")
    case True
    obtain same d' needs' c' where r: "request_tile_rendering t3 fk v now needs sid c = (same, d', needs', c')"
      by (cases "request_tile_rendering t3 fk v now needs sid c")
    have "combined_request_step now canForce v sid tile st = (tiles @ [d'], needs', hasOld \<or> ?forced, c', ?s1)"
      using True r unfolding combined_request_step_def st prod.case Let_def t2_def [symmetric] t3_def
      by (auto simp: fk_def split: option.splits)
    then show ?thesis using combining_request [OF _ t3 v new r s1] ok st by simp
  next
    case False
    then have "combined_request_step now canForce v sid tile st = (tiles @ [t2], needs, hasOld \<or> ?forced, c, ?s1)"
      unfolding combined_request_step_def st prod.case Let_def t2_def [symmetric] by (auto split: option.splits)
    then show ?thesis using ok t2 s1 unfolding st combining_ok_def by auto
  qed
qed

lemma combining_fold:
  assumes "combining_ok c0 s0 u done st" "\<forall>t \<in> set ts. request_ok t \<and> same_tile_combine_params u t"
    "distinct (map cache_key (done @ ts))" "version_ok v"
  shows "combining_ok c0 s0 u (done @ ts) (fold (combined_request_step now canForce v sid) ts st)"
  using assms
proof (induction ts arbitrary: "done" st)
  case (Cons t ts)
  have "combining_ok c0 s0 u (done @ [t]) (combined_request_step now canForce v sid t st)"
    using Cons.prems by (intro combining_step) auto
  then show ?case using Cons.IH [of "done @ [t]"] Cons.prems by simp
qed simp

section \<open>Merging requested tiles\<close>

lemma merge_matches:
  "(td_tilePosX old = td_tilePosX new \<and> td_tilePosY old = td_tilePosY new \<and> same_tile_combine_params old new) \<longleftrightarrow> cache_eq old new"
  by (auto simp: cache_eq_def same_params_iff)

lemma merge_requested_keys:
  "map cache_key (merge_requested_tile new ts) =
    map cache_key ts @ (if cache_key new \<in> set (map cache_key ts) then [] else [cache_key new])"
  by (induction new ts rule: merge_requested_tile.induct) (auto simp: merge_matches cache_eq_key)

lemma merge_requested_ok:
  "request_ok new \<Longrightarrow> \<forall>t \<in> set ts. request_ok t \<Longrightarrow> \<forall>t \<in> set (merge_requested_tile new ts). request_ok t"
  by (induction new ts rule: merge_requested_tile.induct) (auto simp: request_ok_def wire_ranges_def tile_valid_def)

lemma merge_all:
  assumes "\<forall>t \<in> set new \<union> set ts. request_ok t" "distinct (map cache_key ts)"
  defines "r \<equiv> foldl (\<lambda>ts t. merge_requested_tile t ts) ts new"
  shows "(\<forall>t \<in> set r. request_ok t) \<and> distinct (map cache_key r) \<and> set (map cache_key r) = set (map cache_key ts) \<union> set (map cache_key new)"
  using assms(1,2) unfolding r_def
proof (induction new arbitrary: ts)
  case (Cons t new)
  let ?ts = "merge_requested_tile t ts"
  have "\<forall>u \<in> set new \<union> set ?ts. request_ok u" using Cons.prems(1) merge_requested_ok [of t ts] by auto
  moreover have "distinct (map cache_key ?ts)" using Cons.prems(2) by (simp only: merge_requested_keys) auto
  moreover have "set (map cache_key ?ts) = insert (cache_key t) (set (map cache_key ts))" by (simp only: merge_requested_keys) auto
  ultimately show ?case using Cons.IH [of ?ts] by simp
qed simp

text \<open>The tiles of a session are all of one view.\<close>

lemma set_view_keys:
  assumes "distinct (map cache_key ts)" "\<forall>t \<in> set ts. td_canonicalViewId t = v"
  shows "distinct (map cache_key (map (\<lambda>t. if td_canonicalViewId t \<noteq> w then t\<lparr>td_canonicalViewId := w\<rparr> else t) ts))"
  using assms
proof (induction ts)
  case (Cons a ts)
  let ?f = "\<lambda>t. if td_canonicalViewId t \<noteq> w then t\<lparr>td_canonicalViewId := w\<rparr> else t"
  have "cache_key a = cache_key b" if "b \<in> set ts" "cache_key (?f a) = cache_key (?f b)" for b
    using that Cons.prems(2) by (auto simp: cache_key_def split: if_splits)
  then have "cache_key (?f a) \<noteq> cache_key (?f b)" if "b \<in> set ts" for b
    using that Cons.prems(1) by (metis distinct.simps(2) image_eqI list.set_map list.simps(9))
  then show ?case using Cons by fastforce
qed simp

lemma accumulate_ok:
  assumes "\<forall>t \<in> set new \<union> set ts. request_ok t" "distinct (map cache_key new)" "distinct (map cache_key ts)"
    "\<forall>t \<in> set ts. td_canonicalViewId t = v" "0 \<le> w" "w < INT_MAX"
  shows "(\<forall>t \<in> set (accumulate_tiles w new ts). request_ok t) \<and> distinct (map cache_key (accumulate_tiles w new ts)) \<and>
    set (map cache_key new) \<subseteq> set (map cache_key (accumulate_tiles w new ts))"
proof (cases "ts = []")
  case True
  then show ?thesis using assms(1,2) by (simp add: accumulate_tiles_def)
next
  case False
  let ?us = "map (\<lambda>t. if td_canonicalViewId t \<noteq> w then t\<lparr>td_canonicalViewId := w\<rparr> else t) ts"
  have "\<forall>t \<in> set new \<union> set ?us. request_ok t"
    using assms(1,5,6) by (auto simp: request_ok_def wire_ranges_def tile_valid_def)
  then show ?thesis
    using merge_all [of new ?us] set_view_keys [OF assms(3,4), of w] False by (auto simp: accumulate_tiles_def)
qed

section \<open>The handler\<close>

text \<open>A combined request: tiles that share all but their position, of the view of the session\<close>

definition combined_request_ok :: "int \<Rightarrow> tile_combined \<Rightarrow> bool" where
  "combined_request_ok view tc \<longleftrightarrow> \<not> has_duplicates tc \<and>
    (\<forall>t \<in> set (tc_tiles tc). request_ok t \<and> same_tile_combine_params (hd (tc_tiles tc)) t \<and> td_canonicalViewId t = view)"

lemma no_duplicates_distinct:
  assumes "\<not> has_duplicates tc"
  shows "distinct (map cache_key (tc_tiles tc))"
proof -
  have "distinct (map cache_key ts)" if "\<not> dup_positions ts" for ts
    using that
  proof (induction ts)
    case (Cons t ts)
    have "cache_key t \<noteq> cache_key u" if "u \<in> set ts" for u
      using Cons.prems that by (auto simp: list_ex_iff cache_key_def)
    then show ?case using Cons by auto
  qed simp
  moreover have "length ts < 2 \<Longrightarrow> distinct (map cache_key ts)" for ts :: "tile_desc list"
    by (cases ts; cases "tl ts") auto
  ultimately show ?thesis using assms by (auto simp: has_duplicates_def split: if_splits)
qed

lemma requests_served_first:
  assumes "requests_served sid ts c1 b1 b2" "db_toChild b1 = db_toChild b @ msgs" "asks_for msgs needs"
    and "\<forall>t. find_desc t (ca_rendering c) = None \<and> find_desc t (ca_rendering c1) \<noteq> None \<longrightarrow> cache_key t \<in> set (map cache_key needs)"
    and "\<forall>d other. waits other d c \<longrightarrow> waits other d c1" "set (map cache_key us) \<subseteq> set (map cache_key ts)"
    and "ca_cache c1 = ca_cache c"
  shows "requests_served sid us c b b2"
proof -
  obtain c2 ms asked where r: "db_tileCache b2 = Some c2" "ca_cache c2 = ca_cache c1"
    "\<forall>t \<in> set ts. served sid c2 (cs_tracker (db_sessions b2 sid)) t \<or> (\<exists>u \<in> set (cs_requestedTiles (db_sessions b2 sid)). cache_eq u t)"
    "db_toChild b2 = db_toChild b1 @ ms" "asks_for ms asked"
    "\<forall>t. find_desc t (ca_rendering c1) = None \<and> find_desc t (ca_rendering c2) \<noteq> None \<longrightarrow> (\<exists>u \<in> set asked. cache_eq u t)"
    "\<forall>d other. waits other d c1 \<longrightarrow> waits other d c2"
    using assms(1) unfolding requests_served_def by blast
  have "served sid c2 (cs_tracker (db_sessions b2 sid)) t \<or> (\<exists>u \<in> set (cs_requestedTiles (db_sessions b2 sid)). cache_eq u t)"
    if "t \<in> set us" for t
  proof -
    have "cache_key t \<in> set (map cache_key ts)" using assms(6) that by auto
    then obtain t' where t': "t' \<in> set ts" "cache_eq t' t" by (auto simp: cache_eq_key)
    have "served sid c2 tr t' = served sid c2 tr t" for tr
      using waits_cong [OF t'(2)] lookup_tile_cong [OF t'(2)] t'(2) by (simp add: served_def last_sent_def cache_eq_key)
    then show ?thesis using r(3) t' by (auto simp: cache_eq_key)
  qed
  moreover have "\<exists>u \<in> set (needs @ asked). cache_eq u t"
    if "find_desc t (ca_rendering c) = None" "find_desc t (ca_rendering c2) \<noteq> None" for t
  proof (cases "find_desc t (ca_rendering c1) = None")
    case True
    then show ?thesis using r(6) that(2) by auto
  next
    case False
    then have "cache_key t \<in> set (map cache_key needs)" using assms(4) that(1) by blast
    then obtain u where "u \<in> set needs" "cache_key t = cache_key u" by auto
    then have "u \<in> set (needs @ asked) \<and> cache_eq u t" by (simp add: cache_eq_key)
    then show ?thesis by blast
  qed
  moreover have "asks_for (msgs @ ms) (needs @ asked)" by (rule asks_for_append [OF assms(3) r(5)])
  ultimately show ?thesis
    unfolding requests_served_def using r(1,2,4,7) assms(2,5,7)
    by (intro exI [of _ c2] exI [of _ "msgs @ ms"] exI [of _ "needs @ asked"]) auto
qed

lemma combined_request_handled:
  assumes ok: "broker_ok en sid b" and c: "db_tileCache b = Some c"
    and view: "\<forall>t \<in> set (cs_requestedTiles (db_sessions b sid)). td_canonicalViewId t = v"
    and tc: "combined_request_ok (cs_canonicalViewId (db_sessions b sid)) tc" and ver: "version_ok (version_of (db_tileVersion b + 1))"
    and w: "0 \<le> cs_canonicalViewId (db_sessions b sid)" "cs_canonicalViewId (db_sessions b sid) < INT_MAX"
  shows "\<exists>b'. handle_tile_combined_request en tc canForce sid b = Ok b' \<and> broker_ok en sid b' \<and>
    requests_served sid (tc_tiles tc) c b b' \<and>
    (cs_requestedTiles (db_sessions b' sid) = [] \<or>
      get_tiles_on_fly_upper_limit (db_sessions b sid) \<le> get_tiles_on_fly_count (db_sessions b' sid))"
proof -
  define s where "s = db_sessions b sid"
  define ver where "ver = db_tileVersion b + 1"
  have cwf: "ca_wf c" "wids_ok c" using ok c by (auto simp: broker_ok_def)
  let ?u = "hd (tc_tiles tc)"
  let ?st0 = "([], [], False, c, s)"
  have "combining_ok c s ?u [] ?st0" using cwf by (auto simp: combining_ok_def askable_def)
  then have fold: "combining_ok c s ?u ([] @ tc_tiles tc) (fold (combined_request_step (en_now en) canForce (version_of ver) sid) (tc_tiles tc) ?st0)"
    using tc ver no_duplicates_distinct [of tc] by (intro combining_fold) (auto simp: combined_request_ok_def ver_def)
  obtain tiles needs hasOld c1 s1 where st: "fold (combined_request_step (en_now en) canForce (version_of ver) sid) (tc_tiles tc) ?st0 =
      (tiles, needs, hasOld, c1, s1)" by (metis prod_cases5)
  have inv: "ca_wf c1" "ca_cache c1 = ca_cache c" "askable needs" "\<forall>t \<in> set needs \<union> set tiles. same_tile_combine_params ?u t"
    "\<forall>t. find_desc t (ca_rendering c) = None \<and> find_desc t (ca_rendering c1) \<noteq> None \<longrightarrow> cache_key t \<in> set (map cache_key needs)"
    "\<forall>d other. waits other d c \<longrightarrow> waits other d c1" "s1 = s\<lparr>cs_tracker := cs_tracker s1\<rparr>"
    "map cache_key tiles = map cache_key (tc_tiles tc)" "\<forall>t \<in> set tiles. request_ok t"
    using fold unfolding st combining_ok_def prod.case append_Nil by blast+
  let ?b1 = "set_session sid s1 (b\<lparr>db_tileVersion := ver, db_tileCache := Some c1,
    db_debugRenderedTileCount := s32 (db_debugRenderedTileCount b + int (length needs))\<rparr>)"
  have "True \<longrightarrow> (\<forall>t \<in> set needs. same_tile_combine_params (hd needs) t)"
    using inv(4) by (cases needs) (auto intro: same_params_trans)
  then obtain msgs where msgs: "send_render_requests True needs ?b1 = Ok (?b1\<lparr>db_toChild := db_toChild ?b1 @ msgs\<rparr>)" "asks_for msgs needs"
    using send_render_requests_ok [OF inv(3)] by blast
  define b2 where "b2 = ?b1\<lparr>db_toChild := db_toChild ?b1 @ msgs\<rparr>"
  have first: "(if needs = [] then Ok ?b1 else res_bind (tc_create needs) (\<lambda>r. send_tile_combine r ?b1)) = Ok b2"
    using msgs(1) unfolding send_render_requests_def b2_def by (cases "needs = []") simp_all
  have s2: "db_sessions b2 sid = s1" "db_tileCache b2 = Some c1" "db_toChild b2 = db_toChild b @ msgs"
    by (simp_all add: b2_def)
  have views: "cs_canonicalViewId s1 = cs_canonicalViewId s" "cs_requestedTiles s1 = cs_requestedTiles s"
    "cs_senderQueue s1 = cs_senderQueue s" "get_tiles_on_fly_upper_limit s1 = get_tiles_on_fly_upper_limit s"
    by (subst inv(7), simp add: get_tiles_on_fly_upper_limit_def get_normalized_visible_area_def)+
  define req where "req = accumulate_tiles (cs_canonicalViewId s) tiles (cs_requestedTiles s)"
  have "distinct (map cache_key tiles)" using inv(8) no_duplicates_distinct tc by (simp add: combined_request_ok_def)
  then have acc: "\<forall>t \<in> set req. request_ok t" "distinct (map cache_key req)" "set (map cache_key tiles) \<subseteq> set (map cache_key req)"
    unfolding req_def using accumulate_ok [of tiles "cs_requestedTiles s" v "cs_canonicalViewId s"] inv(9) ok view w
    by (auto simp: broker_ok_def s_def)
  define b3 where "b3 = set_session sid (s1\<lparr>cs_requestedTiles := req\<rparr>) b2"
  have b3: "broker_ok en sid b3" "db_tileCache b3 = Some c1" "db_toChild b3 = db_toChild b @ msgs"
    "cs_requestedTiles (db_sessions b3 sid) = req"
    "get_tiles_on_fly_upper_limit (db_sessions b3 sid) = get_tiles_on_fly_upper_limit s"
    using ok acc inv(1,2) cwf(2) views s2
    by (auto simp: b3_def broker_ok_def s_def wids_ok_def get_tiles_on_fly_upper_limit_def get_normalized_visible_area_def)
  obtain b' where b': "send_requested_tiles en sid b3 = Ok b'" "broker_ok en sid b'" "requests_served sid req c1 b3 b'"
    "cs_requestedTiles (db_sessions b' sid) = [] \<or> get_tiles_on_fly_upper_limit s \<le> get_tiles_on_fly_count (db_sessions b' sid)"
    using send_requested_tiles_ok [OF b3(1,2)] b3(4,5) by auto
  have "requests_served sid (tc_tiles tc) c b b'"
    using b'(3) b3(3) msgs(2) inv(5,6) by (rule requests_served_first) (use acc(3) inv(2,8) in simp_all)
  moreover have "handle_tile_combined_request en tc canForce sid b = Ok b'"
    using tc c st first b'(1) s2 views
    unfolding handle_tile_combined_request_def s_def [symmetric] ver_def [symmetric] Let_def
    by (simp add: combined_request_ok_def b3_def req_def)
  ultimately show ?thesis using b'(2,4) by (simp add: s_def)
qed

end
