(* ===== verification/Invalidations.thy ===== *)
theory Invalidations
  imports BrokerRequests
begin

text \<open>
  Invalidation from the message of the kit to the client: every point that is visible and was
  invalidated lies in a tile that the session is served again.
\<close>

section \<open>The tiles of the grid\<close>

text \<open>Sizes that a client may set: positive, with the values of a descriptor in range\<close>

definition grid_ok :: "client_session \<Rightarrow> int \<Rightarrow> int \<Rightarrow> bool" where
  "grid_ok s prt mode \<longleftrightarrow>
    0 < cs_tileWidthTwips s \<and> cs_tileWidthTwips s < INT_MAX \<and> 0 < cs_tileHeightTwips s \<and> cs_tileHeightTwips s < INT_MAX \<and>
    0 < cs_tileWidthPixel s \<and> cs_tileWidthPixel s < INT_MAX \<and> 0 < cs_tileHeightPixel s \<and> cs_tileHeightPixel s < INT_MAX \<and>
    0 \<le> cs_canonicalViewId s \<and> cs_canonicalViewId s < INT_MAX \<and> 0 \<le> prt \<and> prt < INT_MAX \<and> 0 \<le> mode \<and> mode < INT_MAX"

text \<open>A pane in the positive range, so that no tile beside it exceeds the coordinates\<close>

definition pane_ok :: "client_session \<Rightarrow> rectangle \<Rightarrow> bool" where
  "pane_ok s a \<longleftrightarrow> 0 \<le> rx1 a \<and> 0 \<le> ry1 a \<and> 0 \<le> rx2 a \<and> 0 \<le> ry2 a \<and>
    rx2 a + 2 * cs_tileWidthTwips s < INT_MAX \<and> ry2 a + 2 * cs_tileHeightTwips s < INT_MAX"

definition grid_tile :: "client_session \<Rightarrow> int \<Rightarrow> int \<Rightarrow> wire_id \<Rightarrow> int \<times> int \<Rightarrow> tile_desc" where
  "grid_tile s prt mode old pos = \<lparr>td_canonicalViewId = cs_canonicalViewId s, td_part = prt, td_mode = mode,
    td_width = cs_tileWidthPixel s, td_height = cs_tileHeightPixel s, td_tilePosX = fst pos * cs_tileWidthTwips s,
    td_tilePosY = snd pos * cs_tileHeightTwips s, td_tileWidth = cs_tileWidthTwips s, td_tileHeight = cs_tileHeightTwips s,
    td_ver = -1, td_imgSize = 0, td_id = -1, td_oldWireId = old, td_wireId = 0\<rparr>"

lemma ceil_div_bounds:
  assumes "0 \<le> a" "0 < b" "a + b < INT_MAX"
  shows "a \<le> ceil_div a b * b" "ceil_div a b * b < a + b"
proof -
  define d e where "d = (- a) div b" and "e = (- a) mod b"
  let ?q = "- d"
  have m: "d * b + e = - a" unfolding d_def e_def by (rule div_mult_mod_eq)
  have r: "0 \<le> e" "e < b" using assms(2) by (simp_all add: e_def)
  have q: "a \<le> ?q * b" "?q * b < a + b" using m r by (simp_all add: algebra_simps)
  have "0 \<le> ?q" using div_nonpos_pos_le0 [of "- a" b] assms(1,2) by (simp add: d_def)
  moreover have "?q \<le> ?q * b" using mult_left_mono [of 1 b ?q] \<open>0 \<le> ?q\<close> assms(2) by simp
  ultimately have "s32 ?q = ?q" using q(2) assms(3) by (intro s32_id) linarith+
  then show "a \<le> ceil_div a b * b" "ceil_div a b * b < a + b" using q by (simp_all add: ceil_div_def d_def)
qed

text \<open>The positions of a pane, and the tiles there\<close>

lemma pane_positions_iff:
  "(j, i) \<in> set (pane_positions s a) \<longleftrightarrow>
    cdiv (rx1 a) (cs_tileWidthTwips s) \<le> j \<and> j \<le> ceil_div (rx2 a) (cs_tileWidthTwips s) \<and>
    cdiv (ry1 a) (cs_tileHeightTwips s) \<le> i \<and> i \<le> ceil_div (ry2 a) (cs_tileHeightTwips s)"
  by (auto simp: pane_positions_def Let_def image_iff)

text \<open>Positions whose tiles are within the coordinates\<close>

definition position_ok :: "client_session \<Rightarrow> int \<times> int \<Rightarrow> bool" where
  "position_ok s pos \<longleftrightarrow> 0 \<le> fst pos * cs_tileWidthTwips s \<and> 0 \<le> snd pos * cs_tileHeightTwips s \<and>
    fst pos * cs_tileWidthTwips s + cs_tileWidthTwips s < INT_MAX \<and> snd pos * cs_tileHeightTwips s + cs_tileHeightTwips s < INT_MAX"

lemma position_range:
  fixes a :: int
  assumes "0 \<le> x1" "0 \<le> x2" "0 < w" "x2 + 2 * w < INT_MAX" "cdiv x1 w \<le> j" "j \<le> ceil_div x2 w"
  shows "0 \<le> j * w" "j * w + w < INT_MAX"
proof -
  have "0 \<le> cdiv x1 w" using assms(1,3) by (simp add: cint_simps pos_imp_zdiv_nonneg_iff)
  then have "0 \<le> j" using assms(5) by linarith
  then show "0 \<le> j * w" using assms(3) by simp
  have "j * w \<le> ceil_div x2 w * w" using assms(3,6) by (simp add: mult_right_mono)
  then show "j * w + w < INT_MAX" using ceil_div_bounds [of x2 w] assms(2-4) by linarith
qed

lemma pane_position_ok:
  assumes "grid_ok s prt mode" "pane_ok s a" "pos \<in> set (pane_positions s a)"
  shows "position_ok s pos"
proof -
  obtain j i where p: "pos = (j, i)" by (cases pos)
  have g: "0 < cs_tileWidthTwips s" "0 < cs_tileHeightTwips s" using assms(1) by (simp_all add: grid_ok_def)
  have a: "0 \<le> rx1 a" "0 \<le> ry1 a" "0 \<le> rx2 a" "0 \<le> ry2 a" "rx2 a + 2 * cs_tileWidthTwips s < INT_MAX"
    "ry2 a + 2 * cs_tileHeightTwips s < INT_MAX" using assms(2) by (simp_all add: pane_ok_def)
  have r: "cdiv (rx1 a) (cs_tileWidthTwips s) \<le> j" "j \<le> ceil_div (rx2 a) (cs_tileWidthTwips s)"
    "cdiv (ry1 a) (cs_tileHeightTwips s) \<le> i" "i \<le> ceil_div (ry2 a) (cs_tileHeightTwips s)"
    using assms(3) by (simp_all add: p pane_positions_iff)
  show ?thesis
    using position_range [OF a(1,3) g(1) a(5) r(1,2)] position_range [OF a(2,4) g(2) a(6) r(3,4)] by (simp add: position_ok_def p)
qed

text \<open>The tile at a position covers the points from it up to the next\<close>

definition tile_rect :: "client_session \<Rightarrow> int \<times> int \<Rightarrow> rectangle" where
  "tile_rect s pos = rect_of_extent (fst pos * cs_tileWidthTwips s) (snd pos * cs_tileHeightTwips s)
    (cs_tileWidthTwips s) (cs_tileHeightTwips s)"

lemma s32_position:
  assumes "position_ok s pos" "grid_ok s prt mode"
  shows "s32 (fst pos * cs_tileWidthTwips s) = fst pos * cs_tileWidthTwips s"
    "s32 (snd pos * cs_tileHeightTwips s) = snd pos * cs_tileHeightTwips s"
proof -
  have "0 < cs_tileWidthTwips s" "0 < cs_tileHeightTwips s" using assms(2) by (simp_all add: grid_ok_def)
  then show "s32 (fst pos * cs_tileWidthTwips s) = fst pos * cs_tileWidthTwips s"
    "s32 (snd pos * cs_tileHeightTwips s) = snd pos * cs_tileHeightTwips s"
    using assms(1) unfolding position_ok_def by (intro s32_id; linarith)+
qed

lemma grid_tile_ok:
  assumes "position_ok s pos" "grid_ok s prt mode" "uint old \<le> INT_MAX"
  shows "request_ok (grid_tile s prt mode old pos)"
  using assms by (auto simp: request_ok_def tile_valid_def wire_ranges_def grid_tile_def grid_ok_def position_ok_def)

lemma invalid_tile_step_grid:
  assumes "position_ok s pos" "grid_ok s prt mode"
  shows "\<exists>old. uint old \<le> INT_MAX \<and> invalid_tile_step s c prt mode r pos ts =
    Ok (if rect_intersects r (tile_rect s pos) \<and> \<not> list_ex (\<lambda>t. tile_eq t (grid_tile s prt mode 0 pos)) ts
        then ts @ [grid_tile s prt mode old pos] else ts)"
proof -
  let ?old = "case c of None \<Rightarrow> 1 | Some c \<Rightarrow> if lookup_tile (grid_tile s prt mode 0 pos) c = None then 0 else (1 :: wire_id)"
  have mk: "mk_tile_desc (cs_canonicalViewId s) prt mode (cs_tileWidthPixel s) (cs_tileHeightPixel s)
      (fst pos * cs_tileWidthTwips s) (snd pos * cs_tileHeightTwips s) (cs_tileWidthTwips s) (cs_tileHeightTwips s) (-1) 0 (-1) =
      Ok (grid_tile s prt mode 0 pos)"
    using assms by (auto simp: mk_tile_desc_def grid_tile_def grid_ok_def position_ok_def view_invalid_def)
  have upd: "(grid_tile s prt mode 0 pos)\<lparr>td_oldWireId := w, td_wireId := 0\<rparr> = grid_tile s prt mode w pos" for w
    by (simp add: grid_tile_def)
  have "invalid_tile_step s c prt mode r pos ts =
      Ok (if rect_intersects r (tile_rect s pos) \<and> \<not> list_ex (\<lambda>t. tile_eq t (grid_tile s prt mode 0 pos)) ts
          then ts @ [grid_tile s prt mode ?old pos] else ts)"
    by (simp add: invalid_tile_step_def Let_def s32_position [OF assms] mk upd tile_rect_def)
  moreover have "uint ?old \<le> INT_MAX" by (simp split: option.split)
  ultimately show ?thesis by blast
qed

lemma tile_eq_grid: "tile_eq (grid_tile s prt mode w p) (grid_tile s prt mode w' q) \<longleftrightarrow> cache_key (grid_tile s prt mode w p) = cache_key (grid_tile s prt mode w' q)"
  by (auto simp: tile_eq_def grid_tile_def cache_key_def)

lemma cache_key_grid: "cache_key (grid_tile s prt mode w p) = cache_key (grid_tile s prt mode w' p)"
  by (simp add: grid_tile_def cache_key_def)

text \<open>The result of the loops: tiles of the grid, each once, all that meet the area\<close>

definition grid_tiles :: "client_session \<Rightarrow> int \<Rightarrow> int \<Rightarrow> tile_desc list \<Rightarrow> bool" where
  "grid_tiles s prt mode ts \<longleftrightarrow> distinct (map cache_key ts) \<and>
    (\<forall>t \<in> set ts. \<exists>old pos. uint old \<le> INT_MAX \<and> position_ok s pos \<and> t = grid_tile s prt mode old pos)"

lemma grid_tiles_snoc:
  assumes "grid_tiles s prt mode ts" "cache_key (grid_tile s prt mode old pos) \<notin> set (map cache_key ts)"
    "uint old \<le> INT_MAX" "position_ok s pos"
  shows "grid_tiles s prt mode (ts @ [grid_tile s prt mode old pos])"
  unfolding grid_tiles_def
proof
  have "distinct (map cache_key ts)" using assms(1) by (simp add: grid_tiles_def)
  then show "distinct (map cache_key (ts @ [grid_tile s prt mode old pos]))" using assms(2) by simp
  show "\<forall>t \<in> set (ts @ [grid_tile s prt mode old pos]).
      \<exists>old pos. uint old \<le> INT_MAX \<and> position_ok s pos \<and> t = grid_tile s prt mode old pos"
  proof
    fix t assume "t \<in> set (ts @ [grid_tile s prt mode old pos])"
    then consider "t \<in> set ts" | "t = grid_tile s prt mode old pos" by auto
    then show "\<exists>old pos. uint old \<le> INT_MAX \<and> position_ok s pos \<and> t = grid_tile s prt mode old pos"
    proof cases
      case 1
      then show ?thesis using assms(1) unfolding grid_tiles_def by blast
    next
      case 2
      then show ?thesis using assms(3,4) by blast
    qed
  qed
qed

lemma invalid_tiles_grid:
  assumes "\<forall>pos \<in> set ps. position_ok s pos" "grid_ok s prt mode" "grid_tiles s prt mode ts"
  shows "\<exists>ts'. res_fold (invalid_tile_step s c prt mode r) ps ts = Ok ts' \<and> grid_tiles s prt mode ts' \<and> set ts \<subseteq> set ts' \<and>
    (\<forall>pos \<in> set ps. rect_intersects r (tile_rect s pos) \<longrightarrow> (\<exists>old. grid_tile s prt mode old pos \<in> set ts'))"
  using assms
proof (induction ps arbitrary: ts)
  case (Cons pos ps)
  let ?g = "grid_tile s prt mode 0 pos"
  have pos: "position_ok s pos" using Cons.prems(1) by simp
  obtain old where old: "uint old \<le> INT_MAX" "invalid_tile_step s c prt mode r pos ts =
      Ok (if rect_intersects r (tile_rect s pos) \<and> \<not> list_ex (\<lambda>t. tile_eq t ?g) ts then ts @ [grid_tile s prt mode old pos] else ts)"
    using invalid_tile_step_grid [OF pos Cons.prems(2)] by blast
  define us where "us = (if rect_intersects r (tile_rect s pos) \<and> \<not> list_ex (\<lambda>t. tile_eq t ?g) ts
    then ts @ [grid_tile s prt mode old pos] else ts)"
  have eq: "tile_eq t ?g \<longleftrightarrow> cache_key t = cache_key (grid_tile s prt mode old pos)" if t: "t \<in> set ts" for t
  proof -
    obtain w q where "t = grid_tile s prt mode w q" using Cons.prems(3) t by (auto simp: grid_tiles_def)
    then show ?thesis using tile_eq_grid cache_key_grid by metis
  qed
  have us: "grid_tiles s prt mode us" "set ts \<subseteq> set us"
  proof -
    show "set ts \<subseteq> set us" by (auto simp: us_def)
    show "grid_tiles s prt mode us"
    proof (cases "rect_intersects r (tile_rect s pos) \<and> \<not> list_ex (\<lambda>t. tile_eq t ?g) ts")
      case True
      then have new: "cache_key (grid_tile s prt mode old pos) \<notin> set (map cache_key ts)" using eq by (auto simp: list_ex_iff)
      show ?thesis unfolding us_def if_P [OF True] by (rule grid_tiles_snoc [OF Cons.prems(3) new old(1) pos])
    next
      case False
      show ?thesis unfolding us_def if_not_P [OF False] by (rule Cons.prems(3))
    qed
  qed
  have there: "\<exists>w. grid_tile s prt mode w pos \<in> set us" if "rect_intersects r (tile_rect s pos)"
  proof (cases "list_ex (\<lambda>t. tile_eq t ?g) ts")
    case True
    then obtain t where t: "t \<in> set ts" "tile_eq t ?g" by (auto simp: list_ex_iff)
    obtain w q where q: "t = grid_tile s prt mode w q" "position_ok s q" using Cons.prems(3) t(1) by (auto simp: grid_tiles_def)
    have "fst q * cs_tileWidthTwips s = fst pos * cs_tileWidthTwips s" "snd q * cs_tileHeightTwips s = snd pos * cs_tileHeightTwips s"
      using t(2) by (simp_all add: q tile_eq_def grid_tile_def)
    then have "t = grid_tile s prt mode w pos" by (simp add: q grid_tile_def)
    then show ?thesis using t(1) us(2) by auto
  next
    case False
    then show ?thesis using that by (auto simp: us_def)
  qed
  have "\<forall>p \<in> set ps. position_ok s p" using Cons.prems(1) by simp
  from Cons.IH [OF this Cons.prems(2) us(1)] obtain ts' where ts': "res_fold (invalid_tile_step s c prt mode r) ps us = Ok ts'"
    "grid_tiles s prt mode ts'" "set us \<subseteq> set ts'"
    "\<forall>pos \<in> set ps. rect_intersects r (tile_rect s pos) \<longrightarrow> (\<exists>old. grid_tile s prt mode old pos \<in> set ts')" by blast
  moreover have "res_fold (invalid_tile_step s c prt mode r) (pos # ps) ts = Ok ts'"
    using old(2) ts'(1) by (simp add: us_def)
  ultimately show ?case using us(2) there by (intro exI [of _ ts']) auto
qed simp

section \<open>The points that are invalidated\<close>

lemma position_of_point:
  assumes "0 \<le> x1" "x1 \<le> x" "x \<le> x2" "0 < w" "x2 + w < INT_MAX"
  shows "cdiv x1 w \<le> x div w" "x div w \<le> ceil_div x2 w" "x div w * w \<le> x" "x < x div w * w + w"
proof -
  have "cdiv x1 w = x1 div w" using assms(1,4) by (simp add: cint_simps)
  then show "cdiv x1 w \<le> x div w" using assms(2,4) by (simp add: zdiv_mono1)
  have m: "x div w * w + x mod w = x" by (rule div_mult_mod_eq)
  have r: "0 \<le> x mod w" "x mod w < w" using assms(4) by simp_all
  show "x div w * w \<le> x" "x < x div w * w + w" using m r by linarith+
  have "x2 \<le> ceil_div x2 w * w" using ceil_div_bounds(1) [of x2 w] assms by linarith
  then have "x div w * w \<le> ceil_div x2 w * w" using m r assms(3) by linarith
  then show "x div w \<le> ceil_div x2 w" using assms(4) by simp
qed

lemma point_in_grid:
  assumes "grid_ok s prt mode" "pane_ok s a" "(x, y) \<in> rect_points a"
  obtains pos where "pos \<in> set (pane_positions s a)" "(x, y) \<in> rect_points (tile_rect s pos)"
proof
  let ?w = "cs_tileWidthTwips s" and ?h = "cs_tileHeightTwips s"
  let ?pos = "(x div ?w, y div ?h)"
  have g: "0 < ?w" "0 < ?h" using assms(1) by (simp_all add: grid_ok_def)
  have a: "0 \<le> rx1 a" "0 \<le> ry1 a" "rx2 a + 2 * ?w < INT_MAX" "ry2 a + 2 * ?h < INT_MAX"
    using assms(2) by (simp_all add: pane_ok_def)
  have p: "rx1 a \<le> x" "x \<le> rx2 a" "ry1 a \<le> y" "y \<le> ry2 a" using assms(3) by (simp_all add: rect_points_def)
  have "rx2 a + ?w < INT_MAX" "ry2 a + ?h < INT_MAX" using a(3,4) g by linarith+
  note xs = position_of_point [OF a(1) p(1,2) g(1) this(1)] and ys = position_of_point [OF a(2) p(3,4) g(2) this(2)]
  show mem: "?pos \<in> set (pane_positions s a)" using xs(1,2) ys(1,2) by (simp add: pane_positions_iff)
  have "position_ok s ?pos" by (rule pane_position_ok [OF assms(1,2) mem])
  then have "s32 (x div ?w * ?w + ?w) = x div ?w * ?w + ?w" "s32 (y div ?h * ?h + ?h) = y div ?h * ?h + ?h"
    "x div ?w * ?w + ?w \<le> INT_MAX" "y div ?h * ?h + ?h \<le> INT_MAX"
    using g by (auto simp: position_ok_def intro!: s32_id)
  then show "(x, y) \<in> rect_points (tile_rect s ?pos)"
    using xs(3,4) ys(3,4) by (simp add: tile_rect_def rect_of_extent_def rect_points_def)
qed

text \<open>The area of a message that is parsed is within the coordinates.\<close>

definition area_ok :: "rectangle \<Rightarrow> bool" where
  "area_ok r \<longleftrightarrow> 0 \<le> rx1 r \<and> rx1 r \<le> rx2 r \<and> rx2 r \<le> INT_MAX \<and> 0 \<le> ry1 r \<and> ry1 r \<le> ry2 r \<and> ry2 r \<le> INT_MAX"

lemma rect_of_extent_area_ok:
  assumes "0 \<le> x" "x \<le> INT_MAX" "0 \<le> y" "y \<le> INT_MAX" "0 \<le> w" "0 \<le> h"
  shows "area_ok (rect_of_extent x y w h)"
  using assms by (simp add: area_ok_def rect_of_extent_def s32_id)

lemma get_non_neg_range:
  assumes "get_non_neg_token_integer token name 0 = (True, v)"
  shows "0 \<le> v" "v \<le> INT_MAX"
proof -
  obtain r where "get_token_integer token name 0 = (r, v)" "r" "0 \<le> v"
    using assms by (auto simp: get_non_neg_token_integer_def split: prod.splits)
  moreover have "s32 i \<le> INT_MAX" for i using in_i32_s32 [of i] by (simp add: in_i32_def)
  ultimately show "0 \<le> v" "v \<le> INT_MAX" by (auto simp: get_token_integer_def split: if_splits prod.splits)
qed

lemma parse_args_area_ok:
  assumes "parse_invalidate_args tokens k mode = Ok m"
  shows "area_ok (im_rect m)"
proof -
  obtain x y w h where m: "im_rect m = rect_of_extent x y w h"
    "get_non_neg_token_integer (sv_nth tokens k) ''x'' 0 = (True, x)"
    "get_non_neg_token_integer (sv_nth tokens (k + 1)) ''y'' 0 = (True, y)"
    "get_non_neg_token_integer (sv_nth tokens (k + 2)) ''width'' 0 = (True, w)"
    "get_non_neg_token_integer (sv_nth tokens (k + 3)) ''height'' 0 = (True, h)"
    using assms unfolding parse_invalidate_args_def by (auto split: prod.splits if_splits)
  show ?thesis
    unfolding m(1) using get_non_neg_range [OF m(2)] get_non_neg_range [OF m(3)] get_non_neg_range [OF m(4)] get_non_neg_range [OF m(5)]
    by (intro rect_of_extent_area_ok)
qed

lemma parse_invalidate_area_ok:
  assumes "parse_invalidate_msg message = Ok m"
  shows "area_ok (im_rect m)"
proof -
  have whole: "area_ok (rect_of_extent 0 0 INT_MAX INT_MAX)" by (intro rect_of_extent_area_ok) simp_all
  show ?thesis
    using assms whole parse_args_area_ok unfolding parse_invalidate_msg_def Let_def
    by (auto split: if_splits prod.splits)
qed

lemma area_ok_size:
  assumes "area_ok r"
  shows "rx1 r + rect_width r = rx2 r" "ry1 r + rect_height r = ry2 r"
  using assms by (simp_all add: area_ok_def rect_width_def rect_height_def s32_id)

section \<open>The handler\<close>

text \<open>Invalidating keeps the state in which requests are handled.\<close>

lemma broker_ok_invalidate:
  assumes "broker_ok en sid b" "db_tileCache b = Some c" "parse_invalidate_msg message = Ok m"
  obtains b1 c1 where "db_invalidate_tiles message view b = Ok b1" "broker_ok en sid b1" "db_tileCache b1 = Some c1"
    "c1 = snd (invalidate_area (im_part m) (im_mode m) (rx1 (im_rect m)) (ry1 (im_rect m))
      (rect_width (im_rect m)) (rect_height (im_rect m)) view c)"
    "db_sessions b1 = db_sessions b" "db_tileVersion b1 = db_tileVersion b" "db_toChild b1 = db_toChild b"
proof
  let ?c = "snd (invalidate_area (im_part m) (im_mode m) (rx1 (im_rect m)) (ry1 (im_rect m))
      (rect_width (im_rect m)) (rect_height (im_rect m)) view c)"
  let ?b = "b\<lparr>db_tileCache := Some ?c, db_slideLayerCache := sc_erase_all (db_slideLayerCache b)\<rparr>"
  show "db_invalidate_tiles message view b = Ok ?b"
    by (simp add: db_invalidate_tiles_def invalidate_tiles_def the_cache_def assms(2,3) split_beta)
  have "ca_wf c" "wids_ok c" using assms(1,2) by (auto simp: broker_ok_def)
  moreover have "ti_wids (if P then ti_invalidate t else t) = ti_wids t" for P t by (simp add: ti_invalidate_def)
  ultimately have "wids_ok ?c" by (auto simp: invalidate_area_map wids_ok_def)
  moreover have "ca_wf ?c" by (rule invalidate_area_wf) fact
  ultimately show "broker_ok en sid ?b" using assms(1) by (simp add: broker_ok_def)
qed simp_all

text \<open>A tile of the grid that has an invalidated point is not valid in the cache.\<close>

lemma grid_tile_invalid:
  assumes "ca_wf c" "find_desc (grid_tile s prt mode old pos) (ca_cache (snd (invalidate_area p mode (rx1 r) (ry1 r)
      (rect_width r) (rect_height r) (cs_canonicalViewId s) c))) = Some u"
    and "area_ok r" "position_ok s pos" "grid_ok s prt mode" "rect_intersects r (tile_rect s pos)" "p = -1 \<or> p = prt"
  shows "\<not> ti_valid u"
proof -
  let ?d = "grid_tile s prt mode old pos"
  let ?P = "\<lambda>e. intersects_tile e p mode (rx1 r) (ry1 r) (rect_width r) (rect_height r) (cs_canonicalViewId s)"
  have r: "s32 (rx1 r + rect_width r) = rx2 r" "s32 (ry1 r + rect_height r) = ry2 r"
    unfolding area_ok_size [OF assms(3)] using assms(3) by (simp_all add: area_ok_def s32_id)
  have t: "rx2 (tile_rect s pos) = s32 (td_tilePosX ?d + td_tileWidth ?d)" "ry2 (tile_rect s pos) = s32 (td_tilePosY ?d + td_tileHeight ?d)"
    "rx1 (tile_rect s pos) = td_tilePosX ?d" "ry1 (tile_rect s pos) = td_tilePosY ?d"
    using assms(4) by (simp_all add: tile_rect_def rect_of_extent_def grid_tile_def position_ok_def)
  have f: "td_part ?d = prt" "td_mode ?d = mode" "td_canonicalViewId ?d = cs_canonicalViewId s" by (simp_all add: grid_tile_def)
  have hit: "?P ?d" using assms(6,7) by (auto simp: intersects_tile_def rect_intersects_def Let_def r t f)
  have apart: "keys_apart (ca_cache c)" using assms(1) by (simp add: ca_wf_def tiles_ok_def)
  obtain v where v: "find_desc ?d (ca_cache c) = Some v" "u = (if \<exists>e. (e, v) \<in> set (ca_cache c) \<and> cache_eq e ?d \<and> ?P e then ti_invalidate v else v)"
    using assms(2) unfolding invalidate_area_map
    by (auto simp: find_desc_invalidated [OF apart] split: option.splits)
  obtain e where e: "(e, v) \<in> set (ca_cache c)" "cache_eq e ?d" using find_desc_Some [OF v(1)] by blast
  have "?P e" using hit intersects_tile_cong [OF e(2)] by simp
  then show ?thesis using e v(2) by (auto simp: ti_invalidate_def)
qed

text \<open>The request made of the tiles of the grid: what \<open>TileCombined::create\<close> drops they do not have.\<close>

lemma grid_tiles_combined:
  assumes "grid_tiles s prt mode ts" "grid_ok s prt mode" "ts \<noteq> []"
  obtains tc where "tc_create ts = Ok tc" "tc_tiles (tc_set_canonical_view_id (cs_canonicalViewId s) tc) = ts"
    "combined_request_ok (cs_canonicalViewId s) (tc_set_canonical_view_id (cs_canonicalViewId s) tc)"
proof -
  let ?tc = "\<lambda>tc. tc_set_canonical_view_id (cs_canonicalViewId s) tc"
  have each: "\<exists>old pos. uint old \<le> INT_MAX \<and> position_ok s pos \<and> t = grid_tile s prt mode old pos" if "t \<in> set ts" for t
    using assms(1) that unfolding grid_tiles_def by blast
  have grid: "request_ok t" "same_tile_combine_params (hd ts) t" "td_canonicalViewId t = cs_canonicalViewId s"
    "t\<lparr>td_imgSize := 0, td_id := -1\<rparr> = t" "t\<lparr>td_canonicalViewId := cs_canonicalViewId s\<rparr> = t" if t: "t \<in> set ts" for t
  proof -
    obtain old pos where "uint old \<le> INT_MAX" "position_ok s pos" "t = grid_tile s prt mode old pos" using each [OF t] by blast
    moreover obtain old' pos' where "hd ts = grid_tile s prt mode old' pos'" using each [of "hd ts"] assms(3) by auto
    ultimately show "request_ok t" "same_tile_combine_params (hd ts) t" "td_canonicalViewId t = cs_canonicalViewId s"
      "t\<lparr>td_imgSize := 0, td_id := -1\<rparr> = t" "t\<lparr>td_canonicalViewId := cs_canonicalViewId s\<rparr> = t"
      using grid_tile_ok assms(2) by (simp_all add: grid_tile_def same_params_iff)
  qed
  have ask: "askable ts"
    using grid(1) assms(1) tile_ranges_of_wire by (auto simp: askable_def grid_tiles_def request_ok_def)
  have same: "\<forall>t \<in> set ts. same_tile_combine_params (hd ts) t" using grid(2) by blast
  obtain tc where tc: "tc_create ts = Ok tc" "tc_tiles tc = map (\<lambda>t. t\<lparr>td_imgSize := 0, td_id := -1\<rparr>) ts"
    by (rule ask_group [OF ask assms(3) same])
  have "tc_tiles tc = ts" unfolding tc(2) using grid(4) by (simp add: map_idI)
  then have tiles: "tc_tiles (?tc tc) = ts" using grid(5) by (simp add: tc_set_canonical_view_id_def map_idI)
  have "\<not> dup_positions (map (\<lambda>t. t\<lparr>td_imgSize := 0, td_id := -1\<rparr>) ts)"
    using assms(1) same by (intro no_dup_positions) (simp_all add: grid_tiles_def)
  then have "\<not> has_duplicates (?tc tc)" using grid(4) by (simp add: has_duplicates_def tiles map_idI)
  then have "combined_request_ok (cs_canonicalViewId s) (?tc tc)"
    using grid(1,3) same by (simp add: combined_request_ok_def tiles)
  with tc(1) tiles show thesis by (rule that)
qed

text \<open>A client that looks at the document, and the part it looks at is concerned\<close>

definition looking :: "client_session \<Rightarrow> invalidate_msg \<Rightarrow> int \<Rightarrow> bool" where
  "looking s m prt \<longleftrightarrow> rect_has_surface (cs_clientVisibleArea s) \<and> \<not> cs_isCloseFrame s \<and>
    prt = (if im_part m = -1 then cs_clientSelectedPart s else im_part m) \<and>
    ((prt = cs_clientSelectedPart s \<and> im_mode m = cs_clientSelectedMode s) \<or> cs_isTextDocument s) \<and>
    grid_ok s prt (im_mode m) \<and>
    (\<forall>p \<in> set all_panes. is_split_pane s p \<longrightarrow> pane_ok s (get_normalized_visible_pane_area s p))"

text \<open>A tile that the session waits for, or that is still to be sent to it\<close>

definition due :: "session_id \<Rightarrow> broker \<Rightarrow> tile_desc \<Rightarrow> bool" where
  "due sid b t \<longleftrightarrow> (\<exists>c. db_tileCache b = Some c \<and> waits sid t c) \<or>
    (\<exists>u \<in> set (cs_requestedTiles (db_sessions b sid)). cache_eq u t)"

lemma tile_rect_aabbox: "position_ok s pos \<Longrightarrow> to_aabbox (grid_tile s prt mode old pos) = tile_rect s pos"
  by (simp add: to_aabbox_def grid_tile_def tile_rect_def rect_of_extent_def rect_create_def position_ok_def)

lemma pane_tiles_due:
  assumes "requests_served sid ts c1 b1 b'"
    and c1: "c1 = snd (invalidate_area p mode (rx1 r) (ry1 r) (rect_width r) (rect_height r) (cs_canonicalViewId s) c)"
    and "ca_wf c" "area_ok r" "position_ok s pos" "grid_ok s prt mode" "rect_intersects r (tile_rect s pos)" "p = -1 \<or> p = prt"
    and mem: "grid_tile s prt mode old pos \<in> set ts"
  shows "due sid b' (grid_tile s prt mode old pos)"
proof -
  let ?t = "grid_tile s prt mode old pos"
  obtain c' where c': "db_tileCache b' = Some c'" "ca_cache c' = ca_cache c1"
    "served sid c' (cs_tracker (db_sessions b' sid)) ?t \<or> (\<exists>u \<in> set (cs_requestedTiles (db_sessions b' sid)). cache_eq u ?t)"
    using assms(1) mem unfolding requests_served_def by blast
  have "\<not> ti_valid u" if u: "lookup_tile ?t c' = Some u" for u
  proof -
    have "find_desc ?t (ca_cache c1) = Some u" using u by (simp add: lookup_tile_def find_tile_def c'(2) split: if_splits)
    then show ?thesis using grid_tile_invalid [OF assms(3) _ assms(4-8)] by (simp add: c1)
  qed
  then show ?thesis using c'(1,3) by (auto simp: due_def served_def)
qed

text \<open>The loops over the panes find a tile for every visible point of the area.\<close>

lemma invalid_tiles_cover:
  assumes "looking s m prt"
  obtains ts where "res_fold (invalid_tile_step s c prt (im_mode m) (im_rect m)) (concat (map (pane_positions s) (invalid_panes s (im_rect m)))) [] = Ok ts"
    "grid_tiles s prt (im_mode m) ts"
    "\<forall>p x y. is_split_pane s p \<and> (x, y) \<in> rect_points (get_normalized_visible_pane_area s p) \<and> (x, y) \<in> rect_points (im_rect m) \<longrightarrow>
      (\<exists>pos old. grid_tile s prt (im_mode m) old pos \<in> set ts \<and> position_ok s pos \<and> (x, y) \<in> rect_points (tile_rect s pos))"
proof -
  let ?r = "im_rect m" and ?area = "get_normalized_visible_pane_area s"
  let ?ps = "concat (map (pane_positions s) (invalid_panes s ?r))"
  have g: "grid_ok s prt (im_mode m)" using assms unfolding looking_def by blast
  have all: "p \<in> set all_panes" for p by (cases p) (simp_all add: all_panes_def)
  have pane: "pane_ok s (?area p)" if "is_split_pane s p" for p using assms all that by (auto simp: looking_def)
  have "position_ok s pos" if ps: "pos \<in> set ?ps" for pos
  proof -
    obtain p where "is_split_pane s p" "pos \<in> set (pane_positions s (?area p))" using ps by (auto simp: invalid_panes_def)
    then show ?thesis using pane_position_ok [OF g pane] by blast
  qed
  then obtain ts where ts: "res_fold (invalid_tile_step s c prt (im_mode m) ?r) ?ps [] = Ok ts" "grid_tiles s prt (im_mode m) ts"
    "\<forall>pos \<in> set ?ps. rect_intersects ?r (tile_rect s pos) \<longrightarrow> (\<exists>old. grid_tile s prt (im_mode m) old pos \<in> set ts)"
    using invalid_tiles_grid [of ?ps s prt "im_mode m" "[]" c ?r] g by (auto simp: grid_tiles_def)
  have "\<exists>pos old. grid_tile s prt (im_mode m) old pos \<in> set ts \<and> position_ok s pos \<and> (x, y) \<in> rect_points (tile_rect s pos)"
    if p: "is_split_pane s p" "(x, y) \<in> rect_points (?area p)" "(x, y) \<in> rect_points ?r" for p x y
  proof -
    obtain pos where pos: "pos \<in> set (pane_positions s (?area p))" "(x, y) \<in> rect_points (tile_rect s pos)"
      by (rule point_in_grid [OF g pane [OF p(1)] p(2)])
    have "rect_intersects (?area p) ?r" "rect_intersects ?r (tile_rect s pos)"
      using p(2,3) pos(2) by (auto simp: rect_intersects_points)
    then have "pos \<in> set ?ps" using p(1) all pos(1) by (auto simp: invalid_panes_def)
    then show ?thesis using ts(3) \<open>rect_intersects ?r (tile_rect s pos)\<close> pos(2) pane_position_ok [OF g pane [OF p(1)] pos(1)] by blast
  qed
  with ts(1,2) show thesis by (intro that) blast+
qed

lemma invalidation_handled:
  assumes ok: "broker_ok en sid b" and c: "db_tileCache b = Some c" and m: "parse_invalidate_msg message = Ok m"
    and look: "looking (db_sessions b sid) m prt" and ver: "version_ok (version_of (db_tileVersion b + 1))"
    and view: "\<forall>t \<in> set (cs_requestedTiles (db_sessions b sid)). td_canonicalViewId t = v"
  shows "\<exists>b'. handle_tile_invalidation en message sid b = Ok b' \<and> broker_ok en sid b' \<and>
    (\<forall>p x y. is_split_pane (db_sessions b sid) p \<and> (x, y) \<in> rect_points (get_normalized_visible_pane_area (db_sessions b sid) p) \<and>
        (x, y) \<in> rect_points (im_rect m) \<longrightarrow>
      (\<exists>pos old. (x, y) \<in> rect_points (to_aabbox (grid_tile (db_sessions b sid) prt (im_mode m) old pos)) \<and>
        due sid b' (grid_tile (db_sessions b sid) prt (im_mode m) old pos)))"
proof -
  define s where "s = db_sessions b sid"
  have area: "area_ok (im_rect m)" by (rule parse_invalidate_area_ok [OF m])
  have g: "grid_ok s prt (im_mode m)" and prt: "prt = (if im_part m = -1 then cs_clientSelectedPart s else im_part m)"
    using look unfolding looking_def s_def by blast+
  obtain b1 c1 where b1: "db_invalidate_tiles message (cs_canonicalViewId s) b = Ok b1" "broker_ok en sid b1" "db_tileCache b1 = Some c1"
    "c1 = snd (invalidate_area (im_part m) (im_mode m) (rx1 (im_rect m)) (ry1 (im_rect m))
      (rect_width (im_rect m)) (rect_height (im_rect m)) (cs_canonicalViewId s) c)"
    "db_sessions b1 = db_sessions b" "db_tileVersion b1 = db_tileVersion b" by (rule broker_ok_invalidate [OF ok c m])
  obtain ts where ts: "res_fold (invalid_tile_step s (Some c1) prt (im_mode m) (im_rect m)) (concat (map (pane_positions s) (invalid_panes s (im_rect m)))) [] = Ok ts"
    "grid_tiles s prt (im_mode m) ts"
    "\<forall>p x y. is_split_pane s p \<and> (x, y) \<in> rect_points (get_normalized_visible_pane_area s p) \<and> (x, y) \<in> rect_points (im_rect m) \<longrightarrow>
      (\<exists>pos old. grid_tile s prt (im_mode m) old pos \<in> set ts \<and> position_ok s pos \<and> (x, y) \<in> rect_points (tile_rect s pos))"
    by (rule invalid_tiles_cover [OF look [folded s_def], where c = "Some c1"])
  have run: "handle_tile_invalidation en message sid b =
      (if ts = [] then Ok b1 else res_bind (tc_create ts) (\<lambda>tc.
        handle_tile_combined_request en (tc_set_canonical_view_id (cs_canonicalViewId s) tc) False sid b1))"
    using look ts(1) b1 m unfolding handle_tile_invalidation_def looking_def s_def [symmetric] Let_def
    by (auto simp: grid_ok_def s_def [symmetric] split: if_splits)
  show ?thesis
  proof (cases "ts = []")
    case True
    then show ?thesis using run b1(2) ts(3) by (fold s_def) auto
  next
    case False
    obtain tc where tc: "tc_create ts = Ok tc" "tc_tiles (tc_set_canonical_view_id (cs_canonicalViewId s) tc) = ts"
      "combined_request_ok (cs_canonicalViewId s) (tc_set_canonical_view_id (cs_canonicalViewId s) tc)"
      by (rule grid_tiles_combined [OF ts(2) g False])
    obtain b' where b': "handle_tile_combined_request en (tc_set_canonical_view_id (cs_canonicalViewId s) tc) False sid b1 = Ok b'"
      "broker_ok en sid b'" "requests_served sid ts c1 b1 b'"
      using combined_request_handled [OF b1(2,3), of v "tc_set_canonical_view_id (cs_canonicalViewId s) tc" False] view ver tc(2,3) g
      by (auto simp: b1(5,6) s_def [symmetric] grid_ok_def)
    have "due sid b' (grid_tile s prt (im_mode m) old pos) \<and> (x, y) \<in> rect_points (to_aabbox (grid_tile s prt (im_mode m) old pos))"
      if t: "grid_tile s prt (im_mode m) old pos \<in> set ts" "position_ok s pos" "(x, y) \<in> rect_points (tile_rect s pos)"
        "(x, y) \<in> rect_points (im_rect m)" for old pos x y
    proof -
      have "rect_intersects (im_rect m) (tile_rect s pos)" using t(3,4) by (auto simp: rect_intersects_points)
      moreover have "ca_wf c" using ok c by (auto simp: broker_ok_def)
      ultimately show ?thesis
        using pane_tiles_due [OF b'(3) b1(4) _ area t(2) g _ _ t(1)] prt t(2,3) by (auto simp: tile_rect_aabbox split: if_splits)
    qed
    then show ?thesis using run tc(1) b'(1,2) ts(3) False unfolding s_def [symmetric] by (intro exI [of _ b']) (simp, blast)
  qed
qed

end
