(* ===== verification/TileLimits.thy ===== *)
theory TileLimits
  imports ClientTiles
begin

text \<open>
  The limit of the tiles on their way to a client is computed in single precision from the number of
  the tiles that are visible. The lemmas bound what rounding takes away.
\<close>

section \<open>Rounding\<close>

lemma bit_len_0 [simp]: "bit_len 0 = 0"
  by (subst bit_len.simps) simp

lemma bit_len_1 [simp]: "bit_len (Suc 0) = 1"
  by (subst bit_len.simps) simp

lemma bit_len_bounds: "n \<noteq> 0 \<Longrightarrow> 2 ^ (bit_len n - 1) \<le> n \<and> n < 2 ^ bit_len n \<and> 0 < bit_len n"
proof (induction n rule: bit_len.induct)
  case (1 n)
  show ?case
  proof (cases "n div 2 = 0")
    case True
    then have "n = 1" using "1.prems" by linarith
    then show ?thesis by simp
  next
    case False
    let ?h = "n div 2"
    have ih: "2 ^ (bit_len ?h - 1) \<le> ?h" "?h < 2 ^ bit_len ?h" "0 < bit_len ?h" using "1.IH" "1.prems" False by blast+
    have len: "bit_len n = Suc (bit_len ?h)" using "1.prems" by (subst bit_len.simps) simp
    have "2 ^ bit_len ?h = 2 * (2 :: nat) ^ (bit_len ?h - 1)" using ih(3) by (cases "bit_len ?h") simp_all
    then have "2 ^ bit_len ?h \<le> n" using ih(1) by linarith
    moreover have "n < 2 * 2 ^ bit_len ?h" using ih(2) by linarith
    ultimately show ?thesis by (simp add: len)
  qed
qed

lemma bit_len_small: "n < 2 ^ k \<Longrightarrow> bit_len n \<le> k"
proof (rule ccontr)
  assume n: "n < 2 ^ k" "\<not> bit_len n \<le> k"
  then have "n \<noteq> 0" by (cases "n = 0") simp_all
  then have "2 ^ (bit_len n - 1) \<le> n" using bit_len_bounds by blast
  moreover have "(2 :: nat) ^ k \<le> 2 ^ (bit_len n - 1)" using n(2) by (intro power_increasing) simp_all
  ultimately show False using n(1) by linarith
qed

text \<open>Rounding loses less than a part in \<open>2 ^ 23\<close>.\<close>

definition two_23 :: nat where "two_23 = 2 ^ 23"

lemma f32_round_lower:
  assumes "f32_round m e = (q, e')"
  obtains k where "e' = e + int k" "m * two_23 \<le> q * 2 ^ k * two_23 + m"
proof (cases "bit_len m - 24 = 0")
  case True
  then have "e' = e + int 0" "q = m" using assms by (simp_all add: f32_round_def)
  then show thesis by (intro that [of 0]) simp_all
next
  case False
  define K :: nat where "K = 2 ^ (bit_len m - 24)"
  have q: "e' = e + int (bit_len m - 24)" "m div K \<le> q"
    using assms False by (auto simp: f32_round_def Let_def K_def split: if_splits)
  have "m \<noteq> 0" using False by (intro notI) simp
  then have "2 ^ (bit_len m - 1) \<le> m" using bit_len_bounds by blast
  moreover have "bit_len m - 1 = (bit_len m - 24) + 23" using False by simp
  ultimately have big: "K * two_23 \<le> m" unfolding K_def two_23_def by (simp only: power_add)
  have "0 < K" by (simp add: K_def)
  then have "m mod K < K" by (rule mod_less_divisor)
  moreover have "m div K * K + m mod K = m" by (rule div_mult_mod_eq)
  moreover have "m div K * K \<le> q * K" using q(2) by (rule mult_right_mono) simp
  ultimately have "m \<le> q * K + K" by linarith
  then have "m * two_23 \<le> (q * K + K) * two_23" by (rule mult_right_mono) simp
  also have "\<dots> = q * K * two_23 + K * two_23" by (rule distrib_right)
  finally have "m * two_23 \<le> q * K * two_23 + m" using big by linarith
  then show thesis using q(1) unfolding K_def by (rule that [rotated])
qed

lemma f32_trunc_lower:
  assumes "n * two_23 \<le> q * 2 ^ k"
  shows "n \<le> f32_trunc (q, int k - 23)"
proof (cases "23 \<le> k")
  case True
  then have "(2 :: nat) ^ k = 2 ^ (k - 23) * two_23" unfolding two_23_def power_add [symmetric] by simp
  then have "n * two_23 \<le> q * 2 ^ (k - 23) * two_23" using assms by (simp only: mult.assoc)
  then have "n \<le> q * 2 ^ (k - 23)" by (simp add: two_23_def)
  moreover have "nat (int k - 23) = k - 23" by simp
  ultimately show ?thesis using True by (simp add: f32_trunc_def)
next
  case False
  then have "two_23 = 2 ^ (23 - k) * 2 ^ k" unfolding two_23_def power_add [symmetric] by simp
  then have "n * 2 ^ (23 - k) * 2 ^ k \<le> q * 2 ^ k" using assms by (simp only: mult.assoc)
  then have "n * 2 ^ (23 - k) \<le> q" by simp
  then have "n \<le> q div 2 ^ (23 - k)" by (simp add: less_eq_div_iff_mult_less_eq)
  moreover have "nat (- (int k - 23)) = 23 - k" using False by simp
  ultimately show ?thesis using False by (simp add: f32_trunc_def)
qed

lemma tiles_limit_lower:
  assumes "n < 2 ^ 24"
  shows "n \<le> tiles_limit (int n)"
proof -
  have "f32_round n 0 = (n, 0)" using bit_len_small [OF assms] by (simp add: f32_round_def Let_def)
  then have eq: "tiles_limit (int n) = max 10 (f32_trunc (f32_round (n * 9227469) (-23)))"
    by (simp add: tiles_limit_def tiles_on_fly_min_upper_limit_def f32_mult_def f32_1_1_def)
  obtain q e where r: "f32_round (n * 9227469) (-23) = (q, e)" by (cases "f32_round (n * 9227469) (-23)")
  obtain k where k: "e = - 23 + int k" "n * 9227469 * two_23 \<le> q * 2 ^ k * two_23 + n * 9227469" by (rule f32_round_lower [OF r])
  define Q where "Q = q * 2 ^ k"
  have "n * 8388608 \<le> Q" using k(2) unfolding Q_def [symmetric] by (simp add: two_23_def)
  then have "n * two_23 \<le> q * 2 ^ k" by (simp add: two_23_def Q_def)
  then have "n \<le> f32_trunc (q, int k - 23)" by (rule f32_trunc_lower)
  moreover have "e = int k - 23" using k(1) by simp
  ultimately show ?thesis by (simp add: eq r)
qed

lemma div_image:
  fixes w :: int
  assumes "x1 \<le> x2" "0 < w"
  shows "(\<lambda>x. x div w) ` {x1..x2} = {x1 div w..x2 div w}"
proof
  show "(\<lambda>x. x div w) ` {x1..x2} \<subseteq> {x1 div w..x2 div w}" using assms(2) by (auto intro: zdiv_mono1)
  show "{x1 div w..x2 div w} \<subseteq> (\<lambda>x. x div w) ` {x1..x2}"
  proof
    fix j assume j: "j \<in> {x1 div w..x2 div w}"
    have m: "x1 div w * w + x1 mod w = x1" "x2 div w * w + x2 mod w = x2" "0 \<le> x2 mod w" "x1 mod w < w"
      using assms(2) by simp_all
    show "j \<in> (\<lambda>x. x div w) ` {x1..x2}"
    proof (cases "j = x1 div w")
      case True
      then show ?thesis using assms(1) by auto
    next
      case False
      then have "(x1 div w + 1) * w \<le> j * w" "j * w \<le> x2 div w * w" using j assms(2) by (simp_all add: mult_right_mono)
      then have "x1 \<le> j * w" "j * w \<le> x2" using m unfolding distrib_right by linarith+
      then have "j * w \<in> {x1..x2}" by simp
      moreover have "j * w div w = j" using assms(2) by simp
      ultimately show ?thesis by (metis imageI)
    qed
  qed
qed

section \<open>The visible tiles\<close>

text \<open>The tiles of the grid that have a visible point\<close>

definition visible_tiles :: "client_session \<Rightarrow> (int \<times> int) set" where
  "visible_tiles s = (\<lambda>(x, y). (x div cs_tileWidthTwips s, y div cs_tileHeightTwips s)) ` rect_points (get_normalized_visible_area s)"

lemma visible_extent:
  fixes w :: int
  assumes "0 \<le> x1" "x1 \<le> x2" "x2 < INT_MAX" "0 < w"
  shows "s32 (cdiv x2 w - cdiv x1 w + 1) = int (card {x1 div w..x2 div w})"
proof -
  have "x1 div w \<le> x2 div w" "0 \<le> x1 div w" using assms by (simp_all add: zdiv_mono1 pos_imp_zdiv_nonneg_iff)
  moreover have "x2 div w \<le> x2 div 1" using assms by (intro zdiv_mono2) linarith+
  ultimately have "s32 (x2 div w - x1 div w + 1) = x2 div w - x1 div w + 1" using assms(3) by (intro s32_id) simp_all
  then show ?thesis using assms \<open>x1 div w \<le> x2 div w\<close> by (simp add: cdiv_nonneg)
qed

end
