(* ===== verification/SessionTheorems.thy ===== *)
theory SessionTheorems
  imports CacheTheorems Delivery Invalidations TileLimits
begin

text \<open>
  The properties of the sessions and the broker: what the queue of a client holds, what the client
  has once it has taken the queue, which requests are served and how many tiles are on their way.
\<close>

section \<open>The client catches up\<close>

text \<open>C1: In every state that replies of the kit with increasing wire ids, tiles sent from the cache,
  messages taken by the client, invalidations, evictions and resets lead to: when the tracker of a session
  remembers the last wire id of a cached tile, the copy the client has of the tile once it has applied the messages
  still in its queue is exactly what the cache holds of the tile, although the queue replaces messages.\<close>

theorem client_catches_up:
  assumes "delivery view_of sid c s copy newest" "lookup_tile d c = Some t"
    and "last_sent d (cs_tracker s) = Some (last (ti_wids t))"
  shows "copy_after d (cs_senderQueue s) (copy d) = ti_deltas t"
proof -
  have "find_desc d (ca_cache c) = Some t" using assms(2) by (simp add: lookup_tile_def find_tile_def split: if_splits)
  then obtain fs where fs: "represents t fs" "frames_ok newest fs" "in_step fs (last_sent d (cs_tracker s)) (copy_after d (cs_senderQueue s) (copy d))"
    using delivery_invariant [OF assms(1)] unfolding delivery_ok_def tile_in_step_def by blast
  have ne: "fs \<noteq> []" and sorted: "sorted_wrt (<) (map fst fs)" using fs(2) by (auto simp: frames_ok_def)
  have le: "fst f \<le> last (map fst fs)" if f: "f \<in> set fs" for f
  proof -
    obtain gs g where gs: "fs = gs @ [g]" using ne by (cases fs rule: rev_cases) auto
    then show ?thesis using sorted f by (auto simp: sorted_wrt_append order.strict_iff_order)
  qed
  then have "filter (\<lambda>f. fst f \<le> last (map fst fs)) fs = fs" by (intro filter_True) blast
  moreover have "fst (hd fs) \<le> last (map fst fs)" using ne le by simp
  ultimately show ?thesis using fs(1,3) assms(3) by (simp add: in_step_def represents_def)
qed

definition sample_env :: send_env where
  "sample_env = \<lparr>en_now = 0, en_terminating = False, en_view_of = Ok\<rparr>"

theorem client_catches_up_witness:
  "\<exists>s. delivery Ok 5 sample_filled s (\<lambda>_. []) 7 \<and> copy_after sample_desc (cs_senderQueue s) [] = [1, 2]"
proof -
  have wid: "td_wireId sample_desc = 7" by (simp add: sample_desc_def)
  have valid: "tile_valid sample_desc" "wire_ranges sample_desc"
    by (simp_all add: sample_desc_def tile_valid_def wire_ranges_def)
  have save: "save_tile_and_notify (\<lambda>_. True) sample_desc [90, 1, 2] (mk_tile_cache False) = Ok ([], sample_filled)"
    using wid by (simp add: save_tile_and_notify_def save_data_to_cache_def find_tile_being_rendered_def mk_tile_cache_def
      ensure_cache_size_def assert_cache_size_def put_desc_def is_keyframe_def mk_tile_data_def append_blob_def Let_def
      item_cache_size_def ti_size_def item_overhead_def sample_filled_def sample_frames_def)
  have live: "live Ok sample_env" by (simp add: live_def sample_env_def)
  have "delivery Ok 5 sample_filled mk_client_session (\<lambda>_. []) (td_wireId sample_desc)"
    using wid by (intro delivery.reply [OF delivery.start _ valid _ live save]) simp_all
  then have one: "delivery Ok 5 sample_filled mk_client_session (\<lambda>_. []) 7" unfolding wid .
  have look: "lookup_tile sample_desc sample_filled = Some sample_frames"
    by (simp add: lookup_tile_def find_tile_def sample_filled_def mk_tile_cache_def cache_eq_key)
  have rep: "represents sample_frames [(7, [1, 2])]" by (simp add: represents_def sample_frames_def)
  have q: "queue_ok (en_view_of sample_env) (cs_senderQueue mk_client_session)" by (simp add: queue_ok_def mk_client_session_def)
  obtain sent s where s: "send_tile_now sample_env sample_desc sample_frames mk_client_session = Ok (sent, s)"
    "cs_tracker s = snd (update_tile_seq sample_desc (cs_tracker mk_client_session))"
    by (rule send_tile_now_ok [OF rep _ valid q]) simp
  have two: "delivery Ok 5 sample_filled s (\<lambda>_. []) 7"
    by (rule delivery.cached [OF one look _ valid live s(1)]) (simp add: sample_frames_def wid)
  moreover have "last_sent sample_desc (cs_tracker s) = Some (last (ti_wids sample_frames))"
    by (simp add: s(2) update_tile_seq_def last_sent_def mk_client_session_def cache_eq_key wid sample_frames_def)
  ultimately have "copy_after sample_desc (cs_senderQueue s) [] = [1, 2]"
    using client_catches_up [OF two look] by (simp add: sample_frames_def)
  with two show ?thesis by blast
qed

section \<open>The queue of a client\<close>

lemma at_most_one_removed:
  "sorted_wrt (\<lambda>a b. \<not> (P a \<and> P b)) q \<Longrightarrow> length q \<le> Suc (length (filter (\<lambda>c. \<not> P c) q))"
proof (induction q)
  case (Cons c q)
  then show ?case by (cases "P c") auto
qed simp

inductive queue_reachable :: "(string \<Rightarrow> string res) \<Rightarrow> message list \<Rightarrow> bool" for view_of where
  empty: "queue_reachable view_of []"
| enqueue: "queue_reachable view_of q \<Longrightarrow> message_ok view_of m \<Longrightarrow> sq_enqueue view_of ending m q = Ok (q', n) \<Longrightarrow> queue_reachable view_of q'"
| dequeue: "queue_reachable view_of q \<Longrightarrow> queue_reachable view_of (snd (sq_dequeue ending q))"

lemma queue_reachable_ok: "queue_reachable view_of q \<Longrightarrow> queue_ok view_of q"
proof (induction rule: queue_reachable.induct)
  case empty
  then show ?case by (simp add: queue_ok_def)
next
  case (enqueue q m ending q' n)
  show ?case
  proof (cases ending)
    case True
    then show ?thesis using enqueue by (simp add: sq_enqueue_def)
  next
    case False
    then show ?thesis using enqueue_ok [OF enqueue.IH enqueue.hyps(2)] enqueue.hyps(3) by simp
  qed
next
  case (dequeue q ending)
  then show ?case by (intro dequeue_ok)
qed

text \<open>C21: In every queue built by the operations a message that is put in replaces at most one, the one with the
  same key (the tile, the cursor, the part, the progress value, the cursor of a view), goes to the end, and leaves the others in their
  order; no later message of the queue replaces an earlier one.\<close>

theorem queue_holds_latest:
  assumes "queue_reachable view_of q" "message_ok view_of m"
  shows "\<exists>kept. sq_enqueue view_of False m q = Ok (kept @ [hashed m], Suc (length kept)) \<and>
    kept = filter (\<lambda>c. \<not> replaces view_of m c) q \<and> length q \<le> Suc (length kept) \<and> me_data (hashed m) = me_data m \<and>
    sorted_wrt (\<lambda>a b. \<not> replaces view_of b a) (kept @ [hashed m])"
proof -
  note ok = queue_reachable_ok [OF assms(1)]
  show ?thesis
    using enqueue_ok [OF ok assms(2)] at_most_one_removed [OF one_replaced [OF ok, of m]] unfolding queue_ok_def by (intro exI [of _ "filter (\<lambda>c. \<not> replaces view_of m c) q"]) simp
qed

lemma setpart_ok: "message_ok Ok (mk_message ''setpart: 1'')" "message_first_token (mk_message ''setpart: 1'') = ''setpart:''"
proof -
  have t: "message_first_token (mk_message ''setpart: 1'') = ''setpart:''" by code_simp
  moreover have "sv_wf (me_tokens (mk_message ''setpart: 1''))" by code_simp
  ultimately show "message_ok Ok (mk_message ''setpart: 1'')" by (simp add: message_ok_def)
  show "message_first_token (mk_message ''setpart: 1'') = ''setpart:''" by (rule t)
qed

theorem queue_holds_latest_witness:
  "\<exists>kept. sq_enqueue Ok False (mk_message ''setpart: 1'') [mk_message ''setpart: 1''] = Ok (kept @ [hashed (mk_message ''setpart: 1'')], Suc (length kept)) \<and>
    kept = []"
proof -
  let ?m = "mk_message ''setpart: 1''"
  have "sq_enqueue Ok False ?m [] = Ok ([?m], 1)" using setpart_ok(2) by (simp add: sq_enqueue_def deduplicate_def Let_def)
  then have r: "queue_reachable Ok [?m]" by (rule queue_reachable.enqueue [OF queue_reachable.empty setpart_ok(1)])
  have "replaces Ok ?m ?m" using setpart_ok(2) by (simp add: replaces_def message_key_def)
  then show ?thesis using queue_holds_latest [OF r setpart_ok(1)] by simp
qed

section \<open>Requests\<close>

text \<open>A broker with one tile in the cache, and a session that looks at its first screen\<close>

definition sample_session :: client_session where
  "sample_session = mk_client_session\<lparr>cs_canonicalViewId := 1, cs_clientSelectedPart := 0, cs_isTextDocument := True,
    cs_clientVisibleArea := rect_of_extent 0 0 7000 7000, cs_tileWidthPixel := 256, cs_tileHeightPixel := 256,
    cs_tileWidthTwips := 3840, cs_tileHeightTwips := 3840\<rparr>"

definition sample_broker :: broker where
  "sample_broker = mk_broker\<lparr>db_tileCache := Some sample_filled, db_sessions := (\<lambda>_. sample_session)\<rparr>"

lemma sample_broker_ok: "broker_ok sample_env 5 sample_broker"
proof -
  have "wids_ok sample_filled" by (simp add: wids_ok_def sample_filled_def sample_frames_def)
  then show ?thesis
    using cache_reachable_wf [OF sample_filled_reachable]
    by (simp add: broker_ok_def sample_broker_def sample_session_def mk_client_session_def queue_ok_def)
qed

lemma sample_broker_fields [simp]:
  "db_tileCache sample_broker = Some sample_filled" "db_sessions sample_broker sid = sample_session"
  "db_tileVersion sample_broker = 0" "cs_requestedTiles sample_session = []" "cs_canonicalViewId sample_session = 1"
  by (simp_all add: sample_broker_def mk_broker_def sample_session_def mk_client_session_def)

text \<open>C7: A combined request for distinct tiles of one view is handled without a failed assertion. Afterwards
  each of its tiles was sent from the cache, is waited for, or is still among the requested tiles, and the latter only when
  as many tiles are on their way as the limit allows. The kit is asked for every
  tile whose rendering was not waited for before and is now, and nobody stops waiting.\<close>

theorem combined_request_served:
  assumes "broker_ok en sid b" "db_tileCache b = Some c"
    and "\<forall>t \<in> set (cs_requestedTiles (db_sessions b sid)). td_canonicalViewId t = v"
    and "combined_request_ok (cs_canonicalViewId (db_sessions b sid)) tc" "version_ok (version_of (db_tileVersion b + 1))"
    and "0 \<le> cs_canonicalViewId (db_sessions b sid)" "cs_canonicalViewId (db_sessions b sid) < INT_MAX"
  shows "\<exists>b'. handle_tile_combined_request en tc canForce sid b = Ok b' \<and> broker_ok en sid b' \<and>
    requests_served sid (tc_tiles tc) c b b' \<and>
    (cs_requestedTiles (db_sessions b' sid) = [] \<or>
      get_tiles_on_fly_upper_limit (db_sessions b sid) \<le> get_tiles_on_fly_count (db_sessions b' sid))"
  using assms by (rule combined_request_handled)

definition sample_request :: tile_combined where
  "sample_request = tc_default\<lparr>tc_tiles := [sample_desc\<lparr>td_wireId := 0\<rparr>, sample_desc\<lparr>td_tilePosX := 3840, td_wireId := 0\<rparr>]\<rparr>"

theorem combined_request_served_witness:
  "\<exists>b'. handle_tile_combined_request sample_env sample_request True 5 sample_broker = Ok b' \<and> broker_ok sample_env 5 b' \<and>
    requests_served 5 (tc_tiles sample_request) sample_filled sample_broker b'"
proof -
  have "combined_request_ok 1 sample_request"
    by (simp add: combined_request_ok_def sample_request_def sample_desc_def has_duplicates_def request_ok_def tile_valid_def
      wire_ranges_def same_params_iff)
  moreover have "version_ok (version_of 1)" by (simp add: version_ok_def version_of_def s32_id)
  ultimately show ?thesis
    using combined_request_served [OF sample_broker_ok, of sample_filled 1 sample_request True] by auto
qed

text \<open>C27: Sending the requested tiles never fails an assertion, sends or asks for them in order until the limit
  of tiles on their way is reached, and never takes the count above the limit or above what it was.\<close>

theorem requested_tiles_bounded:
  assumes "broker_ok en sid b" "db_tileCache b = Some c"
  shows "\<exists>b'. send_requested_tiles en sid b = Ok b' \<and> broker_ok en sid b' \<and>
    requests_served sid (cs_requestedTiles (db_sessions b sid)) c b b' \<and>
    (cs_requestedTiles (db_sessions b' sid) = [] \<or>
      get_tiles_on_fly_upper_limit (db_sessions b sid) \<le> get_tiles_on_fly_count (db_sessions b' sid)) \<and>
    get_tiles_on_fly_count (db_sessions b' sid) \<le>
      max (get_tiles_on_fly_upper_limit (db_sessions b sid)) (get_tiles_on_fly_count (db_sessions b sid))"
  using assms by (rule send_requested_tiles_ok)

theorem requested_tiles_bounded_witness:
  "\<exists>b'. send_requested_tiles sample_env 5 sample_broker = Ok b' \<and> broker_ok sample_env 5 b'"
  using requested_tiles_bounded [OF sample_broker_ok, of sample_filled] by auto

section \<open>Invalidations\<close>

text \<open>C4: When the kit invalidates an area of the document, then every point of it that the client
  sees in some pane of its window lies in a tile of the client's grid that the session now waits for or that is still to be
  sent to it, so no visible change stays unrendered; the cached tile is not sent as it is.\<close>

theorem invalidated_points_due:
  assumes "broker_ok en sid b" "db_tileCache b = Some c" "parse_invalidate_msg message = Ok m"
    and "looking (db_sessions b sid) m prt" "version_ok (version_of (db_tileVersion b + 1))"
    and "\<forall>t \<in> set (cs_requestedTiles (db_sessions b sid)). td_canonicalViewId t = v"
  shows "\<exists>b'. handle_tile_invalidation en message sid b = Ok b' \<and> broker_ok en sid b' \<and>
    (\<forall>p x y. is_split_pane (db_sessions b sid) p \<and> (x, y) \<in> rect_points (get_normalized_visible_pane_area (db_sessions b sid) p) \<and>
        (x, y) \<in> rect_points (im_rect m) \<longrightarrow>
      (\<exists>pos old. (x, y) \<in> rect_points (to_aabbox (grid_tile (db_sessions b sid) prt (im_mode m) old pos)) \<and>
        due sid b' (grid_tile (db_sessions b sid) prt (im_mode m) old pos)))"
  using assms by (rule invalidation_handled)

lemma sample_message: "parse_invalidate_msg ''invalidatetiles: part=0 x=100 y=200 width=50 height=60 wid=1'' =
  Ok \<lparr>im_rect = rect_of_extent 100 200 50 60, im_part = 0, im_mode = 0, im_wid = 1\<rparr>"
  by code_simp

theorem invalidated_points_due_witness:
  "\<exists>b'. handle_tile_invalidation sample_env ''invalidatetiles: part=0 x=100 y=200 width=50 height=60 wid=1'' 5 sample_broker = Ok b' \<and>
    (\<exists>pos old. (120, 210) \<in> rect_points (to_aabbox (grid_tile sample_session 0 0 old pos)) \<and> due 5 b' (grid_tile sample_session 0 0 old pos))"
proof -
  let ?m = "\<lparr>im_rect = rect_of_extent 100 200 50 60, im_part = 0, im_mode = 0, im_wid = 1\<rparr>"
  have area: "get_normalized_visible_pane_area sample_session BOTTOMRIGHT_PANE = rect_of_extent 0 0 7000 7000"
    by (simp add: get_normalized_visible_pane_area_def get_normalized_visible_area_def sample_session_def mk_client_session_def
      rect_create_def rect_of_extent_def s32_id)
  have split: "is_split_pane sample_session p \<longleftrightarrow> p = BOTTOMRIGHT_PANE" for p
    by (cases p) (simp_all add: sample_session_def mk_client_session_def)
  have "pane_ok sample_session (rect_of_extent 0 0 7000 7000)"
    by (simp add: pane_ok_def rect_of_extent_def s32_id sample_session_def)
  moreover have "grid_ok sample_session 0 0" by (simp add: grid_ok_def sample_session_def)
  moreover have "rect_has_surface (cs_clientVisibleArea sample_session)"
    by (simp add: rect_has_surface_def sample_session_def rect_of_extent_def s32_id)
  ultimately have look: "looking (db_sessions sample_broker 5) ?m 0"
    by (simp add: looking_def split area) (simp add: sample_session_def mk_client_session_def)
  have ver: "version_ok (version_of (db_tileVersion sample_broker + 1))" by (simp add: version_ok_def version_of_def s32_id)
  obtain b' where b': "handle_tile_invalidation sample_env ''invalidatetiles: part=0 x=100 y=200 width=50 height=60 wid=1'' 5 sample_broker = Ok b'"
    "\<forall>p x y. is_split_pane sample_session p \<and> (x, y) \<in> rect_points (get_normalized_visible_pane_area sample_session p) \<and>
        (x, y) \<in> rect_points (rect_of_extent 100 200 50 60) \<longrightarrow>
      (\<exists>pos old. (x, y) \<in> rect_points (to_aabbox (grid_tile sample_session 0 0 old pos)) \<and> due 5 b' (grid_tile sample_session 0 0 old pos))"
    using invalidated_points_due [OF sample_broker_ok _ sample_message look ver, of sample_filled 1] by auto
  have "(120, 210) \<in> rect_points (rect_of_extent 0 0 7000 7000)" "(120, 210) \<in> rect_points (rect_of_extent 100 200 50 60)"
    by (simp_all add: rect_points_def rect_of_extent_def s32_id)
  then show ?thesis using b'(2) [rule_format, of BOTTOMRIGHT_PANE 120 210] b'(1) by (auto simp: split area)
qed

section \<open>Tiles on their way\<close>

text \<open>The limit of tiles on their way, computed in single precision, lets all the tiles of the
  visible area go at once, when they are fewer than \<open>2 ^ 24\<close>, and is at least 10.\<close>

theorem limit_covers_visible_area:
  assumes "rect_has_surface (get_normalized_visible_area s)" "0 < cs_tileWidthTwips s" "0 < cs_tileHeightTwips s"
    and "rx2 (get_normalized_visible_area s) < INT_MAX" "ry2 (get_normalized_visible_area s) < INT_MAX"
    and "card (visible_tiles s) < 2 ^ 24"
  shows "card (visible_tiles s) \<le> get_tiles_on_fly_upper_limit s \<and> 10 \<le> get_tiles_on_fly_upper_limit s"
proof -
  define a where "a = get_normalized_visible_area s"
  let ?w = "cs_tileWidthTwips s" and ?h = "cs_tileHeightTwips s"
  let ?X = "{rx1 a div ?w..rx2 a div ?w}" and ?Y = "{ry1 a div ?h..ry2 a div ?h}"
  have a: "0 \<le> rx1 a" "0 \<le> ry1 a" "rx1 a \<le> rx2 a" "ry1 a \<le> ry2 a"
    using assms(1) by (simp_all add: a_def get_normalized_visible_area_def rect_create_def rect_has_surface_def Let_def)
  have "visible_tiles s = ((\<lambda>x. x div ?w) ` {rx1 a..rx2 a}) \<times> ((\<lambda>y. y div ?h) ` {ry1 a..ry2 a})"
    unfolding visible_tiles_def rect_points_def a_def [symmetric] by (auto simp: image_iff)
  then have tiles: "card (visible_tiles s) = card ?X * card ?Y"
    using div_image [OF a(3) assms(2)] div_image [OF a(4) assms(3)] by (simp only: card_cartesian_product)
  have "s32 (int (card ?X) * int (card ?Y)) = int (card ?X * card ?Y)"
    unfolding of_nat_mult [symmetric]
  proof (rule s32_id)
    define n where "n = card ?X * card ?Y"
    have "n < 2 ^ 24" using assms(6) unfolding tiles n_def .
    then show "INT_MIN \<le> int (card ?X * card ?Y)" "int (card ?X * card ?Y) \<le> INT_MAX" unfolding n_def [symmetric] by simp_all
  qed
  then have "get_tiles_on_fly_upper_limit s = tiles_limit (int (card (visible_tiles s)))"
    using visible_extent [OF a(1,3) assms(4) [folded a_def] assms(2)] visible_extent [OF a(2,4) assms(5) [folded a_def] assms(3)] assms(1-3)
    unfolding get_tiles_on_fly_upper_limit_def a_def [symmetric] tiles Let_def by simp
  then show ?thesis using tiles_limit_lower [OF assms(6)] by (simp add: tiles_limit_def tiles_on_fly_min_upper_limit_def)
qed

lemma sample_visible: "get_normalized_visible_area sample_session = \<lparr>rx1 = 0, ry1 = 0, rx2 = 7000, ry2 = 7000\<rparr>"
  by (simp add: get_normalized_visible_area_def sample_session_def rect_create_def rect_of_extent_def s32_id)

theorem limit_covers_visible_area_witness:
  "card (visible_tiles sample_session) = 4 \<and> card (visible_tiles sample_session) \<le> get_tiles_on_fly_upper_limit sample_session"
proof -
  have tw: "cs_tileWidthTwips sample_session = 3840" "cs_tileHeightTwips sample_session = 3840" by (simp_all add: sample_session_def)
  have "visible_tiles sample_session = ((\<lambda>x. x div 3840) ` {0..7000}) \<times> ((\<lambda>y. y div 3840) ` {0..7000})"
    by (auto simp: visible_tiles_def rect_points_def sample_visible tw image_iff)
  then have "card (visible_tiles sample_session) = 4"
    using div_image [of 0 7000 3840] by (simp add: card_cartesian_product)
  then show ?thesis using limit_covers_visible_area [of sample_session] by (simp add: sample_visible tw rect_has_surface_def)
qed

section \<open>Two behaviours worth knowing\<close>

lemma assigned_key [simp]: "message_key view_of (assign_first_line_if_empty m) = message_key view_of m"
  unfolding message_key_def me_contains_def json_string_def assigned_message message_first_line_assign assign_first_line_fields by (rule refl)

lemma assigned_ok [simp]: "message_ok view_of (assign_first_line_if_empty m) = message_ok view_of m"
  unfolding message_ok_def json_string_def assigned_message message_first_line_assign assign_first_line_fields by (rule refl)

text \<open>A tile that replaces one still in the queue is not counted as on its way: only the growth of the
  queue is, so the list keeps the wire id of the message that is no longer sent, and that of the message that is sent is missing.\<close>

theorem replacing_tile_not_counted:
  assumes "queue_ok (en_view_of en) (cs_senderQueue s)" "message_ok (en_view_of en) m" "message_first_token m = ''tile:''"
    and "\<not> cs_isCloseFrame s" "\<not> en_terminating en" "\<exists>c \<in> set (cs_senderQueue s). replaces (en_view_of en) m c"
  shows "\<exists>s'. enqueue_send_message en m s = Ok s' \<and> cs_tilesOnFly s' = cs_tilesOnFly s \<and>
    me_data (last (cs_senderQueue s')) = me_data m \<and> length (cs_senderQueue s') = length (cs_senderQueue s)"
proof -
  let ?m = "assign_first_line_if_empty m" and ?q = "cs_senderQueue s"
  let ?kept = "filter (\<lambda>c. \<not> replaces (en_view_of en) ?m c) ?q"
  have wf: "sv_wf (me_tokens m)" using assms(2) by (simp add: message_ok_def)
  have tok: "first_token_matches ''tile:'' m" using assms(3) wf by (simp add: first_token_matches_eq)
  obtain t where t: "parse_tile (message_first_line ?m) = Ok t" using assms(2,3) by (auto simp: message_ok_def)
  have rep: "replaces (en_view_of en) ?m c = replaces (en_view_of en) m c" for c by (simp add: replaces_def)
  have enq: "sq_enqueue (en_view_of en) False ?m ?q = Ok (?kept @ [hashed ?m], Suc (length ?kept))"
    using enqueue_ok(1) [OF assms(1), of ?m] assms(2) by simp
  have one: "length ?kept < length ?q" using assms(6) unfolding rep by (auto intro!: length_filter_less)
  have "length ?q \<le> Suc (length ?kept)"
    using at_most_one_removed [OF one_replaced [OF assms(1), of ?m]] by simp
  then have len: "length ?q = Suc (length ?kept)" using one by linarith
  have "enqueue_send_message en m s = Ok (s\<lparr>cs_senderQueue := ?kept @ [hashed ?m]\<rparr>)"
    using assms(4,5) tok t enq len by (simp add: enqueue_send_message_def Let_def del: message_first_line_assign)
  then show ?thesis using len by simp
qed

theorem replacing_tile_not_counted_witness:
  "\<exists>s. queue_ok Ok (cs_senderQueue s) \<and> cs_senderQueue s \<noteq> [] \<and>
    (\<exists>s'. enqueue_send_message sample_env (mk_message (serialize sample_desc ''tile:'' (newline # chars [1]))) s = Ok s' \<and>
      cs_tilesOnFly s' = cs_tilesOnFly s)"
proof -
  let ?m = "mk_message (serialize sample_desc ''tile:'' (newline # chars [1]))"
  let ?s = "mk_client_session\<lparr>cs_senderQueue := [hashed ?m]\<rparr>"
  have valid: "tile_valid sample_desc" "wire_ranges sample_desc"
    by (simp_all add: sample_desc_def tile_valid_def wire_ranges_def)
  have w: "command_word ''tile:''" "''tile:'' \<in> {''tile:'', ''delta:''}" by simp_all
  note mt = message_of_tile [OF w valid, where bs = "[1]"]
  have key: "message_key Ok ?m \<noteq> None" using mt(1) [of Ok] mt(4) by (auto simp: message_key_def message_ok_def)
  have q: "queue_ok (en_view_of sample_env) (cs_senderQueue ?s)"
    using queued_ok_hashed [OF mt(1) [of Ok]] by (simp add: queue_ok_def sample_env_def)
  have rep: "\<exists>c \<in> set (cs_senderQueue ?s). replaces (en_view_of sample_env) ?m c"
    using key by (simp add: replaces_def sample_env_def)
  have "\<exists>s'. enqueue_send_message sample_env ?m ?s = Ok s' \<and> cs_tilesOnFly s' = cs_tilesOnFly ?s \<and>
      me_data (last (cs_senderQueue s')) = me_data ?m \<and> length (cs_senderQueue s') = length (cs_senderQueue ?s)"
    by (rule replacing_tile_not_counted [OF q mt(1) mt(4) _ _ rep]) (simp_all add: mk_client_session_def sample_env_def)
  then show ?thesis using q by (intro exI [of _ ?s]) (auto simp: sample_env_def)
qed

text \<open>The request for a tile has two blanks after the command.\<close>

lemma parse_tile_request: "parse_tile (''tile '' @ serialize t [] []) = parse_tile (serialize t ''tile'' [])"
proof -
  obtain r where r: "serialize t [] [] = CHR '' '' # r" by (simp add: serialize_def)
  have s: "serialize t ''tile'' [] = ''tile '' @ r" using r by (simp add: serialize_def)
  have "newline \<notin> set (serialize t [] [])" by (rule serialize_no_newline) (simp add: plain_prefix_def)
  then have n: "newline \<notin> set (''tile  '' @ r)" "newline \<notin> set (''tile '' @ r)" unfolding r by simp_all
  have "split_tokens (CHR '' '') (''tile  '' @ r) = split_tokens (CHR '' '') (''tile '' @ r)"
    unfolding split_tokens_def first_line_id [OF n(1)] first_line_id [OF n(2)] by simp
  then have "sv_texts (tokenize_data (''tile  '' @ r) (CHR '' '')) = sv_texts (tokenize_data (''tile '' @ r) (CHR '' ''))"
    by (simp add: sv_texts_tokenize)
  then show ?thesis unfolding r s by (simp add: parse_tile_def parse_tile_tokens_def parse_tile_step_texts)
qed

text \<open>A request for a single tile that is not cached is sent to the kit as it was before a keyframe was
  forced: what the kit parses has the old wire id of the request, so it may answer with a delta that the cache cannot use.\<close>

theorem single_tile_keyframe_not_asked:
  assumes "db_tileCache b = Some c" "lookup_tile t' c = None" "tile_valid t'" "wire_ranges t'"
    and "t' = t\<lparr>td_canonicalViewId := cs_canonicalViewId (db_sessions b sid), td_ver := version_of (db_tileVersion b + 1)\<rparr>"
  shows "\<exists>b' m c'. handle_tile_desc en t forceKeyframe sid b = Ok b' \<and> db_toChild b' = db_toChild b @ [m] \<and>
    parse_tile m = Ok t' \<and> td_oldWireId t' = td_oldWireId t \<and> db_tileCache b' = Some c' \<and> waits sid t' c'"
proof -
  let ?b = "b\<lparr>db_tileVersion := db_tileVersion b + 1\<rparr>"
  let ?b2 = "if forceKeyframe then set_session sid (cs_reset_tile_seq t' (db_sessions ?b sid)) ?b else ?b"
  let ?c = "snd (subscribe_to_tile_rendering (force_keyframe t') sid (en_now en) c)"
  have "handle_tile_desc en t forceKeyframe sid b = Ok (send_to_child (''tile '' @ serialize t' [] [])
      (?b2\<lparr>db_tileCache := Some ?c, db_debugRenderedTileCount := s32 (db_debugRenderedTileCount ?b2 + 1)\<rparr>))"
    using assms(1,2) unfolding handle_tile_desc_def assms(5) [symmetric] Let_def by simp
  moreover have "waits sid t' ?c" by (rule subscribe_waits) (simp add: cache_eq_key cache_key_def force_keyframe_def)
  moreover have "parse_tile (''tile '' @ serialize t' [] []) = Ok t'"
    unfolding parse_tile_request by (rule parse_tile_serialize [OF assms(3,4)]) (simp_all add: plain_prefix_def line_suffix_def)
  ultimately show ?thesis using assms(5) by (auto simp: send_to_child_def)
qed

theorem single_tile_keyframe_not_asked_witness:
  "\<exists>b' m. handle_tile_desc sample_env (sample_desc\<lparr>td_tilePosX := 3840, td_oldWireId := 3\<rparr>) True 5 sample_broker = Ok b' \<and>
    db_toChild b' = [m] \<and> (\<exists>d. parse_tile m = Ok d \<and> td_oldWireId d = 3)"
proof -
  let ?t = "sample_desc\<lparr>td_tilePosX := 3840, td_oldWireId := 3\<rparr>"
  have eq: "?t = ?t\<lparr>td_canonicalViewId := cs_canonicalViewId (db_sessions sample_broker 5), td_ver := version_of (db_tileVersion sample_broker + 1)\<rparr>"
    by (simp add: sample_desc_def version_of_def s32_id)
  have none: "lookup_tile ?t sample_filled = None"
    by (simp add: lookup_tile_def find_tile_def sample_filled_def mk_tile_cache_def cache_eq_key cache_key_def sample_desc_def)
  have ok: "tile_valid ?t" "wire_ranges ?t" by (simp_all add: sample_desc_def tile_valid_def wire_ranges_def)
  have "db_toChild sample_broker = []" by (simp add: sample_broker_def mk_broker_def)
  then show ?thesis using single_tile_keyframe_not_asked [OF sample_broker_fields(1) none ok eq, of sample_env True] by fastforce
qed

end
