(* ===== verification/SlideTheorems.thy ===== *)
theory SlideTheorems
  imports SlideCaches
begin

text \<open>
  The cache of the slides keeps those used last: the invariant of every cache that the operations
  build, and what inserting a layer does to it.
\<close>

section \<open>Slides\<close>

lemma sc_insert_order:
  assumes "sc_wf c"
  shows "sc_insert key dat c =
    res_bind (reduce_size_to (sc_max_size c) (c\<lparr>sc_order := remove1 key (sc_order c) @ [key],
      sc_map := AList.update key ((case sc_find key c of None \<Rightarrow> [] | Some ms \<Rightarrow> ms) @ [dat]) (sc_map c)\<rparr>)) (\<lambda>(n, c'). Ok c')"
proof -
  have wf: "distinct (sc_order c)" "set (sc_order c) = fst ` set (sc_map c)" using assms by (auto simp: sc_wf_def)
  show ?thesis
  proof (cases "map_of (sc_map c) key")
    case None
    then have "key \<notin> set (sc_order c)" using wf(2) by (simp add: map_of_eq_None_iff)
    then show ?thesis using None by (simp add: sc_insert_def sc_find_def remove1_idem Let_def)
  next
    case (Some ms)
    then have k: "key \<in> set (sc_order c)" using wf(2) by (metis domI dom_map_of_conv_image_fst)
    then have "(if last (sc_order c) \<noteq> key then move_to_end key (sc_order c) else sc_order c) = remove1 key (sc_order c) @ [key]"
    proof (cases "last (sc_order c) = key")
      case True
      then obtain ks where ks: "sc_order c = ks @ [key]" using k by (metis append_butlast_last_id empty_iff list.set(1))
      then have "key \<notin> set ks" using wf(1) by simp
      then show ?thesis using True ks by (simp add: remove1_append)
    qed (simp add: move_to_end_present [OF k wf(1)])
    moreover have "sc_order c \<noteq> []" using k by auto
    ultimately show ?thesis using Some by (simp add: sc_insert_def sc_find_def Let_def)
  qed
qed

lemma map_of_filter_keys: "map_of (filter (\<lambda>p. fst p \<in> K) m) k = (if k \<in> K then map_of m k else None)"
  by (induction m) auto

lemma sc_insert_ok:
  fixes key :: string
  assumes "sc_wf c" "0 < sc_max_size c"
  defines "order \<equiv> remove1 key (sc_order c) @ [key]"
  defines "kept \<equiv> drop (length order - sc_max_size c) order"
  shows "\<exists>c'. sc_insert key dat c = Ok c' \<and> sc_wf c' \<and> sc_max_size c' = sc_max_size c \<and> sc_order c' = kept \<and>
    (\<forall>k. sc_find k c' = (if k = key then Some ((case sc_find key c of None \<Rightarrow> [] | Some ms \<Rightarrow> ms) @ [dat])
      else if k \<in> set kept then sc_find k c else None))"
proof -
  let ?ms = "(case sc_find key c of None \<Rightarrow> [] | Some ms \<Rightarrow> ms) @ [dat]"
  let ?m = "AList.update key ?ms (sc_map c)"
  have wf: "distinct (map fst (sc_map c))" "distinct (sc_order c)" "set (sc_order c) = set (map fst (sc_map c))"
    using assms(1) by (auto simp: sc_wf_def)
  have m: "distinct (map fst ?m)" "set order = set (map fst ?m)" "distinct order"
    using wf distinct_update [OF wf(1)] by (auto simp: order_def update_keys)
  have len: "length ?m = length order" using m by (metis distinct_card length_map)
  have key: "key \<in> set kept"
    using assms(2) by (cases "sc_order c = []") (auto simp: kept_def order_def)
  let ?c = "c\<lparr>sc_map := filter (\<lambda>p. fst p \<in> set kept) ?m, sc_order := kept\<rparr>"
  have "reduce_size_to (sc_max_size c) (c\<lparr>sc_order := order, sc_map := ?m\<rparr>) = Ok (length order - sc_max_size c, ?c)"
  proof (cases "length order \<le> sc_max_size c")
    case True
    moreover have "filter (\<lambda>p. fst p \<in> set order) ?m = ?m" using m(2) by (intro filter_True) auto
    ultimately show ?thesis by (simp add: reduce_size_to_def sc_size_def len kept_def)
  next
    case False
    then show ?thesis using reduce_loop_keeps [OF m(1,3,2)] by (simp add: reduce_size_to_def sc_size_def len kept_def)
  qed
  then have ins: "sc_insert key dat c = Ok ?c" unfolding sc_insert_order [OF assms(1)] order_def by simp
  have sub: "set kept \<subseteq> set (map fst ?m)" using m(2) by (auto simp: kept_def dest: in_set_dropD)
  have d: "distinct (map fst (filter (\<lambda>p. fst p \<in> set kept) ?m))" using m(1) by (simp add: distinct_map_filter)
  have keys: "set (map fst (filter (\<lambda>p. fst p \<in> set kept) ?m)) = set kept" using sub by auto
  have dk: "distinct kept" using m(3) by (simp add: kept_def)
  have "length (filter (\<lambda>p. fst p \<in> set kept) ?m) = length kept" using d keys dk by (metis distinct_card length_map)
  then have "sc_wf ?c" using d keys dk by (simp add: sc_wf_def sc_size_def kept_def)
  moreover have "sc_find k ?c = (if k = key then Some ?ms else if k \<in> set kept then sc_find k c else None)" for k
    using key by (simp add: sc_find_def map_of_filter_keys update_conv)
  ultimately show ?thesis using ins by (intro exI [of _ ?c]) auto
qed

inductive slides_reachable :: "nat \<Rightarrow> slide_cache \<Rightarrow> bool" for n where
  start: "slides_reachable n (mk_slide_cache n)"
| insert: "slides_reachable n c \<Longrightarrow> sc_insert key dat c = Ok c' \<Longrightarrow> slides_reachable n c'"
| erase: "slides_reachable n c \<Longrightarrow> slides_reachable n (sc_erase_all c)"

lemma slides_reachable_wf: "slides_reachable n c \<Longrightarrow> 0 < n \<Longrightarrow> sc_wf c \<and> sc_max_size c = n"
proof (induction rule: slides_reachable.induct)
  case start
  then show ?case by (simp add: mk_slide_cache_def sc_wf_def sc_size_def)
next
  case (insert c key dat c')
  then show ?case using sc_insert_ok [of c key dat] by auto
next
  case (erase c)
  then show ?case by (simp add: sc_erase_all_def sc_wf_def sc_size_def)
qed

text \<open>The cache of the slides for at least one slide keeps the slides used last: inserting a layer never fails, the slide has its
  former layers and the new one, at most the given number of slides is kept, those that leave are the ones
  not used for the longest time, and the others keep their layers.\<close>

theorem slides_used_last_kept:
  assumes "slides_reachable n c" "0 < n"
  shows "\<exists>c'. sc_insert key dat c = Ok c' \<and> sc_size c' \<le> n \<and>
    sc_order c' = (let order = remove1 key (sc_order c) @ [key] in drop (length order - n) order) \<and>
    sc_find key c' = Some ((case sc_find key c of None \<Rightarrow> [] | Some ms \<Rightarrow> ms) @ [dat]) \<and>
    (\<forall>k. k \<noteq> key \<longrightarrow> sc_find k c' = (if k \<in> set (sc_order c') then sc_find k c else None))"
proof -
  have "sc_wf c" "sc_max_size c = n" using slides_reachable_wf [OF assms] by blast+
  then show ?thesis using sc_insert_ok [of c key dat] assms(2) unfolding sc_wf_def Let_def by auto
qed

theorem slides_used_last_kept_witness:
  "\<exists>c'. sc_insert ''a'' (mk_message ''x'') (mk_slide_cache 1) = Ok c' \<and> sc_size c' \<le> 1 \<and> sc_order c' = [''a''] \<and>
    sc_find ''a'' c' = Some [mk_message ''x'']"
  using slides_used_last_kept [OF slides_reachable.start, of 1 "''a''" "mk_message ''x''"]
  by (auto simp: mk_slide_cache_def sc_find_def)

end
