(* ===== verification/Buffers.thy ===== *)
theory Buffers
  imports Prelude
begin

text \<open>
  \<open>Buffer\<close> of src/net/Buffer.hpp: what was received or is to be sent, a vector whose first elements may
  be consumed already, so that erasing at the front need not move the rest each time. The lemmas say that
  the operations are those of the list of what is left, which is the interface the protocols use.
\<close>

lemma res_bind_cong [fundef_cong]:
  "m = m' \<Longrightarrow> (\<And>x. m' = Ok x \<Longrightarrow> f x = f' x) \<Longrightarrow> res_bind m f = res_bind m' f'"
  by (cases m') auto

section \<open>The interface\<close>

locale stream_buffer =
  fixes good :: "'b \<Rightarrow> bool"
    and view :: "'b \<Rightarrow> 'a list"
    and push :: "'a list \<Rightarrow> 'b \<Rightarrow> 'b"
    and pop :: "nat \<Rightarrow> 'b \<Rightarrow> 'b res"
  assumes push_good: "good b \<Longrightarrow> good (push xs b)"
    and view_push: "good b \<Longrightarrow> view (push xs b) = view b @ xs"
    and pop_ok: "good b \<Longrightarrow> n \<le> length (view b) \<Longrightarrow> \<exists>b'. pop n b = Ok b' \<and> good b' \<and> view b' = drop n (view b)"
begin

text \<open>However it is cut up, what is pushed is what is popped.\<close>

lemma view_pushes: "good b \<Longrightarrow> good (fold push xss b) \<and> view (fold push xss b) = view b @ concat xss"
  by (induction xss arbitrary: b) (auto simp: push_good view_push)

lemma pop_prefix:
  assumes "good b" "view b = xs @ ys"
  obtains b' where "pop (length xs) b = Ok b'" "good b'" "view b' = ys"
  using pop_ok [OF assms(1), of "length xs"] assms(2) by auto

lemma pop_pushed:
  assumes "good b" "concat xss = xs @ ys" "view b = []"
  shows "\<exists>b'. pop (length xs) (fold push xss b) = Ok b' \<and> good b' \<and> view b' = ys"
  using pop_prefix [of "fold push xss b" xs ys] view_pushes [OF assms(1), of xss] assms(2,3) by auto

end

section \<open>The buffer\<close>

record 'a buffer =
  bu_offset :: nat
  bu_buffer :: "'a list"

definition buf_empty :: "'a buffer" where
  "buf_empty = \<lparr>bu_offset = 0, bu_buffer = []\<rparr>"

definition buf_view :: "'a buffer \<Rightarrow> 'a list" where
  "buf_view b = drop (bu_offset b) (bu_buffer b)"

definition buf_size :: "'a buffer \<Rightarrow> nat" where
  "buf_size b = length (bu_buffer b) - bu_offset b"

definition buf_is_empty :: "'a buffer \<Rightarrow> bool" where
  "buf_is_empty b \<longleftrightarrow> bu_offset b = length (bu_buffer b)"

definition buf_erase_first :: "nat \<Rightarrow> 'a buffer \<Rightarrow> 'a buffer res" where
  "buf_erase_first len b =
    (if len = 0 then Ok b
     else if \<not> (bu_offset b + len \<le> length (bu_buffer b) \<and> bu_offset b + buf_size b = length (bu_buffer b)) then Err AssertionFailed
     else
       let n = min len (buf_size b)
       in if length (bu_buffer b) > 16384 \<and> n < buf_size b \<and> bu_offset b < 16384 * 64 \<and> buf_size b > 512
          then Ok (b\<lparr>bu_offset := bu_offset b + n\<rparr>)
          else Ok \<lparr>bu_offset = 0, bu_buffer = drop (bu_offset b + n) (bu_buffer b)\<rparr>)"

text \<open>\<open>append\<close>; its length is an \<open>int\<close>, and a negative one gives an invalid range.\<close>

definition buf_append :: "'a list \<Rightarrow> int \<Rightarrow> 'a buffer \<Rightarrow> 'a buffer res" where
  "buf_append xs len b =
    (if s32 len < 0 \<or> nat (s32 len) > length xs then Err OutOfBounds
     else Ok (b\<lparr>bu_buffer := bu_buffer b @ take (nat (s32 len)) xs\<rparr>))"

definition buf_clear :: "'a buffer \<Rightarrow> 'a buffer" where
  "buf_clear b = \<lparr>bu_offset = 0, bu_buffer = []\<rparr>"

definition buf_at :: "'a buffer \<Rightarrow> nat \<Rightarrow> 'a res" where
  "buf_at b i = (if bu_offset b + i < length (bu_buffer b) then Ok (bu_buffer b ! (bu_offset b + i)) else Err OutOfBounds)"

text \<open>\<open>erase\<close> of a range, by positions from \<open>begin()\<close>\<close>

definition buf_erase :: "nat \<Rightarrow> nat \<Rightarrow> 'a buffer \<Rightarrow> 'a buffer res" where
  "buf_erase i j b =
    (if i = 0 then buf_erase_first j b
     else if i \<le> j \<and> bu_offset b + j \<le> length (bu_buffer b)
     then Ok (b\<lparr>bu_buffer := take (bu_offset b + i) (bu_buffer b) @ drop (bu_offset b + j) (bu_buffer b)\<rparr>)
     else Err OutOfBounds)"

section \<open>The list of what is left\<close>

definition buf_ok :: "'a buffer \<Rightarrow> bool" where
  "buf_ok b \<longleftrightarrow> bu_offset b \<le> length (bu_buffer b)"

lemma buf_empty_ok [simp]: "buf_ok buf_empty" "buf_view buf_empty = []" "buf_ok (buf_clear b)" "buf_view (buf_clear b) = []"
  by (simp_all add: buf_ok_def buf_empty_def buf_view_def buf_clear_def)

lemma buf_size_view: "buf_size b = length (buf_view b)"
  by (simp add: buf_size_def buf_view_def)

lemma buf_is_empty_view: "buf_ok b \<Longrightarrow> buf_is_empty b \<longleftrightarrow> buf_view b = []"
  by (auto simp: buf_is_empty_def buf_view_def buf_ok_def)

lemma buf_erase_first_ok:
  assumes "buf_ok b" "n \<le> length (buf_view b)"
  shows "\<exists>b'. buf_erase_first n b = Ok b' \<and> buf_ok b' \<and> buf_view b' = drop n (buf_view b)"
proof (cases "n = 0")
  case True
  then show ?thesis using assms(1) by (simp add: buf_erase_first_def)
next
  case False
  have n: "bu_offset b + n \<le> length (bu_buffer b)" "n \<le> buf_size b" "bu_offset b + buf_size b = length (bu_buffer b)"
    using assms by (auto simp: buf_ok_def buf_view_def buf_size_def)
  let ?moved = "b\<lparr>bu_offset := bu_offset b + n\<rparr>" and ?cut = "\<lparr>bu_offset = 0, bu_buffer = drop (bu_offset b + n) (bu_buffer b)\<rparr>"
  have "buf_erase_first n b = Ok ?moved \<or> buf_erase_first n b = Ok ?cut"
    unfolding buf_erase_first_def Let_def min_absorb1 [OF n(2)] using False n(1,3) by simp
  moreover have "buf_ok ?moved" "buf_ok ?cut" using n(1) by (simp_all add: buf_ok_def)
  moreover have "buf_view ?moved = drop n (buf_view b)" "buf_view ?cut = drop n (buf_view b)"
    by (simp_all add: buf_view_def add.commute)
  ultimately show ?thesis by metis
qed

definition buf_push :: "'a list \<Rightarrow> 'a buffer \<Rightarrow> 'a buffer" where
  "buf_push xs b = b\<lparr>bu_buffer := bu_buffer b @ xs\<rparr>"

lemma buf_push_push [simp]: "buf_push ys (buf_push xs b) = buf_push (xs @ ys) b" "buf_push [] b = b"
  by (simp_all add: buf_push_def)

lemma buf_append_push: "int (length xs) \<le> INT_MAX \<Longrightarrow> buf_append xs (int (length xs)) b = Ok (buf_push xs b)"
  by (simp add: buf_append_def buf_push_def s32_id)

interpretation buffers: stream_buffer buf_ok buf_view buf_push buf_erase_first
proof unfold_locales
  fix b :: "'a buffer" and xs n
  assume "buf_ok b"
  then show "buf_ok (buf_push xs b)" "buf_view (buf_push xs b) = buf_view b @ xs"
    by (simp_all add: buf_push_def buf_ok_def buf_view_def)
  assume "n \<le> length (buf_view b)"
  then show "\<exists>b'. buf_erase_first n b = Ok b' \<and> buf_ok b' \<and> buf_view b' = drop n (buf_view b)"
    by (rule buf_erase_first_ok [OF \<open>buf_ok b\<close>])
qed

lemma buf_at_view: "buf_ok b \<Longrightarrow> i < length (buf_view b) \<Longrightarrow> buf_at b i = Ok (buf_view b ! i)"
  by (simp add: buf_at_def buf_view_def buf_ok_def)

lemma buf_erase_ok:
  assumes "buf_ok b" "i \<le> j" "j \<le> length (buf_view b)"
  shows "\<exists>b'. buf_erase i j b = Ok b' \<and> buf_ok b' \<and> buf_view b' = take i (buf_view b) @ drop j (buf_view b)"
proof (cases "i = 0")
  case True
  then show ?thesis using buf_erase_first_ok [OF assms(1,3)] by (simp add: buf_erase_def)
next
  case False
  have j: "bu_offset b + j \<le> length (bu_buffer b)" using assms(1,3) by (auto simp: buf_ok_def buf_view_def)
  let ?b = "b\<lparr>bu_buffer := take (bu_offset b + i) (bu_buffer b) @ drop (bu_offset b + j) (bu_buffer b)\<rparr>"
  have "buf_erase i j b = Ok ?b" using False j assms(2) by (simp add: buf_erase_def)
  moreover have "buf_ok ?b" using j assms(2) by (simp add: buf_ok_def)
  moreover have "buf_view ?b = take i (buf_view b) @ drop j (buf_view b)"
    using j assms(2) by (simp add: buf_view_def take_drop add.commute)
  ultimately show ?thesis by blast
qed

end
