(* ===== verification/WebSockets.thy ===== *)
theory WebSockets
  imports Buffers
begin

text \<open>
  \<open>WebSocketHandler\<close> of src/net/WebSocketHandler.hpp: the frames of a web socket, sent and received. A
  handler is the record of its fields, of those of its socket that it uses, of the messages it has
  handed to \<open>handleMessage\<close> and of its calls of \<open>gotPing\<close>. What the message handler does in turn, the writing
  of the out buffer to the network and the upgrade from HTTP are outside; the handler has a socket, and the clock is an argument. The build is
  the one of the server: no mobile app, no unit test, no debug.

  Lengths of \<open>uint64_t\<close> are natural numbers below \<open>2 ^ 64\<close>; shifts of them are divisions by powers of two.
\<close>

unbundle bit_operations_syntax

type_synonym octet = "8 word"

section \<open>The handler\<close>

record websocket =
  ws_payload :: "octet list"
  ws_lastPingSentTime :: int
  ws_pingTimeUs :: int
  ws_isMasking :: bool
  ws_inFragmentBlock :: bool
  ws_lastFlags :: octet
  ws_shuttingDown :: bool
  ws_isClient :: bool
  ws_in :: "octet buffer"
  ws_out :: "octet buffer"
  ws_open :: bool
  ws_upgraded :: bool
  ws_processInput :: bool
  ws_ignoreInput :: bool
  ws_shutdownSignalled :: bool
  ws_messages :: "octet list list"
  ws_gotPings :: "(octet \<times> int) list"

definition ping_frequency_us :: int where "ping_frequency_us = 18000000"
definition initial_ping_delay_us :: int where "initial_ping_delay_us = 25000"

definition mk_websocket :: "bool \<Rightarrow> bool \<Rightarrow> int \<Rightarrow> websocket" where
  "mk_websocket isClient isMasking now =
    \<lparr>ws_payload = [], ws_lastPingSentTime = now - ping_frequency_us * 1000 + initial_ping_delay_us * 1000, ws_pingTimeUs = 0,
     ws_isMasking = (isClient \<and> isMasking), ws_inFragmentBlock = False, ws_lastFlags = 0, ws_shuttingDown = False,
     ws_isClient = isClient, ws_in = buf_empty, ws_out = buf_empty, ws_open = True, ws_upgraded = False,
     ws_processInput = True, ws_ignoreInput = False, ws_shutdownSignalled = False, ws_messages = [], ws_gotPings = []\<rparr>"

abbreviation (input) op_continuation :: octet where "op_continuation \<equiv> 0"
abbreviation (input) op_text :: octet where "op_text \<equiv> 1"
abbreviation (input) op_binary :: octet where "op_binary \<equiv> 2"
abbreviation (input) op_close :: octet where "op_close \<equiv> 8"
abbreviation (input) op_ping :: octet where "op_ping \<equiv> 9"
abbreviation (input) op_pong :: octet where "op_pong \<equiv> 10"

definition is_control_frame :: "octet \<Rightarrow> bool" where
  "is_control_frame code \<longleftrightarrow> code \<ge> op_close"

text \<open>\<open>StatusCodes\<close>, and conversion of any received number to one\<close>

abbreviation (input) normal_close :: nat where "normal_close \<equiv> 1000"
abbreviation (input) endpoint_going_away :: nat where "endpoint_going_away \<equiv> 1001"
abbreviation (input) protocol_error :: nat where "protocol_error \<equiv> 1002"
abbreviation (input) policy_violation :: nat where "policy_violation \<equiv> 1008"

section \<open>Frames\<close>

definition fin_bit :: octet where "fin_bit = 0x80"
definition mask_bit :: octet where "mask_bit = 0x80"

text \<open>The first bytes of a frame, and the masking key\<close>

definition frame_header :: "bool \<Rightarrow> nat \<Rightarrow> octet \<Rightarrow> octet list" where
  "frame_header masking len flags =
    (let maskFlag = (if masking then 0x80 else 0) in
     (fin_bit OR flags) #
      (if len < 126 then [of_nat len OR maskFlag]
       else if len \<le> 0xffff then [126 OR maskFlag, of_nat (len div 2 ^ 8), of_nat len]
       else [127 OR maskFlag, of_nat (len div 2 ^ 56), of_nat (len div 2 ^ 48), of_nat (len div 2 ^ 40), of_nat (len div 2 ^ 32),
             of_nat (len div 2 ^ 24), of_nat (len div 2 ^ 16), of_nat (len div 2 ^ 8), of_nat len]))"

definition mask_key :: "octet list" where
  "mask_key = [0x81, 0x76, 0x81, 0x76]"

text \<open>Masking in blocks of 16384\<close>

function mask_loop :: "octet list \<Rightarrow> nat \<Rightarrow> octet buffer \<Rightarrow> octet buffer res" where
  "mask_loop dat i out =
    (let toSend = min 16384 (length dat - i)
     in if toSend = 0 then Ok out
        else res_bind (buf_append (map (\<lambda>j. dat ! j XOR mask_key ! (j mod 4)) [i..<i + toSend]) (int toSend) out) (mask_loop dat (i + toSend)))"
  by pat_completeness auto
termination by (relation "measure (\<lambda>(dat, i, out). length dat - i)") auto

declare mask_loop.simps [simp del]

definition build_frame :: "bool \<Rightarrow> octet list \<Rightarrow> octet \<Rightarrow> octet buffer \<Rightarrow> octet buffer res" where
  "build_frame masking dat flags out =
    (let h = frame_header masking (length dat) flags
     in res_bind (buf_append h (int (length h)) out) (\<lambda>out.
        if masking then res_bind (buf_append mask_key 4 out) (mask_loop dat 0)
        else buf_append dat (int (length dat)) out))"

text \<open>\<open>sendFrame\<close>: how many bytes were put in the out buffer, 0 for a closed socket, -1 for no data\<close>

definition send_frame :: "octet list \<Rightarrow> octet \<Rightarrow> websocket \<Rightarrow> (int \<times> websocket) res" where
  "send_frame dat flags w =
    (if dat = [] then Ok (-1, w)
     else if \<not> ws_open w then Ok (0, w)
     else res_bind (build_frame (ws_isMasking w) dat flags (ws_out w)) (\<lambda>out.
       let size = buf_size out - buf_size (ws_out w)
       in if size < length dat then Err AssertionFailed else Ok (s32 (int size), w\<lparr>ws_out := out\<rparr>)))"

definition send_message :: "octet list \<Rightarrow> octet \<Rightarrow> websocket \<Rightarrow> (int \<times> websocket) res" where
  "send_message dat code w = send_frame dat (fin_bit OR code) w"

definition send_text_message :: "octet list \<Rightarrow> websocket \<Rightarrow> (int \<times> websocket) res" where
  "send_text_message dat = send_message dat op_text"

definition send_binary_message :: "octet list \<Rightarrow> websocket \<Rightarrow> (int \<times> websocket) res" where
  "send_binary_message dat = send_message dat op_binary"

definition send_ping_or_pong :: "int \<Rightarrow> octet list \<Rightarrow> octet \<Rightarrow> websocket \<Rightarrow> websocket res" where
  "send_ping_or_pong now dat code w =
    (if \<not> ws_upgraded w then Ok (w\<lparr>ws_lastPingSentTime := now\<rparr>)
     else res_bind (send_message dat code w) (\<lambda>(n, w). Ok (w\<lparr>ws_lastPingSentTime := now\<rparr>)))"

definition send_ping :: "int \<Rightarrow> websocket \<Rightarrow> websocket res" where
  "send_ping now = send_ping_or_pong now [0] op_ping"

definition send_pong :: "int \<Rightarrow> octet list \<Rightarrow> websocket \<Rightarrow> websocket res" where
  "send_pong now dat = send_ping_or_pong now dat op_pong"

section \<open>Shutting down\<close>

definition send_close_frame :: "nat \<Rightarrow> octet list \<Rightarrow> websocket \<Rightarrow> websocket res" where
  "send_close_frame code msg w =
    (if \<not> ws_open w then Ok w
     else if \<not> ws_shuttingDown w then
       res_bind (send_frame (of_nat (code div 2 ^ 8) # of_nat code # msg) (fin_bit OR op_close) (w\<lparr>ws_shuttingDown := True\<rparr>)) (\<lambda>(n, w). Ok w)
     else Ok w)"

definition shutdown_impl :: "nat \<Rightarrow> octet list \<Rightarrow> bool \<Rightarrow> bool \<Rightarrow> websocket \<Rightarrow> websocket res" where
  "shutdown_impl code msg hard silent w =
    res_bind (if ws_shuttingDown w \<or> silent then Ok w else send_close_frame code msg w) (\<lambda>w.
      Ok (w\<lparr>ws_shutdownSignalled := True, ws_ignoreInput := True, ws_in := buf_clear (ws_in w),
        ws_open := (ws_open w \<and> \<not> hard), ws_payload := [], ws_inFragmentBlock := False, ws_shuttingDown := False\<rparr>))"

definition ws_shutdown :: "nat \<Rightarrow> octet list \<Rightarrow> websocket \<Rightarrow> websocket res" where
  "ws_shutdown code msg = shutdown_impl code msg False False"

definition shutdown_going_away :: "bool \<Rightarrow> octet list \<Rightarrow> websocket \<Rightarrow> websocket res" where
  "shutdown_going_away goingAway msg = shutdown_impl (if goingAway then endpoint_going_away else normal_close) msg False False"

definition shutdown_after_writing :: "websocket \<Rightarrow> websocket res" where
  "shutdown_after_writing = shutdown_impl normal_close [] True False"

definition shutdown_silent :: "websocket \<Rightarrow> websocket res" where
  "shutdown_silent = shutdown_impl policy_violation [] True True"

section \<open>Receiving\<close>

text \<open>The length of the payload and of what precedes it up to the masking key, when it has arrived\<close>

definition frame_lengths :: "octet list \<Rightarrow> (nat \<times> nat) option" where
  "frame_lengths p =
    (if length p < 2 then None
     else
       let n = unat (p ! 1 AND 0x7f)
       in if n = 126 then
            (if length p < 2 + 2 then None else Some (unat (p ! 2) * 2 ^ 8 + unat (p ! 3), 4))
          else if n = 127 then
            (if length p < 2 + 8 then None
             else Some (unat (p ! 9) + unat (p ! 8) * 2 ^ 8 + unat (p ! 7) * 2 ^ 16 + unat (p ! 6) * 2 ^ 24 +
               unat (p ! 5) * 2 ^ 32 + unat (p ! 4) * 2 ^ 40 + unat (p ! 3) * 2 ^ 48 + unat (p ! 2) * 2 ^ 56, 10))
          else Some (n, 2))"

text \<open>\<open>readPayload\<close>: the payload is unmasked and added to what is there\<close>

definition read_payload :: "octet list \<Rightarrow> octet list option \<Rightarrow> octet list \<Rightarrow> octet list" where
  "read_payload dat key payload =
    (if dat = [] then payload
     else payload @ (case key of None \<Rightarrow> dat | Some m \<Rightarrow> map (\<lambda>i. dat ! i XOR m ! (i mod 4)) [0..<length dat]))"

definition erase_first_input_bytes :: "nat \<Rightarrow> websocket \<Rightarrow> websocket res" where
  "erase_first_input_bytes n w =
    (if min n (buf_size (ws_in w)) > 0 then res_bind (buf_erase_first n (ws_in w)) (\<lambda>b. Ok (w\<lparr>ws_in := b\<rparr>)) else Ok w)"

text \<open>A close frame: its code is read from the first two bytes when there is any.\<close>

definition handle_close :: "octet list \<Rightarrow> websocket \<Rightarrow> websocket res" where
  "handle_close ctrl w =
    (if \<not> ws_shuttingDown w \<and> ctrl \<noteq> [] then
       (if length ctrl < 2 then Err OutOfBounds
        else ws_shutdown (unat (ctrl ! 0) * 2 ^ 8 + unat (ctrl ! 1)) (drop 2 ctrl) w)
     else ws_shutdown normal_close [] w)"

definition handle_control :: "int \<Rightarrow> bool \<Rightarrow> octet \<Rightarrow> octet list \<Rightarrow> websocket \<Rightarrow> websocket res" where
  "handle_control now fin code ctrl w =
    (if \<not> fin \<or> length ctrl > 125 then ws_shutdown protocol_error [] w
     else if code = op_pong then
       let t = s32 (cdiv (now - ws_lastPingSentTime w) 1000)
       in Ok (w\<lparr>ws_pingTimeUs := t, ws_gotPings := ws_gotPings w @ [(code, t)]\<rparr>)
     else if code = op_ping then
       let t = s32 (cdiv (now - ws_lastPingSentTime w) 1000)
       in res_bind (send_pong now ctrl (w\<lparr>ws_pingTimeUs := t\<rparr>)) (\<lambda>w. Ok (w\<lparr>ws_gotPings := ws_gotPings w @ [(code, t)]\<rparr>))
     else if code = op_close then handle_close ctrl w
     else ws_shutdown protocol_error [] w)"

definition handle_data :: "bool \<Rightarrow> octet \<Rightarrow> nat \<Rightarrow> octet list \<Rightarrow> octet list option \<Rightarrow> websocket \<Rightarrow> websocket res" where
  "handle_data fin code n dat key w =
    (if ws_inFragmentBlock w \<and> code \<noteq> op_continuation \<or> \<not> ws_inFragmentBlock w \<and> code = op_continuation
     then ws_shutdown protocol_error [] w
     else
       let payload = read_payload dat key (ws_payload w)
       in res_bind (erase_first_input_bytes n (w\<lparr>ws_payload := payload\<rparr>)) (\<lambda>w.
         if fin then Ok (w\<lparr>ws_messages := ws_messages w @ [payload], ws_inFragmentBlock := False, ws_payload := []\<rparr>)
         else Ok (w\<lparr>ws_inFragmentBlock := True\<rparr>)))"

text \<open>\<open>handleTCPStream\<close>: whether to go on, with the next frame\<close>

definition handle_tcp_stream :: "int \<Rightarrow> websocket \<Rightarrow> (bool \<times> websocket) res" where
  "handle_tcp_stream now w0 =
    (let p = buf_view (ws_in w0); len = length p
     in if len < 2 then Ok (False, w0)
        else
          let w = w0\<lparr>ws_lastFlags := p ! 0\<rparr>;
              fin = (p ! 0 AND 0x80 \<noteq> 0);
              code = p ! 0 AND 0x0f;
              hasMask = (p ! 1 AND 0x80 \<noteq> 0)
          in case frame_lengths p of
               None \<Rightarrow> Ok (False, w)
             | Some (payloadLen, n) \<Rightarrow>
                 let headerLen = (if hasMask then n + 4 else n)
                 in if headerLen > len \<or> payloadLen > len - headerLen then Ok (False, w)
                    else if hasMask \<and> ws_isClient w then res_bind (ws_shutdown protocol_error [] w) (\<lambda>w. Ok (True, w))
                    else
                      let key = (if hasMask then Some (take 4 (drop n p)) else None);
                          dat = take payloadLen (drop headerLen p)
                      in if is_control_frame code then
                           res_bind (buf_erase_first (headerLen + payloadLen) (ws_in w)) (\<lambda>b.
                             res_bind (handle_control now fin code (read_payload dat key []) (w\<lparr>ws_in := b\<rparr>)) (\<lambda>w. Ok (True, w)))
                         else res_bind (handle_data fin code (headerLen + payloadLen) dat key w) (\<lambda>w. Ok (True, w)))"

text \<open>The time until the next ping, and \<open>checkTimeout\<close>\<close>

definition poll_timeout :: "int \<Rightarrow> int \<Rightarrow> websocket \<Rightarrow> int" where
  "poll_timeout now timeoutMaxMicroS w =
    (if \<not> ws_isClient w then min timeoutMaxMicroS (ping_frequency_us - cdiv (now - ws_lastPingSentTime w) 1000) else timeoutMaxMicroS)"

definition check_timeout :: "int \<Rightarrow> websocket \<Rightarrow> websocket res" where
  "check_timeout now w =
    (if ws_isClient w then Ok w
     else if cdiv (now - ws_lastPingSentTime w) 1000 \<ge> ping_frequency_us then send_ping now w else Ok w)"

end
