(* ===== verification/WebSocketProps.thy ===== *)
theory WebSocketProps
  imports WebSockets
begin

text \<open>
  The loop over the received bytes, and the format of RFC 6455 as the reference: what \<open>buildFrame\<close> writes is
  a frame of that format, and the handler gives back what frames carry, however the bytes arrive.
\<close>

section \<open>The loop\<close>

lemma send_frame_in: "send_frame dat flags w = Ok (n, w') \<Longrightarrow> ws_in w' = ws_in w"
  by (auto simp: send_frame_def res_bind_Ok Let_def split: if_splits)

lemma shutdown_clears: "shutdown_impl code msg hard silent w = Ok w' \<Longrightarrow> buf_size (ws_in w') = 0"
  by (auto simp: shutdown_impl_def res_bind_Ok buf_clear_def buf_size_def)

lemma erase_first_less:
  assumes "buf_erase_first n b = Ok b'" "0 < n"
  shows "buf_size b' < buf_size b"
proof -
  have "bu_offset b + n \<le> length (bu_buffer b)" using assms by (auto simp: buf_erase_first_def split: if_splits)
  then show ?thesis using assms by (auto simp: buf_erase_first_def buf_size_def Let_def split: if_splits)
qed

lemma handle_control_in:
  assumes "handle_control now fin code ctrl w = Ok w'"
  shows "buf_size (ws_in w') \<le> buf_size (ws_in w)"
proof -
  have "ws_in v' = ws_in v" if "send_pong now ctrl v = Ok v'" for v v'
    using that by (auto simp: send_pong_def send_ping_or_pong_def send_message_def res_bind_Ok dest!: send_frame_in split: if_splits)
  then show ?thesis
    using assms by (auto simp: handle_control_def handle_close_def ws_shutdown_def res_bind_Ok Let_def
      dest!: shutdown_clears split: if_splits)
qed

lemma handle_data_in:
  assumes "handle_data fin code n dat key w = Ok w'" "0 < n" "0 < buf_size (ws_in w)"
  shows "buf_size (ws_in w') < buf_size (ws_in w)"
  using assms by (auto simp: handle_data_def erase_first_input_bytes_def ws_shutdown_def res_bind_Ok Let_def
    dest!: shutdown_clears dest: erase_first_less split: if_splits)

lemma frame_lengths_pos: "frame_lengths p = Some (k, n) \<Longrightarrow> 2 \<le> n"
  by (auto simp: frame_lengths_def Let_def split: if_splits)

lemma handle_tcp_stream_consumes:
  assumes "handle_tcp_stream now w = Ok (True, w')"
  shows "buf_size (ws_in w') < buf_size (ws_in w)"
proof -
  let ?p = "buf_view (ws_in w)"
  have len: "2 \<le> length ?p" using assms by (simp add: handle_tcp_stream_def Let_def split: if_splits)
  then have pos: "0 < buf_size (ws_in w)" unfolding buf_size_view by linarith
  obtain k n where kn: "frame_lengths ?p = Some (k, n)"
    using assms len by (auto simp: handle_tcp_stream_def Let_def split: if_splits option.splits)
  then have n: "2 \<le> n" by (rule frame_lengths_pos)
  let ?w = "w\<lparr>ws_lastFlags := ?p ! 0\<rparr>" and ?h = "if ?p ! 1 AND 0x80 \<noteq> 0 then n + 4 else n"
  consider (masked) "ws_shutdown protocol_error [] ?w = Ok w'"
    | (control) b fin code ctrl where "buf_erase_first (?h + k) (ws_in w) = Ok b" "handle_control now fin code ctrl (?w\<lparr>ws_in := b\<rparr>) = Ok w'"
    | (data) fin code dat key where "handle_data fin code (?h + k) dat key ?w = Ok w'"
    using assms len kn unfolding handle_tcp_stream_def Let_def by (auto simp: res_bind_Ok split: if_splits)
  then show ?thesis
  proof cases
    case masked
    then show ?thesis using shutdown_clears pos by (simp add: ws_shutdown_def)
  next
    case (control b fin code ctrl)
    have "buf_size b < buf_size (ws_in w)" by (rule erase_first_less [OF control(1)]) (use n in simp)
    then show ?thesis using handle_control_in [OF control(2)] by simp
  next
    case (data fin code dat key)
    then show ?thesis using handle_data_in [OF data] pos n by simp
  qed
qed

text \<open>\<open>handleIncomingMessage\<close> of an upgraded socket\<close>

function ws_incoming :: "int \<Rightarrow> websocket \<Rightarrow> websocket res" where
  "ws_incoming now w =
    (if ws_processInput w
     then res_bind (handle_tcp_stream now w) (\<lambda>r. if fst r then ws_incoming now (snd r) else Ok (snd r))
     else Ok w)"
  by pat_completeness auto
termination
proof (relation "measure (\<lambda>(now, w). buf_size (ws_in w))")
  fix now w and r :: "bool \<times> websocket"
  assume "handle_tcp_stream now w = Ok r" "fst r"
  then show "((now, snd r), now, w) \<in> measure (\<lambda>(now, w). buf_size (ws_in w))"
    using handle_tcp_stream_consumes by (cases r) auto
qed simp

declare ws_incoming.simps [simp del]

text \<open>Bytes that arrive\<close>

definition ws_feed :: "int \<Rightarrow> octet list \<Rightarrow> websocket \<Rightarrow> websocket res" where
  "ws_feed now bs w = ws_incoming now (if ws_ignoreInput w then w else w\<lparr>ws_in := buf_push bs (ws_in w)\<rparr>)"

section \<open>The format\<close>

datatype frame = Frame (fr_fin: bool) (fr_op: octet) (fr_key: "octet list option") (fr_payload: "octet list")

text \<open>The length as 7, 16 or 64 bits, with the bit of the masking key\<close>

definition wire_length :: "bool \<Rightarrow> nat \<Rightarrow> octet list" where
  "wire_length masked n =
    (let m = (if masked then 0x80 else 0)
     in if n < 126 then [of_nat n OR m]
        else if n \<le> 0xffff then (126 OR m) # map (\<lambda>i. of_nat (n div 256 ^ i)) [1, 0]
        else (127 OR m) # map (\<lambda>i. of_nat (n div 256 ^ i)) [7, 6, 5, 4, 3, 2, 1, 0])"

definition unmask :: "octet list option \<Rightarrow> octet list \<Rightarrow> octet list" where
  "unmask key dat = (case key of None \<Rightarrow> dat | Some k \<Rightarrow> map (\<lambda>i. dat ! i XOR k ! (i mod 4)) [0..<length dat])"

definition wire :: "frame \<Rightarrow> octet list" where
  "wire f = ((if fr_fin f then 0x80 else 0) OR fr_op f) # wire_length (fr_key f \<noteq> None) (length (fr_payload f)) @
    (case fr_key f of None \<Rightarrow> [] | Some k \<Rightarrow> k) @ unmask (fr_key f) (fr_payload f)"

definition frame_ok :: "frame \<Rightarrow> bool" where
  "frame_ok f \<longleftrightarrow> fr_op f < 16 \<and> length (fr_payload f) < 2 ^ 64 \<and> (\<forall>k. fr_key f = Some k \<longrightarrow> length k = 4)"

lemma unmask_length [simp]: "length (unmask key dat) = length dat"
  by (simp add: unmask_def split: option.split)

lemma unmask_unmask [simp]: "unmask key (unmask key dat) = dat"
  by (auto simp: unmask_def xor.assoc intro!: nth_equalityI split: option.split)

lemma read_payload_unmask: "read_payload dat key payload = payload @ unmask key dat"
  by (simp add: read_payload_def unmask_def split: option.split)

subsection \<open>Bits of the first two bytes\<close>

lemma seven_bits: "list_all (\<lambda>n. let x = of_nat n :: octet in x AND 0x80 = 0 \<and> (x OR 0x80) AND 0x80 \<noteq> 0 \<and>
    x AND 0x7f = x \<and> (x OR 0x80) AND 0x7f = x) [0..<128]"
  by code_simp

lemma four_bits: "list_all (\<lambda>n. let x = of_nat n :: octet in x AND 0x0f = x \<and> (0x80 OR x) AND 0x0f = x \<and>
    (0x80 OR x) AND 0x80 \<noteq> 0 \<and> x AND 0x80 = 0) [0..<16]"
  by code_simp

lemma length_bits [simp]:
  fixes x :: octet
  assumes "unat x < 128"
  shows "x AND 0x80 = 0" "(x OR 0x80) AND 0x80 \<noteq> 0" "x AND 0x7f = x" "(x OR 0x80) AND 0x7f = x"
proof -
  have "unat x \<in> set [0..<128]" using assms by simp
  then have "let y = of_nat (unat x) :: octet in y AND 0x80 = 0 \<and> (y OR 0x80) AND 0x80 \<noteq> 0 \<and> y AND 0x7f = y \<and> (y OR 0x80) AND 0x7f = y"
    using seven_bits unfolding list_all_iff by blast
  then show "x AND 0x80 = 0" "(x OR 0x80) AND 0x80 \<noteq> 0" "x AND 0x7f = x" "(x OR 0x80) AND 0x7f = x"
    by (simp_all add: Let_def)
qed

lemma opcode_bits [simp]:
  fixes x :: octet
  assumes "x < 16"
  shows "x AND 0x0f = x" "(0x80 OR x) AND 0x0f = x" "(0x80 OR x) AND 0x80 \<noteq> 0" "x AND 0x80 = 0"
proof -
  have "unat x \<in> set [0..<16]" using assms by (simp add: word_less_nat_alt)
  then have "let y = of_nat (unat x) :: octet in y AND 0x0f = y \<and> (0x80 OR y) AND 0x0f = y \<and> (0x80 OR y) AND 0x80 \<noteq> 0 \<and> y AND 0x80 = 0"
    using four_bits unfolding list_all_iff by blast
  then show "x AND 0x0f = x" "(0x80 OR x) AND 0x0f = x" "(0x80 OR x) AND 0x80 \<noteq> 0" "x AND 0x80 = 0"
    by (simp_all add: Let_def)
qed

subsection \<open>Reading the length\<close>

lemma unat_octet: "unat (of_nat n :: octet) = n mod 256"
  by (simp add: unat_of_nat)

lemma big_endian_16: "n \<le> 0xffff \<Longrightarrow> (n div 256) mod 256 * 256 + n mod 256 = (n :: nat)"
proof -
  assume "n \<le> 0xffff"
  then have "n div 256 < 256" by simp
  then show ?thesis by simp
qed

lemma big_endian_64:
  assumes "n < 2 ^ 64"
  shows "n mod 256 + n div 256 ^ 1 mod 256 * 2 ^ 8 + n div 256 ^ 2 mod 256 * 2 ^ 16 + n div 256 ^ 3 mod 256 * 2 ^ 24 +
    n div 256 ^ 4 mod 256 * 2 ^ 32 + n div 256 ^ 5 mod 256 * 2 ^ 40 + n div 256 ^ 6 mod 256 * 2 ^ 48 + n div 256 ^ 7 mod 256 * 2 ^ 56 = (n :: nat)"
proof -
  have step: "n div 256 ^ i = n div 256 ^ i mod 256 + n div 256 ^ Suc i * 256" for i
  proof -
    have "n div 256 ^ Suc i = n div 256 ^ i div 256" unfolding power_Suc2 by (rule div_mult2_eq)
    then show ?thesis using mod_div_mult_eq [of "n div 256 ^ i" 256] by simp
  qed
  have "n div 256 ^ 7 < 256" using assms by (simp add: less_mult_imp_div_less)
  then have top: "n div 256 ^ 7 = n div 256 ^ 7 mod 256" by simp
  have e: "Suc 0 = 1" "Suc 1 = 2" "Suc 2 = 3" "Suc 3 = 4" "Suc 4 = 5" "Suc 5 = 6" "Suc 6 = 7" by simp_all
  have s: "n = n mod 256 + n div 256 ^ 1 * 256" "n div 256 ^ 1 = n div 256 ^ 1 mod 256 + n div 256 ^ 2 * 256"
    "n div 256 ^ 2 = n div 256 ^ 2 mod 256 + n div 256 ^ 3 * 256" "n div 256 ^ 3 = n div 256 ^ 3 mod 256 + n div 256 ^ 4 * 256"
    "n div 256 ^ 4 = n div 256 ^ 4 mod 256 + n div 256 ^ 5 * 256" "n div 256 ^ 5 = n div 256 ^ 5 mod 256 + n div 256 ^ 6 * 256"
    "n div 256 ^ 6 = n div 256 ^ 6 mod 256 + n div 256 ^ 7 * 256"
    using step [of 0] step [of 1] step [of 2] step [of 3] step [of 4] step [of 5] step [of 6]
    unfolding e power_0 div_by_1 by - assumption+
  define d1 d2 d3 d4 d5 d6 d7 where d: "d1 = n div 256 ^ 1" "d2 = n div 256 ^ 2" "d3 = n div 256 ^ 3" "d4 = n div 256 ^ 4"
    "d5 = n div 256 ^ 5" "d6 = n div 256 ^ 6" "d7 = n div 256 ^ 7"
  define r0 r1 r2 r3 r4 r5 r6 r7 where r: "r0 = n mod 256" "r1 = d1 mod 256" "r2 = d2 mod 256" "r3 = d3 mod 256" "r4 = d4 mod 256"
    "r5 = d5 mod 256" "r6 = d6 mod 256" "r7 = d7 mod 256"
  have "n = r0 + d1 * 256" "d1 = r1 + d2 * 256" "d2 = r2 + d3 * 256" "d3 = r3 + d4 * 256" "d4 = r4 + d5 * 256"
    "d5 = r5 + d6 * 256" "d6 = r6 + d7 * 256" "d7 = r7" using s top unfolding d [symmetric] r [symmetric] by blast+
  then have "r0 + r1 * 2 ^ 8 + r2 * 2 ^ 16 + r3 * 2 ^ 24 + r4 * 2 ^ 32 + r5 * 2 ^ 40 + r6 * 2 ^ 48 + r7 * 2 ^ 56 = n" by simp
  then show ?thesis unfolding d [symmetric] r [symmetric] .
qed

lemma frame_lengths_127:
  assumes "unat (x AND 0x7f) = 127"
  shows "frame_lengths (h # x # b7 # b6 # b5 # b4 # b3 # b2 # b1 # b0 # rest) =
    Some (unat b0 + unat b1 * 2 ^ 8 + unat b2 * 2 ^ 16 + unat b3 * 2 ^ 24 + unat b4 * 2 ^ 32 + unat b5 * 2 ^ 40 +
      unat b6 * 2 ^ 48 + unat b7 * 2 ^ 56, 10)"
  using assms by (simp add: frame_lengths_def Let_def)

lemma frame_lengths_wire:
  assumes "n < 2 ^ 64"
  shows "frame_lengths (h # wire_length masked n @ rest) = Some (n, 1 + length (wire_length masked n))"
    and "(h # wire_length masked n @ rest) ! 1 AND 0x80 \<noteq> 0 \<longleftrightarrow> masked"
proof -
  have k: "unat (126 :: octet) < 128" "unat (127 :: octet) < 128" by simp_all
  note bits = length_bits [OF k(1)] length_bits [OF k(2)]
  consider "n < 126" | "126 \<le> n" "n \<le> 0xffff" | "0xffff < n" by linarith
  then have "frame_lengths (h # wire_length masked n @ rest) = Some (n, 1 + length (wire_length masked n)) \<and>
    ((h # wire_length masked n @ rest) ! 1 AND 0x80 \<noteq> 0 \<longleftrightarrow> masked)"
  proof cases
    case 1
    then have "unat (of_nat n :: octet) < 128" "unat (of_nat n :: octet) = n" by (simp_all add: unat_octet)
    then show ?thesis using 1 length_bits [of "of_nat n"] by (simp add: wire_length_def frame_lengths_def Let_def)
  next
    case 2
    then show ?thesis using bits big_endian_16 [OF 2(2)]
      by (simp add: wire_length_def frame_lengths_def Let_def unat_octet nth_Cons')
  next
    case 3
    let ?x = "127 OR (if masked then 0x80 else 0) :: octet" and ?b = "\<lambda>i. of_nat (n div 256 ^ i) :: octet"
    have w: "wire_length masked n = [?x, ?b 7, ?b 6, ?b 5, ?b 4, ?b 3, ?b 2, ?b 1, ?b 0]"
      using 3 by (simp add: wire_length_def Let_def)
    have x: "unat (?x AND 0x7f) = 127" "?x AND 0x80 \<noteq> 0 \<longleftrightarrow> masked" using bits by simp_all
    have "frame_lengths (h # ?x # ?b 7 # ?b 6 # ?b 5 # ?b 4 # ?b 3 # ?b 2 # ?b 1 # ?b 0 # rest) = Some (n, 10)"
      unfolding frame_lengths_127 [OF x(1)] unat_octet using big_endian_64 [OF assms] by (simp only: power_0 div_by_1)
    then show ?thesis using x(2) by (simp add: w)
  qed
  then show "frame_lengths (h # wire_length masked n @ rest) = Some (n, 1 + length (wire_length masked n))"
    "(h # wire_length masked n @ rest) ! 1 AND 0x80 \<noteq> 0 \<longleftrightarrow> masked" by blast+
qed

section \<open>Writing frames\<close>

lemma frame_header_wire:
  "frame_header masking n flags = (fin_bit OR flags) # wire_length masking n"
  by (simp add: frame_header_def wire_length_def Let_def)

text \<open>Masking in blocks gives the masked data.\<close>

lemma mask_loop_ok:
  "i \<le> length dat \<Longrightarrow>
    mask_loop dat i out = Ok (buf_push (map (\<lambda>j. dat ! j XOR mask_key ! (j mod 4)) [i..<length dat]) out)"
proof (induction dat i out rule: mask_loop.induct)
  case (1 dat i out)
  define k where "k = min 16384 (length dat - i)"
  let ?f = "\<lambda>j. dat ! j XOR mask_key ! (j mod 4)"
  show ?case
  proof (cases "k = 0")
    case True
    then have "i = length dat" using "1.prems" by (simp add: k_def min_def split: if_splits)
    then show ?thesis by (subst mask_loop.simps) simp
  next
    case False
    have k: "k \<le> 16384" "i + k \<le> length dat" using "1.prems" by (simp_all add: k_def)
    have app: "buf_append (map ?f [i..<i + k]) (int k) out = Ok (buf_push (map ?f [i..<i + k]) out)"
      using buf_append_push [of "map ?f [i..<i + k]" out] k(1) by simp
    have ih: "mask_loop dat (i + k) (buf_push (map ?f [i..<i + k]) out) =
        Ok (buf_push (map ?f [i + k..<length dat]) (buf_push (map ?f [i..<i + k]) out))"
      using "1.IH" [OF k_def] False app k(2) by simp
    have "[i..<i + k] @ [i + k..<length dat] = [i..<length dat]"
      using upt_add_eq_append [of i "i + k" "length dat - (i + k)"] k(2) by simp
    then have "map ?f [i..<i + k] @ map ?f [i + k..<length dat] = map ?f [i..<length dat]" by (simp flip: map_append)
    then show ?thesis using False ih app by (subst mask_loop.simps) (simp add: k_def [symmetric] Let_def)
  qed
qed

text \<open>The key of the handler, if it masks\<close>

definition key_of :: "websocket \<Rightarrow> octet list option" where
  "key_of w = (if ws_isMasking w then Some mask_key else None)"

lemma build_frame_wire:
  assumes "int (length dat) \<le> INT_MAX" "flags = fin_bit OR op"
  shows "build_frame masking dat flags out =
    Ok (buf_push (wire (Frame True op (if masking then Some mask_key else None) dat)) out)"
proof -
  have "fin_bit OR flags = 0x80 OR op" by (simp add: assms(2) fin_bit_def or.assoc [symmetric])
  then have h: "frame_header masking (length dat) flags = (0x80 OR op) # wire_length masking (length dat)"
    by (simp add: frame_header_wire)
  have "length (wire_length masking (length dat)) \<le> 9" by (simp add: wire_length_def Let_def)
  then have "buf_append (frame_header masking (length dat) flags) (int (length (frame_header masking (length dat) flags))) out =
      Ok (buf_push (frame_header masking (length dat) flags) out)"
    by (intro buf_append_push) (simp add: h)
  moreover have "buf_append mask_key 4 b = Ok (buf_push mask_key b)" for b
    using buf_append_push [of mask_key b] by (simp add: mask_key_def)
  ultimately show ?thesis
    using assms(1) buf_append_push [of dat] mask_loop_ok [of 0 dat]
    by (simp add: build_frame_def Let_def h wire_def unmask_def)
qed

text \<open>A message that is sent is one frame in the out buffer.\<close>

lemma send_message_wire:
  assumes "dat \<noteq> []" "int (length dat) + 14 \<le> INT_MAX" "ws_open w" "buf_ok (ws_out w)"
  shows "send_message dat op w = Ok (int (length (wire (Frame True op (key_of w) dat))),
    w\<lparr>ws_out := buf_push (wire (Frame True op (key_of w) dat)) (ws_out w)\<rparr>)"
proof -
  let ?f = "wire (Frame True op (key_of w) dat)"
  have "build_frame (ws_isMasking w) dat (fin_bit OR op) (ws_out w) = Ok (buf_push ?f (ws_out w))"
    unfolding key_of_def by (rule build_frame_wire) (use assms(2) in simp_all)
  moreover have "length ?f \<le> length dat + 14" "length dat \<le> length ?f"
  proof -
    have "length (wire_length (key_of w \<noteq> None) (length dat)) \<le> 9" by (simp add: wire_length_def Let_def)
    moreover have "length (case key_of w of None \<Rightarrow> [] | Some k \<Rightarrow> k) \<le> 4" by (simp add: key_of_def mask_key_def)
    ultimately show "length ?f \<le> length dat + 14" "length dat \<le> length ?f" by (simp_all add: wire_def)
  qed
  moreover have "buf_size (buf_push ?f (ws_out w)) - buf_size (ws_out w) = length ?f"
    using assms(4) by (simp add: buf_size_def buf_push_def buf_ok_def)
  ultimately show ?thesis
    using assms by (simp add: send_message_def send_frame_def Let_def s32_id)
qed

end
