(* ===== verification/WebSocketStreams.thy ===== *)
theory WebSocketStreams
  imports WebSocketProps
begin

text \<open>
  What a handler receives: the conversation as the standard describes it, a sequence of frames, and the
  handler that gets their bytes in pieces of any size.
\<close>

section \<open>The conversation\<close>

text \<open>The message of which fragments have arrived, the messages that are complete, and the payloads of the pings that were answered\<close>

type_synonym conversation = "octet list option \<times> octet list list \<times> octet list list"

text \<open>
  How an endpoint receives a frame by RFC 6455: a control frame is not a fragment and has at most 125 bytes; a ping is answered by a pong
  with its payload, also by an empty one, and a pong is not answered; a message starts with a text or binary frame and goes on with
  continuation frames; the connection fails with any other frame, the reserved opcodes among them (\<open>None\<close>). A close frame ends the
  conversation (\<open>None\<close>); that the text of messages is UTF-8 is left to the layer above.
\<close>

fun accept :: "frame \<Rightarrow> conversation \<Rightarrow> conversation option" where
  "accept (Frame fin op key pl) (part, msgs, pongs) =
    (if is_control_frame op then
       (if \<not> fin \<or> length pl > 125 then None
        else if op = op_ping then Some (part, msgs, pongs @ [pl])
        else if op = op_pong then Some (part, msgs, pongs)
        else None)
     else case part of
       None \<Rightarrow> if op \<noteq> op_text \<and> op \<noteq> op_binary then None else Some (if fin then (None, msgs @ [pl], pongs) else (Some pl, msgs, pongs))
     | Some x \<Rightarrow>
         if op \<noteq> op_continuation then None
         else Some (if fin then (None, msgs @ [x @ pl], pongs) else (Some (x @ pl), msgs, pongs)))"

fun accept_all :: "frame list \<Rightarrow> conversation \<Rightarrow> conversation option" where
  "accept_all [] c = Some c"
| "accept_all (f # fs) c = Option.bind (accept f c) (accept_all fs)"

text \<open>The handler in the state of a conversation; \<open>sent\<close> is what was in its out buffer before\<close>

definition in_conversation :: "octet list \<Rightarrow> websocket \<Rightarrow> conversation \<Rightarrow> bool" where
  "in_conversation sent w c \<longleftrightarrow>
    (case c of (part, msgs, pongs) \<Rightarrow>
      buf_ok (ws_in w) \<and> buf_ok (ws_out w) \<and> ws_open w \<and> ws_upgraded w \<and> ws_processInput w \<and> \<not> ws_ignoreInput w \<and>
      \<not> ws_shuttingDown w \<and> ws_inFragmentBlock w = (part \<noteq> None) \<and> ws_payload w = (case part of None \<Rightarrow> [] | Some x \<Rightarrow> x) \<and>
      ws_messages w = msgs \<and>
      buf_view (ws_out w) = sent @ concat (map (\<lambda>pl. wire (Frame True op_pong (key_of w) pl)) pongs))"

text \<open>A client takes no masked frame. (A server takes frames without a mask too, which the standard does not let a client send.)\<close>

definition key_allowed :: "websocket \<Rightarrow> frame \<Rightarrow> bool" where
  "key_allowed w f \<longleftrightarrow> (fr_key f \<noteq> None \<longrightarrow> \<not> ws_isClient w)"

text \<open>The code does not answer a ping without payload.\<close>

definition answered :: "frame \<Rightarrow> bool" where
  "answered f \<longleftrightarrow> \<not> (fr_op f = op_ping \<and> fr_payload f = [])"

definition same_role :: "websocket \<Rightarrow> websocket \<Rightarrow> bool" where
  "same_role w w' \<longleftrightarrow> ws_isClient w' = ws_isClient w \<and> ws_isMasking w' = ws_isMasking w"

section \<open>One frame\<close>

lemma wire_first:
  assumes "frame_ok f" "p = wire f @ rest"
  shows "p ! 0 AND 0x80 \<noteq> 0 \<longleftrightarrow> fr_fin f" "p ! 0 AND 0x0f = fr_op f"
  using assms by (auto simp: wire_def frame_ok_def)

lemma wire_parts:
  assumes "frame_ok f" "p = wire f @ rest"
  defines "n \<equiv> 1 + length (wire_length (fr_key f \<noteq> None) (length (fr_payload f)))"
  defines "h \<equiv> (if fr_key f \<noteq> None then n + 4 else n)"
  shows "frame_lengths p = Some (length (fr_payload f), n)" "p ! 1 AND 0x80 \<noteq> 0 \<longleftrightarrow> fr_key f \<noteq> None"
    "length (wire f) = h + length (fr_payload f)" "take (length (fr_payload f)) (drop h p) = unmask (fr_key f) (fr_payload f)"
    "(if fr_key f \<noteq> None then Some (take 4 (drop n p)) else None) = fr_key f" "2 \<le> length p"
proof -
  let ?l = "wire_length (fr_key f \<noteq> None) (length (fr_payload f))" and ?k = "case fr_key f of None \<Rightarrow> [] | Some k \<Rightarrow> k"
  obtain b where p: "p = b # ?l @ ?k @ unmask (fr_key f) (fr_payload f) @ rest" using assms(2) by (simp add: wire_def)
  have len: "length (fr_payload f) < 2 ^ 64" using assms(1) by (simp add: frame_ok_def)
  show "frame_lengths p = Some (length (fr_payload f), n)" unfolding p n_def by (rule frame_lengths_wire(1) [OF len])
  show "p ! 1 AND 0x80 \<noteq> 0 \<longleftrightarrow> fr_key f \<noteq> None" unfolding p by (rule frame_lengths_wire(2) [OF len])
  have k: "length ?k = (if fr_key f \<noteq> None then 4 else 0)" using assms(1) by (auto simp: frame_ok_def split: option.split)
  then show "length (wire f) = h + length (fr_payload f)" by (simp add: wire_def h_def n_def)
  have h: "h = length (b # ?l @ ?k)" using k by (simp add: h_def n_def)
  have "p = (b # ?l @ ?k) @ unmask (fr_key f) (fr_payload f) @ rest" by (simp add: p)
  then have "drop h p = unmask (fr_key f) (fr_payload f) @ rest" unfolding h by (metis append_eq_conv_conj)
  then show "take (length (fr_payload f)) (drop h p) = unmask (fr_key f) (fr_payload f)" by simp
  have "drop n p = ?k @ unmask (fr_key f) (fr_payload f) @ rest" by (simp add: p n_def)
  then show "(if fr_key f \<noteq> None then Some (take 4 (drop n p)) else None) = fr_key f" using k by (cases "fr_key f") simp_all
  have "1 \<le> length ?l" by (simp add: wire_length_def Let_def)
  then show "2 \<le> length p" by (simp add: p)
qed

lemma handle_control_accept:
  assumes "in_conversation sent w c" "is_control_frame op" "accept (Frame fin op key pl) c = Some c'" "answered (Frame fin op key pl)"
  obtains w' where "handle_control now fin op pl w = Ok w'" "in_conversation sent w' c'" "ws_in w' = ws_in w" "same_role w w'"
proof -
  obtain part msgs pongs where c: "c = (part, msgs, pongs)" by (cases c)
  have fin: "fin" "length pl \<le> 125" and op: "op = op_ping \<or> op = op_pong"
    using assms(2,3) by (auto simp: c split: if_splits)
  let ?t = "s32 (cdiv (now - ws_lastPingSentTime w) 1000)"
  show thesis
  proof (cases "op = op_pong")
    case True
    then have "c' = c" using assms(2,3) fin by (simp add: c)
    then show thesis using True fin assms(1)
      by (intro that [of "w\<lparr>ws_pingTimeUs := ?t, ws_gotPings := ws_gotPings w @ [(op, ?t)]\<rparr>"])
        (auto simp: handle_control_def Let_def in_conversation_def same_role_def key_of_def split: prod.splits)
  next
    case False
    then have ping: "op = op_ping" using op by simp
    then have c': "c' = (part, msgs, pongs @ [pl])" using assms(2,3) fin by (simp add: c)
    have pl: "pl \<noteq> []" using assms(4) ping by (simp add: answered_def)
    let ?f = "wire (Frame True op_pong (key_of w) pl)"
    let ?v = "w\<lparr>ws_pingTimeUs := ?t\<rparr>"
    let ?w = "?v\<lparr>ws_out := buf_push ?f (ws_out w), ws_lastPingSentTime := now, ws_gotPings := ws_gotPings w @ [(op, ?t)]\<rparr>"
    have "key_of ?v = key_of w" by (simp add: key_of_def)
    then have send: "send_message pl op_pong ?v = Ok (int (length ?f), ?v\<lparr>ws_out := buf_push ?f (ws_out w)\<rparr>)"
      using send_message_wire [of pl ?v op_pong] pl fin(2) assms(1) by (simp add: in_conversation_def c)
    then have "handle_control now fin op pl w = Ok ?w"
      using fin ping assms(1) by (simp add: handle_control_def Let_def send_pong_def send_ping_or_pong_def in_conversation_def c)
    moreover have "in_conversation sent ?w c'"
      using assms(1) pl buffers.view_push [of "ws_out w" ?f] buffers.push_good [of "ws_out w" ?f]
      by (simp add: c c' in_conversation_def key_of_def)
    ultimately show thesis by (rule that) (simp_all add: same_role_def)
  qed
qed

lemma handle_data_accept:
  assumes "in_conversation sent w c" "\<not> is_control_frame op" "accept (Frame fin op key pl) c = Some c'"
    and "n = length ws" "buf_view (ws_in w) = ws @ rest" "0 < n" "dat = unmask key pl"
  obtains w' where "handle_data fin op n dat key w = Ok w'" "in_conversation sent w' c'" "buf_view (ws_in w') = rest" "same_role w w'"
proof -
  obtain part msgs pongs where c: "c = (part, msgs, pongs)" by (cases c)
  have good: "buf_ok (ws_in w)" using assms(1) by (simp add: in_conversation_def c)
  obtain b where b: "buf_erase_first n (ws_in w) = Ok b" "buf_ok b" "buf_view b = rest"
    using buffers.pop_prefix [OF good assms(5)] assms(4) by blast
  have order: "\<not> (ws_inFragmentBlock w \<and> op \<noteq> op_continuation \<or> \<not> ws_inFragmentBlock w \<and> op = op_continuation)"
    using assms(1-3) by (auto simp: in_conversation_def c split: option.splits if_splits)
  define payload where "payload = ws_payload w @ pl"
  have read: "read_payload dat key (ws_payload w) = payload"
    by (simp add: payload_def read_payload_unmask assms(7))
  have "0 < min n (buf_size (ws_in w))" using assms(4-6) by (simp add: buf_size_view)
  then have erase: "erase_first_input_bytes n (w\<lparr>ws_payload := payload\<rparr>) = Ok (w\<lparr>ws_payload := payload, ws_in := b\<rparr>)"
    using b(1) by (simp add: erase_first_input_bytes_def)
  have keys: "key_of (w\<lparr>ws_payload := x, ws_in := b, ws_messages := y, ws_inFragmentBlock := z\<rparr>) = key_of w" for x y z
    by (simp add: key_of_def)
  let ?w = "if fin then w\<lparr>ws_payload := [], ws_in := b, ws_messages := ws_messages w @ [payload], ws_inFragmentBlock := False\<rparr>
    else w\<lparr>ws_payload := payload, ws_in := b, ws_inFragmentBlock := True\<rparr>"
  have "handle_data fin op n dat key w = Ok ?w"
    unfolding handle_data_def if_not_P [OF order] Let_def read erase by simp
  moreover have "in_conversation sent ?w c'"
    using assms(1-3) b(2) unfolding in_conversation_def c
    by (auto simp: payload_def key_of_def split: option.splits if_splits prod.splits)
  ultimately show thesis using b(3) by (intro that [of ?w]) (auto simp: same_role_def)
qed

lemma handle_frame:
  assumes conv: "in_conversation sent w c" and acc: "accept f c = Some c'" and ok: "frame_ok f" "key_allowed w f" "answered f"
    and view: "buf_view (ws_in w) = wire f @ rest"
  obtains w' where "handle_tcp_stream now w = Ok (True, w')" "in_conversation sent w' c'" "buf_view (ws_in w') = rest" "same_role w w'"
proof -
  obtain fin op key pl where f: "f = Frame fin op key pl" by (cases f)
  let ?p = "buf_view (ws_in w)"
  define n where "n = 1 + length (wire_length (key \<noteq> None) (length pl))"
  define h where "h = (if key \<noteq> None then n + 4 else n)"
  note first = wire_first [OF ok(1) view, unfolded f frame.sel]
  note parts = wire_parts [OF ok(1) view, unfolded f frame.sel, folded n_def, folded h_def]
  let ?w = "w\<lparr>ws_lastFlags := ?p ! 0\<rparr>"
  have conv': "in_conversation sent (?w\<lparr>ws_in := b\<rparr>) c" if "buf_ok b" for b
    using conv that by (auto simp: in_conversation_def key_of_def split: prod.splits)
  have conv0: "in_conversation sent ?w c" using conv by (auto simp: in_conversation_def key_of_def split: prod.splits)
  have len: "length ?p = h + length pl + length rest" using parts(3) by (simp add: view f)
  have mask: "\<not> (key \<noteq> None \<and> ws_isClient ?w)" using ok(2) by (auto simp: key_allowed_def f)
  have total: "length (wire f) = h + length pl" using parts(3) by (simp add: f)
  have h2: "2 \<le> h" by (simp add: h_def n_def wire_length_def Let_def)
  have step: "handle_tcp_stream now w =
    (if is_control_frame op then
       res_bind (buf_erase_first (h + length pl) (ws_in w)) (\<lambda>b.
         res_bind (handle_control now fin op pl (?w\<lparr>ws_in := b\<rparr>)) (\<lambda>w. Ok (True, w)))
     else res_bind (handle_data fin op (h + length pl) (unmask key pl) key ?w) (\<lambda>w. Ok (True, w)))"
    unfolding handle_tcp_stream_def Let_def first parts(1,2,4,5) option.case prod.case h_def [symmetric]
    using parts(6) len mask by (auto simp: read_payload_unmask)
  show thesis
  proof (cases "is_control_frame op")
    case True
    have good: "buf_ok (ws_in w)" using conv by (auto simp: in_conversation_def)
    obtain b where b: "buf_erase_first (h + length pl) (ws_in w) = Ok b" "buf_ok b" "buf_view b = rest"
      using buffers.pop_prefix [OF good view] total by metis
    obtain w' where "handle_control now fin op pl (?w\<lparr>ws_in := b\<rparr>) = Ok w'" "in_conversation sent w' c'"
      "ws_in w' = ws_in (?w\<lparr>ws_in := b\<rparr>)" "same_role (?w\<lparr>ws_in := b\<rparr>) w'"
      by (rule handle_control_accept [OF conv' [OF b(2)] True acc [unfolded f] ok(3) [unfolded f]])
    then show thesis using step True b by (intro that [of w']) (simp_all add: same_role_def)
  next
    case False
    have v: "buf_view (ws_in ?w) = wire f @ rest" using view by simp
    obtain w' where "handle_data fin op (h + length pl) (unmask key pl) key ?w = Ok w'" "in_conversation sent w' c'"
      "buf_view (ws_in w') = rest" "same_role ?w w'"
      by (rule handle_data_accept [OF conv0 False acc [unfolded f] _ v, of "h + length pl"]) (use total h2 in auto)
    then show thesis using step False by (intro that [of w']) (simp_all add: same_role_def)
  qed
qed

section \<open>Bytes in pieces\<close>

lemma frame_lengths_prefix: "2 \<le> length p \<Longrightarrow> frame_lengths p = None \<or> frame_lengths p = frame_lengths (p @ q)"
  by (auto simp: frame_lengths_def Let_def nth_append)

lemma handle_partial:
  assumes conv: "in_conversation sent w c" and ok: "frame_ok f" and view: "buf_view (ws_in w) @ q = wire f" "q \<noteq> []"
  obtains w' where "handle_tcp_stream now w = Ok (False, w')" "in_conversation sent w' c" "ws_in w' = ws_in w" "same_role w w'"
proof -
  let ?p = "buf_view (ws_in w)"
  let ?w = "w\<lparr>ws_lastFlags := ?p ! 0\<rparr>"
  have conv': "in_conversation sent ?w c" using conv by (auto simp: in_conversation_def key_of_def split: prod.splits)
  show thesis
  proof (cases "length ?p < 2")
    case True
    then show thesis using conv by (intro that [of w]) (simp_all add: handle_tcp_stream_def Let_def same_role_def)
  next
    case False
    note parts = wire_parts [OF ok, of "wire f" "[]", simplified]
    have second: "?p ! 1 = wire f ! 1" using False view(1) by (metis append_Nil2 nth_append not_less_eq numeral_2_eq_2 One_nat_def less_2_cases not_less)
    have less: "length ?p < length (wire f)" using view by (metis length_append length_greater_0_conv less_add_same_cancel1)
    have "handle_tcp_stream now w = Ok (False, ?w)"
    proof (cases "frame_lengths ?p")
      case None
      then show ?thesis using False by (simp add: handle_tcp_stream_def Let_def)
    next
      case (Some r)
      have "frame_lengths ?p = frame_lengths (wire f)" using frame_lengths_prefix [of ?p q] False Some view(1) by simp
      then show ?thesis
        using False less parts(1-3) unfolding handle_tcp_stream_def Let_def second by (auto simp del: not_None_eq split: if_splits)
    qed
    then show thesis using conv' by (intro that [of ?w]) (simp_all add: same_role_def)
  qed
qed

lemma in_conversation_fields:
  assumes "in_conversation sent w c"
  shows "ws_processInput w" "\<not> ws_ignoreInput w" "buf_ok (ws_in w)"
  using assms by (auto simp: in_conversation_def)

text \<open>The loop takes the frames that are complete.\<close>

lemma incoming_frames:
  assumes "in_conversation sent w c" "accept_all fs c = Some c'" "\<forall>f \<in> set fs. frame_ok f \<and> key_allowed w f \<and> answered f"
    and "buf_view (ws_in w) @ rest = concat (map wire fs)"
  shows "\<exists>w' fs1 fs2 c1. ws_incoming now w = Ok w' \<and> fs = fs1 @ fs2 \<and> accept_all fs1 c = Some c1 \<and> accept_all fs2 c1 = Some c' \<and>
    in_conversation sent w' c1 \<and> same_role w w' \<and> buf_view (ws_in w') @ rest = concat (map wire fs2) \<and>
    (fs2 = [] \<or> length (buf_view (ws_in w')) < length (wire (hd fs2)))"
  using assms
proof (induction fs arbitrary: w c)
  case Nil
  have "handle_tcp_stream now w = Ok (False, w)" using Nil.prems(4) by (simp add: handle_tcp_stream_def)
  then have "ws_incoming now w = Ok w" using in_conversation_fields [OF Nil.prems(1)] by (subst ws_incoming.simps) simp
  then show ?case using Nil.prems by (intro exI [of _ w] exI [of _ "[]"] exI [of _ c]) (simp add: same_role_def)
next
  case (Cons f fs)
  let ?p = "buf_view (ws_in w)"
  obtain c1 where c1: "accept f c = Some c1" "accept_all fs c1 = Some c'" using Cons.prems(2) by (auto simp: bind_eq_Some_conv)
  have f: "frame_ok f" "key_allowed w f" "answered f" using Cons.prems(3) by simp_all
  have proc: "ws_processInput w" using in_conversation_fields [OF Cons.prems(1)] by blast
  show ?case
  proof (cases "length ?p < length (wire f)")
    case True
    have eq: "?p @ rest = wire f @ concat (map wire fs)" using Cons.prems(4) by simp
    then have "?p = take (length ?p) (wire f)" using True by (metis append_eq_append_conv_if less_imp_le_nat not_le)
    then have q: "?p @ drop (length ?p) (wire f) = wire f" "drop (length ?p) (wire f) \<noteq> []"
      using True by (metis append_take_drop_id, simp)
    obtain w' where w': "handle_tcp_stream now w = Ok (False, w')" "in_conversation sent w' c" "ws_in w' = ws_in w" "same_role w w'"
      by (rule handle_partial [OF Cons.prems(1) f(1) q])
    then have "ws_incoming now w = Ok w'" using proc by (subst ws_incoming.simps) simp
    then show ?thesis using w' True Cons.prems(2,4)
      by (intro exI [of _ w'] exI [of _ "[]"] exI [of _ "f # fs"] exI [of _ c]) simp
  next
    case False
    define p' where "p' = drop (length (wire f)) ?p"
    have eq: "?p @ rest = wire f @ concat (map wire fs)" using Cons.prems(4) by simp
    have "take (length (wire f)) ?p = wire f" using arg_cong [OF eq, of "take (length (wire f))"] False by simp
    then have p': "?p = wire f @ p'" unfolding p'_def by (metis append_take_drop_id)
    have rest: "p' @ rest = concat (map wire fs)"
      using arg_cong [OF eq, of "drop (length (wire f))"] False by (simp add: p'_def)
    obtain v where v: "handle_tcp_stream now w = Ok (True, v)" "in_conversation sent v c1" "buf_view (ws_in v) = p'" "same_role w v"
      by (rule handle_frame [OF Cons.prems(1) c1(1) f p'])
    have keys: "\<forall>f \<in> set fs. frame_ok f \<and> key_allowed v f \<and> answered f" using Cons.prems(3) v(4) by (simp add: key_allowed_def same_role_def)
    have "buf_view (ws_in v) @ rest = concat (map wire fs)" using v(3) rest by simp
    from Cons.IH [OF v(2) c1(2) keys this] obtain w' fs1 fs2 c2 where ih: "ws_incoming now v = Ok w'" "fs = fs1 @ fs2"
      "accept_all fs1 c1 = Some c2" "accept_all fs2 c2 = Some c'" "in_conversation sent w' c2" "same_role v w'"
      "buf_view (ws_in w') @ rest = concat (map wire fs2)" "fs2 = [] \<or> length (buf_view (ws_in w')) < length (wire (hd fs2))" by blast
    have "ws_incoming now w = Ok w'" using proc v(1) ih(1) by (subst ws_incoming.simps) simp
    then show ?thesis using ih c1(1) v(4)
      by (intro exI [of _ w'] exI [of _ "f # fs1"] exI [of _ fs2] exI [of _ c2]) (simp add: same_role_def)
  qed
qed

end
