(* ===== verification/SocketTheorems.thy ===== *)
theory SocketTheorems
  imports WebSocketStreams
begin

text \<open>
  The properties of web sockets: what a handler gives back from the bytes of the network, the way from a
  sender to a receiver, and two boundary cases of closing.
\<close>

section \<open>Receiving\<close>

lemma frame_kinds [simp]: "\<not> is_control_frame 0" "\<not> is_control_frame 1" "\<not> is_control_frame 2" "is_control_frame 8"
  "is_control_frame 9" "is_control_frame 10"
  by (simp_all add: is_control_frame_def word_le_nat_alt)

lemma feed_frames:
  assumes "in_conversation sent w c" "accept_all fs c = Some c'" "\<forall>f \<in> set fs. frame_ok f \<and> key_allowed w f \<and> answered f"
    and "buf_view (ws_in w) @ concat chunks = concat (map wire fs)" "fs = [] \<or> length (buf_view (ws_in w)) < length (wire (hd fs))"
  shows "\<exists>w'. res_fold (ws_feed now) chunks w = Ok w' \<and> in_conversation sent w' c' \<and> buf_view (ws_in w') = []"
  using assms
proof (induction chunks arbitrary: w c fs)
  case Nil
  have "fs = []"
  proof (rule ccontr)
    assume "fs \<noteq> []"
    then have "length (wire (hd fs)) \<le> length (concat (map wire fs))" by (cases fs) simp_all
    then show False using Nil.prems(4,5) \<open>fs \<noteq> []\<close> by simp
  qed
  then show ?case using Nil.prems by simp
next
  case (Cons bs chunks)
  let ?v = "w\<lparr>ws_in := buf_push bs (ws_in w)\<rparr>"
  note fields = in_conversation_fields [OF Cons.prems(1)]
  have conv: "in_conversation sent ?v c"
    using Cons.prems(1) buffers.push_good [of "ws_in w" bs] by (auto simp: in_conversation_def key_of_def split: prod.splits)
  have keys: "\<forall>f \<in> set fs. frame_ok f \<and> key_allowed ?v f \<and> answered f" using Cons.prems(3) by (simp add: key_allowed_def)
  have view: "buf_view (ws_in ?v) @ concat chunks = concat (map wire fs)"
    using Cons.prems(4) buffers.view_push [OF fields(3), of bs] by simp
  obtain w' fs1 fs2 c1 where w': "ws_incoming now ?v = Ok w'" "fs = fs1 @ fs2" "accept_all fs2 c1 = Some c'"
    "in_conversation sent w' c1" "same_role ?v w'" "buf_view (ws_in w') @ concat chunks = concat (map wire fs2)"
    "fs2 = [] \<or> length (buf_view (ws_in w')) < length (wire (hd fs2))"
    using incoming_frames [OF conv Cons.prems(2) keys view, of now] by blast
  have "\<forall>f \<in> set fs2. frame_ok f \<and> key_allowed w' f \<and> answered f" using keys w'(2,5) by (auto simp: key_allowed_def same_role_def)
  from Cons.IH [OF w'(4,3) this w'(6,7)] obtain w'' where "res_fold (ws_feed now) chunks w' = Ok w''"
    "in_conversation sent w'' c'" "buf_view (ws_in w'') = []" by blast
  then show ?case using w'(1) fields(2) by (intro exI [of _ w'']) (simp add: ws_feed_def [of now bs w])
qed

text \<open>C11: However the bytes of a sequence of frames are cut up on their way, with messages in fragments and pings and pongs between these,
  with or without masking keys, the handler ends in the state that the standard prescribes: it has handed over each message once, in order
  and put together, has answered each ping by a pong with its payload, in order, and nothing is left over. The frames are such that the
  standard lets the connection go on (no reserved opcodes, no close frame), and no ping is empty: the code does not answer an empty ping,
  where it deviates from the standard.\<close>

theorem stream_received:
  assumes "in_conversation sent w c" "buf_view (ws_in w) = []" "accept_all fs c = Some c'"
    and "\<forall>f \<in> set fs. frame_ok f \<and> key_allowed w f \<and> answered f" "concat chunks = concat (map wire fs)"
  shows "\<exists>w'. res_fold (ws_feed now) chunks w = Ok w' \<and> in_conversation sent w' c' \<and> buf_view (ws_in w') = []"
proof -
  have pos: "0 < length (wire f)" for f by (simp add: wire_def)
  show ?thesis by (rule feed_frames [OF assms(1,3,4)]) (use assms(2,5) pos in auto)
qed

text \<open>An empty ping, which the standard asks to answer, is only noted.\<close>

theorem empty_ping_not_answered:
  assumes "ws_open w" "ws_upgraded w" "\<not> ws_shuttingDown w"
  shows "\<exists>w'. handle_control now True op_ping [] w = Ok w' \<and> ws_out w' = ws_out w \<and> ws_lastPingSentTime w' = now"
  using assms by (simp add: handle_control_def send_pong_def send_ping_or_pong_def send_message_def send_frame_def Let_def)

definition sample_socket :: websocket where
  "sample_socket = (mk_websocket False False 0)\<lparr>ws_upgraded := True\<rparr>"

lemma sample_conversation: "in_conversation [] sample_socket (None, [], [])" "buf_view (ws_in sample_socket) = []"
  by (simp_all add: in_conversation_def sample_socket_def mk_websocket_def)

theorem stream_received_witness:
  "\<exists>w'. res_fold (ws_feed 0) [[0x01], [0x82, 1, 2, 3, 4, 0x69, 0x6a, 0x89, 0x01], [7, 0x80, 1, 5]] sample_socket = Ok w' \<and>
    ws_messages w' = [[0x68, 0x68, 5]]"
proof -
  let ?fs = "[Frame False op_text (Some [1, 2, 3, 4]) [0x68, 0x68], Frame True op_ping None [7], Frame True op_continuation None [5]]"
  have "accept_all ?fs (None, [], []) = Some (None, [[0x68, 0x68, 5]], [[7]])" by simp
  moreover have "\<forall>f \<in> set ?fs. frame_ok f \<and> key_allowed sample_socket f \<and> answered f"
    by (simp add: answered_def frame_ok_def key_allowed_def sample_socket_def mk_websocket_def)
  moreover have "concat [[0x01], [0x82, 1, 2, 3, 4, 0x69, 0x6a, 0x89, 0x01], [7, 0x80, 1, 5]] = concat (map wire ?fs)"
    by (simp add: wire_def wire_length_def unmask_def Let_def)
  ultimately have "\<exists>w'. res_fold (ws_feed 0) [[0x01], [0x82, 1, 2, 3, 4, 0x69, 0x6a, 0x89, 0x01], [7, 0x80, 1, 5]] sample_socket = Ok w' \<and>
      in_conversation [] w' (None, [[0x68, 0x68, 5]], [[7]]) \<and> buf_view (ws_in w') = []"
    by (rule stream_received [OF sample_conversation])
  then show ?thesis by (auto simp: in_conversation_def)
qed

section \<open>From sender to receiver\<close>

definition send_all :: "(octet \<times> octet list) list \<Rightarrow> websocket \<Rightarrow> websocket res" where
  "send_all ms = res_fold (\<lambda>(op, dat) w. res_bind (send_message dat op w) (\<lambda>(n, w). Ok w)) ms"

lemma send_all_wire:
  assumes "ws_open w" "buf_ok (ws_out w)" "\<forall>(op, dat) \<in> set ms. dat \<noteq> [] \<and> int (length dat) + 14 \<le> INT_MAX"
  shows "send_all ms w = Ok (w\<lparr>ws_out := buf_push (concat (map (\<lambda>(op, dat). wire (Frame True op (key_of w) dat)) ms)) (ws_out w)\<rparr>)"
  using assms
proof (induction ms arbitrary: w)
  case Nil
  then show ?case by (simp add: send_all_def)
next
  case (Cons m ms)
  obtain op dat where m: "m = (op, dat)" by (cases m)
  let ?f = "wire (Frame True op (key_of w) dat)"
  let ?w = "w\<lparr>ws_out := buf_push ?f (ws_out w)\<rparr>"
  have dat: "dat \<noteq> []" "int (length dat) + 14 \<le> INT_MAX" using Cons.prems(3) by (simp_all add: m)
  note send = send_message_wire [OF dat Cons.prems(1,2), of op]
  have good: "buf_ok (ws_out ?w)" using buffers.push_good [OF Cons.prems(2)] by simp
  have "send_all ms ?w = Ok (?w\<lparr>ws_out := buf_push (concat (map (\<lambda>(op, dat). wire (Frame True op (key_of ?w) dat)) ms)) (ws_out ?w)\<rparr>)"
    by (rule Cons.IH) (use Cons.prems good in auto)
  moreover have "key_of ?w = key_of w" by (simp add: key_of_def)
  ultimately show ?case using send by (simp add: send_all_def m)
qed

text \<open>C12: Text and binary messages that one handler sends are handed over by the handler at the other end, all, once, unchanged
  and in order, in whatever pieces the bytes arrive; this holds between a client that masks and a server and between
  handlers that do not mask.\<close>

theorem messages_delivered:
  assumes "ws_open s" "buf_ok (ws_out s)" "buf_view (ws_out s) = []" "ws_isMasking s \<longrightarrow> \<not> ws_isClient r"
    and "\<forall>(op, dat) \<in> set ms. op \<in> {op_text, op_binary} \<and> dat \<noteq> [] \<and> int (length dat) + 14 \<le> INT_MAX"
    and "in_conversation [] r (None, [], [])" "buf_view (ws_in r) = []"
  shows "\<exists>s'. send_all ms s = Ok s' \<and>
    (\<forall>chunks. concat chunks = buf_view (ws_out s') \<longrightarrow>
      (\<exists>r'. res_fold (ws_feed now) chunks r = Ok r' \<and> ws_messages r' = map snd ms \<and> buf_view (ws_in r') = []))"
proof -
  let ?fs = "map (\<lambda>(op, dat). Frame True op (key_of s) dat) ms"
  have sizes: "\<forall>(op, dat) \<in> set ms. dat \<noteq> [] \<and> int (length dat) + 14 \<le> INT_MAX" using assms(5) by auto
  let ?s = "s\<lparr>ws_out := buf_push (concat (map wire ?fs)) (ws_out s)\<rparr>"
  have eq: "map wire ?fs = map (\<lambda>(op, dat). wire (Frame True op (key_of s) dat)) ms" by auto
  have send: "send_all ms s = Ok ?s" unfolding eq by (rule send_all_wire [OF assms(1,2) sizes])
  have view: "buf_view (ws_out ?s) = concat (map wire ?fs)" using buffers.view_push [OF assms(2)] assms(3) by simp
  have acc: "accept_all (map (\<lambda>(op, dat). Frame True op k dat) ms) (None, us, []) = Some (None, us @ map snd ms, [])" for k us
    using assms(5) by (induction ms arbitrary: us) auto
  have "length (dat :: octet list) < 2 ^ 64" if "int (length dat) + 14 \<le> INT_MAX" for dat using that by simp
  then have ok: "\<forall>f \<in> set ?fs. frame_ok f \<and> key_allowed r f \<and> answered f"
    using assms(4,5) by (auto simp: answered_def frame_ok_def key_allowed_def key_of_def mask_key_def)
  have "\<exists>r'. res_fold (ws_feed now) chunks r = Ok r' \<and> ws_messages r' = map snd ms \<and> buf_view (ws_in r') = []"
    if "concat chunks = buf_view (ws_out ?s)" for chunks
    using stream_received [OF assms(6,7) acc [of "key_of s" "[]"] ok, of chunks now] that view by (auto simp: in_conversation_def)
  then show ?thesis using send by blast
qed

theorem messages_delivered_witness:
  "\<exists>s'. send_all [(op_text, [0x68, 0x69]), (op_binary, [0])] (mk_websocket True True 0) = Ok s' \<and>
    (\<exists>r'. res_fold (ws_feed 0) (map (\<lambda>b. [b]) (buf_view (ws_out s'))) sample_socket = Ok r' \<and> ws_messages r' = [[0x68, 0x69], [0]])"
proof -
  have pieces: "concat (map (\<lambda>b. [b]) bs) = bs" for bs :: "octet list" by (induction bs) simp_all
  obtain s' where s': "send_all [(op_text, [0x68, 0x69]), (op_binary, [0])] (mk_websocket True True 0) = Ok s'"
    "\<forall>chunks. concat chunks = buf_view (ws_out s') \<longrightarrow>
      (\<exists>r'. res_fold (ws_feed 0) chunks sample_socket = Ok r' \<and>
        ws_messages r' = map snd [(op_text, [0x68, 0x69]), (op_binary, [0])] \<and> buf_view (ws_in r') = [])"
    using messages_delivered [OF _ _ _ _ _ sample_conversation, of "mk_websocket True True 0" "[(op_text, [0x68, 0x69]), (op_binary, [0])]" 0]
    by (auto simp: mk_websocket_def sample_socket_def)
  show ?thesis using s'(1) spec [OF s'(2), of "map (\<lambda>b. [b]) (buf_view (ws_out s'))"] by (auto simp: pieces)
qed

section \<open>Closing\<close>

text \<open>C34: A close frame whose payload is a single byte, which the network can send at any time, makes the handler read the second byte of
  a status code that is not there.\<close>

theorem short_close_reads_outside:
  assumes "buf_ok (ws_in w)" "buf_view (ws_in w) = wire (Frame True op_close key [b]) @ rest" "frame_ok (Frame True op_close key [b])"
    and "key_allowed w (Frame True op_close key [b])" "\<not> ws_shuttingDown w"
  shows "handle_tcp_stream now w = Err OutOfBounds"
proof -
  let ?f = "Frame True op_close key [b]"
  let ?p = "buf_view (ws_in w)"
  let ?n = "1 + length (wire_length (key \<noteq> None) 1)"
  let ?h = "if key \<noteq> None then ?n + 4 else ?n"
  note first = wire_first [OF assms(3,2), unfolded frame.sel]
  note parts = wire_parts [OF assms(3,2), unfolded frame.sel]
  obtain c where c: "buf_erase_first (length (wire ?f)) (ws_in w) = Ok c"
    using buffers.pop_prefix [OF assms(1,2)] by metis
  have len: "length ?p = length (wire ?f) + length rest" by (simp add: assms(2))
  have "handle_tcp_stream now w = res_bind (buf_erase_first (length (wire ?f)) (ws_in w)) (\<lambda>b'.
      res_bind (handle_control now True op_close [b] (w\<lparr>ws_lastFlags := ?p ! 0, ws_in := b'\<rparr>)) (\<lambda>w. Ok (True, w)))"
    unfolding handle_tcp_stream_def Let_def first parts(1,2,4,5) option.case prod.case
    using parts(3,6) len assms(4) by (auto simp: read_payload_unmask key_allowed_def)
  then show ?thesis using assms(5) c by (simp add: handle_control_def handle_close_def)
qed

theorem short_close_reads_outside_witness:
  "handle_tcp_stream 0 (sample_socket\<lparr>ws_in := buf_push [0x88, 0x81, 1, 2, 3, 4, 6] buf_empty\<rparr>) = Err OutOfBounds"
  by (rule short_close_reads_outside [where key = "Some [1, 2, 3, 4]" and b = 7 and rest = "[]"])
    (simp_all add: sample_socket_def mk_websocket_def wire_def wire_length_def unmask_def Let_def frame_ok_def key_allowed_def
      buffers.push_good buffers.view_push)

text \<open>Shutting down is not idempotent: a handler that is shut down again before its socket has closed puts a second close frame on the wire.\<close>

theorem shut_down_twice:
  assumes "ws_open w" "\<not> ws_shuttingDown w" "buf_ok (ws_out w)" "int (length msg) + 16 \<le> INT_MAX"
  shows "\<exists>w1 w2. ws_shutdown code msg w = Ok w1 \<and> ws_shutdown code msg w1 = Ok w2 \<and>
    (let f = wire (Frame True op_close (key_of w) (of_nat (code div 2 ^ 8) # of_nat code # msg))
     in buf_view (ws_out w2) = buf_view (ws_out w) @ f @ f)"
proof -
  let ?dat = "of_nat (code div 2 ^ 8) # of_nat code # msg :: octet list"
  let ?f = "\<lambda>w. wire (Frame True op_close (key_of w) ?dat)"
  have send: "send_frame ?dat (fin_bit OR op_close) v = Ok (int (length (?f v)), v\<lparr>ws_out := buf_push (?f v) (ws_out v)\<rparr>)"
    if "ws_open v" "buf_ok (ws_out v)" for v
    using send_message_wire [of ?dat v op_close] that assms(4) unfolding send_message_def by simp
  have down: "ws_shutdown code msg v = Ok (v\<lparr>ws_out := buf_push (?f v) (ws_out v), ws_shutdownSignalled := True, ws_ignoreInput := True,
      ws_in := buf_clear (ws_in v), ws_payload := [], ws_inFragmentBlock := False, ws_shuttingDown := False\<rparr>)"
    if "ws_open v" "\<not> ws_shuttingDown v" "buf_ok (ws_out v)" for v
    using that send [of "v\<lparr>ws_shuttingDown := True\<rparr>"]
    by (simp add: ws_shutdown_def shutdown_impl_def send_close_frame_def key_of_def)
  have "buf_ok (buf_push (?f w) (ws_out w))" using assms(3) buffers.push_good by blast
  then show ?thesis using assms down [OF assms(1-3)]
      down [of "w\<lparr>ws_out := buf_push (?f w) (ws_out w), ws_shutdownSignalled := True, ws_ignoreInput := True,
      ws_in := buf_clear (ws_in w), ws_payload := [], ws_inFragmentBlock := False, ws_shuttingDown := False\<rparr>"]
    by (simp add: key_of_def buffers.view_push Let_def)
qed

theorem shut_down_twice_witness:
  "\<exists>w1 w2. ws_shutdown 1000 [] (mk_websocket False False 0) = Ok w1 \<and> ws_shutdown 1000 [] w1 = Ok w2 \<and>
    buf_view (ws_out w2) = [0x88, 2, 3, 0xe8, 0x88, 2, 3, 0xe8]"
proof -
  have "(0xe8 :: octet) = 1000" by simp
  then show ?thesis using shut_down_twice [of "mk_websocket False False 0" "[]" 1000]
    by (simp only: mk_websocket_def) (simp add: key_of_def wire_def wire_length_def unmask_def Let_def)
qed

end
