(* ===== verification/HttpHeaders.thy ===== *)
theory HttpHeaders
  imports Protocol Buffers Stores
begin

text \<open>
  The header of an HTTP message: \<open>http::Header\<close> of src/net/HttpRequest.hpp and HttpRequest.cpp with the searches it uses
  and the string helpers of src/common/Util.hpp. The fields are read by \<open>Poco::Net::MessageHeader\<close>, which is a parameter:
  a function from the bytes to what reading them gives.
\<close>

section \<open>Strings\<close>

abbreviation cr :: char where "cr \<equiv> CHR 0x0D"
abbreviation crlf :: string where "crlf \<equiv> [CHR 0x0D, CHR 0x0A]"

definition char_to_lower :: "char \<Rightarrow> char" where
  "char_to_lower c = (if 65 \<le> (of_char c :: nat) \<and> (of_char c :: nat) \<le> 90 then char_of ((of_char c :: nat) + 32) else c)"

definition to_lower :: "string \<Rightarrow> string" where
  "to_lower s = map char_to_lower s"

definition iequal :: "string \<Rightarrow> string \<Rightarrow> bool" where
  "iequal lhs rhs \<longleftrightarrow> length lhs = length rhs \<and> list_all2 (\<lambda>l r. char_to_lower l = char_to_lower r) lhs rhs"

definition find_first_not_of :: "char \<Rightarrow> string \<Rightarrow> nat option" where
  "find_first_not_of c s = find_index (\<lambda>x. x \<noteq> c) s"

definition find_last_not_of :: "char \<Rightarrow> string \<Rightarrow> nat option" where
  "find_last_not_of c s = map_option (\<lambda>i. length s - 1 - i) (find_index (\<lambda>x. x \<noteq> c) (rev s))"

definition trimmed :: "string \<Rightarrow> string" where
  "trimmed s =
    (case (find_first_not_of (CHR '' '') s, find_last_not_of (CHR '' '') s) of
       (Some first, Some final) \<Rightarrow> substr s first (final + 1 - first)
     | (Some first, None) \<Rightarrow> drop first s
     | (None, Some final) \<Rightarrow> take (final + 1) s
     | (None, None) \<Rightarrow> [])"

text \<open>\<open>Util::split\<close> at the first delimiter, which is removed\<close>

definition split_at_delimiter :: "string \<Rightarrow> char \<Rightarrow> string \<times> string" where
  "split_at_delimiter s delim = (let size = get_delimiter_position s delim in (take size s, drop (size + 1) s))"

section \<open>Searches\<close>

text \<open>The loops over an offset all have this form: the first offset with a property, or the length.\<close>

definition scan :: "(char \<Rightarrow> bool) \<Rightarrow> string \<Rightarrow> nat \<Rightarrow> nat" where
  "scan P p off = (if off < length p then off + length (takeWhile (\<lambda>c. \<not> P c) (drop off p)) else length p)"

definition is_whitespace :: "char \<Rightarrow> bool" where
  "is_whitespace ch \<longleftrightarrow> ch = CHR '' '' \<or> ch = CHR 0x09 \<or> ch = cr"

definition skip_space_and_tab :: "string \<Rightarrow> nat \<Rightarrow> nat" where
  "skip_space_and_tab = scan (\<lambda>c. \<not> is_whitespace c)"

definition skip_crlf :: "string \<Rightarrow> nat \<Rightarrow> nat" where
  "skip_crlf = scan (\<lambda>c. c \<noteq> cr \<and> c \<noteq> newline)"

definition find_line_break :: "string \<Rightarrow> nat \<Rightarrow> nat" where
  "find_line_break = scan (\<lambda>c. c = newline)"

definition find_end_of_token :: "string \<Rightarrow> nat \<Rightarrow> nat" where
  "find_end_of_token = scan (\<lambda>c. is_whitespace c \<or> c = newline)"

lemma scan_ge: "off \<le> length p \<Longrightarrow> off \<le> scan P p off"
  by (simp add: scan_def)

lemma scan_le: "scan P p off \<le> length p"
proof -
  have "length (takeWhile (\<lambda>c. \<not> P c) (drop off p)) \<le> length (drop off p)" by (rule length_takeWhile_le)
  then show ?thesis by (auto simp: scan_def)
qed

function find_blank_line :: "string \<Rightarrow> nat \<Rightarrow> nat" where
  "find_blank_line p off =
    (if off < length p then
       let off = find_line_break p off
       in if off + 2 \<ge> length p then length p
          else if p ! (off + 1) = cr \<and> p ! (off + 2) = newline then off + 2
          else find_blank_line p (off + 3)
     else length p)"
  by pat_completeness auto
termination
proof (relation "measure (\<lambda>(p, off). length p - off)")
  fix p :: string and off k :: nat
  assume "off < length p" "k = find_line_break p off" "\<not> length p \<le> k + 2"
  then show "((p, k + 3), p, off) \<in> measure (\<lambda>(p, off). length p - off)"
    using scan_ge [of off p "\<lambda>c. c = newline"] by (simp add: find_line_break_def)
qed simp

declare find_blank_line.simps [simp del]

text \<open>The first position found by a search is at the end of what does not have the property.\<close>

lemma scan_append: "\<forall>c \<in> set xs. \<not> P c \<Longrightarrow> P c \<Longrightarrow> scan P (pre @ xs @ c # ys) (length pre) = length pre + length xs"
  by (simp add: scan_def)

lemma scan_none: "\<forall>c \<in> set xs. \<not> P c \<Longrightarrow> scan P (pre @ xs) (length pre) = length pre + length xs"
proof -
  assume "\<forall>c \<in> set xs. \<not> P c"
  then have eq: "takeWhile (\<lambda>c. \<not> P c) xs = xs" by (simp add: takeWhile_eq_all_conv)
  show ?thesis by (simp add: scan_def eq)
qed

lemma scan_found: "scan P p off < length p \<Longrightarrow> P (p ! scan P p off)"
proof -
  assume less: "scan P p off < length p"
  then have off: "off < length p" by (auto simp: scan_def split: if_splits)
  then have "P (drop off p ! length (takeWhile (\<lambda>c. \<not> P c) (drop off p)))"
    using less nth_length_takeWhile [of "\<lambda>c. \<not> P c" "drop off p"] by (simp add: scan_def)
  then show ?thesis using off by (simp add: scan_def)
qed

text \<open>More bytes do not change what was found.\<close>

lemma scan_more: "scan P p off < length p \<Longrightarrow> scan P (p @ q) off = scan P p off"
proof -
  assume less: "scan P p off < length p"
  then have off: "off < length p" by (auto simp: scan_def split: if_splits)
  then have "length (takeWhile (\<lambda>c. \<not> P c) (drop off p)) < length (drop off p)" using less by (simp add: scan_def)
  then have "\<not> (\<forall>c \<in> set (drop off p). \<not> P c)" by (metis nat_less_le takeWhile_eq_all_conv)
  then obtain c where "c \<in> set (drop off p)" "P c" by blast
  then show ?thesis using off by (simp add: scan_def takeWhile_append1)
qed

lemma find_blank_line_more: "find_blank_line p off < length p \<Longrightarrow> find_blank_line (p @ q) off = find_blank_line p off"
proof (induction p off rule: find_blank_line.induct)
  case (1 p off)
  let ?o = "find_line_break p off"
  have off: "off < length p" "\<not> length p \<le> ?o + 2"
    using 1(2) by (auto simp: find_blank_line.simps [of p off] Let_def split: if_splits)
  then have more: "find_line_break (p @ q) off = ?o" unfolding find_line_break_def by (intro scan_more) simp
  show ?case
  proof (cases "p ! (?o + 1) = cr \<and> p ! (?o + 2) = newline")
    case True
    then show ?thesis using off more by (simp add: find_blank_line.simps [of _ off] Let_def nth_append)
  next
    case False
    then have "find_blank_line p off = find_blank_line p (?o + 3)"
      using off unfolding find_blank_line.simps [of p off] Let_def if_not_P [OF False] by simp
    moreover have "find_blank_line (p @ q) off = find_blank_line (p @ q) (?o + 3)"
      using off more False by (subst find_blank_line.simps) (auto simp: Let_def nth_append)
    ultimately show ?thesis using 1 off False by simp
  qed
qed

lemma find_blank_line_le: "find_blank_line p off \<le> length p"
  by (induction p off rule: find_blank_line.induct) (subst find_blank_line.simps, auto simp: Let_def)

section \<open>The fields\<close>

type_synonym field = "string \<times> string"

record header =
  hd_headers :: "field list"
  hd_chunked :: bool

definition hd_empty :: header where "hd_empty = \<lparr>hd_headers = [], hd_chunked = False\<rparr>"

abbreviation (input) content_type :: string where "content_type \<equiv> ''Content-Type''"
abbreviation (input) content_length :: string where "content_length \<equiv> ''Content-Length''"
abbreviation (input) transfer_encoding :: string where "transfer_encoding \<equiv> ''Transfer-Encoding''"
abbreviation (input) connection_field :: string where "connection_field \<equiv> ''Connection''"
abbreviation (input) cookie_field :: string where "cookie_field \<equiv> ''Cookie''"

definition hd_add :: "string \<Rightarrow> string \<Rightarrow> header \<Rightarrow> header" where
  "hd_add key val h = h\<lparr>hd_headers := hd_headers h @ [(key, val)]\<rparr>"

fun set_field :: "string \<Rightarrow> string \<Rightarrow> field list \<Rightarrow> field list" where
  "set_field key val [] = [(key, val)]"
| "set_field key val (p # ps) = (if iequal (fst p) key then (fst p, val) # ps else p # set_field key val ps)"

definition hd_set :: "string \<Rightarrow> string \<Rightarrow> header \<Rightarrow> header" where
  "hd_set key val h = h\<lparr>hd_headers := set_field key val (hd_headers h)\<rparr>"

definition hd_find :: "string \<Rightarrow> header \<Rightarrow> string option" where
  "hd_find key h = map_option snd (List.find (\<lambda>p. iequal (fst p) key) (hd_headers h))"

definition hd_has :: "string \<Rightarrow> header \<Rightarrow> bool" where
  "hd_has key h \<longleftrightarrow> hd_find key h \<noteq> None"

definition hd_remove :: "string \<Rightarrow> header \<Rightarrow> bool \<times> header" where
  "hd_remove key h = (hd_has key h, h\<lparr>hd_headers := erase_first (\<lambda>p. iequal (fst p) key) (hd_headers h)\<rparr>)"

definition hd_get :: "string \<Rightarrow> string \<Rightarrow> header \<Rightarrow> string" where
  "hd_get key def h = (case hd_find key h of None \<Rightarrow> def | Some v \<Rightarrow> v)"

definition set_content_type :: "string \<Rightarrow> header \<Rightarrow> header" where
  "set_content_type t = hd_set content_type t"

definition set_content_length :: "int \<Rightarrow> header \<Rightarrow> header" where
  "set_content_length n = hd_set content_length (show_int n)"

definition get_content_length :: "header \<Rightarrow> int" where
  "get_content_length h =
    (let s = hd_get content_length [] h
     in if s = [] \<or> \<not> is_digit (s ! 0) then -1
        else case strtol s of (v, some, erange) \<Rightarrow> if erange then -1 else v)"

definition get_transfer_encoding :: "header \<Rightarrow> string" where
  "get_transfer_encoding = hd_get transfer_encoding []"

datatype connection_token = NoToken | CloseToken | KeepAliveToken | UpgradeToken

definition get_connection_token :: "header \<Rightarrow> connection_token" where
  "get_connection_token h =
    (let t = hd_get connection_field [] h
     in if iequal ''close'' t then CloseToken
        else if iequal ''keep-alive'' t then KeepAliveToken
        else if iequal ''upgrade'' t then UpgradeToken
        else NoToken)"

fun set_connection_token :: "connection_token \<Rightarrow> header \<Rightarrow> header" where
  "set_connection_token CloseToken h = hd_set connection_field ''close'' h"
| "set_connection_token KeepAliveToken h = hd_set connection_field ''Keep-Alive'' h"
| "set_connection_token UpgradeToken h = hd_set connection_field ''Upgrade'' h"
| "set_connection_token NoToken h = snd (hd_remove connection_field h)"

definition add_cookie :: "string \<Rightarrow> header \<Rightarrow> header" where
  "add_cookie c = hd_add cookie_field c"

definition add_cookie_pairs :: "field list \<Rightarrow> header \<Rightarrow> header" where
  "add_cookie_pairs ps =
    hd_add cookie_field (foldl (\<lambda>s (k, v). (if s \<noteq> [] then s @ ''; '' else s) @ k @ ''='' @ v) [] ps)"

definition get_cookies :: "header \<Rightarrow> field list" where
  "get_cookies h =
    concat (map (\<lambda>(k, v).
      if iequal k cookie_field
      then (let tokens = tokenize v (CHR '';'')
            in map (\<lambda>(i, n). split_at_delimiter (substr (sv_string tokens) i n) (CHR ''='')) (sv_tokens tokens))
      else []) (hd_headers h))"

section \<open>Bytes\<close>

definition buf_put :: "string \<Rightarrow> char buffer \<Rightarrow> char buffer res" where
  "buf_put s = buf_append s (int (length s))"

lemma buf_put_grows: "buf_put s b = Ok b' \<Longrightarrow> int (length s) \<le> INT_MAX \<Longrightarrow> b' = b\<lparr>bu_buffer := bu_buffer b @ s\<rparr>"
  by (auto simp: buf_put_def buf_append_def s32_id split: if_splits)

lemma buf_put_length: "buf_put s b = Ok b' \<Longrightarrow> length (bu_buffer b) \<le> length (bu_buffer b')"
  by (auto simp: buf_put_def buf_append_def split: if_splits)

definition header_write :: "header \<Rightarrow> char buffer \<Rightarrow> char buffer res" where
  "header_write h out = res_fold (\<lambda>(key, val). res_fold buf_put [key, '': '', val, crlf]) (hd_headers h) out"

text \<open>What reading a header gives: its fields, a stream that has failed, or an exception\<close>

datatype header_read = Fields "field list" | StreamFailed | ReadThrows

definition header_parse :: "(string \<Rightarrow> header_read) \<Rightarrow> string \<Rightarrow> header \<Rightarrow> int \<times> header" where
  "header_parse rd p h =
    (if length p < 4 then (0, h)
     else
       let endPos = find_blank_line p 0
       in if endPos = length p then (0, h)
          else case rd p of
            ReadThrows \<Rightarrow> (0, h)
          | StreamFailed \<Rightarrow> (-1, h)
          | Fields fs \<Rightarrow>
              let h = fold (\<lambda>(k, v). hd_set (trimmed k) (trimmed v)) fs h
              in (int (endPos + 1), h\<lparr>hd_chunked := (get_transfer_encoding h = ''chunked'')\<rparr>))"

section \<open>Looking fields up\<close>

lemma iequal_map: "iequal a b \<longleftrightarrow> to_lower a = to_lower b"
proof
  assume "iequal a b"
  then show "to_lower a = to_lower b" by (auto simp: iequal_def to_lower_def list_all2_conv_all_nth intro: nth_equalityI)
next
  assume eq: "to_lower a = to_lower b"
  then have len: "length a = length b" unfolding to_lower_def by (rule map_eq_imp_length_eq)
  moreover have "char_to_lower (a ! i) = char_to_lower (b ! i)" if "i < length a" for i
    using arg_cong [OF eq, of "\<lambda>s. s ! i"] that len by (simp add: to_lower_def)
  ultimately show "iequal a b" by (simp add: iequal_def list_all2_conv_all_nth)
qed

lemma iequal_equivp: "equivp iequal"
  by (rule equivpI) (auto simp: reflp_def symp_def transp_def iequal_map)

lemma find_set_field:
  "map_option snd (List.find (\<lambda>p. iequal (fst p) k) (set_field k' v ps)) =
    (if iequal k' k then Some v else map_option snd (List.find (\<lambda>p. iequal (fst p) k) ps))"
  by (induction ps) (auto simp: iequal_map)

interpretation fields: keyed_store iequal fst snd hd_find "\<lambda>(k, v). hd_set k v"
proof
  show "equivp iequal" by (rule iequal_equivp)
  show "hd_find k ((\<lambda>(k, v). hd_set k v) d s) = (if iequal (fst d) k then Some (snd d) else hd_find k s)" for k d s
    by (cases d) (simp add: hd_find_def hd_set_def find_set_field)
qed

lemma hd_get_set: "hd_get k d (hd_set k' v h) = (if iequal k' k then v else hd_get k d h)"
  using fields.find_put [of k "(k', v)" h] by (simp add: hd_get_def)

lemma set_field_new: "\<forall>p \<in> set ps. \<not> iequal (fst p) k \<Longrightarrow> set_field k v ps = ps @ [(k, v)]"
  by (induction ps) auto

end
