(* ===== verification/HttpMessages.thy ===== *)
theory HttpMessages
  imports HttpHeaders
begin

text \<open>
  Requests and responses: \<open>http::StatusLine\<close>, \<open>Request\<close>, \<open>RequestParser\<close> and \<open>Response\<close> of src/net/HttpRequest.hpp and
  HttpRequest.cpp. A message is written into a buffer and parsed by calls of \<open>readData\<close> with the bytes that have
  arrived, which tell how many of them are consumed, or -1. The callback a body is written to is a function with a state of its
  own that gives what it returns and its next state; the one that keeps the body in memory is \<open>save_to_memory\<close>. The callback a body is
  read from gives None for an error and else what it reads, nothing at the end. Numbers of type \<open>int64_t\<close> that
  count bytes are below \<open>2 ^ 63\<close>.
\<close>

section \<open>Status line\<close>

abbreviation (input) version_len :: nat where "version_len \<equiv> 8"
abbreviation (input) status_code_len :: nat where "status_code_len \<equiv> 3"
definition min_status_line_len :: nat where "min_status_line_len = 14"
definition max_status_line_len :: nat where "max_status_line_len = 8 + 3 + 512"

record status_line =
  st_httpVersion :: string
  st_versionMajor :: nat
  st_versionMinor :: nat
  st_statusCode :: nat
  st_reasonPhrase :: string

definition st_invalid :: status_line where
  "st_invalid = \<lparr>st_httpVersion = [], st_versionMajor = 1, st_versionMinor = 1, st_statusCode = 0, st_reasonPhrase = []\<rparr>"

datatype status_class = InvalidClass | Informational | Successful | Redirection | ClientError | ServerError

definition status_category :: "status_line \<Rightarrow> status_class" where
  "status_category st =
    (let c = st_statusCode st
     in if c \<ge> 500 \<and> c < 600 then ServerError
        else if c \<ge> 400 then ClientError
        else if c \<ge> 300 then Redirection
        else if c \<ge> 200 then Successful
        else if c \<ge> 100 then Informational
        else InvalidClass)"

definition reason_phrases :: "(nat \<times> string) list" where
  "reason_phrases =
    [(100, ''Continue''), (101, ''Switching Protocols''), (102, ''Processing''), (103, ''Early Hints''),
     (200, ''OK''), (201, ''Created''), (202, ''Accepted''), (203, ''Non Authoritative Information''), (204, ''No Content''),
     (205, ''Reset Content''), (206, ''Partial Content''), (207, ''Multi Status''), (208, ''Already Reported''), (226, ''IM Used''),
     (300, ''Multiple Choices''), (301, ''Moved Permanently''), (302, ''Found''), (303, ''See Other''), (304, ''Not Modified''),
     (305, ''Use Proxy''), (307, ''Temporary Redirect''),
     (400, ''Bad Request''), (401, ''Unauthorized''), (402, ''Payment Required''), (403, ''Forbidden''), (404, ''Not Found''),
     (405, ''Method Not Allowed''), (406, ''Not Acceptable''), (407, ''Proxy Authentication Required''), (408, ''Request Timeout''),
     (409, ''Conflict''), (410, ''Gone''), (411, ''Length Required''), (412, ''Precondition Failed''), (413, ''Payload Too Large''),
     (414, ''URI Too Long''), (415, ''Unsupported Media Type''), (416, ''Range Not Satisfiable''), (417, ''Expectation Failed''),
     (418, ''I'm A Teapot''), (421, ''Misdirected Request''), (422, ''Unprocessable Entity''), (423, ''Locked''),
     (424, ''Failed Dependency''), (425, ''Too Early''), (426, ''Upgrade Required''), (428, ''Precondition Required''),
     (429, ''Too Many Requests''), (431, ''Request Header Fields Too Large''), (440, ''Login Time-out''), (449, ''Retry With''),
     (451, ''Unavailable For Legal Reasons''),
     (500, ''Internal Server Error''), (501, ''Not Implemented''), (502, ''Bad Gateway''), (503, ''Service Unavailable''),
     (504, ''Gateway Timeout''), (505, ''HTTP Version Not Supported''), (507, ''Insufficient Storage''), (508, ''Loop Detected''),
     (510, ''Not Extended''), (511, ''Network Authentication Required'')]"

definition get_reason_phrase_for_code :: "nat \<Rightarrow> string" where
  "get_reason_phrase_for_code code = (case map_of reason_phrases code of None \<Rightarrow> ''Unknown'' | Some r \<Rightarrow> r)"

definition mk_status_line :: "nat \<Rightarrow> status_line" where
  "mk_status_line code =
    \<lparr>st_httpVersion = ''HTTP/1.1'', st_versionMajor = 1, st_versionMinor = 1, st_statusCode = code,
     st_reasonPhrase = get_reason_phrase_for_code code\<rparr>"

definition status_line_write :: "status_line \<Rightarrow> char buffer \<Rightarrow> char buffer res" where
  "status_line_write st =
    res_fold buf_put [st_httpVersion st, '' '', show_nat (st_statusCode st), '' '', st_reasonPhrase st, crlf]"

text \<open>The checks of the version, which are the same for requests\<close>

definition valid_version :: "string \<Rightarrow> nat \<Rightarrow> bool" where
  "valid_version p off \<longleftrightarrow>
    starts_with ''HTTP/'' (drop off p) \<and> is_digit (p ! (off + 5)) \<and> p ! (off + 6) = CHR ''.'' \<and> is_digit (p ! (off + 7)) \<and>
    is_whitespace (p ! (off + 8))"

datatype parse_state = Unknown | Incomplete | Invalid | Valid

text \<open>The end of the line: the offset of the line break, or None for a line that is too long\<close>

definition reason_end :: "string \<Rightarrow> nat \<Rightarrow> nat option" where
  "reason_end p off =
    (let off' = scan (\<lambda>c. c = cr \<or> c = newline) p off
     in if \<exists>i \<in> set [off..<off']. i \<ge> max_status_line_len then None else Some off')"

definition status_line_parse :: "string \<Rightarrow> status_line \<Rightarrow> (parse_state \<times> nat \<times> status_line) res" where
  "status_line_parse p st =
    (let len = length p in
     if len < min_status_line_len then Ok (Incomplete, len, st)
     else
       let off = skip_space_and_tab p 0 in
       if off \<ge> max_status_line_len then Ok (Invalid, len, st)
       else if len - off < min_status_line_len then Ok (Incomplete, len, st)
       else if \<not> off + version_len < len then Err AssertionFailed
       else if \<not> valid_version p off then Ok (Invalid, len, st)
       else
         let st = st\<lparr>st_httpVersion := substr p off version_len, st_versionMajor := nat (digit_val (p ! (off + 5))),
                     st_versionMinor := nat (digit_val (p ! (off + 7)))\<rparr>;
             off = skip_space_and_tab p (off + version_len) in
         if off \<ge> max_status_line_len then Ok (Invalid, len, st)
         else if len - off < min_status_line_len - version_len then Ok (Incomplete, len, st)
         else if \<not> off + status_code_len < len then Err AssertionFailed
         else if \<not> is_digit (p ! off) then Ok (Invalid, len, st)
         else
           let st = st\<lparr>st_statusCode := nat (safe_atoi (drop off p))\<rparr> in
           if st_statusCode st < 100 \<or> st_statusCode st > 599 then Ok (Invalid, len, st)
           else
             let reasonOff = skip_space_and_tab p (off + status_code_len) in
             if reasonOff \<ge> max_status_line_len then Ok (Invalid, len, st)
             else
               let off = find_line_break p reasonOff in
               if off \<ge> len then Ok (Incomplete, len, st)
               else case reason_end p off of
                 None \<Rightarrow> Ok (Invalid, len, st)
               | Some off \<Rightarrow>
                   let stringSize = int off - int reasonOff - 1;
                       st = (if stringSize > 0 then st\<lparr>st_reasonPhrase := substr p reasonOff (nat stringSize)\<rparr> else st)
                   in Ok (Valid, skip_crlf p off, st))"

section \<open>Requests that are sent\<close>

datatype stage = RequestLine | HeaderStage | Body | Finished

record request =
  rq_header :: header
  rq_url :: string
  rq_verb :: string
  rq_version :: string
  rq_stage :: stage

definition mk_request :: "string \<Rightarrow> string \<Rightarrow> header \<Rightarrow> request" where
  "mk_request url verb h = \<lparr>rq_header = h, rq_url = url, rq_verb = verb, rq_version = ''HTTP/1.1'', rq_stage = RequestLine\<rparr>"

definition is_keep_alive :: "request \<Rightarrow> bool" where
  "is_keep_alive r \<longleftrightarrow>
    (let token = hd_get connection_field [] (rq_header r)
     in if token \<noteq> [] then \<not> iequal ''close'' token else rq_version r \<noteq> ''HTTP/1.0'')"

text \<open>\<open>setBody\<close>; the body is then read from a stream.\<close>

definition request_set_body :: "string \<Rightarrow> string \<Rightarrow> request \<Rightarrow> request \<times> string" where
  "request_set_body body contentType r =
    (let h = (if body \<noteq> [] then set_content_type contentType (rq_header r) else rq_header r);
         h = set_content_length (int (length body)) h
     in (r\<lparr>rq_header := set_content_length (int (length body)) h\<rparr>, body))"

definition read_stream :: "nat \<Rightarrow> string \<Rightarrow> string option \<times> string" where
  "read_stream n s = (Some (take n s), drop n s)"

fun show_hex_digit :: "nat \<Rightarrow> char" where
  "show_hex_digit d = (if d < 10 then char_of (48 + d) else char_of (87 + d))"

fun show_hex :: "nat \<Rightarrow> string" where
  "show_hex n = (if n < 16 then [show_hex_digit n] else show_hex (n div 16) @ [show_hex_digit (n mod 16)])"

declare show_hex.simps [simp del] show_hex_digit.simps [simp del]

definition body_buffer_size :: nat where "body_buffer_size = 64 * 1024"

text \<open>
  The loop that sends the body. A callback that wrote more than it was asked for would write outside its buffer. What is
  written is the difference of the sizes, which is that of the lengths, as appending leaves the offset.
\<close>

definition send_piece :: "bool \<Rightarrow> string \<Rightarrow> char buffer \<Rightarrow> char buffer res" where
  "send_piece chunked s out =
    (if length s > body_buffer_size then Err OutOfBounds
     else if chunked then res_fold buf_put [show_hex (length s), crlf, s, crlf] out
     else buf_put s out)"

lemma send_piece_grows:
  assumes "send_piece chunked s out = Ok out'"
  shows "length (bu_buffer out) + length s \<le> length (bu_buffer out')"
proof -
  have small: "int (length s) \<le> INT_MAX" using assms by (auto simp: send_piece_def body_buffer_size_def split: if_splits)
  have grows: "length (bu_buffer b') = length (bu_buffer b) + length s" if "buf_put s b = Ok b'" for b b'
    using buf_put_grows [OF that small] by simp
  show ?thesis
  proof (cases chunked)
    case True
    then obtain b1 b2 b3 where "buf_put (show_hex (length s)) out = Ok b1" "buf_put crlf b1 = Ok b2" "buf_put s b2 = Ok b3"
      "buf_put crlf b3 = Ok out'" using assms by (auto simp: send_piece_def res_bind_Ok split: if_splits)
    then show ?thesis using grows [of b2 b3] by (fastforce dest!: buf_put_length)
  next
    case False
    then show ?thesis using assms grows by (auto simp: send_piece_def split: if_splits)
  qed
qed

function send_body :: "(nat \<Rightarrow> 'r \<Rightarrow> string option \<times> 'r) \<Rightarrow> bool \<Rightarrow> nat \<Rightarrow> nat \<Rightarrow> 'r \<Rightarrow> request \<Rightarrow> char buffer \<Rightarrow>
    (bool \<times> 'r \<times> request \<times> char buffer) res" where
  "send_body rd chunked capacity wrote src r out =
    (let (read, src) = rd body_buffer_size src
     in case read of
          None \<Rightarrow> Ok (False, src, r, out)
        | Some s \<Rightarrow>
            if s = []
            then res_bind (if chunked then buf_put (''0'' @ crlf @ crlf) out else Ok out)
              (\<lambda>out. Ok (True, src, r\<lparr>rq_stage := Finished\<rparr>, out))
            else res_bind (send_piece chunked s out) (\<lambda>out'.
              let wrote = wrote + (length (bu_buffer out') - length (bu_buffer out))
              in if wrote < capacity then send_body rd chunked capacity wrote src r out'
                 else Ok (True, src, r, out')))"
  by pat_completeness auto
termination
proof (relation "measure (\<lambda>(rd, chunked, capacity, wrote, src, r, out). capacity - wrote)")
  fix rd and chunked and capacity wrote wrote' :: nat and src src' :: 'r and r and out out' and x y and s
  assume "s \<noteq> []" "send_piece chunked s out = Ok out'"
    and wrote': "wrote' = wrote + (length (bu_buffer out') - length (bu_buffer out))" "wrote' < capacity"
  moreover from this have "length (bu_buffer out) < length (bu_buffer out')"
    using send_piece_grows [of chunked s out out'] by (cases s) auto
  ultimately have "capacity - wrote' < capacity - wrote" by linarith
  then show "((rd, chunked, capacity, wrote', src', r, out'), rd, chunked, capacity, wrote, src, r, out)
    \<in> measure (\<lambda>(rd, chunked, capacity, wrote, src, r, out). capacity - wrote)" by simp
qed simp

declare send_body.simps [simp del]

definition request_write :: "(nat \<Rightarrow> 'r \<Rightarrow> string option \<times> 'r) \<Rightarrow> nat \<Rightarrow> 'r \<Rightarrow> request \<Rightarrow> char buffer \<Rightarrow>
    (bool \<times> 'r \<times> request \<times> char buffer) res" where
  "request_write rd capacity src r out =
    res_bind
      (if rq_stage r = RequestLine
       then res_bind (res_fold buf_put [rq_verb r, '' '', rq_url r, '' '', rq_version r, crlf] out) (\<lambda>out.
              res_bind (header_write (rq_header r) out) (\<lambda>out.
              res_bind (buf_put crlf out) (\<lambda>out. Ok (r\<lparr>rq_stage := Body\<rparr>, out))))
       else Ok (r, out))
      (\<lambda>(r, out).
        if rq_stage r = Body
        then let chunked = (find_sub ''chunked'' (to_lower (hd_get ''transfer-encoding'' [] (rq_header r))) \<noteq> None)
             in send_body rd chunked capacity 0 src r out
        else Ok (True, src, r, out))"

end
