(* ===== verification/HttpParsers.thy ===== *)
theory HttpParsers
  imports HttpMessages
begin

text \<open>
  Parsing of what arrives: \<open>RequestParser::readData\<close> and \<open>Response::readData\<close> of src/net/HttpRequest.cpp, with chunked bodies. The
  phases give either the number the function returns at once (on the left) or how many bytes they consumed.
\<close>

section \<open>Bodies\<close>

text \<open>The callback that keeps the body in memory\<close>

definition save_to_memory :: "string \<Rightarrow> string \<Rightarrow> int \<times> string" where
  "save_to_memory s body = (int (length s), body @ s)"

definition hex_digit_from_char :: "char \<Rightarrow> int" where
  "hex_digit_from_char c =
    (let n = of_char c :: int
     in if 48 \<le> n \<and> n \<le> 57 then n - 48
        else if 97 \<le> n \<and> n \<le> 102 then n - 97 + 10
        else if 65 \<le> n \<and> n \<le> 70 then n - 65 + 10
        else -1)"

text \<open>The length of a chunk, None for one that does not fit\<close>

fun chunk_len :: "nat \<Rightarrow> string \<Rightarrow> nat option" where
  "chunk_len n [] = Some n"
| "chunk_len n (c # cs) =
    (let digit = hex_digit_from_char c
     in if digit < 0 then Some n
        else if int n \<ge> LONG_MAX div 16 then None
        else chunk_len (n * 16 + nat digit) cs)"

datatype chunks_state = Rejected | Waiting | LastChunk

function read_chunks :: "(string \<Rightarrow> 'o \<Rightarrow> int \<times> 'o) \<Rightarrow> string \<Rightarrow> nat \<Rightarrow> 'o \<Rightarrow> chunks_state \<times> string \<times> nat \<times> 'o" where
  "read_chunks wr p sz out =
    (if p = [] then (Waiting, p, sz, out)
     else
       let off = find_line_break p 0 in
       if off = length p then (Waiting, p, sz, out)
       else case chunk_len 0 p of
         None \<Rightarrow> (Rejected, p, sz, out)
       | Some n \<Rightarrow>
           if n > 0 then
             if length p - (off + 1) < n + 2 then (Waiting, p, sz, out)
             else
               let p = drop (off + 1) p;
                   (wrote, out) = wr (take n p) out
               in if wrote \<noteq> int n then (Rejected, p, sz, out)
                  else let p = drop n p in read_chunks wr (drop (skip_crlf p 0) p) (sz + n) out
           else (LastChunk, [], sz, out))"
  by pat_completeness auto
termination
  by (relation "measure (\<lambda>(wr, p, sz, out). length p)") auto

declare read_chunks.simps [simp del]

section \<open>Requests that are received\<close>

record 'o request_parser = request +
  rp_recvBodySize :: nat
  rp_out :: 'o

definition mk_request_parser :: "'o \<Rightarrow> 'o request_parser" where
  "mk_request_parser out =
    \<lparr>rq_header = hd_empty, rq_url = [], rq_verb = [], rq_version = [], rq_stage = RequestLine, rp_recvBodySize = 0, rp_out = out\<rparr>"

definition min_request_header_len :: nat where "min_request_header_len = 16"

definition read_request_line :: "string \<Rightarrow> 'o request_parser \<Rightarrow> (int + nat) \<times> 'o request_parser" where
  "read_request_line p rp =
    (if length p < min_request_header_len then (Inl 0, rp)
     else
       let off = skip_space_and_tab p 0; fin = find_end_of_token p off in
       if fin = length p then (Inl 0, rp)
       else
         let rp = rp\<lparr>rq_verb := substr p off (fin - off)\<rparr>; off = skip_space_and_tab p fin; fin = find_end_of_token p off in
         if fin = length p then (Inl 0, rp)
         else
           let rp = rp\<lparr>rq_url := substr p off (fin - off)\<rparr>; off = skip_space_and_tab p fin in
           if off + version_len \<ge> length p then (Inl 0, rp)
           else if \<not> valid_version p off then (Inl (-1), rp)
           else
             let rp = rp\<lparr>rq_version := substr p off version_len\<rparr>; fin = find_line_break p (off + version_len) in
             if fin \<ge> length p then (Inl 0, rp)
             else (Inr (fin + 1), rp\<lparr>rq_stage := HeaderStage\<rparr>))"

definition read_request_header :: "(string \<Rightarrow> header_read) \<Rightarrow> string \<Rightarrow> 'o request_parser \<Rightarrow> (int + nat) \<times> 'o request_parser" where
  "read_request_header rd p rp =
    (let (n, h) = header_parse rd p (rq_header rp); rp = rp\<lparr>rq_header := h\<rparr>
     in if n < 0 then (Inl n, rp)
        else if n > 0 then (Inr (nat n), rp\<lparr>rq_stage := Body\<rparr>)
        else (Inr 0, rp))"

definition read_request_body :: "(string \<Rightarrow> 'o \<Rightarrow> int \<times> 'o) \<Rightarrow> string \<Rightarrow> 'o request_parser \<Rightarrow> (int + nat) \<times> 'o request_parser" where
  "read_request_body wr p rp =
    (if rq_verb rp = ''GET'' then (Inr 0, rp\<lparr>rq_stage := Finished\<rparr>)
     else if rq_verb rp = ''POST'' then
       if \<not> hd_has content_length (rq_header rp) \<and> \<not> hd_chunked (rq_header rp) then (Inl (-1), rp)
       else if hd_chunked (rq_header rp) then
         (case read_chunks wr p (rp_recvBodySize rp) (rp_out rp) of
            (Rejected, rest, sz, out) \<Rightarrow> (Inl (-1), rp\<lparr>rp_recvBodySize := sz, rp_out := out\<rparr>)
          | (Waiting, rest, sz, out) \<Rightarrow> (Inr (length p - length rest), rp\<lparr>rp_recvBodySize := sz, rp_out := out\<rparr>)
          | (LastChunk, rest, sz, out) \<Rightarrow> (Inr (length p), rp\<lparr>rp_recvBodySize := sz, rp_out := out, rq_stage := Finished\<rparr>))
       else
         (let (wrote, out) = wr p (rp_out rp); rp = rp\<lparr>rp_out := out\<rparr>
          in if wrote < 0 then (Inl wrote, rp)
             else if wrote > 0 then
               let rp = rp\<lparr>rp_recvBodySize := rp_recvBodySize rp + nat wrote\<rparr>
               in (Inr (nat wrote),
                   if hd_has content_length (rq_header rp) \<and> int (rp_recvBodySize rp) \<ge> get_content_length (rq_header rp)
                   then rp\<lparr>rq_stage := Finished\<rparr> else rp)
             else (Inr 0, rp))
     else (Inl (-1), rp))"

definition request_read :: "(string \<Rightarrow> header_read) \<Rightarrow> (string \<Rightarrow> 'o \<Rightarrow> int \<times> 'o) \<Rightarrow> string \<Rightarrow> 'o request_parser \<Rightarrow>
    int \<times> 'o request_parser" where
  "request_read rd wr p rp =
    (case (if rq_stage rp = RequestLine then read_request_line p rp else (Inr 0, rp)) of
       (Inl n, rp) \<Rightarrow> (n, rp)
     | (Inr n1, rp) \<Rightarrow>
         (case (if rq_stage rp = HeaderStage then read_request_header rd (drop n1 p) rp else (Inr 0, rp)) of
            (Inl n, rp) \<Rightarrow> (n, rp)
          | (Inr n2, rp) \<Rightarrow>
              (case (if rq_stage rp = Body then read_request_body wr (drop (n1 + n2) p) rp else (Inr 0, rp)) of
                 (Inl n, rp) \<Rightarrow> (n, rp)
               | (Inr n3, rp) \<Rightarrow> (int (n1 + n2 + n3), rp))))"

section \<open>Responses\<close>

datatype response_state = NewResponse | IncompleteResponse | ErrorResponse | TimeoutResponse | CompleteResponse
datatype parser_stage = StatusLineStage | ResponseHeader | ResponseBody | ResponseFinished

text \<open>A response has its body in memory or hands it to a callback; \<open>rs_finished\<close> counts the calls of the callback for the end.\<close>

record 'o response =
  rs_statusLine :: status_line
  rs_header :: header
  rs_state :: response_state
  rs_parserStage :: parser_stage
  rs_recvBodySize :: nat
  rs_body :: string
  rs_inMemory :: bool
  rs_out :: 'o
  rs_finished :: nat

definition mk_response :: "'o \<Rightarrow> 'o response" where
  "mk_response out =
    \<lparr>rs_statusLine = st_invalid, rs_header = hd_empty, rs_state = NewResponse, rs_parserStage = StatusLineStage, rs_recvBodySize = 0,
     rs_body = [], rs_inMemory = True, rs_out = out, rs_finished = 0\<rparr>"

definition mk_server_response :: "string \<Rightarrow> string \<Rightarrow> status_line \<Rightarrow> 'o \<Rightarrow> 'o response" where
  "mk_server_response date server st out =
    (mk_response out)\<lparr>rs_statusLine := st, rs_header := hd_add ''Server'' server (hd_add ''Date'' date hd_empty)\<rparr>"

definition save_body_to_handler :: "'o response \<Rightarrow> 'o response" where
  "save_body_to_handler r = r\<lparr>rs_inMemory := False\<rparr>"

definition save_body_to_memory :: "'o response \<Rightarrow> 'o response" where
  "save_body_to_memory r = r\<lparr>rs_inMemory := True\<rparr>"

definition on_body_write :: "(string \<Rightarrow> 'o \<Rightarrow> int \<times> 'o) \<Rightarrow> string \<Rightarrow> bool \<times> string \<times> 'o \<Rightarrow> int \<times> bool \<times> string \<times> 'o" where
  "on_body_write wr s = (\<lambda>(inMemory, body, out).
    if inMemory then (let (n, body) = save_to_memory s body in (n, inMemory, body, out))
    else (let (n, out) = wr s out in (n, inMemory, body, out)))"

definition set_body_out :: "bool \<times> string \<times> 'o \<Rightarrow> 'o response \<Rightarrow> 'o response" where
  "set_body_out = (\<lambda>(inMemory, body, out) r. r\<lparr>rs_body := body, rs_out := out\<rparr>)"

definition response_done :: "'o response \<Rightarrow> bool" where
  "response_done r \<longleftrightarrow> rs_state r \<in> {ErrorResponse, TimeoutResponse, CompleteResponse}"

definition response_finish :: "response_state \<Rightarrow> 'o response \<Rightarrow> 'o response" where
  "response_finish st r = (if \<not> response_done r then r\<lparr>rs_state := st, rs_finished := rs_finished r + 1\<rparr> else r)"

definition response_complete :: "'o response \<Rightarrow> 'o response" where "response_complete = response_finish CompleteResponse"
definition response_timeout :: "'o response \<Rightarrow> 'o response" where "response_timeout = response_finish TimeoutResponse"
definition response_error :: "'o response \<Rightarrow> 'o response" where "response_error = response_finish ErrorResponse"

text \<open>What follows a header that is complete; False for a header that is refused\<close>

definition after_header :: "'o response \<Rightarrow> bool \<times> 'o response" where
  "after_header r =
    (let r = r\<lparr>rs_parserStage := ResponseBody\<rparr>; st = rs_statusLine r; h = rs_header r
     in if status_category st = Informational \<or> st_statusCode st = 204 \<or> st_statusCode st = 304
        then (True, r\<lparr>rs_parserStage := ResponseFinished\<rparr>)
        else
          let r = (if status_category st \<noteq> Successful then save_body_to_memory r else r)
          in if hd_has content_length h then
               if get_content_length h < 0 \<or> get_transfer_encoding h \<noteq> [] then (False, r)
               else if get_content_length h = 0 then (True, r\<lparr>rs_parserStage := ResponseFinished\<rparr>)
               else (True, r)
             else (True, r))"

definition read_response_header :: "(string \<Rightarrow> header_read) \<Rightarrow> string \<Rightarrow> 'o response \<Rightarrow> (int + nat) \<times> 'o response" where
  "read_response_header rd p r =
    (let (n, h) = header_parse rd p (rs_header r); r = r\<lparr>rs_header := h\<rparr>
     in if n < 0 then (Inl n, r)
        else if n > 0 then (case after_header r of (ok, r) \<Rightarrow> if ok then (Inr (nat n), r) else (Inl (-1), r))
        else (Inr 0, r))"

definition read_response_body :: "(string \<Rightarrow> 'o \<Rightarrow> int \<times> 'o) \<Rightarrow> string \<Rightarrow> 'o response \<Rightarrow> (int + nat) \<times> 'o response" where
  "read_response_body wr p r =
    (let w = (rs_inMemory r, rs_body r, rs_out r)
     in if hd_chunked (rs_header r) then
          (case read_chunks (on_body_write wr) p (rs_recvBodySize r) w of
             (Rejected, rest, sz, w) \<Rightarrow> (Inl (-1), set_body_out w (r\<lparr>rs_recvBodySize := sz\<rparr>))
           | (Waiting, rest, sz, w) \<Rightarrow> (Inr (length p - length rest), set_body_out w (r\<lparr>rs_recvBodySize := sz\<rparr>))
           | (LastChunk, rest, sz, w) \<Rightarrow>
               (Inr (length p), set_body_out w (r\<lparr>rs_recvBodySize := sz, rs_parserStage := ResponseFinished\<rparr>)))
        else
          (let (wrote, w) = on_body_write wr p w; r = set_body_out w r
           in if wrote < 0 then (Inl wrote, r)
              else if wrote > 0 then
                let r = r\<lparr>rs_recvBodySize := rs_recvBodySize r + nat wrote\<rparr>
                in (Inr (nat wrote),
                    if hd_has content_length (rs_header r) \<and> int (rs_recvBodySize r) \<ge> get_content_length (rs_header r)
                    then r\<lparr>rs_parserStage := ResponseFinished\<rparr> else r)
              else (Inr 0, r)))"

definition response_body_and_end :: "(string \<Rightarrow> 'o \<Rightarrow> int \<times> 'o) \<Rightarrow> string \<Rightarrow> nat \<Rightarrow> 'o response \<Rightarrow> int \<times> 'o response" where
  "response_body_and_end wr p n r =
    (case (if rs_parserStage r = ResponseBody \<and> drop n p \<noteq> [] then read_response_body wr (drop n p) r else (Inr 0, r)) of
       (Inl m, r) \<Rightarrow> (m, r)
     | (Inr m, r) \<Rightarrow> (int (n + m), if rs_parserStage r = ResponseFinished then response_complete r else r))"

text \<open>The status line is parsed but not consumed: the header is read from it on.\<close>

definition response_read :: "(string \<Rightarrow> header_read) \<Rightarrow> (string \<Rightarrow> 'o \<Rightarrow> int \<times> 'o) \<Rightarrow> string \<Rightarrow> 'o response \<Rightarrow> (int \<times> 'o response) res" where
  "response_read rd wr p r =
    (let r = r\<lparr>rs_state := IncompleteResponse\<rparr>
     in res_bind
       (if rs_parserStage r = StatusLineStage
        then res_bind (status_line_parse p (rs_statusLine r)) (\<lambda>(state, n, st).
          let r = r\<lparr>rs_statusLine := st\<rparr>
          in case state of
               Valid \<Rightarrow> Ok (if n = 0 then (Some 0, r) else (None, r\<lparr>rs_parserStage := ResponseHeader\<rparr>))
             | Invalid \<Rightarrow> Ok (Some (-1), r)
             | _ \<Rightarrow> Ok (Some 0, r))
        else Ok (None, r))
       (\<lambda>(go, r). Ok (case go of
          Some n \<Rightarrow> (n, r)
        | None \<Rightarrow>
            (case (if rs_parserStage r = ResponseHeader \<and> p \<noteq> [] then read_response_header rd p r else (Inr 0, r)) of
               (Inl n, r) \<Rightarrow> (n, r)
             | (Inr n, r) \<Rightarrow> response_body_and_end wr p n r))))"

section \<open>Responses that are sent\<close>

definition response_set_body :: "string \<Rightarrow> string \<Rightarrow> 'o response \<Rightarrow> 'o response" where
  "response_set_body body contentType r =
    (let h = set_content_length (int (length body)) (rs_header r)
     in r\<lparr>rs_body := body, rs_header := (if body \<noteq> [] then set_content_type contentType h else h)\<rparr>)"

definition append_chunk :: "string \<Rightarrow> 'o response \<Rightarrow> 'o response res" where
  "append_chunk chunk r =
    (if find_sub ''chunked'' (hd_get ''transfer-encoding'' [] (rs_header r)) = None \<or> hd_has ''content-length'' (rs_header r)
     then Err AssertionFailed
     else Ok (r\<lparr>rs_body := rs_body r @ show_hex (length chunk) @ crlf @ chunk @ crlf\<rparr>))"

definition response_write :: "string \<Rightarrow> 'o response \<Rightarrow> char buffer \<Rightarrow> char buffer res" where
  "response_write server r out =
    (if hd_get ''Date'' [] (rs_header r) = [] \<or> hd_get ''Server'' [] (rs_header r) \<noteq> server then Err AssertionFailed
     else res_bind (status_line_write (rs_statusLine r) out) (\<lambda>out.
       res_bind (header_write (rs_header r) out) (res_fold buf_put [crlf, rs_body r])))"

end
