(* ===== verification/HttpProps.thy ===== *)
theory HttpProps
  imports HttpParsers
begin

text \<open>
  The formats as references: the text of a header, of a chunked body and of a status line, and what the parsers make of
  such a text and of each part of it that may have arrived.
\<close>

section \<open>Headers\<close>

definition field_text :: "field \<Rightarrow> string" where
  "field_text kv = (case kv of (k, v) \<Rightarrow> k @ '': '' @ v @ crlf)"

definition fields_text :: "field list \<Rightarrow> string" where
  "fields_text hs = concat (map field_text hs)"

definition line_text :: "string \<Rightarrow> string" where
  "line_text l = l @ crlf"

lemma line_text_simps [simp]: "line_text l @ x = l @ cr # newline # x" "length (line_text l) = length l + 2"
  by (simp_all add: line_text_def)

text \<open>Fields that can be sent: on one line, without space around\<close>

definition field_ok :: "field \<Rightarrow> bool" where
  "field_ok kv \<longleftrightarrow> (case kv of (k, v) \<Rightarrow> newline \<notin> set k \<and> newline \<notin> set v \<and> trimmed k = k \<and> trimmed v = v)"

definition names_differ :: "field list \<Rightarrow> bool" where
  "names_differ hs \<longleftrightarrow> distinct (map (to_lower \<circ> fst) hs)"

lemma find_line_break_append: "newline \<notin> set xs \<Longrightarrow> find_line_break (pre @ xs @ newline # ys) (length pre) = length pre + length xs"
  unfolding find_line_break_def by (rule scan_append) auto

lemma find_line_break_line:
  assumes "newline \<notin> set l" "off \<le> length l"
  shows "find_line_break (l @ cr # newline # x) off = length l + 1"
proof -
  obtain xs ys where l: "l = xs @ ys" "off = length xs"
    using assms(2) by (metis append_take_drop_id length_take min_absorb2)
  then have "newline \<notin> set (ys @ [cr])" using assms(1) by simp
  from find_line_break_append [OF this, of xs x] show ?thesis by (simp add: l)
qed

lemma append_longer: "p @ q = w @ x \<Longrightarrow> length w \<le> length p \<Longrightarrow> \<exists>y. p = w @ y \<and> y @ q = x"
  by (auto simp: append_eq_append_conv2)

text \<open>What has arrived of a line ends before its line break, or has all of it.\<close>

lemma line_arrived:
  assumes "p @ q = l @ cr # newline # x" "newline \<notin> set l" "off \<le> length l"
  shows "find_line_break p off = length p \<and> length p < length l + 2 \<or>
    (\<exists>y. p = l @ cr # newline # y \<and> y @ q = x \<and> find_line_break p off = length l + 1)"
proof (cases "length p < length l + 2")
  case True
  have "find_line_break p off = length p"
  proof (rule ccontr)
    assume "find_line_break p off \<noteq> length p"
    then have "find_line_break p off < length p" using scan_le [of _ p off] unfolding find_line_break_def by (metis le_neq_implies_less)
    moreover from this have "find_line_break (p @ q) off = find_line_break p off" unfolding find_line_break_def by (rule scan_more)
    ultimately show False using True find_line_break_line [OF assms(2,3), of x] by (simp add: assms(1))
  qed
  then show ?thesis using True by simp
next
  case False
  then have "length (l @ crlf) \<le> length p" by simp
  moreover have "p @ q = (l @ crlf) @ x" using assms(1) by simp
  ultimately obtain y where y: "p = (l @ crlf) @ y" "y @ q = x" by (metis append_longer)
  then show ?thesis using find_line_break_line [OF assms(2,3), of y] by simp
qed

lemma find_blank_line_step:
  assumes "newline \<notin> set xs"
  shows "find_blank_line (pre @ xs @ newline # a # b # ys) (length pre) =
    (if a = cr \<and> b = newline then length pre + length xs + 2
     else find_blank_line (pre @ xs @ newline # a # b # ys) (length pre + length xs + 3))"
proof -
  let ?p = "pre @ xs @ newline # a # b # ys" and ?o = "length pre + length xs"
  note o = find_line_break_append [OF assms, of pre "a # b # ys"]
  have "?p ! (?o + 1) = a" "?p ! (?o + 2) = b" by (simp_all add: nth_append)
  then show ?thesis by (subst find_blank_line.simps) (simp add: Let_def o)
qed

lemma find_blank_line_lines:
  assumes "newline \<notin> set l" "\<forall>l \<in> set ls. newline \<notin> set l \<and> 2 \<le> length l"
  shows "find_blank_line (pre @ line_text l @ concat (map line_text ls) @ crlf @ rest) (length pre) =
    length (pre @ line_text l @ concat (map line_text ls)) + 1"
  using assms
proof (induction ls arbitrary: pre l)
  case Nil
  then have "newline \<notin> set (l @ [cr])" by simp
  from find_blank_line_step [OF this, of pre cr newline rest] show ?case by simp
next
  case (Cons m ls)
  let ?rest = "concat (map line_text ls) @ crlf @ rest"
  obtain a b m' where m: "m = a # b # m'" "a \<noteq> newline" "b \<noteq> newline"
    using Cons.prems(2) by (cases m; cases "tl m") auto
  let ?pre = "pre @ l @ crlf @ [a, b]"
  have "newline \<notin> set (l @ [cr])" using Cons.prems(1) by simp
  from find_blank_line_step [OF this, of pre a b "line_text m' @ ?rest"]
  have "find_blank_line (?pre @ line_text m' @ ?rest) (length pre) = find_blank_line (?pre @ line_text m' @ ?rest) (length ?pre)"
    using m(3) by (simp add: eval_nat_numeral)
  moreover have "newline \<notin> set m'" using Cons.prems(2) by (simp add: m(1))
  ultimately show ?case using Cons.IH [of m' ?pre] Cons.prems(2) by (simp add: m(1))
qed

lemma find_blank_line_part:
  assumes "find_blank_line (p @ q) 0 = e" "length p \<le> e"
  shows "find_blank_line p 0 = length p"
  using find_blank_line_more [of p 0 q] find_blank_line_le [of p 0] assms by linarith

text \<open>A field is a line.\<close>

lemma fields_text_lines: "fields_text hs = concat (map line_text (map (\<lambda>(k, v). k @ '': '' @ v) hs))"
  by (induction hs) (auto simp: fields_text_def field_text_def line_text_def)

lemma set_fields:
  assumes "names_differ (hd_headers h @ hs)" "\<forall>f \<in> set hs. field_ok f"
  shows "fold (\<lambda>(k, v). hd_set (trimmed k) (trimmed v)) hs h = h\<lparr>hd_headers := hd_headers h @ hs\<rparr>"
  using assms
proof (induction hs arbitrary: h)
  case (Cons f hs)
  obtain k v where f: "f = (k, v)" by (cases f)
  have ok: "trimmed k = k" "trimmed v = v" using Cons.prems(2) by (auto simp: f field_ok_def)
  have "\<forall>p \<in> set (hd_headers h). \<not> iequal (fst p) k"
    using Cons.prems(1) by (force simp: names_differ_def iequal_map f)
  then have "hd_set k v h = h\<lparr>hd_headers := hd_headers h @ [f]\<rparr>" by (simp add: hd_set_def set_field_new f)
  then show ?case using Cons ok by (simp add: f)
qed simp

definition reads_fields :: "(string \<Rightarrow> header_read) \<Rightarrow> string \<Rightarrow> field list \<Rightarrow> bool" where
  "reads_fields rd text hs \<longleftrightarrow> (\<forall>rest. rd (text @ rest) = Fields hs)"

definition parsed_header :: "field list \<Rightarrow> header" where
  "parsed_header hs =
    \<lparr>hd_headers = hs, hd_chunked = (get_transfer_encoding \<lparr>hd_headers = hs, hd_chunked = False\<rparr> = ''chunked'')\<rparr>"

lemma header_parse_lines:
  assumes "p = concat (map line_text ls) @ crlf" "ls \<noteq> []" "\<forall>l \<in> set ls. newline \<notin> set l \<and> 2 \<le> length l"
    and "reads_fields rd p hs" "names_differ hs" "\<forall>f \<in> set hs. field_ok f"
  shows "header_parse rd (p @ rest) hd_empty = (int (length p), parsed_header hs)"
    and "q @ q' = p @ rest \<Longrightarrow> length q < length p \<Longrightarrow> header_parse rd q h = (0, h)"
proof -
  obtain l ls' where ls: "ls = l # ls'" using assms(2) by (cases ls) auto
  have blank: "find_blank_line (p @ rest) 0 = length p - 1" for rest
    using find_blank_line_lines [of l ls' "[]" rest] assms(3) by (simp add: assms(1) ls)
  have len: "4 \<le> length p" using assms(3) by (simp add: assms(1) ls line_text_def)
  then have notend: "length p - 1 \<noteq> length (p @ rest)" for rest by simp
  have "fold (\<lambda>(k, v). hd_set (trimmed k) (trimmed v)) hs hd_empty = \<lparr>hd_headers = hs, hd_chunked = False\<rparr>"
    using set_fields [of hd_empty hs] assms(5,6) by (simp add: hd_empty_def)
  moreover have "rd (p @ rest) = Fields hs" using assms(4) by (simp add: reads_fields_def)
  ultimately show "header_parse rd (p @ rest) hd_empty = (int (length p), parsed_header hs)"
    using len notend [of rest] unfolding header_parse_def Let_def blank by (simp add: parsed_header_def)
  assume q: "q @ q' = p @ rest" "length q < length p"
  then have "find_blank_line q 0 = length q" using blank [of rest] by (intro find_blank_line_part [where q = q']) auto
  then show "header_parse rd q h = (0, h)" by (simp add: header_parse_def)
qed

section \<open>Chunks\<close>

definition chunk_text :: "string \<Rightarrow> string" where
  "chunk_text s = show_hex (length s) @ crlf @ s @ crlf"

definition chunks_text :: "string list \<Rightarrow> string" where
  "chunks_text cs = concat (map chunk_text cs) @ chunk_text []"

definition chunk_ok :: "string \<Rightarrow> bool" where
  "chunk_ok s \<longleftrightarrow> s \<noteq> [] \<and> int (length s) \<le> INT_MAX"

definition hex_val :: "nat \<Rightarrow> string \<Rightarrow> nat" where
  "hex_val n ds = foldl (\<lambda>n c. n * 16 + nat (hex_digit_from_char c)) n ds"

lemma hex_val_simps [simp]: "hex_val n [] = n" "hex_val n (c # cs) = hex_val (n * 16 + nat (hex_digit_from_char c)) cs"
  "hex_val n (xs @ ys) = hex_val (hex_val n xs) ys"
  by (simp_all add: hex_val_def)

lemma show_hex_digit_read: "d < 16 \<Longrightarrow> hex_digit_from_char (show_hex_digit d) = int d"
proof -
  assume d: "d < 16"
  show ?thesis
  proof (cases "d < 10")
    case True
    then have "(of_char (char_of (48 + d) :: char) :: nat) = 48 + d" by simp
    then have "(of_char (char_of (48 + d) :: char) :: int) = int (48 + d)" by (metis of_nat_of_char)
    then show ?thesis using True by (simp add: show_hex_digit.simps hex_digit_from_char_def Let_def)
  next
    case False
    then have "(of_char (char_of (87 + d) :: char) :: nat) = 87 + d" using d by simp
    then have "(of_char (char_of (87 + d) :: char) :: int) = int (87 + d)" by (metis of_nat_of_char)
    then show ?thesis using False d by (simp add: show_hex_digit.simps hex_digit_from_char_def Let_def)
  qed
qed

lemma show_hex_read: "hex_val 0 (show_hex n) = n \<and> (\<forall>c \<in> set (show_hex n). 0 \<le> hex_digit_from_char c) \<and> show_hex n \<noteq> []"
proof (induction n rule: show_hex.induct)
  case (1 n)
  show ?case
  proof (cases "n < 16")
    case True
    then show ?thesis by (simp add: show_hex.simps [of n] show_hex_digit_read)
  next
    case False
    have "n div 16 * 16 + n mod 16 = n" by simp
    then show ?thesis using 1 False by (simp add: show_hex.simps [of n] show_hex_digit_read del: div_mod_decomp)
  qed
qed

lemma hex_val_ge: "n \<le> hex_val n ds"
proof (induction ds arbitrary: n)
  case (Cons c ds)
  have "n \<le> n * 16 + nat (hex_digit_from_char c)" by simp
  also have "\<dots> \<le> hex_val \<dots> ds" by (rule Cons)
  finally show ?case by simp
qed simp

lemma chunk_len_digits:
  assumes "\<forall>c \<in> set ds. 0 \<le> hex_digit_from_char c" "hex_digit_from_char c < 0" "int (hex_val n ds) < LONG_MAX div 16"
  shows "chunk_len n (ds @ c # x) = Some (hex_val n ds)"
  using assms
proof (induction ds arbitrary: n)
  case (Cons d ds)
  have "n \<le> hex_val n (d # ds)" by (rule hex_val_ge)
  then have "\<not> LONG_MAX div 16 \<le> int n" using Cons.prems(3) by linarith
  then show ?case using Cons by (simp add: Let_def)
qed (simp add: Let_def)

lemma cr_no_digit: "hex_digit_from_char cr < 0"
  by (simp add: hex_digit_from_char_def)

lemma newline_no_digit: "hex_digit_from_char newline < 0"
  by (simp add: hex_digit_from_char_def)

lemma chunk_len_show: "int n \<le> INT_MAX \<Longrightarrow> chunk_len 0 (show_hex n @ cr # x) = Some n"
  using chunk_len_digits [of "show_hex n" cr 0 x] show_hex_read [of n] by (simp add: cr_no_digit)

lemma digit_no_break: "0 \<le> hex_digit_from_char c \<Longrightarrow> c \<noteq> cr \<and> c \<noteq> newline"
  using cr_no_digit newline_no_digit by auto

lemma find_line_break_chunk: "find_line_break (show_hex n @ cr # newline # x) 0 = length (show_hex n) + 1"
  using show_hex_read [of n] digit_no_break by (intro find_line_break_line) auto

lemma chunk_line_part:
  assumes "p @ q = show_hex n @ cr # newline # x"
  shows "find_line_break p 0 = length p \<and> length p < length (show_hex n) + 2 \<or>
    (\<exists>y. p = show_hex n @ cr # newline # y \<and> y @ q = x)"
proof -
  have "newline \<notin> set (show_hex n)" using show_hex_read [of n] digit_no_break by auto
  from line_arrived [OF assms this, of 0] show ?thesis by blast
qed

lemma read_chunks_complete:
  assumes wr: "\<And>x b. wr x (F b) = (int (length x), F (b @ x))" and s: "chunk_ok s"
    and p: "p = [] \<or> hd p \<noteq> cr \<and> hd p \<noteq> newline"
  shows "read_chunks wr (chunk_text s @ p) sz (F b) = read_chunks wr p (sz + length s) (F (b @ s))"
proof -
  let ?l = "length (show_hex (length s))"
  obtain t where t: "t = chunk_text s @ p" by simp
  have c: "t = show_hex (length s) @ cr # newline # s @ cr # newline # p" by (simp add: chunk_text_def t)
  have brk: "find_line_break t 0 = ?l + 1" unfolding c by (rule find_line_break_chunk)
  have len: "chunk_len 0 t = Some (length s)" unfolding c using s by (intro chunk_len_show) (simp add: chunk_ok_def)
  have skip: "skip_crlf (cr # newline # p) 0 = 2"
    using p scan_append [of "[cr, newline]" "\<lambda>c. c \<noteq> cr \<and> c \<noteq> newline" "hd p" "[]" "tl p"]
      scan_none [of "[cr, newline]" "\<lambda>c. c \<noteq> cr \<and> c \<noteq> newline" "[]"]
    by (cases p) (auto simp: skip_crlf_def)
  have ds: "drop (?l + 1 + 1) t = s @ cr # newline # p" by (simp add: c)
  have room: "\<not> length t - (?l + 1 + 1) < length s + 2" "?l + 1 \<noteq> length t" "0 < length s" "t \<noteq> []"
    using s by (auto simp: c chunk_ok_def)
  have "read_chunks wr t sz (F b) = read_chunks wr p (sz + length s) (F (b @ s))"
    unfolding read_chunks.simps [of wr t] Let_def brk len ds if_not_P [OF room(1)] if_not_P [OF room(2)] if_not_P [OF room(4)] option.case
    using room(3) by (simp add: wr skip)
  then show ?thesis by (simp add: t)
qed

lemma read_chunks_incomplete:
  assumes "p @ q = chunk_text s @ x" "chunk_ok s" "length p < length (chunk_text s)"
  shows "read_chunks wr p sz out = (Waiting, p, sz, out)"
proof -
  have "p @ q = show_hex (length s) @ cr # newline # s @ cr # newline # x" using assms(1) by (simp add: chunk_text_def)
  from chunk_line_part [OF this] show ?thesis
  proof
    assume "find_line_break p 0 = length p \<and> length p < length (show_hex (length s)) + 2"
    then show ?thesis by (subst read_chunks.simps) (simp add: Let_def)
  next
    assume "\<exists>y. p = show_hex (length s) @ cr # newline # y \<and> y @ q = s @ cr # newline # x"
    then obtain y where y: "p = show_hex (length s) @ cr # newline # y" by blast
    have brk: "find_line_break p 0 = length (show_hex (length s)) + 1" unfolding y by (rule find_line_break_chunk)
    have len: "chunk_len 0 p = Some (length s)" unfolding y using assms(2) by (intro chunk_len_show) (simp add: chunk_ok_def)
    have "length p - (length (show_hex (length s)) + 1 + 1) < length s + 2" "0 < length s"
      using assms(2,3) by (simp_all add: chunk_text_def chunk_ok_def y)
    then show ?thesis by (subst read_chunks.simps) (simp add: Let_def brk len)
  qed
qed

lemma read_chunks_last:
  assumes "p @ q = chunk_text []"
  shows "read_chunks wr p sz out = (Waiting, p, sz, out) \<and> q \<noteq> [] \<or> read_chunks wr p sz out = (LastChunk, [], sz, out) \<and> length q \<le> 2"
proof -
  have hex: "show_hex 0 = ''0''" by code_simp
  have eq: "p @ q = show_hex 0 @ cr # newline # crlf" using assms by (simp add: chunk_text_def)
  from chunk_line_part [OF this] show ?thesis
  proof
    assume part: "find_line_break p 0 = length p \<and> length p < length (show_hex 0) + 2"
    have "length p + length q = 5" using arg_cong [OF assms, of length] by (simp add: chunk_text_def hex)
    then have "q \<noteq> []" using part by (auto simp: hex)
    moreover have "read_chunks wr p sz out = (Waiting, p, sz, out)" using part by (subst read_chunks.simps) (simp add: Let_def)
    ultimately show ?thesis by simp
  next
    assume "\<exists>y. p = show_hex 0 @ cr # newline # y \<and> y @ q = crlf"
    then obtain y where y: "p = show_hex 0 @ cr # newline # y" "y @ q = crlf" by blast
    have brk: "find_line_break p 0 = length (show_hex 0) + 1" unfolding y by (rule find_line_break_chunk)
    have len: "chunk_len 0 p = Some 0" unfolding y by (rule chunk_len_show) simp
    have "read_chunks wr p sz out = (LastChunk, [], sz, out)" by (subst read_chunks.simps) (simp add: Let_def brk len, simp add: y)
    moreover have "length q \<le> 2" using arg_cong [OF y(2), of length] by simp
    ultimately show ?thesis by simp
  qed
qed

lemma hd_chunk_text: "hd (chunk_text s @ x) \<noteq> cr \<and> hd (chunk_text s @ x) \<noteq> newline"
proof -
  obtain c cs where "show_hex (length s) = c # cs" using show_hex_read [of "length s"] by (cases "show_hex (length s)") auto
  then show ?thesis using show_hex_read [of "length s"] digit_no_break [of c] by (simp add: chunk_text_def)
qed

lemma hd_chunks_text: "hd (chunks_text cs) \<noteq> cr \<and> hd (chunks_text cs) \<noteq> newline"
  using hd_chunk_text [of "[]" "[]"] hd_chunk_text [of "hd cs" "chunks_text (tl cs)"] by (cases cs) (simp_all add: chunks_text_def)

lemma prefix_hd: "p @ q = x \<Longrightarrow> p = [] \<or> hd p = hd x"
  by (cases p) auto

text \<open>The chunks that have arrived are taken, and nothing is lost of the next one.\<close>

lemma read_chunks_arrived:
  assumes wr: "\<And>x b. wr x (F b) = (int (length x), F (b @ x))"
    and "p @ q = chunks_text cs" "\<forall>s \<in> set cs. chunk_ok s"
  shows "\<exists>cs1 cs2 p'. cs = cs1 @ cs2 \<and>
    (read_chunks wr p sz (F b) = (Waiting, p', sz + length (concat cs1), F (b @ concat cs1)) \<and> p' @ q = chunks_text cs2 \<and> q \<noteq> [] \<or>
     read_chunks wr p sz (F b) = (LastChunk, [], sz + length (concat cs1), F (b @ concat cs1)) \<and> cs2 = [] \<and> length q \<le> 2)"
  using assms(2,3)
proof (induction cs arbitrary: p sz b)
  case Nil
  then show ?case using read_chunks_last [of p q wr sz "F b"] by (auto simp: chunks_text_def)
next
  case (Cons s cs)
  have eq: "p @ q = chunk_text s @ chunks_text cs" using Cons.prems(1) by (simp add: chunks_text_def)
  have s: "chunk_ok s" using Cons.prems(2) by simp
  show ?case
  proof (cases "length p < length (chunk_text s)")
    case True
    then have "q \<noteq> []" using arg_cong [OF eq, of length] by auto
    then show ?thesis using read_chunks_incomplete [OF eq s True] Cons.prems(1)
      by (intro exI [of _ "[]"] exI [of _ "s # cs"] exI [of _ p]) simp
  next
    case False
    define p1 where "p1 = drop (length (chunk_text s)) p"
    have p: "p = chunk_text s @ p1" using arg_cong [OF eq, of "take (length (chunk_text s))"] False
      unfolding p1_def by (simp, metis append_take_drop_id)
    then have eq1: "p1 @ q = chunks_text cs" using eq by simp
    have "p1 = [] \<or> hd p1 \<noteq> cr \<and> hd p1 \<noteq> newline"
      using prefix_hd [OF eq1] hd_chunks_text [of cs] by metis
    then have step: "read_chunks wr p sz (F b) = read_chunks wr p1 (sz + length s) (F (b @ s))"
      unfolding p by (rule read_chunks_complete [OF wr s])
    have "\<forall>s \<in> set cs. chunk_ok s" using Cons.prems(2) by simp
    from Cons.IH [OF eq1 this, of "sz + length s" "b @ s"] obtain cs1 cs2 p' where "cs = cs1 @ cs2"
      "read_chunks wr p1 (sz + length s) (F (b @ s)) = (Waiting, p', sz + length s + length (concat cs1), F ((b @ s) @ concat cs1)) \<and>
        p' @ q = chunks_text cs2 \<and> q \<noteq> [] \<or>
       read_chunks wr p1 (sz + length s) (F (b @ s)) = (LastChunk, [], sz + length s + length (concat cs1), F ((b @ s) @ concat cs1)) \<and>
        cs2 = [] \<and> length q \<le> 2" by blast
    then show ?thesis by (intro exI [of _ "s # cs1"] exI [of _ cs2] exI [of _ p']) (simp add: step add.assoc)
  qed
qed

section \<open>Status lines\<close>

definition status_text :: "nat \<Rightarrow> string \<Rightarrow> string" where
  "status_text code reason = ''HTTP/1.1 '' @ show_nat code @ '' '' @ reason"

definition reason_ok :: "string \<Rightarrow> bool" where
  "reason_ok r \<longleftrightarrow> r \<noteq> [] \<and> \<not> is_whitespace (hd r) \<and> newline \<notin> set r"

lemma reason_phrases_ok: "reason_ok (get_reason_phrase_for_code code)"
proof -
  have "\<forall>r \<in> snd ` set reason_phrases. reason_ok r"
    by (simp add: reason_phrases_def reason_ok_def is_whitespace_def)
  moreover have "reason_ok ''Unknown''" by (simp add: reason_ok_def is_whitespace_def)
  ultimately show ?thesis
    by (auto simp: get_reason_phrase_for_code_def dest!: map_of_SomeD split: option.split)
qed

lemma status_code_digits:
  assumes "100 \<le> n" "n \<le> 599"
  obtains a b c where "show_nat n = [a, b, c]" "is_digit a" "is_digit b" "is_digit c"
    "int n = digit_val a * 100 + digit_val b * 10 + digit_val c"
proof -
  have "n div 100 < 10" "\<not> n div 10 < 10" "\<not> n < 10" using assms by auto
  then have eq: "show_nat n = [digit_char (n div 100), digit_char (n div 10 mod 10), digit_char (n mod 10)]"
    by (simp add: show_nat.simps [of n] show_nat.simps [of "n div 10"] show_nat.simps [of "n div 100"] div_mult2_eq [symmetric])
  have "n div 100 < 10" using assms by simp
  moreover have "n div 10 * 10 + n mod 10 = n" "n div 100 * 10 + n div 10 mod 10 = n div 10"
    using div_mult_mod_eq [of "n div 10" 10] by (simp_all add: div_mult2_eq [symmetric])
  then have "n = n div 100 * 100 + n div 10 mod 10 * 10 + n mod 10" by linarith
  then have "int n = int (n div 100) * 100 + int (n div 10 mod 10) * 10 + int (n mod 10)" by linarith
  moreover have "is_digit (digit_char d) \<and> digit_val (digit_char d) = int d" if "d < 10" for d
    using is_digit_digit_char [OF that] digit_val_digit_char [OF that] by blast
  ultimately show thesis using that [OF eq] by simp
qed

lemma safe_atoi_code:
  assumes "is_digit a" "is_digit b" "is_digit c"
  shows "safe_atoi (a # b # c # CHR '' '' # y) = digit_val a * 100 + digit_val b * 10 + digit_val c"
proof -
  have "\<not> is_space a" "a \<noteq> CHR ''-''" "a \<noteq> CHR ''+''" using assms(1) digit_not_space by auto
  moreover have "digit_val a \<le> 9" "digit_val b \<le> 9" "digit_val c \<le> 9" using assms digit_val_bounds by auto
  ultimately show ?thesis using assms by (simp add: safe_atoi_def Let_def)
qed

lemma digit_no_whitespace: "is_digit c \<Longrightarrow> \<not> is_whitespace c"
  by (auto simp: is_whitespace_def is_digit_def)

lemma status_line_parse_reason:
  assumes "is_digit a" "is_digit b" "is_digit c" "int n = digit_val a * 100 + digit_val b * 10 + digit_val c" "100 \<le> n" "n \<le> 599"
    and "2 \<le> length y" "\<not> is_whitespace (hd y)" "p = ''HTTP/1.1 '' @ [a, b, c] @ '' '' @ y"
  shows "status_line_parse p st =
    (let off = find_line_break p 13;
         st = \<lparr>st_httpVersion = ''HTTP/1.1'', st_versionMajor = 1, st_versionMinor = 1, st_statusCode = n, st_reasonPhrase = st_reasonPhrase st\<rparr>
     in if off \<ge> length p then Ok (Incomplete, length p, st)
        else Ok (Valid, skip_crlf p off, if off > 14 then st\<lparr>st_reasonPhrase := substr p 13 (off - 14)\<rparr> else st))"
proof -
  obtain d y' where y: "y = d # y'" "\<not> is_whitespace d" using assms(7,8) by (cases y) auto
  have p: "p = CHR ''H'' # CHR ''T'' # CHR ''T'' # CHR ''P'' # CHR ''/'' # CHR ''1'' # CHR ''.'' # CHR ''1'' # CHR '' '' # a # b # c # CHR '' '' # d # y'"
    using assms(9) by (simp add: y)
  have len: "15 \<le> length p" using assms(7) by (simp add: p y)
  have s0: "skip_space_and_tab p 0 = 0" by (simp add: p skip_space_and_tab_def scan_def is_whitespace_def)
  have s8: "skip_space_and_tab p 8 = 9"
    using digit_no_whitespace [OF assms(1)] by (simp add: p skip_space_and_tab_def scan_def is_whitespace_def)
  have s12: "skip_space_and_tab p 12 = 13" using y(2) by (simp add: p skip_space_and_tab_def scan_def is_whitespace_def)
  have ver: "valid_version p 0" "substr p 0 8 = ''HTTP/1.1''" "p ! 5 = CHR ''1''" "p ! 7 = CHR ''1''" "p ! 9 = a"
    by (simp_all add: p valid_version_def starts_with_def is_digit_def is_whitespace_def substr_def)
  have code: "nat (safe_atoi (drop 9 p)) = n" using safe_atoi_code [OF assms(1-3)] assms(4) by (simp add: p)
  have one: "nat (digit_val (CHR ''1'')) = 1" by (simp add: digit_val_def)
  have stop: "reason_end p (find_line_break p 13) = Some (find_line_break p 13)" if "find_line_break p 13 < length p"
  proof -
    have "p ! find_line_break p 13 = newline" using scan_found [of "\<lambda>c. c = newline" p 13] that by (simp add: find_line_break_def)
    then have "drop (find_line_break p 13) p = newline # drop (Suc (find_line_break p 13)) p" using that Cons_nth_drop_Suc by metis
    then show ?thesis using that by (simp add: reason_end_def Let_def scan_def)
  qed
  have nat_sub: "nat (int x - 14) = x - 14" for x by simp
  have room: "\<not> length p - 9 < 6" using len by simp
  have all: "st\<lparr>st_httpVersion := v, st_versionMajor := i, st_versionMinor := j, st_statusCode := k\<rparr> =
    \<lparr>st_httpVersion = v, st_versionMajor = i, st_versionMinor = j, st_statusCode = k, st_reasonPhrase = st_reasonPhrase st\<rparr>" for v i j k
    by simp
  show ?thesis
    using len assms(5,6) stop unfolding status_line_parse_def Let_def s0 min_status_line_len_def max_status_line_len_def
    by (simp add: s8 s12 ver code one assms(1) nat_sub room all)
qed

lemma status_line_arrived:
  assumes "p @ q = line_text (status_text code reason) @ rest" "100 \<le> code" "code \<le> 599" "reason_ok reason"
  shows "(\<exists>n st'. status_line_parse p st = Ok (Incomplete, n, st')) \<and> length p < length (line_text (status_text code reason)) \<or>
    (\<exists>n > 0. status_line_parse p st =
      Ok (Valid, n, \<lparr>st_httpVersion = ''HTTP/1.1'', st_versionMajor = 1, st_versionMinor = 1, st_statusCode = code, st_reasonPhrase = reason\<rparr>))"
proof -
  obtain a b c where code: "show_nat code = [a, b, c]" "is_digit a" "is_digit b" "is_digit c"
    "int code = digit_val a * 100 + digit_val b * 10 + digit_val c"
    using status_code_digits [OF assms(2,3)] by metis
  let ?pre = "''HTTP/1.1 '' @ [a, b, c] @ '' ''"
  obtain d r where reason: "reason = d # r" "\<not> is_whitespace d" "newline \<notin> set (d # r)"
    using assms(4) by (cases reason) (auto simp: reason_ok_def)
  have full: "p @ q = ?pre @ d # r @ cr # newline # rest"
    using assms(1) by (simp add: status_text_def code(1) reason(1))
  have len: "length (status_text code reason) = length r + 14" by (simp add: status_text_def code(1) reason(1))
  show ?thesis
  proof (cases "length p < 15")
    case True
    have "\<exists>n st'. status_line_parse p st = Ok (Incomplete, n, st')"
    proof (cases "length p < 14")
      case True
      then show ?thesis by (simp add: status_line_parse_def min_status_line_len_def)
    next
      case False
      then have "p = ?pre @ [d]" using arg_cong [OF full, of "take 14"] True by (simp add: eval_nat_numeral le_Suc_eq not_less)
      then show ?thesis using digit_no_whitespace [OF code(2)]
        by (simp add: status_line_parse_def min_status_line_len_def max_status_line_len_def Let_def skip_space_and_tab_def scan_def
          valid_version_def starts_with_def is_digit_def is_whitespace_def)
    qed
    then show ?thesis using True by (simp add: len)
  next
    case False
    define y where "y = drop 13 p"
    have "take 13 p = ?pre" using arg_cong [OF full, of "take 13"] False by (simp add: eval_nat_numeral)
    then have p: "p = ?pre @ y" unfolding y_def by (metis append_take_drop_id)
    then have yq: "y @ q = d # r @ cr # newline # rest" using full by simp
    have long: "2 \<le> length y" using False by (simp add: y_def)
    then have "hd y = d" using yq by (cases y) auto
    then have y: "2 \<le> length y" "\<not> is_whitespace (hd y)" using long reason(2) by simp_all
    note parse = status_line_parse_reason [OF code(2-5) assms(2,3) y, of p st, unfolded append_assoc, OF p [unfolded append_assoc]]
    let ?l = "?pre @ d # r" and ?brk = "find_line_break p 13"
    have nl: "newline \<notin> set ?l" using reason(3) code(2-4) digit_no_whitespace not_digit_newline by auto
    have "p @ q = ?l @ cr # newline # rest" using full by simp
    moreover have "13 \<le> length ?l" by simp
    ultimately have "?brk = length p \<and> length p < length ?l + 2 \<or>
      (\<exists>z. p = ?l @ cr # newline # z \<and> z @ q = rest \<and> ?brk = length ?l + 1)" using nl by (intro line_arrived)
    then show ?thesis
    proof (elim disjE exE conjE)
      assume "?brk = length p" "length p < length ?l + 2"
      then show ?thesis using parse by (simp add: len Let_def)
    next
      fix z
      assume z: "p = ?l @ cr # newline # z" "?brk = length ?l + 1"
      have "substr p 13 (length ?l + 1 - 14) = reason" by (simp add: z(1) substr_def reason(1))
      then have sub: "substr p 13 (?brk - 14) = reason" unfolding z(2) .
      have less: "?brk < length p" unfolding z(2) by (simp add: z(1))
      then have "?brk \<le> skip_crlf p ?brk" using scan_ge [of ?brk p] by (simp add: skip_crlf_def)
      then have "0 < skip_crlf p ?brk" using z(2) by simp
      moreover have "status_line_parse p st = Ok (Valid, skip_crlf p ?brk,
        \<lparr>st_httpVersion = ''HTTP/1.1'', st_versionMajor = 1, st_versionMinor = 1, st_statusCode = code, st_reasonPhrase = reason\<rparr>)"
        using parse less sub z(2) by (simp add: Let_def)
      ultimately show ?thesis by blast
    qed
  qed
qed

section \<open>What is written\<close>

lemma put_push: "int (length s) \<le> INT_MAX \<Longrightarrow> buf_put s b = Ok (buf_push s b)"
  by (simp add: buf_put_def buf_append_push)

lemma puts_push:
  assumes "\<forall>s \<in> set ss. int (length s) \<le> INT_MAX"
  shows "res_fold buf_put ss b = Ok (buf_push (concat ss) b)"
  using assms by (induction ss arbitrary: b) (simp_all add: put_push)

lemma header_write_push:
  assumes "int (length (fields_text (hd_headers h))) \<le> INT_MAX"
  shows "header_write h b = Ok (buf_push (fields_text (hd_headers h)) b)"
proof -
  have "res_fold (\<lambda>(key, val). res_fold buf_put [key, '': '', val, crlf]) hs b = Ok (buf_push (fields_text hs) b)"
    if "int (length (fields_text hs)) \<le> INT_MAX" for hs b
    using that
  proof (induction hs arbitrary: b)
    case (Cons f hs)
    obtain k v where f: "f = (k, v)" by (cases f)
    have small: "int (length k) \<le> INT_MAX" "int (length v) \<le> INT_MAX" "int (length (fields_text hs)) \<le> INT_MAX"
      using Cons.prems by (auto simp: fields_text_def field_text_def f)
    then have "res_fold buf_put [k, '': '', v, crlf] b = Ok (buf_push (field_text f) b)"
      by (subst puts_push) (simp_all add: field_text_def f)
    then show ?case using Cons.IH [OF small(3)] by (simp add: f fields_text_def del: res_fold.simps(2)) (simp add: fields_text_def)
  qed (simp add: fields_text_def)
  then show ?thesis using assms by (simp add: header_write_def)
qed

end
