(* ===== verification/HttpStreams.thy ===== *)
theory HttpStreams
  imports HttpProps
begin

text \<open>
  Responses as they arrive: \<open>http::Session::handleIncomingMessage\<close> of src/net/HttpRequest.hpp gives the bytes of the socket
  to the response and removes what it consumed. A response that is cut up anywhere is parsed like a whole one.
\<close>

section \<open>The session\<close>

text \<open>Bytes arrive; the result is whether the socket stays connected, the response and the buffer.\<close>

definition session_incoming :: "(string \<Rightarrow> header_read) \<Rightarrow> (string \<Rightarrow> 'o \<Rightarrow> int \<times> 'o) \<Rightarrow> string \<Rightarrow>
    bool \<times> 'o response \<times> char buffer \<Rightarrow> (bool \<times> 'o response \<times> char buffer) res" where
  "session_incoming rd wr bytes = (\<lambda>(connected, r, b).
    if \<not> connected then Ok (connected, r, b)
    else
      let b = buf_push bytes b
      in if buf_is_empty b then Ok (True, r, b)
         else res_bind (response_read rd wr (buf_view b) r) (\<lambda>(n, r).
           if n \<ge> 0 then
             (if n \<noteq> 0 then res_bind (buf_erase_first (nat n) b) (\<lambda>b. Ok (True, r, b)) else Ok (True, r, b))
           else Ok (False, response_error r, b)))"

section \<open>The message\<close>

datatype message_body = Whole string | Chunked "string list"

fun body_bytes :: "message_body \<Rightarrow> string" where
  "body_bytes (Whole s) = s"
| "body_bytes (Chunked cs) = chunks_text cs"

fun body_payload :: "message_body \<Rightarrow> string" where
  "body_payload (Whole s) = s"
| "body_payload (Chunked cs) = concat cs"

text \<open>The header goes with the body.\<close>

fun header_fits :: "header \<Rightarrow> message_body \<Rightarrow> bool" where
  "header_fits h (Whole s) \<longleftrightarrow> hd_has content_length h \<and> get_content_length h = int (length s) \<and> get_transfer_encoding h = []"
| "header_fits h (Chunked cs) \<longleftrightarrow> \<not> hd_has content_length h \<and> get_transfer_encoding h = ''chunked'' \<and> (\<forall>s \<in> set cs. chunk_ok s)"

definition header_lines :: "nat \<Rightarrow> string \<Rightarrow> field list \<Rightarrow> string" where
  "header_lines code reason hs = line_text (status_text code reason) @ fields_text hs @ crlf"

definition response_ok :: "(string \<Rightarrow> header_read) \<Rightarrow> nat \<Rightarrow> string \<Rightarrow> field list \<Rightarrow> message_body \<Rightarrow> bool" where
  "response_ok rd code reason hs bd \<longleftrightarrow>
    200 \<le> code \<and> code \<le> 599 \<and> code \<noteq> 204 \<and> code \<noteq> 304 \<and> reason_ok reason \<and> names_differ hs \<and> (\<forall>f \<in> set hs. field_ok f) \<and>
    reads_fields rd (header_lines code reason hs) hs \<and> header_fits (parsed_header hs) bd"

definition parsed_status :: "nat \<Rightarrow> string \<Rightarrow> status_line" where
  "parsed_status code reason =
    \<lparr>st_httpVersion = ''HTTP/1.1'', st_versionMajor = 1, st_versionMinor = 1, st_statusCode = code, st_reasonPhrase = reason\<rparr>"

section \<open>What has been parsed\<close>

definition body_so_far :: "message_body \<Rightarrow> string \<Rightarrow> 'o response \<Rightarrow> bool" where
  "body_so_far bd left r \<longleftrightarrow> rs_inMemory r \<and> rs_recvBodySize r = length (rs_body r) \<and>
    (case bd of Whole s \<Rightarrow> rs_body r @ left = s
     | Chunked cs \<Rightarrow> \<exists>cs1 cs2. cs = cs1 @ cs2 \<and> rs_body r = concat cs1 \<and> left = chunks_text cs2)"

definition untouched :: "'o response \<Rightarrow> bool" where
  "untouched r \<longleftrightarrow> rs_header r = hd_empty \<and> rs_inMemory r \<and> rs_recvBodySize r = 0 \<and> rs_body r = []"

definition parsed_head :: "nat \<Rightarrow> string \<Rightarrow> field list \<Rightarrow> 'o response \<Rightarrow> bool" where
  "parsed_head code reason hs r \<longleftrightarrow> rs_statusLine r = parsed_status code reason \<and> rs_header r = parsed_header hs"

text \<open>The response when the bytes \<open>left\<close> are not consumed yet\<close>

fun response_at :: "nat \<Rightarrow> string \<Rightarrow> field list \<Rightarrow> message_body \<Rightarrow> string \<Rightarrow> 'o response \<Rightarrow> parser_stage \<Rightarrow> bool" where
  "response_at code reason hs bd left r StatusLineStage \<longleftrightarrow> untouched r \<and> left = header_lines code reason hs @ body_bytes bd"
| "response_at code reason hs bd left r ResponseHeader \<longleftrightarrow>
    untouched r \<and> rs_statusLine r = parsed_status code reason \<and> left = header_lines code reason hs @ body_bytes bd"
| "response_at code reason hs bd left r ResponseBody \<longleftrightarrow> parsed_head code reason hs r \<and> body_so_far bd left r \<and> left \<noteq> []"
| "response_at code reason hs bd left r ResponseFinished \<longleftrightarrow>
    parsed_head code reason hs r \<and> rs_body r = body_payload bd \<and> rs_state r = CompleteResponse \<and> length left \<le> 2"

section \<open>The body\<close>

lemma on_body_write_memory: "on_body_write wr x (True, b, out) = (int (length x), True, b @ x, out)"
  by (simp add: on_body_write_def save_to_memory_def)

lemma body_arrived:
  assumes "rs_header r = h" "header_fits h bd" "hd_chunked h = (get_transfer_encoding h = ''chunked'')" "body_so_far bd (p @ q) r" "p \<noteq> []"
    "rs_parserStage r = ResponseBody"
  shows "\<exists>n r'. read_response_body wr p r = (Inr n, r') \<and> n \<le> length p \<and> rs_header r' = h \<and> rs_statusLine r' = rs_statusLine r \<and>
    rs_state r' = rs_state r \<and>
    (rs_parserStage r' = ResponseBody \<and> body_so_far bd (drop n p @ q) r' \<and> q \<noteq> [] \<or>
     rs_parserStage r' = ResponseFinished \<and> rs_body r' = body_payload bd \<and> n = length p \<and> length q \<le> 2)"
proof (cases bd)
  case (Whole s)
  have mem: "rs_inMemory r" "rs_recvBodySize r = length (rs_body r)" "rs_body r @ p @ q = s"
    using assms(4) by (auto simp: body_so_far_def Whole)
  have h: "\<not> hd_chunked h" "hd_has content_length h" "get_content_length h = int (length s)"
    using assms(2,3) by (simp_all add: Whole)
  let ?r = "r\<lparr>rs_body := rs_body r @ p, rs_recvBodySize := length (rs_body r) + length p\<rparr>"
  have read: "read_response_body wr p r = (Inr (length p), if q = [] then ?r\<lparr>rs_parserStage := ResponseFinished\<rparr> else ?r)"
    using assms(1,5) h mem by (auto simp: read_response_body_def Let_def on_body_write_memory set_body_out_def)
  show ?thesis
    using read assms(1,6) mem by (cases "q = []") (auto simp: body_so_far_def Whole)
next
  case (Chunked cs)
  obtain cs1 cs2 where cs: "cs = cs1 @ cs2" "rs_body r = concat cs1" "p @ q = chunks_text cs2" and mem: "rs_inMemory r"
    "rs_recvBodySize r = length (rs_body r)" using assms(4) by (auto simp: body_so_far_def Chunked)
  have h: "hd_chunked h" "\<forall>s \<in> set cs2. chunk_ok s" using assms(2,3) by (simp_all add: Chunked cs(1))
  let ?F = "\<lambda>b. (True, b, rs_out r)"
  have wr: "on_body_write wr x (?F b) = (int (length x), ?F (b @ x))" for x b by (rule on_body_write_memory)
  from read_chunks_arrived [of "on_body_write wr" ?F, OF wr cs(3) h(2), of "rs_recvBodySize r" "rs_body r"]
  obtain cs3 cs4 p' where cs2: "cs2 = cs3 @ cs4" and res:
    "read_chunks (on_body_write wr) p (rs_recvBodySize r) (?F (rs_body r)) =
       (Waiting, p', rs_recvBodySize r + length (concat cs3), ?F (rs_body r @ concat cs3)) \<and> p' @ q = chunks_text cs4 \<and> q \<noteq> [] \<or>
     read_chunks (on_body_write wr) p (rs_recvBodySize r) (?F (rs_body r)) =
       (LastChunk, [], rs_recvBodySize r + length (concat cs3), ?F (rs_body r @ concat cs3)) \<and> cs4 = [] \<and> length q \<le> 2" by blast
  let ?r = "r\<lparr>rs_body := rs_body r @ concat cs3, rs_recvBodySize := length (rs_body r) + length (concat cs3)\<rparr>"
  from res show ?thesis
  proof
    assume wait: "read_chunks (on_body_write wr) p (rs_recvBodySize r) (?F (rs_body r)) =
       (Waiting, p', rs_recvBodySize r + length (concat cs3), ?F (rs_body r @ concat cs3)) \<and> p' @ q = chunks_text cs4 \<and> q \<noteq> []"
    have "chunks_text cs2 = concat (map chunk_text cs3) @ chunks_text cs4" by (simp add: chunks_text_def cs2)
    then have eq: "p = concat (map chunk_text cs3) @ p'" using wait cs(3) by (metis append_assoc append_same_eq)
    then have left: "drop (length p - length p') p = p'" by simp
    have "read_response_body wr p r = (Inr (length p - length p'), ?r)"
      using assms(1) h(1) mem wait by (simp add: read_response_body_def Let_def set_body_out_def)
    moreover have "\<exists>as bs. cs1 @ cs3 @ cs4 = as @ bs \<and> concat cs1 @ concat cs3 = concat as \<and> chunks_text cs4 = chunks_text bs"
      by (intro exI [of _ "cs1 @ cs3"] exI [of _ cs4]) simp
    ultimately show ?thesis using assms(1,6) mem wait left cs(1,2) cs2
      by (intro exI [of _ "length p - length p'"] exI [of _ ?r]) (simp add: body_so_far_def Chunked)
  next
    assume fin: "read_chunks (on_body_write wr) p (rs_recvBodySize r) (?F (rs_body r)) =
       (LastChunk, [], rs_recvBodySize r + length (concat cs3), ?F (rs_body r @ concat cs3)) \<and> cs4 = [] \<and> length q \<le> 2"
    then have "read_response_body wr p r = (Inr (length p), ?r\<lparr>rs_parserStage := ResponseFinished\<rparr>)"
      using assms(1) h(1) mem by (simp add: read_response_body_def Let_def set_body_out_def)
    then show ?thesis using assms(1) fin cs(1,2) cs2
      by (intro exI [of _ "length p"] exI [of _ "?r\<lparr>rs_parserStage := ResponseFinished\<rparr>"]) (auto simp: Chunked)
  qed
qed

section \<open>Each call\<close>

lemma chunks_text_nonempty: "chunks_text cs \<noteq> []"
  by (simp add: chunks_text_def chunk_text_def)

text \<open>What remains to be shown of a call: it consumes part of what is there, and the end is reached when all has arrived.\<close>

definition call_ok :: "nat \<Rightarrow> string \<Rightarrow> field list \<Rightarrow> message_body \<Rightarrow> string \<Rightarrow> string \<Rightarrow> int \<times> 'o response \<Rightarrow> bool" where
  "call_ok code reason hs bd p q res \<longleftrightarrow>
    (case res of (n, r) \<Rightarrow> 0 \<le> n \<and> n \<le> int (length p) \<and>
      response_at code reason hs bd (drop (nat n) p @ q) r (rs_parserStage r) \<and> (q = [] \<longrightarrow> rs_parserStage r = ResponseFinished))"

lemma complete_done: "rs_state r = IncompleteResponse \<Longrightarrow> rs_state (response_complete r) = CompleteResponse"
  and complete_same [simp]: "rs_parserStage (response_complete r) = rs_parserStage r" "rs_statusLine (response_complete r) = rs_statusLine r"
    "rs_header (response_complete r) = rs_header r" "rs_body (response_complete r) = rs_body r"
  by (simp_all add: response_complete_def response_finish_def response_done_def)

lemma call_body:
  assumes ok: "response_ok rd code reason hs bd" and at: "rs_parserStage r = ResponseBody" "parsed_head code reason hs r"
    "body_so_far bd (drop n p @ q) r" "drop n p @ q \<noteq> []" "rs_state r = IncompleteResponse" "n \<le> length p"
  shows "call_ok code reason hs bd p q (response_body_and_end wr p n r)"
proof (cases "drop n p = []")
  case True
  then show ?thesis using at by (simp add: response_body_and_end_def call_ok_def)
next
  case False
  have h: "rs_header r = parsed_header hs" "header_fits (parsed_header hs) bd"
    "hd_chunked (parsed_header hs) = (get_transfer_encoding (parsed_header hs) = ''chunked'')"
    using ok at(2) by (simp_all add: response_ok_def parsed_head_def parsed_header_def get_transfer_encoding_def hd_get_def hd_find_def)
  from body_arrived [OF h at(3) False at(1), of wr] obtain m r' where r': "read_response_body wr (drop n p) r = (Inr m, r')"
    "m \<le> length (drop n p)" "rs_header r' = parsed_header hs" "rs_statusLine r' = rs_statusLine r" "rs_state r' = rs_state r"
    "rs_parserStage r' = ResponseBody \<and> body_so_far bd (drop m (drop n p) @ q) r' \<and> q \<noteq> [] \<or>
     rs_parserStage r' = ResponseFinished \<and> rs_body r' = body_payload bd \<and> m = length (drop n p) \<and> length q \<le> 2" by blast
  have len: "n + m \<le> length p" "nat (int n + int m) = m + n" using r'(2) at(6) by simp_all
  have head: "parsed_head code reason hs r'" using at(2) r'(3,4) by (simp add: parsed_head_def)
  have res: "response_body_and_end wr p n r = (int (n + m), if rs_parserStage r' = ResponseFinished then response_complete r' else r')"
    using at(1) False r'(1) by (simp add: response_body_and_end_def)
  from r'(6) show ?thesis
  proof
    assume "rs_parserStage r' = ResponseBody \<and> body_so_far bd (drop m (drop n p) @ q) r' \<and> q \<noteq> []"
    then show ?thesis using head len by (simp add: res call_ok_def)
  next
    assume "rs_parserStage r' = ResponseFinished \<and> rs_body r' = body_payload bd \<and> m = length (drop n p) \<and> length q \<le> 2"
    then show ?thesis using head len at(5,6) r'(5) by (simp add: res call_ok_def complete_done parsed_head_def)
  qed
qed

lemma header_lines_list:
  "header_lines code reason hs = concat (map line_text (status_text code reason # map (\<lambda>(k, v). k @ '': '' @ v) hs)) @ crlf"
  by (simp add: header_lines_def fields_text_lines)

lemma status_text_line:
  assumes "reason_ok reason"
  shows "newline \<notin> set (status_text code reason) \<and> 2 \<le> length (status_text code reason)"
  using assms show_nat_digits [of newline code] by (auto simp: status_text_def reason_ok_def)

lemma call_header:
  assumes ok: "response_ok rd code reason hs bd" and at: "rs_parserStage r = ResponseHeader" "untouched r"
    "rs_statusLine r = parsed_status code reason" "p @ q = header_lines code reason hs @ body_bytes bd" "rs_state r = IncompleteResponse" "p \<noteq> []"
  shows "call_ok code reason hs bd p q (case read_response_header rd p r of (Inl n, r) \<Rightarrow> (n, r) | (Inr n, r) \<Rightarrow> response_body_and_end wr p n r)"
proof -
  let ?h = "header_lines code reason hs"
  let ?ls = "status_text code reason # map (\<lambda>(k, v). k @ '': '' @ v) hs"
  have ls: "\<forall>l \<in> set ?ls. newline \<notin> set l \<and> 2 \<le> length l"
    using ok status_text_line by (auto simp: response_ok_def field_ok_def)
  have fields: "reads_fields rd ?h hs" "names_differ hs" "\<forall>f \<in> set hs. field_ok f" using ok by (simp_all add: response_ok_def)
  note parse = header_parse_lines [OF header_lines_list _ ls fields]
  have h: "rs_header r = hd_empty" using at(2) by (simp add: untouched_def)
  show ?thesis
  proof (cases "length p < length ?h")
    case True
    have "header_parse rd p hd_empty = (0, hd_empty)" by (rule parse(2) [OF _ at(4) True]) simp
    then have "read_response_header rd p r = (Inr 0, r)" using h by (simp add: read_response_header_def)
    moreover have "q \<noteq> []" using True arg_cong [OF at(4), of length] by auto
    ultimately show ?thesis using at by (simp add: response_body_and_end_def call_ok_def)
  next
    case False
    then obtain y where y: "p = ?h @ y" "y @ q = body_bytes bd" using append_longer [OF at(4)] by auto
    have parsed: "header_parse rd p hd_empty = (int (length ?h), parsed_header hs)"
      unfolding y(1) by (rule parse(1)) simp
    have pos: "0 < length ?h" by (simp add: header_lines_def)
    define r1 where "r1 = r\<lparr>rs_header := parsed_header hs, rs_parserStage := ResponseBody\<rparr>"
    have cat: "status_category (parsed_status code reason) \<noteq> Informational" "st_statusCode (parsed_status code reason) \<notin> {204, 304}"
      using ok by (auto simp: response_ok_def status_category_def parsed_status_def Let_def)
    have keep: "save_body_to_memory r1 = r1" using at(2) by (simp add: save_body_to_memory_def r1_def untouched_def)
    have fits: "header_fits (parsed_header hs) bd" using ok by (simp add: response_ok_def)
    have r1: "rs_statusLine r1 = parsed_status code reason" "rs_header r1 = parsed_header hs"
      "(r\<lparr>rs_header := parsed_header hs\<rparr>)\<lparr>rs_parserStage := ResponseBody\<rparr> = r1" using at(3) by (simp_all add: r1_def)
    have after: "after_header (r\<lparr>rs_header := parsed_header hs\<rparr>) =
      (True, if bd = Whole [] then r1\<lparr>rs_parserStage := ResponseFinished\<rparr> else r1)"
      unfolding after_header_def Let_def r1(3) r1(1,2) using cat keep fits r1(1,2) by (cases bd) auto
    have head: "parsed_head code reason hs r1" using at(3) by (simp add: parsed_head_def r1_def)
    have res: "read_response_header rd p r = (Inr (length ?h), if bd = Whole [] then r1\<lparr>rs_parserStage := ResponseFinished\<rparr> else r1)"
      using h parsed pos after by (simp add: read_response_header_def)
    show ?thesis
    proof (cases "bd = Whole []")
      case True
      then have "y = []" "q = []" using y(2) by simp_all
      then show ?thesis using True head at(2,5) y(1) res
        by (simp add: response_body_and_end_def call_ok_def complete_done parsed_head_def r1_def untouched_def)
    next
      case False
      have "body_so_far bd (body_bytes bd) r1"
      proof (cases bd)
        case (Whole s)
        then show ?thesis using at(2) by (simp add: body_so_far_def r1_def untouched_def)
      next
        case (Chunked cs)
        then show ?thesis using at(2) by (auto simp: body_so_far_def r1_def untouched_def intro: exI [of _ "[]"])
      qed
      moreover have "body_bytes bd \<noteq> []" using False chunks_text_nonempty by (cases bd) auto
      moreover have "rs_parserStage r1 = ResponseBody" "rs_state r1 = IncompleteResponse" using at(5) by (simp_all add: r1_def)
      ultimately have "call_ok code reason hs bd p q (response_body_and_end wr p (length ?h) r1)"
        using y by (intro call_body [OF ok _ head]) simp_all
      then show ?thesis using res False by simp
    qed
  qed
qed

lemma call_read:
  assumes ok: "response_ok rd code reason hs bd" and at: "response_at code reason hs bd (p @ q) r (rs_parserStage r)" and "p \<noteq> []"
  obtains res where "response_read rd wr p r = Ok res" "call_ok code reason hs bd p q res"
proof -
  define r0 where "r0 = r\<lparr>rs_state := IncompleteResponse\<rparr>"
  have r0: "rs_parserStage r0 = rs_parserStage r" "rs_state r0 = IncompleteResponse" "rs_statusLine r0 = rs_statusLine r"
    "untouched r0 = untouched r" "parsed_head code reason hs r0 = parsed_head code reason hs r" "body_so_far bd left r0 = body_so_far bd left r" for left
    by (simp_all add: r0_def untouched_def parsed_head_def body_so_far_def split: message_body.split)
  show thesis
  proof (cases "rs_parserStage r")
    case StatusLineStage
    then have at0: "untouched r" "p @ q = header_lines code reason hs @ body_bytes bd" using at by simp_all
    then have full: "p @ q = line_text (status_text code reason) @ (fields_text hs @ crlf @ body_bytes bd)"
      by (simp add: header_lines_def)
    have "100 \<le> code" "code \<le> 599" "reason_ok reason" using ok by (simp_all add: response_ok_def)
    from status_line_arrived [OF full this, of "rs_statusLine r"] show thesis
    proof (elim disjE conjE exE, goal_cases)
      case (1 n st')
      let ?r = "r0\<lparr>rs_statusLine := st'\<rparr>"
      have "response_read rd wr p r = Ok (0, ?r)"
        using 1 StatusLineStage by (simp add: response_read_def Let_def r0_def [symmetric] r0(1,3))
      moreover have "q \<noteq> []" using 1 arg_cong [OF full, of length] by auto
      ultimately show ?thesis using at0 r0 StatusLineStage
        by (intro that [of "(0, ?r)"]) (simp_all add: call_ok_def untouched_def)
    next
      case (2 n)
      let ?r = "r0\<lparr>rs_statusLine := parsed_status code reason, rs_parserStage := ResponseHeader\<rparr>"
      have "call_ok code reason hs bd p q (case read_response_header rd p ?r of (Inl n, r) \<Rightarrow> (n, r) | (Inr n, r) \<Rightarrow> response_body_and_end wr p n r)"
        using at0 r0 assms(3) by (intro call_header [OF ok]) (simp_all add: untouched_def)
      moreover have "response_read rd wr p r =
        Ok (case read_response_header rd p ?r of (Inl n, r) \<Rightarrow> (n, r) | (Inr n, r) \<Rightarrow> response_body_and_end wr p n r)"
        using 2 StatusLineStage assms(3)
        by (simp add: response_read_def Let_def r0_def [symmetric] r0(1,3) parsed_status_def)
      ultimately show ?thesis by (intro that)
    qed
  next
    case ResponseHeader
    have "call_ok code reason hs bd p q (case read_response_header rd p r0 of (Inl n, r) \<Rightarrow> (n, r) | (Inr n, r) \<Rightarrow> response_body_and_end wr p n r)"
      using at ResponseHeader r0 assms(3) by (intro call_header [OF ok]) simp_all
    moreover have "response_read rd wr p r =
        Ok (case read_response_header rd p r0 of (Inl n, r) \<Rightarrow> (n, r) | (Inr n, r) \<Rightarrow> response_body_and_end wr p n r)"
      using ResponseHeader assms(3) by (simp add: response_read_def Let_def r0_def [symmetric] r0(1))
    ultimately show thesis by (rule that [rotated])
  next
    case ResponseBody
    have "call_ok code reason hs bd p q (response_body_and_end wr p 0 r0)"
      using at ResponseBody r0 by (intro call_body [OF ok]) simp_all
    moreover have "response_read rd wr p r = Ok (response_body_and_end wr p 0 r0)"
      using ResponseBody by (simp add: response_read_def Let_def r0_def [symmetric] r0(1))
    ultimately show thesis by (rule that [rotated])
  next
    case ResponseFinished
    have "response_read rd wr p r = Ok (response_body_and_end wr p 0 r0)"
      using ResponseFinished by (simp add: response_read_def Let_def r0_def [symmetric] r0(1))
    moreover have "call_ok code reason hs bd p q (response_body_and_end wr p 0 r0)"
      using at ResponseFinished r0 by (simp add: response_body_and_end_def call_ok_def complete_done parsed_head_def r0_def)
    ultimately show thesis by (rule that)
  qed
qed

section \<open>All pieces\<close>

definition session_at :: "nat \<Rightarrow> string \<Rightarrow> field list \<Rightarrow> message_body \<Rightarrow> string \<Rightarrow> bool \<times> 'o response \<times> char buffer \<Rightarrow> bool" where
  "session_at code reason hs bd q s \<longleftrightarrow>
    (case s of (connected, r, b) \<Rightarrow> connected \<and> buf_ok b \<and>
      response_at code reason hs bd (buf_view b @ q) r (rs_parserStage r) \<and> (q = [] \<longrightarrow> rs_parserStage r = ResponseFinished))"

lemma incoming_step:
  assumes ok: "response_ok rd code reason hs bd" and at: "session_at code reason hs bd (p @ q) s" "p @ q \<noteq> []"
  shows "\<exists>s'. session_incoming rd wr p s = Ok s' \<and> session_at code reason hs bd q s'"
proof -
  obtain r b where s: "s = (True, r, b)" "buf_ok b" "response_at code reason hs bd (buf_view b @ p @ q) r (rs_parserStage r)"
    using at(1) by (cases s) (auto simp: session_at_def)
  let ?b = "buf_push p b"
  have b: "buf_ok ?b" "buf_view ?b = buf_view b @ p" using buffers.push_good [OF s(2)] buffers.view_push [OF s(2)] by simp_all
  show ?thesis
  proof (cases "buf_view ?b = []")
    case True
    then have "session_incoming rd wr p s = Ok (True, r, ?b)" using b s(1) buf_is_empty_view [OF b(1)]
      by (simp add: session_incoming_def)
    then show ?thesis using True b s at by (simp add: session_at_def)
  next
    case False
    have "response_at code reason hs bd (buf_view ?b @ q) r (rs_parserStage r)" using s(3) b(2) by simp
    from call_read [OF ok this False] obtain n r' where res: "response_read rd wr (buf_view ?b) r = Ok (n, r')"
      "call_ok code reason hs bd (buf_view ?b) q (n, r')" by (metis prod.collapse)
    have n: "0 \<le> n" "nat n \<le> length (buf_view ?b)" using res(2) by (simp_all add: call_ok_def nat_le_iff)
    obtain b' where b': "buf_erase_first (nat n) ?b = Ok b'" "buf_ok b'" "buf_view b' = drop (nat n) (buf_view ?b)"
      using buffers.pop_ok [OF b(1) n(2)] by blast
    have "buf_erase_first 0 ?b = Ok ?b" by (simp add: buf_erase_first_def)
    then have "session_incoming rd wr p s = Ok (True, r', b')"
      using s(1) res(1) n b' False buf_is_empty_view [OF b(1)] by (auto simp: session_incoming_def Let_def)
    then show ?thesis using b' res(2) by (simp add: session_at_def call_ok_def)
  qed
qed

lemma incoming_all:
  assumes ok: "response_ok rd code reason hs bd" and "session_at code reason hs bd (concat ps) s" "[] \<notin> set ps"
  shows "\<exists>s'. res_fold (session_incoming rd wr) ps s = Ok s' \<and> session_at code reason hs bd [] s'"
  using assms(2,3)
proof (induction ps arbitrary: s)
  case (Cons p ps)
  have "p @ concat ps \<noteq> []" using Cons.prems(2) by auto
  then obtain s' where "session_incoming rd wr p s = Ok s'" "session_at code reason hs bd (concat ps) s'"
    using incoming_step [OF ok, of p "concat ps" s wr] Cons.prems(1) by auto
  then show ?case using Cons.IH [of s'] Cons.prems(2) by simp
qed simp

end
