(* ===== verification/HttpRequests.thy ===== *)
theory HttpRequests
  imports HttpStreams
begin

text \<open>
  Requests as they arrive: the bytes of a request that \<open>Request::writeData\<close> writes, given to \<open>RequestParser::readData\<close> in any pieces.
\<close>

section \<open>The request line\<close>

definition token_ok :: "string \<Rightarrow> bool" where
  "token_ok s \<longleftrightarrow> s \<noteq> [] \<and> (\<forall>c \<in> set s. \<not> is_whitespace c \<and> c \<noteq> newline)"

definition request_line :: "string \<Rightarrow> string \<Rightarrow> string" where
  "request_line verb url = verb @ '' '' @ url @ '' '' @ ''HTTP/1.1''"

lemma scan_token: "token_ok s \<Longrightarrow> is_whitespace c \<Longrightarrow> find_end_of_token (pre @ s @ c # x) (length pre) = length pre + length s"
  unfolding find_end_of_token_def by (rule scan_append) (auto simp: token_ok_def)

lemma skip_space:
  assumes "token_ok s"
  shows "skip_space_and_tab (pre @ CHR '' '' # s @ x) (length pre) = length pre + 1" "skip_space_and_tab (pre @ s @ x) (length pre) = length pre"
proof -
  obtain c s' where s: "s = c # s'" "\<not> is_whitespace c" using assms by (cases s) (auto simp: token_ok_def)
  show "skip_space_and_tab (pre @ CHR '' '' # s @ x) (length pre) = length pre + 1"
    using s(2) scan_append [of "'' ''" "\<lambda>c. \<not> is_whitespace c" c pre "s' @ x"] by (simp add: skip_space_and_tab_def s(1) is_whitespace_def)
  show "skip_space_and_tab (pre @ s @ x) (length pre) = length pre"
    using s(2) scan_append [of "[]" "\<lambda>c. \<not> is_whitespace c" c pre "s' @ x"] by (simp add: skip_space_and_tab_def s(1))
qed

text \<open>The positions the parser finds in a line that is complete\<close>

lemma request_line_scan:
  assumes "token_ok verb" "token_ok url" "p = request_line verb url @ cr # newline # x"
  shows "skip_space_and_tab p 0 = 0" "find_end_of_token p 0 = length verb" "skip_space_and_tab p (length verb) = length verb + 1"
    "find_end_of_token p (length verb + 1) = length verb + 1 + length url"
    "skip_space_and_tab p (length verb + 1 + length url) = length verb + length url + 2"
    "find_line_break p (length verb + length url + 2 + 8) = length verb + length url + 11"
    "valid_version p (length verb + length url + 2)" "substr p 0 (length verb) = verb" "substr p (length verb + 1) (length url) = url"
    "substr p (length verb + length url + 2) 8 = ''HTTP/1.1''"
proof -
  let ?v = "''HTTP/1.1''"
  have p: "p = verb @ CHR '' '' # url @ CHR '' '' # ?v @ cr # newline # x" by (simp add: assms(3) request_line_def)
  have ws: "is_whitespace (CHR '' '')" by (simp add: is_whitespace_def)
  have v: "token_ok ?v" by (simp add: token_ok_def is_whitespace_def)
  show "skip_space_and_tab p 0 = 0" using skip_space(2) [OF assms(1), of "[]"] by (simp add: p)
  show "find_end_of_token p 0 = length verb" using scan_token [OF assms(1) ws, of "[]"] by (simp add: p)
  show "skip_space_and_tab p (length verb) = length verb + 1" using skip_space(1) [OF assms(2), of verb] by (simp add: p)
  show "find_end_of_token p (length verb + 1) = length verb + 1 + length url"
    using scan_token [OF assms(2) ws, of "verb @ '' ''"] by (simp add: p)
  show "skip_space_and_tab p (length verb + 1 + length url) = length verb + length url + 2"
    using skip_space(1) [OF v, of "verb @ '' '' @ url"] by (simp add: p)
  show "find_line_break p (length verb + length url + 2 + 8) = length verb + length url + 11"
  proof -
    have "newline \<notin> set (request_line verb url)" using assms(1,2) by (auto simp: request_line_def token_ok_def)
    then show ?thesis using find_line_break_line [of "request_line verb url" "length verb + length url + 2 + 8" x]
      by (simp add: assms(3) request_line_def)
  qed
  have d: "drop (length verb + length url + 2) p = ?v @ cr # newline # x" by (simp add: p)
  have n: "p ! (length verb + length url + 2 + i) = (?v @ cr # newline # x) ! i" for i
    using nth_drop [of "length verb + length url + 2" p i] by (simp add: d, simp add: p)
  show "valid_version p (length verb + length url + 2)"
    unfolding valid_version_def d n by (simp add: starts_with_def is_digit_def is_whitespace_def)
  show "substr p 0 (length verb) = verb" "substr p (length verb + 1) (length url) = url" by (simp_all add: p substr_def)
  show "substr p (length verb + length url + 2) 8 = ''HTTP/1.1''" unfolding substr_def d by simp
qed

definition with_line :: "string \<Rightarrow> string \<Rightarrow> 'o request_parser \<Rightarrow> 'o request_parser" where
  "with_line verb url rp = rp\<lparr>rq_verb := verb, rq_url := url, rq_version := ''HTTP/1.1'', rq_stage := HeaderStage\<rparr>"

lemma read_request_line_complete:
  assumes "token_ok verb" "token_ok url" "3 \<le> length verb" "p = request_line verb url @ cr # newline # x"
  shows "read_request_line p rp = (Inr (length (request_line verb url) + 2), with_line verb url rp)"
proof -
  note scan = request_line_scan [OF assms(1,2,4)]
  have len: "length p = length verb + length url + 12 + length x" by (simp add: assms(4) request_line_def)
  have "1 \<le> length url" using assms(2) by (cases url) (simp_all add: token_ok_def)
  then have "\<not> length p < min_request_header_len" using assms(3) len by (simp add: min_request_header_len_def)
  then show ?thesis unfolding read_request_line_def Let_def scan(1-6)
    using len scan(7-10) by (simp add: request_line_def with_line_def)
qed

lemma scan_part: "scan P p off = length p \<or> scan P p off = scan P (p @ q) off \<and> scan P (p @ q) off < length p"
  using scan_more [of P p off q] scan_le [of P p off] by fastforce

lemma token_part: "find_end_of_token p off = length p \<or>
    find_end_of_token p off = find_end_of_token (p @ q) off \<and> find_end_of_token (p @ q) off < length p"
  and skip_part: "skip_space_and_tab p off = length p \<or>
    skip_space_and_tab p off = skip_space_and_tab (p @ q) off \<and> skip_space_and_tab (p @ q) off < length p"
  unfolding find_end_of_token_def skip_space_and_tab_def by (rule scan_part)+

text \<open>With part of the line nothing is consumed, and the stage stays.\<close>

lemma read_request_line_part:
  assumes "token_ok verb" "token_ok url" "p @ q = request_line verb url @ cr # newline # x" "length p < length (request_line verb url) + 2"
  obtains v u w where "read_request_line p rp = (Inl 0, rp\<lparr>rq_verb := v, rq_url := u, rq_version := w\<rparr>)"
proof -
  note scan = request_line_scan [OF assms(1-3)]
  let ?n = "length verb" and ?m = "length url"
  have same: "rp\<lparr>rq_verb := rq_verb rp, rq_url := rq_url rp, rq_version := rq_version rp\<rparr> = rp" for rp :: "'b request_parser" by simp
  have brk: "find_line_break p (?n + ?m + 2 + 8) = length p"
  proof -
    have "newline \<notin> set (request_line verb url)" using assms(1,2) by (auto simp: request_line_def token_ok_def)
    moreover have "?n + ?m + 2 + 8 \<le> length (request_line verb url)" by (simp add: request_line_def)
    ultimately show ?thesis using line_arrived [OF assms(3)] assms(4) by fastforce
  qed
  have sub: "substr p 0 ?n = verb" if "?n < length p" using scan(8) that by (simp add: substr_def)
  have e1: "find_end_of_token p 0 = length p \<or> find_end_of_token p 0 = ?n \<and> ?n < length p"
    using token_part [of p 0 q] scan(2) by simp
  have s2: "skip_space_and_tab p ?n = length p \<or> skip_space_and_tab p ?n = ?n + 1 \<and> ?n + 1 < length p"
    using skip_part [of p ?n q] scan(3) by simp
  have e2: "find_end_of_token p (?n + 1) = length p \<or> find_end_of_token p (?n + 1) = ?n + 1 + ?m \<and> ?n + 1 + ?m < length p"
    using token_part [of p "?n + 1" q] scan(4) by simp
  have s3: "skip_space_and_tab p (?n + 1 + ?m) = length p \<or> skip_space_and_tab p (?n + 1 + ?m) = ?n + ?m + 2 \<and> ?n + ?m + 2 < length p"
    using skip_part [of p "?n + 1 + ?m" q] scan(5) by simp
  have full: "find_end_of_token p (length p) = length p" by (simp add: find_end_of_token_def scan_def)
  have ver: "valid_version p (?n + ?m + 2)" if "?n + ?m + 2 + 8 < length p"
  proof -
    have "drop (?n + ?m + 2) (p @ q) = drop (?n + ?m + 2) p @ q" using that by simp
    then have "starts_with ''HTTP/'' (drop (?n + ?m + 2) p)"
      using scan(7) that by (simp add: valid_version_def starts_with_def)
    then show ?thesis using scan(7) that by (simp add: valid_version_def nth_append)
  qed
  show thesis
  proof (cases "length p < min_request_header_len \<or> find_end_of_token p (skip_space_and_tab p 0) = length p")
    case True
    then show thesis using that [where v = "rq_verb rp" and u = "rq_url rp" and w = "rq_version rp"] same by (auto simp: read_request_line_def Let_def)
  next
    case False
    have "skip_space_and_tab p 0 = 0"
    proof (rule ccontr)
      assume "skip_space_and_tab p 0 \<noteq> 0"
      then have "skip_space_and_tab p 0 = length p" using skip_part [of p 0 q] scan(1) by simp
      then show False using False full by simp
    qed
    then have 1: "\<not> length p < min_request_header_len" "skip_space_and_tab p 0 = 0" "find_end_of_token p 0 = ?n" "?n < length p"
      using False e1 by auto
    show thesis
    proof (cases "skip_space_and_tab p ?n = length p \<or> find_end_of_token p (?n + 1) = length p")
      case True
      then have "find_end_of_token p (skip_space_and_tab p ?n) = length p" using s2 full by auto
      then show thesis using 1 that [where v = verb and u = "rq_url rp" and w = "rq_version rp"] sub by (simp add: read_request_line_def Let_def)
    next
      case False
      then have 2: "skip_space_and_tab p ?n = ?n + 1" "find_end_of_token p (?n + 1) = ?n + 1 + ?m" "?n + 1 + ?m < length p"
        using s2 e2 by auto
      let ?u = "substr p (?n + 1) ?m"
      show thesis
      proof (cases "skip_space_and_tab p (?n + 1 + ?m) + version_len \<ge> length p")
        case True
        then show thesis using 1 2 that [where v = verb and u = ?u and w = "rq_version rp"] sub by (simp add: read_request_line_def Let_def)
      next
        case False
        then have 3: "skip_space_and_tab p (?n + 1 + ?m) = ?n + ?m + 2" "?n + ?m + 2 + 8 < length p" using s3 by auto
        then show thesis using 1 2 that [where v = verb and u = ?u and w = "substr p (?n + ?m + 2) 8"] sub ver brk
          by (simp add: read_request_line_def Let_def)
      qed
    qed
  qed
qed

section \<open>What has been parsed\<close>

definition request_untouched :: "string request_parser \<Rightarrow> bool" where
  "request_untouched rp \<longleftrightarrow> rq_header rp = hd_empty \<and> rp_recvBodySize rp = 0 \<and> rp_out rp = []"

definition has_line :: "string \<Rightarrow> string \<Rightarrow> string request_parser \<Rightarrow> bool" where
  "has_line verb url rp \<longleftrightarrow> rq_verb rp = verb \<and> rq_url rp = url \<and> rq_version rp = ''HTTP/1.1''"

definition request_body_so_far :: "message_body \<Rightarrow> string \<Rightarrow> string request_parser \<Rightarrow> bool" where
  "request_body_so_far bd left rp \<longleftrightarrow> rp_recvBodySize rp = length (rp_out rp) \<and>
    (case bd of Whole s \<Rightarrow> rp_out rp @ left = s
     | Chunked cs \<Rightarrow> \<exists>cs1 cs2. cs = cs1 @ cs2 \<and> rp_out rp = concat cs1 \<and> left = chunks_text cs2)"

definition head_text :: "field list \<Rightarrow> string" where
  "head_text hs = fields_text hs @ crlf"

definition request_ok :: "(string \<Rightarrow> header_read) \<Rightarrow> string \<Rightarrow> string \<Rightarrow> field list \<Rightarrow> message_body \<Rightarrow> bool" where
  "request_ok rd verb url hs bd \<longleftrightarrow>
    token_ok url \<and> hs \<noteq> [] \<and> names_differ hs \<and> (\<forall>f \<in> set hs. field_ok f) \<and> reads_fields rd (head_text hs) hs \<and>
    (verb = ''GET'' \<and> bd = Whole [] \<and> get_transfer_encoding (parsed_header hs) = [] \<or> verb = ''POST'' \<and> bd \<noteq> Whole [] \<and> header_fits (parsed_header hs) bd)"

fun request_at :: "string \<Rightarrow> string \<Rightarrow> field list \<Rightarrow> message_body \<Rightarrow> string \<Rightarrow> string request_parser \<Rightarrow> stage \<Rightarrow> bool" where
  "request_at verb url hs bd left rp RequestLine \<longleftrightarrow>
    request_untouched rp \<and> left = line_text (request_line verb url) @ head_text hs @ body_bytes bd"
| "request_at verb url hs bd left rp HeaderStage \<longleftrightarrow> request_untouched rp \<and> has_line verb url rp \<and> left = head_text hs @ body_bytes bd"
| "request_at verb url hs bd left rp Body \<longleftrightarrow>
    has_line verb url rp \<and> rq_header rp = parsed_header hs \<and> request_body_so_far bd left rp \<and> left \<noteq> [] \<and> verb = ''POST''"
| "request_at verb url hs bd left rp Finished \<longleftrightarrow>
    has_line verb url rp \<and> rq_header rp = parsed_header hs \<and> rp_out rp = body_payload bd \<and> length left \<le> 2"

definition phase_ok :: "string \<Rightarrow> string \<Rightarrow> field list \<Rightarrow> message_body \<Rightarrow> string \<Rightarrow> string \<Rightarrow> (int + nat) \<times> string request_parser \<Rightarrow> bool" where
  "phase_ok verb url hs bd p q res \<longleftrightarrow>
    (case res of (Inl n, rp) \<Rightarrow> False
     | (Inr n, rp) \<Rightarrow> n \<le> length p \<and> request_at verb url hs bd (drop n p @ q) rp (rq_stage rp) \<and> (q = [] \<longrightarrow> rq_stage rp = Finished))"

lemma chunked_flag: "hd_chunked (parsed_header hs) = (get_transfer_encoding (parsed_header hs) = ''chunked'')"
  by (simp add: parsed_header_def get_transfer_encoding_def hd_get_def hd_find_def)

lemma save_to_memory_wr: "save_to_memory x b = (int (length x), b @ x)"
  by (simp add: save_to_memory_def)

lemma request_body_arrived:
  assumes ok: "request_ok rd verb url hs bd" and at: "rq_stage rp = Body" "request_at verb url hs bd (p @ q) rp Body"
  shows "phase_ok verb url hs bd p q (read_request_body save_to_memory p rp)"
proof (cases bd)
  case (Whole s)
  let ?h = "parsed_header hs"
  have rp: "rq_verb rp = ''POST''" "rq_header rp = ?h" "rp_recvBodySize rp = length (rp_out rp)" "rp_out rp @ p @ q = s" "p @ q \<noteq> []"
    using at(2) by (auto simp: has_line_def request_body_so_far_def Whole)
  have h: "\<not> hd_chunked ?h" "hd_has content_length ?h" "get_content_length ?h = int (length s)"
    using ok at(2) by (auto simp: request_ok_def chunked_flag Whole)
  let ?rp = "rp\<lparr>rp_out := rp_out rp @ p, rp_recvBodySize := length (rp_out rp) + length p\<rparr>"
  show ?thesis
  proof (cases "p = []")
    case True
    then have "read_request_body save_to_memory p rp = (Inr 0, rp)"
      using rp(1,2) h(1,2) by (simp add: read_request_body_def save_to_memory_wr)
    then show ?thesis using at rp(5) True by (auto simp: phase_ok_def)
  next
    case False
    have full: "(int (length s) \<le> int (length (rp_out rp)) + int (length p)) = (q = [])"
      using arg_cong [OF rp(4), of length] by (cases q) auto
    have "read_request_body save_to_memory p rp = (Inr (length p), if q = [] then ?rp\<lparr>rq_stage := Finished\<rparr> else ?rp)"
      using rp(1-3) h False full by (simp add: read_request_body_def save_to_memory_wr Let_def)
    moreover have "has_line verb url rp" "verb = ''POST''" using at(2) by auto
    ultimately show ?thesis using at(1) rp(2-4) by (cases "q = []") (simp_all add: phase_ok_def has_line_def request_body_so_far_def Whole)
  qed
next
  case (Chunked cs)
  let ?h = "parsed_header hs"
  obtain cs1 cs2 where cs: "cs = cs1 @ cs2" "rp_out rp = concat cs1" "p @ q = chunks_text cs2" and
    rp: "rq_verb rp = ''POST''" "rq_header rp = ?h" "rp_recvBodySize rp = length (rp_out rp)"
    using at(2) by (auto simp: has_line_def request_body_so_far_def Chunked)
  have h: "hd_chunked ?h" "\<forall>s \<in> set cs2. chunk_ok s" using ok by (auto simp: request_ok_def chunked_flag Chunked cs(1))
  from read_chunks_arrived [of save_to_memory "\<lambda>b. b", OF save_to_memory_wr cs(3) h(2), of "rp_recvBodySize rp" "rp_out rp"]
  obtain cs3 cs4 p' where cs2: "cs2 = cs3 @ cs4" and res:
    "read_chunks save_to_memory p (rp_recvBodySize rp) (rp_out rp) =
       (Waiting, p', rp_recvBodySize rp + length (concat cs3), rp_out rp @ concat cs3) \<and> p' @ q = chunks_text cs4 \<and> q \<noteq> [] \<or>
     read_chunks save_to_memory p (rp_recvBodySize rp) (rp_out rp) =
       (LastChunk, [], rp_recvBodySize rp + length (concat cs3), rp_out rp @ concat cs3) \<and> cs4 = [] \<and> length q \<le> 2" by blast
  let ?rp = "rp\<lparr>rp_out := rp_out rp @ concat cs3, rp_recvBodySize := length (rp_out rp) + length (concat cs3)\<rparr>"
  from res show ?thesis
  proof
    assume wait: "read_chunks save_to_memory p (rp_recvBodySize rp) (rp_out rp) =
       (Waiting, p', rp_recvBodySize rp + length (concat cs3), rp_out rp @ concat cs3) \<and> p' @ q = chunks_text cs4 \<and> q \<noteq> []"
    have "chunks_text cs2 = concat (map chunk_text cs3) @ chunks_text cs4" by (simp add: chunks_text_def cs2)
    then have "p = concat (map chunk_text cs3) @ p'" using wait cs(3) by (metis append_assoc append_same_eq)
    then have left: "drop (length p - length p') p = p'" by simp
    have "read_request_body save_to_memory p rp = (Inr (length p - length p'), ?rp)"
      using rp h(1) wait by (simp add: read_request_body_def)
    moreover have "\<exists>as bs. cs1 @ cs3 @ cs4 = as @ bs \<and> concat cs1 @ concat cs3 = concat as \<and> chunks_text cs4 = chunks_text bs"
      by (intro exI [of _ "cs1 @ cs3"] exI [of _ cs4]) simp
    ultimately show ?thesis using at wait left cs(1,2) cs2
      by (simp add: phase_ok_def has_line_def request_body_so_far_def Chunked chunks_text_nonempty)
  next
    assume fin: "read_chunks save_to_memory p (rp_recvBodySize rp) (rp_out rp) =
       (LastChunk, [], rp_recvBodySize rp + length (concat cs3), rp_out rp @ concat cs3) \<and> cs4 = [] \<and> length q \<le> 2"
    then have "read_request_body save_to_memory p rp = (Inr (length p), ?rp\<lparr>rq_stage := Finished\<rparr>)"
      using rp h(1) by (simp add: read_request_body_def)
    then show ?thesis using at fin cs(1,2) cs2 by (simp add: phase_ok_def has_line_def Chunked)
  qed
qed

section \<open>Each call\<close>

text \<open>As for responses: a call consumes part of what is there, and the end is reached when all has arrived.\<close>

definition request_call_ok :: "string \<Rightarrow> string \<Rightarrow> field list \<Rightarrow> message_body \<Rightarrow> string \<Rightarrow> string \<Rightarrow> int \<times> string request_parser \<Rightarrow> bool" where
  "request_call_ok verb url hs bd p q res \<longleftrightarrow>
    (case res of (n, rp) \<Rightarrow> 0 \<le> n \<and> n \<le> int (length p) \<and>
      request_at verb url hs bd (drop (nat n) p @ q) rp (rq_stage rp) \<and> (q = [] \<longrightarrow> rq_stage rp = Finished))"

definition from_body :: "string \<Rightarrow> nat \<Rightarrow> string request_parser \<Rightarrow> int \<times> string request_parser" where
  "from_body p n rp =
    (case (if rq_stage rp = Body then read_request_body save_to_memory (drop n p) rp else (Inr 0, rp)) of
       (Inl m, rp) \<Rightarrow> (m, rp)
     | (Inr m, rp) \<Rightarrow> (int (n + m), rp))"

definition from_header :: "(string \<Rightarrow> header_read) \<Rightarrow> string \<Rightarrow> nat \<Rightarrow> string request_parser \<Rightarrow> int \<times> string request_parser" where
  "from_header rd p n rp =
    (case (if rq_stage rp = HeaderStage then read_request_header rd (drop n p) rp else (Inr 0, rp)) of
       (Inl m, rp) \<Rightarrow> (m, rp)
     | (Inr m, rp) \<Rightarrow> from_body p (n + m) rp)"

lemma request_read_from:
  "request_read rd save_to_memory p rp =
    (case (if rq_stage rp = RequestLine then read_request_line p rp else (Inr 0, rp)) of
       (Inl n, rp) \<Rightarrow> (n, rp)
     | (Inr n, rp) \<Rightarrow> from_header rd p n rp)"
  unfolding request_read_def from_header_def from_body_def by (rule refl)

lemma from_body_post:
  assumes ok: "request_ok rd verb url hs bd" and at: "rq_stage rp = Body" "request_at verb url hs bd (drop n p @ q) rp Body" "n \<le> length p"
  shows "request_call_ok verb url hs bd p q (from_body p n rp)"
proof -
  obtain m rp' where m: "read_request_body save_to_memory (drop n p) rp = (Inr m, rp')" "m \<le> length p - n"
    "request_at verb url hs bd (drop m (drop n p) @ q) rp' (rq_stage rp')" "q = [] \<longrightarrow> rq_stage rp' = Finished"
    using request_body_arrived [OF ok at(1,2)] unfolding phase_ok_def
    by (cases "read_request_body save_to_memory (drop n p) rp"; cases "fst (read_request_body save_to_memory (drop n p) rp)") auto
  have "nat (int n + int m) = m + n" by simp
  then show ?thesis using m at(1,3) by (simp add: from_body_def request_call_ok_def)
qed

lemma from_body_get:
  assumes "verb = ''GET''" "bd = Whole []" "rq_stage rp = Body" "has_line verb url rp" "rq_header rp = parsed_header hs" "rp_out rp = []"
    "n = length p" "q = []"
  shows "request_call_ok verb url hs bd p q (from_body p n rp)"
  using assms by (simp add: from_body_def request_call_ok_def read_request_body_def has_line_def)

lemma head_text_list: "head_text hs = concat (map line_text (map (\<lambda>(k, v). k @ '': '' @ v) hs)) @ crlf"
  by (simp add: head_text_def fields_text_lines)

lemma request_header_arrived:
  assumes ok: "request_ok rd verb url hs bd" and at: "rq_stage rp = HeaderStage" "request_at verb url hs bd (drop n p @ q) rp HeaderStage"
    "n \<le> length p"
  shows "request_call_ok verb url hs bd p q (from_header rd p n rp)"
proof -
  let ?h = "head_text hs" and ?p = "drop n p"
  have fields: "reads_fields rd ?h hs" "names_differ hs" "\<forall>f \<in> set hs. field_ok f" and ne: "map (\<lambda>(k, v). k @ '': '' @ v) hs \<noteq> []"
    using ok by (simp_all add: request_ok_def)
  have ls: "\<forall>l \<in> set (map (\<lambda>(k, v). k @ '': '' @ v) hs). newline \<notin> set l \<and> 2 \<le> length l"
    using fields(3) by (auto simp: field_ok_def)
  note parse = header_parse_lines [OF head_text_list ne ls fields]
  have rp: "request_untouched rp" "has_line verb url rp" and full: "?p @ q = ?h @ body_bytes bd" using at(2) by simp_all
  then have h: "rq_header rp = hd_empty" by (simp add: request_untouched_def)
  have same: "rp\<lparr>rq_header := hd_empty\<rparr> = rp" using h by simp
  show ?thesis
  proof (cases "length ?p < length ?h")
    case True
    have "read_request_header rd ?p rp = (Inr 0, rp)"
      using parse(2) [OF full True, of "rq_header rp"] h by (simp add: read_request_header_def same)
    then have "from_header rd p n rp = (int n, rp)" using at(1) by (simp add: from_header_def from_body_def)
    moreover have "q \<noteq> []" using True arg_cong [OF full, of length] by auto
    ultimately show ?thesis using at by (simp add: request_call_ok_def)
  next
    case False
    then obtain y where y: "?p = ?h @ y" "y @ q = body_bytes bd" using append_longer [OF full] by auto
    let ?rp = "rp\<lparr>rq_header := parsed_header hs, rq_stage := Body\<rparr>"
    have "header_parse rd ?p hd_empty = (int (length ?h), parsed_header hs)" unfolding y(1) by (rule parse(1))
    moreover have "0 < length ?h" by (simp add: head_text_def)
    ultimately have res: "from_header rd p n rp = from_body p (n + length ?h) ?rp"
      using at(1) h by (simp add: from_header_def read_request_header_def)
    have left: "drop (n + length ?h) p = y" using y(1) by (metis add.commute append_eq_conv_conj drop_drop)
    have len: "n + length ?h \<le> length p" using arg_cong [OF y(1), of length] at(3) by simp
    have line: "has_line verb url ?rp" using rp(2) by (simp add: has_line_def)
    show ?thesis
    proof (cases "verb = ''GET''")
      case True
      then have bd: "bd = Whole []" using ok by (auto simp: request_ok_def)
      then have "y = []" "q = []" using y(2) by simp_all
      then have "n + length ?h = length p" using left len by simp
      then show ?thesis unfolding res using rp line \<open>q = []\<close>
        by (intro from_body_get [OF True bd]) (simp_all add: request_untouched_def)
    next
      case False
      then have post: "verb = ''POST''" "bd \<noteq> Whole []" using ok by (auto simp: request_ok_def)
      have "request_body_so_far bd (body_bytes bd) ?rp"
      proof (cases bd)
        case (Chunked cs)
        then show ?thesis using rp(1) by (auto simp: request_body_so_far_def request_untouched_def intro: exI [of _ "[]"])
      qed (use rp(1) in \<open>simp add: request_body_so_far_def request_untouched_def\<close>)
      moreover have "body_bytes bd \<noteq> []" using post(2) chunks_text_nonempty by (cases bd) auto
      ultimately have "request_at verb url hs bd (drop (n + length ?h) p @ q) ?rp Body"
        unfolding left y(2) using line post(1) by simp
      then show ?thesis unfolding res using len by (intro from_body_post [OF ok]) auto
    qed
  qed
qed

lemma request_verb:
  assumes "request_ok rd verb url hs bd"
  shows "verb = ''GET'' \<or> verb = ''POST''"
proof -
  have "verb = ''GET'' \<and> bd = Whole [] \<and> get_transfer_encoding (parsed_header hs) = [] \<or> verb = ''POST'' \<and> bd \<noteq> Whole [] \<and> header_fits (parsed_header hs) bd"
    using assms by (simp only: request_ok_def)
  then show ?thesis by blast
qed

lemma request_call:
  assumes ok: "request_ok rd verb url hs bd" and at: "request_at verb url hs bd (p @ q) rp (rq_stage rp)"
  shows "request_call_ok verb url hs bd p q (request_read rd save_to_memory p rp)"
proof (cases "rq_stage rp")
  case RequestLine
  then have rp: "request_untouched rp" "p @ q = line_text (request_line verb url) @ head_text hs @ body_bytes bd" using at by simp_all
  then have full: "p @ q = request_line verb url @ cr # newline # head_text hs @ body_bytes bd" by simp
  have url: "token_ok url" using ok by (simp add: request_ok_def)
  have verb: "token_ok verb" "3 \<le> length verb" using request_verb [OF ok] by (auto simp: token_ok_def is_whitespace_def)
  show ?thesis
  proof (cases "length p < length (request_line verb url) + 2")
    case True
    from read_request_line_part [OF verb(1) url full True, of rp]
    obtain v u w where "read_request_line p rp = (Inl 0, rp\<lparr>rq_verb := v, rq_url := u, rq_version := w\<rparr>)" .
    then have "request_read rd save_to_memory p rp = (0, rp\<lparr>rq_verb := v, rq_url := u, rq_version := w\<rparr>)"
      using RequestLine by (simp add: request_read_from)
    moreover have "q \<noteq> []" using True arg_cong [OF full, of length] by auto
    ultimately show ?thesis using rp RequestLine by (simp add: request_call_ok_def request_untouched_def)
  next
    case False
    then have "length (line_text (request_line verb url)) \<le> length p" by simp
    from append_longer [OF rp(2) this] obtain y where y: "p = line_text (request_line verb url) @ y" "y @ q = head_text hs @ body_bytes bd" by blast
    let ?n = "length (request_line verb url) + 2"
    have "read_request_line p rp = (Inr ?n, with_line verb url rp)"
      by (rule read_request_line_complete [OF verb(1) url verb(2)]) (simp add: y(1))
    then have res: "request_read rd save_to_memory p rp = from_header rd p ?n (with_line verb url rp)"
      using RequestLine by (simp add: request_read_from)
    have "drop ?n p = y" by (simp add: y(1) eval_nat_numeral)
    then show ?thesis unfolding res using rp(1) y
      by (intro request_header_arrived [OF ok]) (simp_all add: with_line_def has_line_def request_untouched_def)
  qed
next
  case HeaderStage
  then have "request_read rd save_to_memory p rp = from_header rd p 0 rp" by (simp add: request_read_from)
  then show ?thesis using at HeaderStage by (simp add: request_header_arrived [OF ok])
next
  case Body
  then have "request_read rd save_to_memory p rp = from_body p 0 rp" by (simp add: request_read_from from_header_def)
  then show ?thesis using from_body_post [OF ok Body, of 0 p q] at Body by auto
next
  case Finished
  then show ?thesis using at by (simp add: request_read_from from_header_def from_body_def request_call_ok_def)
qed

section \<open>All pieces\<close>

text \<open>A server that reads requests: bytes arrive, what the parser consumed is removed, and an error closes the connection.\<close>

definition server_incoming :: "(string \<Rightarrow> header_read) \<Rightarrow> string \<Rightarrow> bool \<times> string request_parser \<times> char buffer \<Rightarrow>
    (bool \<times> string request_parser \<times> char buffer) res" where
  "server_incoming rd bytes = (\<lambda>(connected, rp, b).
    if \<not> connected then Ok (connected, rp, b)
    else
      let b = buf_push bytes b
      in if buf_is_empty b then Ok (True, rp, b)
         else
           let (n, rp) = request_read rd save_to_memory (buf_view b) rp
           in if n < 0 then Ok (False, rp, b)
              else if n = 0 then Ok (True, rp, b)
              else res_bind (buf_erase_first (nat n) b) (\<lambda>b. Ok (True, rp, b)))"

definition server_at :: "string \<Rightarrow> string \<Rightarrow> field list \<Rightarrow> message_body \<Rightarrow> string \<Rightarrow> bool \<times> string request_parser \<times> char buffer \<Rightarrow> bool" where
  "server_at verb url hs bd q s \<longleftrightarrow>
    (case s of (connected, rp, b) \<Rightarrow> connected \<and> buf_ok b \<and>
      request_at verb url hs bd (buf_view b @ q) rp (rq_stage rp) \<and> (q = [] \<longrightarrow> rq_stage rp = Finished))"

lemma server_step:
  assumes ok: "request_ok rd verb url hs bd" and at: "server_at verb url hs bd (p @ q) s" "p @ q \<noteq> []"
  shows "\<exists>s'. server_incoming rd p s = Ok s' \<and> server_at verb url hs bd q s'"
proof -
  obtain rp b where s: "s = (True, rp, b)" "buf_ok b" "request_at verb url hs bd (buf_view b @ p @ q) rp (rq_stage rp)"
    using at(1) by (cases s) (auto simp: server_at_def)
  let ?b = "buf_push p b"
  have b: "buf_ok ?b" "buf_view ?b = buf_view b @ p" using buffers.push_good [OF s(2)] buffers.view_push [OF s(2)] by simp_all
  show ?thesis
  proof (cases "buf_view ?b = []")
    case True
    then have "server_incoming rd p s = Ok (True, rp, ?b)" using b s(1) buf_is_empty_view [OF b(1)]
      by (simp add: server_incoming_def)
    then show ?thesis using True b s at by (simp add: server_at_def)
  next
    case False
    obtain n rp' where res: "request_read rd save_to_memory (buf_view ?b) rp = (n, rp')" by fastforce
    have "request_at verb url hs bd (buf_view ?b @ q) rp (rq_stage rp)" using s(3) b(2) by simp
    then have call: "request_call_ok verb url hs bd (buf_view ?b) q (n, rp')" using request_call [OF ok] res by metis
    then have n: "0 \<le> n" "nat n \<le> length (buf_view ?b)" by (simp_all add: request_call_ok_def nat_le_iff)
    obtain b' where b': "buf_erase_first (nat n) ?b = Ok b'" "buf_ok b'" "buf_view b' = drop (nat n) (buf_view ?b)"
      using buffers.pop_ok [OF b(1) n(2)] by blast
    have "buf_erase_first 0 ?b = Ok ?b" by (simp add: buf_erase_first_def)
    then have "server_incoming rd p s = Ok (True, rp', b')"
      using s(1) res n b' False buf_is_empty_view [OF b(1)] by (auto simp: server_incoming_def Let_def)
    then show ?thesis using b' call by (simp add: server_at_def request_call_ok_def)
  qed
qed

lemma server_all:
  assumes ok: "request_ok rd verb url hs bd" and "server_at verb url hs bd (concat ps) s" "[] \<notin> set ps"
  shows "\<exists>s'. res_fold (server_incoming rd) ps s = Ok s' \<and> server_at verb url hs bd [] s'"
  using assms(2,3)
proof (induction ps arbitrary: s)
  case (Cons p ps)
  have "p @ concat ps \<noteq> []" using Cons.prems(2) by auto
  then obtain s' where "server_incoming rd p s = Ok s'" "server_at verb url hs bd (concat ps) s'"
    using server_step [OF ok, of p "concat ps" s] Cons.prems(1) by auto
  then show ?case using Cons.IH [of s'] Cons.prems(2) by simp
qed simp

section \<open>Sending a request\<close>

text \<open>What the pieces that were sent give\<close>

definition sent :: "bool \<Rightarrow> string list \<Rightarrow> string" where
  "sent chunked cs = concat (map (if chunked then chunk_text else (\<lambda>s. s)) cs)"

lemma sent_simps [simp]: "sent chunked [] = []"
  "sent chunked (s # cs) = (if chunked then chunk_text s else s) @ sent chunked cs"
  by (simp_all add: sent_def)

lemma sent_append [simp]: "sent chunked (as @ bs) = sent chunked as @ sent chunked bs"
  by (simp add: sent_def)

definition sent_end :: "bool \<Rightarrow> string" where
  "sent_end chunked = (if chunked then chunk_text [] else [])"

lemma show_hex_length: "length (show_hex n) \<le> Suc n"
proof (induction n rule: show_hex.induct)
  case (1 n)
  then show ?case by (cases "n < 16") (auto simp: show_hex.simps [of n])
qed

lemma send_piece_ok: "length s \<le> body_buffer_size \<Longrightarrow> send_piece chunked s out = Ok (buf_push (sent chunked [s]) out)"
proof -
  assume s: "length s \<le> body_buffer_size"
  then have small: "int (length s) \<le> INT_MAX" "int (length (show_hex (length s))) \<le> INT_MAX"
    using show_hex_length [of "length s"] by (simp_all add: body_buffer_size_def)
  then have "res_fold buf_put [show_hex (length s), crlf, s, crlf] out = Ok (buf_push (chunk_text s) out)"
    by (subst puts_push) (simp_all add: chunk_text_def)
  then show ?thesis using s small(1) put_push [of s out] by (simp add: send_piece_def del: res_fold.simps)
qed

lemma last_chunk: "''0'' @ crlf @ crlf = chunk_text []"
  by (simp add: chunk_text_def) code_simp

text \<open>A call sends pieces of the body; it ends when there is nothing left, or when it has sent a piece.\<close>

lemma send_body_sends:
  assumes "rq_stage r = Body"
  shows "\<exists>cs src'. src = concat cs @ src' \<and> (\<forall>s \<in> set cs. chunk_ok s) \<and>
    (src' = [] \<and> send_body read_stream chunked capacity wrote src r out = Ok (True, [], r\<lparr>rq_stage := Finished\<rparr>, buf_push (sent chunked cs @ sent_end chunked) out) \<or>
     cs \<noteq> [] \<and> send_body read_stream chunked capacity wrote src r out = Ok (True, src', r, buf_push (sent chunked cs) out))"
proof (induction "length src" arbitrary: src wrote out rule: less_induct)
  case less
  note step = send_body.simps [of read_stream chunked capacity wrote src r out]
  show ?case
  proof (cases "src = []")
    case True
    have "(if chunked then buf_put (''0'' @ crlf @ crlf) out else Ok out) = Ok (buf_push (sent_end chunked) out)"
      using put_push [of "''0'' @ crlf @ crlf" out] by (simp add: sent_end_def last_chunk [symmetric])
    then show ?thesis using True step by (intro exI [of _ "[]"]) (simp add: read_stream_def)
  next
    case False
    define s src1 out1 where "s = take body_buffer_size src" and "src1 = drop body_buffer_size src" and "out1 = buf_push (sent chunked [s]) out"
    have pos: "0 < body_buffer_size" "int body_buffer_size \<le> INT_MAX" by (simp_all add: body_buffer_size_def)
    then have s: "src = s @ src1" "s \<noteq> []" "length s \<le> body_buffer_size" "length src1 < length src"
      using False by (simp_all add: s_def src1_def out1_def)
    have "chunk_ok s" using s(2,3) pos(2) by (simp add: chunk_ok_def)
    have "read_stream body_buffer_size src = (Some s, src1)" by (simp add: read_stream_def s_def src1_def out1_def)
    moreover have "send_piece chunked s out = Ok out1" using send_piece_ok [OF s(3)] by (simp add: s_def src1_def out1_def)
    ultimately have "\<exists>wrote'. send_body read_stream chunked capacity wrote src r out =
      (if wrote' < capacity then send_body read_stream chunked capacity wrote' src1 r out1 else Ok (True, src1, r, out1))"
      using s(2) by (simp add: step Let_def) blast
    then obtain wrote' where rec: "send_body read_stream chunked capacity wrote src r out =
      (if wrote' < capacity then send_body read_stream chunked capacity wrote' src1 r out1 else Ok (True, src1, r, out1))" by blast
    show ?thesis
    proof (cases "wrote' < capacity")
      case True
      from less.hyps [OF s(4), of wrote' out1] obtain cs src' where IH: "src1 = concat cs @ src'" "\<forall>s \<in> set cs. chunk_ok s"
        "src' = [] \<and> send_body read_stream chunked capacity wrote' src1 r out1 = Ok (True, [], r\<lparr>rq_stage := Finished\<rparr>, buf_push (sent chunked cs @ sent_end chunked) out1) \<or>
         cs \<noteq> [] \<and> send_body read_stream chunked capacity wrote' src1 r out1 = Ok (True, src', r, buf_push (sent chunked cs) out1)" by blast
      then show ?thesis using True rec s(1) \<open>chunk_ok s\<close>
        by (intro exI [of _ "s # cs"] exI [of _ src']) (auto simp: out1_def)
    next
      case False
      then show ?thesis using rec s(1) \<open>chunk_ok s\<close>
        by (intro exI [of _ "[s]"] exI [of _ src1]) (simp add: out1_def)
    qed
  qed
qed

text \<open>The socket takes the request in several calls, each with the room there is then.\<close>

definition request_writes :: "nat list \<Rightarrow> string \<times> request \<times> char buffer \<Rightarrow> (string \<times> request \<times> char buffer) res" where
  "request_writes =
    res_fold (\<lambda>capacity (src, r, out). res_bind (request_write read_stream capacity src r out) (\<lambda>(ok, src, r, out). Ok (src, r, out)))"

definition is_chunked :: "request \<Rightarrow> bool" where
  "is_chunked r \<longleftrightarrow> find_sub ''chunked'' (to_lower (hd_get ''transfer-encoding'' [] (rq_header r))) \<noteq> None"

lemma request_writes_body:
  assumes "rq_stage r = Body" "length src < length caps"
  shows "\<exists>cs. src = concat cs \<and> (\<forall>s \<in> set cs. chunk_ok s) \<and>
    request_writes caps (src, r, out) = Ok ([], r\<lparr>rq_stage := Finished\<rparr>, buf_push (sent (is_chunked r) cs @ sent_end (is_chunked r)) out)"
  using assms(2)
proof (induction caps arbitrary: src out)
  case (Cons capacity caps)
  have stays: "request_writes caps (src, r\<lparr>rq_stage := Finished\<rparr>, out) = Ok (src, r\<lparr>rq_stage := Finished\<rparr>, out)" for caps src out
    by (induction caps) (simp_all add: request_writes_def request_write_def)
  have calls: "request_write read_stream capacity src r out = send_body read_stream (is_chunked r) capacity 0 src r out"
    using assms(1) by (simp add: request_write_def is_chunked_def Let_def)
  from send_body_sends [OF assms(1), of src "is_chunked r" capacity 0 out] obtain cs src' where
    cs: "src = concat cs @ src'" "\<forall>s \<in> set cs. chunk_ok s" and
    res: "src' = [] \<and> request_write read_stream capacity src r out =
        Ok (True, [], r\<lparr>rq_stage := Finished\<rparr>, buf_push (sent (is_chunked r) cs @ sent_end (is_chunked r)) out) \<or>
      cs \<noteq> [] \<and> request_write read_stream capacity src r out = Ok (True, src', r, buf_push (sent (is_chunked r) cs) out)"
    unfolding calls by blast
  from res show ?case
  proof
    assume all: "src' = [] \<and> request_write read_stream capacity src r out =
        Ok (True, [], r\<lparr>rq_stage := Finished\<rparr>, buf_push (sent (is_chunked r) cs @ sent_end (is_chunked r)) out)"
    then have "src = concat cs" using cs(1) by simp
    then show ?thesis using all cs(2) stays [of caps] by (intro exI [of _ cs]) (simp add: request_writes_def)
  next
    assume part: "cs \<noteq> [] \<and> request_write read_stream capacity src r out = Ok (True, src', r, buf_push (sent (is_chunked r) cs) out)"
    then obtain s cs' where "cs = s # cs'" by (cases cs) auto
    then have "length src' < length caps" using cs Cons.prems by (cases s) (auto simp: chunk_ok_def)
    from Cons.IH [OF this, of "buf_push (sent (is_chunked r) cs) out"] obtain ds where "src' = concat ds" "\<forall>s \<in> set ds. chunk_ok s"
      "request_writes caps (src', r, buf_push (sent (is_chunked r) cs) out) =
        Ok ([], r\<lparr>rq_stage := Finished\<rparr>, buf_push (sent (is_chunked r) ds @ sent_end (is_chunked r)) (buf_push (sent (is_chunked r) cs) out))" by blast
    then show ?thesis using cs part by (intro exI [of _ "cs @ ds"]) (auto simp: request_writes_def)
  qed
qed simp

definition line_and_header :: "request \<Rightarrow> string" where
  "line_and_header r = line_text (rq_verb r @ '' '' @ rq_url r @ '' '' @ rq_version r) @ head_text (hd_headers (rq_header r))"

lemma request_writes_all:
  assumes "rq_stage r = RequestLine" "length src < length caps" "int (length (line_and_header r)) \<le> INT_MAX"
  shows "\<exists>cs. src = concat cs \<and> (\<forall>s \<in> set cs. chunk_ok s) \<and>
    request_writes caps (src, r, out) =
      Ok ([], r\<lparr>rq_stage := Finished\<rparr>, buf_push (line_and_header r @ sent (is_chunked r) cs @ sent_end (is_chunked r)) out)"
proof -
  let ?out = "buf_push (line_and_header r) out" and ?r = "r\<lparr>rq_stage := Body\<rparr>"
  obtain capacity caps' where caps: "caps = capacity # caps'" using assms(2) by (cases caps) auto
  have small: "int (length (rq_verb r)) \<le> INT_MAX" "int (length (rq_url r)) \<le> INT_MAX" "int (length (rq_version r)) \<le> INT_MAX"
    "int (length (fields_text (hd_headers (rq_header r)))) \<le> INT_MAX"
    using assms(3) by (simp_all add: line_and_header_def head_text_def)
  have "res_fold buf_put [rq_verb r, '' '', rq_url r, '' '', rq_version r, crlf] out =
      Ok (buf_push (line_text (rq_verb r @ '' '' @ rq_url r @ '' '' @ rq_version r)) out)"
    using small by (subst puts_push) (simp_all add: line_text_def)
  then have "request_write read_stream capacity src r out = request_write read_stream capacity src ?r ?out"
    using assms(1) small by (simp add: request_write_def header_write_push put_push line_and_header_def head_text_def del: res_fold.simps)
  then have "request_writes caps (src, r, out) = request_writes caps (src, ?r, ?out)" by (simp add: caps request_writes_def)
  moreover have "is_chunked ?r = is_chunked r" by (simp add: is_chunked_def)
  ultimately show ?thesis using request_writes_body [of ?r src caps ?out] assms(2) by simp
qed

text \<open>Its bytes are those of a request with such a body.\<close>

lemma transfer_encoding_lower: "hd_get ''transfer-encoding'' [] h = get_transfer_encoding h"
proof -
  have "to_lower ''transfer-encoding'' = to_lower transfer_encoding" by code_simp
  then show ?thesis by (simp add: get_transfer_encoding_def hd_get_def hd_find_def iequal_map)
qed

end
