(* ===== verification/HttpSockets.thy ===== *)
theory HttpSockets
  imports HttpParsers
begin

text \<open>
  The server's side of HTTP: which bytes of the input of a socket belong to a request, chunks moved together, and forms in
  parts. \<open>StreamSocket::parseHeader\<close>, \<open>checkChunks\<close>, \<open>compactChunks\<close>, \<open>sniffSSL\<close> and \<open>handleExpect\<close> of src/net/Socket.cpp and
  \<open>MultipartDataParser\<close> of src/net/HttpRequest.cpp. Of the request, which Poco parses, its content length (None for unknown) and
  whether it is chunked are arguments. Reading outside the buffer is an error.
\<close>

section \<open>Message maps\<close>

record message_map =
  mm_headerSize :: nat
  mm_messageSize :: nat
  mm_spans :: "(nat \<times> nat) list"

definition mm_empty :: message_map where
  "mm_empty = \<lparr>mm_headerSize = 0, mm_messageSize = 0, mm_spans = []\<rparr>"

definition parse_header :: "nat \<Rightarrow> nat \<Rightarrow> int option \<Rightarrow> message_map \<Rightarrow> (bool \<times> message_map) res" where
  "parse_header headerSize bufferSize contentLength m =
    (if \<not> (mm_headerSize m = 0 \<and> mm_messageSize m = 0) then Err AssertionFailed
     else
       let m = m\<lparr>mm_headerSize := headerSize, mm_messageSize := headerSize\<rparr>
       in case contentLength of
            None \<Rightarrow> Ok (True, m)
          | Some n \<Rightarrow>
              if int bufferSize < n then Ok (False, m)
              else Ok (True, m\<lparr>mm_messageSize := nat ((int headerSize + n) mod 2 ^ 64)\<rparr>))"

section \<open>Chunks\<close>

definition is_ascii_space :: "char \<Rightarrow> bool" where
  "is_ascii_space c \<longleftrightarrow> (of_char c :: nat) < 128 \<and> is_space c"

text \<open>The length in hexadecimal, modulo \<open>2 ^ 64\<close>\<close>

definition chunk_size :: "string \<Rightarrow> nat" where
  "chunk_size ds = foldl (\<lambda>n c. (n * 16 + nat (hex_digit_from_char c)) mod 2 ^ 64) 0 ds"

text \<open>
  The loop over the chunks: whether the message is complete, whether the socket is shut down, and the map. An iterator
  is moved on by the length of a chunk and read without a check.
\<close>

function check_chunks_loop :: "string \<Rightarrow> nat \<Rightarrow> message_map \<Rightarrow> (bool \<times> bool \<times> message_map) res" where
  "check_chunks_loop p itBody m =
    (if \<not> itBody < length p then Ok (False, False, m)
     else
       let i = scan (\<lambda>c. \<not> is_ascii_space c) p itBody;
           j = scan (\<lambda>c. hex_digit_from_char c < 0) p i;
           chunkLen = chunk_size (drop i (take j p));
           k = find_line_break p j;
           chunkOffset = (if k < length p then k + 1 else k);
           chunkAvailable = length p - chunkOffset
       in if chunkLen = 0 then Ok (True, False, m\<lparr>mm_messageSize := chunkOffset\<rparr>)
          else if chunkLen > chunkAvailable + 2 then Ok (False, False, m)
          else
            let it = chunkOffset + chunkLen; m = m\<lparr>mm_spans := mm_spans m @ [(chunkOffset, chunkLen)]\<rparr>
            in if \<not> it < length p then Err OutOfBounds
               else if p ! it \<noteq> cr then Ok (False, True, m)
               else if \<not> it + 1 < length p then Err OutOfBounds
               else if p ! (it + 1) \<noteq> newline then Ok (False, True, m)
               else check_chunks_loop p (it + 2) m)"
  by pat_completeness auto
termination
proof (relation "measure (\<lambda>(p, itBody, m). length p - itBody)")
  fix p :: string and itBody i j k chunkLen chunkOffset it :: nat and m m' :: message_map
  assume "\<not> \<not> itBody < length p" and i: "i = scan (\<lambda>c. \<not> is_ascii_space c) p itBody" and j: "j = scan (\<lambda>c. hex_digit_from_char c < 0) p i"
    and k: "k = find_line_break p j" and off: "chunkOffset = (if k < length p then k + 1 else k)" and it: "it = chunkOffset + chunkLen"
  then have "itBody < length p" by simp
  have "itBody \<le> i" using scan_ge [of itBody p] i \<open>itBody < length p\<close> by simp
  also have "i \<le> j" using scan_ge [of i p] scan_le i j by simp
  also have "j \<le> k" using scan_ge [of j p] scan_le j k by (simp add: find_line_break_def)
  finally have "itBody \<le> it" using off it by (auto split: if_splits)
  then show "((p, it + 2, m'), p, itBody, m) \<in> measure (\<lambda>(p, itBody, m). length p - itBody)"
    using \<open>itBody < length p\<close> by simp
qed simp

declare check_chunks_loop.simps [simp del]

definition check_chunks :: "string \<Rightarrow> bool \<Rightarrow> nat \<Rightarrow> message_map \<Rightarrow> (bool \<times> bool \<times> message_map) res" where
  "check_chunks p chunked headerSize m =
    (if \<not> chunked then Ok (True, False, m)
     else check_chunks_loop p headerSize (m\<lparr>mm_spans := mm_spans m @ [(0, headerSize)]\<rparr>))"

text \<open>\<open>memmove\<close> within the bytes\<close>

definition move_span :: "nat \<times> nat \<Rightarrow> nat \<times> string \<Rightarrow> (nat \<times> string) res" where
  "move_span sp st =
    (case (sp, st) of ((off, n), (dest, p)) \<Rightarrow>
      if off + n > length p \<or> dest + n > length p then Err OutOfBounds
      else Ok (dest + n, take dest p @ take n (drop off p) @ drop (dest + n) p))"

definition compact_chunks :: "char buffer \<Rightarrow> message_map \<Rightarrow> (bool \<times> char buffer \<times> message_map) res" where
  "compact_chunks b m =
    (if mm_spans m = [] then Ok (False, b, m)
     else res_bind (res_fold move_span (mm_spans m) (0, buf_view b)) (\<lambda>(newEnd, p).
       res_bind (buf_erase newEnd (mm_messageSize m) (b\<lparr>bu_buffer := take (bu_offset b) (bu_buffer b) @ p\<rparr>)) (\<lambda>b.
         Ok (True, b, m\<lparr>mm_messageSize := newEnd\<rparr>))))"

section \<open>Other checks\<close>

definition sniff_ssl :: "nat \<Rightarrow> nat \<Rightarrow> string \<Rightarrow> bool" where
  "sniff_ssl bytesSent bytesRcvd p \<longleftrightarrow>
    \<not> (bytesSent > 0 \<or> bytesRcvd \<noteq> length p \<or> bytesRcvd < 6) \<and>
    p ! 0 = CHR 0x16 \<and> p ! 1 = CHR 0x03 \<and> p ! 5 = CHR 0x01"

text \<open>Whether a continuation is sent, and that it has been\<close>

definition handle_expect :: "string \<Rightarrow> bool \<Rightarrow> string \<times> bool" where
  "handle_expect expect sentHTTPContinue =
    (if \<not> sentHTTPContinue \<and> iequal expect ''100-continue''
     then (''HTTP/1.1 100 Continue'' @ crlf @ crlf, True) else ([], sentHTTPContinue))"

section \<open>Forms in parts\<close>

datatype multipart_state = FirstPart | NextPart | LastPart

record multipart_parser =
  mp_delimiter :: string
  mp_dashBoundary :: string
  mp_boundary :: string
  mp_state :: multipart_state

definition mk_multipart_parser :: "string \<Rightarrow> multipart_parser" where
  "mk_multipart_parser boundary =
    (let d = crlf @ ''--'' @ boundary
     in \<lparr>mp_delimiter = d, mp_dashBoundary = drop 2 d, mp_boundary = drop 4 d, mp_state = FirstPart\<rparr>)"

definition mp_is_last :: "multipart_parser \<Rightarrow> bool" where "mp_is_last mp \<longleftrightarrow> mp_state mp = LastPart"

definition max_line_length :: nat where "max_line_length = 512"

definition find_boundary :: "string \<Rightarrow> string \<Rightarrow> nat \<Rightarrow> int \<times> int \<times> bool" where
  "find_boundary dat delimiter off =
    (case find_from dat delimiter off of
       None \<Rightarrow> (-1, -1, False)
     | Some pos \<Rightarrow>
         if length dat < pos + length delimiter + 2 then (int pos, 0, False)
         else
           let final = (dat ! (pos + length delimiter) = CHR ''-'' \<and> dat ! (pos + length delimiter + 1) = CHR ''-'');
               off = find_line_break dat (pos + length delimiter)
           in (int pos,
               if off = length dat then (if length dat - pos - length delimiter > max_line_length then -1 else 0) else int off,
               final))"

text \<open>
  \<open>parsePart\<close>: the number returned, and the body when there is one. The header may end after the next boundary; the length of the body is then negative, which
  as \<open>size_t\<close> makes a view beyond the data.
\<close>

definition parse_part :: "(string \<Rightarrow> header_read) \<Rightarrow> string \<Rightarrow> multipart_parser \<Rightarrow> header \<Rightarrow> string \<Rightarrow>
    (int \<times> multipart_parser \<times> header \<times> string) res" where
  "parse_part rd dat mp h body =
    (if mp_is_last mp then Ok (int (length dat), mp, h, body)
     else
       let delimiter = (if mp_state mp = FirstPart \<and> starts_with (mp_dashBoundary mp) dat then mp_dashBoundary mp else mp_delimiter mp);
           (start, fin, final) = find_boundary dat delimiter 0
       in if start < 0 \<or> \<not> final \<and> fin = 0 then Ok (0, mp, h, body)
          else if fin < 0 then Ok (-1, mp, h, body)
          else
            let fin = nat fin + 1; (nextStart, nextEnd, nextLast) = find_boundary dat (mp_delimiter mp) fin
            in if nextStart < 0 \<or> \<not> final \<and> nextEnd = 0 then Ok (0, mp, h, body)
               else if nextEnd < 0 then Ok (-1, mp, h, body)
               else
                 let mp = mp\<lparr>mp_state := (if nextLast then LastPart else NextPart)\<rparr>; (off, h) = header_parse rd (drop fin dat) h
                 in if off \<le> 0 then Ok (off, mp, h, body)
                    else if nextStart < int fin + off then Err OutOfBounds
                    else Ok (nextStart, mp, h, substr dat (fin + nat off) (nat (nextStart - int fin - off))))"

end
