(* ===== verification/ChunkProps.thy ===== *)
theory ChunkProps
  imports HttpProps HttpSockets
begin

text \<open>
  What \<open>checkChunks\<close> finds in a chunked message and what \<open>compactChunks\<close> makes of it.
\<close>

section \<open>The line of a chunk\<close>

lemma chunk_size_mod: "chunk_size ds = hex_val 0 ds mod 2 ^ 64"
proof -
  have "foldl (\<lambda>n c. (n * 16 + nat (hex_digit_from_char c)) mod 2 ^ 64) (n mod 2 ^ 64) ds = hex_val n ds mod 2 ^ 64" for n :: nat
  proof (induction ds arbitrary: n)
    case (Cons c ds)
    have "(n mod 2 ^ 64 * 16 + nat (hex_digit_from_char c)) mod 2 ^ 64 = (n * 16 + nat (hex_digit_from_char c)) mod (2 ^ 64 :: nat)"
      by (metis mod_add_left_eq mod_mult_left_eq)
    then show ?case using Cons [of "n * 16 + nat (hex_digit_from_char c)"] by simp
  qed simp
  from this [of 0] show ?thesis by (simp add: chunk_size_def)
qed

lemma chunk_size_show: "int n \<le> INT_MAX \<Longrightarrow> chunk_size (show_hex n) = n"
  using show_hex_read [of n] by (simp add: chunk_size_mod)

lemma digit_no_space: "0 \<le> hex_digit_from_char c \<Longrightarrow> \<not> is_ascii_space c"
proof
  assume digit: "0 \<le> hex_digit_from_char c" and "is_ascii_space c"
  then have "c = CHR '' '' \<or> (9 \<le> (of_char c :: nat) \<and> (of_char c :: nat) \<le> 13)" by (simp add: is_ascii_space_def is_space_def)
  moreover have "(of_char c :: int) = int (of_char c)" by (rule of_nat_of_char [symmetric])
  ultimately show False using digit by (auto simp: hex_digit_from_char_def Let_def split: if_splits)
qed

lemma chunk_line_scan:
  assumes "p = pre @ show_hex n @ cr # newline # x" "int n \<le> INT_MAX"
  shows "scan (\<lambda>c. \<not> is_ascii_space c) p (length pre) = length pre"
    "scan (\<lambda>c. hex_digit_from_char c < 0) p (length pre) = length pre + length (show_hex n)"
    "chunk_size (drop (length pre) (take (length pre + length (show_hex n)) p)) = n"
    "find_line_break p (length pre + length (show_hex n)) = length pre + length (show_hex n) + 1"
proof -
  obtain c cs where c: "show_hex n = c # cs" "0 \<le> hex_digit_from_char c" using show_hex_read [of n] by (cases "show_hex n") auto
  show "scan (\<lambda>c. \<not> is_ascii_space c) p (length pre) = length pre"
    using digit_no_space [OF c(2)] by (simp add: assms(1) c(1) scan_def)
  show "scan (\<lambda>c. hex_digit_from_char c < 0) p (length pre) = length pre + length (show_hex n)"
    unfolding assms(1) using show_hex_read [of n] cr_no_digit by (intro scan_append) (auto simp: not_less)
  show "chunk_size (drop (length pre) (take (length pre + length (show_hex n)) p)) = n"
    using chunk_size_show [OF assms(2)] by (simp add: assms(1))
  show "find_line_break p (length pre + length (show_hex n)) = length pre + length (show_hex n) + 1"
    using find_line_break_append [of "[cr]" "pre @ show_hex n" x] by (simp add: assms(1))
qed

lemma chunk_text_append: "chunk_text s @ x = show_hex (length s) @ cr # newline # s @ cr # newline # x"
  by (simp add: chunk_text_def)

section \<open>The spans\<close>

fun spans_from :: "nat \<Rightarrow> string list \<Rightarrow> (nat \<times> nat) list" where
  "spans_from pos [] = []"
| "spans_from pos (s # cs) = (pos + length (show_hex (length s)) + 2, length s) # spans_from (pos + length (chunk_text s)) cs"

lemma check_chunks_loop_step:
  assumes "p = pre @ chunk_text s @ rest" "chunk_ok s"
  shows "check_chunks_loop p (length pre) m = check_chunks_loop p (length (pre @ chunk_text s))
    (m\<lparr>mm_spans := mm_spans m @ [(length pre + length (show_hex (length s)) + 2, length s)]\<rparr>)"
proof -
  let ?l = "length (show_hex (length s))"
  have p: "p = pre @ show_hex (length s) @ cr # newline # s @ cr # newline # rest" using assms(1) by (simp add: chunk_text_append)
  have small: "int (length s) \<le> INT_MAX" "length s \<noteq> 0" using assms(2) by (simp_all add: chunk_ok_def)
  note line = chunk_line_scan [OF p small(1)]
  let ?it = "length pre + ?l + 1 + 1 + length s"
  have len: "length pre < length p" "length pre + ?l + 1 < length p" "?it + 1 < length p" "?it < length p"
    "\<not> length s > length p - (length pre + ?l + 1 + 1) + 2" by (simp_all add: p)
  have "p ! ?it = cr" "p ! (?it + 1) = newline" by (simp_all add: p nth_append)
  then have "check_chunks_loop p (length pre) m =
    check_chunks_loop p (?it + 2) (m\<lparr>mm_spans := mm_spans m @ [(length pre + ?l + 1 + 1, length s)]\<rparr>)"
    unfolding check_chunks_loop.simps [of p "length pre" m] Let_def line using len small(2) by simp
  moreover have "length (pre @ chunk_text s) = ?it + 2" "length pre + ?l + 1 + 1 = length pre + ?l + 2" by (simp_all add: chunk_text_def)
  ultimately show ?thesis by metis
qed

lemma check_chunks_loop_all:
  assumes "p = pre @ chunks_text cs @ rest" "\<forall>s \<in> set cs. chunk_ok s"
  shows "check_chunks_loop p (length pre) m =
    Ok (True, False, m\<lparr>mm_spans := mm_spans m @ spans_from (length pre) cs,
      mm_messageSize := length pre + length (concat (map chunk_text cs)) + 3\<rparr>)"
  using assms
proof (induction cs arbitrary: pre m)
  case Nil
  have hex: "show_hex 0 = ''0''" by code_simp
  have p: "p = pre @ show_hex 0 @ cr # newline # crlf @ rest" using Nil.prems(1) by (simp add: chunks_text_def chunk_text_def)
  note line = chunk_line_scan [OF p, simplified]
  have "length pre < length p" "length pre + length (show_hex 0) + 1 < length p" by (simp_all add: p)
  then show ?case unfolding check_chunks_loop.simps [of p "length pre" m] Let_def line by (simp add: hex)
next
  case (Cons s cs)
  have p: "p = pre @ chunk_text s @ chunks_text cs @ rest" using Cons.prems(1) by (simp add: chunks_text_def)
  have "chunk_ok s" "\<forall>s \<in> set cs. chunk_ok s" using Cons.prems(2) by simp_all
  then show ?case using check_chunks_loop_step [OF p] Cons.IH [of "pre @ chunk_text s"] p by (simp add: add.assoc)
qed

section \<open>Moving them\<close>

lemma move_spans:
  fixes pre p :: string
  assumes "length pre \<le> length p" "drop (length pre) p = concat (map chunk_text cs) @ rest" "dest \<le> length pre"
  shows "\<exists>p'. res_fold move_span (spans_from (length pre) cs) (dest, p) = Ok (dest + length (concat cs), p') \<and>
    take (dest + length (concat cs)) p' = take dest p @ concat cs \<and>
    drop (length pre + length (concat (map chunk_text cs))) p' = rest \<and> length p' = length p"
  using assms
proof (induction cs arbitrary: pre dest p)
  case (Cons s cs)
  let ?l = "length (show_hex (length s))"
  let ?off = "length pre + ?l + 2" and ?p = "take dest p @ s @ drop (dest + length s) p"
  have rest: "drop (length pre) p = show_hex (length s) @ cr # newline # s @ cr # newline # concat (map chunk_text cs) @ rest"
    using Cons.prems(2) by (simp add: chunk_text_append)
  have len: "length p = length pre + ?l + length s + 4 + length (concat (map chunk_text cs) @ rest)"
    using arg_cong [OF rest, of length] Cons.prems(1) by simp
  have "drop ?off p = drop (?l + 2) (drop (length pre) p)" by (simp add: add.commute add.left_commute)
  then have sp: "take (length s) (drop ?off p) = s" using rest by simp
  have move: "move_span (?off, length s) (dest, p) = Ok (dest + length s, ?p)"
    using Cons.prems(3) len sp by (simp add: move_span_def)
  let ?pre = "pre @ chunk_text s"
  have lpre: "length ?pre = length pre + ?l + length s + 4" by (simp add: chunk_text_def)
  have same: "length ?p = length p" using Cons.prems(3) len by simp
  have beyond: "drop n (xs @ drop (length xs) ys) = drop n ys" if "length xs \<le> n" for n and xs ys :: string
    using that by simp
  have moved: "length (take dest p @ s) = dest + length s" using Cons.prems(1,3) by simp
  moreover have "dest + length s \<le> length ?pre" using lpre Cons.prems(3) by linarith
  ultimately have "drop (length ?pre) ((take dest p @ s) @ drop (length (take dest p @ s)) p) = drop (length ?pre) p"
    by (intro beyond) simp
  then have "drop (length ?pre) ?p = drop (length ?pre) p" unfolding moved append_assoc .
  also have "\<dots> = drop (?l + length s + 4) (drop (length pre) p)" unfolding drop_drop lpre by (simp add: ac_simps)
  also have "\<dots> = concat (map chunk_text cs) @ rest" using rest by (simp add: eval_nat_numeral)
  finally have d: "drop (length ?pre) ?p = concat (map chunk_text cs) @ rest" .
  have "length ?pre \<le> length ?p" "dest + length s \<le> length ?pre" using len same lpre Cons.prems(3) by simp_all
  from Cons.IH [OF this(1) d this(2)] obtain p' where p': "res_fold move_span (spans_from (length ?pre) cs) (dest + length s, ?p) =
      Ok (dest + length s + length (concat cs), p')" "take (dest + length s + length (concat cs)) p' = take (dest + length s) ?p @ concat cs"
    "drop (length ?pre + length (concat (map chunk_text cs))) p' = rest" "length p' = length ?p" by blast
  have "take (dest + length s) ?p = take dest p @ s" using Cons.prems(1,3) by simp
  then show ?case using p' move same by (intro exI [of _ p']) (simp add: add.assoc)
qed simp

end
