(* ===== verification/HttpTheorems.thy ===== *)
theory HttpTheorems
  imports HttpRequests ChunkProps
begin

text \<open>
  The properties of HTTP: a response that is sent arrives whole, however its bytes are cut up; chunks are moved together; and
  what the parsers do with bytes after the end and with chunks of which the end is missing.
\<close>

section \<open>From server to client\<close>

lemma response_write_push:
  assumes "rs_statusLine r = mk_status_line code"
    and "int (length (header_lines code (get_reason_phrase_for_code code) (hd_headers (rs_header r)) @ rs_body r)) \<le> INT_MAX"
  shows "response_write server r b =
    (if hd_get ''Date'' [] (rs_header r) = [] \<or> hd_get ''Server'' [] (rs_header r) \<noteq> server then Err AssertionFailed
     else Ok (buf_push (header_lines code (get_reason_phrase_for_code code) (hd_headers (rs_header r)) @ rs_body r) b))"
proof -
  let ?reason = "get_reason_phrase_for_code code" and ?hs = "hd_headers (rs_header r)"
  have small: "int (length (fields_text ?hs)) \<le> INT_MAX" "int (length (rs_body r)) \<le> INT_MAX" "int (length ?reason) \<le> INT_MAX"
    "int (length (show_nat code)) \<le> INT_MAX" using assms(2) by (simp_all add: header_lines_def status_text_def)
  have "status_line_write (mk_status_line code) b = Ok (buf_push (line_text (status_text code ?reason)) b)"
    unfolding status_line_write_def using small
    by (subst puts_push) (simp_all add: mk_status_line_def status_text_def line_text_def)
  then show ?thesis
    using assms(1) small by (simp add: response_write_def header_write_push put_push header_lines_def line_text_def)
qed

text \<open>C13: A response that a server writes, with its body of known length or in chunks, is parsed by the session of the client: however
  its bytes are cut up, no call fails, and in the end the response is complete with the status, the header and the body that were sent.\<close>

theorem response_delivered:
  assumes "response_ok rd code (get_reason_phrase_for_code code) (hd_headers (rs_header r)) bd"
    and "rs_statusLine r = mk_status_line code" "rs_body r = body_bytes bd" "response_write server r buf_empty = Ok out"
    and "int (length (header_lines code (get_reason_phrase_for_code code) (hd_headers (rs_header r)) @ rs_body r)) \<le> INT_MAX"
    and "concat ps = buf_view out" "[] \<notin> set ps"
  shows "\<exists>r' b. res_fold (session_incoming rd wr) ps (True, mk_response cb, buf_empty) = Ok (True, r', b) \<and>
    rs_state r' = CompleteResponse \<and> rs_statusLine r' = rs_statusLine r \<and> hd_headers (rs_header r') = hd_headers (rs_header r) \<and>
    rs_body r' = body_payload bd"
proof -
  let ?reason = "get_reason_phrase_for_code code" and ?hs = "hd_headers (rs_header r)"
  have out: "out = buf_push (header_lines code ?reason ?hs @ rs_body r) buf_empty"
    using assms(4) unfolding response_write_push [OF assms(2,5)] by (auto split: if_splits)
  have "buf_view out = header_lines code ?reason ?hs @ body_bytes bd"
    unfolding out using assms(3) buffers.view_push [of buf_empty] by simp
  then have "session_at code ?reason ?hs bd (concat ps) (True, mk_response cb, buf_empty)"
    using assms(6) by (simp add: session_at_def mk_response_def untouched_def header_lines_def)
  from incoming_all [OF assms(1) this assms(7), of wr] obtain s' where s': "res_fold (session_incoming rd wr) ps (True, mk_response cb, buf_empty) = Ok s'"
    "session_at code ?reason ?hs bd [] s'" by blast
  obtain r' b where "s' = (True, r', b)" "response_at code ?reason ?hs bd (buf_view b) r' ResponseFinished"
    using s'(2) by (cases s') (auto simp: session_at_def)
  then show ?thesis using s'(1) assms(2) by (auto simp: parsed_head_def parsed_status_def mk_status_line_def parsed_header_def)
qed

definition sample_response :: "unit response" where
  "sample_response = response_set_body ''hi'' ''text/plain'' (mk_server_response ''today'' ''me'' (mk_status_line 200) ())"

definition sample_fields :: "field list" where
  "sample_fields = [(''Date'', ''today''), (''Server'', ''me''), (''Content-Length'', ''2''), (''Content-Type'', ''text/plain'')]"

lemma sample_response_fields: "hd_headers (rs_header sample_response) = sample_fields" "rs_body sample_response = ''hi''"
  "rs_statusLine sample_response = mk_status_line 200"
  by code_simp+

theorem response_delivered_witness:
  "\<exists>out r b. response_write ''me'' sample_response buf_empty = Ok out \<and>
    res_fold (session_incoming (\<lambda>_. Fields sample_fields) (\<lambda>_ _. (-1, ()))) [take 20 (buf_view out), drop 20 (buf_view out)]
      (True, mk_response (), buf_empty) = Ok (True, r, b) \<and> rs_state r = CompleteResponse \<and> rs_body r = ''hi''"
proof -
  note sample = sample_response_fields
  have reason: "get_reason_phrase_for_code 200 = ''OK''" by code_simp
  have len: "length (header_lines 200 ''OK'' sample_fields) = 89"
    by code_simp
  have ok: "response_ok (\<lambda>_. Fields sample_fields) 200 ''OK'' sample_fields (Whole ''hi'')"
    unfolding response_ok_def by (simp add: reads_fields_def, code_simp)
  have get: "hd_get ''Date'' [] (rs_header sample_response) = ''today''" "hd_get ''Server'' [] (rs_header sample_response) = ''me''"
    by code_simp+
  let ?out = "buf_push (header_lines 200 ''OK'' sample_fields @ ''hi'') buf_empty"
  have out: "response_write ''me'' sample_response buf_empty = Ok ?out"
    by (subst response_write_push [OF sample(3)]) (simp_all add: sample get len reason)
  have view: "buf_view ?out = header_lines 200 ''OK'' sample_fields @ ''hi''" using buffers.view_push [of buf_empty] by simp
  have ps: "concat [take 20 (buf_view ?out), drop 20 (buf_view ?out)] = buf_view ?out" by (simp del: take_append drop_append)
  have ne: "[] \<notin> set [take 20 (buf_view ?out), drop 20 (buf_view ?out)]" unfolding view using len by auto
  show ?thesis
    using response_delivered [of "\<lambda>_. Fields sample_fields" 200 sample_response "Whole ''hi''" "''me''" ?out, OF _ sample(3) _ out _ ps ne, of "\<lambda>_ _. (-1, ())" "()"]
      ok out by (auto simp: sample reason len)
qed

section \<open>From client to server\<close>

lemma transfer_encoding_parsed: "get_transfer_encoding (parsed_header (hd_headers h)) = get_transfer_encoding h"
  by (simp add: get_transfer_encoding_def hd_get_def hd_find_def parsed_header_def)

lemma find_chunked: "find_sub ''chunked'' (to_lower []) = None" "find_sub ''chunked'' (to_lower ''chunked'') = Some 0"
  by code_simp+

lemma sent_body:
  assumes "request_ok rd (rq_verb r) url (hd_headers (rq_header r)) bd" "body_payload bd = concat cs" "\<forall>s \<in> set cs. chunk_ok s"
  obtains bd' where "request_ok rd (rq_verb r) url (hd_headers (rq_header r)) bd'" "body_payload bd' = concat cs"
    "body_bytes bd' = sent (is_chunked r) cs @ sent_end (is_chunked r)"
proof (cases bd)
  case (Whole s)
  then have "get_transfer_encoding (rq_header r) = []"
    using assms(1) by (auto simp: request_ok_def transfer_encoding_parsed)
  then have "\<not> is_chunked r" unfolding is_chunked_def transfer_encoding_lower by (simp only: find_chunked) simp
  then show thesis using assms Whole by (intro that [of bd]) (simp_all add: sent_def sent_end_def)
next
  case (Chunked ds)
  then have "get_transfer_encoding (rq_header r) = ''chunked''"
    using assms(1) by (auto simp: request_ok_def transfer_encoding_parsed)
  then have "is_chunked r" unfolding is_chunked_def transfer_encoding_lower by (simp only: find_chunked) simp
  moreover have "request_ok rd (rq_verb r) url (hd_headers (rq_header r)) (Chunked cs)"
    using assms(1,3) Chunked by (auto simp: request_ok_def)
  ultimately show thesis by (intro that [of "Chunked cs"]) (simp_all add: sent_def sent_end_def chunks_text_def)
qed

text \<open>C14: A request that a client writes, in as many calls as the socket needs, arrives at the parser of the server: however its bytes are cut up, no
  call fails, and in the end the request is finished with the verb, the URL, the header and the body that were sent, in chunks or not.\<close>

theorem request_delivered:
  assumes "rq_stage r = RequestLine" "rq_version r = ''HTTP/1.1''" "length body < length capacities"
    and "int (length (line_and_header r)) \<le> INT_MAX"
    and "request_ok rd (rq_verb r) (rq_url r) (hd_headers (rq_header r)) bd" "body_payload bd = body"
  shows "\<exists>out. request_writes capacities (body, r, buf_empty) = Ok ([], r\<lparr>rq_stage := Finished\<rparr>, out) \<and>
    (\<forall>ps. concat ps = buf_view out \<longrightarrow> [] \<notin> set ps \<longrightarrow>
      (\<exists>rp b. res_fold (server_incoming rd) ps (True, mk_request_parser [], buf_empty) = Ok (True, rp, b) \<and>
        rq_stage rp = Finished \<and> rq_verb rp = rq_verb r \<and> rq_url rp = rq_url r \<and>
        hd_headers (rq_header rp) = hd_headers (rq_header r) \<and> rp_out rp = body))"
proof -
  let ?hs = "hd_headers (rq_header r)"
  from request_writes_all [OF assms(1,3,4), of buf_empty] obtain cs where cs: "body = concat cs" "\<forall>s \<in> set cs. chunk_ok s"
    "request_writes capacities (body, r, buf_empty) =
      Ok ([], r\<lparr>rq_stage := Finished\<rparr>, buf_push (line_and_header r @ sent (is_chunked r) cs @ sent_end (is_chunked r)) buf_empty)" by blast
  have "body_payload bd = concat cs" using assms(6) cs(1) by simp
  from sent_body [OF assms(5) this cs(2)] obtain bd' where bd': "request_ok rd (rq_verb r) (rq_url r) ?hs bd'" "body_payload bd' = body"
    "body_bytes bd' = sent (is_chunked r) cs @ sent_end (is_chunked r)" unfolding cs(1) by blast
  define out where "out = buf_push (line_and_header r @ body_bytes bd') buf_empty"
  have view: "buf_view out = line_text (request_line (rq_verb r) (rq_url r)) @ head_text ?hs @ body_bytes bd'"
    using buffers.view_push [of buf_empty] by (simp add: out_def line_and_header_def request_line_def assms(2))
  have "\<exists>rp b. res_fold (server_incoming rd) ps (True, mk_request_parser [], buf_empty) = Ok (True, rp, b) \<and>
        rq_stage rp = Finished \<and> rq_verb rp = rq_verb r \<and> rq_url rp = rq_url r \<and> hd_headers (rq_header rp) = ?hs \<and> rp_out rp = body"
    if ps: "concat ps = buf_view out" "[] \<notin> set ps" for ps
  proof -
    have "server_at (rq_verb r) (rq_url r) ?hs bd' (concat ps) (True, mk_request_parser [], buf_empty)"
      using ps(1) by (simp add: view server_at_def mk_request_parser_def request_untouched_def line_text_def)
    from server_all [OF bd'(1) this ps(2)] obtain s where s:
      "res_fold (server_incoming rd) ps (True, mk_request_parser [], buf_empty) = Ok s"
      "server_at (rq_verb r) (rq_url r) ?hs bd' [] s" by blast
    obtain rp b where "s = (True, rp, b)" "rq_stage rp = Finished" "request_at (rq_verb r) (rq_url r) ?hs bd' (buf_view b) rp Finished"
      using s(2) by (cases s) (auto simp: server_at_def)
    then show ?thesis using s(1) bd'(2) by (auto simp: has_line_def parsed_header_def)
  qed
  then show ?thesis using cs(3) bd'(3) by (intro exI [of _ out]) (simp add: out_def)
qed

definition sample_post :: request where
  "sample_post = mk_request ''/a'' ''POST'' (hd_set transfer_encoding ''chunked'' (hd_set ''Host'' ''h'' hd_empty))"

definition post_fields :: "field list" where
  "post_fields = [(''Host'', ''h''), (transfer_encoding, ''chunked'')]"

theorem request_delivered_witness:
  "\<exists>out rp b. request_writes [1, 1, 1] (''hi'', sample_post, buf_empty) = Ok ([], sample_post\<lparr>rq_stage := Finished\<rparr>, out) \<and>
    res_fold (server_incoming (\<lambda>_. Fields post_fields)) [take 9 (buf_view out), drop 9 (buf_view out)] (True, mk_request_parser [], buf_empty) =
      Ok (True, rp, b) \<and> rq_url rp = ''/a'' \<and> rp_out rp = ''hi''"
proof -
  let ?rd = "\<lambda>_. Fields post_fields"
  have fields: "hd_headers (rq_header sample_post) = post_fields" by code_simp
  have line: "rq_verb sample_post = ''POST''" "rq_url sample_post = ''/a''" "rq_version sample_post = ''HTTP/1.1''" "rq_stage sample_post = RequestLine"
    by code_simp+
  have len: "length (line_and_header sample_post) = 57" by code_simp
  have ok: "request_ok ?rd ''POST'' ''/a'' post_fields (Chunked [''hi''])"
    unfolding request_ok_def by (simp add: reads_fields_def, code_simp)
  from request_delivered [of sample_post "''hi''" "[1, 1, 1]" ?rd "Chunked [''hi'']"] obtain out where
    out: "request_writes [1, 1, 1] (''hi'', sample_post, buf_empty) = Ok ([], sample_post\<lparr>rq_stage := Finished\<rparr>, out)" and
    arrives: "\<forall>ps. concat ps = buf_view out \<longrightarrow> [] \<notin> set ps \<longrightarrow>
      (\<exists>rp b. res_fold (server_incoming ?rd) ps (True, mk_request_parser [], buf_empty) = Ok (True, rp, b) \<and>
        rq_stage rp = Finished \<and> rq_verb rp = ''POST'' \<and> rq_url rp = ''/a'' \<and> hd_headers (rq_header rp) = post_fields \<and> rp_out rp = ''hi'')"
    using ok by (auto simp: line fields len)
  have "int (length (line_and_header sample_post)) \<le> INT_MAX" by (simp add: len)
  from request_writes_all [OF line(4) _ this, of "''hi''" "[1, 1, 1]" buf_empty] obtain x where "buf_view out = line_and_header sample_post @ x"
    using out buffers.view_push [of buf_empty] by auto
  then have "[] \<notin> set [take 9 (buf_view out), drop 9 (buf_view out)]" using len by auto
  moreover have "concat [take 9 (buf_view out), drop 9 (buf_view out)] = buf_view out" by simp
  ultimately show ?thesis using arrives out by blast
qed

section \<open>Chunks of a request\<close>

text \<open>In a chunked message that has arrived, \<open>checkChunks\<close> finds the chunks, and after \<open>compactChunks\<close> the buffer holds the header followed by
  the bodies of all chunks, with the size of this message; of what follows the last chunk nothing is lost. (The line break that ends the message is left
  in the buffer.)\<close>

theorem chunks_compacted:
  assumes "buf_ok b" "buf_view b = hdr @ chunks_text cs @ rest" "\<forall>s \<in> set cs. chunk_ok s" "hdr \<noteq> []" "mm_spans m = []"
  shows "\<exists>m1 b2 m2. check_chunks (buf_view b) True (length hdr) m = Ok (True, False, m1) \<and>
    compact_chunks b m1 = Ok (True, b2, m2) \<and> buf_view b2 = hdr @ concat cs @ crlf @ rest \<and>
    mm_messageSize m2 = length (hdr @ concat cs)"
proof -
  let ?p = "buf_view b" and ?size = "length hdr + length (concat (map chunk_text cs)) + 3"
  let ?m = "m\<lparr>mm_spans := [(0, length hdr)] @ spans_from (length hdr) cs, mm_messageSize := ?size\<rparr>"
  have check: "check_chunks ?p True (length hdr) m = Ok (True, False, ?m)"
    using check_chunks_loop_all [OF assms(2,3), of "m\<lparr>mm_spans := [(0, length hdr)]\<rparr>"] assms(5) by (simp add: check_chunks_def)
  have hex: "show_hex 0 = ''0''" by code_simp
  have p: "?p = hdr @ concat (map chunk_text cs) @ ''0'' @ crlf @ crlf @ rest"
    using assms(2) by (simp add: chunks_text_def chunk_text_def hex)
  have first: "move_span (0, length hdr) (0, ?p) = Ok (length hdr, ?p)" by (simp add: move_span_def p)
  have "length hdr \<le> length ?p" "drop (length hdr) ?p = concat (map chunk_text cs) @ ''0'' @ crlf @ crlf @ rest" by (simp_all add: p)
  from move_spans [OF this order.refl] obtain p' where p': "res_fold move_span (spans_from (length hdr) cs) (length hdr, ?p) =
      Ok (length hdr + length (concat cs), p')" "take (length hdr + length (concat cs)) p' = hdr @ concat cs"
    "drop (length hdr + length (concat (map chunk_text cs))) p' = ''0'' @ crlf @ crlf @ rest" "length p' = length ?p"
    by (auto simp: p)
  let ?b = "b\<lparr>bu_buffer := take (bu_offset b) (bu_buffer b) @ p'\<rparr>"
  let ?e = "length hdr + length (concat cs)"
  have size: "?e \<le> ?size" "?size \<le> length p'"
  proof -
    have "length (concat cs) \<le> length (concat (map chunk_text cs))"
      by (induction cs) (simp_all add: chunk_text_def)
    then show "?e \<le> ?size" by simp
    show "?size \<le> length p'" by (simp add: p'(4) p)
  qed
  have off: "length (take (bu_offset b) (bu_buffer b)) = bu_offset b" using assms(1) by (simp add: buf_ok_def)
  define b2 where "b2 = b\<lparr>bu_buffer := take (bu_offset b) (bu_buffer b) @ take ?e p' @ drop ?size p'\<rparr>"
  have e: "?e \<noteq> 0" using assms(4) by simp
  have "buf_erase ?e ?size ?b = Ok b2"
    unfolding buf_erase_def if_not_P [OF e] using size off by (simp add: b2_def)
  then have compact: "compact_chunks b ?m = Ok (True, b2, ?m\<lparr>mm_messageSize := ?e\<rparr>)"
    using first p'(1) by (simp add: compact_chunks_def)
  have "drop ?size p' = drop 3 (drop (length hdr + length (concat (map chunk_text cs))) p')" by (simp add: add.commute)
  then have "drop ?size p' = crlf @ rest" unfolding p'(3) by simp
  then have "buf_view b2 = hdr @ concat cs @ crlf @ rest" using off p'(2) by (simp add: buf_view_def b2_def)
  then show ?thesis using check compact by auto
qed

theorem chunks_compacted_witness:
  "\<exists>m1 b2 m2. check_chunks (''H'' @ crlf @ crlf @ chunks_text [''ab'', ''c''] @ ''next'') True (length (''H'' @ crlf @ crlf)) mm_empty = Ok (True, False, m1) \<and>
    compact_chunks (buf_push (''H'' @ crlf @ crlf @ chunks_text [''ab'', ''c''] @ ''next'') buf_empty) m1 = Ok (True, b2, m2) \<and>
    buf_view b2 = ''H'' @ crlf @ crlf @ ''abc'' @ crlf @ ''next'' \<and>
    mm_messageSize m2 = length (''H'' @ crlf @ crlf @ ''abc'')"
  using chunks_compacted [of "buf_push (''H'' @ crlf @ crlf @ chunks_text [''ab'', ''c''] @ ''next'') buf_empty" "''H'' @ crlf @ crlf"
      "[''ab'', ''c'']" "''next''" mm_empty]
  by (simp add: buffers.push_good buffers.view_push chunk_ok_def mm_empty_def)

text \<open>C35: When the bytes of a chunk have arrived and its line break has not, which depends only on how the bytes are cut up on their way,
  \<open>checkChunks\<close> reads beyond the end of the buffer.\<close>

theorem unfinished_chunk_reads_outside:
  assumes "chunk_ok s" "\<forall>s \<in> set cs. chunk_ok s" "p = hdr @ concat (map chunk_text cs) @ show_hex (length s) @ crlf @ s"
  shows "check_chunks p True (length hdr) m = Err OutOfBounds"
proof -
  have last: "check_chunks_loop p (length pre) m = Err OutOfBounds" if "p = pre @ show_hex (length s) @ cr # newline # s" for pre m
  proof -
    have small: "int (length s) \<le> INT_MAX" "length s \<noteq> 0" using assms(1) by (simp_all add: chunk_ok_def)
    note line = chunk_line_scan [OF that small(1)]
    have "length pre < length p" "length pre + length (show_hex (length s)) + 1 < length p"
      "\<not> length s > length p - (length pre + length (show_hex (length s)) + 1 + 1) + 2"
      "\<not> length pre + length (show_hex (length s)) + 1 + 1 + length s < length p" by (simp_all add: that)
    then show ?thesis unfolding check_chunks_loop.simps [of p "length pre" m] Let_def line using small(2) by simp
  qed
  have "check_chunks_loop p (length pre) m = Err OutOfBounds"
    if "p = pre @ concat (map chunk_text cs) @ show_hex (length s) @ cr # newline # s" "\<forall>s \<in> set cs. chunk_ok s" for pre m cs
    using that
  proof (induction cs arbitrary: pre m)
    case Nil
    then show ?case using last by simp
  next
    case (Cons t cs)
    let ?rest = "concat (map chunk_text cs) @ show_hex (length s) @ cr # newline # s"
    have t: "chunk_ok t" using Cons.prems(2) by simp
    have p: "p = pre @ chunk_text t @ ?rest" using Cons.prems(1) by simp
    obtain m' where "check_chunks_loop p (length pre) m = check_chunks_loop p (length (pre @ chunk_text t)) m'"
      using check_chunks_loop_step [OF p t] by blast
    then show ?case using Cons.IH [of "pre @ chunk_text t" m'] p Cons.prems(2) by simp
  qed
  from this [of hdr cs] show ?thesis using assms(2,3) by (simp add: check_chunks_def)
qed

theorem unfinished_chunk_reads_outside_witness:
  "check_chunks (''H'' @ crlf @ crlf @ ''2'' @ crlf @ ''ab'') True (length (''H'' @ crlf @ crlf)) mm_empty = Err OutOfBounds"
proof -
  have hex: "show_hex 2 = ''2''" by code_simp
  show ?thesis
    using unfinished_chunk_reads_outside [of "''ab''" "[]" "''H'' @ crlf @ crlf @ ''2'' @ crlf @ ''ab''" "''H'' @ crlf @ crlf" mm_empty] hex
    by (simp add: chunk_ok_def numeral_2_eq_2)
qed

section \<open>Bytes after the end\<close>

text \<open>The body of a request of known length is not cut at its end: when the bytes of what follows have arrived with it, they all become part of the body,
  and the request is finished.\<close>

theorem body_takes_what_follows:
  assumes "rq_stage rp = Body" "rq_verb rp = ''POST''" "\<not> hd_chunked (rq_header rp)" "hd_has content_length (rq_header rp)"
    and "get_content_length (rq_header rp) = int (length body)" "rp_recvBodySize rp = 0" "rp_out rp = []" "body @ following \<noteq> []"
  shows "\<exists>rp'. request_read rd save_to_memory (body @ following) rp = (int (length (body @ following)), rp') \<and>
    rq_stage rp' = Finished \<and> rp_out rp' = body @ following"
proof -
  have "0 < int (length body) + int (length following)" using assms(8) by (cases body; cases following) auto
  then show ?thesis using assms by (simp add: request_read_def read_request_body_def save_to_memory_def Let_def)
qed

definition sample_request :: "string \<Rightarrow> string request_parser" where
  "sample_request len = (mk_request_parser [])\<lparr>rq_stage := Body, rq_verb := ''POST'', rq_header := hd_set content_length len hd_empty\<rparr>"

theorem body_takes_what_follows_witness:
  "\<exists>rp'. request_read (\<lambda>_. ReadThrows) save_to_memory ''hiGET /'' (sample_request ''2'') = (7, rp') \<and>
    rq_stage rp' = Finished \<and> rp_out rp' = ''hiGET /''"
proof -
  have "get_content_length (rq_header (sample_request ''2'')) = 2" "hd_has content_length (rq_header (sample_request ''2''))" by code_simp+
  then show ?thesis using body_takes_what_follows [of "sample_request ''2''" "''hi''" "''GET /''" "\<lambda>_. ReadThrows"]
    by (simp add: sample_request_def mk_request_parser_def hd_set_def hd_empty_def)
qed

text \<open>A request with the verb POST and no body is never finished: the call that has parsed its header, and each one after it, leaves the parser waiting for
  a body.\<close>

theorem empty_post_waits:
  assumes "rq_verb rp = ''POST''" "hd_has content_length (rq_header rp)" "\<not> hd_chunked (rq_header rp)" "rq_stage rp = Body" "rp_out rp = out"
  shows "request_read rd save_to_memory [] rp = (0, rp)"
  using assms by (simp add: request_read_def read_request_body_def save_to_memory_def Let_def)

theorem empty_post_waits_witness:
  "request_read (\<lambda>_. ReadThrows) save_to_memory [] (sample_request ''0'') = (0, sample_request ''0'')"
proof -
  have "hd_has content_length (rq_header (sample_request ''0''))" by code_simp
  then show ?thesis using empty_post_waits [of "sample_request ''0''" "[]" "\<lambda>_. ReadThrows"]
    by (simp add: sample_request_def mk_request_parser_def hd_set_def hd_empty_def)
qed

text \<open>When bytes arrive after the end of a response, such as the line break after the last chunk when it comes by itself, the
  callback for the end of the response is called once more.\<close>

theorem finished_again:
  assumes "rs_parserStage r = ResponseFinished" "rs_state r = CompleteResponse"
  shows "response_read rd wr p r = Ok (0, r\<lparr>rs_finished := rs_finished r + 1\<rparr>)"
  using assms
  by (simp add: response_read_def Let_def response_body_and_end_def response_complete_def response_finish_def response_done_def)

theorem finished_again_witness:
  "response_read (\<lambda>_. ReadThrows) (\<lambda>_ _. (-1, ())) crlf ((mk_response ())\<lparr>rs_parserStage := ResponseFinished, rs_state := CompleteResponse, rs_finished := 1\<rparr>) =
    Ok (0, (mk_response ())\<lparr>rs_parserStage := ResponseFinished, rs_state := CompleteResponse, rs_finished := 2\<rparr>)"
  using finished_again [of "(mk_response ())\<lparr>rs_parserStage := ResponseFinished, rs_state := CompleteResponse, rs_finished := 1\<rparr>"]
  by (simp add: mk_response_def)

end
