(* ===== verification/SaveManagers.thy ===== *)
theory SaveManagers
  imports CxxLib
begin

text \<open>
  The managers of src/wsd/DocumentBroker.hpp that time the saving of a document and its upload, the state of a document, and the
  attributes of an upload (src/wsd/Storage.hpp). The steady clock counts nanoseconds and the intervals of the configuration are
  milliseconds; the time is read once in an operation and is an argument.
\<close>

type_synonym steady = int

section \<open>Durations\<close>

definition ns_per_ms :: int where "ns_per_ms = 1000000"
definition ns_per_s :: int where "ns_per_s = 1000000000"

definition to_ms :: "int \<Rightarrow> int" where
  "to_ms d = cdiv d ns_per_ms"

section \<open>Requests\<close>

record request_manager =
  rm_minTimeBetweenRequests :: int
  rm_lastRequestTime :: steady
  rm_lastResponseTime :: steady
  rm_lastRequestDuration :: int
  rm_lastRequestFailureCount :: nat

text \<open>The clock is read twice.\<close>

definition mk_request_manager :: "int \<Rightarrow> steady \<Rightarrow> steady \<Rightarrow> request_manager" where
  "mk_request_manager minTime now now' =
    \<lparr>rm_minTimeBetweenRequests = minTime, rm_lastRequestTime = now, rm_lastResponseTime = now', rm_lastRequestDuration = 0,
     rm_lastRequestFailureCount = 0\<rparr>"

definition mark_last_request_time :: "steady \<Rightarrow> request_manager \<Rightarrow> request_manager" where
  "mark_last_request_time now rm = rm\<lparr>rm_lastRequestTime := now\<rparr>"

definition time_since_last_request :: "steady \<Rightarrow> request_manager \<Rightarrow> int" where
  "time_since_last_request now rm = to_ms (now - rm_lastRequestTime rm)"

definition time_since_last_response :: "steady \<Rightarrow> request_manager \<Rightarrow> int" where
  "time_since_last_response now rm = to_ms (now - rm_lastResponseTime rm)"

definition rm_is_active :: "request_manager \<Rightarrow> bool" where
  "rm_is_active rm \<longleftrightarrow> rm_lastResponseTime rm < rm_lastRequestTime rm"

definition has_last_request_timed_out :: "int \<Rightarrow> steady \<Rightarrow> request_manager \<Rightarrow> bool" where
  "has_last_request_timed_out timeoutMs now rm \<longleftrightarrow> rm_is_active rm \<and> time_since_last_request now rm \<ge> timeoutMs"

definition mark_last_response_time :: "steady \<Rightarrow> request_manager \<Rightarrow> request_manager" where
  "mark_last_response_time now rm =
    rm\<lparr>rm_lastResponseTime := now, rm_lastRequestDuration := to_ms (now - rm_lastRequestTime rm)\<rparr>"

definition time_to_next_request :: "bool \<Rightarrow> steady \<Rightarrow> request_manager \<Rightarrow> int" where
  "time_to_next_request unloading now rm =
    (let minTime = max (rm_minTimeBetweenRequests rm) (rm_lastRequestDuration rm);
         minTime = (if unloading then cdiv minTime 10 else minTime);
         since = min (time_since_last_request now rm) (time_since_last_response now rm)
     in if since \<ge> minTime then 0 else minTime - since)"

definition can_request_now :: "bool \<Rightarrow> steady \<Rightarrow> request_manager \<Rightarrow> bool" where
  "can_request_now unloading now rm \<longleftrightarrow> \<not> rm_is_active rm \<and> time_to_next_request unloading now rm = 0"

definition set_last_request_result :: "bool \<Rightarrow> steady \<Rightarrow> request_manager \<Rightarrow> request_manager" where
  "set_last_request_result success now rm =
    (let rm = mark_last_response_time now rm
     in rm\<lparr>rm_lastRequestFailureCount := (if success then 0 else rm_lastRequestFailureCount rm + 1)\<rparr>)"

definition last_request_successful :: "request_manager \<Rightarrow> bool" where
  "last_request_successful rm \<longleftrightarrow> rm_lastRequestFailureCount rm = 0"

section \<open>Saving\<close>

record save_manager =
  sm_request :: request_manager
  sm_lastModifiedLocalTime :: int
  sm_idleSaveInterval :: int
  sm_autoSaveInterval :: int
  sm_checkInterval :: int
  sm_savingTimeout :: int
  sm_lastAutosaveCheckTime :: steady
  sm_version :: nat

definition get_check_interval :: "int \<Rightarrow> int \<Rightarrow> int" where
  "get_check_interval idle auto =
    (if idle > 0 then (if auto > 0 then min idle auto else idle) else auto)"

definition mk_save_manager :: "int \<Rightarrow> int \<Rightarrow> int \<Rightarrow> steady \<Rightarrow> steady \<Rightarrow> save_manager" where
  "mk_save_manager idle auto minTime now now' =
    \<lparr>sm_request = mk_request_manager minTime now now', sm_lastModifiedLocalTime = 0, sm_idleSaveInterval = idle, sm_autoSaveInterval = auto,
     sm_checkInterval = get_check_interval idle auto, sm_savingTimeout = 0, sm_lastAutosaveCheckTime = now', sm_version = 0\<rparr>"

definition need_auto_save_check :: "steady \<Rightarrow> save_manager \<Rightarrow> bool" where
  "need_auto_save_check now sm \<longleftrightarrow>
    sm_checkInterval sm > 0 \<and> cdiv (now - sm_lastAutosaveCheckTime sm) ns_per_s * 1000 \<ge> sm_checkInterval sm"

definition auto_save_checked :: "steady \<Rightarrow> save_manager \<Rightarrow> save_manager" where
  "auto_save_checked now sm = sm\<lparr>sm_lastAutosaveCheckTime := now\<rparr>"

definition postpone_autosave :: "int \<Rightarrow> steady \<Rightarrow> save_manager \<Rightarrow> save_manager" where
  "postpone_autosave seconds now sm =
    (let nextCheck = sm_lastAutosaveCheckTime sm + sm_autoSaveInterval sm * ns_per_ms; postponeTime = now + seconds * ns_per_s
     in if nextCheck < postponeTime
        then sm\<lparr>sm_lastAutosaveCheckTime := sm_lastAutosaveCheckTime sm + (postponeTime - nextCheck)\<rparr>
        else sm)"

definition mark_last_save_request_time :: "steady \<Rightarrow> save_manager \<Rightarrow> save_manager" where
  "mark_last_save_request_time now sm = sm\<lparr>sm_request := mark_last_request_time now (sm_request sm)\<rparr>"

definition last_save_successful :: "save_manager \<Rightarrow> bool" where
  "last_save_successful sm \<longleftrightarrow> last_request_successful (sm_request sm)"

definition save_failure_count :: "save_manager \<Rightarrow> nat" where
  "save_failure_count sm = rm_lastRequestFailureCount (sm_request sm)"

definition set_last_save_result :: "bool \<Rightarrow> bool \<Rightarrow> steady \<Rightarrow> save_manager \<Rightarrow> save_manager" where
  "set_last_save_result success newVersion now sm =
    sm\<lparr>sm_version := (if newVersion then sm_version sm + 1 else sm_version sm),
       sm_request := set_last_request_result success now (sm_request sm)\<rparr>"

definition is_saving :: "save_manager \<Rightarrow> bool" where
  "is_saving sm \<longleftrightarrow> rm_is_active (sm_request sm)"

definition has_saving_timed_out :: "steady \<Rightarrow> save_manager \<Rightarrow> bool" where
  "has_saving_timed_out now sm \<longleftrightarrow> has_last_request_timed_out (sm_savingTimeout sm * 1000) now (sm_request sm)"

definition can_save_now :: "bool \<Rightarrow> steady \<Rightarrow> save_manager \<Rightarrow> bool" where
  "can_save_now unloading now sm \<longleftrightarrow> can_request_now unloading now (sm_request sm)"

text \<open>What \<open>setLoaded\<close> makes of the time that loading took\<close>

definition saving_timeout :: "int \<Rightarrow> int" where
  "saving_timeout loadDuration = max (cdiv (loadDuration * 4 + 500) 1000) 5"

section \<open>Uploading\<close>

record storage_manager =
  um_request :: request_manager
  um_lastUploadedFileModifiedLocalTime :: int
  um_lastModifiedServerTimeString :: string
  um_sizeOnServer :: nat
  um_sizeAsUploaded :: nat

definition mk_storage_manager :: "int \<Rightarrow> steady \<Rightarrow> steady \<Rightarrow> storage_manager" where
  "mk_storage_manager minTime now now' =
    \<lparr>um_request = mk_request_manager minTime now now', um_lastUploadedFileModifiedLocalTime = 0, um_lastModifiedServerTimeString = [],
     um_sizeOnServer = 0, um_sizeAsUploaded = 0\<rparr>"

definition last_upload_successful :: "storage_manager \<Rightarrow> bool" where
  "last_upload_successful um \<longleftrightarrow> last_request_successful (um_request um)"

definition set_last_upload_result :: "bool \<Rightarrow> steady \<Rightarrow> storage_manager \<Rightarrow> storage_manager" where
  "set_last_upload_result success now um = um\<lparr>um_request := set_last_request_result success now (um_request um)\<rparr>"

definition mark_last_upload_request_time :: "steady \<Rightarrow> storage_manager \<Rightarrow> storage_manager" where
  "mark_last_upload_request_time now um = um\<lparr>um_request := mark_last_request_time now (um_request um)\<rparr>"

definition upload_failure_count :: "storage_manager \<Rightarrow> nat" where
  "upload_failure_count um = rm_lastRequestFailureCount (um_request um)"

definition can_upload_now :: "bool \<Rightarrow> steady \<Rightarrow> storage_manager \<Rightarrow> bool" where
  "can_upload_now unloading now um \<longleftrightarrow> can_request_now unloading now (um_request um)"

section \<open>Attributes of an upload\<close>

record attributes =
  at_extendedData :: string
  at_forced :: bool
  at_isUserModified :: bool
  at_isAutosave :: bool
  at_isExitSave :: bool

definition at_reset :: attributes where
  "at_reset = \<lparr>at_extendedData = [], at_forced = False, at_isUserModified = False, at_isAutosave = False, at_isExitSave = False\<rparr>"

definition at_merge :: "attributes \<Rightarrow> attributes \<Rightarrow> attributes" where
  "at_merge lhs a =
    \<lparr>at_extendedData = (if at_extendedData lhs \<noteq> [] then at_extendedData lhs else at_extendedData a),
     at_forced = (if at_forced lhs then True else at_forced a),
     at_isUserModified = (if at_isUserModified lhs then True else at_isUserModified a),
     at_isAutosave = (if at_isAutosave lhs then True else at_isAutosave a),
     at_isExitSave = (if at_isExitSave lhs then True else at_isExitSave a)\<rparr>"

section \<open>State of a document\<close>

datatype doc_status = NotThere | Downloading | Loading | Live | Destroying | Destroyed

primrec status_rank :: "doc_status \<Rightarrow> nat" where
  "status_rank NotThere = 0"
| "status_rank Downloading = 1"
| "status_rank Loading = 2"
| "status_rank Live = 3"
| "status_rank Destroying = 4"
| "status_rank Destroyed = 5"

lemma status_rank_inject: "status_rank a = status_rank b \<longleftrightarrow> a = b"
  by (cases a; cases b) simp_all

instantiation doc_status :: linorder
begin

definition less_eq_doc_status :: "doc_status \<Rightarrow> doc_status \<Rightarrow> bool" where
  "less_eq_doc_status a b \<longleftrightarrow> status_rank a \<le> status_rank b"

definition less_doc_status :: "doc_status \<Rightarrow> doc_status \<Rightarrow> bool" where
  "less_doc_status a b \<longleftrightarrow> status_rank a < status_rank b"

instance
  by standard (auto simp: less_eq_doc_status_def less_doc_status_def status_rank_inject [symmetric])

end

datatype activity = Idle | Rename | SaveAs | Conflict | Save | Upload | SyncFileTimestamp | SwitchingToOffline | SwitchingToOnline

datatype kit_disconnected = Connected | NormalDisconnect | UnexpectedDisconnect

record doc_state =
  ds_status :: doc_status
  ds_activity :: activity
  ds_loaded :: bool
  ds_closeRequested :: bool
  ds_unloadRequested :: bool
  ds_kitDisconnected :: kit_disconnected
  ds_interactive :: bool

definition mk_doc_state :: doc_state where
  "mk_doc_state =
    \<lparr>ds_status = NotThere, ds_activity = Idle, ds_loaded = False, ds_closeRequested = False, ds_unloadRequested = False,
     ds_kitDisconnected = Connected, ds_interactive = False\<rparr>"

definition set_status :: "doc_status \<Rightarrow> doc_state \<Rightarrow> doc_state res" where
  "set_status st ds = (if st \<ge> ds_status ds then Ok (ds\<lparr>ds_status := st\<rparr>) else Err AssertionFailed)"

definition set_live :: "doc_state \<Rightarrow> doc_state res" where
  "set_live ds = set_status Live (ds\<lparr>ds_loaded := True\<rparr>)"

definition ds_mark_to_destroy :: "doc_state \<Rightarrow> doc_state" where
  "ds_mark_to_destroy ds = ds\<lparr>ds_status := Destroying\<rparr>"

definition ds_is_marked_to_destroy :: "doc_state \<Rightarrow> bool" where
  "ds_is_marked_to_destroy ds \<longleftrightarrow> ds_status ds \<ge> Destroying"

definition is_kit_disconnected :: "doc_state \<Rightarrow> bool" where
  "is_kit_disconnected ds \<longleftrightarrow> ds_kitDisconnected ds \<noteq> Connected"

definition start_activity :: "activity \<Rightarrow> doc_state \<Rightarrow> doc_state res" where
  "start_activity a ds =
    (if a = Idle then Err AssertionFailed
     else if ds_activity ds \<noteq> Idle then Err AssertionFailed
     else Ok (ds\<lparr>ds_activity := a\<rparr>))"

definition end_activity :: "doc_state \<Rightarrow> doc_state" where
  "end_activity ds = ds\<lparr>ds_activity := Idle\<rparr>"

end
