(* ===== verification/Documents.thy ===== *)
theory Documents
  imports SaveManagers Protocol HttpHeaders
begin

text \<open>
  A document in the server: the fields of the class \<open>DocumentBroker\<close> that saving, uploading, renaming, locking and unloading use, with
  the sessions of the document, its files on disk and the connection that uploads (src/wsd/DocumentBroker.hpp/.cpp,
  src/wsd/ClientSession.hpp, src/wsd/wopi/WopiStorage.cpp). The storage is the WOPI storage.
\<close>

section \<open>Sessions\<close>

datatype session_state = Detached | SessionLoading | SessionLive | WaitDisconnect

record doc_session =
  se_id :: string
  se_userName :: string
  se_state :: session_state
  se_stateTime :: steady
  se_closeFrame :: bool
  se_readOnly :: bool
  se_allowChangeComments :: bool
  se_allowManageRedlines :: bool
  se_writable :: bool
  se_expired :: bool
  se_documentOwner :: bool
  se_lockFailed :: bool

definition is_editable :: "doc_session \<Rightarrow> bool" where
  "is_editable s \<longleftrightarrow> \<not> se_readOnly s \<or> se_allowChangeComments s \<or> se_allowManageRedlines s"

definition is_view_loaded :: "doc_session \<Rightarrow> bool" where
  "is_view_loaded s \<longleftrightarrow> se_state s = SessionLive"

definition in_wait_disconnected :: "doc_session \<Rightarrow> bool" where
  "in_wait_disconnected s \<longleftrightarrow> se_state s = WaitDisconnect"

definition is_live :: "doc_session \<Rightarrow> bool" where
  "is_live s \<longleftrightarrow> se_state s = SessionLive \<and> \<not> se_closeFrame s"

definition invalidate_authorization_token :: "doc_session \<Rightarrow> doc_session" where
  "invalidate_authorization_token s = s\<lparr>se_expired := True\<rparr>"

section \<open>Files, requests and answers\<close>

record 'c doc_file =
  fi_content :: 'c
  fi_size :: nat
  fi_time :: int

record upload_request =
  ur_newFileModifiedLocalTime :: int
  ur_session :: string
  ur_isSaveAs :: bool
  ur_isExport :: bool
  ur_isRename :: bool
  ur_completed :: bool

datatype upload_result = UploadOk | DiskFull | TooLarge | Unauthorized | DocChanged | StorageConflict | UploadFailed

record upload_answer =
  ua_result :: upload_result
  ua_reason :: string
  ua_saveAsName :: string
  ua_saveAsUrl :: string

datatype lock_state = Lock | Unlock
datatype lock_status = LocksUnsupported | LockOk | LockUnauthorized | LockFailed

text \<open>The answer of the storage to a change of the lock: a status with the reason of a failure, or an exception\<close>

datatype lock_reply = LockReply nat string | LockThrows string

record lock_context =
  lk_lockToken :: string
  lk_refreshSeconds :: int
  lk_supportsLocks :: bool
  lk_lastLockTime :: steady
  lk_lockState :: lock_state

definition is_locked :: "lock_context \<Rightarrow> bool" where
  "is_locked lk \<longleftrightarrow> lk_lockState lk = Lock"

definition bump_timer :: "steady \<Rightarrow> lock_context \<Rightarrow> lock_context" where
  "bump_timer now lk = lk\<lparr>lk_lastLockTime := now\<rparr>"

definition set_lock_state :: "lock_state \<Rightarrow> steady \<Rightarrow> lock_context \<Rightarrow> lock_context" where
  "set_lock_state st now lk = bump_timer now (lk\<lparr>lk_lockState := st\<rparr>)"

definition needs_refresh :: "steady \<Rightarrow> lock_context \<Rightarrow> bool" where
  "needs_refresh now lk \<longleftrightarrow>
    lk_supportsLocks lk \<and> is_locked lk \<and> lk_refreshSeconds lk > 0 \<and> now - lk_lastLockTime lk \<ge> lk_refreshSeconds lk * ns_per_s"

text \<open>A request to the storage that carries a file: the header and the body sent, and what its handler of the answer captures\<close>

record 'c upload_session =
  us_isSaveAs :: bool
  us_isRename :: bool
  us_contents :: bool
  us_header :: header
  us_body :: "'c doc_file"

section \<open>The document\<close>

datatype posted = ToClient string string | ToKit string string | ToUrp string

text \<open>The configuration\<close>

record doc_config =
  cf_alwaysSaveOnExit :: bool
  cf_backgroundAutoSave :: bool
  cf_backgroundManualSave :: bool
  cf_forceBackground :: bool
  cf_limitStoreFailures :: int
  cf_idleTimeoutSecs :: int
  cf_legacyServer :: bool
  cf_indirectionServer :: bool
  cf_migrationTimeoutUs :: int
  cf_limitLoadSecs :: int
  cf_limitLifeSecs :: int
  cf_convertTo :: bool

text \<open>
  What a handler finds outside while it runs: the time, whether the server shuts down, the process of the kit (0 when there is none) and
  whether it takes messages, whether files can be renamed and a request started, the answer of the storage to a change of the
  lock, the file of a save-as, the header of a request that Poco makes of the authorization, and how names and URLs are written.
\<close>

record 'c outside =
  oc_now :: steady
  oc_shutdown :: bool
  oc_pid :: int
  oc_sendFrame :: bool
  oc_rename :: bool
  oc_connects :: bool
  oc_lock :: lock_reply
  oc_saveAsFile :: "'c doc_file option"
  oc_requestHeader :: header
  oc_utf7 :: "string \<Rightarrow> string"
  oc_encode :: "string \<Rightarrow> string"
  oc_pocoEncode :: "string \<Rightarrow> string"
  oc_url :: "string \<Rightarrow> string"
  oc_urlNoToken :: "string \<Rightarrow> string"
  oc_anonymize :: "string \<Rightarrow> string"
  oc_jail :: "string \<times> string"
  oc_urpOpen :: bool
  oc_signature :: "string \<Rightarrow> string option"
  oc_accessibility :: "string \<Rightarrow> bool"

record 'c document =
  dm_config :: doc_config
  dm_save :: save_manager
  dm_store :: storage_manager
  dm_state :: doc_state
  dm_sessions :: "doc_session list"
  dm_nextAttrs :: attributes
  dm_currentAttrs :: attributes
  dm_lastAttrs :: attributes
  dm_uploadRequest :: "upload_request option"
  dm_lockRequest :: "string option"
  dm_lockSession :: "(lock_state \<times> header) option"
  dm_checkFileInfo :: "string option"
  dm_storage :: bool
  dm_storageTime :: string
  dm_uploadSession :: "'c upload_session option"
  dm_toUpload :: "'c doc_file option"
  dm_uploading :: "'c doc_file option"
  dm_lock :: lock_context
  dm_filename :: string
  dm_closeReason :: string
  dm_renameFilename :: string
  dm_renameSessionId :: string
  dm_lastEditingSessionId :: string
  dm_lastActivityTime :: steady
  dm_lastModifyActivityTime :: steady
  dm_isModified :: bool
  dm_stop :: bool
  dm_documentChangedInStorage :: bool
  dm_migrateMsgReceived :: bool
  dm_migrationWait :: "steady option"
  dm_threadStart :: steady
  dm_loadDeadline :: steady
  dm_clipboardTime :: steady
  dm_isViewFileExtension :: bool
  dm_sent :: "posted list"

abbreviation (input) update_state :: "(doc_state \<Rightarrow> doc_state) \<Rightarrow> 'c document \<Rightarrow> 'c document" where
  "update_state f d \<equiv> d\<lparr>dm_state := f (dm_state d)\<rparr>"

definition find_session :: "string \<Rightarrow> 'c document \<Rightarrow> doc_session option" where
  "find_session i d = List.find (\<lambda>s. se_id s = i) (dm_sessions d)"

definition change_session :: "string \<Rightarrow> (doc_session \<Rightarrow> doc_session) \<Rightarrow> 'c document \<Rightarrow> 'c document" where
  "change_session i f d = d\<lparr>dm_sessions := map (\<lambda>s. if se_id s = i then f s else s) (dm_sessions d)\<rparr>"

section \<open>Messages\<close>

definition session_send :: "string \<Rightarrow> string \<Rightarrow> 'c document \<Rightarrow> 'c document" where
  "session_send i msg d =
    (case find_session i d of
       Some s \<Rightarrow> if \<not> se_closeFrame s then d\<lparr>dm_sent := dm_sent d @ [ToClient i msg]\<rparr> else d
     | None \<Rightarrow> d)"

definition session_set_read_only :: "string \<Rightarrow> bool \<Rightarrow> 'c document \<Rightarrow> 'c document" where
  "session_set_read_only i b d =
    session_send i (''perm: '' @ (if b then ''readonly'' else ''edit'')) (change_session i (\<lambda>s. s\<lparr>se_readOnly := b\<rparr>) d)"

definition session_set_writable :: "string \<Rightarrow> bool \<Rightarrow> 'c document \<Rightarrow> 'c document" where
  "session_set_writable i writable d =
    (let d = change_session i (\<lambda>s. s\<lparr>se_writable := writable\<rparr>) d
     in if writable then d
        else change_session i (\<lambda>s. s\<lparr>se_allowChangeComments := False, se_allowManageRedlines := False\<rparr>) (session_set_read_only i True d))"

definition broadcast_message :: "string \<Rightarrow> 'c document \<Rightarrow> nat \<times> 'c document" where
  "broadcast_message msg d =
    (let open = filter (\<lambda>s. \<not> se_closeFrame s) (dm_sessions d)
     in (length open, d\<lparr>dm_sent := dm_sent d @ map (\<lambda>s. ToClient (se_id s) msg) open\<rparr>))"

definition broadcast_message_to_others :: "string \<Rightarrow> string \<Rightarrow> 'c document \<Rightarrow> 'c document" where
  "broadcast_message_to_others msg i d =
    fold (\<lambda>s. session_send (se_id s) msg) (filter (\<lambda>s. se_id s \<noteq> i) (dm_sessions d)) d"

definition quoted :: "string \<Rightarrow> string" where
  "quoted s = [CHR 0x22] @ s @ [CHR 0x22]"

definition broadcast_save_result :: "bool \<Rightarrow> string \<Rightarrow> string \<Rightarrow> 'c document \<Rightarrow> 'c document" where
  "broadcast_save_result success result errorMsg d =
    (let errorMsg = map (\<lambda>c. if c = CHR 0x22 then CHR 0x27 else c) (get_abbreviated_message errorMsg)
     in snd (broadcast_message
       (''commandresult: { '' @ quoted ''command'' @ '': '' @ quoted ''save'' @ '', '' @ quoted ''success'' @ '': '' @
        (if success then ''true'' else ''false'') @ '', '' @ quoted ''result'' @ '': '' @ quoted result @ '', '' @ quoted ''errorMsg'' @ '': '' @
        quoted errorMsg @ ''}'') d))"

section \<open>Conditions\<close>

definition is_marked_to_destroy :: "'c document \<Rightarrow> bool" where
  "is_marked_to_destroy d \<longleftrightarrow> ds_is_marked_to_destroy (dm_state d) \<or> dm_stop d"

definition is_unloading_unrecoverably :: "'c outside \<Rightarrow> 'c document \<Rightarrow> bool" where
  "is_unloading_unrecoverably oc d \<longleftrightarrow>
    is_marked_to_destroy d \<or> ds_closeRequested (dm_state d) \<or> dm_stop d \<or> oc_shutdown oc"

definition is_unloading :: "'c outside \<Rightarrow> 'c document \<Rightarrow> bool" where
  "is_unloading oc d \<longleftrightarrow> is_unloading_unrecoverably oc d \<or> ds_unloadRequested (dm_state d)"

abbreviation is_loaded :: "'c document \<Rightarrow> bool" where "is_loaded d \<equiv> ds_loaded (dm_state d)"

definition have_modify_activity_after_save_request :: "'c document \<Rightarrow> bool" where
  "have_modify_activity_after_save_request d \<longleftrightarrow> rm_lastRequestTime (sm_request (dm_save d)) < dm_lastModifyActivityTime d"

definition is_possibly_modified :: "'c document \<Rightarrow> bool" where
  "is_possibly_modified d \<longleftrightarrow>
    (if have_modify_activity_after_save_request d then True
     else if dm_isViewFileExtension d then \<not> last_save_successful (dm_save d)
     else dm_isModified d)"

datatype need_to_save = SaveNo | SaveMaybe | SaveModified | SaveLastFailed

definition need_to_save_to_disk :: "'c document \<Rightarrow> need_to_save" where
  "need_to_save_to_disk d =
    (if \<not> last_save_successful (dm_save d) then SaveLastFailed
     else if dm_isModified d \<and> \<not> dm_isViewFileExtension d then SaveModified
     else if have_modify_activity_after_save_request d then SaveMaybe
     else SaveNo)"

text \<open>The session to save with, of the sessions that follow one found so far\<close>

fun writeable_from :: "doc_session option \<Rightarrow> doc_session list \<Rightarrow> doc_session option" where
  "writeable_from found [] = found"
| "writeable_from found (s # ss) =
    (let found = (if found = None \<or> is_view_loaded s \<and> is_editable s \<and> \<not> se_expired s then Some s else found)
     in if se_documentOwner s then Some s else writeable_from found ss)"

definition get_writeable_session :: "'c document \<Rightarrow> doc_session option" where
  "get_writeable_session d = writeable_from None (dm_sessions d)"

definition get_first_authorized_session :: "'c document \<Rightarrow> doc_session option" where
  "get_first_authorized_session d = List.find (\<lambda>s. \<not> se_expired s) (dm_sessions d)"

datatype can_save = CanSave | NoKit | NotLoaded | NoWriteSession

definition can_save_to_disk :: "'c outside \<Rightarrow> 'c document \<Rightarrow> can_save" where
  "can_save_to_disk oc d =
    (if is_kit_disconnected (dm_state d) \<or> oc_pid oc \<le> 0 then NoKit
     else if \<not> is_loaded d then NotLoaded
     else if dm_sessions d = [] \<or> get_writeable_session d = None then NoWriteSession
     else CanSave)"

definition is_storage_outdated :: "'c document \<Rightarrow> bool" where
  "is_storage_outdated d \<longleftrightarrow>
    dm_storage d \<and>
    (case dm_uploading d of
       None \<Rightarrow> False
     | Some f \<Rightarrow> fi_time f \<noteq> um_lastUploadedFileModifiedLocalTime (dm_store d))"

definition can_upload_to_storage :: "'c document \<Rightarrow> bool" where
  "can_upload_to_storage d \<longleftrightarrow> dm_storage d"

definition need_to_upload_to_storage :: "'c outside \<Rightarrow> 'c document \<Rightarrow> bool" where
  "need_to_upload_to_storage oc d \<longleftrightarrow>
    can_upload_to_storage d \<and>
    (is_unloading oc d \<and> cf_alwaysSaveOnExit (dm_config d) \<and> sm_version (dm_save d) > 0 \<or>
     \<not> last_upload_successful (dm_store d) \<and> \<not> dm_documentChangedInStorage d \<or>
     is_storage_outdated d)"

definition is_async_uploading :: "'c document \<Rightarrow> bool" where
  "is_async_uploading d \<longleftrightarrow> dm_storage d \<and> dm_uploadSession d \<noteq> None"

definition have_another_editable_session :: "string \<Rightarrow> 'c document \<Rightarrow> bool" where
  "have_another_editable_session i d \<longleftrightarrow> (\<exists>s \<in> set (dm_sessions d). se_id s \<noteq> i \<and> is_view_loaded s \<and> is_editable s)"

definition count_active_sessions :: "'c document \<Rightarrow> nat" where
  "count_active_sessions d = length (filter is_live (dm_sessions d))"

definition count_loading_sessions :: "'c document \<Rightarrow> nat" where
  "count_loading_sessions d = length (filter (\<lambda>s. \<not> is_live s \<and> \<not> in_wait_disconnected s) (dm_sessions d))"

text \<open>The check for a loss of data when the thread of the document ends\<close>

definition data_loss :: "'c document \<Rightarrow> bool" where
  "data_loss d \<longleftrightarrow>
    (have_modify_activity_after_save_request d \<or> \<not> last_save_successful (dm_save d) \<or> \<not> last_upload_successful (dm_store d) \<or>
     is_storage_outdated d) \<and>
    \<not> (ds_closeRequested (dm_state d) \<and> dm_documentChangedInStorage d)"

end
