(* ===== verification/DocumentSaving.thy ===== *)
theory DocumentSaving
  imports Documents
begin

text \<open>
  Saving, uploading, renaming and unloading of a document: the methods of \<open>DocumentBroker\<close> in src/wsd/DocumentBroker.cpp. An assertion
  that fails, a null pointer and an element erased under a loop are errors. The notifications of the admin console, quarantine copies
  and unit-test hooks are left out.
\<close>

section \<open>Messages to the kit\<close>

text \<open>\<open>forwardToChild\<close> for the messages of this component, which are not \<open>urp\<close> and \<open>load\<close>\<close>

text \<open>What the view settings add to the message that loads a document\<close>

definition apply_sign_view_settings :: "'c outside \<Rightarrow> string \<Rightarrow> string \<Rightarrow> string" where
  "apply_sign_view_settings oc i msg = (case oc_signature oc i of None \<Rightarrow> msg | Some json \<Rightarrow> msg @ '' signatureconfig='' @ json)"

definition apply_browser_accessibility :: "'c outside \<Rightarrow> string \<Rightarrow> string \<Rightarrow> string" where
  "apply_browser_accessibility oc i msg =
    (if \<not> oc_accessibility oc i then msg
     else
       let ts = sv_texts (tokenize msg (CHR '' ''));
           given = starts_with ''accessibilityState'';
           ws = map (\<lambda>t. if given t then ''accessibilityState=true'' else t) ts
       in concat (map (\<lambda>(k, w). (if k = 0 then [] else '' '') @ w) (enumerate 0 ws)) @
          (if list_ex given ts then [] else '' accessibilityState=true''))"

definition apply_view_setting :: "'c outside \<Rightarrow> string \<Rightarrow> string \<Rightarrow> string" where
  "apply_view_setting oc i msg = apply_browser_accessibility oc i (apply_sign_view_settings oc i msg)"

text \<open>The frame that goes to the kit, with its prefix\<close>

definition child_frame :: "'c outside \<Rightarrow> string \<Rightarrow> string \<Rightarrow> string" where
  "child_frame oc i msg =
    (let prefix = ''child-'' @ i @ '' ''
     in if \<not> starts_with ''load '' msg then prefix @ msg
        else
          let tokens = tokenize msg (CHR '' '')
          in if sv_size tokens > 1 \<and> sv_equals tokens 0 ''load''
             then apply_view_setting oc i
               (prefix @ ''load '' @ sv_nth tokens 1 @ '' jail='' @ fst (oc_jail oc) @ '' xjail='' @ snd (oc_jail oc) @ '' '' @
                sv_cat '' '' 2 None tokens)
             else prefix @ msg)"

definition forward_urp_to_child :: "'c outside \<Rightarrow> string \<Rightarrow> 'c document \<Rightarrow> bool \<times> 'c document" where
  "forward_urp_to_child oc msg d =
    (if \<not> oc_urpOpen oc \<or> length msg < 4 then (False, d) else (True, d\<lparr>dm_sent := dm_sent d @ [ToUrp (drop 4 msg)]\<rparr>))"

definition forward_to_child :: "'c outside \<Rightarrow> string \<Rightarrow> string \<Rightarrow> 'c document \<Rightarrow> (bool \<times> 'c document) res" where
  "forward_to_child oc i msg d =
    (if starts_with ''urp '' msg then Ok (forward_urp_to_child oc msg d)
     else if find_session i d = None then Ok (False, d)
     else if \<not> is_loaded d \<and> (msg = ''userinactive'' \<or> msg = ''useractive'') then Ok (True, d)
     else if is_unloading oc d \<and> (starts_with ''textinput '' msg \<or> starts_with ''mouse '' msg \<or> starts_with ''key '' msg) then Ok (True, d)
     else if starts_with ''uno .uno:Save'' msg then Err AssertionFailed
     else if oc_sendFrame oc then Ok (True, d\<lparr>dm_sent := dm_sent d @ [ToKit i (child_frame oc i msg)]\<rparr>)
     else Ok (False, d))"

section \<open>Stopping\<close>

definition stop :: "string \<Rightarrow> 'c document \<Rightarrow> 'c document" where
  "stop reason d =
    (let d = (if dm_closeReason d = [] \<or> dm_closeReason d = reason then d\<lparr>dm_closeReason := reason\<rparr> else d)
     in d\<lparr>dm_stop := True\<rparr>)"

definition close_document :: "string \<Rightarrow> 'c document \<Rightarrow> 'c document" where
  "close_document reason d =
    (let d = (update_state (\<lambda>ds. ds\<lparr>ds_closeRequested := True\<rparr>) d)\<lparr>dm_closeReason := reason\<rparr>
     in if dm_documentChangedInStorage d then stop reason d else d)"

definition fails_loading :: "doc_session \<Rightarrow> bool" where
  "fails_loading s \<longleftrightarrow> \<not> is_live s \<and> \<not> in_wait_disconnected s \<and> \<not> se_closeFrame s"

definition fail_loading_sessions :: "bool \<Rightarrow> 'c document \<Rightarrow> 'c document" where
  "fail_loading_sessions remove d =
    (let failed = rev (filter fails_loading (dm_sessions d));
         d = fold (\<lambda>s. session_send (se_id s) ''error: cmd=load kind=docunloading'') failed d
     in if remove then d\<lparr>dm_sessions := filter (\<lambda>s. \<not> fails_loading s) (dm_sessions d)\<rparr> else d)"

definition disconnected_from_kit :: "bool \<Rightarrow> 'c document \<Rightarrow> 'c document" where
  "disconnected_from_kit unexpected d =
    (let d = update_state (\<lambda>ds. ds\<lparr>ds_kitDisconnected := (if unexpected then UnexpectedDisconnect else NormalDisconnect)\<rparr>) d;
         d = (if dm_closeReason d = [] then close_document ''docdisconnected'' d else d)
     in fail_loading_sessions False d)"

section \<open>Saving\<close>

definition save_command :: "bool \<Rightarrow> bool \<Rightarrow> bool \<Rightarrow> string" where
  "save_command background dontTerminateEdit dontSaveIfUnmodified =
    ''save background='' @ (if background then ''true '' else '' '') @
    ''{'' @ quoted ''DontTerminateEdit'' @ '' : { '' @ quoted ''type'' @ '':'' @ quoted ''boolean'' @ '', '' @ quoted ''value'' @ '':'' @
    (if dontTerminateEdit then ''true'' else ''false'') @ '' }'' @
    (if dontSaveIfUnmodified
     then '','' @ quoted ''DontSaveIfUnmodified'' @ '' : { '' @ quoted ''type'' @ '':'' @ quoted ''boolean'' @ '', '' @ quoted ''value'' @ '':true }''
     else []) @
    ''}''"

definition max_background_failures :: nat where "max_background_failures = 2"

definition can_save_in_background :: "bool \<Rightarrow> bool \<Rightarrow> 'c document \<Rightarrow> bool" where
  "can_save_in_background autosave finalWrite d \<longleftrightarrow>
    (let cf = dm_config d;
         configured = (autosave \<and> cf_backgroundAutoSave cf \<or> cf_backgroundManualSave cf);
         possible = (cf_forceBackground cf \<or> \<not> finalWrite \<and> configured)
     in possible \<and> last_save_successful (dm_save d) \<and> save_failure_count (dm_save d) < max_background_failures)"

definition send_uno_save :: "'c outside \<Rightarrow> string \<Rightarrow> bool \<Rightarrow> bool \<Rightarrow> bool \<Rightarrow> bool \<Rightarrow> string \<Rightarrow> 'c document \<Rightarrow> (bool \<times> 'c document) res" where
  "send_uno_save oc i dontTerminateEdit dontSaveIfUnmodified autosave finalWrite extendedData d =
    (let d = d\<lparr>dm_save := (dm_save d)\<lparr>sm_lastModifiedLocalTime := 0\<rparr>\<rparr>;
         background = can_save_in_background autosave finalWrite d;
         dontTerminateEdit = (dontTerminateEdit \<and> \<not> background);
         attrs = (dm_nextAttrs d)\<lparr>at_isUserModified := dm_isModified d \<or> have_modify_activity_after_save_request d,
                   at_isAutosave := autosave, at_extendedData := extendedData\<rparr>;
         d = d\<lparr>dm_nextAttrs := attrs\<rparr>
     in res_bind (forward_to_child oc i (save_command background dontTerminateEdit dontSaveIfUnmodified) d) (\<lambda>(sent, d).
          if \<not> sent then Ok (False, d)
          else
            let d = d\<lparr>dm_save := mark_last_save_request_time (oc_now oc) (dm_save d)\<rparr>
            in if ds_activity (dm_state d) = Idle
               then res_bind (start_activity Save (dm_state d)) (\<lambda>ds. Ok (True, d\<lparr>dm_state := ds\<rparr>))
               else Ok (True, d)))"

definition manual_save :: "'c outside \<Rightarrow> string \<Rightarrow> bool \<Rightarrow> bool \<Rightarrow> string \<Rightarrow> 'c document \<Rightarrow> (bool \<times> 'c document) res" where
  "manual_save oc i dontTerminateEdit dontSaveIfUnmodified extendedData d =
    (if ds_activity (dm_state d) \<noteq> Save then send_uno_save oc i dontTerminateEdit dontSaveIfUnmodified False False extendedData d
     else Ok (False, d))"

text \<open>The session that saves by itself: the one that edited last when it still can, or one that can write\<close>

definition auto_saving_session :: "'c document \<Rightarrow> doc_session option" where
  "auto_saving_session d =
    (case find_session (dm_lastEditingSessionId d) d of
       Some s \<Rightarrow> if is_editable s \<and> is_view_loaded s then Some s else get_writeable_session d
     | None \<Rightarrow> get_writeable_session d)"

text \<open>Whether it is time to save, for a document that is modified\<close>

definition timed_save :: "'c outside \<Rightarrow> 'c document \<Rightarrow> bool" where
  "timed_save oc d \<longleftrightarrow>
    (let sm = dm_save d; now = oc_now oc; inactivityTime = to_ms (now - dm_lastActivityTime d);
         sinceLastSave = min (time_since_last_request now (sm_request sm)) (time_since_last_response now (um_request (dm_store d)))
     in sm_idleSaveInterval sm > 0 \<and> inactivityTime \<ge> sm_idleSaveInterval sm \<and> sinceLastSave \<ge> sm_idleSaveInterval sm \<or>
        sm_autoSaveInterval sm > 0 \<and> sinceLastSave \<ge> sm_autoSaveInterval sm)"

definition auto_save :: "'c outside \<Rightarrow> bool \<Rightarrow> bool \<Rightarrow> bool \<Rightarrow> 'c document \<Rightarrow> (bool \<times> 'c document) res" where
  "auto_save oc force dontSaveIfUnmodified finalWrite d =
    (if ds_activity (dm_state d) = Save then Ok (True, d)
     else
       let d = d\<lparr>dm_save := auto_save_checked (oc_now oc) (dm_save d)\<rparr>
       in if can_save_to_disk oc d \<noteq> CanSave then Ok (False, d)
          else if \<not> dm_isModified d \<and> \<not> force then Ok (False, d)
          else case auto_saving_session d of
            None \<Rightarrow> Ok (False, d)
          | Some s \<Rightarrow>
              if force then send_uno_save oc (se_id s) True dontSaveIfUnmodified False finalWrite [] d
              else if dm_isModified d \<and> timed_save oc d then send_uno_save oc (se_id s) True True True finalWrite [] d
              else Ok (False, d))"

section \<open>Renaming and switching to offline mode\<close>

definition end_rename_file_command :: "'c document \<Rightarrow> 'c document" where
  "end_rename_file_command d =
    (let d = d\<lparr>dm_renameSessionId := [], dm_renameFilename := []\<rparr>; d = snd (broadcast_message ''unblockui: '' d)
     in update_state end_activity d)"

definition start_rename_file_command :: "'c outside \<Rightarrow> 'c document \<Rightarrow> 'c document res" where
  "start_rename_file_command oc d =
    (if dm_renameSessionId d = [] \<or> dm_renameFilename d = [] then Err AssertionFailed
     else res_bind (start_activity Rename (dm_state d)) (\<lambda>ds.
       let d = snd (broadcast_message ''blockui: rename'' (d\<lparr>dm_state := ds\<rparr>))
       in if find_session (dm_renameSessionId d) d = None
          then Ok (end_rename_file_command (broadcast_save_result False ''Renaming session not found'' [] d))
          else res_bind (send_uno_save oc (dm_renameSessionId d) False True False True [] d) (\<lambda>(_, d). Ok d)))"

definition handle_rename_file_command :: "'c outside \<Rightarrow> string \<Rightarrow> string \<Rightarrow> 'c document \<Rightarrow> (string \<times> 'c document) res" where
  "handle_rename_file_command oc i newFilename d =
    (if newFilename = [] then Ok (''error: cmd=renamefile kind=invalid'', d)
     else if ds_activity (dm_state d) = Rename \<and> dm_renameFilename d \<noteq> newFilename
     then Ok (''error: cmd=renamefile kind=conflict'', d)
     else
       let d = d\<lparr>dm_renameFilename := newFilename, dm_renameSessionId := i\<rparr>
       in if ds_activity (dm_state d) = Idle then res_bind (start_rename_file_command oc d) (\<lambda>d. Ok ([], d))
          else Ok ([], d))"

definition end_switching :: "'c document \<Rightarrow> 'c document" where
  "end_switching d = update_state end_activity (snd (broadcast_message ''unblockui: '' d))"

definition start_switching_to_offline :: "'c outside \<Rightarrow> string \<Rightarrow> 'c document \<Rightarrow> 'c document res" where
  "start_switching_to_offline oc i d =
    (if ds_activity (dm_state d) \<noteq> Idle then Ok d
     else res_bind (start_activity SwitchingToOffline (dm_state d)) (\<lambda>ds.
       res_bind (send_uno_save oc i False True False True [] (snd (broadcast_message ''blockui: switchingtooffline'' (d\<lparr>dm_state := ds\<rparr>))))
         (\<lambda>(_, d). Ok d)))"

definition start_switching_to_online :: "'c document \<Rightarrow> 'c document res" where
  "start_switching_to_online d =
    (if ds_activity (dm_state d) \<noteq> Idle then Ok d
     else res_bind (start_activity SwitchingToOnline (dm_state d)) (\<lambda>ds.
       Ok (snd (broadcast_message ''blockui: switchingtoonline'' (d\<lparr>dm_state := ds\<rparr>)))))"

text \<open>The record of the mode that is kept for the next connection is left out.\<close>

definition switch_to_offline :: "'c document \<Rightarrow> 'c document res" where
  "switch_to_offline d =
    (case dm_sessions d of
       [s] \<Rightarrow> Ok (session_send (se_id s) ''reload'' (update_state (ds_mark_to_destroy \<circ> end_activity) d))
     | _ \<Rightarrow> Err AssertionFailed)"

definition switch_mode :: "'c outside \<Rightarrow> string \<Rightarrow> string \<Rightarrow> 'c document \<Rightarrow> 'c document res" where
  "switch_mode oc i mode d =
    (if mode = ''online'' then start_switching_to_online d
     else if mode = ''offline'' then
       if length (dm_sessions d) > 1 then Ok (session_send i ''error: cmd=switch kind=multiviews'' d)
       else start_switching_to_offline oc i d
     else Ok d)"

end
