(* ===== verification/DocumentLocks.thy ===== *)
theory DocumentLocks
  imports DocumentSaving
begin

text \<open>
  The lock of a document in the storage, and the sessions that leave (src/wsd/DocumentBroker.cpp, src/wsd/ClientSession.cpp and the
  requests of src/wsd/wopi/WopiStorage.cpp). A session that is no more among the sessions of its document counts as destroyed.
\<close>

section \<open>Requests of the storage\<close>

definition set_extended_data :: "bool \<Rightarrow> string \<Rightarrow> header \<Rightarrow> header" where
  "set_extended_data legacy v h =
    (let h = hd_set ''X-COOL-WOPI-ExtendedData'' v h in if legacy then hd_set ''X-LOOL-WOPI-ExtendedData'' v h else h)"

definition lock_header :: "'c outside \<Rightarrow> lock_state \<Rightarrow> 'c document \<Rightarrow> header" where
  "lock_header oc lock d =
    (let h = hd_set ''X-WOPI-Override'' (if lock = Lock then ''LOCK'' else ''UNLOCK'') (oc_requestHeader oc);
         h = hd_set ''X-WOPI-Lock'' (lk_lockToken (dm_lock d)) h;
         data = at_extendedData (dm_currentAttrs d);
         h = (if data \<noteq> [] then set_extended_data (cf_legacyServer (dm_config d)) data h else h)
     in set_content_length 0 h)"

text \<open>The synchronous request: its status, the reason of a failure, and the lock as it leaves it\<close>

definition storage_lock :: "'c outside \<Rightarrow> lock_state \<Rightarrow> 'c document \<Rightarrow> (lock_status \<times> string) \<times> 'c document" where
  "storage_lock oc lock d =
    (if \<not> lk_supportsLocks (dm_lock d) then ((LocksUnsupported, []), d)
     else case oc_lock oc of
       LockReply status reason \<Rightarrow>
         if status = 200 then ((LockOk, []), d\<lparr>dm_lock := set_lock_state lock (oc_now oc) (dm_lock d)\<rparr>)
         else ((LockFailed, reason), d)
     | LockThrows what \<Rightarrow> ((LockFailed, ''Internal error: '' @ what), d))"

section \<open>Locking\<close>

definition set_lock_failed :: "string \<Rightarrow> string \<Rightarrow> 'c document \<Rightarrow> 'c document" where
  "set_lock_failed i reason d =
    session_send i (''lockfailed:'' @ reason)
      (session_set_read_only i True (change_session i (\<lambda>s. s\<lparr>se_lockFailed := True\<rparr>) d))"

definition handle_lock_result ::
    "'c outside \<Rightarrow> string \<Rightarrow> lock_state \<Rightarrow> lock_status \<times> string \<Rightarrow> 'c document \<Rightarrow> bool \<times> 'c document" where
  "handle_lock_result oc i lock result d =
    (case result of (status, reason) \<Rightarrow>
       case status of
         LocksUnsupported \<Rightarrow> (True, d)
       | LockOk \<Rightarrow> (True, d\<lparr>dm_lock := set_lock_state lock (oc_now oc) (dm_lock d)\<rparr>)
       | LockUnauthorized \<Rightarrow>
           let d = change_session i invalidate_authorization_token d
           in (False, if lock = Lock then set_lock_failed i reason d else d)
       | LockFailed \<Rightarrow> (False, if lock = Lock then set_lock_failed i reason d else d))"

definition update_storage_lock_state :: "'c outside \<Rightarrow> doc_session \<Rightarrow> lock_state \<Rightarrow> 'c document \<Rightarrow> bool \<times> string \<times> 'c document" where
  "update_storage_lock_state oc s lock d =
    (if se_expired s then (False, ''Expired authorization token'', d)
     else if lock = Lock \<and> se_readOnly s then (False, ''Readonly session'', d)
     else if \<not> dm_storage d then (False, ''Missing storage'', d)
     else case storage_lock oc lock d of
       (result, d) \<Rightarrow> case handle_lock_result oc (se_id s) lock result d of (ok, d) \<Rightarrow> (ok, [], d))"

definition attempt_lock :: "'c outside \<Rightarrow> doc_session \<Rightarrow> 'c document \<Rightarrow> bool \<times> string \<times> 'c document" where
  "attempt_lock oc s d = update_storage_lock_state oc s Lock d"

text \<open>The callback of the asynchronous request, when it is not called for a request that runs\<close>

definition lock_answered :: "'c outside \<Rightarrow> lock_state \<Rightarrow> lock_status \<times> string \<Rightarrow> 'c document \<Rightarrow> 'c document" where
  "lock_answered oc lock result d =
    (case dm_lockRequest d of
       None \<Rightarrow> d
     | Some i \<Rightarrow>
         let d = d\<lparr>dm_lockRequest := None\<rparr>
         in if find_session i d = None then d else snd (handle_lock_result oc i lock result d))"

text \<open>The asynchronous request; when the connection fails, no handler is called.\<close>

definition storage_lock_async :: "'c outside \<Rightarrow> lock_state \<Rightarrow> 'c document \<Rightarrow> 'c document" where
  "storage_lock_async oc lock d =
    (if \<not> lk_supportsLocks (dm_lock d) then lock_answered oc lock (LocksUnsupported, []) d
     else if dm_lockSession d \<noteq> None then lock_answered oc lock (LockFailed, ''Internal error'') d
     else d\<lparr>dm_lockSession := Some (lock, lock_header oc lock d)\<rparr>)"

definition lock_finished :: "'c outside \<Rightarrow> nat \<Rightarrow> string \<Rightarrow> 'c document \<Rightarrow> 'c document" where
  "lock_finished oc status reason d =
    (case dm_lockSession d of
       None \<Rightarrow> d
     | Some (lock, _) \<Rightarrow>
         let d = d\<lparr>dm_lockSession := None\<rparr>
         in if status = 200 then lock_answered oc lock (LockOk, []) d
            else lock_answered oc lock (if status \<in> {401, 403, 404} then LockUnauthorized else LockFailed, reason) d)"

definition update_storage_lock_state_async ::
    "'c outside \<Rightarrow> doc_session \<Rightarrow> lock_state \<Rightarrow> 'c document \<Rightarrow> (bool \<times> string \<times> 'c document) res" where
  "update_storage_lock_state_async oc s lock d =
    (if se_expired s then Ok (False, ''Expired authorization token'', d)
     else if lock = Lock \<and> se_readOnly s then Ok (False, ''Readonly session'', d)
     else if dm_lockRequest d \<noteq> None then Ok (False, ''A lock-update request is already in progress'', d)
     else if \<not> dm_storage d then Err AssertionFailed
     else Ok (True, [], storage_lock_async oc lock (d\<lparr>dm_lockRequest := Some (se_id s)\<rparr>)))"

definition refresh_lock :: "'c outside \<Rightarrow> 'c document \<Rightarrow> 'c document res" where
  "refresh_lock oc d =
    (case get_writeable_session d of
       None \<Rightarrow> Ok (d\<lparr>dm_lock := bump_timer (oc_now oc) (dm_lock d)\<rparr>)
     | Some s \<Rightarrow>
         if se_expired s then Ok (d\<lparr>dm_lock := bump_timer (oc_now oc) (dm_lock d)\<rparr>)
         else res_bind (update_storage_lock_state_async oc s Lock d) (\<lambda>(_, _, d). Ok d))"

definition lock_if_editing :: "'c outside \<Rightarrow> string \<Rightarrow> 'c document \<Rightarrow> 'c document" where
  "lock_if_editing oc i d =
    (if \<not> lk_supportsLocks (dm_lock d) \<or> is_locked (dm_lock d) then d
     else case find_session i d of
       None \<Rightarrow> d
     | Some s \<Rightarrow>
         if se_readOnly s then d
         else case update_storage_lock_state oc s Lock d of
           (ok, _, d) \<Rightarrow> if ok then d else session_set_writable i False d)"

section \<open>Leaving sessions\<close>

definition set_state :: "session_state \<Rightarrow> steady \<Rightarrow> doc_session \<Rightarrow> doc_session res" where
  "set_state new now s =
    (if se_state s = WaitDisconnect then Ok s
     else
       let allowed = (case new of
             Detached \<Rightarrow> se_state s = Detached
           | SessionLoading \<Rightarrow> se_state s = Detached
           | SessionLive \<Rightarrow> se_state s = SessionLive \<or> se_state s = SessionLoading
           | WaitDisconnect \<Rightarrow> se_state s = SessionLoading \<or> se_state s = SessionLive)
       in if allowed then Ok (s\<lparr>se_state := new, se_stateTime := now\<rparr>) else Err AssertionFailed)"

definition stale_wait_disconnect :: "steady \<Rightarrow> doc_session \<Rightarrow> bool" where
  "stale_wait_disconnect now s \<longleftrightarrow> se_state s = WaitDisconnect \<and> now - se_stateTime s \<ge> 20 * ns_per_s"

text \<open>The result says whether the session can be removed at once.\<close>

definition disconnect_from_kit :: "'c outside \<Rightarrow> doc_session \<Rightarrow> 'c document \<Rightarrow> (bool \<times> 'c document) res" where
  "disconnect_from_kit oc s d =
    (if se_state s = WaitDisconnect then Err AssertionFailed
     else if se_state s = SessionLive \<or> se_state s = SessionLoading then
       res_bind (set_state WaitDisconnect (oc_now oc) s) (\<lambda>s'.
       res_bind (forward_to_child oc (se_id s) ''disconnect'' (change_session (se_id s) (\<lambda>_. s') d)) (\<lambda>(_, d). Ok (False, d)))
     else Ok (True, d))"

definition final_remove_session :: "string \<Rightarrow> 'c document \<Rightarrow> 'c document" where
  "final_remove_session i d = d\<lparr>dm_sessions := filter (\<lambda>s. se_id s \<noteq> i) (dm_sessions d)\<rparr>"

text \<open>Unlocks the document when the last session that can edit it leaves.\<close>

definition unlock_for_last_session :: "'c outside \<Rightarrow> doc_session \<Rightarrow> 'c document \<Rightarrow> 'c document" where
  "unlock_for_last_session oc s d =
    (if is_editable s \<and> \<not> have_another_editable_session (se_id s) d \<and> is_locked (dm_lock d) \<and> dm_storage d
     then snd (snd (update_storage_lock_state oc s Unlock d)) else d)"

text \<open>The document without the sessions that will never load when this one, the last loaded, goes\<close>

definition fail_orphaned_sessions :: "'c document \<Rightarrow> 'c document" where
  "fail_orphaned_sessions d =
    (let d = (if length (dm_sessions d) = count_loading_sessions d + 1 then fail_loading_sessions True d else d)
     in if \<not> is_loaded d \<and> length (dm_sessions d) \<le> 1 then stop ''Disconnected before loading'' d else d)"

definition disconnect_session_internal :: "'c outside \<Rightarrow> doc_session \<Rightarrow> 'c document \<Rightarrow> 'c document res" where
  "disconnect_session_internal oc s d =
    (if ds_unloadRequested (dm_state d) \<and> count_active_sessions d > 1 then Err AssertionFailed
     else
       let d = (if ds_unloadRequested (dm_state d) then update_state ds_mark_to_destroy d else d);
           d = unlock_for_last_session oc s d
       in if in_wait_disconnected s then Ok (final_remove_session (se_id s) d)
          else res_bind (disconnect_from_kit oc s d) (\<lambda>(hard, d).
            let d = fail_orphaned_sessions d
            in Ok (if hard then final_remove_session (se_id s) d else d)))"

text \<open>The loop over the sessions that are closed; an element that is erased leaves the loop with a dangling iterator.\<close>

fun disconnect_closed :: "'c outside \<Rightarrow> string list \<Rightarrow> 'c document \<Rightarrow> 'c document res" where
  "disconnect_closed oc [] d = Ok d"
| "disconnect_closed oc (i # is) d =
    (case find_session i d of
       None \<Rightarrow> disconnect_closed oc is d
     | Some s \<Rightarrow>
         if se_closeFrame s \<and> \<not> in_wait_disconnected s
         then res_bind (disconnect_session_internal oc s d) (\<lambda>d.
                if find_session i d = None then Err OutOfBounds else disconnect_closed oc is d)
         else disconnect_closed oc is d)"

end
