(* ===== verification/DocumentUploading.thy ===== *)
theory DocumentUploading
  imports DocumentLocks HttpMessages
begin

text \<open>
  Uploading a document to the storage: the request that \<open>WopiStorage\<close> sends and what it makes of the answer
  (src/wsd/wopi/WopiStorage.cpp), and the methods of \<open>DocumentBroker\<close> that ask for an upload and handle its end
  (src/wsd/DocumentBroker.cpp). The JSON parser is a parameter: an answer comes with the fields read from it. Exceptions while a
  request is made are left out.
\<close>

section \<open>Requests and answers of the storage\<close>

text \<open>The fields read from the body of an answer, which are empty or zero when they are missing\<close>

record upload_json =
  uj_lastModifiedTime :: string
  uj_name :: string
  uj_url :: string
  uj_coolStatusCode :: nat
  uj_loolStatusCode :: nat

definition legacy_set :: "bool \<Rightarrow> string \<Rightarrow> string \<Rightarrow> header \<Rightarrow> header" where
  "legacy_set legacy key v h =
    (let h = hd_set (''X-COOL-WOPI-'' @ key) v h in if legacy then hd_set (''X-LOOL-WOPI-'' @ key) v h else h)"

definition bool_text :: "bool \<Rightarrow> string" where
  "bool_text b = (if b then ''true'' else ''false'')"

definition put_header :: "bool \<Rightarrow> attributes \<Rightarrow> string \<Rightarrow> header \<Rightarrow> header" where
  "put_header legacy a time h =
    (let h = hd_set ''X-WOPI-Override'' ''PUT'' h;
         h = hd_set ''X-COOL-WOPI-IsModifiedByUser'' (bool_text (at_isUserModified a)) h;
         h = hd_set ''X-COOL-WOPI-IsAutosave'' (bool_text (at_isAutosave a)) h;
         h = hd_set ''X-COOL-WOPI-IsExitSave'' (bool_text (at_isExitSave a)) h;
         h = (if legacy
              then hd_set ''X-LOOL-WOPI-IsExitSave'' (bool_text (at_isExitSave a))
                (hd_set ''X-LOOL-WOPI-IsAutosave'' (bool_text (at_isAutosave a))
                  (hd_set ''X-LOOL-WOPI-IsModifiedByUser'' (bool_text (at_isUserModified a)) h))
              else h);
         h = (if at_isExitSave a then set_connection_token CloseToken h else h);
         h = (if at_extendedData a \<noteq> [] then legacy_set legacy ''ExtendedData'' (at_extendedData a) h else h)
     in if \<not> at_forced a \<and> time \<noteq> [] then legacy_set legacy ''Timestamp'' time h else h)"

definition upload_header :: "'c outside \<Rightarrow> bool \<Rightarrow> bool \<Rightarrow> string \<Rightarrow> nat \<Rightarrow> 'c document \<Rightarrow> header" where
  "upload_header oc isSaveAs isRename saveAsFilename sz d =
    (let h = (if \<not> isSaveAs \<and> lk_supportsLocks (dm_lock d) then hd_set ''X-WOPI-Lock'' (lk_lockToken (dm_lock d)) (oc_requestHeader oc)
              else oc_requestHeader oc);
         target = oc_utf7 oc saveAsFilename;
         h = (if \<not> isSaveAs \<and> \<not> isRename
              then put_header (cf_legacyServer (dm_config d)) (dm_lastAttrs d) (dm_storageTime d) h
              else if isRename
              then hd_set ''X-WOPI-RequestedName'' target (hd_set ''X-WOPI-Override'' ''RENAME_FILE'' h)
              else hd_set ''X-WOPI-SuggestedTarget'' target
                (hd_set ''X-WOPI-Size'' (show_nat sz) (hd_set ''X-WOPI-Override'' ''PUT_RELATIVE'' h)))
     in set_content_length (int sz) (set_content_type ''application/octet-stream'' h))"

text \<open>What the answer means, by its status, its reason phrase, its body and the fields of the body when they could be parsed\<close>

definition failure_reason :: "nat \<Rightarrow> string \<Rightarrow> string \<Rightarrow> string" where
  "failure_reason code phrase body =
    (if body \<noteq> [] then show_nat code @ '' '' @ phrase @ '' - '' @ body
     else if status_category (mk_status_line code) = InvalidClass then ''No response received. Connection terminated or timed-out.''
     else show_nat code @ '' '' @ phrase)"

definition storage_answer ::
    "bool \<Rightarrow> bool \<Rightarrow> nat \<Rightarrow> string \<Rightarrow> string \<Rightarrow> upload_json option \<Rightarrow> 'c document \<Rightarrow> upload_answer \<times> 'c document" where
  "storage_answer isSaveAs isRename code phrase body json d =
    (let answer = \<lparr>ua_result = UploadFailed, ua_reason = body, ua_saveAsName = [], ua_saveAsUrl = []\<rparr>
     in if code = 200 then
          (case json of
             None \<Rightarrow> (answer\<lparr>ua_result := UploadOk\<rparr>, d)
           | Some j \<Rightarrow>
               (if isSaveAs \<or> isRename then answer\<lparr>ua_result := UploadOk, ua_saveAsName := uj_name j, ua_saveAsUrl := uj_url j\<rparr>
                else answer\<lparr>ua_result := UploadOk\<rparr>,
                d\<lparr>dm_storageTime := uj_lastModifiedTime j\<rparr>))
        else if code = 413 then (answer\<lparr>ua_result := TooLarge\<rparr>, d)
        else if code = 401 \<or> code = 403 \<or> code = 404 then (answer\<lparr>ua_result := Unauthorized\<rparr>, d)
        else if code = 409 then
          (case json of
             None \<Rightarrow> (answer\<lparr>ua_result := StorageConflict\<rparr>, d)
           | Some j \<Rightarrow>
               (answer\<lparr>ua_result := (if uj_coolStatusCode j = 1010 \<or> uj_loolStatusCode j = 1010 then DocChanged else StorageConflict)\<rparr>, d))
        else (answer\<lparr>ua_result := UploadFailed, ua_reason := failure_reason code phrase body\<rparr>, d))"

section \<open>Asking for an upload\<close>

definition report_upload_to_storage_failed :: "upload_request \<Rightarrow> 'c document \<Rightarrow> 'c document" where
  "report_upload_to_storage_failed ur d =
    session_send (ur_session ur) (''error: cmd=storage kind='' @ (if ur_isRename ur then ''renamefailed'' else ''savefailed'')) d"

text \<open>The callback with the state \<open>Error\<close>; for a request that runs the callback does nothing.\<close>

definition upload_error :: "'c outside \<Rightarrow> string \<Rightarrow> 'c document \<Rightarrow> 'c document" where
  "upload_error oc reason d =
    (case dm_uploadRequest d of
       None \<Rightarrow> d
     | Some ur \<Rightarrow>
         let d = broadcast_save_result False ''Could not upload document to storage'' reason (d\<lparr>dm_uploadRequest := Some (ur\<lparr>ur_completed := True\<rparr>)\<rparr>);
             d = d\<lparr>dm_store := set_last_upload_result False (oc_now oc) (dm_store d)\<rparr>
         in case ds_activity (dm_state d) of
              Rename \<Rightarrow> session_send (dm_renameSessionId d) ''error: cmd=renamefile kind=failed'' (end_rename_file_command d)
            | SwitchingToOffline \<Rightarrow> end_switching d
            | _ \<Rightarrow> report_upload_to_storage_failed ur d)"

text \<open>The size of the file that is sent, which is zero when nothing is\<close>

definition upload_local_file_to_storage_async ::
    "'c outside \<Rightarrow> string \<Rightarrow> string \<Rightarrow> bool \<Rightarrow> 'c document \<Rightarrow> nat \<times> 'c document" where
  "upload_local_file_to_storage_async oc saveAsPath saveAsFilename isRename d =
    (if dm_uploadSession d \<noteq> None then (0, upload_error oc ''Already in progress.'' d)
     else
       let isSaveAs = (saveAsPath \<noteq> [] \<and> saveAsFilename \<noteq> [])
       in case (if isSaveAs then oc_saveAsFile oc else dm_uploading d) of
            None \<Rightarrow> (0, upload_error oc ''File not found.'' d)
          | Some f \<Rightarrow>
              if oc_connects oc
              then (fi_size f,
                d\<lparr>dm_uploadSession := Some
                  \<lparr>us_isSaveAs = isSaveAs, us_isRename = isRename, us_contents = (\<not> isSaveAs \<and> \<not> isRename),
                   us_header = upload_header oc isSaveAs isRename saveAsFilename (fi_size f) d, us_body = f\<rparr>\<rparr>)
              else (fi_size f, upload_error oc ''Connection failed.'' d))"

definition upload_to_storage_internal ::
    "'c outside \<Rightarrow> string \<Rightarrow> string \<Rightarrow> string \<Rightarrow> bool \<Rightarrow> bool \<Rightarrow> bool \<Rightarrow> 'c document \<Rightarrow> 'c document res" where
  "upload_to_storage_internal oc i saveAsPath saveAsFilename isRename isExport force d =
    (case find_session i d of
       None \<Rightarrow> Err AssertionFailed
     | Some s \<Rightarrow>
         if \<not> is_editable s then Ok d
         else if \<not> dm_storage d then Ok d
         else
           let newFileModifiedTime = (case dm_uploading d of Some f \<Rightarrow> fi_time f | None \<Rightarrow> 0);
               ur = \<lparr>ur_newFileModifiedLocalTime = newFileModifiedTime, ur_session = i, ur_isSaveAs = (saveAsPath \<noteq> []),
                     ur_isExport = isExport, ur_isRename = isRename, ur_completed = False\<rparr>;
               d = d\<lparr>dm_uploadRequest := Some ur\<rparr>;
               attrs = (dm_currentAttrs d)\<lparr>at_isExitSave := is_unloading oc d\<rparr>;
               attrs = (if force then attrs\<lparr>at_forced := True\<rparr> else attrs);
               d = d\<lparr>dm_lastAttrs := attrs, dm_currentAttrs := at_reset, dm_nextAttrs := at_reset,
                     dm_store := mark_last_upload_request_time (oc_now oc) (dm_store d)\<rparr>
           in case upload_local_file_to_storage_async oc saveAsPath saveAsFilename isRename d of
                (sz, d) \<Rightarrow> Ok (d\<lparr>dm_store := (dm_store d)\<lparr>um_sizeAsUploaded := sz\<rparr>\<rparr>))"

definition upload_to_storage :: "'c outside \<Rightarrow> string \<Rightarrow> bool \<Rightarrow> 'c document \<Rightarrow> 'c document res" where
  "upload_to_storage oc i force d =
    (if force \<or> last_upload_successful (dm_store d) \<or> can_upload_now (is_unloading oc d) (oc_now oc) (dm_store d)
     then upload_to_storage_internal oc i [] [] False False force d
     else Ok d)"

definition upload_as_to_storage :: "'c outside \<Rightarrow> string \<Rightarrow> string \<Rightarrow> string \<Rightarrow> bool \<Rightarrow> bool \<Rightarrow> 'c document \<Rightarrow> 'c document res" where
  "upload_as_to_storage oc i uploadAsPath uploadAsFilename isRename isExport d =
    upload_to_storage_internal oc i uploadAsPath uploadAsFilename isRename isExport False d"

definition rename_to_upload :: "'c outside \<Rightarrow> 'c document \<Rightarrow> 'c document" where
  "rename_to_upload oc d =
    (case dm_toUpload d of
       Some f \<Rightarrow> if oc_rename oc then d\<lparr>dm_uploading := Some f, dm_toUpload := None\<rparr> else d
     | None \<Rightarrow> d)"

definition upload_after_loading_template :: "'c outside \<Rightarrow> string \<Rightarrow> 'c document \<Rightarrow> 'c document res" where
  "upload_after_loading_template oc i d =
    (if \<not> dm_storage d then Err AssertionFailed else upload_to_storage oc i False (rename_to_upload oc d))"

section \<open>After saving\<close>

text \<open>What the activity calls for: true when it takes all there is to do\<close>

definition continue_activity :: "'c outside \<Rightarrow> bool \<Rightarrow> 'c document \<Rightarrow> (bool \<times> 'c document) res" where
  "continue_activity oc needed d =
    (case ds_activity (dm_state d) of
       Rename \<Rightarrow>
         if needed then Ok (False, d)
         else if find_session (dm_renameSessionId d) d = None
         then Ok (True, end_rename_file_command (broadcast_save_result False ''Renaming session not found'' [] d))
         else res_bind (upload_to_storage_internal oc (dm_renameSessionId d) [] (dm_renameFilename d) True False False d) (\<lambda>d. Ok (True, d))
     | Save \<Rightarrow> Ok (False, update_state end_activity d)
     | SwitchingToOffline \<Rightarrow> if needed then Ok (False, d) else res_bind (switch_to_offline d) (\<lambda>d. Ok (True, d))
     | _ \<Rightarrow> Ok (False, d))"

definition check_and_upload_to_storage :: "'c outside \<Rightarrow> string \<Rightarrow> bool \<Rightarrow> 'c document \<Rightarrow> 'c document res" where
  "check_and_upload_to_storage oc i justSaved d =
    (let needed = need_to_upload_to_storage oc d
     in res_bind (continue_activity oc needed d) (\<lambda>(all_done, d).
          if all_done then Ok d
          else
            let modified = (if justSaved then have_modify_activity_after_save_request d else need_to_save_to_disk d \<noteq> SaveNo)
            in if modified \<and> is_unloading oc d then (if can_save_to_disk oc d = CanSave then Ok d else Err AssertionFailed)
               else if needed then upload_to_storage oc i False d
               else if \<not> is_async_uploading d then disconnect_closed oc (map se_id (dm_sessions d)) d
               else Ok d))"

text \<open>The answer of the kit to a request to save, with the fields of its JSON\<close>

record save_answer =
  sa_success :: bool
  sa_result :: string
  sa_wasModified :: "bool option"

definition save_done :: "'c outside \<Rightarrow> save_answer \<Rightarrow> 'c document \<Rightarrow> 'c document" where
  "save_done oc sa d =
    (let d = (case sa_wasModified sa of
                None \<Rightarrow> d
              | Some b \<Rightarrow> d\<lparr>dm_nextAttrs := (dm_nextAttrs d)\<lparr>at_isUserModified := b\<rparr>\<rparr>);
         d = d\<lparr>dm_currentAttrs := at_merge (dm_nextAttrs d) (dm_currentAttrs d), dm_nextAttrs := at_reset\<rparr>
     in d\<lparr>dm_save := set_last_save_result (sa_success sa \<or> sa_result sa = ''unmodified'') (sa_success sa) (oc_now oc) (dm_save d)\<rparr>)"

definition handle_save_response :: "'c outside \<Rightarrow> string \<Rightarrow> save_answer \<Rightarrow> 'c document \<Rightarrow> 'c document res" where
  "handle_save_response oc i sa d =
    (let good = (sa_success sa \<or> sa_result sa = ''unmodified''); d = save_done oc sa d
     in if \<not> dm_storage d then Err AssertionFailed
        else
          let d = rename_to_upload oc d;
              d = (if good then d
                   else broadcast_save_result False ''Could not save the document'' []
                     (session_send i ''error: cmd=storage kind=savefailed'' d))
          in check_and_upload_to_storage oc i good d)"

end
