(* ===== verification/DocumentResponses.thy ===== *)
theory DocumentResponses
  imports DocumentUploading
begin

text \<open>
  The end of an upload: success, failure and conflict, and the check of the time of the file in the storage that follows a failure
  (\<open>DocumentBroker\<close> in src/wsd/DocumentBroker.cpp). An exception in the handler of an answer is caught by the session of HTTP, so it ends
  the handler where it stands.
\<close>

section \<open>Success\<close>

definition broadcast_last_modification_time :: "'c document \<Rightarrow> 'c document" where
  "broadcast_last_modification_time d =
    (let t = um_lastModifiedServerTimeString (dm_store d)
     in if t = [] then d else snd (broadcast_message (''lastmodtime: '' @ t) d))"

text \<open>\<open>_filename.substr(_filename.find_last_of('.'))\<close>, which throws without a dot\<close>

definition file_extension :: "string \<Rightarrow> string option" where
  "file_extension s =
    (if CHR ''.'' \<in> set s then Some (CHR ''.'' # rev (takeWhile (\<lambda>c. c \<noteq> CHR ''.'') (rev s))) else None)"

text \<open>The file was uploaded to its place in the storage.\<close>

definition file_uploaded :: "'c outside \<Rightarrow> upload_request \<Rightarrow> 'c document \<Rightarrow> 'c document res" where
  "file_uploaded oc ur d =
    (let t = ur_newFileModifiedLocalTime ur;
         d = d\<lparr>dm_save := (dm_save d)\<lparr>sm_lastModifiedLocalTime := t\<rparr>,
               dm_store := (dm_store d)\<lparr>um_lastModifiedServerTimeString := dm_storageTime d, um_lastUploadedFileModifiedLocalTime := t\<rparr>,
               dm_documentChangedInStorage := False, dm_lastAttrs := at_reset\<rparr>
     in case ds_activity (dm_state d) of
          Rename \<Rightarrow>
            if find_session (dm_renameSessionId d) d = None
            then Ok (end_rename_file_command (broadcast_save_result False ''Renaming session not found'' [] d))
            else upload_to_storage_internal oc (dm_renameSessionId d) [] (dm_renameFilename d) True False False d
        | SwitchingToOffline \<Rightarrow> switch_to_offline d
        | _ \<Rightarrow> Ok d)"

definition file_renamed :: "'c outside \<Rightarrow> upload_answer \<Rightarrow> 'c document \<Rightarrow> 'c document" where
  "file_renamed oc ua d =
    (let d = end_rename_file_command d;
         msg = ''renamefile: filename='' @ oc_encode oc (ua_saveAsName ua) @ '' url='' @ oc_urlNoToken oc (ua_saveAsUrl ua)
     in snd (broadcast_message ''close: reloadafterrename'' (snd (broadcast_message msg d))))"

text \<open>The result is \<open>None\<close> when the name of the file has no extension.\<close>

definition file_saved_as :: "'c outside \<Rightarrow> upload_request \<Rightarrow> upload_answer \<Rightarrow> 'c document \<Rightarrow> 'c document option \<times> 'c document" where
  "file_saved_as oc ur ua d =
    (case find_session (ur_session ur) d of
       None \<Rightarrow> (Some d, d)
     | Some s \<Rightarrow>
         let msg = (if ur_isExport ur then ''exportas:'' else ''saveas:'') @ '' url='' @ oc_url oc (ua_saveAsUrl ua) @
               '' filename='' @ oc_pocoEncode oc (ua_saveAsName ua) @ '' xfilename='' @ oc_anonymize oc (ua_saveAsName ua);
             d = session_send (ur_session ur) msg d
         in case file_extension (dm_filename d) of
              None \<Rightarrow> (None, d)
            | Some e \<Rightarrow>
                let d = (if iequal e ''.csv'' \<or> iequal e ''.txt''
                         then broadcast_message_to_others (''warn: '' @ msg @ '' username='' @ se_userName s) (ur_session ur) d else d)
                in (Some d, d))"

definition after_upload :: "'c outside \<Rightarrow> 'c document \<Rightarrow> 'c document res" where
  "after_upload oc d =
    (let d = broadcast_last_modification_time d;
         d = (if ds_unloadRequested (dm_state d) then update_state ds_mark_to_destroy d else d);
         d = (if (ds_is_marked_to_destroy (dm_state d) \<or> dm_sessions d = []) \<and> \<not> is_possibly_modified d then stop ''unloading'' d else d)
     in disconnect_closed oc (map se_id (dm_sessions d)) d)"

definition handle_upload_to_storage_successful :: "'c outside \<Rightarrow> upload_request \<Rightarrow> upload_answer \<Rightarrow> 'c document \<Rightarrow> 'c document res" where
  "handle_upload_to_storage_successful oc ur ua d =
    (if \<not> ur_isSaveAs ur \<and> \<not> ur_isRename ur then res_bind (file_uploaded oc ur d) (after_upload oc)
     else if ur_isRename ur then after_upload oc (file_renamed oc ua d)
     else case file_saved_as oc ur ua d of
       (None, d) \<Rightarrow> Ok d
     | (Some d, _) \<Rightarrow> after_upload oc d)"

section \<open>Failure\<close>

definition handle_document_conflict :: "'c document \<Rightarrow> 'c document" where
  "handle_document_conflict d =
    (let d = d\<lparr>dm_documentChangedInStorage := True\<rparr>;
         msg = (if at_isUserModified (dm_lastAttrs d) \<or> at_isUserModified (dm_currentAttrs d) \<or> is_possibly_modified d
                then ''error: cmd=storage kind=documentconflict'' else ''close: documentconflict'')
     in case broadcast_message msg d of
          (n, d) \<Rightarrow> if n = 0 then stop ''conflict'' d else d)"

text \<open>Makes every session read-only and tells it why.\<close>

definition all_read_only :: "string \<Rightarrow> 'c document \<Rightarrow> 'c document" where
  "all_read_only msg d = fold (\<lambda>i d. session_send i msg (session_set_writable i False d)) (map se_id (dm_sessions d)) d"

definition end_failed_rename :: "'c document \<Rightarrow> 'c document" where
  "end_failed_rename d =
    (if ds_activity (dm_state d) = Rename
     then session_send (dm_renameSessionId d) ''error: cmd=renamefile kind=failed'' (end_rename_file_command d) else d)"

definition upload_failed :: "upload_request \<Rightarrow> upload_answer \<Rightarrow> 'c document \<Rightarrow> 'c document res" where
  "upload_failed ur ua d =
    (case ua_result ua of
       UploadOk \<Rightarrow> Err AssertionFailed
     | TooLarge \<Rightarrow> Ok (broadcast_save_result False ''Too large'' (ua_reason ua) (all_read_only ''error: cmd=storage kind=savetoolarge'' d))
     | DiskFull \<Rightarrow> Ok (broadcast_save_result False ''Disk full'' (ua_reason ua) (all_read_only ''error: cmd=storage kind=savediskfull'' d))
     | Unauthorized \<Rightarrow>
         Ok (broadcast_save_result False ''Invalid or expired access token'' []
           (change_session (ur_session ur) invalidate_authorization_token
             (session_send (ur_session ur) ''error: cmd=storage kind=saveunauthorized'' d)))
     | UploadFailed \<Rightarrow>
         res_bind (start_activity SyncFileTimestamp (end_activity (dm_state d))) (\<lambda>ds.
           Ok (broadcast_save_result False ''Save failed'' (ua_reason ua) (report_upload_to_storage_failed ur (d\<lparr>dm_state := ds\<rparr>))))
     | _ \<Rightarrow> Ok (handle_document_conflict (broadcast_save_result False ''Conflict: Document changed in storage'' (ua_reason ua) d)))"

definition handle_upload_to_storage_failed :: "upload_request \<Rightarrow> upload_answer \<Rightarrow> 'c document \<Rightarrow> 'c document res" where
  "handle_upload_to_storage_failed ur ua d =
    res_bind (upload_failed ur ua (end_failed_rename d)) (\<lambda>d.
      Ok (d\<lparr>dm_currentAttrs := at_merge (dm_lastAttrs d) (dm_currentAttrs d), dm_lastAttrs := at_reset\<rparr>))"

section \<open>The end of a request\<close>

definition handle_upload_to_storage_response :: "'c outside \<Rightarrow> upload_request \<Rightarrow> upload_answer \<Rightarrow> 'c document \<Rightarrow> 'c document res" where
  "handle_upload_to_storage_response oc ur ua d =
    (let d = d\<lparr>dm_store := set_last_upload_result (ua_result ua = UploadOk) (oc_now oc) (dm_store d)\<rparr>
     in if ua_result ua = UploadOk then handle_upload_to_storage_successful oc ur ua d else handle_upload_to_storage_failed ur ua d)"

text \<open>The callback with the state \<open>Complete\<close>; the callback of every upload uses the request that is remembered.\<close>

definition upload_complete :: "'c outside \<Rightarrow> upload_answer \<Rightarrow> 'c document \<Rightarrow> 'c document res" where
  "upload_complete oc ua d =
    (case dm_uploadRequest d of
       None \<Rightarrow> Ok d
     | Some ur \<Rightarrow>
         let ur = ur\<lparr>ur_completed := True\<rparr>
         in handle_upload_to_storage_response oc ur ua (d\<lparr>dm_uploadRequest := Some ur\<rparr>))"

definition upload_finished :: "'c outside \<Rightarrow> nat \<Rightarrow> string \<Rightarrow> string \<Rightarrow> upload_json option \<Rightarrow> 'c document \<Rightarrow> 'c document res" where
  "upload_finished oc code phrase body json d =
    (case dm_uploadSession d of
       None \<Rightarrow> Ok d
     | Some us \<Rightarrow>
         case storage_answer (us_isSaveAs us) (us_isRename us) code phrase body json (d\<lparr>dm_uploadSession := None\<rparr>) of
           (ua, d) \<Rightarrow> upload_complete oc ua d)"

definition upload_connect_failed :: "'c outside \<Rightarrow> 'c document \<Rightarrow> 'c document" where
  "upload_connect_failed oc d =
    (if dm_uploadSession d = None then d else upload_error oc ''Connection failed.'' (d\<lparr>dm_uploadSession := None\<rparr>))"

section \<open>The time of the file in the storage\<close>

text \<open>The end of a check: the time and size of the file, an expired session, or no answer\<close>

datatype file_info = InfoPassed string nat | InfoUnauthorized | InfoFailed

definition check_file_info :: "'c outside \<Rightarrow> string \<Rightarrow> 'c document \<Rightarrow> 'c document res" where
  "check_file_info oc i d =
    (if ds_activity (dm_state d) \<noteq> SyncFileTimestamp \<or> \<not> dm_storage d then Err AssertionFailed
     else if dm_checkFileInfo d \<noteq> None then Ok d
     else Ok (d\<lparr>dm_checkFileInfo := (if oc_connects oc then Some i else None)\<rparr>))"

definition file_info_checked :: "file_info \<Rightarrow> 'c document \<Rightarrow> 'c document res" where
  "file_info_checked info d =
    (case dm_checkFileInfo d of
       None \<Rightarrow> Err AssertionFailed
     | Some i \<Rightarrow>
         if ds_activity (dm_state d) \<noteq> SyncFileTimestamp then Err AssertionFailed
         else
           let d = update_state end_activity d
           in case info of
                InfoPassed lastModifiedTime sz \<Rightarrow>
                  if um_sizeAsUploaded (dm_store d) = sz \<or> um_sizeOnServer (dm_store d) \<noteq> 0
                  then Ok (d\<lparr>dm_storageTime := lastModifiedTime,
                             dm_store := (dm_store d)\<lparr>um_lastModifiedServerTimeString := lastModifiedTime\<rparr>\<rparr>)
                  else Ok (handle_document_conflict d)
              | InfoUnauthorized \<Rightarrow> Ok (change_session i invalidate_authorization_token (d\<lparr>dm_storageTime := []\<rparr>))
              | InfoFailed \<Rightarrow> Ok (d\<lparr>dm_storageTime := []\<rparr>))"

end
