(* ===== verification/DocumentPolling.thy ===== *)
theory DocumentPolling
  imports DocumentResponses
begin

text \<open>
  The life of a document: sessions that come and go, unloading, and the loop of its thread (\<open>DocumentBroker\<close> in
  src/wsd/DocumentBroker.cpp). The upload of presets, the rotation of clipboard keys, the statistics, and the end of the process of
  the kit are left out.
\<close>

section \<open>Sessions\<close>

definition create_new_client_session :: "'c document \<Rightarrow> bool \<times> 'c document" where
  "create_new_client_session d =
    (if is_marked_to_destroy d \<or> ds_closeRequested (dm_state d) then (False, d)
     else (True, update_state (\<lambda>ds. ds\<lparr>ds_unloadRequested := False\<rparr>) d))"

text \<open>The map of the sessions is ordered by their ids.\<close>

definition id_less :: "string \<Rightarrow> string \<Rightarrow> bool" where
  "id_less a b = lexordp (\<lambda>x y. (of_char x :: nat) < of_char y) a b"

definition emplace_session :: "doc_session \<Rightarrow> doc_session list \<Rightarrow> doc_session list" where
  "emplace_session s ss =
    (if \<exists>t \<in> set ss. se_id t = se_id s then ss
     else filter (\<lambda>t. id_less (se_id t) (se_id s)) ss @ s # filter (\<lambda>t. \<not> id_less (se_id t) (se_id s)) ss)"

text \<open>Whether the document could be downloaded is an argument.\<close>

definition add_session :: "'c outside \<Rightarrow> bool \<Rightarrow> doc_session \<Rightarrow> 'c document \<Rightarrow> (bool \<times> 'c document) res" where
  "add_session oc downloaded s d =
    (if \<not> downloaded then Ok (False, if dm_sessions d = [] then update_state ds_mark_to_destroy d else d)
     else res_bind (set_state SessionLoading (oc_now oc) s) (\<lambda>s.
       Ok (True, d\<lparr>dm_sessions := emplace_session s (dm_sessions d)\<rparr>)))"

definition set_loaded :: "'c outside \<Rightarrow> steady \<Rightarrow> 'c document \<Rightarrow> 'c document res" where
  "set_loaded oc createTime d =
    (if is_loaded d then Ok d
     else res_bind (set_live (dm_state d)) (\<lambda>ds.
       Ok (d\<lparr>dm_state := ds, dm_save := (dm_save d)\<lparr>sm_savingTimeout := saving_timeout (to_ms (oc_now oc - createTime))\<rparr>\<rparr>)))"

definition set_modified :: "bool \<Rightarrow> 'c document \<Rightarrow> 'c document" where
  "set_modified b d = d\<lparr>dm_isModified := b\<rparr>"

definition update_last_activity_time :: "'c outside \<Rightarrow> 'c document \<Rightarrow> 'c document" where
  "update_last_activity_time oc d = d\<lparr>dm_lastActivityTime := oc_now oc\<rparr>"

definition update_last_modifying_activity_time :: "'c outside \<Rightarrow> 'c document \<Rightarrow> 'c document" where
  "update_last_modifying_activity_time oc d = d\<lparr>dm_lastModifyActivityTime := oc_now oc\<rparr>"

definition update_editing_session_id :: "string \<Rightarrow> 'c document \<Rightarrow> 'c document" where
  "update_editing_session_id i d = d\<lparr>dm_lastEditingSessionId := i\<rparr>"

text \<open>Sets the flags when the last session goes.\<close>

definition last_session_gone :: "'c document \<Rightarrow> 'c document" where
  "last_session_gone d =
    (if is_saving (dm_save d) \<or> is_async_uploading d then update_state (\<lambda>ds. ds\<lparr>ds_unloadRequested := True\<rparr>) d
     else if dm_sessions d = [] then update_state ds_mark_to_destroy d
     else d)"

text \<open>A session that edits and is the last one to do so leaves after a save: the result says whether one is on its way.\<close>

definition save_for_last_session :: "'c outside \<Rightarrow> doc_session \<Rightarrow> 'c document \<Rightarrow> (bool \<times> 'c document) res" where
  "save_for_last_session oc s d =
    (if \<not> (is_editable s \<and> \<not> have_another_editable_session (se_id s) d) then Ok (False, d)
     else if is_saving (dm_save d) then Ok (True, d)
     else auto_save oc (cf_alwaysSaveOnExit (dm_config d) \<or> is_possibly_modified d) True True d)"

definition remove_session :: "'c outside \<Rightarrow> doc_session \<Rightarrow> 'c document \<Rightarrow> 'c document res" where
  "remove_session oc s d =
    (let active = count_active_sessions d
     in res_bind (if active \<le> 1 \<and> \<not> cf_convertTo (dm_config d) then forward_to_child oc (se_id s) ''getclipboard name=shutdown'' d else Ok (True, d)) (\<lambda>(_, d).
        res_bind (save_for_last_session oc s d) (\<lambda>(saving, d).
        res_bind (if saving then Ok d else disconnect_session_internal oc s d) (\<lambda>d.
          if active \<le> 1 then Ok (last_session_gone d)
          else if ds_is_marked_to_destroy (dm_state d) then Err AssertionFailed
          else Ok d))))"

section \<open>Unloading\<close>

text \<open>Whether there is nothing to save and nothing to upload\<close>

definition may_stop :: "'c outside \<Rightarrow> 'c document \<Rightarrow> bool" where
  "may_stop oc d =
    (let toSave = need_to_save_to_disk d; toUpload = need_to_upload_to_storage oc d;
         canStop = (toSave = SaveNo \<and> \<not> toUpload);
         canStop =
           (if \<not> canStop \<and> toSave = SaveNo \<and> \<not> is_storage_outdated d
            then (if cf_alwaysSaveOnExit (dm_config d) \<and> \<not> last_upload_successful (dm_store d)
                  then cf_limitStoreFailures (dm_config d) > 0 \<and>
                    int (upload_failure_count (dm_store d)) \<ge> cf_limitStoreFailures (dm_config d)
                  else True)
            else canStop)
     in if \<not> canStop \<and> toSave \<noteq> SaveNo then can_save_to_disk oc d \<noteq> CanSave else canStop)"

text \<open>Whether to stop with nothing to upload: \<open>None\<close> waits for the flag of modifications to be cleared.\<close>

definition stop_saved :: "'c outside \<Rightarrow> 'c document \<Rightarrow> bool option res" where
  "stop_saved oc d =
    (let rm = sm_request (dm_save d)
     in if \<not> (rm_lastRequestTime rm < rm_lastResponseTime rm) then Err AssertionFailed
        else if \<not> have_modify_activity_after_save_request d \<and> last_save_successful (dm_save d)
        then Ok (if dm_isModified d \<and> time_since_last_response (oc_now oc) rm < 2000 then None else Some True)
        else if need_to_save_to_disk d = SaveNo
        then (if is_possibly_modified d then Err AssertionFailed else Ok (Some True))
        else Ok (Some False))"

text \<open>Saves, or uploads when there is nothing to save; the result says whether to stop.\<close>

definition save_before_stop :: "'c outside \<Rightarrow> 'c document \<Rightarrow> (bool \<times> 'c document) res" where
  "save_before_stop oc d =
    res_bind (auto_save oc (is_possibly_modified d \<or> \<not> last_save_successful (dm_save d)) True True d) (\<lambda>(sent, d).
      if sent then Ok (False, d)
      else case get_writeable_session d of
        None \<Rightarrow> Ok (True, d)
      | Some s \<Rightarrow>
          if se_expired s then Ok (True, d)
          else res_bind (check_and_upload_to_storage oc (se_id s) False d) (\<lambda>d. Ok (False, d)))"

definition auto_save_and_stop :: "'c outside \<Rightarrow> string \<Rightarrow> 'c document \<Rightarrow> 'c document res" where
  "auto_save_and_stop oc reason d =
    (if is_saving (dm_save d) \<or> is_async_uploading d then Ok d
     else res_bind (if may_stop oc d then Ok (Some True)
                    else if \<not> need_to_upload_to_storage oc d then stop_saved oc d
                    else Ok (Some False))
     (\<lambda>decision. case decision of
        None \<Rightarrow> Ok d
      | Some True \<Rightarrow> Ok (stop reason d)
      | Some False \<Rightarrow>
          if can_save_now (is_unloading oc d) (oc_now oc) (dm_save d)
          then res_bind (save_before_stop oc d) (\<lambda>(canStop, d). Ok (if canStop then stop reason d else d))
          else Ok d))"

section \<open>The loop of the thread\<close>

text \<open>Each part says whether the loop continues with the next round at once.\<close>

definition poll_limits :: "'c outside \<Rightarrow> 'c document \<Rightarrow> bool \<times> 'c document" where
  "poll_limits oc d =
    (let now = oc_now oc; limitLoad = cf_limitLoadSecs (dm_config d); limitLife = cf_limitLifeSecs (dm_config d)
     in if ds_interactive (dm_state d)
        then (True, (if is_unloading oc d then stop ''abortedinteractive'' d else d)\<lparr>dm_loadDeadline := now + limitLoad * ns_per_s\<rparr>)
        else if \<not> is_loaded d \<and> limitLoad > 0 \<and> now > dm_loadDeadline d
        then (True, stop ''Doc lifetime expired'' (snd (broadcast_message ''error: cmd=load kind=docloadtimeout'' d)))
        else if limitLife > 0 \<and> now - dm_threadStart d > limitLife * ns_per_s
        then (True, stop ''Convert-to timed out'' (snd (broadcast_message ''error: cmd=load kind=docexpired'' d)))
        else (False, d))"

definition forget_requests :: "'c document \<Rightarrow> 'c document" where
  "forget_requests d =
    (let d = d\<lparr>dm_checkFileInfo := None\<rparr>
     in case dm_uploadRequest d of
          Some ur \<Rightarrow> if ur_completed ur then d\<lparr>dm_uploadRequest := None\<rparr> else d
        | None \<Rightarrow> d)"

definition poll_migration :: "'c outside \<Rightarrow> 'c document \<Rightarrow> 'c document" where
  "poll_migration oc d =
    (case dm_migrationWait d of
       None \<Rightarrow> d\<lparr>dm_migrationWait := Some (oc_now oc)\<rparr>
     | Some t \<Rightarrow>
         if cdiv (oc_now oc - t) 1000 > cf_migrationTimeoutUs (dm_config d) then d\<lparr>dm_migrateMsgReceived := True\<rparr> else d)"

definition store_failed_too_often :: "'c document \<Rightarrow> bool" where
  "store_failed_too_often d \<longleftrightarrow>
    (let limit = cf_limitStoreFailures (dm_config d)
     in limit > 0 \<and> (int (save_failure_count (dm_save d)) \<ge> limit \<or> int (upload_failure_count (dm_store d)) \<ge> limit))"

definition poll_unload :: "'c outside \<Rightarrow> 'c document \<Rightarrow> (bool \<times> 'c document) res" where
  "poll_unload oc d =
    (if store_failed_too_often d then Ok (True, stop ''storefailed'' d)
     else res_bind (auto_save_and_stop oc
         (if oc_shutdown oc then ''recycling'' else if dm_closeReason d \<noteq> [] then dm_closeReason d else ''unloading'') d)
       (\<lambda>d. Ok (False, d)))"

definition poll_dead :: "'c outside \<Rightarrow> 'c document \<Rightarrow> (bool \<times> 'c document) res" where
  "poll_dead oc d =
    (if is_loaded d \<and> (is_saving (dm_save d) \<or> is_async_uploading d) then Ok (True, d)
     else res_bind (auto_save_and_stop oc ''dead'' (if \<not> is_loaded d then stop ''dead'' d else d)) (\<lambda>d. Ok (False, d)))"

definition poll_retry_upload :: "'c outside \<Rightarrow> 'c document \<Rightarrow> (bool \<times> 'c document) res" where
  "poll_retry_upload oc d =
    (case get_writeable_session d of
       None \<Rightarrow> Ok (False, d)
     | Some s \<Rightarrow>
         if se_expired s then Ok (False, d)
         else res_bind (check_and_upload_to_storage oc (se_id s) False d) (\<lambda>d. Ok (False, d)))"

definition poll_idle :: "'c outside \<Rightarrow> 'c document \<Rightarrow> (bool \<times> 'c document) res" where
  "poll_idle oc d =
    (let d = forget_requests d; ds = dm_state d
     in if dm_renameFilename d \<noteq> [] \<and> dm_renameSessionId d \<noteq> []
        then res_bind (start_rename_file_command oc d) (\<lambda>d. Ok (True, d))
        else if ds_loaded ds \<and> to_ms (oc_now oc - dm_lastActivityTime d) \<ge> cf_idleTimeoutSecs (dm_config d) * 1000
        then res_bind (auto_save_and_stop oc ''idle'' d) (\<lambda>d. Ok (False, d))
        else if dm_sessions d = [] \<and> (ds_loaded ds \<or> ds_is_marked_to_destroy ds) then poll_dead oc d
        else if cf_indirectionServer (dm_config d) \<and> oc_shutdown oc \<and> \<not> dm_migrateMsgReceived d then Ok (False, poll_migration oc d)
        else if ds_unloadRequested ds \<or> oc_shutdown oc \<or> ds_closeRequested ds then poll_unload oc d
        else if \<not> dm_stop d \<and> need_auto_save_check (oc_now oc) (dm_save d)
        then res_bind (auto_save oc False True False d) (\<lambda>(_, d). Ok (False, d))
        else if \<not> is_async_uploading d \<and> \<not> last_upload_successful (dm_store d) \<and> need_to_upload_to_storage oc d
        then poll_retry_upload oc d
        else Ok (False, d))"

definition poll_saving :: "'c outside \<Rightarrow> 'c document \<Rightarrow> 'c document" where
  "poll_saving oc d =
    (if is_kit_disconnected (dm_state d) \<or> has_saving_timed_out (oc_now oc) (dm_save d)
     then update_state end_activity (d\<lparr>dm_save := set_last_save_result False False (oc_now oc) (dm_save d)\<rparr>)
     else d)"

definition poll_sync_timestamp :: "'c outside \<Rightarrow> 'c document \<Rightarrow> 'c document res" where
  "poll_sync_timestamp oc d =
    (if is_async_uploading d then Err AssertionFailed
     else if dm_checkFileInfo d \<noteq> None then Ok d
     else case get_first_authorized_session d of
       None \<Rightarrow> if dm_storage d then Ok (update_state end_activity (d\<lparr>dm_storageTime := []\<rparr>)) else Err AssertionFailed
     | Some s \<Rightarrow> check_file_info oc (se_id s) d)"

definition poll_activity :: "'c outside \<Rightarrow> 'c document \<Rightarrow> (bool \<times> 'c document) res" where
  "poll_activity oc d =
    (case ds_activity (dm_state d) of
       Idle \<Rightarrow> poll_idle oc d
     | Save \<Rightarrow> Ok (False, poll_saving oc d)
     | SaveAs \<Rightarrow> Ok (False, poll_saving oc d)
     | SyncFileTimestamp \<Rightarrow> res_bind (poll_sync_timestamp oc d) (\<lambda>d. Ok (False, d))
     | _ \<Rightarrow> Ok (False, d\<lparr>dm_save := postpone_autosave 30 (oc_now oc) (dm_save d)\<rparr>))"

definition poll_stale_sessions :: "'c outside \<Rightarrow> 'c document \<Rightarrow> 'c document" where
  "poll_stale_sessions oc d =
    (let since = oc_now oc - dm_clipboardTime d;
         d = (if since \<ge> 120 * ns_per_s
              then case List.find (stale_wait_disconnect (oc_now oc)) (dm_sessions d) of
                     Some s \<Rightarrow> final_remove_session (se_id s) d
                   | None \<Rightarrow> d
              else d)
     in if since \<ge> 300 * ns_per_s then d\<lparr>dm_clipboardTime := oc_now oc\<rparr> else d)"

text \<open>One round of the loop, after the events of the sockets\<close>

definition poll_round :: "'c outside \<Rightarrow> 'c document \<Rightarrow> 'c document res" where
  "poll_round oc d =
    (if dm_stop d then Ok d
     else case poll_limits oc d of
       (True, d) \<Rightarrow> Ok d
     | (False, d) \<Rightarrow>
         res_bind (if dm_storage d \<and> dm_lockRequest d = None \<and> needs_refresh (oc_now oc) (dm_lock d) then refresh_lock oc d else Ok d) (\<lambda>d.
         res_bind (poll_activity oc d) (\<lambda>(again, d).
           Ok (if again then d else poll_stale_sessions oc d))))"

text \<open>Unlocking after the loop\<close>

definition unlock_at_end :: "'c outside \<Rightarrow> 'c document \<Rightarrow> 'c document" where
  "unlock_at_end oc d =
    (if lk_supportsLocks (dm_lock d) \<and> is_locked (dm_lock d)
     then case get_writeable_session d of
       None \<Rightarrow> d\<lparr>dm_lock := bump_timer (oc_now oc) (dm_lock d)\<rparr>
     | Some s \<Rightarrow>
         if se_expired s then d\<lparr>dm_lock := bump_timer (oc_now oc) (dm_lock d)\<rparr>
         else snd (snd (update_storage_lock_state oc s Unlock d))
     else d)"

definition poll_end :: "'c outside \<Rightarrow> 'c document \<Rightarrow> bool \<times> 'c document" where
  "poll_end oc d = (data_loss d, fail_loading_sessions False (unlock_at_end oc d))"

end
