(* ===== verification/DocumentViews.thy ===== *)
theory DocumentViews
  imports DocumentPolling
begin

text \<open>
  What saving and uploading do to a document, as an abstract protocol: a view of the document with the times of the last request to save and
  of its answer, the files on disk and the upload on its way, and the moves that the methods make on it by themselves. Every method
  refines this protocol (\<open>evolves\<close>); it also never takes back that the document stops, closes or was loaded.
\<close>

section \<open>The view\<close>

record 'c view =
  vw_request :: steady
  vw_response :: steady
  vw_saved :: bool
  vw_modified :: steady
  vw_toUpload :: "'c doc_file option"
  vw_uploading :: "'c doc_file option"
  vw_uploaded :: int
  vw_asked :: "(int \<times> bool) option"
  vw_sending :: "(bool \<times> 'c doc_file) option"

definition asked :: "upload_request \<Rightarrow> int \<times> bool" where
  "asked ur = (ur_newFileModifiedLocalTime ur, \<not> ur_isSaveAs ur \<and> \<not> ur_isRename ur)"

definition sending :: "'c upload_session \<Rightarrow> bool \<times> 'c doc_file" where
  "sending us = (us_contents us, us_body us)"

definition view :: "'c document \<Rightarrow> 'c view" where
  "view d =
    \<lparr>vw_request = rm_lastRequestTime (sm_request (dm_save d)), vw_response = rm_lastResponseTime (sm_request (dm_save d)),
     vw_saved = last_save_successful (dm_save d), vw_modified = dm_lastModifyActivityTime d,
     vw_toUpload = dm_toUpload d, vw_uploading = dm_uploading d,
     vw_uploaded = um_lastUploadedFileModifiedLocalTime (dm_store d),
     vw_asked = map_option asked (dm_uploadRequest d), vw_sending = map_option sending (dm_uploadSession d)\<rparr>"

text \<open>The moves at a time. A file that is sent to its place is the one that waits to be uploaded.\<close>

inductive moves :: "steady \<Rightarrow> 'c view \<Rightarrow> 'c view \<Rightarrow> bool" for now where
  stays: "moves now v v"
| asks_to_save: "moves now v w \<Longrightarrow> moves now v (w\<lparr>vw_request := now\<rparr>)"
| gives_up_saving: "moves now v w \<Longrightarrow> moves now v (w\<lparr>vw_response := now, vw_saved := False\<rparr>)"
| asks_to_upload: "moves now v w \<Longrightarrow> moves now v (w\<lparr>vw_asked := a\<rparr>)"
| uploads: "moves now v w \<Longrightarrow> vw_sending w = None \<Longrightarrow> (plain \<longrightarrow> vw_uploading w = Some f) \<Longrightarrow>
    moves now v (w\<lparr>vw_sending := Some (plain, f)\<rparr>)"

lemma moves_trans: "moves now v w \<Longrightarrow> moves now u v \<Longrightarrow> moves now u w"
  by (induction rule: moves.induct) (auto intro: moves.intros)

section \<open>What is never taken back\<close>

definition later :: "'c document \<Rightarrow> 'c document \<Rightarrow> bool" where
  "later d d' \<longleftrightarrow>
    (ds_status (dm_state d) \<noteq> Destroyed \<longrightarrow>
      status_rank (ds_status (dm_state d)) \<le> status_rank (ds_status (dm_state d')) \<and> ds_status (dm_state d') \<noteq> Destroyed) \<and>
    (dm_stop d \<longrightarrow> dm_stop d') \<and> (ds_closeRequested (dm_state d) \<longrightarrow> ds_closeRequested (dm_state d')) \<and>
    (is_loaded d \<longrightarrow> is_loaded d') \<and> dm_storage d' = dm_storage d \<and> dm_config d' = dm_config d"

lemma later_refl [simp, intro]: "later d d"
  by (simp add: later_def)

lemma later_trans: "later d1 d2 \<Longrightarrow> later d2 d3 \<Longrightarrow> later d1 d3"
  by (auto simp: later_def)

lemma status_rank_destroying [simp]:
  "st \<noteq> Destroyed \<Longrightarrow> status_rank st \<le> 4"
  by (cases st) auto

section \<open>Refinement\<close>

definition evolves :: "steady \<Rightarrow> 'c document \<Rightarrow> 'c document \<Rightarrow> bool" where
  "evolves now d d' \<longleftrightarrow> moves now (view d) (view d') \<and> later d d'"

lemma evolves_refl [simp, intro]: "evolves now d d"
  by (simp add: evolves_def later_def moves.stays)

lemma evolves_trans: "evolves now d1 d2 \<Longrightarrow> evolves now d2 d3 \<Longrightarrow> evolves now d1 d3"
  unfolding evolves_def by (blast intro: moves_trans later_trans)

named_theorems evolving

lemma evolves_quiet: "view d' = view d \<Longrightarrow> later d d' \<Longrightarrow> evolves now d0 d \<Longrightarrow> evolves now d0 d'"
  unfolding evolves_def by (auto intro: later_trans)

subsection \<open>Messages and states\<close>

lemma evolves_sent [evolving]: "evolves now d0 d \<Longrightarrow> evolves now d0 (d\<lparr>dm_sent := x\<rparr>)"
  by (erule evolves_quiet [rotated -1]) (simp_all add: view_def later_def)

lemma evolves_sessions [evolving]: "evolves now d0 d \<Longrightarrow> evolves now d0 (d\<lparr>dm_sessions := x\<rparr>)"
  by (erule evolves_quiet [rotated -1]) (simp_all add: view_def later_def)

lemma evolves_lock [evolving]: "evolves now d0 d \<Longrightarrow> evolves now d0 (d\<lparr>dm_lock := x\<rparr>)"
  by (erule evolves_quiet [rotated -1]) (simp_all add: view_def later_def)

lemma evolves_lockRequest [evolving]: "evolves now d0 d \<Longrightarrow> evolves now d0 (d\<lparr>dm_lockRequest := x\<rparr>)"
  by (erule evolves_quiet [rotated -1]) (simp_all add: view_def later_def)

lemma evolves_lockSession [evolving]: "evolves now d0 d \<Longrightarrow> evolves now d0 (d\<lparr>dm_lockSession := x\<rparr>)"
  by (erule evolves_quiet [rotated -1]) (simp_all add: view_def later_def)

lemma evolves_stop_flag [evolving]: "evolves now d0 d \<Longrightarrow> evolves now d0 (d\<lparr>dm_stop := True\<rparr>)"
  by (erule evolves_quiet [rotated -1]) (simp_all add: view_def later_def)

lemma evolves_closeReason [evolving]: "evolves now d0 d \<Longrightarrow> evolves now d0 (d\<lparr>dm_closeReason := x\<rparr>)"
  by (erule evolves_quiet [rotated -1]) (simp_all add: view_def later_def)

lemma evolves_rename [evolving]:
  "evolves now d0 d \<Longrightarrow> evolves now d0 (d\<lparr>dm_renameSessionId := x\<rparr>)"
  "evolves now d0 d \<Longrightarrow> evolves now d0 (d\<lparr>dm_renameFilename := x\<rparr>)"
  by (erule evolves_quiet [rotated -1], simp_all add: view_def later_def)+

lemma evolves_checkFileInfo [evolving]: "evolves now d0 d \<Longrightarrow> evolves now d0 (d\<lparr>dm_checkFileInfo := x\<rparr>)"
  by (erule evolves_quiet [rotated -1]) (simp_all add: view_def later_def)

lemma evolves_storageTime [evolving]: "evolves now d0 d \<Longrightarrow> evolves now d0 (d\<lparr>dm_storageTime := x\<rparr>)"
  by (erule evolves_quiet [rotated -1]) (simp_all add: view_def later_def)

lemma evolves_conflict [evolving]: "evolves now d0 d \<Longrightarrow> evolves now d0 (d\<lparr>dm_documentChangedInStorage := x\<rparr>)"
  by (erule evolves_quiet [rotated -1]) (simp_all add: view_def later_def)

lemma evolves_attrs [evolving]:
  "evolves now d0 d \<Longrightarrow> evolves now d0 (d\<lparr>dm_nextAttrs := x\<rparr>)"
  "evolves now d0 d \<Longrightarrow> evolves now d0 (d\<lparr>dm_currentAttrs := x\<rparr>)"
  "evolves now d0 d \<Longrightarrow> evolves now d0 (d\<lparr>dm_lastAttrs := x\<rparr>)"
  by (erule evolves_quiet [rotated -1], simp_all add: view_def later_def)+

lemma evolves_times [evolving]:
  "evolves now d0 d \<Longrightarrow> evolves now d0 (d\<lparr>dm_loadDeadline := x\<rparr>)"
  "evolves now d0 d \<Longrightarrow> evolves now d0 (d\<lparr>dm_clipboardTime := x\<rparr>)"
  "evolves now d0 d \<Longrightarrow> evolves now d0 (d\<lparr>dm_migrationWait := y\<rparr>)"
  "evolves now d0 d \<Longrightarrow> evolves now d0 (d\<lparr>dm_migrateMsgReceived := z\<rparr>)"
  "evolves now d0 d \<Longrightarrow> evolves now d0 (d\<lparr>dm_isModified := z\<rparr>)"
  "evolves now d0 d \<Longrightarrow> evolves now d0 (d\<lparr>dm_lastActivityTime := x\<rparr>)"
  "evolves now d0 d \<Longrightarrow> evolves now d0 (d\<lparr>dm_lastEditingSessionId := s\<rparr>)"
  by (erule evolves_quiet [rotated -1], simp_all add: view_def later_def)+

subsection \<open>The state of the document\<close>

lemma evolves_ds: "later d (d\<lparr>dm_state := ds\<rparr>) \<Longrightarrow> evolves now d0 d \<Longrightarrow> evolves now d0 (d\<lparr>dm_state := ds\<rparr>)"
  by (erule evolves_quiet [rotated]) (simp_all add: view_def)

lemma evolves_end_activity [evolving]: "evolves now d0 d \<Longrightarrow> evolves now d0 (update_state end_activity d)"
  by (erule evolves_ds [rotated]) (simp add: later_def end_activity_def)

lemma evolves_start_activity: "start_activity a (dm_state d) = Ok ds \<Longrightarrow> evolves now d0 d \<Longrightarrow> evolves now d0 (d\<lparr>dm_state := ds\<rparr>)"
  by (erule evolves_ds [rotated]) (auto simp: later_def start_activity_def split: if_splits)

lemma evolves_start_saving:
  "start_activity a (dm_state d) = Ok ds \<Longrightarrow> evolves now d0 (d\<lparr>dm_save := sm\<rparr>) \<Longrightarrow> evolves now d0 (d\<lparr>dm_save := sm, dm_state := ds\<rparr>)"
  using evolves_start_activity [of a "d\<lparr>dm_save := sm\<rparr>" ds now d0] by simp

lemma evolves_restart_activity:
  "start_activity a (end_activity (dm_state d)) = Ok ds \<Longrightarrow> evolves now d0 d \<Longrightarrow> evolves now d0 (d\<lparr>dm_state := ds\<rparr>)"
  by (erule evolves_ds [rotated]) (auto simp: later_def start_activity_def end_activity_def split: if_splits)

lemma evolves_mark [evolving]: "evolves now d0 d \<Longrightarrow> evolves now d0 (update_state ds_mark_to_destroy d)"
  by (erule evolves_ds [rotated]) (auto simp: later_def ds_mark_to_destroy_def)

lemma evolves_flags [evolving]:
  "evolves now d0 d \<Longrightarrow> evolves now d0 (update_state (\<lambda>ds. ds\<lparr>ds_closeRequested := True\<rparr>) d)"
  "evolves now d0 d \<Longrightarrow> evolves now d0 (update_state (\<lambda>ds. ds\<lparr>ds_unloadRequested := b\<rparr>) d)"
  "evolves now d0 d \<Longrightarrow> evolves now d0 (update_state (\<lambda>ds. ds\<lparr>ds_kitDisconnected := k\<rparr>) d)"
  "evolves now d0 d \<Longrightarrow> evolves now d0 (update_state (\<lambda>ds. ds\<lparr>ds_interactive := b\<rparr>) d)"
  by (erule evolves_ds [rotated], auto simp: later_def)+

lemma evolves_live:
  "set_live (dm_state d) = Ok ds \<Longrightarrow> evolves now d0 d \<Longrightarrow> evolves now d0 (d\<lparr>dm_state := ds\<rparr>)"
  by (erule evolves_ds [rotated])
    (auto simp: later_def set_live_def set_status_def less_eq_doc_status_def split: if_splits)

subsection \<open>Messages\<close>

lemma evolves_session_send [evolving]: "evolves now d0 d \<Longrightarrow> evolves now d0 (session_send i m d)"
  by (auto simp: session_send_def intro: evolving split: option.splits)

lemma evolves_broadcast_message: "broadcast_message m d = (n, d') \<Longrightarrow> evolves now d0 d \<Longrightarrow> evolves now d0 d'"
  by (auto simp: broadcast_message_def Let_def intro: evolving)

lemma evolves_broadcast [evolving]: "evolves now d0 d \<Longrightarrow> evolves now d0 (snd (broadcast_message m d))"
  by (rule evolves_broadcast_message [of m d _ "snd (broadcast_message m d)"]) (auto intro: prod.collapse [symmetric])

lemma evolves_fold:
  assumes "\<And>x d. evolves now d0 d \<Longrightarrow> evolves now d0 (f x d)" and "evolves now d0 d"
  shows "evolves now d0 (fold f xs d)"
  using assms(2) by (induction xs arbitrary: d) (auto intro: assms(1))

lemma evolves_to_others [evolving]: "evolves now d0 d \<Longrightarrow> evolves now d0 (broadcast_message_to_others m i d)"
  unfolding broadcast_message_to_others_def by (rule evolves_fold) (rule evolving)

lemma evolves_save_result [evolving]: "evolves now d0 d \<Longrightarrow> evolves now d0 (broadcast_save_result b r e d)"
  unfolding broadcast_save_result_def Let_def by (rule evolving)

lemma evolves_change_session [evolving]: "evolves now d0 d \<Longrightarrow> evolves now d0 (change_session i f d)"
  unfolding change_session_def by (rule evolving)

lemma evolves_set_read_only [evolving]: "evolves now d0 d \<Longrightarrow> evolves now d0 (session_set_read_only i b d)"
  unfolding session_set_read_only_def by (intro evolving)

lemma evolves_set_writable [evolving]: "evolves now d0 d \<Longrightarrow> evolves now d0 (session_set_writable i b d)"
  by (auto simp: session_set_writable_def Let_def intro!: evolves_change_session evolves_set_read_only)

lemma evolves_forward: "forward_to_child oc i m d = Ok (b, d') \<Longrightarrow> evolves now d0 d \<Longrightarrow> evolves now d0 d'"
  by (auto simp: forward_to_child_def forward_urp_to_child_def intro: evolving split: if_splits)

subsection \<open>Stopping\<close>

lemma evolves_stop [evolving]: "evolves now d0 d \<Longrightarrow> evolves now d0 (stop r d)"
  by (auto simp: stop_def Let_def intro!: evolves_stop_flag evolves_closeReason)

lemma evolves_close [evolving]: "evolves now d0 d \<Longrightarrow> evolves now d0 (close_document r d)"
  by (auto simp: close_document_def Let_def intro!: evolves_stop evolves_closeReason evolves_flags)

lemma evolves_fail_loading [evolving]: "evolves now d0 d \<Longrightarrow> evolves now d0 (fail_loading_sessions b d)"
  by (auto simp: fail_loading_sessions_def Let_def intro!: evolves_sessions evolves_fold evolves_session_send)

lemma evolves_disconnected_from_kit [evolving]: "evolves now d0 d \<Longrightarrow> evolves now d0 (disconnected_from_kit u d)"
  by (auto simp: disconnected_from_kit_def Let_def intro!: evolves_fail_loading evolves_close evolves_flags)

lemma evolves_end_rename [evolving]: "evolves now d0 d \<Longrightarrow> evolves now d0 (end_rename_file_command d)"
  unfolding end_rename_file_command_def Let_def
  by (intro evolves_end_activity evolves_broadcast evolves_rename)

lemma evolves_end_switching [evolving]: "evolves now d0 d \<Longrightarrow> evolves now d0 (end_switching d)"
  unfolding end_switching_def by (intro evolves_end_activity evolves_broadcast)

lemma evolves_switch_to_offline: "switch_to_offline d = Ok d' \<Longrightarrow> evolves now d0 d \<Longrightarrow> evolves now d0 d'"
proof -
  assume d': "switch_to_offline d = Ok d'" and e: "evolves now d0 d"
  have "evolves now d0 (update_state (ds_mark_to_destroy \<circ> end_activity) d)"
    using evolves_mark [OF evolves_end_activity [OF e]] by simp
  then show ?thesis
    using d' by (auto simp: switch_to_offline_def intro: evolving split: list.splits)
qed

subsection \<open>Requests to save\<close>

lemma evolves_save_frame:
  "sm_request sm = sm_request (dm_save d) \<Longrightarrow> evolves now d0 d \<Longrightarrow> evolves now d0 (d\<lparr>dm_save := sm\<rparr>)"
  by (erule evolves_quiet [rotated -1]) (simp_all add: view_def later_def last_save_successful_def)

lemma evolves_save_request:
  "evolves now d0 d \<Longrightarrow> evolves now d0 (d\<lparr>dm_save := mark_last_save_request_time now (dm_save d)\<rparr>)"
proof -
  assume "evolves now d0 d"
  then have "moves now (view d0) (view d\<lparr>vw_request := now\<rparr>)" "later d0 d"
    by (auto simp: evolves_def intro: moves.intros)
  then show ?thesis
    by (simp add: evolves_def view_def mark_last_save_request_time_def mark_last_request_time_def last_save_successful_def
        last_request_successful_def later_def)
qed

lemma evolves_save_failed:
  "evolves now d0 d \<Longrightarrow> evolves now d0 (d\<lparr>dm_save := set_last_save_result False False now (dm_save d)\<rparr>)"
proof -
  assume "evolves now d0 d"
  then have "moves now (view d0) (view d\<lparr>vw_response := now, vw_saved := False\<rparr>)" "later d0 d"
    by (auto simp: evolves_def intro: moves.intros)
  then show ?thesis
    by (simp add: evolves_def view_def set_last_save_result_def set_last_request_result_def mark_last_response_time_def
        last_save_successful_def last_request_successful_def later_def)
qed

lemma evolves_send_uno_save:
  "send_uno_save oc i a b c f e d = Ok (sent, d') \<Longrightarrow> evolves (oc_now oc) d0 d \<Longrightarrow> evolves (oc_now oc) d0 d'"
  by (auto simp: send_uno_save_def Let_def res_bind_Ok split: if_splits
      intro!: evolves_save_request evolves_save_frame evolves_attrs(1) elim!: evolves_forward evolves_start_saving)

lemma evolves_manual_save:
  "manual_save oc i a b e d = Ok (sent, d') \<Longrightarrow> evolves (oc_now oc) d0 d \<Longrightarrow> evolves (oc_now oc) d0 d'"
  by (auto simp: manual_save_def split: if_splits elim!: evolves_send_uno_save)

lemma evolves_auto_save:
  "auto_save oc force b f d = Ok (sent, d') \<Longrightarrow> evolves (oc_now oc) d0 d \<Longrightarrow> evolves (oc_now oc) d0 d'"
  by (auto simp: auto_save_def auto_save_checked_def Let_def split: if_splits option.splits
      intro!: evolves_save_frame elim!: evolves_send_uno_save)

lemma evolves_start_rename:
  assumes "start_rename_file_command oc d = Ok d'" and "evolves (oc_now oc) d0 d"
  shows "evolves (oc_now oc) d0 d'"
  using assms
  by (auto simp: start_rename_file_command_def Let_def res_bind_Ok split: if_splits
      intro!: evolves_end_rename evolves_save_result evolves_broadcast elim!: evolves_send_uno_save evolves_start_activity)

lemma evolves_handle_rename:
  assumes "handle_rename_file_command oc i n d = Ok (s, d')" and "evolves (oc_now oc) d0 d"
  shows "evolves (oc_now oc) d0 d'"
  using assms
  by (auto simp: handle_rename_file_command_def Let_def res_bind_Ok split: if_splits intro!: evolves_rename elim!: evolves_start_rename)

lemma evolves_switch_mode:
  assumes "switch_mode oc i m d = Ok d'" and "evolves (oc_now oc) d0 d"
  shows "evolves (oc_now oc) d0 d'"
  using assms
  by (auto simp: switch_mode_def start_switching_to_online_def start_switching_to_offline_def Let_def res_bind_Ok split: if_splits
      intro!: evolves_session_send evolves_broadcast elim!: evolves_send_uno_save evolves_start_activity)

subsection \<open>Locks and leaving sessions\<close>

lemma evolves_storage_lock: "storage_lock oc lock d = (r, d') \<Longrightarrow> evolves now d0 d \<Longrightarrow> evolves now d0 d'"
  by (auto simp: storage_lock_def split: if_splits lock_reply.splits intro!: evolves_lock)

lemma evolves_set_lock_failed [evolving]: "evolves now d0 d \<Longrightarrow> evolves now d0 (set_lock_failed i r d)"
  unfolding set_lock_failed_def by (intro evolving)

lemma evolves_handle_lock_result: "handle_lock_result oc i lock r d = (b, d') \<Longrightarrow> evolves now d0 d \<Longrightarrow> evolves now d0 d'"
  by (auto simp: handle_lock_result_def Let_def split: prod.splits lock_status.splits if_splits
      intro!: evolves_lock evolves_set_lock_failed evolves_change_session)

lemma evolves_update_lock: "update_storage_lock_state oc s lock d = (b, e, d') \<Longrightarrow> evolves now d0 d \<Longrightarrow> evolves now d0 d'"
  by (auto simp: update_storage_lock_state_def split: if_splits prod.splits elim!: evolves_handle_lock_result evolves_storage_lock)

lemma evolves_unlocking [evolving]: "evolves now d0 d \<Longrightarrow> evolves now d0 (snd (snd (update_storage_lock_state oc s lock d)))"
  by (cases "update_storage_lock_state oc s lock d") (auto elim!: evolves_update_lock)

lemma evolves_lock_answered [evolving]: "evolves now d0 d \<Longrightarrow> evolves now d0 (lock_answered oc lock r d)"
proof -
  assume e: "evolves now d0 d"
  have "evolves now d0 (d\<lparr>dm_lockRequest := None\<rparr>)" by (rule evolving) (rule e)
  then have "evolves now d0 (snd (handle_lock_result oc i lock r (d\<lparr>dm_lockRequest := None\<rparr>)))" for i
    by (cases "handle_lock_result oc i lock r (d\<lparr>dm_lockRequest := None\<rparr>)") (auto elim: evolves_handle_lock_result)
  then show ?thesis
    using e evolves_lockRequest [OF e] by (auto simp: lock_answered_def Let_def split: option.splits)
qed

lemma evolves_lock_finished [evolving]: "evolves now d0 d \<Longrightarrow> evolves now d0 (lock_finished oc st r d)"
  by (auto simp: lock_finished_def Let_def split: option.splits intro!: evolves_lock_answered evolves_lockSession)

lemma evolves_lock_async: "update_storage_lock_state_async oc s lock d = Ok (b, e, d') \<Longrightarrow> evolves now d0 d \<Longrightarrow> evolves now d0 d'"
  by (auto simp: update_storage_lock_state_async_def storage_lock_async_def split: if_splits
      intro!: evolves_lock_answered evolves_lockRequest evolves_lockSession)

lemma evolves_refresh_lock: "refresh_lock oc d = Ok d' \<Longrightarrow> evolves now d0 d \<Longrightarrow> evolves now d0 d'"
  by (auto simp: refresh_lock_def res_bind_Ok split: if_splits option.splits intro!: evolves_lock elim!: evolves_lock_async)

lemma evolves_lock_if_editing [evolving]: "evolves now d0 d \<Longrightarrow> evolves now d0 (lock_if_editing oc i d)"
  by (auto simp: lock_if_editing_def split: if_splits option.splits prod.splits
      intro!: evolves_set_writable elim!: evolves_update_lock)

lemma evolves_final_remove [evolving]: "evolves now d0 d \<Longrightarrow> evolves now d0 (final_remove_session i d)"
  unfolding final_remove_session_def by (rule evolving)

lemma evolves_disconnect_from_kit: "disconnect_from_kit oc s d = Ok (b, d') \<Longrightarrow> evolves now d0 d \<Longrightarrow> evolves now d0 d'"
  by (auto simp: disconnect_from_kit_def res_bind_Ok split: if_splits intro!: evolves_change_session elim!: evolves_forward)

lemma evolves_orphaned [evolving]: "evolves now d0 d \<Longrightarrow> evolves now d0 (fail_orphaned_sessions d)"
  by (auto simp: fail_orphaned_sessions_def Let_def intro!: evolves_stop evolves_fail_loading)

lemma evolves_disconnect_session:
  assumes d': "disconnect_session_internal oc s d = Ok d'" and e: "evolves now d0 d"
  shows "evolves now d0 d'"
proof -
  define d1 where "d1 = unlock_for_last_session oc s (if ds_unloadRequested (dm_state d) then update_state ds_mark_to_destroy d else d)"
  have "evolves now d0 d1"
    using e by (auto simp: d1_def unlock_for_last_session_def intro!: evolves_unlocking evolves_mark)
  then show ?thesis
    using d' unfolding disconnect_session_internal_def Let_def d1_def [symmetric]
    by (auto simp: res_bind_Ok split: if_splits intro!: evolves_final_remove evolves_orphaned elim!: evolves_disconnect_from_kit)
qed

lemma evolves_disconnect_closed:
  "disconnect_closed oc is d = Ok d' \<Longrightarrow> evolves now d0 d \<Longrightarrow> evolves now d0 d'"
proof (induction "is" arbitrary: d)
  case (Cons i js)
  then show ?case
    by (auto simp: res_bind_Ok split: option.splits if_splits intro: evolves_disconnect_session)
qed simp

end
