(* ===== verification/DocumentEvolution.thy ===== *)
theory DocumentEvolution
  imports DocumentViews
begin

text \<open>
  The methods that upload, unload and poll refine the protocol of saving and uploading; what the answers of the kit and the storage do
  to the view of a document beyond its own moves.
\<close>

section \<open>Uploads\<close>

lemma evolves_store_frame:
  "um_lastUploadedFileModifiedLocalTime um = um_lastUploadedFileModifiedLocalTime (dm_store d) \<Longrightarrow>
   evolves now d0 d \<Longrightarrow> evolves now d0 (d\<lparr>dm_store := um\<rparr>)"
  by (erule evolves_quiet [rotated -1]) (simp_all add: view_def later_def)

lemma evolves_upload_result [evolving]: "evolves now d0 d \<Longrightarrow> evolves now d0 (d\<lparr>dm_store := set_last_upload_result b t (dm_store d)\<rparr>)"
  by (rule evolves_store_frame) (simp_all add: set_last_upload_result_def)

lemma evolves_completed:
  "dm_uploadRequest d = Some ur \<Longrightarrow> evolves now d0 d \<Longrightarrow> evolves now d0 (d\<lparr>dm_uploadRequest := Some (ur\<lparr>ur_completed := True\<rparr>)\<rparr>)"
  by (erule evolves_quiet [rotated -1]) (simp_all add: view_def later_def asked_def)

lemma evolves_uploadRequest [evolving]: "evolves now d0 d \<Longrightarrow> evolves now d0 (d\<lparr>dm_uploadRequest := x\<rparr>)"
proof -
  assume "evolves now d0 d"
  then have "moves now (view d0) (view d\<lparr>vw_asked := map_option asked x\<rparr>)" "later d0 d"
    by (auto simp: evolves_def intro: moves.intros)
  then show ?thesis by (simp add: evolves_def view_def later_def)
qed

lemma evolves_uploadSession:
  assumes "dm_uploadSession d = None" and "us_contents us \<longrightarrow> dm_uploading d = Some (us_body us)" and "evolves now d0 d"
  shows "evolves now d0 (d\<lparr>dm_uploadSession := Some us\<rparr>)"
proof -
  have "vw_sending (view d) = None" "us_contents us \<longrightarrow> vw_uploading (view d) = Some (us_body us)" "later d0 d"
    using assms by (simp_all add: view_def evolves_def)
  then have "moves now (view d0) (view d\<lparr>vw_sending := Some (sending us)\<rparr>)"
    using assms(3) unfolding sending_def evolves_def by (intro moves.uploads) auto
  then show ?thesis using \<open>later d0 d\<close> by (simp add: evolves_def view_def later_def)
qed

lemma evolves_reported [evolving]: "evolves now d0 d \<Longrightarrow> evolves now d0 (report_upload_to_storage_failed ur d)"
  unfolding report_upload_to_storage_failed_def by (rule evolving)

lemma evolves_upload_error [evolving]: "evolves now d0 d \<Longrightarrow> evolves now d0 (upload_error oc r d)"
  by (auto simp: upload_error_def Let_def split: option.splits activity.splits
      intro!: evolves_session_send evolves_end_rename evolves_end_switching evolves_reported evolves_upload_result evolves_save_result
        evolves_completed)

lemma evolves_upload_local_file:
  "upload_local_file_to_storage_async oc p n b d = (sz, d') \<Longrightarrow> evolves now d0 d \<Longrightarrow> evolves now d0 d'"
  by (auto simp: upload_local_file_to_storage_async_def Let_def split: if_splits option.splits
      intro!: evolves_upload_error evolves_uploadSession)

lemma evolves_upload_internal:
  "upload_to_storage_internal oc i p n isRename isExport force d = Ok d' \<Longrightarrow> evolves now d0 d \<Longrightarrow> evolves now d0 d'"
  by (auto simp: upload_to_storage_internal_def mark_last_upload_request_time_def Let_def split: if_splits option.splits prod.splits
      intro!: evolves_store_frame evolves_attrs evolves_uploadRequest elim!: evolves_upload_local_file)

lemma evolves_upload: "upload_to_storage oc i force d = Ok d' \<Longrightarrow> evolves now d0 d \<Longrightarrow> evolves now d0 d'"
  by (auto simp: upload_to_storage_def split: if_splits elim: evolves_upload_internal)

lemma evolves_upload_as: "upload_as_to_storage oc i p n a b d = Ok d' \<Longrightarrow> evolves now d0 d \<Longrightarrow> evolves now d0 d'"
  by (auto simp: upload_as_to_storage_def elim: evolves_upload_internal)

lemma evolves_continue: "continue_activity oc needed d = Ok (b, d') \<Longrightarrow> evolves now d0 d \<Longrightarrow> evolves now d0 d'"
  by (auto simp: continue_activity_def res_bind_Ok split: activity.splits if_splits
      intro!: evolves_end_rename evolves_save_result evolves_end_activity elim: evolves_upload_internal evolves_switch_to_offline)

lemma evolves_check_and_upload:
  "check_and_upload_to_storage oc i justSaved d = Ok d' \<Longrightarrow> evolves now d0 d \<Longrightarrow> evolves now d0 d'"
  by (auto simp: check_and_upload_to_storage_def Let_def res_bind_Ok split: if_splits
      elim!: evolves_upload evolves_disconnect_closed evolves_continue)

section \<open>The end of an upload\<close>

lemma evolves_after_upload: "after_upload oc d = Ok d' \<Longrightarrow> evolves now d0 d \<Longrightarrow> evolves now d0 d'"
proof -
  assume d': "after_upload oc d = Ok d'" and e: "evolves now d0 d"
  have "evolves now d0 (broadcast_last_modification_time d)"
    using e by (auto simp: broadcast_last_modification_time_def Let_def intro: evolving)
  then show ?thesis
    using d' by (auto simp: after_upload_def Let_def split: if_splits intro!: evolves_stop evolves_mark elim!: evolves_disconnect_closed)
qed

lemma evolves_renamed [evolving]: "evolves now d0 d \<Longrightarrow> evolves now d0 (file_renamed oc ua d)"
  unfolding file_renamed_def Let_def by (intro evolving)

lemma evolves_saved_as: "file_saved_as oc ur ua d = (r, d') \<Longrightarrow> evolves now d0 d \<Longrightarrow> evolves now d0 d' \<and> (\<forall>e. r = Some e \<longrightarrow> evolves now d0 e)"
  by (auto simp: file_saved_as_def Let_def split: option.splits if_splits intro!: evolves_to_others evolves_session_send)

lemma evolves_conflict_handled [evolving]: "evolves now d0 d \<Longrightarrow> evolves now d0 (handle_document_conflict d)"
  by (auto simp: handle_document_conflict_def Let_def split: prod.splits if_splits
      intro!: evolves_stop evolves_conflict elim!: evolves_broadcast_message)

lemma evolves_read_only [evolving]: "evolves now d0 d \<Longrightarrow> evolves now d0 (all_read_only m d)"
  unfolding all_read_only_def by (rule evolves_fold) (intro evolving)

lemma evolves_upload_failed: "upload_failed ur ua d = Ok d' \<Longrightarrow> evolves now d0 d \<Longrightarrow> evolves now d0 d'"
  by (auto simp: upload_failed_def res_bind_Ok split: upload_result.splits
      intro!: evolves_save_result evolves_read_only evolves_conflict_handled evolves_change_session evolves_session_send evolves_reported
      elim: evolves_restart_activity)

lemma evolves_handle_failed:
  assumes "handle_upload_to_storage_failed ur ua d = Ok d'" and e: "evolves now d0 d"
  shows "evolves now d0 d'"
proof -
  have "evolves now d0 (end_failed_rename d)"
    using e by (auto simp: end_failed_rename_def intro!: evolves_session_send evolves_end_rename)
  then show ?thesis
    using assms(1) by (auto simp: handle_upload_to_storage_failed_def res_bind_Ok intro!: evolves_attrs elim: evolves_upload_failed)
qed

lemma evolves_check_file_info: "check_file_info oc i d = Ok d' \<Longrightarrow> evolves now d0 d \<Longrightarrow> evolves now d0 d'"
  by (auto simp: check_file_info_def split: if_splits intro!: evolves_checkFileInfo)

lemma evolves_file_info_checked: "file_info_checked info d = Ok d' \<Longrightarrow> evolves now d0 d \<Longrightarrow> evolves now d0 d'"
  by (auto simp: file_info_checked_def Let_def split: option.splits if_splits file_info.splits
      intro!: evolves_store_frame evolves_storageTime evolves_conflict_handled evolves_end_activity evolves_change_session)

section \<open>Polling\<close>

lemma evolves_save_for_last:
  "save_for_last_session oc s d = Ok (b, d') \<Longrightarrow> evolves (oc_now oc) d0 d \<Longrightarrow> evolves (oc_now oc) d0 d'"
  by (auto simp: save_for_last_session_def split: if_splits elim: evolves_auto_save)

lemma evolves_last_session_gone [evolving]: "evolves now d0 d \<Longrightarrow> evolves now d0 (last_session_gone d)"
  by (auto simp: last_session_gone_def intro!: evolves_flags evolves_mark)

lemma evolves_remove_session:
  "remove_session oc s d = Ok d' \<Longrightarrow> evolves (oc_now oc) d0 d \<Longrightarrow> evolves (oc_now oc) d0 d'"
  by (auto simp: remove_session_def Let_def res_bind_Ok split: if_splits intro!: evolves_last_session_gone
      elim!: evolves_disconnect_session evolves_save_for_last evolves_forward)

lemma evolves_save_before_stop:
  "save_before_stop oc d = Ok (b, d') \<Longrightarrow> evolves (oc_now oc) d0 d \<Longrightarrow> evolves (oc_now oc) d0 d'"
  by (auto simp: save_before_stop_def res_bind_Ok split: if_splits option.splits
      elim!: evolves_check_and_upload evolves_auto_save)

lemma evolves_auto_save_and_stop:
  assumes d': "auto_save_and_stop oc r d = Ok d'" and e: "evolves (oc_now oc) d0 d"
  shows "evolves (oc_now oc) d0 d'"
proof -
  have *: "evolves (oc_now oc) d0 (if b then stop r e else e)" if "save_before_stop oc d = Ok (b, e)" for b e
    using evolves_save_before_stop [OF that \<open>evolves (oc_now oc) d0 d\<close>] by (simp add: evolves_stop)
  show ?thesis
    using d' e * evolves_stop [OF e] unfolding auto_save_and_stop_def
    by (simp add: res_bind_Ok split: if_split_asm option.splits bool.splits) (metis | force)+
qed

lemma evolves_poll_limits: "poll_limits oc d = (b, d') \<Longrightarrow> evolves now d0 d \<Longrightarrow> evolves now d0 d'"
  by (auto simp: poll_limits_def Let_def split: if_splits intro!: evolves_times evolves_stop evolves_broadcast)

lemma evolves_forget [evolving]: "evolves now d0 d \<Longrightarrow> evolves now d0 (forget_requests d)"
  by (auto simp: forget_requests_def Let_def split: option.splits intro!: evolves_uploadRequest evolves_checkFileInfo)

lemma evolves_poll_unload: "poll_unload oc d = Ok (b, d') \<Longrightarrow> evolves (oc_now oc) d0 d \<Longrightarrow> evolves (oc_now oc) d0 d'"
  by (auto simp: poll_unload_def res_bind_Ok split: if_splits intro!: evolves_stop elim!: evolves_auto_save_and_stop)

lemma evolves_poll_dead: "poll_dead oc d = Ok (b, d') \<Longrightarrow> evolves (oc_now oc) d0 d \<Longrightarrow> evolves (oc_now oc) d0 d'"
  by (auto simp: poll_dead_def res_bind_Ok split: if_splits intro!: evolves_stop elim!: evolves_auto_save_and_stop)

lemma evolves_poll_retry: "poll_retry_upload oc d = Ok (b, d') \<Longrightarrow> evolves now d0 d \<Longrightarrow> evolves now d0 d'"
  by (auto simp: poll_retry_upload_def res_bind_Ok split: if_splits option.splits elim!: evolves_check_and_upload)

lemma evolves_migration [evolving]: "evolves now d0 d \<Longrightarrow> evolves now d0 (poll_migration oc d)"
  by (auto simp: poll_migration_def split: option.splits intro!: evolves_times)

lemma evolves_poll_idle: "poll_idle oc d = Ok (b, d') \<Longrightarrow> evolves (oc_now oc) d0 d \<Longrightarrow> evolves (oc_now oc) d0 d'"
proof -
  assume d': "poll_idle oc d = Ok (b, d')" and "evolves (oc_now oc) d0 d"
  then have "evolves (oc_now oc) d0 (forget_requests d)" by (intro evolves_forget)
  then show ?thesis
    using d' unfolding poll_idle_def Let_def
    by (auto simp: res_bind_Ok split: if_splits intro!: evolves_migration
        elim: evolves_start_rename evolves_auto_save_and_stop evolves_poll_dead evolves_poll_unload evolves_auto_save evolves_poll_retry)
qed

lemma evolves_activity_ended: "s = dm_state d \<Longrightarrow> evolves now d0 d \<Longrightarrow> evolves now d0 (d\<lparr>dm_state := end_activity s\<rparr>)"
  by (simp add: evolves_end_activity)

lemma evolves_poll_saving [evolving]: "evolves (oc_now oc) d0 d \<Longrightarrow> evolves (oc_now oc) d0 (poll_saving oc d)"
  by (auto simp: poll_saving_def intro!: evolves_activity_ended evolves_save_failed)

lemma evolves_poll_sync: "poll_sync_timestamp oc d = Ok d' \<Longrightarrow> evolves now d0 d \<Longrightarrow> evolves now d0 d'"
  by (auto simp: poll_sync_timestamp_def split: if_splits option.splits
      intro!: evolves_activity_ended evolves_storageTime elim!: evolves_check_file_info)

lemma evolves_poll_activity:
  assumes d': "poll_activity oc d = Ok (b, d')" and e: "evolves (oc_now oc) d0 d"
  shows "evolves (oc_now oc) d0 d'"
proof -
  have "evolves (oc_now oc) d0 (d\<lparr>dm_save := postpone_autosave 30 (oc_now oc) (dm_save d)\<rparr>)"
    using e by (auto simp: postpone_autosave_def Let_def intro: evolves_save_frame)
  then show ?thesis
    using d' evolves_poll_idle [OF _ e] evolves_poll_sync [OF _ e] evolves_poll_saving [OF e]
    by (cases "ds_activity (dm_state d)") (auto simp: poll_activity_def res_bind_Ok)
qed

lemma evolves_stale_sessions [evolving]: "evolves now d0 d \<Longrightarrow> evolves now d0 (poll_stale_sessions oc d)"
  by (auto simp: poll_stale_sessions_def Let_def split: option.splits intro!: evolves_times evolves_final_remove)

lemma evolves_poll_round: "poll_round oc d = Ok d' \<Longrightarrow> evolves (oc_now oc) d0 d \<Longrightarrow> evolves (oc_now oc) d0 d'"
  by (auto simp: poll_round_def res_bind_Ok split: if_splits prod.splits bool.splits
      intro!: evolves_stale_sessions elim!: evolves_poll_activity evolves_refresh_lock evolves_poll_limits)

lemma evolves_add_session: "add_session oc b s d = Ok (c, d') \<Longrightarrow> evolves now d0 d \<Longrightarrow> evolves now d0 d'"
  by (auto simp: add_session_def res_bind_Ok split: if_splits intro!: evolves_mark evolves_sessions)

lemma evolves_create_session: "create_new_client_session d = (b, d') \<Longrightarrow> evolves now d0 d \<Longrightarrow> evolves now d0 d'"
  by (auto simp: create_new_client_session_def split: if_splits intro!: evolves_flags)

lemma evolves_set_loaded: "set_loaded oc t d = Ok d' \<Longrightarrow> evolves now d0 d \<Longrightarrow> evolves now d0 d'"
proof -
  assume d': "set_loaded oc t d = Ok d'" and e: "evolves now d0 d"
  have "evolves now d0 (d\<lparr>dm_state := ds, dm_save := (dm_save d)\<lparr>sm_savingTimeout := x\<rparr>\<rparr>)" if "set_live (dm_state d) = Ok ds" for ds x
    using evolves_save_frame [OF _ evolves_live [OF that e], of "(dm_save d)\<lparr>sm_savingTimeout := x\<rparr>"] by simp
  then show ?thesis
    using d' e by (auto simp: set_loaded_def res_bind_Ok split: if_splits)
qed

section \<open>Answers of the kit\<close>

definition kit_answered :: "bool \<Rightarrow> bool \<Rightarrow> steady \<Rightarrow> 'c view \<Rightarrow> 'c view" where
  "kit_answered good renames now v =
    (let v = v\<lparr>vw_response := now, vw_saved := good\<rparr>
     in if renames \<and> vw_toUpload v \<noteq> None then v\<lparr>vw_uploading := vw_toUpload v, vw_toUpload := None\<rparr> else v)"

abbreviation answer_good :: "save_answer \<Rightarrow> bool" where
  "answer_good sa \<equiv> sa_success sa \<or> sa_result sa = ''unmodified''"

lemma view_save_done:
  "view (rename_to_upload oc (save_done oc sa d)) = kit_answered (answer_good sa) (oc_rename oc) (oc_now oc) (view d)"
  by (auto simp: view_def rename_to_upload_def save_done_def kit_answered_def set_last_save_result_def set_last_request_result_def
      mark_last_response_time_def last_save_successful_def last_request_successful_def Let_def split: option.splits)

lemma later_save_done: "later d (rename_to_upload oc (save_done oc sa d))"
  by (auto simp: later_def rename_to_upload_def save_done_def Let_def split: option.splits)

lemma handle_save_response_moves:
  assumes "handle_save_response oc i sa d = Ok d'"
  shows "moves now (kit_answered (answer_good sa) (oc_rename oc) (oc_now oc) (view d)) (view d')" "later d d'"
proof -
  let ?d = "rename_to_upload oc (save_done oc sa d)"
  have "evolves now ?d d'"
    using assms by (auto simp: handle_save_response_def Let_def split: if_splits
        intro!: evolves_save_result evolves_session_send elim!: evolves_check_and_upload)
  then show "moves now (kit_answered (answer_good sa) (oc_rename oc) (oc_now oc) (view d)) (view d')" "later d d'"
    using later_trans [OF later_save_done] by (auto simp: evolves_def view_save_done)
qed

section \<open>Answers of the storage\<close>

definition upload_answered :: "bool \<Rightarrow> 'c view \<Rightarrow> 'c view" where
  "upload_answered ok v =
    (let v = v\<lparr>vw_sending := None\<rparr>
     in case vw_asked v of
          Some (t, plain) \<Rightarrow> if ok \<and> plain then v\<lparr>vw_uploaded := t\<rparr> else v
        | None \<Rightarrow> v)"

lemma storage_answer_view:
  assumes "storage_answer a b code phrase body json d = (ua, d')"
  shows "ua_result ua = UploadOk \<longleftrightarrow> code = 200" "view d' = view d" "later d d'" "dm_uploadRequest d' = dm_uploadRequest d"
  using assms by (auto simp: storage_answer_def Let_def view_def later_def split: if_splits option.splits)

text \<open>The fields that a file at its place in the storage sets\<close>

abbreviation marked_uploaded :: "upload_request \<Rightarrow> 'c document \<Rightarrow> 'c document" where
  "marked_uploaded ur d \<equiv>
    d\<lparr>dm_save := (dm_save d)\<lparr>sm_lastModifiedLocalTime := ur_newFileModifiedLocalTime ur\<rparr>,
      dm_store := (dm_store d)\<lparr>um_lastModifiedServerTimeString := dm_storageTime d,
        um_lastUploadedFileModifiedLocalTime := ur_newFileModifiedLocalTime ur\<rparr>,
      dm_documentChangedInStorage := False, dm_lastAttrs := at_reset\<rparr>"

lemma evolves_file_uploaded:
  assumes "file_uploaded oc ur d = Ok d'" and "evolves now d0 (marked_uploaded ur d)"
  shows "evolves now d0 d'"
  using assms by (auto simp: file_uploaded_def Let_def split: activity.splits if_splits
      intro!: evolves_end_rename evolves_save_result elim: evolves_upload_internal evolves_switch_to_offline)

lemma evolves_successful:
  assumes "handle_upload_to_storage_successful oc ur ua d = Ok d'"
    and "evolves now d0 (if snd (asked ur) then marked_uploaded ur d else d)"
  shows "evolves now d0 d'"
  using assms
  by (auto simp: handle_upload_to_storage_successful_def asked_def res_bind_Ok split: if_splits option.splits prod.splits
      intro!: evolves_renamed elim!: evolves_after_upload evolves_file_uploaded dest!: evolves_saved_as)

lemma upload_complete_moves:
  assumes d': "upload_complete oc ua d = Ok d'"
    and asked: "dm_uploadRequest d = Some ur"
  shows "moves now
      (if ua_result ua = UploadOk \<and> snd (asked ur) then (view d)\<lparr>vw_uploaded := fst (asked ur)\<rparr> else view d) (view d')"
    and "later d d'"
proof -
  let ?ur = "ur\<lparr>ur_completed := True\<rparr>"
  define d1 where "d1 = d\<lparr>dm_uploadRequest := Some ?ur,
    dm_store := set_last_upload_result (ua_result ua = UploadOk) (oc_now oc) (dm_store d)\<rparr>"
  define d2 where "d2 = (if ua_result ua = UploadOk \<and> snd (asked ur) then marked_uploaded ?ur d1 else d1)"
  have view: "view d2 = (if ua_result ua = UploadOk \<and> snd (asked ur) then (view d)\<lparr>vw_uploaded := fst (asked ur)\<rparr> else view d)"
    using asked by (auto simp: d2_def d1_def view_def asked_def set_last_upload_result_def last_save_successful_def)
  have later: "later d d2" by (simp add: d2_def d1_def later_def)
  have "evolves now d2 d'"
    using d' asked unfolding upload_complete_def handle_upload_to_storage_response_def
    by (auto simp: Let_def d2_def d1_def asked_def split: if_splits
        intro: evolves_successful [where ur = ?ur] evolves_handle_failed)
  then show "moves now
      (if ua_result ua = UploadOk \<and> snd (asked ur) then (view d)\<lparr>vw_uploaded := fst (asked ur)\<rparr> else view d) (view d')" "later d d'"
    using view later_trans [OF later] by (auto simp: evolves_def)
qed

lemma upload_finished_moves:
  assumes d': "upload_finished oc code phrase body json d = Ok d'" and us: "dm_uploadSession d = Some us"
  shows "moves now (upload_answered (code = 200) (view d)) (view d')" "later d d'"
proof -
  obtain ua d1 where a: "storage_answer (us_isSaveAs us) (us_isRename us) code phrase body json (d\<lparr>dm_uploadSession := None\<rparr>) = (ua, d1)"
    by fastforce
  have v1: "view d1 = (view d)\<lparr>vw_sending := None\<rparr>" and req: "dm_uploadRequest d1 = dm_uploadRequest d"
    and later: "later d d1" and ok: "ua_result ua = UploadOk \<longleftrightarrow> code = 200"
    using storage_answer_view [OF a] by (auto simp: view_def later_def)
  have va: "vw_asked (view d) = map_option asked (dm_uploadRequest d)" by (simp add: view_def)
  have c: "upload_complete oc ua d1 = Ok d'" using d' us a by (simp add: upload_finished_def)
  have "moves now (upload_answered (code = 200) (view d)) (view d') \<and> later d1 d'"
  proof (cases "dm_uploadRequest d1")
    case None
    then show ?thesis
      using c v1 va req by (auto simp: upload_complete_def upload_answered_def later_def intro: moves.stays)
  next
    case (Some ur)
    have "upload_answered (code = 200) (view d) = (if ua_result ua = UploadOk \<and> snd (asked ur) then (view d1)\<lparr>vw_uploaded := fst (asked ur)\<rparr> else view d1)"
      using Some req v1 va ok by (cases "asked ur") (simp add: upload_answered_def Let_def)
    then show ?thesis using upload_complete_moves [OF c Some] by simp
  qed
  then show "moves now (upload_answered (code = 200) (view d)) (view d')" "later d d'"
    using later_trans [OF later] by auto
qed

lemma upload_connect_failed_moves:
  "moves now ((view d)\<lparr>vw_sending := None\<rparr>) (view (upload_connect_failed oc d))" "later d (upload_connect_failed oc d)"
proof -
  have "evolves now (d\<lparr>dm_uploadSession := None\<rparr>) (upload_connect_failed oc d)"
    by (cases d, auto simp: upload_connect_failed_def intro: evolves_upload_error)
  then show "moves now ((view d)\<lparr>vw_sending := None\<rparr>) (view (upload_connect_failed oc d))" "later d (upload_connect_failed oc d)"
    by (auto simp: evolves_def view_def later_def last_save_successful_def)
qed

end
