(* ===== verification/DocumentWorlds.thy ===== *)
theory DocumentWorlds
  imports DocumentEvolution
begin

text \<open>
  A document with its surroundings: the contents that the kit holds and that the storage holds, and the steps of the user, the kit,
  the storage and the server. Contents are identified by the modification times of the files of the document.
\<close>

section \<open>Events that the server handles\<close>

datatype doc_event =
    Polls
  | SavesManually string bool bool string
  | SavesByForce
  | SavesToStorage string bool
  | SavesAs string string string bool bool
  | Renames string string
  | SwitchesMode string string
  | Connects
  | Joins bool doc_session
  | Leaves doc_session
  | HasLeft string
  | Locks string
  | LockAnswers nat string
  | InfoAnswers file_info
  | LosesKit bool
  | Closes string
  | IsModified bool
  | IsLoaded steady
  | IsActive string

fun doc_handle :: "'c outside \<Rightarrow> doc_event \<Rightarrow> 'c document \<Rightarrow> 'c document res" where
  "doc_handle oc Polls d = poll_round oc d"
| "doc_handle oc (SavesManually i a b e) d = res_bind (manual_save oc i a b e d) (\<lambda>(_, d). Ok d)"
| "doc_handle oc SavesByForce d = res_bind (auto_save oc True True False d) (\<lambda>(_, d). Ok d)"
| "doc_handle oc (SavesToStorage i force) d = upload_to_storage oc i force d"
| "doc_handle oc (SavesAs i p n a b) d = upload_as_to_storage oc i p n a b d"
| "doc_handle oc (Renames i n) d = res_bind (handle_rename_file_command oc i n d) (\<lambda>(_, d). Ok d)"
| "doc_handle oc (SwitchesMode i m) d = switch_mode oc i m d"
| "doc_handle oc Connects d = Ok (snd (create_new_client_session d))"
| "doc_handle oc (Joins b s) d = res_bind (add_session oc b s d) (\<lambda>(_, d). Ok d)"
| "doc_handle oc (Leaves s) d = remove_session oc s d"
| "doc_handle oc (HasLeft i) d = Ok (final_remove_session i d)"
| "doc_handle oc (Locks i) d = Ok (lock_if_editing oc i d)"
| "doc_handle oc (LockAnswers st r) d = Ok (lock_finished oc st r d)"
| "doc_handle oc (InfoAnswers info) d = file_info_checked info d"
| "doc_handle oc (LosesKit u) d = Ok (disconnected_from_kit u d)"
| "doc_handle oc (Closes r) d = Ok (close_document r d)"
| "doc_handle oc (IsModified b) d = Ok (set_modified b d)"
| "doc_handle oc (IsLoaded t) d = set_loaded oc t d"
| "doc_handle oc (IsActive i) d = Ok (update_editing_session_id i (update_last_activity_time oc d))"

lemma doc_handle_evolves: "doc_handle oc e d = Ok d' \<Longrightarrow> evolves (oc_now oc) d d'"
proof (induction oc e d rule: doc_handle.induct)
  case (8 oc d)
  then show ?case
    by (cases "create_new_client_session d") (auto intro: evolves_create_session)
qed (auto simp: res_bind_Ok set_modified_def update_editing_session_id_def update_last_activity_time_def
    intro: evolves_poll_round evolves_manual_save evolves_auto_save evolves_upload evolves_upload_as evolves_handle_rename
      evolves_switch_mode evolves_add_session evolves_remove_session evolves_file_info_checked evolves_set_loaded evolving)

text \<open>All that happens to a document: events of the server, an edit, an answer of the kit with the file that it wrote, and the ends of an
  upload\<close>

datatype 'c doc_input =
    Handled doc_event
  | Edited
  | KitAnswers string save_answer "'c doc_file option"
  | StorageAnswers nat string string "upload_json option"
  | ConnectionFails

fun handle_input :: "'c outside \<times> 'c doc_input \<Rightarrow> 'c document \<Rightarrow> 'c document res" where
  "handle_input (oc, Handled e) d = doc_handle oc e d"
| "handle_input (oc, Edited) d = Ok (update_last_modifying_activity_time oc d)"
| "handle_input (oc, KitAnswers i sa f) d = handle_save_response oc i sa (d\<lparr>dm_toUpload := f\<rparr>)"
| "handle_input (oc, StorageAnswers code phrase body json) d = upload_finished oc code phrase body json d"
| "handle_input (oc, ConnectionFails) d = Ok (upload_connect_failed oc d)"

lemma handle_input_later: "handle_input x d = Ok d' \<Longrightarrow> later d d'"
proof (induction x d rule: handle_input.induct)
  case (1 oc e d)
  then show ?case using doc_handle_evolves [of oc e d d'] by (simp add: evolves_def)
next
  case (2 oc d)
  then show ?case by (auto simp: later_def update_last_modifying_activity_time_def)
next
  case (3 oc i sa f d)
  then show ?case using handle_save_response_moves(2) [of oc i sa "d\<lparr>dm_toUpload := f\<rparr>" d'] by (simp add: later_def)
next
  case (4 oc code phrase body json d)
  then show ?case
    using upload_finished_moves(2) [of oc code phrase body json d d'] later_refl
    by (cases "dm_uploadSession d") (auto simp: upload_finished_def)
next
  case (5 oc d)
  then show ?case using upload_connect_failed_moves(2) [of d oc] by simp
qed

lemma handle_inputs_later: "res_fold handle_input xs d = Ok d' \<Longrightarrow> later d d'"
  by (erule res_fold_invariant [where P = "later d"]) (auto intro: later_refl later_trans handle_input_later)

section \<open>Worlds\<close>

record 'c world =
  wo_doc :: "'c document"
  wo_time :: steady
  wo_kit :: 'c
  wo_since :: "'c set"
  wo_stored :: 'c
  wo_misjudged :: bool

text \<open>The contents that the kit held since the last request to save, after a step of the server\<close>

definition since_after :: "'c world \<Rightarrow> 'c document \<Rightarrow> 'c set" where
  "since_after w d = (if vw_request (view d) = vw_request (view (wo_doc w)) then wo_since w else {wo_kit w})"

text \<open>The time of the last file that the kit saved and the server took, or of the file of the storage\<close>

definition file_time :: "'c view \<Rightarrow> int" where
  "file_time v = (case vw_uploading v of Some f \<Rightarrow> fi_time f | None \<Rightarrow> vw_uploaded v)"

text \<open>The upload that runs is the one of the request that is remembered, which a success then counts for.\<close>

definition answers_own :: "'c document \<Rightarrow> bool" where
  "answers_own d =
    (case (vw_asked (view d), vw_sending (view d)) of
       (Some (t, True), Some (plain, f)) \<Rightarrow> plain \<and> t = fi_time f
     | _ \<Rightarrow> True)"

text \<open>What the storage may hold after a request to store that was not confirmed\<close>

definition may_hold :: "'c upload_session \<Rightarrow> 'c \<Rightarrow> 'c \<Rightarrow> bool" where
  "may_hold us old new \<longleftrightarrow> new = old \<or> us_contents us \<and> new = fi_content (us_body us)"

text \<open>
  The last component of a world is a history variable: it tells that a success of the storage was counted for another request than the
  one it answers. What the steps assume of the surroundings: the clock goes on; the kit answers to the last request to save, so that a
  file that it reports as saved holds something it held since then; the time of a file identifies its contents and does not go back; the
  file can be renamed; and the storage, when it answers 200, holds the body of the request.
\<close>

inductive world_step :: "(int \<Rightarrow> 'c) \<Rightarrow> 'c world \<Rightarrow> 'c world \<Rightarrow> bool" for V where
  edits: "wo_time w < oc_now oc \<Longrightarrow>
    world_step V w (w\<lparr>wo_doc := update_last_modifying_activity_time oc (wo_doc w), wo_time := oc_now oc, wo_kit := c,
      wo_since := insert c (wo_since w)\<rparr>)"
| handles: "wo_time w < oc_now oc \<Longrightarrow> doc_handle oc e (wo_doc w) = Ok d \<Longrightarrow>
    world_step V w (w\<lparr>wo_doc := d, wo_time := oc_now oc, wo_since := since_after w d\<rparr>)"
| saves: "wo_time w < oc_now oc \<Longrightarrow> oc_rename oc \<Longrightarrow> fi_content f = V (fi_time f) \<Longrightarrow>
    file_time (view (wo_doc w)) \<le> fi_time f \<Longrightarrow> (answer_good sa \<Longrightarrow> fi_content f \<in> wo_since w) \<Longrightarrow>
    handle_save_response oc i sa ((wo_doc w)\<lparr>dm_toUpload := Some f\<rparr>) = Ok d \<Longrightarrow>
    world_step V w (w\<lparr>wo_doc := d, wo_time := oc_now oc\<rparr>)"
| fails_to_save: "wo_time w < oc_now oc \<Longrightarrow> oc_rename oc \<Longrightarrow> \<not> answer_good sa \<Longrightarrow>
    handle_save_response oc i sa (wo_doc w) = Ok d \<Longrightarrow>
    world_step V w (w\<lparr>wo_doc := d, wo_time := oc_now oc\<rparr>)"
| stores: "wo_time w < oc_now oc \<Longrightarrow> dm_uploadSession (wo_doc w) = Some us \<Longrightarrow>
    upload_finished oc 200 phrase body json (wo_doc w) = Ok d \<Longrightarrow>
    world_step V w (w\<lparr>wo_doc := d, wo_time := oc_now oc,
      wo_stored := (if us_contents us then fi_content (us_body us) else wo_stored w),
      wo_misjudged := wo_misjudged w \<or> \<not> answers_own (wo_doc w)\<rparr>)"
| fails_to_store: "wo_time w < oc_now oc \<Longrightarrow> dm_uploadSession (wo_doc w) = Some us \<Longrightarrow> code \<noteq> 200 \<Longrightarrow> may_hold us (wo_stored w) c \<Longrightarrow>
    upload_finished oc code phrase body json (wo_doc w) = Ok d \<Longrightarrow>
    world_step V w (w\<lparr>wo_doc := d, wo_time := oc_now oc, wo_stored := c\<rparr>)"
| fails_to_connect: "wo_time w < oc_now oc \<Longrightarrow> dm_uploadSession (wo_doc w) = Some us \<Longrightarrow> may_hold us (wo_stored w) c \<Longrightarrow>
    world_step V w (w\<lparr>wo_doc := upload_connect_failed oc (wo_doc w), wo_time := oc_now oc, wo_stored := c\<rparr>)"

text \<open>A document that was just loaded\<close>

definition world_init :: "(int \<Rightarrow> 'c) \<Rightarrow> 'c world \<Rightarrow> bool" where
  "world_init V w \<longleftrightarrow>
    (let d = wo_doc w; v = view d
     in dm_storage d \<and> vw_toUpload v = None \<and> vw_uploading v = None \<and> vw_sending v = None \<and>
        vw_modified v \<le> vw_request v \<and> vw_request v \<le> wo_time w \<and> vw_response v \<le> wo_time w \<and>
        wo_kit w = V (vw_uploaded v) \<and> wo_stored w = wo_kit w \<and> wo_since w = {wo_kit w} \<and> \<not> wo_misjudged w)"

inductive world_reachable :: "(int \<Rightarrow> 'c) \<Rightarrow> 'c world \<Rightarrow> bool" for V where
  loaded: "world_init V w \<Longrightarrow> world_reachable V w"
| steps: "world_reachable V w \<Longrightarrow> world_step V w w' \<Longrightarrow> world_reachable V w'"

section \<open>The invariant\<close>

text \<open>Files are identified by their times; what is in the storage when the last file is the one that was uploaded last\<close>

definition files_inv :: "(int \<Rightarrow> 'c) \<Rightarrow> 'c \<Rightarrow> 'c view \<Rightarrow> bool" where
  "files_inv V stored v \<longleftrightarrow>
    vw_toUpload v = None \<and> vw_uploaded v \<le> file_time v \<and>
    (\<forall>f. vw_uploading v = Some f \<longrightarrow> fi_content f = V (fi_time f)) \<and>
    (\<forall>f. vw_sending v = Some (True, f) \<longrightarrow>
      fi_content f = V (fi_time f) \<and> vw_uploaded v \<le> fi_time f \<and> fi_time f \<le> file_time v) \<and>
    (file_time v = vw_uploaded v \<longrightarrow> stored = V (vw_uploaded v))"

text \<open>The last file holds something that the kit held since the last request, when that was answered\<close>

definition saved_inv :: "(int \<Rightarrow> 'c) \<Rightarrow> 'c \<Rightarrow> 'c set \<Rightarrow> 'c view \<Rightarrow> bool" where
  "saved_inv V kit since v \<longleftrightarrow>
    kit \<in> since \<and> (vw_modified v \<le> vw_request v \<longrightarrow> since = {kit}) \<and>
    (vw_saved v \<and> vw_request v \<le> vw_response v \<longrightarrow> V (file_time v) \<in> since)"

lemma moves_kept:
  assumes "moves now v w"
  shows "vw_modified w = vw_modified v" "vw_toUpload w = vw_toUpload v" "vw_uploading w = vw_uploading v" "vw_uploaded w = vw_uploaded v"
    "vw_request w = vw_request v \<or> vw_request w = now"
    "vw_response w = vw_response v \<and> vw_saved w = vw_saved v \<or> vw_response w = now \<and> \<not> vw_saved w"
  using assms by (induction rule: moves.induct) auto

lemma file_time_cong: "vw_uploading w = vw_uploading v \<Longrightarrow> vw_uploaded w = vw_uploaded v \<Longrightarrow> file_time w = file_time v"
  unfolding file_time_def by (cases "vw_uploading v") simp_all

lemma file_time_frame [simp]:
  "file_time (v\<lparr>vw_request := t\<rparr>) = file_time v"
  "file_time (v\<lparr>vw_response := t\<rparr>) = file_time v"
  "file_time (v\<lparr>vw_saved := b\<rparr>) = file_time v"
  "file_time (v\<lparr>vw_modified := t\<rparr>) = file_time v"
  "file_time (v\<lparr>vw_toUpload := g\<rparr>) = file_time v"
  "file_time (v\<lparr>vw_asked := a\<rparr>) = file_time v"
  "file_time (v\<lparr>vw_sending := x\<rparr>) = file_time v"
  by (rule file_time_cong; simp)+

lemma files_inv_frame [simp]:
  "files_inv V s (v\<lparr>vw_request := t\<rparr>) = files_inv V s v"
  "files_inv V s (v\<lparr>vw_response := t\<rparr>) = files_inv V s v"
  "files_inv V s (v\<lparr>vw_saved := b\<rparr>) = files_inv V s v"
  "files_inv V s (v\<lparr>vw_modified := t\<rparr>) = files_inv V s v"
  "files_inv V s (v\<lparr>vw_asked := a\<rparr>) = files_inv V s v"
  by (simp_all add: files_inv_def)

lemma files_inv_moves: "moves now v w \<Longrightarrow> files_inv V stored v \<Longrightarrow> files_inv V stored w"
proof (induction rule: moves.induct)
  case (uploads v w plain f)
  then have inv: "files_inv V stored w" by simp
  have "plain \<longrightarrow> file_time w = fi_time f \<and> fi_content f = V (fi_time f)"
    using inv uploads(3) by (auto simp: files_inv_def file_time_def)
  then show ?case using inv unfolding files_inv_def by auto
qed simp_all

lemma saved_inv_moves:
  assumes m: "moves now v w" and s: "saved_inv V kit since v"
    and now: "now = vw_request v \<or> vw_request v < now \<and> vw_response v < now \<and> vw_modified v < now"
  shows "saved_inv V kit (if vw_request w = vw_request v then since else {kit}) w"
  using s now moves_kept [OF m] file_time_cong [OF moves_kept(3,4) [OF m]] unfolding saved_inv_def by auto

lemma files_inv_answer:
  assumes "files_inv V stored v" and "fi_content f = V (fi_time f)" and "file_time v \<le> fi_time f"
  shows "files_inv V stored (v\<lparr>vw_uploading := Some f, vw_toUpload := None, vw_response := t, vw_saved := b\<rparr>)"
  using assms unfolding files_inv_def file_time_def by (auto split: option.splits)

lemma files_inv_sent:
  assumes inv: "files_inv V stored v" and "vw_sending v = Some (plain, f)" and own: "case vw_asked v of Some (t, True) \<Rightarrow> plain \<and> t = fi_time f | _ \<Rightarrow> True"
  shows "files_inv V (if plain then fi_content f else stored) (upload_answered True v)"
    and "file_time (upload_answered True v) = file_time v"
proof -
  have plain: "fi_content f = V (fi_time f) \<and> vw_uploaded v \<le> fi_time f \<and> fi_time f \<le> file_time v" if plain
    using inv assms(2) that by (auto simp: files_inv_def)
  show ft: "file_time (upload_answered True v) = file_time v"
    using plain own by (cases "vw_uploading v") (auto simp: upload_answered_def file_time_def Let_def split: option.splits prod.splits bool.splits)
  show "files_inv V (if plain then fi_content f else stored) (upload_answered True v)"
    using inv plain own ft unfolding files_inv_def
    by (cases "vw_asked v") (auto simp: upload_answered_def Let_def split: prod.splits bool.splits)
qed

lemma files_inv_not_sent:
  assumes "files_inv V stored v" and "vw_sending v = Some (plain, f)" and "c = stored \<or> plain \<and> c = fi_content f"
  shows "files_inv V c (v\<lparr>vw_sending := None\<rparr>)"
  using assms unfolding files_inv_def by auto

definition world_inv :: "(int \<Rightarrow> 'c) \<Rightarrow> 'c world \<Rightarrow> bool" where
  "world_inv V w \<longleftrightarrow>
    (let v = view (wo_doc w)
     in dm_storage (wo_doc w) \<and> files_inv V (wo_stored w) v \<and> saved_inv V (wo_kit w) (wo_since w) v \<and>
        vw_request v \<le> wo_time w \<and> vw_response v \<le> wo_time w \<and> vw_modified v \<le> wo_time w)"

text \<open>A step that answers to the document and makes moves without a request to save\<close>

lemma world_inv_answer:
  assumes m: "\<And>now. moves now v (view d)" and files: "files_inv V stored v" and saved: "saved_inv V kit since v" and "dm_storage d"
    and "vw_request v \<le> t" "vw_response v \<le> t" "vw_modified v \<le> t"
  shows "world_inv V \<lparr>wo_doc = d, wo_time = t, wo_kit = kit, wo_since = since, wo_stored = stored, wo_misjudged = b\<rparr>"
proof -
  have "saved_inv V kit since (view d)"
    using saved_inv_moves [OF m [of "vw_request v"] saved] moves_kept(5) [OF m [of "vw_request v"]] by auto
  then show ?thesis
    using assms files_inv_moves [OF m files] moves_kept [OF m [of "vw_request v"]]
    by (auto simp: world_inv_def Let_def)
qed

lemma view_edited: "view (update_last_modifying_activity_time oc d) = (view d)\<lparr>vw_modified := oc_now oc\<rparr>"
  by (simp add: view_def update_last_modifying_activity_time_def)

lemma world_inv_init: "world_init V w \<Longrightarrow> world_inv V w"
  by (auto simp: world_init_def world_inv_def files_inv_def saved_inv_def file_time_def Let_def)

lemma world_inv_edits:
  assumes "world_inv V w" and "wo_time w < oc_now oc"
  shows "world_inv V (w\<lparr>wo_doc := update_last_modifying_activity_time oc (wo_doc w), wo_time := oc_now oc, wo_kit := c,
      wo_since := insert c (wo_since w)\<rparr>)"
proof -
  have "dm_storage (update_last_modifying_activity_time oc (wo_doc w)) = dm_storage (wo_doc w)"
    by (simp add: update_last_modifying_activity_time_def)
  then show ?thesis
    using assms by (auto simp: world_inv_def saved_inv_def view_edited Let_def)
qed

lemma world_inv_handles:
  assumes inv: "world_inv V w" and now: "wo_time w < oc_now oc" and d: "doc_handle oc e (wo_doc w) = Ok d"
  shows "world_inv V (w\<lparr>wo_doc := d, wo_time := oc_now oc, wo_since := since_after w d\<rparr>)"
proof -
  let ?v = "view (wo_doc w)"
  have m: "moves (oc_now oc) ?v (view d)" and "dm_storage d = dm_storage (wo_doc w)"
    using doc_handle_evolves [OF d] by (auto simp: evolves_def later_def)
  moreover have "saved_inv V (wo_kit w) (since_after w d) (view d)"
    using saved_inv_moves [OF m] inv now by (simp add: world_inv_def since_after_def Let_def)
  ultimately show ?thesis
    using inv now files_inv_moves [OF m] moves_kept [OF m] by (auto simp: world_inv_def Let_def)
qed

lemma world_inv_kit:
  assumes inv: "world_inv V w" and now: "wo_time w < oc_now oc" and renames: "oc_rename oc"
    and f: "fi_content f = V (fi_time f)" "file_time (view (wo_doc w)) \<le> fi_time f" "answer_good sa \<Longrightarrow> fi_content f \<in> wo_since w"
    and d: "handle_save_response oc i sa ((wo_doc w)\<lparr>dm_toUpload := Some f\<rparr>) = Ok d"
  shows "world_inv V (w\<lparr>wo_doc := d, wo_time := oc_now oc\<rparr>)"
proof -
  let ?v = "view (wo_doc w)"
  let ?a = "?v\<lparr>vw_uploading := Some f, vw_toUpload := None, vw_response := oc_now oc, vw_saved := answer_good sa\<rparr>"
  have a: "kit_answered (answer_good sa) (oc_rename oc) (oc_now oc) (view ((wo_doc w)\<lparr>dm_toUpload := Some f\<rparr>)) = ?a"
    using renames by (simp add: kit_answered_def view_def Let_def)
  have m: "moves now ?a (view d)" and "later ((wo_doc w)\<lparr>dm_toUpload := Some f\<rparr>) d" for now
    using handle_save_response_moves [OF d] by (simp_all add: a)
  moreover have "saved_inv V (wo_kit w) (wo_since w) ?a"
    using inv f(1,3) by (auto simp: world_inv_def saved_inv_def file_time_def Let_def)
  ultimately show ?thesis
    using inv now files_inv_answer [where V = V and f = f and v = ?v, OF _ f(1,2)] world_inv_answer [OF m, of V "wo_stored w" "wo_kit w" "wo_since w" "oc_now oc"]
    by (auto simp: world_inv_def later_def Let_def)
qed

lemma world_inv_kit_failed:
  assumes inv: "world_inv V w" and now: "wo_time w < oc_now oc" and bad: "\<not> answer_good sa"
    and d: "handle_save_response oc i sa (wo_doc w) = Ok d"
  shows "world_inv V (w\<lparr>wo_doc := d, wo_time := oc_now oc\<rparr>)"
proof -
  let ?v = "view (wo_doc w)"
  let ?a = "?v\<lparr>vw_response := oc_now oc, vw_saved := False\<rparr>"
  have "vw_toUpload ?v = None" using inv by (auto simp: world_inv_def files_inv_def Let_def)
  then have a: "kit_answered (answer_good sa) (oc_rename oc) (oc_now oc) ?v = ?a"
    using bad by (simp add: kit_answered_def Let_def)
  have m: "moves now ?a (view d)" and "later (wo_doc w) d" for now
    using handle_save_response_moves [OF d] by (simp_all add: a)
  moreover have "saved_inv V (wo_kit w) (wo_since w) ?a"
    using inv by (auto simp: world_inv_def saved_inv_def Let_def)
  ultimately show ?thesis
    using inv now world_inv_answer [OF m, of V "wo_stored w" "wo_kit w" "wo_since w" "oc_now oc"]
    by (auto simp: world_inv_def later_def Let_def)
qed

lemma view_sending: "dm_uploadSession d = Some us \<Longrightarrow> vw_sending (view d) = Some (us_contents us, us_body us)"
  by (simp add: view_def sending_def)

lemma world_inv_stores:
  assumes inv: "world_inv V w" and now: "wo_time w < oc_now oc" and us: "dm_uploadSession (wo_doc w) = Some us"
    and own: "answers_own (wo_doc w)" and d: "upload_finished oc 200 phrase body json (wo_doc w) = Ok d"
  shows "world_inv V (w\<lparr>wo_doc := d, wo_time := oc_now oc,
      wo_stored := (if us_contents us then fi_content (us_body us) else wo_stored w), wo_misjudged := b\<rparr>)"
proof -
  let ?v = "view (wo_doc w)"
  have m: "moves now (upload_answered True ?v) (view d)" and "later (wo_doc w) d" for now
    using upload_finished_moves [OF d us] by simp_all
  moreover have own': "case vw_asked ?v of Some (t, True) \<Rightarrow> us_contents us \<and> t = fi_time (us_body us) | _ \<Rightarrow> True"
    using own view_sending [OF us] by (auto simp: answers_own_def split: option.splits prod.splits bool.splits)
  moreover have "vw_request (upload_answered True ?v) = vw_request ?v" "vw_response (upload_answered True ?v) = vw_response ?v"
    "vw_modified (upload_answered True ?v) = vw_modified ?v" "vw_saved (upload_answered True ?v) = vw_saved ?v"
    by (auto simp: upload_answered_def Let_def split: option.splits prod.splits)
  moreover have "files_inv V (wo_stored w) ?v" using inv by (simp add: world_inv_def Let_def)
  ultimately show ?thesis
    using inv now files_inv_sent [OF _ view_sending [OF us] own', of V "wo_stored w"]
      world_inv_answer [OF m, of V _ "wo_kit w" "wo_since w" "oc_now oc"]
    by (auto simp: world_inv_def saved_inv_def later_def Let_def)
qed

lemma world_inv_not_stored:
  assumes inv: "world_inv V w" and now: "wo_time w < t" and us: "dm_uploadSession (wo_doc w) = Some us" and c: "may_hold us (wo_stored w) c"
    and m: "\<And>now. moves now ((view (wo_doc w))\<lparr>vw_sending := None\<rparr>) (view d)" and "later (wo_doc w) d"
  shows "world_inv V (w\<lparr>wo_doc := d, wo_time := t, wo_stored := c\<rparr>)"
proof -
  have "files_inv V c ((view (wo_doc w))\<lparr>vw_sending := None\<rparr>)"
    using inv c by (intro files_inv_not_sent [OF _ view_sending [OF us]]) (auto simp: world_inv_def may_hold_def Let_def)
  then show ?thesis
    using assms world_inv_answer [OF m, of V c "wo_kit w" "wo_since w" t]
    by (auto simp: world_inv_def saved_inv_def later_def Let_def)
qed

text \<open>The invariant holds as long as no success was counted for another request.\<close>

lemma misjudged_kept: "world_step V w w' \<Longrightarrow> wo_misjudged w \<Longrightarrow> wo_misjudged w'"
  by (induction rule: world_step.induct) simp_all

lemma world_inv_step: "world_step V w w' \<Longrightarrow> world_inv V w \<Longrightarrow> \<not> wo_misjudged w' \<Longrightarrow> world_inv V w'"
proof (induction rule: world_step.induct)
  case (edits w oc c)
  then show ?case by (intro world_inv_edits)
next
  case (handles w oc e d)
  then show ?case by (intro world_inv_handles)
next
  case (saves w oc f sa i d)
  then show ?case by (intro world_inv_kit)
next
  case (fails_to_save w oc sa i d)
  then show ?case by (intro world_inv_kit_failed)
next
  case (stores w oc us phrase body json d)
  then show ?case by (intro world_inv_stores) auto
next
  case (fails_to_store w oc us code c phrase body json d)
  have "upload_answered (code = 200) (view (wo_doc w)) = (view (wo_doc w))\<lparr>vw_sending := None\<rparr>"
    using fails_to_store by (auto simp: upload_answered_def Let_def split: option.splits)
  then show ?case
    using fails_to_store upload_finished_moves [OF fails_to_store(5,2)] by (intro world_inv_not_stored) auto
next
  case (fails_to_connect w oc us c)
  then show ?case
    by (intro world_inv_not_stored upload_connect_failed_moves)
qed

lemma world_reachable_inv: "world_reachable V w \<Longrightarrow> \<not> wo_misjudged w \<Longrightarrow> world_inv V w"
  by (induction rule: world_reachable.induct) (auto intro: world_inv_init world_inv_step dest: misjudged_kept)

end
