(* ===== verification/DocumentStops.thy ===== *)
theory DocumentStops
  imports DocumentWorlds
begin

text \<open>
  Which methods let a loaded document go on: saving, uploading and the sessions that leave never stop it, so that it is the decision of
  \<open>autoSaveAndStop\<close> alone.
\<close>

definition goes_on :: "'c document \<Rightarrow> 'c document \<Rightarrow> bool" where
  "goes_on d d' \<longleftrightarrow> (is_loaded d \<longrightarrow> is_loaded d' \<and> dm_stop d' = dm_stop d)"

lemma goes_on_refl [simp, intro]: "goes_on d d"
  by (simp add: goes_on_def)

lemma goes_on_trans: "goes_on d1 d2 \<Longrightarrow> goes_on d2 d3 \<Longrightarrow> goes_on d1 d3"
  by (simp add: goes_on_def)

lemma goes_on_frame: "dm_stop d' = dm_stop d \<Longrightarrow> is_loaded d' = is_loaded d \<Longrightarrow> goes_on d0 d \<Longrightarrow> goes_on d0 d'"
  by (simp add: goes_on_def)

lemma running_frames [simp]:
  "dm_stop (session_send i m d) = dm_stop d" "is_loaded (session_send i m d) = is_loaded d"
  "dm_stop (snd (broadcast_message m d)) = dm_stop d" "is_loaded (snd (broadcast_message m d)) = is_loaded d"
  "dm_stop (broadcast_save_result b r e d) = dm_stop d" "is_loaded (broadcast_save_result b r e d) = is_loaded d"
  "dm_stop (change_session i f d) = dm_stop d" "is_loaded (change_session i f d) = is_loaded d"
  "dm_stop (final_remove_session i d) = dm_stop d" "is_loaded (final_remove_session i d) = is_loaded d"
  by (simp_all add: session_send_def broadcast_message_def broadcast_save_result_def change_session_def final_remove_session_def
      Let_def split: option.splits)

lemma running_read_only [simp]:
  "dm_stop (session_set_read_only i b d) = dm_stop d" "is_loaded (session_set_read_only i b d) = is_loaded d"
  by (simp_all add: session_set_read_only_def)

lemma running_frames2 [simp]:
  "dm_stop (end_rename_file_command d) = dm_stop d" "is_loaded (end_rename_file_command d) = is_loaded d"
  "dm_stop (end_switching d) = dm_stop d" "is_loaded (end_switching d) = is_loaded d"
  "dm_stop (report_upload_to_storage_failed ur d) = dm_stop d" "is_loaded (report_upload_to_storage_failed ur d) = is_loaded d"
  "dm_stop (set_lock_failed i r d) = dm_stop d" "is_loaded (set_lock_failed i r d) = is_loaded d"
  by (simp_all add: end_rename_file_command_def end_switching_def report_upload_to_storage_failed_def set_lock_failed_def
      end_activity_def Let_def)

lemma running_upload_error [simp]: "dm_stop (upload_error oc r d) = dm_stop d" "is_loaded (upload_error oc r d) = is_loaded d"
  by (auto simp: upload_error_def Let_def split: option.splits activity.splits)

lemma goes_on_upload_internal: "upload_to_storage_internal oc i p n a b f d = Ok d' \<Longrightarrow> goes_on d d'"
  by (auto simp: upload_to_storage_internal_def upload_local_file_to_storage_async_def goes_on_def Let_def
      split: if_splits option.splits)

lemma goes_on_upload: "upload_to_storage oc i f d = Ok d' \<Longrightarrow> goes_on d d'"
  by (auto simp: upload_to_storage_def split: if_splits intro: goes_on_upload_internal)

lemma goes_on_continue: "continue_activity oc needed d = Ok (b, d') \<Longrightarrow> goes_on d d'"
  by (auto simp: continue_activity_def switch_to_offline_def res_bind_Ok end_activity_def ds_mark_to_destroy_def
      split: activity.splits if_splits list.splits intro: goes_on_upload_internal) (simp_all add: goes_on_def)

lemma running_sends:
  "dm_stop (fold (\<lambda>s. session_send (se_id s) m) ss d) = dm_stop d \<and> is_loaded (fold (\<lambda>s. session_send (se_id s) m) ss d) = is_loaded d"
  by (induction ss arbitrary: d) simp_all

lemma running_fail_loading [simp]:
  "dm_stop (fail_loading_sessions b d) = dm_stop d" "is_loaded (fail_loading_sessions b d) = is_loaded d"
  by (simp_all add: fail_loading_sessions_def Let_def running_sends)

lemma running_orphaned [simp]:
  "is_loaded (fail_orphaned_sessions d) = is_loaded d" "is_loaded d \<Longrightarrow> dm_stop (fail_orphaned_sessions d) = dm_stop d"
  by (simp_all add: fail_orphaned_sessions_def Let_def stop_def)

lemma goes_on_unlock: "goes_on d (unlock_for_last_session oc s d)"
proof -
  have "goes_on d (snd (snd (update_storage_lock_state oc s l d)))" for l
    by (auto simp: goes_on_def update_storage_lock_state_def storage_lock_def handle_lock_result_def Let_def
        split: if_splits prod.splits lock_reply.splits lock_status.splits)
  then show ?thesis by (auto simp: unlock_for_last_session_def)
qed

lemma goes_on_forward: "forward_to_child oc i m d = Ok (b, d') \<Longrightarrow> goes_on d d'"
  by (auto simp: forward_to_child_def forward_urp_to_child_def goes_on_def split: if_splits)

lemma goes_on_disconnect_from_kit: "disconnect_from_kit oc s d = Ok (b, d') \<Longrightarrow> goes_on d d'"
  by (auto simp: disconnect_from_kit_def res_bind_Ok split: if_splits dest!: goes_on_forward) (simp_all add: goes_on_def)

lemma goes_on_disconnect_session:
  assumes "disconnect_session_internal oc s d = Ok d'"
  shows "goes_on d d'"
proof -
  define d1 where "d1 = (if ds_unloadRequested (dm_state d) then update_state ds_mark_to_destroy d else d)"
  define d2 where "d2 = unlock_for_last_session oc s d1"
  have d: "goes_on d d1" by (simp add: d1_def goes_on_def ds_mark_to_destroy_def)
  moreover have "goes_on d1 d2" unfolding d2_def by (rule goes_on_unlock)
  moreover have "goes_on d2 d'"
    using assms unfolding disconnect_session_internal_def Let_def d1_def [symmetric] d2_def [symmetric]
    by (auto simp: res_bind_Ok split: if_splits dest!: goes_on_disconnect_from_kit) (simp_all add: goes_on_def)
  ultimately show ?thesis by (blast intro: goes_on_trans)
qed

lemma goes_on_disconnect_closed: "disconnect_closed oc is d = Ok d' \<Longrightarrow> goes_on d d'"
proof (induction "is" arbitrary: d)
  case (Cons i js)
  then show ?case
    by (auto simp: res_bind_Ok split: option.splits if_splits intro: goes_on_trans [OF goes_on_disconnect_session])
qed simp

lemma goes_on_check_and_upload:
  assumes "check_and_upload_to_storage oc i b d = Ok d'"
  shows "goes_on d d'"
proof -
  obtain c d1 where c: "continue_activity oc (need_to_upload_to_storage oc d) d = Ok (c, d1)"
    and rest: "d' = d1 \<or> upload_to_storage oc i False d1 = Ok d' \<or> disconnect_closed oc (map se_id (dm_sessions d1)) d1 = Ok d'"
    using assms by (auto simp: check_and_upload_to_storage_def Let_def res_bind_Ok split: if_splits)
  show ?thesis
    using rest goes_on_continue [OF c] goes_on_trans [OF goes_on_continue [OF c]]
    by (auto dest!: goes_on_upload goes_on_disconnect_closed)
qed

lemma goes_on_send_uno_save: "send_uno_save oc i a b c f e d = Ok (sent, d') \<Longrightarrow> goes_on d d'"
  by (auto simp: send_uno_save_def start_activity_def Let_def res_bind_Ok split: if_splits dest!: goes_on_forward)
    (simp_all add: goes_on_def)

lemma goes_on_auto_save: "auto_save oc force b f d = Ok (sent, d') \<Longrightarrow> goes_on d d'"
  by (auto simp: auto_save_def Let_def split: if_splits option.splits dest!: goes_on_send_uno_save) (simp_all add: goes_on_def)

end
