(* ===== verification/SavingTheorems.thy ===== *)
theory SavingTheorems
  imports DocumentWorlds
begin

text \<open>
  The properties of saving and uploading, with an example of a document that one user edits and saves.
\<close>

section \<open>An example\<close>

definition the_ok :: "'a res \<Rightarrow> 'a" where
  "the_ok r = (case r of Inr x \<Rightarrow> x | Inl e \<Rightarrow> undefined)"

lemma ok_the_ok: "\<not> isl r \<Longrightarrow> r = Ok (the_ok r)"
  by (cases r) (simp_all add: the_ok_def)

definition ex_session :: doc_session where
  "ex_session =
    \<lparr>se_id = ''0001'', se_userName = ''U'', se_state = SessionLive, se_stateTime = 0, se_closeFrame = False, se_readOnly = False,
     se_allowChangeComments = True, se_allowManageRedlines = True, se_writable = True, se_expired = False, se_documentOwner = False,
     se_lockFailed = False\<rparr>"

definition ex_outside :: "steady \<Rightarrow> int outside" where
  "ex_outside now =
    \<lparr>oc_now = now, oc_shutdown = False, oc_pid = 1, oc_sendFrame = True, oc_rename = True, oc_connects = True, oc_lock = LockReply 200 [],
     oc_saveAsFile = None, oc_requestHeader = hd_empty, oc_utf7 = id, oc_encode = id, oc_pocoEncode = id, oc_url = id, oc_urlNoToken = id,
     oc_anonymize = id, oc_jail = (''j'', ''x''), oc_urpOpen = False, oc_signature = (\<lambda>_. None), oc_accessibility = (\<lambda>_. False)\<rparr>"

definition ex_doc :: "int document" where
  "ex_doc =
    \<lparr>dm_config = \<lparr>cf_alwaysSaveOnExit = False, cf_backgroundAutoSave = True, cf_backgroundManualSave = True, cf_forceBackground = False,
       cf_limitStoreFailures = 5, cf_idleTimeoutSecs = 3600, cf_legacyServer = False, cf_indirectionServer = False,
       cf_migrationTimeoutUs = 0, cf_limitLoadSecs = 100, cf_limitLifeSecs = 0,
       cf_convertTo = False\<rparr>,
     dm_save = (mk_save_manager 30000 300000 500 0 1)\<lparr>sm_savingTimeout := 5\<rparr>,
     dm_store = (mk_storage_manager 5000 0 1)\<lparr>um_lastUploadedFileModifiedLocalTime := 7\<rparr>,
     dm_state = mk_doc_state\<lparr>ds_status := Live, ds_loaded := True\<rparr>,
     dm_sessions = [ex_session], dm_nextAttrs = at_reset, dm_currentAttrs = at_reset, dm_lastAttrs = at_reset,
     dm_uploadRequest = None, dm_lockRequest = None, dm_lockSession = None, dm_checkFileInfo = None, dm_storage = True,
     dm_storageTime = ''t'', dm_uploadSession = None, dm_toUpload = None, dm_uploading = None,
     dm_lock = \<lparr>lk_lockToken = ''L'', lk_refreshSeconds = 900, lk_supportsLocks = False, lk_lastLockTime = 0, lk_lockState = Unlock\<rparr>,
     dm_filename = ''a.odt'', dm_closeReason = [], dm_renameFilename = [], dm_renameSessionId = [], dm_lastEditingSessionId = ''0001'',
     dm_lastActivityTime = 0, dm_lastModifyActivityTime = 0, dm_isModified = False, dm_stop = False,
     dm_documentChangedInStorage = False, dm_migrateMsgReceived = False, dm_migrationWait = None,
     dm_threadStart = 0, dm_loadDeadline = 0, dm_clipboardTime = 0, dm_isViewFileExtension = False, dm_sent = []\<rparr>"

definition ex_file :: "int \<Rightarrow> int doc_file" where "ex_file t = \<lparr>fi_content = t, fi_size = 100, fi_time = t\<rparr>"

definition ex_saved :: save_answer where "ex_saved = \<lparr>sa_success = True, sa_result = [], sa_wasModified = Some True\<rparr>"

text \<open>The user edits, asks to save, the kit saves, and the storage takes the file.\<close>

definition ex_edited :: "int document" where "ex_edited = update_last_modifying_activity_time (ex_outside 10) ex_doc"
definition ex_asked :: "int document" where
  "ex_asked = the_ok (doc_handle (ex_outside 20) (SavesManually ''0001'' True False []) ex_edited)"
definition ex_sending :: "int document" where
  "ex_sending = the_ok (handle_save_response (ex_outside 30) ''0001'' ex_saved (ex_asked\<lparr>dm_toUpload := Some (ex_file 9)\<rparr>))"
definition ex_stored :: "int document" where
  "ex_stored = the_ok (upload_finished (ex_outside 40) 200 ''OK'' [] None ex_sending)"

lemma ex_steps:
  "\<not> isl (doc_handle (ex_outside 20) (SavesManually ''0001'' True False []) ex_edited)"
  "\<not> isl (handle_save_response (ex_outside 30) ''0001'' ex_saved (ex_asked\<lparr>dm_toUpload := Some (ex_file 9)\<rparr>))"
  "\<not> isl (upload_finished (ex_outside 40) 200 ''OK'' [] None ex_sending)"
  by code_simp+

lemma ex_results:
  "doc_handle (ex_outside 20) (SavesManually ''0001'' True False []) ex_edited = Ok ex_asked"
  "handle_save_response (ex_outside 30) ''0001'' ex_saved (ex_asked\<lparr>dm_toUpload := Some (ex_file 9)\<rparr>) = Ok ex_sending"
  "upload_finished (ex_outside 40) 200 ''OK'' [] None ex_sending = Ok ex_stored"
  unfolding ex_asked_def ex_sending_def ex_stored_def
  using ex_steps [THEN ok_the_ok] by (simp_all only: ex_asked_def ex_sending_def)

lemma ex_simps [simp]: "oc_now (ex_outside t) = t" "oc_rename (ex_outside t)" "fi_content (ex_file t) = t" "fi_time (ex_file t) = t"
  by (simp_all add: ex_outside_def ex_file_def)

section \<open>No data is lost unnoticed\<close>

text \<open>C2: A document was loaded, and then its user edits, the kit and the storage answer or fail, and the server handles its events, in
  any order and at any times. The kit answers the last request to save with a file whose time identifies its contents and is not before
  that of the last file, the file can be renamed, and the storage holds what it confirms. When the check at the end of the thread of the
  document reports no loss of data and no save is on its way, then the storage holds the last contents of the document, with two
  exceptions: a success of the storage was counted for another request than the one it answered, as in the last theorem of this theory,
  or closing was requested with a conflict, where the check does not report a loss because the owner discarded the document.\<close>

theorem no_unnoticed_loss:
  assumes "world_reachable V w" and "\<not> data_loss (wo_doc w)" and "\<not> is_saving (dm_save (wo_doc w))"
  shows "wo_stored w = wo_kit w \<or> wo_misjudged w \<or>
    ds_closeRequested (dm_state (wo_doc w)) \<and> dm_documentChangedInStorage (wo_doc w)"
proof (rule ccontr)
  assume contra: "\<not> ?thesis"
  let ?v = "view (wo_doc w)"
  have inv: "files_inv V (wo_stored w) ?v" "saved_inv V (wo_kit w) (wo_since w) ?v" and storage: "dm_storage (wo_doc w)"
    using world_reachable_inv [OF assms(1)] contra by (auto simp: world_inv_def Let_def)
  have "vw_modified ?v \<le> vw_request ?v" "vw_saved ?v" "vw_request ?v \<le> vw_response ?v"
    using assms(2,3) contra by (auto simp: data_loss_def view_def have_modify_activity_after_save_request_def is_saving_def rm_is_active_def)
  then have "V (file_time ?v) = wo_kit w" using inv(2) by (auto simp: saved_inv_def)
  moreover have "file_time ?v = vw_uploaded ?v"
    using assms(2) contra storage
    by (auto simp: data_loss_def is_storage_outdated_def file_time_def view_def split: option.splits)
  ultimately show False using inv(1) contra by (simp add: files_inv_def)
qed

definition ex_world :: "int world" where
  "ex_world = \<lparr>wo_doc = ex_doc, wo_time = 5, wo_kit = 7, wo_since = {7}, wo_stored = 7, wo_misjudged = False\<rparr>"

definition ex_final :: "int world" where
  "ex_final = \<lparr>wo_doc = ex_stored, wo_time = 40, wo_kit = 9, wo_since = {9}, wo_stored = 9, wo_misjudged = False\<rparr>"

lemma ex_reachable: "world_reachable id ex_final"
proof -
  have "world_init id ex_world"
    by (simp add: world_init_def ex_world_def view_def ex_doc_def mk_save_manager_def mk_storage_manager_def mk_request_manager_def Let_def)
  then have "world_reachable id ex_world" by (rule loaded)
  moreover have "world_step id ex_world \<lparr>wo_doc = ex_edited, wo_time = 10, wo_kit = 9, wo_since = {9, 7}, wo_stored = 7, wo_misjudged = False\<rparr>"
    (is "world_step id _ ?w1")
    using world_step.edits [of ex_world "ex_outside 10" id 9] by (simp add: ex_world_def ex_edited_def)
  moreover have "vw_request (view ex_asked) \<noteq> vw_request (view ex_edited)" by code_simp
  then have "world_step id ?w1 \<lparr>wo_doc = ex_asked, wo_time = 20, wo_kit = 9, wo_since = {9}, wo_stored = 7, wo_misjudged = False\<rparr>"
    (is "world_step id _ ?w2")
    using world_step.handles [of ?w1 "ex_outside 20" _ ex_asked id] ex_results(1) by (simp add: since_after_def del: doc_handle.simps)
  moreover have "file_time (view ex_asked) \<le> 9" by code_simp
  then have "world_step id ?w2 \<lparr>wo_doc = ex_sending, wo_time = 30, wo_kit = 9, wo_since = {9}, wo_stored = 7, wo_misjudged = False\<rparr>"
    (is "world_step id _ ?w3")
    using world_step.saves [of ?w2 "ex_outside 30" "ex_file 9" id ex_saved "''0001''" ex_sending] ex_results(2) by simp
  moreover have us: "map_option sending (dm_uploadSession ex_sending) = Some (True, ex_file 9)" and own: "answers_own ex_sending"
    by code_simp+
  obtain us where "dm_uploadSession ex_sending = Some us" "us_contents us" "fi_content (us_body us) = 9"
    using us by (auto simp: sending_def ex_file_def)
  then have "world_step id ?w3 ex_final" unfolding ex_final_def
    using world_step.stores [of ?w3 "ex_outside 40" us "''OK''" "[]" None ex_stored id] own ex_results(3) by simp
  ultimately show ?thesis by (blast intro: steps)
qed

lemma ex_no_loss:
  "\<not> data_loss ex_stored" "\<not> is_saving (dm_save ex_stored)" "\<not> (ds_closeRequested (dm_state ex_stored) \<and> dm_documentChangedInStorage ex_stored)"
  by code_simp+

theorem no_unnoticed_loss_witness: "wo_stored ex_final = wo_kit ex_final \<and> wo_stored ex_final \<noteq> wo_stored ex_world"
  using no_unnoticed_loss [OF ex_reachable] ex_no_loss by (simp add: ex_final_def ex_world_def)

text \<open>C36: While an upload runs, the kit saves a newer file. The server asks for its upload, which is refused, but the request for it replaces
  the one that runs; when the storage then confirms the older file, the newer one counts as uploaded although it was never sent.\<close>

theorem replaced_upload_counts:
  assumes running: "dm_uploadSession d = Some us" and storage: "dm_storage d" and idle: "ds_activity (dm_state d) = Save"
    and session: "find_session i d = Some s" "is_editable s" and ok: "last_upload_successful (dm_store d)" "\<not> is_unloading oc d"
    and newer: "dm_toUpload d = Some g" "oc_rename oc" "fi_time g \<noteq> um_lastUploadedFileModifiedLocalTime (dm_store d)"
    and saved: "handle_save_response oc i sa d = Ok d1" "sa_success sa"
    and stored: "upload_finished oc' 200 phrase body json d1 = Ok d2"
  shows "dm_uploadSession d1 = Some us \<and> dm_uploading d2 = Some g \<and> \<not> is_storage_outdated d2"
proof -
  let ?d = "rename_to_upload oc (save_done oc sa d)"
  have frame: "dm_uploadSession ?d = Some us" "dm_storage ?d" "ds_activity (dm_state ?d) = Save" "dm_sessions ?d = dm_sessions d"
    "dm_store ?d = dm_store d" "dm_uploading ?d = Some g" "dm_state ?d = dm_state d" "dm_stop ?d = dm_stop d"
    using running storage idle newer by (simp_all add: rename_to_upload_def save_done_def Let_def split: option.splits)
  have "dm_storage (save_done oc sa d)" using storage by (simp add: save_done_def Let_def split: option.splits)
  then have check: "check_and_upload_to_storage oc i True ?d = Ok d1"
    using saved by (simp add: handle_save_response_def)
  have need: "need_to_upload_to_storage oc ?d"
    using frame newer(3) by (simp add: need_to_upload_to_storage_def can_upload_to_storage_def is_storage_outdated_def)
  have unloading: "\<not> is_unloading oc (update_state end_activity ?d)"
    using ok(2) frame
    by (simp add: is_unloading_def is_unloading_unrecoverably_def is_marked_to_destroy_def end_activity_def ds_is_marked_to_destroy_def)
  have find: "find_session i (update_state end_activity ?d) = Some s"
    using session(1) frame(4) by (simp add: find_session_def)
  have "upload_to_storage_internal oc i [] [] False False False (update_state end_activity ?d) = Ok d1"
    using check frame need unloading ok(1) by (simp add: check_and_upload_to_storage_def continue_activity_def upload_to_storage_def)
  then have d1: "map_option asked (dm_uploadRequest d1) = Some (fi_time g, True) \<and> dm_uploadSession d1 = Some us \<and> dm_uploading d1 = Some g"
    using find session(2) frame
    by (auto simp: upload_to_storage_internal_def upload_local_file_to_storage_async_def upload_error_def broadcast_save_result_def
        broadcast_message_def report_upload_to_storage_failed_def session_send_def end_activity_def asked_def Let_def
        split: option.splits if_splits)
  have m: "moves now (upload_answered True (view d1)) (view d2)" and later: "later d1 d2" for now
    using upload_finished_moves [OF stored, of us] d1 by auto
  have "vw_uploaded (view d2) = fi_time g" "vw_uploading (view d2) = Some g"
    using moves_kept(3,4) [OF m] d1 by (auto simp: upload_answered_def view_def Let_def)
  then show ?thesis
    using d1 by (auto simp: view_def is_storage_outdated_def)
qed

text \<open>The document of the example edited and saved again while the first upload runs\<close>

definition ex_asked_again :: "int document" where
  "ex_asked_again = (the_ok (doc_handle (ex_outside 35) (SavesManually ''0001'' True False []) ex_sending))\<lparr>dm_toUpload := Some (ex_file 11)\<rparr>"
definition ex_refused :: "int document" where
  "ex_refused = the_ok (handle_save_response (ex_outside 37) ''0001'' ex_saved ex_asked_again)"
definition ex_older_stored :: "int document" where
  "ex_older_stored = the_ok (upload_finished (ex_outside 40) 200 ''OK'' [] None ex_refused)"

lemma ex_again:
  "\<not> isl (handle_save_response (ex_outside 37) ''0001'' ex_saved ex_asked_again)"
  "\<not> isl (upload_finished (ex_outside 40) 200 ''OK'' [] None ex_refused)"
  "map_option (\<lambda>us. us_body us) (dm_uploadSession ex_asked_again) = Some (ex_file 9)"
  "dm_storage ex_asked_again" "ds_activity (dm_state ex_asked_again) = Save" "find_session ''0001'' ex_asked_again = Some ex_session"
  "is_editable ex_session" "last_upload_successful (dm_store ex_asked_again)" "\<not> is_unloading (ex_outside 37) ex_asked_again"
  "um_lastUploadedFileModifiedLocalTime (dm_store ex_asked_again) = 7" "sa_success ex_saved"
  by code_simp+

theorem replaced_upload_counts_witness: "dm_uploading ex_older_stored = Some (ex_file 11) \<and> \<not> is_storage_outdated ex_older_stored"
proof -
  obtain us where us: "dm_uploadSession ex_asked_again = Some us" using ex_again(3) by auto
  have "dm_toUpload ex_asked_again = Some (ex_file 11)" by (simp add: ex_asked_again_def)
  then show ?thesis
    using replaced_upload_counts [OF us ex_again(4-9) _ ex_simps(2) _ ok_the_ok [OF ex_again(1)] ex_again(11) ok_the_ok [OF ex_again(2) [unfolded ex_refused_def]]] ex_again(10)
    by (simp add: ex_older_stored_def ex_refused_def)
qed

end
