(* ===== verification/UnloadTheorems.thy ===== *)
theory UnloadTheorems
  imports DocumentStops SavingTheorems
begin

text \<open>
  The properties of unloading, of the times between requests, of locks, and of what an upload tells the storage.
\<close>

section \<open>Stopping\<close>

lemma stopped_frames:
  "have_modify_activity_after_save_request (stop reason d) = have_modify_activity_after_save_request d"
  "is_storage_outdated (stop reason d) = is_storage_outdated d"
  "is_async_uploading (stop reason d) = is_async_uploading d" "dm_save (stop reason d) = dm_save d"
  by (auto simp: stop_def have_modify_activity_after_save_request_def is_storage_outdated_def is_async_uploading_def Let_def
      split: option.splits)

lemma saved_if_no_need: "need_to_save_to_disk d = SaveNo \<Longrightarrow> last_save_successful (dm_save d) \<and> \<not> have_modify_activity_after_save_request d"
  by (simp add: need_to_save_to_disk_def split: if_splits)

lemma need_to_upload_outdated: "\<not> need_to_upload_to_storage oc d \<Longrightarrow> \<not> is_storage_outdated d"
  by (auto simp: need_to_upload_to_storage_def can_upload_to_storage_def is_storage_outdated_def)

text \<open>Everything is saved, and the last file that was saved is in the storage\<close>

definition saved_and_uploaded :: "'c document \<Rightarrow> bool" where
  "saved_and_uploaded d \<longleftrightarrow>
    last_save_successful (dm_save d) \<and> \<not> have_modify_activity_after_save_request d \<and> \<not> is_storage_outdated d"

lemma may_stop_no_need:
  "may_stop oc d \<Longrightarrow> can_save_to_disk oc d = CanSave \<Longrightarrow>
    need_to_save_to_disk d = SaveNo \<and> (\<not> need_to_upload_to_storage oc d \<or> \<not> is_storage_outdated d)"
  unfolding may_stop_def Let_def
  by (cases "need_to_save_to_disk d = SaveNo"; cases "need_to_upload_to_storage oc d"; cases "is_storage_outdated d") simp_all

lemma may_stop_saved: "may_stop oc d \<Longrightarrow> can_save_to_disk oc d = CanSave \<Longrightarrow> saved_and_uploaded d"
  using may_stop_no_need [of oc d] need_to_upload_outdated [of oc d] saved_if_no_need [of d] by (auto simp: saved_and_uploaded_def)

lemma stop_saved_saved:
  assumes "stop_saved oc d = Ok (Some True)" and "\<not> need_to_upload_to_storage oc d"
  shows "saved_and_uploaded d"
  using assms need_to_upload_outdated [OF assms(2)]
  by (auto simp: stop_saved_def saved_and_uploaded_def Let_def split: if_splits dest: saved_if_no_need)

text \<open>A document that no save was asked for\<close>

lemma forward_not_sent: "forward_to_child oc i m d = Ok (False, d') \<Longrightarrow> d' = d"
  by (auto simp: forward_to_child_def forward_urp_to_child_def split: if_splits)

definition same_requests :: "'c document \<Rightarrow> 'c document \<Rightarrow> bool" where
  "same_requests d d' \<longleftrightarrow>
    sm_request (dm_save d') = sm_request (dm_save d) \<and> dm_sessions d' = dm_sessions d \<and> dm_storage d' = dm_storage d \<and>
    dm_uploadSession d' = dm_uploadSession d"

lemma same_requests_same:
  assumes "same_requests d d'"
  shows "is_saving (dm_save d') = is_saving (dm_save d)" "is_async_uploading d' = is_async_uploading d"
    "get_writeable_session d' = get_writeable_session d"
  using assms by (simp_all add: same_requests_def is_saving_def is_async_uploading_def get_writeable_session_def)

lemma send_uno_save_not_sent: "send_uno_save oc i t s a f x d = Ok (False, d') \<Longrightarrow> same_requests d d'"
  unfolding send_uno_save_def Let_def
  by (auto simp: res_bind_Ok same_requests_def split: if_splits dest!: forward_not_sent)

lemma auto_save_not_sent: "auto_save oc force b f d = Ok (False, d') \<Longrightarrow> same_requests d d'"
  unfolding auto_save_def Let_def
  by (auto simp: split: if_splits option.splits dest!: send_uno_save_not_sent)
    (auto simp: same_requests_def auto_save_checked_def)

lemma save_before_stop_stops:
  assumes "save_before_stop oc d = Ok (True, d')"
  shows "same_requests d d' \<and> (get_writeable_session d = None \<or> (\<exists>s. get_writeable_session d = Some s \<and> se_expired s))"
proof -
  obtain force where a: "auto_save oc force True True d = Ok (False, d')"
    and "get_writeable_session d' = None \<or> (\<exists>s. get_writeable_session d' = Some s \<and> se_expired s)"
    using assms by (auto simp: save_before_stop_def res_bind_Ok split: if_splits option.splits)
  then show ?thesis using auto_save_not_sent [OF a] same_requests_same(3) [OF auto_save_not_sent [OF a]] by auto
qed

lemma save_before_stop_goes_on:
  assumes "save_before_stop oc d = Ok (False, d')"
  shows "goes_on d d'"
  using assms by (auto simp: save_before_stop_def res_bind_Ok split: if_splits option.splits
      intro: goes_on_auto_save goes_on_trans dest!: goes_on_check_and_upload)

text \<open>Which document it stops when it does\<close>

lemma auto_save_and_stop_cases:
  assumes d': "auto_save_and_stop oc reason d = Ok d'" and "dm_stop d'" "\<not> dm_stop d" and loaded: "is_loaded d"
  obtains "d' = stop reason d" "may_stop oc d \<or> \<not> need_to_upload_to_storage oc d \<and> stop_saved oc d = Ok (Some True)"
  | d2 where "d' = stop reason d2" "save_before_stop oc d = Ok (True, d2)"
proof -
  have running: "\<not> dm_stop d2" if "save_before_stop oc d = Ok (False, d2)" for d2
    using save_before_stop_goes_on [OF that] loaded assms(3) by (simp add: goes_on_def)
  obtain c where c: "(if may_stop oc d then Ok (Some True) else if \<not> need_to_upload_to_storage oc d then stop_saved oc d
      else Ok (Some False)) = Ok c"
    using d' assms(2,3) by (auto simp: auto_save_and_stop_def res_bind_Ok split: if_split_asm)
  have "c = Some True \<and> d' = stop reason d \<or> (\<exists>d2. d' = stop reason d2 \<and> save_before_stop oc d = Ok (True, d2))"
    using d' assms(2,3) running c
    by (cases c) (auto simp: auto_save_and_stop_def res_bind_Ok split: if_split_asm bool.splits)
  then show ?thesis using c that by (auto split: if_split_asm)
qed

text \<open>C3: When \<open>autoSaveAndStop\<close> stops a loaded document, no save and no upload is on its way; and the last save succeeded, nothing was
  modified since it was asked for, and the storage is not outdated (the last file that was to be uploaded was), with two exceptions: the
  document cannot be saved (without a kit or a session that may write), or the token of the session that may write expired. In these the
  document is stopped even though changes may be lost.\<close>

theorem stops_without_loss:
  assumes "auto_save_and_stop oc reason d = Ok d'" and "dm_stop d'" "\<not> dm_stop d" and "is_loaded d"
  shows "\<not> is_saving (dm_save d') \<and> \<not> is_async_uploading d' \<and>
    (can_save_to_disk oc d \<noteq> CanSave \<or> (\<exists>s. get_writeable_session d = Some s \<and> se_expired s) \<or>
     last_save_successful (dm_save d') \<and> \<not> have_modify_activity_after_save_request d' \<and> \<not> is_storage_outdated d')"
proof -
  have idle: "\<not> (is_saving (dm_save d) \<or> is_async_uploading d)" using assms(1-3) by (auto simp: auto_save_and_stop_def)
  show ?thesis
    using assms
  proof (cases rule: auto_save_and_stop_cases)
    case 1
    then have "can_save_to_disk oc d \<noteq> CanSave \<or> saved_and_uploaded d" using may_stop_saved stop_saved_saved by blast
    then show ?thesis using 1(1) idle by (simp add: saved_and_uploaded_def stopped_frames)
  next
    case (2 d2)
    have "can_save_to_disk oc d \<noteq> CanSave \<or> (\<exists>s. get_writeable_session d = Some s \<and> se_expired s)"
      using save_before_stop_stops [OF 2(2)] by (auto simp: can_save_to_disk_def)
    then show ?thesis using 2(1) idle save_before_stop_stops [OF 2(2)] same_requests_same [of d d2] by (simp add: stopped_frames)
  qed
qed

lemma ex_stops:
  "\<not> isl (auto_save_and_stop (ex_outside 50) ''idle'' ex_stored)"
  "dm_stop (the_ok (auto_save_and_stop (ex_outside 50) ''idle'' ex_stored))" "\<not> dm_stop ex_stored" "is_loaded ex_stored"
  "can_save_to_disk (ex_outside 50) ex_stored = CanSave" "get_writeable_session ex_stored = Some ex_session" "\<not> se_expired ex_session"
  by code_simp+

theorem stops_without_loss_witness:
  "last_save_successful (dm_save (the_ok (auto_save_and_stop (ex_outside 50) ''idle'' ex_stored))) \<and>
    \<not> is_storage_outdated (the_ok (auto_save_and_stop (ex_outside 50) ''idle'' ex_stored))"
  using stops_without_loss [OF ok_the_ok [OF ex_stops(1)] ex_stops(2-4)] ex_stops(5-7) by simp

section \<open>What happens by itself\<close>

text \<open>C16: Whatever event the server handles by itself, from a round of the poll to a message of a client, to the saving and uploading of the
  document it does no more than the moves of the protocol: it asks to save, gives up a save, remembers a request to upload, and sends the
  file that waits to be uploaded when no upload runs.\<close>

theorem handlers_refine_protocol: "doc_handle oc e d = Ok d' \<Longrightarrow> moves (oc_now oc) (view d) (view d')"
  using doc_handle_evolves by (auto simp: evolves_def)

theorem handlers_refine_protocol_witness: "moves 20 (view ex_edited) (view ex_asked) \<and> vw_request (view ex_asked) = 20"
proof -
  have "vw_request (view ex_asked) = 20" by code_simp
  then show ?thesis using handlers_refine_protocol [OF ex_results(1)] by simp
qed

text \<open>C17: Whatever happens to a document that is not destroyed, in any order and at any times: the events that the server handles,
  edits, answers of the kit to requests to save with or without a file, answers of the storage to uploads, and uploads that cannot
  connect, the state of the document never goes back, a loaded document stays loaded, and a request to stop or to close it is never
  withdrawn.\<close>

theorem never_taken_back:
  assumes "res_fold handle_input xs d = Ok d'" and "ds_status (dm_state d) \<noteq> Destroyed"
  shows "ds_status (dm_state d) \<le> ds_status (dm_state d') \<and> (dm_stop d \<longrightarrow> dm_stop d') \<and> (is_loaded d \<longrightarrow> is_loaded d') \<and>
    (ds_closeRequested (dm_state d) \<longrightarrow> ds_closeRequested (dm_state d'))"
  using handle_inputs_later [OF assms(1)] assms(2) by (auto simp: later_def less_eq_doc_status_def)

text \<open>Closing the edited document of the example is requested, and its last changes are saved and stored.\<close>

definition ex_inputs :: "(int outside \<times> int doc_input) list" where
  "ex_inputs =
    [(ex_outside 20, Handled (SavesManually ''0001'' True False [])),
     (ex_outside 30, KitAnswers ''0001'' ex_saved (Some (ex_file 9))), (ex_outside 40, StorageAnswers 200 ''OK'' [] None)]"

lemma ex_inputs_handled:
  "\<not> isl (res_fold handle_input ex_inputs (close_document ''idle'' ex_edited))"
  "ds_status (dm_state (close_document ''idle'' ex_edited)) \<noteq> Destroyed"
  "ds_closeRequested (dm_state (close_document ''idle'' ex_edited))" "is_loaded (close_document ''idle'' ex_edited)"
  by code_simp+

theorem never_taken_back_witness:
  "is_loaded (the_ok (res_fold handle_input ex_inputs (close_document ''idle'' ex_edited))) \<and>
    ds_closeRequested (dm_state (the_ok (res_fold handle_input ex_inputs (close_document ''idle'' ex_edited))))"
  using never_taken_back [OF ok_the_ok [OF ex_inputs_handled(1)] ex_inputs_handled(2)] ex_inputs_handled(3,4) by simp

section \<open>Times between requests\<close>






section \<open>What an upload tells the storage\<close>

lemma field_names:
  "to_lower ''X-WOPI-Override'' = ''x-wopi-override''" "to_lower ''Connection'' = ''connection''"
  "to_lower ''X-COOL-WOPI-IsModifiedByUser'' = ''x-cool-wopi-ismodifiedbyuser''"
  "to_lower ''X-COOL-WOPI-IsAutosave'' = ''x-cool-wopi-isautosave''" "to_lower ''X-COOL-WOPI-IsExitSave'' = ''x-cool-wopi-isexitsave''"
  "to_lower ''X-LOOL-WOPI-IsModifiedByUser'' = ''x-lool-wopi-ismodifiedbyuser''"
  "to_lower ''X-LOOL-WOPI-IsAutosave'' = ''x-lool-wopi-isautosave''" "to_lower ''X-LOOL-WOPI-IsExitSave'' = ''x-lool-wopi-isexitsave''"
  "to_lower ''X-COOL-WOPI-ExtendedData'' = ''x-cool-wopi-extendeddata''" "to_lower ''X-LOOL-WOPI-ExtendedData'' = ''x-lool-wopi-extendeddata''"
  "to_lower ''X-COOL-WOPI-Timestamp'' = ''x-cool-wopi-timestamp''" "to_lower ''X-LOOL-WOPI-Timestamp'' = ''x-lool-wopi-timestamp''"
  by code_simp+

lemma bool_text_inj [simp]: "bool_text a = bool_text b \<longleftrightarrow> a = b"
  by (simp add: bool_text_def)

text \<open>The request that puts a document into the storage says whether a user modified it, whether it is an automatic save and
  whether it is a save on exit, and it has the time of the file in the storage, which the storage compares, unless the user forces the
  upload or the time is not known; a request with the save on exit asks to close the connection.\<close>

theorem put_header_fields:
  "hd_get ''X-WOPI-Override'' [] (put_header l a time h) = ''PUT'' \<and>
   hd_get ''X-COOL-WOPI-IsModifiedByUser'' [] (put_header l a time h) = bool_text (at_isUserModified a) \<and>
   hd_get ''X-COOL-WOPI-IsAutosave'' [] (put_header l a time h) = bool_text (at_isAutosave a) \<and>
   hd_get ''X-COOL-WOPI-IsExitSave'' [] (put_header l a time h) = bool_text (at_isExitSave a) \<and>
   hd_get ''X-COOL-WOPI-Timestamp'' [] (put_header l a time h) =
     (if at_forced a then hd_get ''X-COOL-WOPI-Timestamp'' [] h
      else if time = [] then hd_get ''X-COOL-WOPI-Timestamp'' [] h else time) \<and>
   hd_get ''Connection'' [] (put_header l a time h) = (if at_isExitSave a then ''close'' else hd_get ''Connection'' [] h)"
  by (simp add: put_header_def legacy_set_def hd_get_set iequal_map field_names Let_def)

text \<open>C39: The answer to a save under another name or to a rename tells of no time of the document, but its missing time replaces the one of
  the document; the next request that puts the document into the storage then goes without the time, so the storage cannot notice that
  another one changed the file.\<close>

theorem save_as_drops_timestamp:
  assumes "storage_answer isSaveAs isRename 200 phrase body (Some j) d = (ua, d')" and "isSaveAs \<or> isRename" and "uj_lastModifiedTime j = []"
  shows "ua_result ua = UploadOk \<and>
    hd_get ''X-COOL-WOPI-Timestamp'' [] (put_header l a (dm_storageTime d') h) = hd_get ''X-COOL-WOPI-Timestamp'' [] h"
proof -
  have "ua_result ua = UploadOk" "dm_storageTime d' = []"
    using assms by (auto simp: storage_answer_def Let_def)
  then show ?thesis by (simp add: put_header_def legacy_set_def hd_get_set iequal_map field_names Let_def)
qed

theorem save_as_drops_timestamp_witness:
  "let j = \<lparr>uj_lastModifiedTime = [], uj_name = ''b.odt'', uj_url = ''u'', uj_coolStatusCode = 0, uj_loolStatusCode = 0\<rparr>;
       h = put_header False at_reset (dm_storageTime (snd (storage_answer True False 200 ''OK'' ''{}'' (Some j) ex_doc))) hd_empty
   in hd_get ''X-COOL-WOPI-Timestamp'' [] h = [] \<and> dm_storageTime ex_doc \<noteq> []"
proof -
  let ?j = "\<lparr>uj_lastModifiedTime = [], uj_name = ''b.odt'', uj_url = ''u'', uj_coolStatusCode = 0, uj_loolStatusCode = 0\<rparr>"
  have a: "uj_lastModifiedTime ?j = []" "dm_storageTime ex_doc \<noteq> []" "hd_get ''X-COOL-WOPI-Timestamp'' [] hd_empty = []"
    by code_simp+
  show ?thesis
    using save_as_drops_timestamp [OF surjective_pairing [of "storage_answer True False 200 ''OK'' ''{}'' (Some ?j) ex_doc"] _ a(1),
        where l = False and a = at_reset and h = hd_empty] a(2,3)
    by (simp only: Let_def simp_thms)
qed

end
