(* ===== verification/SessionOptions.thy ===== *)
theory SessionOptions
  imports DocumentSaving
begin

text \<open>
  The options of a session and the message that loads a document: \<open>Session::parseDocOptions\<close> (src/common/Session.cpp), which the server
  applies to the message of the client and the kit to the message of the server, and \<open>ClientSession::loadDocument\<close>
  (src/wsd/ClientSession.cpp), which writes the latter. The decoder of URIs, the readers of JSON and the reader of floating-point numbers are
  parameters. The map from names to anonymized ones is for the log only.
\<close>

section \<open>Options\<close>

record 'f session_options =
  so_docURL :: string
  so_jailedFilePath :: string
  so_jailedFilePathAnonym :: string
  so_docPassword :: string
  so_haveDocPassword :: bool
  so_docOptions :: string
  so_userId :: string
  so_userIdAnonym :: string
  so_userName :: string
  so_userNameAnonym :: string
  so_userExtraInfo :: string
  so_userPrivateInfo :: string
  so_serverPrivateInfo :: string
  so_watermarkText :: string
  so_watermarkOpacity :: 'f
  so_lang :: string
  so_timeZone :: string
  so_deviceFormFactor :: string
  so_spellOnline :: string
  so_darkTheme :: string
  so_darkBackground :: string
  so_batch :: string
  so_enableMacrosExecution :: string
  so_macroSecurityLevel :: string
  so_initialClientVisibleArea :: string
  so_docTemplate :: string
  so_isReadOnly :: bool
  so_isAllowChangeComments :: bool
  so_isAllowManageRedlines :: bool
  so_accessibilityState :: bool
  so_disableVerifyHost :: bool
  so_inFilterOptions :: string

definition mk_session_options :: "'f \<Rightarrow> bool \<Rightarrow> 'f session_options" where
  "mk_session_options opacity readOnly =
    \<lparr>so_docURL = [], so_jailedFilePath = [], so_jailedFilePathAnonym = [], so_docPassword = [], so_haveDocPassword = False,
     so_docOptions = [], so_userId = [], so_userIdAnonym = [], so_userName = [], so_userNameAnonym = [], so_userExtraInfo = [],
     so_userPrivateInfo = [], so_serverPrivateInfo = [], so_watermarkText = [], so_watermarkOpacity = opacity, so_lang = [],
     so_timeZone = [], so_deviceFormFactor = [], so_spellOnline = [], so_darkTheme = [], so_darkBackground = [], so_batch = [],
     so_enableMacrosExecution = [], so_macroSecurityLevel = [], so_initialClientVisibleArea = [], so_docTemplate = [],
     so_isReadOnly = readOnly, so_isAllowChangeComments = False, so_isAllowManageRedlines = False, so_accessibilityState = False,
     so_disableVerifyHost = False, so_inFilterOptions = []\<rparr>"

text \<open>The parameters: the decoder, \<open>std::stod\<close>, and the new private information of the user with the signature data set in it\<close>

record 'f options_env =
  oe_decode :: "string \<Rightarrow> string"
  oe_stod :: "string \<Rightarrow> 'f option"
  oe_signature :: "string \<Rightarrow> string \<Rightarrow> string option"

text \<open>The options together with what the parser keeps: the time stamp and the number of tokens it took\<close>

record 'f parsing =
  pa_options :: "'f session_options"
  pa_timestamp :: string
  pa_offset :: nat

section \<open>Parsing\<close>

definition signature_config :: "'f options_env \<Rightarrow> string \<Rightarrow> 'f session_options \<Rightarrow> 'f session_options" where
  "signature_config oe value so =
    (if so_userPrivateInfo so = [] \<or> oe_decode oe value = ''{}'' then so
     else case oe_signature oe (oe_decode oe value) (so_userPrivateInfo so) of
       None \<Rightarrow> so
     | Some info \<Rightarrow> so\<lparr>so_userPrivateInfo := info\<rparr>)"

text \<open>The branches that set one option; \<open>None\<close> for any other name\<close>

definition set_user_option :: "'f options_env \<Rightarrow> string \<Rightarrow> string \<Rightarrow> 'f session_options \<Rightarrow> 'f session_options option" where
  "set_user_option oe name value so =
    (if name = ''url'' then Some (so\<lparr>so_docURL := value\<rparr>)
     else if name = ''jail'' then Some (so\<lparr>so_jailedFilePath := value\<rparr>)
     else if name = ''xjail'' then Some (so\<lparr>so_jailedFilePathAnonym := value\<rparr>)
     else if name = ''authorid'' then Some (so\<lparr>so_userId := oe_decode oe value\<rparr>)
     else if name = ''xauthorid'' then Some (so\<lparr>so_userIdAnonym := oe_decode oe value\<rparr>)
     else if name = ''author'' then Some (so\<lparr>so_userName := oe_decode oe value\<rparr>)
     else if name = ''xauthor'' then Some (so\<lparr>so_userNameAnonym := oe_decode oe value\<rparr>)
     else if name = ''authorextrainfo'' then Some (so\<lparr>so_userExtraInfo := oe_decode oe value\<rparr>)
     else if name = ''authorprivateinfo'' then Some (so\<lparr>so_userPrivateInfo := oe_decode oe value\<rparr>)
     else if name = ''signatureconfig'' then Some (signature_config oe value so)
     else if name = ''serverprivateinfo'' then Some (so\<lparr>so_serverPrivateInfo := oe_decode oe value\<rparr>)
     else if name = ''readonly'' then Some (so\<lparr>so_isReadOnly := (value \<noteq> ''0'')\<rparr>)
     else if name = ''password'' then Some (so\<lparr>so_docPassword := value, so_haveDocPassword := True\<rparr>)
     else None)"

definition set_view_option :: "string \<Rightarrow> string \<Rightarrow> 'f session_options \<Rightarrow> 'f session_options option" where
  "set_view_option name value so =
    (if name = ''lang'' then Some (so\<lparr>so_lang := (if value = ''en'' then ''en-US'' else value)\<rparr>)
     else if name = ''timezone'' then Some (so\<lparr>so_timeZone := value\<rparr>)
     else if name = ''template'' then Some (so\<lparr>so_docTemplate := value\<rparr>)
     else if name = ''deviceFormFactor'' then Some (so\<lparr>so_deviceFormFactor := value\<rparr>)
     else if name = ''spellOnline'' then Some (so\<lparr>so_spellOnline := value\<rparr>)
     else if name = ''darkTheme'' then Some (so\<lparr>so_darkTheme := value\<rparr>)
     else if name = ''darkBackground'' then Some (so\<lparr>so_darkBackground := value\<rparr>)
     else if name = ''batch'' then Some (so\<lparr>so_batch := value\<rparr>)
     else if name = ''enableMacrosExecution'' then Some (so\<lparr>so_enableMacrosExecution := value\<rparr>)
     else if name = ''macroSecurityLevel'' then Some (so\<lparr>so_macroSecurityLevel := value\<rparr>)
     else if name = ''clientvisiblearea'' then Some (so\<lparr>so_initialClientVisibleArea := value\<rparr>)
     else if name = ''accessibilityState'' then Some (so\<lparr>so_accessibilityState := (value = ''true'')\<rparr>)
     else if name = ''isAllowChangeComments'' then Some (so\<lparr>so_isAllowChangeComments := (value = ''true'')\<rparr>)
     else if name = ''isAllowManageRedlines'' then Some (so\<lparr>so_isAllowManageRedlines := (value = ''true'')\<rparr>)
     else if name = ''verifyHost'' then Some (so\<lparr>so_disableVerifyHost := (value = ''false'')\<rparr>)
     else if name = ''infilterOptions'' then Some (so\<lparr>so_inFilterOptions := value\<rparr>)
     else None)"

definition apply_option :: "'f options_env \<Rightarrow> string \<Rightarrow> string \<Rightarrow> 'f parsing \<Rightarrow> 'f parsing res" where
  "apply_option oe name value pa =
    (let so = pa_options pa; taken = pa\<lparr>pa_offset := pa_offset pa + 1\<rparr>
     in if name = ''watermarkText'' then Ok (taken\<lparr>pa_options := so\<lparr>so_watermarkText := oe_decode oe value\<rparr>\<rparr>)
        else if name = ''watermarkOpacity'' then
          (case oe_stod oe value of
             None \<Rightarrow> Err (BadArgument value)
           | Some x \<Rightarrow> Ok (taken\<lparr>pa_options := so\<lparr>so_watermarkOpacity := x\<rparr>\<rparr>))
        else if name = ''timestamp'' then Ok (taken\<lparr>pa_timestamp := value\<rparr>)
        else case set_user_option oe name value so of
          Some so' \<Rightarrow> Ok (taken\<lparr>pa_options := so'\<rparr>)
        | None \<Rightarrow>
            (case set_view_option name value so of
               Some so' \<Rightarrow> Ok (taken\<lparr>pa_options := so'\<rparr>)
             | None \<Rightarrow> Ok pa))"

definition option_step :: "'f options_env \<Rightarrow> string \<Rightarrow> 'f parsing \<Rightarrow> 'f parsing res" where
  "option_step oe token pa =
    (case parse_name_value_pair token (CHR ''='') of
       None \<Rightarrow> Ok pa
     | Some (name, value) \<Rightarrow> apply_option oe name value pa)"

definition disable_spell_check_if_read_only :: "'f session_options \<Rightarrow> 'f session_options" where
  "disable_spell_check_if_read_only so = (if so_isReadOnly so then so\<lparr>so_spellOnline := ''false''\<rparr> else so)"

text \<open>The JSON options, if the token after as many as were taken has them\<close>

definition trailing_options :: "string_vector \<Rightarrow> nat \<Rightarrow> 'f session_options \<Rightarrow> 'f session_options" where
  "trailing_options tokens offset so =
    (if sv_size tokens > offset then
       (case get_token_string (sv_nth tokens offset) ''options'' (so_docOptions so) of
          (True, v) \<Rightarrow>
            so\<lparr>so_docOptions := (if sv_size tokens > offset + 1 then v @ sv_cat '' '' (offset + 1) None tokens else v)\<rparr>
        | (False, v) \<Rightarrow> so\<lparr>so_docOptions := v\<rparr>)
     else so)"

text \<open>The part, the time stamp and the options; no token is left of an empty message\<close>

definition parse_doc_options ::
    "'f options_env \<Rightarrow> string_vector \<Rightarrow> int \<Rightarrow> 'f session_options \<Rightarrow> (int \<times> string \<times> 'f session_options) res" where
  "parse_doc_options oe tokens part so =
    (let (part, offset) =
       (if sv_size tokens > 2 \<and> starts_with ''part='' (sv_nth tokens 1)
        then (snd (get_token_integer (sv_nth tokens 1) ''part'' part), 2) else (part, 1))
     in res_bind (res_fold (option_step oe) (map (sv_nth tokens) [offset..<sv_size tokens])
          \<lparr>pa_options = so, pa_timestamp = [], pa_offset = offset\<rparr>) (\<lambda>pa.
        Ok (part, pa_timestamp pa,
          disable_spell_check_if_read_only (trailing_options tokens (pa_offset pa) (pa_options pa)))))"

section \<open>The message to the kit\<close>

text \<open>The settings of the browser: the values found in their JSON object, empty when missing\<close>

record browser_settings =
  bs_spellOnline :: string
  bs_darkTheme :: string
  bs_accessibilityState :: string
  bs_darkBackgroundForTheme :: "(string \<Rightarrow> string) option"

definition override_doc_option :: "browser_settings option \<Rightarrow> 'f session_options \<Rightarrow> 'f session_options" where
  "override_doc_option sent so =
    (case sent of
       None \<Rightarrow> so
     | Some bs \<Rightarrow>
         let theme = bs_darkTheme bs;
             (so, background) =
               (case bs_darkBackgroundForTheme bs of
                  None \<Rightarrow> (so\<lparr>so_darkBackground := theme\<rparr>, [])
                | Some value_of \<Rightarrow> (so, value_of (if theme = ''true'' then ''dark'' else ''light'')));
             so = (if theme \<noteq> [] then so\<lparr>so_darkTheme := theme\<rparr> else so);
             so = (if background \<noteq> [] then so\<lparr>so_darkBackground := background\<rparr> else so);
             so = (if bs_spellOnline bs \<noteq> [] then so\<lparr>so_spellOnline := bs_spellOnline bs\<rparr> else so)
         in if bs_accessibilityState bs \<noteq> [] then so\<lparr>so_accessibilityState := (bs_accessibilityState bs = ''true'')\<rparr> else so)"

text \<open>What the message takes from the document, the configuration and the file information of the storage\<close>

record load_env =
  le_publicUri :: string
  le_noVerification :: bool
  le_encode :: "string \<Rightarrow> string"
  le_anonymize :: "string \<Rightarrow> string"
  le_watermarkOpacity :: string
  le_enableMacros :: "bool option"
  le_macroLevel :: "int option"
  le_accessibility :: bool
  le_templateSource :: string
  le_templateUri :: "string option"
  le_slideShow :: "(int \<times> int) option"

abbreviation (input) given :: "bool \<Rightarrow> string \<Rightarrow> string \<Rightarrow> (string \<times> string) list" where
  "given b name value \<equiv> (if b then [(name, value)] else [])"

definition load_bool :: "bool \<Rightarrow> string" where
  "load_bool b = (if b then ''true'' else ''false'')"

text \<open>The options in their order, up to the JSON options\<close>

definition load_front :: "load_env \<Rightarrow> int \<Rightarrow> 'f session_options \<Rightarrow> (string \<times> string) list" where
  "load_front le part so =
    [(''url'', le_publicUri le)] @ given (le_noVerification le) ''verifyHost'' ''false'' @
    (if so_userId so \<noteq> [] \<and> so_userName so \<noteq> []
     then [(''authorid'', le_encode le (so_userId so)), (''xauthorid'', le_encode le (le_anonymize le (so_userId so))),
           (''author'', le_encode le (so_userName so)), (''xauthor'', le_encode le (le_anonymize le (so_userName so)))]
     else []) @
    given (so_userExtraInfo so \<noteq> []) ''authorextrainfo'' (le_encode le (so_userExtraInfo so)) @
    given (so_userPrivateInfo so \<noteq> []) ''authorprivateinfo'' (le_encode le (so_userPrivateInfo so)) @
    given (so_serverPrivateInfo so \<noteq> []) ''serverprivateinfo'' (le_encode le (so_serverPrivateInfo so)) @
    [(''readonly'', if so_isReadOnly so then ''1'' else ''0'')] @
    given (so_isAllowChangeComments so) ''isAllowChangeComments'' ''true'' @
    given (so_isAllowManageRedlines so) ''isAllowManageRedlines'' ''true'' @
    given (part \<ge> 0) ''part'' (show_int part) @
    given (so_haveDocPassword so) ''password'' (so_docPassword so) @
    given (so_lang so \<noteq> []) ''lang'' (so_lang so) @
    given (so_deviceFormFactor so \<noteq> []) ''deviceFormFactor'' (so_deviceFormFactor so) @
    given (so_timeZone so \<noteq> []) ''timezone'' (so_timeZone so) @
    given (so_spellOnline so \<noteq> []) ''spellOnline'' (so_spellOnline so) @
    given (so_darkTheme so \<noteq> []) ''darkTheme'' (so_darkTheme so) @
    given (so_darkBackground so \<noteq> []) ''darkBackground'' (so_darkBackground so) @
    (if so_watermarkText so \<noteq> []
     then [(''watermarkText'', le_encode le (so_watermarkText so)), (''watermarkOpacity'', le_watermarkOpacity le)] else []) @
    (case le_enableMacros le of None \<Rightarrow> [] | Some b \<Rightarrow> [(''enableMacrosExecution'', load_bool b)]) @
    (case le_macroLevel le of None \<Rightarrow> [] | Some n \<Rightarrow> [(''macroSecurityLevel'', show_int n)]) @
    given (so_initialClientVisibleArea so \<noteq> []) ''clientvisiblearea'' (so_initialClientVisibleArea so) @
    given (le_accessibility le) ''accessibilityState'' (load_bool (so_accessibilityState so))"

text \<open>What comes after them\<close>

definition load_back :: "load_env \<Rightarrow> 'f session_options \<Rightarrow> (string \<times> string) list" where
  "load_back le so =
    given (le_templateSource le \<noteq> []) ''template'' (le_templateSource le) @
    given (so_batch so \<noteq> []) ''batch'' (so_batch so) @
    (if so_inFilterOptions so \<noteq> [] then [(''infilterOptions'', so_inFilterOptions so)]
     else case le_templateUri le of
       None \<Rightarrow> []
     | Some uri \<Rightarrow>
         let q = [CHR 0x22]
         in [(''infilterOptions'', ''{'' @ q @ ''TemplateURL'' @ q @ '':{'' @ q @ ''type'' @ q @ '':'' @ q @ ''string'' @ q @ '','' @ q @
             ''value'' @ q @ '':'' @ q @ uri @ q @ ''}}'')])"

definition load_pairs :: "load_env \<Rightarrow> int \<Rightarrow> 'f session_options \<Rightarrow> (string \<times> string) list" where
  "load_pairs le part so =
    load_front le part so @ given (so_docOptions so \<noteq> []) ''options'' (so_docOptions so) @ load_back le so"

definition pair_word :: "string \<times> string \<Rightarrow> string" where
  "pair_word p = fst p @ ''='' @ snd p"

definition load_message :: "load_env \<Rightarrow> int \<Rightarrow> 'f session_options \<Rightarrow> string" where
  "load_message le part so = ''load'' @ concat (map (\<lambda>p. '' '' @ pair_word p) (load_pairs le part so))"

section \<open>Loading\<close>

text \<open>The flags of a session that its options set\<close>

definition set_session_flags :: "'f session_options \<Rightarrow> doc_session \<Rightarrow> doc_session" where
  "set_session_flags so s =
    s\<lparr>se_userName := so_userName so, se_readOnly := so_isReadOnly so, se_allowChangeComments := so_isAllowChangeComments so,
      se_allowManageRedlines := so_isAllowManageRedlines so\<rparr>"

definition send_slide_show :: "load_env \<Rightarrow> string \<Rightarrow> 'c document \<Rightarrow> 'c document" where
  "send_slide_show le i d =
    (case le_slideShow le of
       None \<Rightarrow> d
     | Some (slide, effect) \<Rightarrow>
         session_send i ''slideshowfollow slideshowfollowon''
           (session_send i (''slideshowfollow effect {'' @ quoted ''currentEffect'' @ '': '' @ show_int effect @ ''}'')
             (session_send i (''slideshowfollow displayslide {'' @ quoted ''currentSlide'' @ '': '' @ show_int slide @ ''}'') d)))"

definition server_load_document ::
    "'f options_env \<Rightarrow> load_env \<Rightarrow> browser_settings option \<Rightarrow> 'c outside \<Rightarrow> string \<Rightarrow> string_vector \<Rightarrow> 'f session_options \<Rightarrow> 'c document
     \<Rightarrow> (bool \<times> 'f session_options \<times> 'c document) res" where
  "server_load_document oe le bs oc i tokens so d =
    (if sv_size tokens < 2 then Ok (False, so, session_send i ''error: cmd=load kind=syntax'' d)
     else res_bind (parse_doc_options oe tokens (-1) so) (\<lambda>(part, _, so).
       let so = override_doc_option bs so;
           d = send_slide_show le i (change_session i (set_session_flags so) d)
       in res_bind (forward_to_child oc i (load_message le part so) d) (\<lambda>(ok, d). Ok (ok, so, d))))"

text \<open>The kit drops the prefix of a frame, and reads the options from its first line.\<close>

definition kit_input :: "string \<Rightarrow> string \<Rightarrow> string" where
  "kit_input prefix payload = dropWhile (\<lambda>c. c = CHR '' '') (drop (length prefix) payload)"

definition kit_load_options :: "'f options_env \<Rightarrow> string \<Rightarrow> 'f session_options \<Rightarrow> (int \<times> string \<times> 'f session_options) res" where
  "kit_load_options oe payload so = parse_doc_options oe (tokenize_data (get_first_line payload) (CHR '' '')) (-1) so"

end
