(* ===== verification/LoadTheorems.thy ===== *)
theory LoadTheorems
  imports SessionOptions SavingTheorems
begin

text \<open>
  The options of a session on their way from the message of the client through the server to the kit.
\<close>

section \<open>The words of the message\<close>

definition clean :: "string \<Rightarrow> bool" where
  "clean s \<longleftrightarrow> CHR '' '' \<notin> set s \<and> newline \<notin> set s"

lemma clean_append [simp]: "clean (a @ b) \<longleftrightarrow> clean a \<and> clean b"
  and clean_Nil [simp]: "clean []"
  and clean_Cons [simp]: "clean (c # s) \<longleftrightarrow> c \<noteq> CHR '' '' \<and> c \<noteq> newline \<and> clean s"
  by (auto simp: clean_def)

abbreviation spaced :: "string list \<Rightarrow> string" where
  "spaced ws \<equiv> concat (map (\<lambda>w. CHR '' '' # w) ws)"

lemma texts_spaced:
  assumes "\<forall>w \<in> set ws. clean w \<and> w \<noteq> []"
  shows "sv_texts (tokenize (''load'' @ spaced ws) (CHR '' '')) = ''load'' # ws"
    and "sv_texts (tokenize_data (''load'' @ spaced ws) (CHR '' '')) = ''load'' # ws"
proof -
  have "split_tokens (CHR '' '') (''load'' @ spaced ws) = ''load'' # ws"
    using split_tokens_words [of ws "CHR '' ''" "''load''"] assms by (auto simp: clean_def)
  then show "sv_texts (tokenize (''load'' @ spaced ws) (CHR '' '')) = ''load'' # ws"
    "sv_texts (tokenize_data (''load'' @ spaced ws) (CHR '' '')) = ''load'' # ws"
    by (simp_all add: sv_texts_tokenize)
qed

lemma size_texts: "sv_size v = length (sv_texts v)"
  by (simp add: sv_size_def)

lemma cat_rest: "sv_texts v = a # b # w # ws \<Longrightarrow> sv_cat '' '' 2 None v = w @ spaced ws"
  by (simp add: sv_cat_all)

lemma first_line_spaced: "\<forall>w \<in> set ws. clean w \<Longrightarrow> get_first_line (''load'' @ spaced ws) = ''load'' @ spaced ws"
proof -
  assume "\<forall>w \<in> set ws. clean w"
  then have "newline \<notin> set (''load'' @ spaced ws)" by (auto simp: clean_def)
  then have "find_char newline (''load'' @ spaced ws) = None" unfolding find_char_None .
  then show ?thesis
    unfolding get_first_line_def get_delimited_initial_substring_def get_delimiter_position_def by simp
qed

section \<open>From the server to the kit\<close>

lemma load_words:
  "load_message le part so = ''load'' @ spaced (map pair_word (load_pairs le part so))"
  by (simp add: load_message_def comp_def)

lemma front_first: "load_front le part so = (''url'', le_publicUri le) # tl (load_front le part so)" "tl (load_front le part so) \<noteq> []"
  by (simp_all add: load_front_def)

lemma kit_text:
  assumes c: "\<forall>p \<in> set (load_pairs le part so). clean (pair_word p)" and i: "CHR '' '' \<notin> set i"
    and j: "clean (fst (oc_jail oc))" "clean (snd (oc_jail oc))" and plain: "oc_signature oc i = None" "\<not> oc_accessibility oc i"
  shows "sv_texts (tokenize_data (get_first_line (kit_input (''child-'' @ i) (child_frame oc i (load_message le part so)))) (CHR '' '')) =
    ''load'' # map pair_word ((''url'', le_publicUri le) # (''jail'', fst (oc_jail oc)) # (''xjail'', snd (oc_jail oc)) #
      tl (load_pairs le part so))"
proof -
  let ?ws = "map pair_word (load_pairs le part so)"
  obtain p ps where ps: "tl (load_front le part so) = p # ps" using front_first(2) by (cases "tl (load_front le part so)") auto
  have pairs: "load_pairs le part so = (''url'', le_publicUri le) # p # ps @ drop (length (load_front le part so)) (load_pairs le part so)"
    using front_first(1) [of le part so] ps by (simp add: load_pairs_def)
  then obtain qs where qs: "load_pairs le part so = (''url'', le_publicUri le) # p # qs" by simp
  have ne: "\<forall>w \<in> set ?ws. clean w \<and> w \<noteq> []" using c by (auto simp: pair_word_def)
  have ts: "sv_texts (tokenize (load_message le part so) (CHR '' '')) = ''load'' # ?ws"
    unfolding load_words by (rule texts_spaced [OF ne])
  let ?url = "pair_word (''url'', le_publicUri le)" and ?jail = "[pair_word (''jail'', fst (oc_jail oc)), pair_word (''xjail'', snd (oc_jail oc))]"
  let ?all = "?url # ?jail @ map pair_word (p # qs)"
  have "sv_size (tokenize (load_message le part so) (CHR '' '')) > 1" "sv_equals (tokenize (load_message le part so) (CHR '' '')) 0 ''load''"
    "sv_nth (tokenize (load_message le part so) (CHR '' '')) 1 = ?url"
    using ts qs by (simp_all add: size_texts sv_equals_texts sv_nth_texts)
  moreover have "starts_with ''load '' (load_message le part so)" by (simp add: load_words qs starts_with_def)
  ultimately have frame: "child_frame oc i (load_message le part so) = ''child-'' @ i @ '' '' @ ''load'' @ spaced ?all"
    using ts qs plain
    by (simp add: child_frame_def apply_view_setting_def apply_sign_view_settings_def apply_browser_accessibility_def cat_rest pair_word_def Let_def)
  have all: "\<forall>w \<in> set ?all. clean w \<and> w \<noteq> []" using ne qs j by (auto simp: pair_word_def)
  have "kit_input (''child-'' @ i) (child_frame oc i (load_message le part so)) = ''load'' @ spaced ?all"
    unfolding frame kit_input_def by simp
  then show ?thesis
    using texts_spaced(2) [OF all] first_line_spaced [of ?all] all qs by simp
qed

section \<open>What the kit reads\<close>

lemma nth_from_one: "map (sv_nth v) [1..<sv_size v] = tl (sv_texts v)"
  by (rule nth_equalityI) (auto simp: size_texts sv_nth_texts nth_tl)

definition read_pairs :: "'f options_env \<Rightarrow> (string \<times> string) list \<Rightarrow> 'f parsing \<Rightarrow> 'f parsing res" where
  "read_pairs oe kvs = res_fold (\<lambda>p. apply_option oe (fst p) (snd p)) kvs"

lemma option_step_pair: "CHR ''='' \<notin> set (fst p) \<Longrightarrow> option_step oe (pair_word p) = apply_option oe (fst p) (snd p)"
  using parse_name_value_pair_append [of "CHR ''=''" "fst p" "snd p"]
  by (cases p) (simp add: option_step_def pair_word_def fun_eq_iff)

lemma read_pairs_words:
  "\<forall>p \<in> set kvs. CHR ''='' \<notin> set (fst p) \<Longrightarrow> res_fold (option_step oe) (map pair_word kvs) = read_pairs oe kvs"
proof (induction kvs)
  case (Cons p kvs)
  then show ?case by (intro ext) (simp add: read_pairs_def option_step_pair)
qed (simp add: read_pairs_def fun_eq_iff)

abbreviation state :: "'f session_options \<Rightarrow> nat \<Rightarrow> 'f parsing" where
  "state so n \<equiv> \<lparr>pa_options = so, pa_timestamp = [], pa_offset = n\<rparr>"

lemma read_append: "read_pairs oe (xs @ ys) pa = res_bind (read_pairs oe xs pa) (read_pairs oe ys)"
  by (simp add: read_pairs_def res_fold_append)

lemma read_Nil [simp]: "read_pairs oe [] pa = Ok pa"
  and read_Cons: "read_pairs oe (p # ps) pa = res_bind (apply_option oe (fst p) (snd p) pa) (read_pairs oe ps)"
  by (simp_all add: read_pairs_def)

lemmas set_option_defs = apply_option_def set_user_option_def set_view_option_def

definition units :: "bool \<Rightarrow> nat" where
  "units b = (if b then 1 else 0)"

lemma units_simps [simp]: "units True = 1" "units False = 0"
  by (simp_all add: units_def)

text \<open>Reading one option that may be there\<close>

lemma read_given:
  "read_pairs oe (given c ''authorextrainfo'' v) (state k n) = Ok (state (k\<lparr>so_userExtraInfo := if c then oe_decode oe v else so_userExtraInfo k\<rparr>) (n + units c))"
  "read_pairs oe (given c ''authorprivateinfo'' v) (state k n) = Ok (state (k\<lparr>so_userPrivateInfo := if c then oe_decode oe v else so_userPrivateInfo k\<rparr>) (n + units c))"
  "read_pairs oe (given c ''serverprivateinfo'' v) (state k n) = Ok (state (k\<lparr>so_serverPrivateInfo := if c then oe_decode oe v else so_serverPrivateInfo k\<rparr>) (n + units c))"
  "read_pairs oe (given c ''verifyHost'' v) (state k n) = Ok (state (k\<lparr>so_disableVerifyHost := if c then v = ''false'' else so_disableVerifyHost k\<rparr>) (n + units c))"
  "read_pairs oe (given c ''isAllowChangeComments'' v) (state k n) = Ok (state (k\<lparr>so_isAllowChangeComments := if c then v = ''true'' else so_isAllowChangeComments k\<rparr>) (n + units c))"
  "read_pairs oe (given c ''isAllowManageRedlines'' v) (state k n) = Ok (state (k\<lparr>so_isAllowManageRedlines := if c then v = ''true'' else so_isAllowManageRedlines k\<rparr>) (n + units c))"
  "read_pairs oe (given c ''lang'' v) (state k n) = Ok (state (k\<lparr>so_lang := if c then (if v = ''en'' then ''en-US'' else v) else so_lang k\<rparr>) (n + units c))"
  "read_pairs oe (given c ''deviceFormFactor'' v) (state k n) = Ok (state (k\<lparr>so_deviceFormFactor := if c then v else so_deviceFormFactor k\<rparr>) (n + units c))"
  "read_pairs oe (given c ''timezone'' v) (state k n) = Ok (state (k\<lparr>so_timeZone := if c then v else so_timeZone k\<rparr>) (n + units c))"
  "read_pairs oe (given c ''spellOnline'' v) (state k n) = Ok (state (k\<lparr>so_spellOnline := if c then v else so_spellOnline k\<rparr>) (n + units c))"
  "read_pairs oe (given c ''darkTheme'' v) (state k n) = Ok (state (k\<lparr>so_darkTheme := if c then v else so_darkTheme k\<rparr>) (n + units c))"
  "read_pairs oe (given c ''darkBackground'' v) (state k n) = Ok (state (k\<lparr>so_darkBackground := if c then v else so_darkBackground k\<rparr>) (n + units c))"
  "read_pairs oe (given c ''clientvisiblearea'' v) (state k n) = Ok (state (k\<lparr>so_initialClientVisibleArea := if c then v else so_initialClientVisibleArea k\<rparr>) (n + units c))"
  "read_pairs oe (given c ''accessibilityState'' v) (state k n) = Ok (state (k\<lparr>so_accessibilityState := if c then v = ''true'' else so_accessibilityState k\<rparr>) (n + units c))"
  "read_pairs oe (given c ''template'' v) (state k n) = Ok (state (k\<lparr>so_docTemplate := if c then v else so_docTemplate k\<rparr>) (n + units c))"
  "read_pairs oe (given c ''batch'' v) (state k n) = Ok (state (k\<lparr>so_batch := if c then v else so_batch k\<rparr>) (n + units c))"
  "read_pairs oe (given c ''part'' v) (state k n) = Ok (state k n)"
  "read_pairs oe (given c ''options'' v) (state k n) = Ok (state k n)"
  "read_pairs oe (given c ''password'' v) (state k n) =
    Ok (state (k\<lparr>so_docPassword := if c then v else so_docPassword k, so_haveDocPassword := c \<or> so_haveDocPassword k\<rparr>) (n + units c))"
  by (simp_all add: read_Cons set_option_defs Let_def)

lemma read_one:
  "read_pairs oe [(''url'', v)] (state k n) = Ok (state (k\<lparr>so_docURL := v\<rparr>) (n + 1))"
  "read_pairs oe [(''jail'', v)] (state k n) = Ok (state (k\<lparr>so_jailedFilePath := v\<rparr>) (n + 1))"
  "read_pairs oe [(''xjail'', v)] (state k n) = Ok (state (k\<lparr>so_jailedFilePathAnonym := v\<rparr>) (n + 1))"
  "read_pairs oe [(''readonly'', v)] (state k n) = Ok (state (k\<lparr>so_isReadOnly := (v \<noteq> ''0'')\<rparr>) (n + 1))"
  by (simp_all add: read_Cons set_option_defs Let_def)

lemma read_author:
  "read_pairs oe (if c then [(''authorid'', a), (''xauthorid'', b), (''author'', x), (''xauthor'', y)] else []) (state k n) =
    Ok (state (k\<lparr>so_userId := if c then oe_decode oe a else so_userId k, so_userIdAnonym := if c then oe_decode oe b else so_userIdAnonym k,
      so_userName := if c then oe_decode oe x else so_userName k, so_userNameAnonym := if c then oe_decode oe y else so_userNameAnonym k\<rparr>)
      (n + 4 * units c))"
  by (simp add: read_Cons set_option_defs Let_def)

lemma read_watermark:
  "(c \<longrightarrow> oe_stod oe w = Some z) \<Longrightarrow>
    read_pairs oe (if c then [(''watermarkText'', v), (''watermarkOpacity'', w)] else []) (state k n) =
    Ok (state (k\<lparr>so_watermarkText := if c then oe_decode oe v else so_watermarkText k,
      so_watermarkOpacity := if c then z else so_watermarkOpacity k\<rparr>) (n + 2 * units c))"
  by (simp add: read_Cons set_option_defs Let_def)

lemma read_macros:
  "read_pairs oe (case m of None \<Rightarrow> [] | Some b \<Rightarrow> [(''enableMacrosExecution'', load_bool b)]) (state k n) =
    Ok (state (k\<lparr>so_enableMacrosExecution := case m of None \<Rightarrow> so_enableMacrosExecution k | Some b \<Rightarrow> load_bool b\<rparr>) (n + units (m \<noteq> None)))"
  "read_pairs oe (case l of None \<Rightarrow> [] | Some i \<Rightarrow> [(''macroSecurityLevel'', show_int i)]) (state k n) =
    Ok (state (k\<lparr>so_macroSecurityLevel := case l of None \<Rightarrow> so_macroSecurityLevel k | Some i \<Rightarrow> show_int i\<rparr>) (n + units (l \<noteq> None)))"
  by (simp_all add: read_Cons set_option_defs Let_def split: option.split)

definition in_filter :: "load_env \<Rightarrow> 'f session_options \<Rightarrow> string option" where
  "in_filter le so =
    (if so_inFilterOptions so \<noteq> [] then Some (so_inFilterOptions so)
     else map_option (\<lambda>uri. let q = [CHR 0x22] in ''{'' @ q @ ''TemplateURL'' @ q @ '':{'' @ q @ ''type'' @ q @ '':'' @ q @ ''string'' @ q @ '','' @ q @
             ''value'' @ q @ '':'' @ q @ uri @ q @ ''}}'') (le_templateUri le))"

lemma back_in_filter:
  "load_back le so = given (le_templateSource le \<noteq> []) ''template'' (le_templateSource le) @ given (so_batch so \<noteq> []) ''batch'' (so_batch so) @
    (case in_filter le so of None \<Rightarrow> [] | Some v \<Rightarrow> [(''infilterOptions'', v)])"
  by (simp add: load_back_def in_filter_def Let_def split: option.split)

lemma read_in_filter:
  "read_pairs oe (case m of None \<Rightarrow> [] | Some v \<Rightarrow> [(''infilterOptions'', v)]) (state k n) =
    Ok (state (k\<lparr>so_inFilterOptions := case m of None \<Rightarrow> so_inFilterOptions k | Some v \<Rightarrow> v\<rparr>) (n + units (m \<noteq> None)))"
  by (simp add: read_Cons set_option_defs Let_def split: option.split)

lemmas read_load = read_append read_given read_one read_author read_macros read_in_filter

text \<open>What the options of the message make of those of a new session: all but the part and the JSON options of the document\<close>

abbreviation known_user :: "'f session_options \<Rightarrow> bool" where
  "known_user so \<equiv> so_userId so \<noteq> [] \<and> so_userName so \<noteq> []"

definition delivered :: "load_env \<Rightarrow> string \<times> string \<Rightarrow> 'f \<Rightarrow> 'f session_options \<Rightarrow> 'f session_options \<Rightarrow> bool" where
  "delivered le jail z so k \<longleftrightarrow>
    so_docURL k = le_publicUri le \<and> so_jailedFilePath k = fst jail \<and> so_jailedFilePathAnonym k = snd jail \<and>
    so_userId k = (if known_user so then so_userId so else []) \<and> so_userName k = (if known_user so then so_userName so else []) \<and>
    so_userIdAnonym k = (if known_user so then le_anonymize le (so_userId so) else []) \<and>
    so_userNameAnonym k = (if known_user so then le_anonymize le (so_userName so) else []) \<and>
    so_userExtraInfo k = so_userExtraInfo so \<and> so_userPrivateInfo k = so_userPrivateInfo so \<and>
    so_serverPrivateInfo k = so_serverPrivateInfo so \<and> so_isReadOnly k = so_isReadOnly so \<and>
    so_isAllowChangeComments k = so_isAllowChangeComments so \<and> so_isAllowManageRedlines k = so_isAllowManageRedlines so \<and>
    so_haveDocPassword k = so_haveDocPassword so \<and> so_docPassword k = (if so_haveDocPassword so then so_docPassword so else []) \<and>
    so_lang k = (if so_lang so = ''en'' then ''en-US'' else so_lang so) \<and> so_deviceFormFactor k = so_deviceFormFactor so \<and>
    so_timeZone k = so_timeZone so \<and> so_spellOnline k = (if so_isReadOnly so then ''false'' else so_spellOnline so) \<and>
    so_darkTheme k = so_darkTheme so \<and> so_darkBackground k = so_darkBackground so \<and> so_watermarkText k = so_watermarkText so \<and>
    (so_watermarkText so \<noteq> [] \<longrightarrow> so_watermarkOpacity k = z) \<and> so_initialClientVisibleArea k = so_initialClientVisibleArea so \<and>
    so_docTemplate k = le_templateSource le \<and> so_batch k = so_batch so \<and>
    so_inFilterOptions k = (case in_filter le so of None \<Rightarrow> [] | Some v \<Rightarrow> v) \<and>
    so_enableMacrosExecution k = (case le_enableMacros le of None \<Rightarrow> [] | Some b \<Rightarrow> load_bool b) \<and>
    so_macroSecurityLevel k = (case le_macroLevel le of None \<Rightarrow> [] | Some n \<Rightarrow> show_int n) \<and>
    so_disableVerifyHost k = le_noVerification le \<and>
    so_accessibilityState k = (le_accessibility le \<and> so_accessibilityState so)"

lemma if_given [simp]: "(if x \<noteq> [] then x else []) = x"
  by simp

lemma length_given: "length (given c n v) = units c"
  "length (if c then [p, q, r, s] else []) = 4 * units c" "length (if c then [p, q] else []) = 2 * units c"
  "length (case m of None \<Rightarrow> [] | Some x \<Rightarrow> [f x]) = units (m \<noteq> None)"
  by (simp_all split: option.split)

lemma disabled_fields:
  "so_docURL (disable_spell_check_if_read_only k) = so_docURL k"
  "so_jailedFilePath (disable_spell_check_if_read_only k) = so_jailedFilePath k"
  "so_jailedFilePathAnonym (disable_spell_check_if_read_only k) = so_jailedFilePathAnonym k"
  "so_userId (disable_spell_check_if_read_only k) = so_userId k"
  "so_userName (disable_spell_check_if_read_only k) = so_userName k"
  "so_userIdAnonym (disable_spell_check_if_read_only k) = so_userIdAnonym k"
  "so_userNameAnonym (disable_spell_check_if_read_only k) = so_userNameAnonym k"
  "so_inFilterOptions (disable_spell_check_if_read_only k) = so_inFilterOptions k"
  "so_enableMacrosExecution (disable_spell_check_if_read_only k) = so_enableMacrosExecution k"
  "so_macroSecurityLevel (disable_spell_check_if_read_only k) = so_macroSecurityLevel k"
  "so_disableVerifyHost (disable_spell_check_if_read_only k) = so_disableVerifyHost k"
  "so_userExtraInfo (disable_spell_check_if_read_only k) = so_userExtraInfo k"
  "so_userPrivateInfo (disable_spell_check_if_read_only k) = so_userPrivateInfo k"
  "so_serverPrivateInfo (disable_spell_check_if_read_only k) = so_serverPrivateInfo k"
  "so_isReadOnly (disable_spell_check_if_read_only k) = so_isReadOnly k"
  "so_isAllowChangeComments (disable_spell_check_if_read_only k) = so_isAllowChangeComments k"
  "so_isAllowManageRedlines (disable_spell_check_if_read_only k) = so_isAllowManageRedlines k"
  "so_haveDocPassword (disable_spell_check_if_read_only k) = so_haveDocPassword k"
  "so_docPassword (disable_spell_check_if_read_only k) = so_docPassword k"
  "so_lang (disable_spell_check_if_read_only k) = so_lang k"
  "so_deviceFormFactor (disable_spell_check_if_read_only k) = so_deviceFormFactor k"
  "so_timeZone (disable_spell_check_if_read_only k) = so_timeZone k"
  "so_darkTheme (disable_spell_check_if_read_only k) = so_darkTheme k"
  "so_darkBackground (disable_spell_check_if_read_only k) = so_darkBackground k"
  "so_watermarkText (disable_spell_check_if_read_only k) = so_watermarkText k"
  "so_watermarkOpacity (disable_spell_check_if_read_only k) = so_watermarkOpacity k"
  "so_initialClientVisibleArea (disable_spell_check_if_read_only k) = so_initialClientVisibleArea k"
  "so_docTemplate (disable_spell_check_if_read_only k) = so_docTemplate k"
  "so_batch (disable_spell_check_if_read_only k) = so_batch k"
  "so_accessibilityState (disable_spell_check_if_read_only k) = so_accessibilityState k"
  "so_docOptions (disable_spell_check_if_read_only k) = so_docOptions k"
  "so_spellOnline (disable_spell_check_if_read_only k) = (if so_isReadOnly k then ''false'' else so_spellOnline k)"
  by (simp_all add: disable_spell_check_if_read_only_def)

lemma read_message:
  assumes "\<And>x. oe_decode oe (le_encode le x) = x" and w: "so_watermarkText so \<noteq> [] \<longrightarrow> oe_stod oe (le_watermarkOpacity le) = Some z"
  shows "\<exists>k n. read_pairs oe ((''url'', le_publicUri le) # (''jail'', fst jail) # (''xjail'', snd jail) # tl (load_pairs le part so))
      (state (mk_session_options opacity False) 1) = Ok (state k n) \<and> so_docOptions k = [] \<and>
    n + units (part \<ge> 0) + units (so_docOptions so \<noteq> []) = 3 + length (load_pairs le part so) \<and>
    (\<forall>v. delivered le jail z so (disable_spell_check_if_read_only (k\<lparr>so_docOptions := v\<rparr>)))"
proof -
  have cons: "(''url'', u) # q # r # xs = [(''url'', u)] @ [q] @ [r] @ xs" for u and q r :: "string \<times> string" and xs by simp
  note wm = read_watermark [OF w]
  have tl: "tl ([p] @ xs) = xs" for p :: "string \<times> string" and xs by simp
  show ?thesis
    apply (rule exI)+
    apply (rule conjI)
     apply (simp only: cons load_pairs_def load_front_def back_in_filter append_assoc tl read_load wm mk_session_options_def
        res_bind.simps session_options.select_convs session_options.update_convs)
    apply (rule conjI)
     apply (simp only: session_options.select_convs)
    apply (rule conjI)
     apply (simp only: load_pairs_def load_front_def back_in_filter length_append length_given list.size length_Cons)
    apply (simp only: delivered_def disabled_fields session_options.select_convs session_options.update_convs)
    apply (intro allI conjI)
                           apply (simp_all add: load_bool_def assms(1))
    done
qed

lemma trailing_only_options: "\<exists>v. trailing_options tokens n so = so\<lparr>so_docOptions := v\<rparr>"
proof -
  have "so = so\<lparr>so_docOptions := so_docOptions so\<rparr>" by simp
  then have "\<exists>v. so = so\<lparr>so_docOptions := v\<rparr>" by blast
  then show ?thesis by (auto simp: trailing_options_def split: prod.split bool.split)
qed

lemma set_tl: "x \<in> set (tl xs) \<Longrightarrow> x \<in> set xs"
  by (cases xs) auto

lemma names_plain: "p \<in> set (load_pairs le part so) \<Longrightarrow> CHR ''='' \<notin> set (fst p)"
  by (auto simp: load_pairs_def load_front_def back_in_filter split: if_splits option.splits)

text \<open>The words that the kit gets, for a message whose values have no spaces\<close>

definition kit_words :: "load_env \<Rightarrow> string \<times> string \<Rightarrow> int \<Rightarrow> 'f session_options \<Rightarrow> (string \<times> string) list" where
  "kit_words le jail part so =
    (''url'', le_publicUri le) # (''jail'', fst jail) # (''xjail'', snd jail) # tl (load_pairs le part so)"

lemma kit_reads:
  assumes texts: "sv_texts tokens = ''load'' # map pair_word (kit_words le jail part so)"
  shows "parse_doc_options oe tokens (-1) k0 =
    res_bind (read_pairs oe (kit_words le jail part so) (state k0 1)) (\<lambda>pa.
      Ok (-1, pa_timestamp pa, disable_spell_check_if_read_only (trailing_options tokens (pa_offset pa) (pa_options pa))))"
proof -
  have "\<forall>p \<in> set (kit_words le jail part so). CHR ''='' \<notin> set (fst p)"
    using names_plain [of _ le part so] by (force simp: kit_words_def dest: set_tl)
  then have "res_fold (option_step oe) (tl (sv_texts tokens)) = read_pairs oe (kit_words le jail part so)"
    using read_pairs_words [of "kit_words le jail part so" oe] by (simp add: texts)
  moreover have "\<not> starts_with ''part='' (sv_nth tokens 1)"
    by (simp add: sv_nth_texts texts kit_words_def pair_word_def starts_with_def)
  ultimately show ?thesis by (simp add: parse_doc_options_def nth_from_one [simplified] del: upt_Suc)
qed

definition load_clean :: "load_env \<Rightarrow> string \<times> string \<Rightarrow> int \<Rightarrow> 'f session_options \<Rightarrow> bool" where
  "load_clean le jail part so \<longleftrightarrow>
    (\<forall>p \<in> set (load_pairs le part so). clean (pair_word p)) \<and> clean (fst jail) \<and> clean (snd jail)"

text \<open>An example: a session that may only read, whose client loads the document\<close>

definition ex_reader :: "int options_env" where
  "ex_reader = \<lparr>oe_decode = id, oe_stod = (\<lambda>_. Some 0), oe_signature = (\<lambda>_ _. None)\<rparr>"

definition ex_load :: load_env where
  "ex_load = \<lparr>le_publicUri = ''u'', le_noVerification = False, le_encode = id, le_anonymize = id, le_watermarkOpacity = ''0'',
    le_enableMacros = Some False, le_macroLevel = Some 2, le_accessibility = False, le_templateSource = ''t'', le_templateUri = None,
    le_slideShow = None\<rparr>"

definition ex_options :: "int session_options" where
  "ex_options = (mk_session_options 0 True)\<lparr>so_userId := ''1'', so_userName := ''n'', so_docOptions := ''o''\<rparr>"

definition ex_tokens :: string_vector where "ex_tokens = tokenize ''load url=u readonly=0'' (CHR '' '')"

definition ex_restricted :: "int document" where
  "ex_restricted = ex_doc\<lparr>dm_sessions := [ex_session\<lparr>se_readOnly := True, se_allowChangeComments := False, se_allowManageRedlines := False\<rparr>]\<rparr>"

lemma ex_load_facts:
  "load_clean ex_load (oc_jail (ex_outside 20)) (-1) ex_options" "oc_signature (ex_outside 20) ''0001'' = None"
  "\<not> oc_accessibility (ex_outside 20) ''0001''" "oe_decode ex_reader (le_encode ex_load x) = x"
  "so_watermarkText ex_options \<noteq> [] \<longrightarrow> oe_stod ex_reader (le_watermarkOpacity ex_load) = Some 0" "so_docOptions ex_options \<noteq> []"
  "load_back ex_load ex_options \<noteq> []"
       apply code_simp
      apply code_simp
     apply code_simp
    apply (simp add: ex_reader_def ex_load_def)
   apply code_simp+
  done

text \<open>C15: When no value in the message that loads a document has a space or a line end, the session has no signature settings and the
  browser does not ask for accessibility, and the kit decodes what the server encoded, then these options arrive at the kit as the server
  has them: the URL and the paths in the jail, the user, when the identity and the name are known, with the anonymized names, the
  information about the user, the permissions, the password, the language, the appearance, the watermark, the visible area, the template,
  the batch mode, the filter options, the settings of macros, the verification of hosts and the accessibility, when it is enabled. The kit
  makes en-US of en, and turns the spell checker off for a session that only reads. The part does not arrive: the kit always reads -1; and
  the JSON options are the subject of a theorem of their own.\<close>

theorem load_options_roundtrip:
  assumes "load_clean le (oc_jail oc) part so" and "CHR '' '' \<notin> set i" and "oc_signature oc i = None" "\<not> oc_accessibility oc i"
    and "\<And>x. oe_decode oe (le_encode le x) = x" and "so_watermarkText so \<noteq> [] \<longrightarrow> oe_stod oe (le_watermarkOpacity le) = Some z"
  shows "\<exists>k. kit_load_options oe (kit_input (''child-'' @ i) (child_frame oc i (load_message le part so))) (mk_session_options opacity False) =
      Ok (-1, [], k) \<and> delivered le (oc_jail oc) z so k"
proof -
  let ?tokens = "tokenize_data (get_first_line (kit_input (''child-'' @ i) (child_frame oc i (load_message le part so)))) (CHR '' '')"
  have texts: "sv_texts ?tokens = ''load'' # map pair_word (kit_words le (oc_jail oc) part so)"
    unfolding kit_words_def using assms(1-4) by (intro kit_text) (auto simp: load_clean_def)
  obtain k n where r: "read_pairs oe (kit_words le (oc_jail oc) part so) (state (mk_session_options opacity False) 1) = Ok (state k n)"
    and d: "\<forall>v. delivered le (oc_jail oc) z so (disable_spell_check_if_read_only (k\<lparr>so_docOptions := v\<rparr>))"
    using read_message [OF assms(5,6), of "oc_jail oc" part opacity] unfolding kit_words_def by blast
  obtain v where "trailing_options ?tokens n k = k\<lparr>so_docOptions := v\<rparr>" using trailing_only_options by blast
  then show ?thesis using kit_reads [OF texts, of oe] r d by (simp add: kit_load_options_def)
qed


theorem load_options_roundtrip_witness:
  "\<exists>k. kit_load_options ex_reader (kit_input ''child-0001'' (child_frame (ex_outside 20) ''0001'' (load_message ex_load (-1) ex_options)))
      (mk_session_options 0 False) = Ok (-1, [], k) \<and> so_userName k = ''n'' \<and> so_isReadOnly k \<and>
      so_enableMacrosExecution k = ''false'' \<and> so_docTemplate k = ''t''"
proof -
  have n: "so_userId ex_options \<noteq> []" "so_userName ex_options = ''n''" "so_isReadOnly ex_options"
    "le_enableMacros ex_load = Some False" "le_templateSource ex_load = ''t''" by code_simp+
  show ?thesis
    using load_options_roundtrip [OF ex_load_facts(1) _ ex_load_facts(2-5), where opacity = 0] n by (auto simp: delivered_def load_bool_def)
qed

section \<open>The JSON options\<close>

lemma back_names: "p \<in> set (load_back le so) \<Longrightarrow> fst p \<in> {''template'', ''batch'', ''infilterOptions''}"
  by (auto simp: back_in_filter split: if_splits option.splits)

lemma other_name: "fst p \<in> {''template'', ''batch'', ''infilterOptions''} \<Longrightarrow> get_token_string (pair_word p) ''options'' val = (False, val)"
  by (auto simp: get_token_string_def token_has_name_def pair_word_def)

lemma options_name: "get_token_string (pair_word (''options'', v)) ''options'' val = (True, v)"
  using get_token_string_append [of "''options''" v val] by (simp add: pair_word_def)

lemma last_text: "sv_texts v = a # map f ws \<Longrightarrow> ws \<noteq> [] \<Longrightarrow> sv_nth v (length ws) = f (last ws)"
proof -
  assume v: "sv_texts v = a # map f ws" and ne: "ws \<noteq> []"
  have "length ws < length (sv_texts v)" unfolding v by simp
  then show ?thesis using ne by (simp add: sv_nth_texts v nth_Cons' last_conv_nth del: length_sv_texts)
qed

text \<open>C38: The JSON options of a document reach the kit only when they are the last word of the message; when the message also names a
  template, a batch mode or filter options, which follow them, the kit has no options.\<close>

theorem json_options_only_last:
  fixes so :: "'f session_options" and oe :: "'f options_env"
  assumes "load_clean le (oc_jail oc) part so" and "CHR '' '' \<notin> set i" and "oc_signature oc i = None" "\<not> oc_accessibility oc i"
    and "\<And>x. oe_decode oe (le_encode le x) = x" and "so_watermarkText so \<noteq> [] \<longrightarrow> oe_stod oe (le_watermarkOpacity le) = Some z"
    and "part < 0" and options: "so_docOptions so \<noteq> []"
  shows "\<exists>k. kit_load_options oe (kit_input (''child-'' @ i) (child_frame oc i (load_message le part so))) (mk_session_options opacity False) =
      Ok (-1, [], k) \<and> so_docOptions k = (if load_back le so = [] then so_docOptions so else [])"
proof -
  let ?tokens = "tokenize_data (get_first_line (kit_input (''child-'' @ i) (child_frame oc i (load_message le part so)))) (CHR '' '')"
  let ?words = "kit_words le (oc_jail oc) part so"
  have texts: "sv_texts ?tokens = ''load'' # map pair_word ?words"
    unfolding kit_words_def using assms(1-4) by (intro kit_text) (auto simp: load_clean_def)
  obtain k n where r: "read_pairs oe ?words (state (mk_session_options opacity False) 1) = Ok (state k n)" and none: "so_docOptions k = []"
    and n: "n + units (part \<ge> 0) + units (so_docOptions so \<noteq> []) = 3 + length (load_pairs le part so)"
    using read_message [OF assms(5,6), of "oc_jail oc" part opacity] unfolding kit_words_def by blast
  have pairs: "load_pairs le part so = load_front le part so @ [(''options'', so_docOptions so)] @ load_back le so"
    using options by (simp add: load_pairs_def)
  have words: "sv_size ?tokens = Suc (length ?words)" unfolding size_texts texts by simp
  have "n = length ?words" using n assms(7) options pairs by (simp add: kit_words_def)
  then have size: "sv_size ?tokens = Suc n" "n = length ?words" "?words \<noteq> []" using words by (auto simp: kit_words_def)
  have "tl (load_pairs le part so) \<noteq> []" "last (tl (load_pairs le part so)) = last (load_pairs le part so)"
    using front_first [of le part so] by (cases "load_front le part so"; simp add: pairs)+
  then have end_word: "last ?words = last (load_pairs le part so)" by (simp add: kit_words_def)
  have "sv_nth ?tokens n = pair_word (last ?words)"
    using last_text [OF texts size(3)] size(2) by simp
  then have "so_docOptions (trailing_options ?tokens n k) = (if load_back le so = [] then so_docOptions so else [])"
    using size none back_names [of "last (load_back le so)" le so]
    by (simp add: trailing_options_def end_word pairs options_name other_name last_append)
  then show ?thesis using kit_reads [OF texts, of oe] r by (simp add: kit_load_options_def disabled_fields)
qed

theorem json_options_only_last_witness:
  "\<exists>k. kit_load_options ex_reader (kit_input ''child-0001'' (child_frame (ex_outside 20) ''0001'' (load_message ex_load (-1) ex_options)))
      (mk_session_options 0 False) = Ok (-1, [], k) \<and> so_docOptions k = [] \<and> so_docOptions ex_options = ''o''"
proof -
  have n: "so_docOptions ex_options = ''o''" by code_simp
  show ?thesis
    using json_options_only_last [OF ex_load_facts(1) _ ex_load_facts(2-5) _ ex_load_facts(6), where opacity = 0] ex_load_facts(7) n by auto
qed

section \<open>Permissions\<close>

lemma readonly_zero: "option_step oe ''readonly=0'' pa = Ok (pa\<lparr>pa_offset := pa_offset pa + 1, pa_options := (pa_options pa)\<lparr>so_isReadOnly := False\<rparr>\<rparr>)"
proof -
  have "parse_name_value_pair ''readonly=0'' (CHR ''='') = Some (''readonly'', ''0'')" by code_simp
  then show ?thesis by (simp add: option_step_def set_option_defs Let_def)
qed

lemma trailing_read_only [simp]: "so_isReadOnly (trailing_options tokens n so) = so_isReadOnly so"
  using trailing_only_options [of tokens n so] by auto

lemma override_read_only [simp]: "so_isReadOnly (override_doc_option bs so) = so_isReadOnly so"
  by (auto simp: override_doc_option_def Let_def split: option.splits prod.splits if_splits)

lemma parsed_read_only:
  assumes texts: "sv_texts tokens = ''load'' # ws @ [''readonly=0'']" and p: "parse_doc_options oe tokens part so = Ok (part', t, k)"
  shows "\<not> so_isReadOnly k"
proof -
  have read: "\<not> so_isReadOnly (pa_options pa)" if "res_fold (option_step oe) (xs @ [''readonly=0'']) pa0 = Ok pa" for xs pa0 pa
    using that by (auto simp: res_fold_append res_bind_Ok readonly_zero)
  have tl: "map (sv_nth tokens) [Suc 0..<sv_size tokens] = ws @ [''readonly=0'']"
    using nth_from_one [of tokens] by (simp add: texts)
  have "map (sv_nth tokens) [2..<sv_size tokens] = tl (map (sv_nth tokens) [Suc 0..<sv_size tokens])"
    by (simp add: map_tl [symmetric] numeral_2_eq_2 del: upt_Suc)
  then have tl2: "ws \<noteq> [] \<Longrightarrow> map (sv_nth tokens) [2..<sv_size tokens] = tl ws @ [''readonly=0'']" by (simp add: tl)
  have first: "ws = [] \<Longrightarrow> \<not> starts_with ''part='' (sv_nth tokens 1)"
    by (simp add: sv_nth_texts texts starts_with_def)
  define off where "off = (if sv_size tokens > 2 \<and> starts_with ''part='' (sv_nth tokens 1) then 2 else 1 :: nat)"
  have "\<exists>xs. map (sv_nth tokens) [off..<sv_size tokens] = xs @ [''readonly=0'']"
  proof (cases "ws = []")
    case True
    then have "off = 1" using first by (simp add: off_def)
    then show ?thesis using tl by (simp only: One_nat_def) blast
  next
    case False
    then show ?thesis using tl tl2 [OF False] unfolding off_def by (simp only: One_nat_def split: if_split) blast
  qed
  then obtain xs where xs: "map (sv_nth tokens) [off..<sv_size tokens] = xs @ [''readonly=0'']" by blast
  obtain pa where "res_fold (option_step oe) (map (sv_nth tokens) [off..<sv_size tokens]) (state so off) = Ok pa"
    and "k = disable_spell_check_if_read_only (trailing_options tokens (pa_offset pa) (pa_options pa))"
    using p by (auto simp: parse_doc_options_def res_bind_Ok off_def simp del: upt_Suc split: if_splits)
  then show ?thesis using read [of xs "state so off"] by (simp add: xs disabled_fields)
qed

lemma sessions_kept [simp]:
  "dm_sessions (session_send j m d) = dm_sessions d" "dm_sessions (send_slide_show le j d) = dm_sessions d"
  by (simp_all add: session_send_def send_slide_show_def split: option.splits)

lemma forward_sessions: "forward_to_child oc j m d = Ok (b, d') \<Longrightarrow> dm_sessions d' = dm_sessions d"
  by (auto simp: forward_to_child_def forward_urp_to_child_def split: if_splits)

text \<open>C37: A client lifts its own restriction to reading: a message that loads a document and ends with the option \<open>readonly=0\<close> makes
  the session editable, whatever the permissions that the storage gave it, and the kit is told so.\<close>

theorem client_lifts_read_only:
  assumes "sv_texts tokens = ''load'' # ws @ [''readonly=0'']"
    and "server_load_document oe le bs oc i tokens so d = Ok (ok, so', d')"
  shows "\<not> so_isReadOnly so' \<and> (''readonly'', ''0'') \<in> set (load_pairs le part so') \<and>
    list_all (\<lambda>s. if se_id s = i then is_editable s else True) (dm_sessions d')"
proof -
  have "1 < sv_size tokens" using assms(1) by (simp add: size_texts del: length_sv_texts)
  then obtain part' t k where p: "parse_doc_options oe tokens (-1) so = Ok (part', t, k)" and so': "so' = override_doc_option bs k"
    and f: "forward_to_child oc i (load_message le part' so') (send_slide_show le i (change_session i (set_session_flags so') d)) = Ok (ok, d')"
    using assms(2) by (auto simp: server_load_document_def res_bind_Ok Let_def)
  have writes: "\<not> so_isReadOnly so'" using parsed_read_only [OF assms(1) p] so' by simp
  moreover from this have "(''readonly'', ''0'') \<in> set (load_pairs le part so')" by (simp add: load_pairs_def load_front_def)
  moreover have sessions: "dm_sessions d' = map (\<lambda>s. if se_id s = i then set_session_flags so' s else s) (dm_sessions d)"
    using forward_sessions [OF f] by (simp add: change_session_def)
  have "se_id s = i \<longrightarrow> is_editable s" if s: "s \<in> set (dm_sessions d')" for s
  proof -
    obtain s0 where "s = (if se_id s0 = i then set_session_flags so' s0 else s0)" using s unfolding sessions by fastforce
    then show ?thesis using writes by (cases "se_id s0 = i") (simp_all add: set_session_flags_def is_editable_def)
  qed
  ultimately show ?thesis by (simp add: list_all_iff)
qed

theorem client_lifts_read_only_witness:
  "let r = the_ok (server_load_document ex_reader ex_load None (ex_outside 20) ''0001'' ex_tokens (mk_session_options 0 True) ex_restricted)
   in \<not> so_isReadOnly (fst (snd r)) \<and> list_all is_editable (dm_sessions (snd (snd r))) \<and> \<not> list_all is_editable (dm_sessions ex_restricted)"
proof -
  let ?r = "server_load_document ex_reader ex_load None (ex_outside 20) ''0001'' ex_tokens (mk_session_options 0 True) ex_restricted"
  have e: "\<not> isl ?r" "sv_texts ex_tokens = ''load'' # [''url=u''] @ [''readonly=0'']" "\<not> list_all is_editable (dm_sessions ex_restricted)"
    "map se_id (dm_sessions (snd (snd (the_ok ?r)))) = [''0001'']"
    by code_simp+
  have r: "?r = Ok (fst (the_ok ?r), fst (snd (the_ok ?r)), snd (snd (the_ok ?r)))" using ok_the_ok [OF e(1)] by simp
  show ?thesis
    using client_lifts_read_only [OF e(2) r, of 0] e(3,4) unfolding Let_def list_all_iff by (auto simp: map_eq_Cons_conv)
qed

end
