(* ===== verification/Spec2Isabelle.thy ===== *)
theory Spec2Isabelle
  imports WireTheorems KitTheorems DeltaTheorems CacheTheorems SessionTheorems SlideTheorems SocketTheorems HttpTheorems UnloadTheorems LoadTheorems
begin

text \<open>
  Collabora Online: how the tiles of a document get from the rendering process to the browser, and how its changes get into the storage.

  A browser edits a document through a server process (src/wsd) that talks to one rendering process
  for each document (src/kit). The document is shown as tiles. The browser asks for tiles, the server
  answers from its cache or asks the kit, the kit renders the tiles in the order of their priorities,
  sends keyframes or deltas against what it sent before, and the server caches these frames and
  passes on to every browser what it does not have yet. When the document changes, the kit tells the
  server which area is no longer valid and the server asks for the visible tiles of it again.

  \<^bold>\<open>Theories and the code they model.\<close>
  \<^item> \<open>Prelude\<close>, \<open>CxxLib\<close>: 32-bit arithmetic of C++ on \<open>int\<close> (\<open>s32\<close>, \<open>cdiv\<close>), results with the error of
    an exception or a failed assertion (\<open>res\<close>), and the parts of the C and C++ library that the source uses
    (\<open>strtol\<close>, \<open>strtoul\<close>, \<open>find\<close>, decimal output).
  \<^item> \<open>Rectangles\<close> (common/Rectangle.hpp), \<open>StringVectors\<close>, \<open>Tokens\<close> (common/StringVector.hpp/.cpp),
    \<open>Protocol\<close> (common/Protocol.hpp/.cpp): boxes, tokenizers and token parsers.
  \<^item> \<open>TileDescs\<close>, \<open>TileWire\<close>, \<open>TileCombineds\<close>, \<open>CombinedWire\<close> (wsd/TileDesc.hpp): descriptors of tiles, requests that
    combine them, and their text on the wire.
  \<^item> \<open>KitQueues\<close>, \<open>TileQueues\<close>, \<open>TilePops\<close>, \<open>KitMessages\<close>, \<open>Callbacks\<close>, \<open>KitProps\<close> (kit/KitQueue.hpp/.cpp): the queue
    of the kit with its messages, its callbacks from LibreOfficeKit and its tiles by priority.
  \<^item> \<open>Deltas\<close>, \<open>DeltaRows\<close>, \<open>DeltaApply\<close>, \<open>DeltaProps\<close>, \<open>DeltaCache\<close> (kit/Delta.hpp): run-length encoded rows, deltas of
    two images, keyframes, and the images remembered.
  \<^item> \<open>Stores\<close>, \<open>TileCaches\<close>, \<open>TileFrames\<close>, \<open>CacheInvariant\<close> (wsd/TileCache.hpp/.cpp): the frames of a tile, the cache
    of the tiles with eviction and invalidation, the sessions that wait for a rendering.
  \<^item> \<open>Messages\<close>, \<open>MessageQueues\<close> (common/Message.hpp, wsd/SenderQueue.hpp): messages and the queue of a session.
  \<^item> \<open>SlideCaches\<close> (wsd/SlideCache.hpp/.cpp): the layers of the slides shown last.
  \<^item> \<open>ClientTiles\<close>, \<open>ClientSends\<close>, \<open>TileLimits\<close> (wsd/ClientSession.hpp/.cpp, the tracker of wsd/TileCache.hpp): what a session was sent, its
    visible area with the panes, and the tiles on their way.
  \<^item> \<open>Brokers\<close>, \<open>BrokerProps\<close>, \<open>BrokerRequests\<close>, \<open>Invalidations\<close> (wsd/DocumentBroker.cpp and the tile commands of
    wsd/ClientSession.cpp): requests, replies and invalidations across the cache, the sessions and the kit.
  \<^item> \<open>Buffers\<close> (net/Buffer.hpp), \<open>WebSockets\<close>, \<open>WebSocketProps\<close>, \<open>WebSocketStreams\<close> (net/WebSocketHandler.hpp): the buffers of a
    socket, and the frames of the web sockets between browser, server and kit, with the format and the conversation of RFC 6455 as reference.
  \<^item> \<open>HttpHeaders\<close>, \<open>HttpMessages\<close>, \<open>HttpParsers\<close> (net/HttpRequest.hpp/.cpp): headers, status lines, requests and responses, written
    and parsed; \<open>HttpSockets\<close> (net/Socket.cpp and the multipart parser of net/HttpRequest.cpp): chunks in the input of a socket.
    \<open>HttpProps\<close>, \<open>HttpStreams\<close>, \<open>HttpRequests\<close>, \<open>ChunkProps\<close> have the formats as references and what the parsers do with each part of a
    message that may have arrived.
  \<^item> \<open>SaveManagers\<close>, \<open>Documents\<close>, \<open>DocumentSaving\<close>, \<open>DocumentLocks\<close>, \<open>DocumentUploading\<close>, \<open>DocumentResponses\<close>, \<open>DocumentPolling\<close>
    (wsd/DocumentBroker.hpp/.cpp, wsd/ClientSession.cpp, wsd/wopi/WopiStorage.cpp): the document at the server, with the times of requests, its sessions,
    saving, locking, uploading, unloading and one round of the loop of its thread. The answers of the storage, the clock, the files on disk and
    the connection are an argument of every operation (\<open>outside\<close>). \<open>DocumentViews\<close>, \<open>DocumentEvolution\<close>: an abstract protocol of saving and uploading
    that every method refines. \<open>DocumentWorlds\<close>: the document together with what the kit and the storage hold, as a transition
    relation of edits, server events, answers of the kit and of the storage in any order, with its invariant; \<open>DocumentStops\<close>: what lets a document go on.
    The kit is taken to answer the last request to save, the time of a file to identify its contents and not to go back, and the renaming of
    the saved file to succeed; a history variable records when a success of the storage was counted for another request than its own.
  \<^item> \<open>SessionOptions\<close> (common/Session.cpp, the loading of wsd/ClientSession.cpp): the options of a session on the way from the client through
    the server to the kit.
  \<^item> \<open>Delivery\<close>: the steps that a tile goes through from the kit to a client, as a transition relation.

  A class is a record of its fields and a method a function from the record to the record, with its
  result; an exception or assertion that fails is an \<open>Err\<close>. Iteration over a container whose order the
  standard leaves open follows an association list. Numbers of type \<open>int\<close> are integers with the wrap-around written
  out, wire ids and hashes are words.

  \<^bold>\<open>What the theorems show.\<close>
  \<^item> \<open>WireTheorems\<close>: descriptors and combined requests survive serialization and parsing; the tokenizers
    split as specified; rectangle operations are those of sets of points.
  \<^item> \<open>KitTheorems\<close>: in every reachable state popping tiles succeeds and serves the highest priority, the rendering
    loop ends, merged invalidations cover what was invalidated, a callback or request for a tile replaces exactly the older one that it
    makes obsolete.
  \<^item> \<open>DeltaTheorems\<close>: a client that applies the frames shows the last image; the images remembered are bounded.
  \<^item> \<open>CacheTheorems\<close>: the size kept of the cache is exact, saved frames reach those who wait, eviction removes
    exactly the oldest tiles that are enough and not being rendered, and invalidation what the area touches.
  \<^item> \<open>SessionTheorems\<close>, \<open>SlideTheorems\<close>: a client that has taken its queue has what the cache holds; requests and
    invalidations are served; the tiles on their way are bounded.
  \<^item> \<open>SocketTheorems\<close>: however the bytes are cut up, a web socket does what RFC 6455 prescribes with the messages
    and pings of allowed frames, except that it does not answer an empty ping; what happens with a close frame of one byte and with a second shutdown.
  \<^item> \<open>HttpTheorems\<close>: requests and responses arrive as they were sent, however their bytes are cut up, with a body of known length or in chunks;
    chunks are moved together; and how the parsers go wrong at the end of a message.
  \<^item> \<open>SavingTheorems\<close>, \<open>UnloadTheorems\<close>: when no loss is reported at the end, the storage has the last contents, unless the owner
    discarded a conflict or a success of the storage was counted for another request, which can happen; a document is stopped by unloading only
    when all is saved and uploaded or cannot be; the server makes only the moves of the protocol and takes nothing back; times between requests;
    what an upload tells the storage, and how an upload that replaces another one and a save under another name go wrong.
  \<^item> \<open>LoadTheorems\<close>: the options of a session arrive at the kit, except the part; its JSON options only when nothing follows them; and a client can lift the
    restriction of its session to reading.
  Interfaces are locales (ordered queues, keyed stores) that are interpreted on the definitions of the
  model where these are defined.

  \<^bold>\<open>Bounds and termination.\<close> Loops are recursive functions that are proved to end, except the
  search for a named value, whose loop runs forever for an empty name and is a partial function, with a
  proof that it ends for every other name. No fuel is used in a model of a loop.

  \<^bold>\<open>Not modelled.\<close> LibreOfficeKit, the compressor, the JSON parser and the reader of HTTP header fields (Poco) are parameters. Sockets, polling, threads and
  locks, local storage, downloading and presets, the dispatch of HTTP requests, administration and the clipboard are not modelled: they
  are I/O around libraries. Logging and the output of states for debugging are left out.
\<close>

end
